(* ===== verification/PP_Prelude.thy ===== *)
theory PP_Prelude
  imports Main "HOL-Library.Word" "HOL-Library.Multiset" "HOL-Library.Product_Lexorder"
begin

text \<open>
  Prelude of the Path Planner development: the names of the machine types, the collections of
  simplification rules that the component theories fill, models of the algorithms of the C++
  standard library the sources call (\<open>std::sort\<close>, \<open>std::lower_bound\<close>, \<open>std::binary_search\<close>,
  \<open>std::unique\<close>, \<open>std::adjacent_find\<close>) with the facts the components use about them, and the
  \<open>sorted_view\<close> locale, the contract of every keyed lookup table of the program.
\<close>

named_theorems enum_simps \<open>tables and numeric values of the enumerations\<close>
named_theorems checked_simps \<open>characterisations of the checked arithmetic\<close>
named_theorems view_simps \<open>unfolding rules of the planning view\<close>
named_theorems search_simps \<open>unfolding rules of the searcher\<close>

type_synonym u8 = "8 word"
type_synonym u16 = "16 word"
type_synonym u32 = "32 word"
type_synonym u64 = "64 word"
type_synonym bytes = "u8 list"

section \<open>Algorithms of the C++ standard library\<close>

text \<open>
  \<open>std::lower_bound\<close> on a range partitioned by "less than the value": the halving search over
  \<open>[first, first + cnt)\<close> that the standard prescribes up to the choice of the probe.
\<close>

function lower_bound_from :: "('r \<Rightarrow> bool) \<Rightarrow> 'r list \<Rightarrow> nat \<Rightarrow> nat \<Rightarrow> nat" where
  "lower_bound_from below xs first cnt =
     (if cnt = 0 then first
      else let half = cnt div 2; mid = first + half in
           if below (xs ! mid) then lower_bound_from below xs (Suc mid) (cnt - (half + 1))
           else lower_bound_from below xs first half)"
  by pat_completeness auto
termination
  by (relation "measure (\<lambda>(below, xs, first, cnt). cnt)") auto

declare lower_bound_from.simps [simp del]

definition lower_bound :: "('r \<Rightarrow> bool) \<Rightarrow> 'r list \<Rightarrow> nat" where
  "lower_bound below xs = lower_bound_from below xs 0 (length xs)"

definition binary_search :: "'a::linorder list \<Rightarrow> 'a \<Rightarrow> bool" where
  "binary_search xs v =
     (let i = lower_bound (\<lambda>x. x < v) xs in i < length xs \<and> \<not> v < xs ! i)"

text \<open>\<open>std::unique\<close> keeps the first of every group of equal neighbours.\<close>

fun unique_by :: "('a \<Rightarrow> 'a \<Rightarrow> bool) \<Rightarrow> 'a list \<Rightarrow> 'a list" where
  "unique_by eq [] = []"
| "unique_by eq [x] = [x]"
| "unique_by eq (x # y # zs) = (if eq x y then unique_by eq (x # zs) else x # unique_by eq (y # zs))"

fun adjacent_find :: "'a list \<Rightarrow> bool" where
  "adjacent_find (x # y # zs) = (x = y \<or> adjacent_find (y # zs))"
| "adjacent_find _ = False"

subsection \<open>Facts about them\<close>

text \<open>A predicate that holds on a prefix and fails on the rest, by index.\<close>

definition partitioned :: "('r \<Rightarrow> bool) \<Rightarrow> 'r list \<Rightarrow> bool" where
  "partitioned below xs \<longleftrightarrow> (\<forall>i j. i \<le> j \<longrightarrow> j < length xs \<longrightarrow> below (xs ! j) \<longrightarrow> below (xs ! i))"

lemma lower_bound_from_spec:
  assumes "partitioned below xs" "first + cnt \<le> length xs"
    and "\<forall>i < first. below (xs ! i)" "\<forall>i < length xs. first + cnt \<le> i \<longrightarrow> \<not> below (xs ! i)"
  shows "(\<forall>i < lower_bound_from below xs first cnt. below (xs ! i)) \<and>
         lower_bound_from below xs first cnt \<le> length xs \<and>
         (\<forall>i < length xs. lower_bound_from below xs first cnt \<le> i \<longrightarrow> \<not> below (xs ! i))"
  using assms
proof (induction below xs first cnt rule: lower_bound_from.induct)
  case (1 below xs first cnt)
  define mid where "mid = first + cnt div 2"
  let ?P = "\<lambda>b. (\<forall>i < b. below (xs ! i)) \<and> b \<le> length xs \<and>
    (\<forall>i < length xs. b \<le> i \<longrightarrow> \<not> below (xs ! i))"
  show ?case
  proof (cases "cnt = 0")
    case True
    with "1.prems" show ?thesis by (simp add: lower_bound_from.simps)
  next
    case False
    then have mid: "mid < length xs" using "1.prems"(2) by (simp add: mid_def)
    show ?thesis
    proof (cases "below (xs ! mid)")
      case True
      then have pre: "\<forall>i < Suc mid. below (xs ! i)"
        using "1.prems"(1) mid by (auto simp: partitioned_def less_Suc_eq_le)
      have eq: "Suc mid + (cnt - (cnt div 2 + 1)) = first + cnt"
        using False by (simp add: mid_def)
      have "lower_bound_from below xs first cnt = lower_bound_from below xs (Suc mid) (cnt - (cnt div 2 + 1))"
        using False True by (simp add: lower_bound_from.simps [of below xs first cnt] mid_def Let_def)
      moreover have "?P (lower_bound_from below xs (Suc mid) (cnt - (cnt div 2 + 1)))"
        using "1.IH"(1) [OF False refl refl] True pre "1.prems" unfolding mid_def [symmetric] eq
        by blast
      ultimately show ?thesis by simp
    next
      case notless: False
      then have above: "\<forall>i < length xs. first + cnt div 2 \<le> i \<longrightarrow> \<not> below (xs ! i)"
        using "1.prems"(1) by (auto simp: partitioned_def mid_def)
      have "lower_bound_from below xs first cnt = lower_bound_from below xs first (cnt div 2)"
        using False notless by (simp add: lower_bound_from.simps [of below xs first cnt] mid_def Let_def)
      moreover have half: "first + cnt div 2 \<le> length xs" using mid by (simp add: mid_def)
      moreover have "?P (lower_bound_from below xs first (cnt div 2))"
        by (rule "1.IH"(2) [OF False refl refl _ "1.prems"(1) half "1.prems"(3) above])
          (use notless in \<open>simp add: mid_def\<close>)
      ultimately show ?thesis by metis
    qed
  qed
qed

lemma lower_bound_spec:
  assumes "partitioned below xs"
  shows "\<forall>i < lower_bound below xs. below (xs ! i)" "lower_bound below xs \<le> length xs"
    "\<forall>i < length xs. lower_bound below xs \<le> i \<longrightarrow> \<not> below (xs ! i)"
  using lower_bound_from_spec [OF assms, of 0 "length xs"] by (auto simp: lower_bound_def)

lemma sorted_partitioned:
  fixes v :: "'k::linorder"
  assumes "sorted (map key xs)"
  shows "partitioned (\<lambda>x. key x < v) xs"
  unfolding partitioned_def
proof (intro allI impI)
  fix i j assume ij: "i \<le> j" "j < length xs" and "key (xs ! j) < v"
  from assms ij have "key (xs ! i) \<le> key (xs ! j)"
    by (auto dest: sorted_nth_mono [of "map key xs" i j])
  then show "key (xs ! i) < v" using \<open>key (xs ! j) < v\<close> by (rule le_less_trans)
qed

text \<open>
  The idiom of every lookup of the program: \<open>lower_bound\<close>, then the test that the element found
  carries the key itself.
\<close>

definition find_sorted :: "('r \<Rightarrow> 'k::linorder) \<Rightarrow> 'r list \<Rightarrow> 'k \<Rightarrow> nat option" where
  "find_sorted key xs k =
     (let i = lower_bound (\<lambda>r. key r < k) xs
      in if i = length xs \<or> key (xs ! i) \<noteq> k then None else Some i)"

lemma find_sorted_SomeD:
  assumes "sorted (map key xs)" "find_sorted key xs k = Some i"
  shows "i < length xs" "key (xs ! i) = k"
  using lower_bound_spec(2) [OF sorted_partitioned [OF assms(1), of k]] assms(2)
  by (auto simp: find_sorted_def Let_def split: if_splits)

lemma find_sorted_NoneD:
  assumes "sorted (map key xs)" "find_sorted key xs k = None"
  shows "k \<notin> key ` set xs"
proof
  let ?lb = "lower_bound (\<lambda>r. key r < k) xs"
  note lb = lower_bound_spec [OF sorted_partitioned [OF assms(1), of k]]
  assume "k \<in> key ` set xs"
  then obtain j where j: "j < length xs" "key (xs ! j) = k" by (auto simp: in_set_conv_nth)
  have le: "?lb \<le> j" using lb(1) j by (metis less_irrefl not_le)
  then have lt: "?lb < length xs" using j by simp
  have "key (xs ! ?lb) \<le> key (xs ! j)"
    using sorted_nth_mono [OF assms(1) le] j lt by simp
  moreover have "\<not> key (xs ! ?lb) < k" using lb(3) lt by simp
  ultimately have "key (xs ! ?lb) = k" using j by simp
  with assms(2) lt show False by (simp add: find_sorted_def Let_def)
qed

lemma strict_sorted_key_inj:
  assumes "sorted_wrt (<) (map key xs)" "i < length xs" "j < length xs" "key (xs ! i) = (key (xs ! j) :: 'k::linorder)"
  shows "i = j"
proof -
  have "distinct (map key xs)" using assms(1) by (simp add: strict_sorted_iff)
  then show ?thesis using assms(2-4) by (simp add: distinct_conv_nth) metis
qed

lemma find_sorted_eq_Some:
  assumes "sorted_wrt (<) (map key xs)"
  shows "find_sorted key xs k = Some i \<longleftrightarrow> i < length xs \<and> key (xs ! i) = (k :: 'k::linorder)"
proof
  have s: "sorted (map key xs)" using assms by (simp add: strict_sorted_iff)
  show "i < length xs \<and> key (xs ! i) = k" if "find_sorted key xs k = Some i"
    using find_sorted_SomeD [OF s that] by simp
  show "find_sorted key xs k = Some i" if i: "i < length xs \<and> key (xs ! i) = k"
  proof (cases "find_sorted key xs k")
    case None
    from find_sorted_NoneD [OF s None] i show ?thesis by auto
  next
    case (Some j)
    from find_sorted_SomeD [OF s Some] i have "i = j"
      using strict_sorted_key_inj [OF assms, of i j] by simp
    with Some show ?thesis by simp
  qed
qed

lemma binary_search_iff [simp]:
  assumes "sorted (xs :: 'a::linorder list)"
  shows "binary_search xs v \<longleftrightarrow> v \<in> set xs"
proof -
  have s: "sorted (map (\<lambda>x. x) xs)" using assms by simp
  note lb = lower_bound_spec [OF sorted_partitioned [OF s, of v]]
  let ?lb = "lower_bound (\<lambda>x. x < v) xs"
  have fs: "binary_search xs v \<longleftrightarrow> find_sorted (\<lambda>x. x) xs v \<noteq> None"
    using lb(2,3) by (auto simp: binary_search_def find_sorted_def Let_def order_le_less)
  show ?thesis
  proof (cases "find_sorted (\<lambda>x. x) xs v")
    case None
    with find_sorted_NoneD [OF s None] fs show ?thesis by auto
  next
    case (Some i)
    with find_sorted_SomeD [OF s Some] fs show ?thesis by auto
  qed
qed

lemma adjacent_find_sorted:
  "sorted (xs :: 'a::linorder list) \<Longrightarrow> adjacent_find xs \<longleftrightarrow> \<not> distinct xs"
proof (induction xs rule: adjacent_find.induct)
  case (1 x y zs)
  then show ?case by (auto simp: antisym)
qed simp_all

lemma adjacent_find_sort [simp]: "adjacent_find (sort xs) \<longleftrightarrow> \<not> distinct xs"
  by (simp add: adjacent_find_sorted)

lemma set_unique_by_eq [simp]: "set (unique_by (=) xs) = set xs"
  by (induction "(=) :: 'a \<Rightarrow> 'a \<Rightarrow> bool" xs rule: unique_by.induct) auto

lemma sorted_unique_by_eq: "sorted xs \<Longrightarrow> sorted_wrt (<) (unique_by (=) (xs :: 'a::linorder list))"
proof (induction "(=) :: 'a \<Rightarrow> 'a \<Rightarrow> bool" xs rule: unique_by.induct)
  case (3 x y zs)
  then show ?case by (cases "x = y") (auto simp: order_less_le_trans order.not_eq_order_implies_strict)
qed simp_all

lemma distinct_unique_sort [simp]: "distinct (unique_by (=) (sort (xs :: 'a::linorder list)))"
  using sorted_unique_by_eq [of "sort xs"] by (simp add: strict_sorted_iff)

lemma length_unique_by_le: "length (unique_by eq xs) \<le> length xs"
  by (induction eq xs rule: unique_by.induct) auto

lemma set_unique_by_subset: "set (unique_by eq xs) \<subseteq> set xs"
  by (induction eq xs rule: unique_by.induct) auto

section \<open>The contract of a keyed lookup table\<close>

text \<open>
  Every lookup table of the program (nodes, links, endpoints, link states, port states, failure
  domains) is built by sorting the published records by their key and is read by \<open>lower_bound\<close>
  and an equality test. A client may rely on this: when the keys published are distinct, the
  lookup returns exactly the record published under the key.
\<close>

locale sorted_view =
  fixes build :: "'r list \<Rightarrow> 'v"
    and find :: "'v \<Rightarrow> 'k::linorder \<Rightarrow> 'r option"
    and key :: "'r \<Rightarrow> 'k"
    and records :: "'v \<Rightarrow> 'r list"
  assumes records_build: "records (build rs) = sort_key key rs"
    and find_records: "find v k = map_option (\<lambda>i. records v ! i) (find_sorted key (records v) k)"
begin

lemma records_sorted: "sorted (map key (records (build rs)))"
  by (simp add: records_build)

lemma find_sound: "find (build rs) k = Some r \<Longrightarrow> r \<in> set rs \<and> key r = k"
  using find_sorted_SomeD [OF records_sorted, of rs k]
  by (auto simp: find_records records_build) (metis nth_mem set_sort length_sort)

lemma find_None: "find (build rs) k = None \<longleftrightarrow> k \<notin> key ` set rs"
  using find_sorted_NoneD [OF records_sorted, of rs k] find_sorted_SomeD [OF records_sorted, of rs k]
  by (cases "find_sorted key (records (build rs)) k") (auto simp: find_records records_build in_set_conv_nth image_iff, metis length_sort nth_mem set_sort)

lemma find_complete:
  assumes "distinct (map key rs)" "r \<in> set rs"
  shows "find (build rs) (key r) = Some r"
proof (cases "find (build rs) (key r)")
  case None
  with assms(2) show ?thesis by (auto simp: find_None)
next
  case (Some r')
  with find_sound [OF Some] assms show ?thesis
    by (auto simp: distinct_map inj_on_def)
qed

end

end
