(* ===== verification/Status.thy ===== *)
theory Status
  imports PP_Prelude
begin

text \<open>
  The enumerations of \<open>status.hpp\<close> and the enum plumbing of \<open>status.cpp\<close>. Every enumeration
  of the program carries explicit numeric values and a table of names; the \<open>enum_table\<close> locale is
  the contract of such a table and the round trips of \<open>ToString\<close> and \<open>Parse\<close> are proved once in
  it. \<open>PathLayer\<close> and \<open>PlanningMode\<close> have a constructor \<open>other\<close> for a numeric value outside the
  enumerators (a \<open>static_cast\<close> of the caller), because request validation tests for it.
  \<open>DiagnosticCode\<close> is its numeric value, because the rejection log indexes an array with it and
  casts the index back.
\<close>

section \<open>Enum plumbing\<close>

type_synonym EnumEntry = "string \<times> nat"

fun EnumValueFromName :: "EnumEntry list \<Rightarrow> string \<Rightarrow> nat option" where
  "EnumValueFromName [] name = None"
| "EnumValueFromName (e # es) name = (if fst e = name then Some (snd e) else EnumValueFromName es name)"

fun EnumNameFromValue :: "EnumEntry list \<Rightarrow> nat \<Rightarrow> string" where
  "EnumNameFromValue [] v = ''''"
| "EnumNameFromValue (e # es) v = (if snd e = v then fst e else EnumNameFromValue es v)"

definition ParseEnum :: "EnumEntry list \<Rightarrow> (nat \<Rightarrow> 'e option) \<Rightarrow> string \<Rightarrow> 'e option" where
  "ParseEnum table cast name = Option.bind (EnumValueFromName table name) cast"

definition EnumName :: "EnumEntry list \<Rightarrow> nat \<Rightarrow> string" where
  "EnumName table v =
     (let name = EnumNameFromValue table v in if name = '''' then ''UNKNOWN_VALUE'' else name)"

definition IsKnownEnumValue :: "EnumEntry list \<Rightarrow> nat \<Rightarrow> bool" where
  "IsKnownEnumValue table v \<longleftrightarrow> EnumNameFromValue table v \<noteq> ''''"

lemma EnumValueFromName_map_of: "EnumValueFromName table name = map_of table name"
  by (induction table) auto

lemma EnumNameFromValue_in:
  "distinct (map snd table) \<Longrightarrow> (n, v) \<in> set table \<Longrightarrow> EnumNameFromValue table v = n"
  by (induction table) force+

lemma EnumNameFromValue_notin: "v \<notin> snd ` set table \<Longrightarrow> EnumNameFromValue table v = ''''"
  by (induction table) auto

text \<open>
  The contract of a name table: names and values are distinct, no name is empty, and the values
  listed are exactly those of the known enumerators.
\<close>

locale enum_table =
  fixes value_of :: "'e \<Rightarrow> nat" and cast :: "nat \<Rightarrow> 'e option"
    and table :: "EnumEntry list" and known :: "'e \<Rightarrow> bool"
  assumes cast_value: "known x \<Longrightarrow> cast (value_of x) = Some x"
    and known_listed: "known x \<Longrightarrow> value_of x \<in> snd ` set table"
    and listed_known: "list_all (\<lambda>(n, v). n \<noteq> '''' \<and>
          (case cast v of None \<Rightarrow> False | Some x \<Rightarrow> known x \<and> value_of x = v)) table"
    and distinct_names: "distinct (map fst table)"
    and distinct_values: "distinct (map snd table)"
begin

lemma name_entry:
  assumes "known x"
  obtains n where "(n, value_of x) \<in> set table" "n \<noteq> ''''" "EnumName table (value_of x) = n"
proof -
  from known_listed [OF assms] obtain n where n: "(n, value_of x) \<in> set table" by auto
  moreover have "n \<noteq> ''''" using listed_known n by (auto simp: list_all_iff)
  ultimately show ?thesis
    using that EnumNameFromValue_in [OF distinct_values n] by (simp add: EnumName_def)
qed

lemma parse_name:
  assumes "known x"
  shows "ParseEnum table cast (EnumName table (value_of x)) = Some x"
proof -
  obtain n where n: "(n, value_of x) \<in> set table" "EnumName table (value_of x) = n"
    using name_entry [OF assms] by metis
  then show ?thesis
    by (simp add: ParseEnum_def EnumValueFromName_map_of map_of_is_SomeI [OF distinct_names] cast_value [OF assms])
qed

lemma name_parse:
  assumes "ParseEnum table cast n = Some x"
  shows "EnumName table (value_of x) = n" "known x"
proof -
  from assms obtain v where v: "(n, v) \<in> set table" "cast v = Some x"
    by (auto simp: ParseEnum_def EnumValueFromName_map_of bind_eq_Some_conv dest: map_of_SomeD)
  with listed_known have "known x" "value_of x = v" "n \<noteq> ''''" by (auto simp: list_all_iff)
  then show "EnumName table (value_of x) = n" "known x"
    using EnumNameFromValue_in [OF distinct_values v(1)] by (simp_all add: EnumName_def)
qed

lemma known_iff: "IsKnownEnumValue table v \<longleftrightarrow> (\<exists>x. known x \<and> value_of x = v)"
proof
  assume "IsKnownEnumValue table v"
  then have "v \<in> snd ` set table"
    using EnumNameFromValue_notin by (auto simp: IsKnownEnumValue_def)
  with listed_known show "\<exists>x. known x \<and> value_of x = v"
    by (fastforce simp: list_all_iff split: option.splits)
next
  assume "\<exists>x. known x \<and> value_of x = v"
  then obtain n where "(n, v) \<in> set table" "n \<noteq> ''''"
    by (metis name_entry)
  then show "IsKnownEnumValue table v"
    by (simp add: IsKnownEnumValue_def EnumNameFromValue_in [OF distinct_values])
qed

end

section \<open>The enumerations\<close>

datatype PlanStatus =
    Status_kPlanned
  | Status_kNoPath
  | Status_kSourceUnknown
  | Status_kDestinationUnknown
  | Status_kSourceStale
  | Status_kDestinationStale
  | Status_kTopologyStale
  | Status_kEpochStale
  | Status_kConstraintUnsatisfied
  | Status_kResourceLimit
  | Status_kRevalidationRequired
  | Status_kMalformedRequest
  | Status_kUnauthorized
  | Status_kUnsupported
  | Status_kTruncatedByLimit

fun PlanStatus_value :: "PlanStatus \<Rightarrow> nat" where
  "PlanStatus_value Status_kPlanned = 1"
| "PlanStatus_value Status_kNoPath = 2"
| "PlanStatus_value Status_kSourceUnknown = 3"
| "PlanStatus_value Status_kDestinationUnknown = 4"
| "PlanStatus_value Status_kSourceStale = 5"
| "PlanStatus_value Status_kDestinationStale = 6"
| "PlanStatus_value Status_kTopologyStale = 7"
| "PlanStatus_value Status_kEpochStale = 8"
| "PlanStatus_value Status_kConstraintUnsatisfied = 9"
| "PlanStatus_value Status_kResourceLimit = 10"
| "PlanStatus_value Status_kRevalidationRequired = 11"
| "PlanStatus_value Status_kMalformedRequest = 12"
| "PlanStatus_value Status_kUnauthorized = 13"
| "PlanStatus_value Status_kUnsupported = 14"
| "PlanStatus_value Status_kTruncatedByLimit = 15"

definition PlanStatus_cast :: "nat \<Rightarrow> PlanStatus option" where
  "PlanStatus_cast v =
     (if v = 1 then Some Status_kPlanned
      else if v = 2 then Some Status_kNoPath
      else if v = 3 then Some Status_kSourceUnknown
      else if v = 4 then Some Status_kDestinationUnknown
      else if v = 5 then Some Status_kSourceStale
      else if v = 6 then Some Status_kDestinationStale
      else if v = 7 then Some Status_kTopologyStale
      else if v = 8 then Some Status_kEpochStale
      else if v = 9 then Some Status_kConstraintUnsatisfied
      else if v = 10 then Some Status_kResourceLimit
      else if v = 11 then Some Status_kRevalidationRequired
      else if v = 12 then Some Status_kMalformedRequest
      else if v = 13 then Some Status_kUnauthorized
      else if v = 14 then Some Status_kUnsupported
      else if v = 15 then Some Status_kTruncatedByLimit
      else None)"

definition kPlanStatusNames :: "EnumEntry list" where
  "kPlanStatusNames =
     [(''PLANNED'', 1),
      (''NO_PATH'', 2),
      (''SOURCE_UNKNOWN'', 3),
      (''DESTINATION_UNKNOWN'', 4),
      (''SOURCE_STALE'', 5),
      (''DESTINATION_STALE'', 6),
      (''TOPOLOGY_STALE'', 7),
      (''EPOCH_STALE'', 8),
      (''CONSTRAINT_UNSATISFIED'', 9),
      (''RESOURCE_LIMIT'', 10),
      (''REVALIDATION_REQUIRED'', 11),
      (''MALFORMED_REQUEST'', 12),
      (''UNAUTHORIZED'', 13),
      (''UNSUPPORTED'', 14),
      (''TRUNCATED_BY_LIMIT'', 15)]"

interpretation PlanStatus_enum: enum_table PlanStatus_value PlanStatus_cast kPlanStatusNames "\<lambda>_. True"
proof
  fix x :: PlanStatus
  assume "(\<lambda>_. True) x"
  then show "PlanStatus_cast (PlanStatus_value x) = Some x" "PlanStatus_value x \<in> snd ` set kPlanStatusNames"
    by (cases x; simp add: PlanStatus_cast_def kPlanStatusNames_def)+
qed (simp_all add: PlanStatus_cast_def kPlanStatusNames_def)

datatype Currentness =
    Cur_kCurrent
  | Cur_kRevalidationRequired
  | Cur_kStaleTopology
  | Cur_kStaleLinkState
  | Cur_kStalePortState
  | Cur_kStaleCapability
  | Cur_kStaleFailureDomain
  | Cur_kStalePolicy
  | Cur_kStaleEpoch
  | Cur_kRetired

fun Currentness_value :: "Currentness \<Rightarrow> nat" where
  "Currentness_value Cur_kCurrent = 1"
| "Currentness_value Cur_kRevalidationRequired = 2"
| "Currentness_value Cur_kStaleTopology = 3"
| "Currentness_value Cur_kStaleLinkState = 4"
| "Currentness_value Cur_kStalePortState = 5"
| "Currentness_value Cur_kStaleCapability = 6"
| "Currentness_value Cur_kStaleFailureDomain = 7"
| "Currentness_value Cur_kStalePolicy = 8"
| "Currentness_value Cur_kStaleEpoch = 9"
| "Currentness_value Cur_kRetired = 10"

definition Currentness_cast :: "nat \<Rightarrow> Currentness option" where
  "Currentness_cast v =
     (if v = 1 then Some Cur_kCurrent
      else if v = 2 then Some Cur_kRevalidationRequired
      else if v = 3 then Some Cur_kStaleTopology
      else if v = 4 then Some Cur_kStaleLinkState
      else if v = 5 then Some Cur_kStalePortState
      else if v = 6 then Some Cur_kStaleCapability
      else if v = 7 then Some Cur_kStaleFailureDomain
      else if v = 8 then Some Cur_kStalePolicy
      else if v = 9 then Some Cur_kStaleEpoch
      else if v = 10 then Some Cur_kRetired
      else None)"

definition kCurrentnessNames :: "EnumEntry list" where
  "kCurrentnessNames =
     [(''CURRENT'', 1),
      (''REVALIDATION_REQUIRED'', 2),
      (''STALE_TOPOLOGY'', 3),
      (''STALE_LINK_STATE'', 4),
      (''STALE_PORT_STATE'', 5),
      (''STALE_CAPABILITY'', 6),
      (''STALE_FAILURE_DOMAIN'', 7),
      (''STALE_POLICY'', 8),
      (''STALE_EPOCH'', 9),
      (''RETIRED'', 10)]"

interpretation Currentness_enum: enum_table Currentness_value Currentness_cast kCurrentnessNames "\<lambda>_. True"
proof
  fix x :: Currentness
  assume "(\<lambda>_. True) x"
  then show "Currentness_cast (Currentness_value x) = Some x" "Currentness_value x \<in> snd ` set kCurrentnessNames"
    by (cases x; simp add: Currentness_cast_def kCurrentnessNames_def)+
qed (simp_all add: Currentness_cast_def kCurrentnessNames_def)

datatype LinkState =
    Link_kUp
  | Link_kDown
  | Link_kFaulted
  | Link_kRetired
  | Link_kRevalidationRequired
  | Link_kUnknown
  | Link_kDegraded

fun LinkState_value :: "LinkState \<Rightarrow> nat" where
  "LinkState_value Link_kUp = 1"
| "LinkState_value Link_kDown = 2"
| "LinkState_value Link_kFaulted = 3"
| "LinkState_value Link_kRetired = 4"
| "LinkState_value Link_kRevalidationRequired = 5"
| "LinkState_value Link_kUnknown = 6"
| "LinkState_value Link_kDegraded = 7"

definition LinkState_cast :: "nat \<Rightarrow> LinkState option" where
  "LinkState_cast v =
     (if v = 1 then Some Link_kUp
      else if v = 2 then Some Link_kDown
      else if v = 3 then Some Link_kFaulted
      else if v = 4 then Some Link_kRetired
      else if v = 5 then Some Link_kRevalidationRequired
      else if v = 6 then Some Link_kUnknown
      else if v = 7 then Some Link_kDegraded
      else None)"

definition kLinkStateNames :: "EnumEntry list" where
  "kLinkStateNames =
     [(''UP'', 1),
      (''DOWN'', 2),
      (''FAULTED'', 3),
      (''RETIRED'', 4),
      (''REVALIDATION_REQUIRED'', 5),
      (''UNKNOWN'', 6),
      (''DEGRADED'', 7)]"

interpretation LinkState_enum: enum_table LinkState_value LinkState_cast kLinkStateNames "\<lambda>_. True"
proof
  fix x :: LinkState
  assume "(\<lambda>_. True) x"
  then show "LinkState_cast (LinkState_value x) = Some x" "LinkState_value x \<in> snd ` set kLinkStateNames"
    by (cases x; simp add: LinkState_cast_def kLinkStateNames_def)+
qed (simp_all add: LinkState_cast_def kLinkStateNames_def)

datatype PortState =
    Port_kUp
  | Port_kAdminDisabled
  | Port_kDraining
  | Port_kMaintenance
  | Port_kRetired
  | Port_kSuperseded
  | Port_kRevalidationRequired
  | Port_kUnknown

fun PortState_value :: "PortState \<Rightarrow> nat" where
  "PortState_value Port_kUp = 1"
| "PortState_value Port_kAdminDisabled = 2"
| "PortState_value Port_kDraining = 3"
| "PortState_value Port_kMaintenance = 4"
| "PortState_value Port_kRetired = 5"
| "PortState_value Port_kSuperseded = 6"
| "PortState_value Port_kRevalidationRequired = 7"
| "PortState_value Port_kUnknown = 8"

definition PortState_cast :: "nat \<Rightarrow> PortState option" where
  "PortState_cast v =
     (if v = 1 then Some Port_kUp
      else if v = 2 then Some Port_kAdminDisabled
      else if v = 3 then Some Port_kDraining
      else if v = 4 then Some Port_kMaintenance
      else if v = 5 then Some Port_kRetired
      else if v = 6 then Some Port_kSuperseded
      else if v = 7 then Some Port_kRevalidationRequired
      else if v = 8 then Some Port_kUnknown
      else None)"

definition kPortStateNames :: "EnumEntry list" where
  "kPortStateNames =
     [(''UP'', 1),
      (''ADMIN_DISABLED'', 2),
      (''DRAINING'', 3),
      (''MAINTENANCE'', 4),
      (''RETIRED'', 5),
      (''SUPERSEDED'', 6),
      (''REVALIDATION_REQUIRED'', 7),
      (''UNKNOWN'', 8)]"

interpretation PortState_enum: enum_table PortState_value PortState_cast kPortStateNames "\<lambda>_. True"
proof
  fix x :: PortState
  assume "(\<lambda>_. True) x"
  then show "PortState_cast (PortState_value x) = Some x" "PortState_value x \<in> snd ` set kPortStateNames"
    by (cases x; simp add: PortState_cast_def kPortStateNames_def)+
qed (simp_all add: PortState_cast_def kPortStateNames_def)

datatype PathLayer =
    Layer_kPhysical
  | Layer_kLogical
  | Layer_kOverlay
  | Layer_kTunnel
  | Layer_other nat

fun PathLayer_value :: "PathLayer \<Rightarrow> nat" where
  "PathLayer_value Layer_kPhysical = 1"
| "PathLayer_value Layer_kLogical = 2"
| "PathLayer_value Layer_kOverlay = 3"
| "PathLayer_value Layer_kTunnel = 4"
| "PathLayer_value (Layer_other v) = v"

definition PathLayer_cast :: "nat \<Rightarrow> PathLayer option" where
  "PathLayer_cast v =
     (if v = 1 then Some Layer_kPhysical
      else if v = 2 then Some Layer_kLogical
      else if v = 3 then Some Layer_kOverlay
      else if v = 4 then Some Layer_kTunnel
      else Some (Layer_other v))"

definition kPathLayerNames :: "EnumEntry list" where
  "kPathLayerNames =
     [(''PHYSICAL'', 1),
      (''LOGICAL'', 2),
      (''OVERLAY'', 3),
      (''TUNNEL'', 4)]"

interpretation PathLayer_enum: enum_table PathLayer_value PathLayer_cast kPathLayerNames "\<lambda>x. case x of Layer_other v \<Rightarrow> False | _ \<Rightarrow> True"
proof
  fix x :: PathLayer
  assume "(\<lambda>x. case x of Layer_other v \<Rightarrow> False | _ \<Rightarrow> True) x"
  then show "PathLayer_cast (PathLayer_value x) = Some x" "PathLayer_value x \<in> snd ` set kPathLayerNames"
    by (cases x; simp add: PathLayer_cast_def kPathLayerNames_def)+
qed (simp_all add: PathLayer_cast_def kPathLayerNames_def)

datatype RelationshipType =
    Rel_kDirectLink
  | Rel_kLogicalAdjacency
  | Rel_kTunnelEncapsulation
  | Rel_kPortPairing

fun RelationshipType_value :: "RelationshipType \<Rightarrow> nat" where
  "RelationshipType_value Rel_kDirectLink = 1"
| "RelationshipType_value Rel_kLogicalAdjacency = 2"
| "RelationshipType_value Rel_kTunnelEncapsulation = 3"
| "RelationshipType_value Rel_kPortPairing = 4"

definition RelationshipType_cast :: "nat \<Rightarrow> RelationshipType option" where
  "RelationshipType_cast v =
     (if v = 1 then Some Rel_kDirectLink
      else if v = 2 then Some Rel_kLogicalAdjacency
      else if v = 3 then Some Rel_kTunnelEncapsulation
      else if v = 4 then Some Rel_kPortPairing
      else None)"

definition kRelationshipTypeNames :: "EnumEntry list" where
  "kRelationshipTypeNames =
     [(''DIRECT_LINK'', 1),
      (''LOGICAL_ADJACENCY'', 2),
      (''TUNNEL_ENCAPSULATION'', 3),
      (''PORT_PAIRING'', 4)]"

interpretation RelationshipType_enum: enum_table RelationshipType_value RelationshipType_cast kRelationshipTypeNames "\<lambda>_. True"
proof
  fix x :: RelationshipType
  assume "(\<lambda>_. True) x"
  then show "RelationshipType_cast (RelationshipType_value x) = Some x" "RelationshipType_value x \<in> snd ` set kRelationshipTypeNames"
    by (cases x; simp add: RelationshipType_cast_def kRelationshipTypeNames_def)+
qed (simp_all add: RelationshipType_cast_def kRelationshipTypeNames_def)

datatype EndpointClass =
    Class_kEndpoint
  | Class_kNic
  | Class_kPort
  | Class_kSwitchAttachment
  | Class_kLogicalEndpoint

fun EndpointClass_value :: "EndpointClass \<Rightarrow> nat" where
  "EndpointClass_value Class_kEndpoint = 1"
| "EndpointClass_value Class_kNic = 2"
| "EndpointClass_value Class_kPort = 3"
| "EndpointClass_value Class_kSwitchAttachment = 4"
| "EndpointClass_value Class_kLogicalEndpoint = 5"

definition EndpointClass_cast :: "nat \<Rightarrow> EndpointClass option" where
  "EndpointClass_cast v =
     (if v = 1 then Some Class_kEndpoint
      else if v = 2 then Some Class_kNic
      else if v = 3 then Some Class_kPort
      else if v = 4 then Some Class_kSwitchAttachment
      else if v = 5 then Some Class_kLogicalEndpoint
      else None)"

definition kEndpointClassNames :: "EnumEntry list" where
  "kEndpointClassNames =
     [(''ENDPOINT'', 1),
      (''NIC'', 2),
      (''PORT'', 3),
      (''SWITCH_ATTACHMENT'', 4),
      (''LOGICAL_ENDPOINT'', 5)]"

interpretation EndpointClass_enum: enum_table EndpointClass_value EndpointClass_cast kEndpointClassNames "\<lambda>_. True"
proof
  fix x :: EndpointClass
  assume "(\<lambda>_. True) x"
  then show "EndpointClass_cast (EndpointClass_value x) = Some x" "EndpointClass_value x \<in> snd ` set kEndpointClassNames"
    by (cases x; simp add: EndpointClass_cast_def kEndpointClassNames_def)+
qed (simp_all add: EndpointClass_cast_def kEndpointClassNames_def)

datatype EvidenceSource =
    Src_kReal
  | Src_kSynthetic
  | Src_kMixed

fun EvidenceSource_value :: "EvidenceSource \<Rightarrow> nat" where
  "EvidenceSource_value Src_kReal = 1"
| "EvidenceSource_value Src_kSynthetic = 2"
| "EvidenceSource_value Src_kMixed = 3"

definition EvidenceSource_cast :: "nat \<Rightarrow> EvidenceSource option" where
  "EvidenceSource_cast v =
     (if v = 1 then Some Src_kReal
      else if v = 2 then Some Src_kSynthetic
      else if v = 3 then Some Src_kMixed
      else None)"

definition kEvidenceSourceNames :: "EnumEntry list" where
  "kEvidenceSourceNames =
     [(''REAL'', 1),
      (''SYNTHETIC'', 2),
      (''MIXED'', 3)]"

interpretation EvidenceSource_enum: enum_table EvidenceSource_value EvidenceSource_cast kEvidenceSourceNames "\<lambda>_. True"
proof
  fix x :: EvidenceSource
  assume "(\<lambda>_. True) x"
  then show "EvidenceSource_cast (EvidenceSource_value x) = Some x" "EvidenceSource_value x \<in> snd ` set kEvidenceSourceNames"
    by (cases x; simp add: EvidenceSource_cast_def kEvidenceSourceNames_def)+
qed (simp_all add: EvidenceSource_cast_def kEvidenceSourceNames_def)

datatype PlanningMode =
    Mode_kStandard
  | Mode_kDiagnosticNonCurrent
  | Mode_other nat

fun PlanningMode_value :: "PlanningMode \<Rightarrow> nat" where
  "PlanningMode_value Mode_kStandard = 1"
| "PlanningMode_value Mode_kDiagnosticNonCurrent = 2"
| "PlanningMode_value (Mode_other v) = v"

definition PlanningMode_cast :: "nat \<Rightarrow> PlanningMode option" where
  "PlanningMode_cast v =
     (if v = 1 then Some Mode_kStandard
      else if v = 2 then Some Mode_kDiagnosticNonCurrent
      else Some (Mode_other v))"

definition kPlanningModeNames :: "EnumEntry list" where
  "kPlanningModeNames =
     [(''STANDARD'', 1),
      (''DIAGNOSTIC_NON_CURRENT'', 2)]"

interpretation PlanningMode_enum: enum_table PlanningMode_value PlanningMode_cast kPlanningModeNames "\<lambda>x. case x of Mode_other v \<Rightarrow> False | _ \<Rightarrow> True"
proof
  fix x :: PlanningMode
  assume "(\<lambda>x. case x of Mode_other v \<Rightarrow> False | _ \<Rightarrow> True) x"
  then show "PlanningMode_cast (PlanningMode_value x) = Some x" "PlanningMode_value x \<in> snd ` set kPlanningModeNames"
    by (cases x; simp add: PlanningMode_cast_def kPlanningModeNames_def)+
qed (simp_all add: PlanningMode_cast_def kPlanningModeNames_def)

datatype ReplanOutcome =
    Replan_kUnchanged
  | Replan_kOrderingChanged
  | Replan_kCandidateSetChanged
  | Replan_kNoPath
  | Replan_kRevalidationRequired

fun ReplanOutcome_value :: "ReplanOutcome \<Rightarrow> nat" where
  "ReplanOutcome_value Replan_kUnchanged = 1"
| "ReplanOutcome_value Replan_kOrderingChanged = 2"
| "ReplanOutcome_value Replan_kCandidateSetChanged = 3"
| "ReplanOutcome_value Replan_kNoPath = 4"
| "ReplanOutcome_value Replan_kRevalidationRequired = 5"

definition ReplanOutcome_cast :: "nat \<Rightarrow> ReplanOutcome option" where
  "ReplanOutcome_cast v =
     (if v = 1 then Some Replan_kUnchanged
      else if v = 2 then Some Replan_kOrderingChanged
      else if v = 3 then Some Replan_kCandidateSetChanged
      else if v = 4 then Some Replan_kNoPath
      else if v = 5 then Some Replan_kRevalidationRequired
      else None)"

definition kReplanOutcomeNames :: "EnumEntry list" where
  "kReplanOutcomeNames =
     [(''UNCHANGED'', 1),
      (''ORDERING_CHANGED'', 2),
      (''CANDIDATE_SET_CHANGED'', 3),
      (''NO_PATH'', 4),
      (''REVALIDATION_REQUIRED'', 5)]"

interpretation ReplanOutcome_enum: enum_table ReplanOutcome_value ReplanOutcome_cast kReplanOutcomeNames "\<lambda>_. True"
proof
  fix x :: ReplanOutcome
  assume "(\<lambda>_. True) x"
  then show "ReplanOutcome_cast (ReplanOutcome_value x) = Some x" "ReplanOutcome_value x \<in> snd ` set kReplanOutcomeNames"
    by (cases x; simp add: ReplanOutcome_cast_def kReplanOutcomeNames_def)+
qed (simp_all add: ReplanOutcome_cast_def kReplanOutcomeNames_def)

datatype AuthorityValidation =
    Auth_kNotRequested
  | Auth_kValidated
  | Auth_kRejected
  | Auth_kUnavailable

fun AuthorityValidation_value :: "AuthorityValidation \<Rightarrow> nat" where
  "AuthorityValidation_value Auth_kNotRequested = 1"
| "AuthorityValidation_value Auth_kValidated = 2"
| "AuthorityValidation_value Auth_kRejected = 3"
| "AuthorityValidation_value Auth_kUnavailable = 4"

definition AuthorityValidation_cast :: "nat \<Rightarrow> AuthorityValidation option" where
  "AuthorityValidation_cast v =
     (if v = 1 then Some Auth_kNotRequested
      else if v = 2 then Some Auth_kValidated
      else if v = 3 then Some Auth_kRejected
      else if v = 4 then Some Auth_kUnavailable
      else None)"

definition kAuthorityValidationNames :: "EnumEntry list" where
  "kAuthorityValidationNames =
     [(''NOT_REQUESTED'', 1),
      (''VALIDATED'', 2),
      (''REJECTED'', 3),
      (''UNAVAILABLE'', 4)]"

interpretation AuthorityValidation_enum: enum_table AuthorityValidation_value AuthorityValidation_cast kAuthorityValidationNames "\<lambda>_. True"
proof
  fix x :: AuthorityValidation
  assume "(\<lambda>_. True) x"
  then show "AuthorityValidation_cast (AuthorityValidation_value x) = Some x" "AuthorityValidation_value x \<in> snd ` set kAuthorityValidationNames"
    by (cases x; simp add: AuthorityValidation_cast_def kAuthorityValidationNames_def)+
qed (simp_all add: AuthorityValidation_cast_def kAuthorityValidationNames_def)

datatype DiagnosticCode = DiagnosticCode (DiagnosticCode_value: nat)

abbreviation DC_kMalformedIdentifier :: DiagnosticCode where "DC_kMalformedIdentifier \<equiv> DiagnosticCode 1"
abbreviation DC_kDuplicateIdentifier :: DiagnosticCode where "DC_kDuplicateIdentifier \<equiv> DiagnosticCode 2"
abbreviation DC_kUnknownEndpoint :: DiagnosticCode where "DC_kUnknownEndpoint \<equiv> DiagnosticCode 3"
abbreviation DC_kAmbiguousEndpoint :: DiagnosticCode where "DC_kAmbiguousEndpoint \<equiv> DiagnosticCode 4"
abbreviation DC_kEntityGenerationMismatch :: DiagnosticCode where "DC_kEntityGenerationMismatch \<equiv> DiagnosticCode 5"
abbreviation DC_kTopologyGenerationMismatch :: DiagnosticCode where "DC_kTopologyGenerationMismatch \<equiv> DiagnosticCode 6"
abbreviation DC_kEpochMismatch :: DiagnosticCode where "DC_kEpochMismatch \<equiv> DiagnosticCode 7"
abbreviation DC_kLinkStateDown :: DiagnosticCode where "DC_kLinkStateDown \<equiv> DiagnosticCode 8"
abbreviation DC_kLinkStateFaulted :: DiagnosticCode where "DC_kLinkStateFaulted \<equiv> DiagnosticCode 9"
abbreviation DC_kLinkStateRetired :: DiagnosticCode where "DC_kLinkStateRetired \<equiv> DiagnosticCode 10"
abbreviation DC_kLinkStateRevalidationRequired :: DiagnosticCode where "DC_kLinkStateRevalidationRequired \<equiv> DiagnosticCode 11"
abbreviation DC_kLinkStateUnknown :: DiagnosticCode where "DC_kLinkStateUnknown \<equiv> DiagnosticCode 12"
abbreviation DC_kLinkStateDegradedDisallowed :: DiagnosticCode where "DC_kLinkStateDegradedDisallowed \<equiv> DiagnosticCode 13"
abbreviation DC_kPortAdminDisabled :: DiagnosticCode where "DC_kPortAdminDisabled \<equiv> DiagnosticCode 14"
abbreviation DC_kPortDraining :: DiagnosticCode where "DC_kPortDraining \<equiv> DiagnosticCode 15"
abbreviation DC_kPortMaintenance :: DiagnosticCode where "DC_kPortMaintenance \<equiv> DiagnosticCode 16"
abbreviation DC_kPortRetired :: DiagnosticCode where "DC_kPortRetired \<equiv> DiagnosticCode 17"
abbreviation DC_kPortSuperseded :: DiagnosticCode where "DC_kPortSuperseded \<equiv> DiagnosticCode 18"
abbreviation DC_kPortRevalidationRequired :: DiagnosticCode where "DC_kPortRevalidationRequired \<equiv> DiagnosticCode 19"
abbreviation DC_kPortUnknown :: DiagnosticCode where "DC_kPortUnknown \<equiv> DiagnosticCode 20"
abbreviation DC_kCapabilityUnknown :: DiagnosticCode where "DC_kCapabilityUnknown \<equiv> DiagnosticCode 21"
abbreviation DC_kCapabilityInsufficient :: DiagnosticCode where "DC_kCapabilityInsufficient \<equiv> DiagnosticCode 22"
abbreviation DC_kFailureDomainForbidden :: DiagnosticCode where "DC_kFailureDomainForbidden \<equiv> DiagnosticCode 23"
abbreviation DC_kFailureDomainUnknown :: DiagnosticCode where "DC_kFailureDomainUnknown \<equiv> DiagnosticCode 24"
abbreviation DC_kFailureDomainMemberLimitExceeded :: DiagnosticCode where "DC_kFailureDomainMemberLimitExceeded \<equiv> DiagnosticCode 25"
abbreviation DC_kFailureDomainClassForbidden :: DiagnosticCode where "DC_kFailureDomainClassForbidden \<equiv> DiagnosticCode 26"
abbreviation DC_kForbiddenNode :: DiagnosticCode where "DC_kForbiddenNode \<equiv> DiagnosticCode 27"
abbreviation DC_kForbiddenLink :: DiagnosticCode where "DC_kForbiddenLink \<equiv> DiagnosticCode 28"
abbreviation DC_kForbiddenPort :: DiagnosticCode where "DC_kForbiddenPort \<equiv> DiagnosticCode 29"
abbreviation DC_kRequiredNodeMissing :: DiagnosticCode where "DC_kRequiredNodeMissing \<equiv> DiagnosticCode 30"
abbreviation DC_kRequiredAnySetUnsatisfied :: DiagnosticCode where "DC_kRequiredAnySetUnsatisfied \<equiv> DiagnosticCode 31"
abbreviation DC_kMaxHopsExceeded :: DiagnosticCode where "DC_kMaxHopsExceeded \<equiv> DiagnosticCode 32"
abbreviation DC_kLayerMismatch :: DiagnosticCode where "DC_kLayerMismatch \<equiv> DiagnosticCode 33"
abbreviation DC_kSelfLoopRejected :: DiagnosticCode where "DC_kSelfLoopRejected \<equiv> DiagnosticCode 34"
abbreviation DC_kDisconnectedGraph :: DiagnosticCode where "DC_kDisconnectedGraph \<equiv> DiagnosticCode 35"
abbreviation DC_kNoStructuralPath :: DiagnosticCode where "DC_kNoStructuralPath \<equiv> DiagnosticCode 36"
abbreviation DC_kCostOverflow :: DiagnosticCode where "DC_kCostOverflow \<equiv> DiagnosticCode 37"
abbreviation DC_kHopCountOverflow :: DiagnosticCode where "DC_kHopCountOverflow \<equiv> DiagnosticCode 38"
abbreviation DC_kWorkBudgetExhausted :: DiagnosticCode where "DC_kWorkBudgetExhausted \<equiv> DiagnosticCode 39"
abbreviation DC_kCandidateLimitExceeded :: DiagnosticCode where "DC_kCandidateLimitExceeded \<equiv> DiagnosticCode 40"
abbreviation DC_kConstraintCountExceeded :: DiagnosticCode where "DC_kConstraintCountExceeded \<equiv> DiagnosticCode 41"
abbreviation DC_kRequestedCandidatesAboveCeiling :: DiagnosticCode where "DC_kRequestedCandidatesAboveCeiling \<equiv> DiagnosticCode 42"
abbreviation DC_kDuplicateConstraintEntry :: DiagnosticCode where "DC_kDuplicateConstraintEntry \<equiv> DiagnosticCode 43"
abbreviation DC_kZeroHopSelfPathDisallowed :: DiagnosticCode where "DC_kZeroHopSelfPathDisallowed \<equiv> DiagnosticCode 44"
abbreviation DC_kStaleEvidence :: DiagnosticCode where "DC_kStaleEvidence \<equiv> DiagnosticCode 45"
abbreviation DC_kInvalidationWatermarkChanged :: DiagnosticCode where "DC_kInvalidationWatermarkChanged \<equiv> DiagnosticCode 46"
abbreviation DC_kWorkerBootFenced :: DiagnosticCode where "DC_kWorkerBootFenced \<equiv> DiagnosticCode 47"
abbreviation DC_kCoordinatorEpochStale :: DiagnosticCode where "DC_kCoordinatorEpochStale \<equiv> DiagnosticCode 48"
abbreviation DC_kAuthorityScopeInsufficient :: DiagnosticCode where "DC_kAuthorityScopeInsufficient \<equiv> DiagnosticCode 49"
abbreviation DC_kPersistenceCorrupt :: DiagnosticCode where "DC_kPersistenceCorrupt \<equiv> DiagnosticCode 50"
abbreviation DC_kPersistenceVersionUnsupported :: DiagnosticCode where "DC_kPersistenceVersionUnsupported \<equiv> DiagnosticCode 51"
abbreviation DC_kPersistenceDigestMismatch :: DiagnosticCode where "DC_kPersistenceDigestMismatch \<equiv> DiagnosticCode 52"
abbreviation DC_kPersistenceTrailingBytes :: DiagnosticCode where "DC_kPersistenceTrailingBytes \<equiv> DiagnosticCode 53"
abbreviation DC_kPersistenceDuplicatePlan :: DiagnosticCode where "DC_kPersistenceDuplicatePlan \<equiv> DiagnosticCode 54"
abbreviation DC_kPersistenceDuplicateCandidate :: DiagnosticCode where "DC_kPersistenceDuplicateCandidate \<equiv> DiagnosticCode 55"
abbreviation DC_kPersistenceLimitExceeded :: DiagnosticCode where "DC_kPersistenceLimitExceeded \<equiv> DiagnosticCode 56"
abbreviation DC_kProtocolMalformedFrame :: DiagnosticCode where "DC_kProtocolMalformedFrame \<equiv> DiagnosticCode 57"
abbreviation DC_kProtocolVersionMismatch :: DiagnosticCode where "DC_kProtocolVersionMismatch \<equiv> DiagnosticCode 58"
abbreviation DC_kProtocolIntegrityMismatch :: DiagnosticCode where "DC_kProtocolIntegrityMismatch \<equiv> DiagnosticCode 59"
abbreviation DC_kProtocolTrailingBytes :: DiagnosticCode where "DC_kProtocolTrailingBytes \<equiv> DiagnosticCode 60"
abbreviation DC_kProtocolUnknownMessage :: DiagnosticCode where "DC_kProtocolUnknownMessage \<equiv> DiagnosticCode 61"
abbreviation DC_kProtocolReceiveBoundExceeded :: DiagnosticCode where "DC_kProtocolReceiveBoundExceeded \<equiv> DiagnosticCode 62"
abbreviation DC_kProtocolSessionLimit :: DiagnosticCode where "DC_kProtocolSessionLimit \<equiv> DiagnosticCode 63"
abbreviation DC_kProtocolSlowPeer :: DiagnosticCode where "DC_kProtocolSlowPeer \<equiv> DiagnosticCode 64"
abbreviation DC_kGraphTooLarge :: DiagnosticCode where "DC_kGraphTooLarge \<equiv> DiagnosticCode 65"
abbreviation DC_kTooManyEdges :: DiagnosticCode where "DC_kTooManyEdges \<equiv> DiagnosticCode 66"
abbreviation DC_kNonCurrentCandidate :: DiagnosticCode where "DC_kNonCurrentCandidate \<equiv> DiagnosticCode 67"
abbreviation DC_kAuthorityValidationRejected :: DiagnosticCode where "DC_kAuthorityValidationRejected \<equiv> DiagnosticCode 68"
abbreviation DC_kAuthorityValidationUnavailable :: DiagnosticCode where "DC_kAuthorityValidationUnavailable \<equiv> DiagnosticCode 69"
abbreviation DC_kUnsupportedEndpointClass :: DiagnosticCode where "DC_kUnsupportedEndpointClass \<equiv> DiagnosticCode 70"
abbreviation DC_kUnsupportedLayer :: DiagnosticCode where "DC_kUnsupportedLayer \<equiv> DiagnosticCode 71"
abbreviation DC_kUnsupportedRequest :: DiagnosticCode where "DC_kUnsupportedRequest \<equiv> DiagnosticCode 72"
abbreviation DC_kTruncatedByLimit :: DiagnosticCode where "DC_kTruncatedByLimit \<equiv> DiagnosticCode 73"
abbreviation DC_kUnknownSourceEntity :: DiagnosticCode where "DC_kUnknownSourceEntity \<equiv> DiagnosticCode 74"
abbreviation DC_kUnknownDestinationEntity :: DiagnosticCode where "DC_kUnknownDestinationEntity \<equiv> DiagnosticCode 75"
abbreviation DC_kSnapshotNotAvailable :: DiagnosticCode where "DC_kSnapshotNotAvailable \<equiv> DiagnosticCode 76"
abbreviation DC_kPlanNotFound :: DiagnosticCode where "DC_kPlanNotFound \<equiv> DiagnosticCode 77"
abbreviation DC_kPlanRetired :: DiagnosticCode where "DC_kPlanRetired \<equiv> DiagnosticCode 78"
abbreviation DC_kDuplicatePlanIdentity :: DiagnosticCode where "DC_kDuplicatePlanIdentity \<equiv> DiagnosticCode 79"
abbreviation DC_kCancelled :: DiagnosticCode where "DC_kCancelled \<equiv> DiagnosticCode 80"
abbreviation DC_kPersistenceImpossibleValue :: DiagnosticCode where "DC_kPersistenceImpossibleValue \<equiv> DiagnosticCode 81"

definition kDiagnosticCodeNames :: "EnumEntry list" where
  "kDiagnosticCodeNames =
     [(''MALFORMED_IDENTIFIER'', 1),
      (''DUPLICATE_IDENTIFIER'', 2),
      (''UNKNOWN_ENDPOINT'', 3),
      (''AMBIGUOUS_ENDPOINT'', 4),
      (''ENTITY_GENERATION_MISMATCH'', 5),
      (''TOPOLOGY_GENERATION_MISMATCH'', 6),
      (''EPOCH_MISMATCH'', 7),
      (''LINK_STATE_DOWN'', 8),
      (''LINK_STATE_FAULTED'', 9),
      (''LINK_STATE_RETIRED'', 10),
      (''LINK_STATE_REVALIDATION_REQUIRED'', 11),
      (''LINK_STATE_UNKNOWN'', 12),
      (''LINK_STATE_DEGRADED_DISALLOWED'', 13),
      (''PORT_ADMIN_DISABLED'', 14),
      (''PORT_DRAINING'', 15),
      (''PORT_MAINTENANCE'', 16),
      (''PORT_RETIRED'', 17),
      (''PORT_SUPERSEDED'', 18),
      (''PORT_REVALIDATION_REQUIRED'', 19),
      (''PORT_UNKNOWN'', 20),
      (''CAPABILITY_UNKNOWN'', 21),
      (''CAPABILITY_INSUFFICIENT'', 22),
      (''FAILURE_DOMAIN_FORBIDDEN'', 23),
      (''FAILURE_DOMAIN_UNKNOWN'', 24),
      (''FAILURE_DOMAIN_MEMBER_LIMIT_EXCEEDED'', 25),
      (''FAILURE_DOMAIN_CLASS_FORBIDDEN'', 26),
      (''FORBIDDEN_NODE'', 27),
      (''FORBIDDEN_LINK'', 28),
      (''FORBIDDEN_PORT'', 29),
      (''REQUIRED_NODE_MISSING'', 30),
      (''REQUIRED_ANY_SET_UNSATISFIED'', 31),
      (''MAX_HOPS_EXCEEDED'', 32),
      (''LAYER_MISMATCH'', 33),
      (''SELF_LOOP_REJECTED'', 34),
      (''DISCONNECTED_GRAPH'', 35),
      (''NO_STRUCTURAL_PATH'', 36),
      (''COST_OVERFLOW'', 37),
      (''HOP_COUNT_OVERFLOW'', 38),
      (''WORK_BUDGET_EXHAUSTED'', 39),
      (''CANDIDATE_LIMIT_EXCEEDED'', 40),
      (''CONSTRAINT_COUNT_EXCEEDED'', 41),
      (''REQUESTED_CANDIDATES_ABOVE_CEILING'', 42),
      (''DUPLICATE_CONSTRAINT_ENTRY'', 43),
      (''ZERO_HOP_SELF_PATH_DISALLOWED'', 44),
      (''STALE_EVIDENCE'', 45),
      (''INVALIDATION_WATERMARK_CHANGED'', 46),
      (''WORKER_BOOT_FENCED'', 47),
      (''COORDINATOR_EPOCH_STALE'', 48),
      (''AUTHORITY_SCOPE_INSUFFICIENT'', 49),
      (''PERSISTENCE_CORRUPT'', 50),
      (''PERSISTENCE_VERSION_UNSUPPORTED'', 51),
      (''PERSISTENCE_DIGEST_MISMATCH'', 52),
      (''PERSISTENCE_TRAILING_BYTES'', 53),
      (''PERSISTENCE_DUPLICATE_PLAN'', 54),
      (''PERSISTENCE_DUPLICATE_CANDIDATE'', 55),
      (''PERSISTENCE_LIMIT_EXCEEDED'', 56),
      (''PROTOCOL_MALFORMED_FRAME'', 57),
      (''PROTOCOL_VERSION_MISMATCH'', 58),
      (''PROTOCOL_INTEGRITY_MISMATCH'', 59),
      (''PROTOCOL_TRAILING_BYTES'', 60),
      (''PROTOCOL_UNKNOWN_MESSAGE'', 61),
      (''PROTOCOL_RECEIVE_BOUND_EXCEEDED'', 62),
      (''PROTOCOL_SESSION_LIMIT'', 63),
      (''PROTOCOL_SLOW_PEER'', 64),
      (''GRAPH_TOO_LARGE'', 65),
      (''TOO_MANY_EDGES'', 66),
      (''NON_CURRENT_CANDIDATE'', 67),
      (''AUTHORITY_VALIDATION_REJECTED'', 68),
      (''AUTHORITY_VALIDATION_UNAVAILABLE'', 69),
      (''UNSUPPORTED_ENDPOINT_CLASS'', 70),
      (''UNSUPPORTED_LAYER'', 71),
      (''UNSUPPORTED_REQUEST'', 72),
      (''TRUNCATED_BY_LIMIT'', 73),
      (''UNKNOWN_SOURCE_ENTITY'', 74),
      (''UNKNOWN_DESTINATION_ENTITY'', 75),
      (''SNAPSHOT_NOT_AVAILABLE'', 76),
      (''PLAN_NOT_FOUND'', 77),
      (''PLAN_RETIRED'', 78),
      (''DUPLICATE_PLAN_IDENTITY'', 79),
      (''CANCELLED'', 80),
      (''PERSISTENCE_IMPOSSIBLE_VALUE'', 81)]"

definition DiagnosticCode_cast :: "nat \<Rightarrow> DiagnosticCode option" where
  "DiagnosticCode_cast v = Some (DiagnosticCode v)"

text \<open>
  The names of the 81 diagnostic codes are compared as numbers (their bytes read in base 256),
  which keeps the distinctness check small.
\<close>

fun name_number :: "string \<Rightarrow> nat \<Rightarrow> nat" where
  "name_number [] acc = acc"
| "name_number (c # cs) acc = name_number cs (256 * acc + of_char c)"

lemma distinct_DiagnosticCode_names: "distinct (map fst kDiagnosticCodeNames)"
proof -
  have "distinct (map (\<lambda>e. name_number (fst e) 0) kDiagnosticCodeNames)"
    by (simp add: kDiagnosticCodeNames_def)
  then have "distinct (map (\<lambda>n. name_number n 0) (map fst kDiagnosticCodeNames))"
    by (simp add: comp_def)
  then show ?thesis by (simp only: distinct_map)
qed

lemma distinct_DiagnosticCode_values: "distinct (map snd kDiagnosticCodeNames)"
  by (simp add: kDiagnosticCodeNames_def)

lemma nonempty_DiagnosticCode_names: "list_all (\<lambda>e. fst e \<noteq> '''') kDiagnosticCodeNames"
  by (simp add: kDiagnosticCodeNames_def)

interpretation DiagnosticCode_enum: enum_table DiagnosticCode_value DiagnosticCode_cast kDiagnosticCodeNames
  "\<lambda>c. DiagnosticCode_value c \<in> snd ` set kDiagnosticCodeNames"
proof
  show "list_all (\<lambda>(n, v). n \<noteq> '''' \<and> (case DiagnosticCode_cast v of None \<Rightarrow> False
     | Some c \<Rightarrow> DiagnosticCode_value c \<in> snd ` set kDiagnosticCodeNames \<and> DiagnosticCode_value c = v))
     kDiagnosticCodeNames"
    using nonempty_DiagnosticCode_names by (force simp: DiagnosticCode_cast_def list_all_iff)
qed (simp_all add: DiagnosticCode_cast_def distinct_DiagnosticCode_names distinct_DiagnosticCode_values)

section \<open>Operations on the enumerations\<close>

definition CarriesCandidates :: "PlanStatus \<Rightarrow> bool" where
  "CarriesCandidates status \<longleftrightarrow> status = Status_kPlanned \<or> status = Status_kTruncatedByLimit \<or>
     status = Status_kRevalidationRequired"

fun CurrentnessSeverity :: "Currentness \<Rightarrow> int" where
  "CurrentnessSeverity Cur_kRetired = 0"
| "CurrentnessSeverity Cur_kStaleEpoch = 1"
| "CurrentnessSeverity Cur_kStaleTopology = 2"
| "CurrentnessSeverity Cur_kStaleLinkState = 3"
| "CurrentnessSeverity Cur_kStalePortState = 4"
| "CurrentnessSeverity Cur_kStaleCapability = 5"
| "CurrentnessSeverity Cur_kStaleFailureDomain = 6"
| "CurrentnessSeverity Cur_kStalePolicy = 7"
| "CurrentnessSeverity Cur_kRevalidationRequired = 8"
| "CurrentnessSeverity Cur_kCurrent = 9"

definition MoreSevere :: "Currentness \<Rightarrow> Currentness \<Rightarrow> Currentness" where
  "MoreSevere a b = (if CurrentnessSeverity a \<le> CurrentnessSeverity b then a else b)"

definition Scope_kSubmitPlanRequest :: u32 where "Scope_kSubmitPlanRequest = 1"
definition Scope_kReadPlan :: u32 where "Scope_kReadPlan = 2"
definition Scope_kPublishPlanResult :: u32 where "Scope_kPublishPlanResult = 4"
definition Scope_kAdvanceEpoch :: u32 where "Scope_kAdvanceEpoch = 8"
definition Scope_kFenceWorker :: u32 where "Scope_kFenceWorker = 16"

definition HasScope :: "u32 \<Rightarrow> u32 \<Rightarrow> bool" where
  "HasScope flags scope \<longleftrightarrow> and flags scope = scope"

definition CombineScopes :: "u32 \<Rightarrow> u32 \<Rightarrow> u32" where
  "CombineScopes a b = or a b"

lemma CurrentnessSeverity_inj: "CurrentnessSeverity a = CurrentnessSeverity b \<longleftrightarrow> a = b"
  by (cases a; cases b) simp_all

lemma MoreSevere_severity [simp]:
  "CurrentnessSeverity (MoreSevere a b) = min (CurrentnessSeverity a) (CurrentnessSeverity b)"
  by (simp add: MoreSevere_def min_def)

lemma CurrentnessSeverity_range [simp]: "0 \<le> CurrentnessSeverity a" "CurrentnessSeverity a \<le> 9"
  by (cases a; simp)+

text \<open>Folding staleness dimensions is a semilattice, with \<open>CURRENT\<close> neutral and \<open>RETIRED\<close> absorbing.\<close>

interpretation severity: semilattice_neutr MoreSevere Cur_kCurrent
proof
  show "MoreSevere (MoreSevere a b) c = MoreSevere a (MoreSevere b c)" for a b c
    by (simp flip: CurrentnessSeverity_inj add: min.assoc)
  show "MoreSevere a b = MoreSevere b a" for a b
    by (simp flip: CurrentnessSeverity_inj add: min.commute)
  show "MoreSevere a a = a" for a
    by (simp add: MoreSevere_def)
  show "MoreSevere a Cur_kCurrent = a" for a
    by (simp add: MoreSevere_def)
qed

lemma MoreSevere_Retired [simp]: "MoreSevere Cur_kRetired a = Cur_kRetired" "MoreSevere a Cur_kRetired = Cur_kRetired"
  by (cases a; simp add: MoreSevere_def)+

lemma MoreSevere_eq_Current [simp]:
  "MoreSevere a b = Cur_kCurrent \<longleftrightarrow> a = Cur_kCurrent \<and> b = Cur_kCurrent"
  by (cases a; cases b) (simp_all add: MoreSevere_def)

lemma HasScope_CombineScopes: "HasScope m (CombineScopes a b) \<longleftrightarrow> HasScope m a \<and> HasScope m b"
proof -
  have "HasScope m c \<longleftrightarrow> (\<forall>n. bit c n \<longrightarrow> bit m n)" for m c :: u32
    using bit_imp_le_length [of c] by (auto simp: HasScope_def bit_eq_iff bit_and_iff)
  then show ?thesis
    by (auto simp: CombineScopes_def bit_or_iff)
qed


section \<open>Properties\<close>

text \<open>
  Names and values of the enumerations that cross a representation boundary are in bijection:
  a name parses to an enumerator exactly when it is the name rendered for it, so parsing inverts
  rendering and accepts nothing else.
\<close>

theorem enum_names_exact:
  "(ParseEnum kPlanStatusNames PlanStatus_cast n = Some a \<longleftrightarrow> n = EnumName kPlanStatusNames (PlanStatus_value a)) \<and>
   (ParseEnum kCurrentnessNames Currentness_cast n = Some b \<longleftrightarrow> n = EnumName kCurrentnessNames (Currentness_value b)) \<and>
   (ParseEnum kLinkStateNames LinkState_cast n = Some c \<longleftrightarrow> n = EnumName kLinkStateNames (LinkState_value c)) \<and>
   (ParseEnum kPortStateNames PortState_cast n = Some d \<longleftrightarrow> n = EnumName kPortStateNames (PortState_value d)) \<and>
   (ParseEnum kDiagnosticCodeNames DiagnosticCode_cast n = Some e \<longleftrightarrow>
     IsKnownEnumValue kDiagnosticCodeNames (DiagnosticCode_value e) \<and>
     n = EnumName kDiagnosticCodeNames (DiagnosticCode_value e))"
proof (intro conjI)
  show "ParseEnum kPlanStatusNames PlanStatus_cast n = Some a \<longleftrightarrow> n = EnumName kPlanStatusNames (PlanStatus_value a)"
    using PlanStatus_enum.parse_name PlanStatus_enum.name_parse by blast
  show "ParseEnum kCurrentnessNames Currentness_cast n = Some b \<longleftrightarrow> n = EnumName kCurrentnessNames (Currentness_value b)"
    using Currentness_enum.parse_name Currentness_enum.name_parse by blast
  show "ParseEnum kLinkStateNames LinkState_cast n = Some c \<longleftrightarrow> n = EnumName kLinkStateNames (LinkState_value c)"
    using LinkState_enum.parse_name LinkState_enum.name_parse by blast
  show "ParseEnum kPortStateNames PortState_cast n = Some d \<longleftrightarrow> n = EnumName kPortStateNames (PortState_value d)"
    using PortState_enum.parse_name PortState_enum.name_parse by blast
  show "ParseEnum kDiagnosticCodeNames DiagnosticCode_cast n = Some e \<longleftrightarrow>
      IsKnownEnumValue kDiagnosticCodeNames (DiagnosticCode_value e) \<and>
      n = EnumName kDiagnosticCodeNames (DiagnosticCode_value e)"
    using DiagnosticCode_enum.parse_name DiagnosticCode_enum.name_parse DiagnosticCode_enum.known_iff
      DiagnosticCode.expand by metis
qed

text \<open>
  Folding any number of staleness dimensions with \<open>MoreSevere\<close> yields the least usable of
  them: the result is one of the dimensions (or \<open>CURRENT\<close>), its severity rank is the least of all
  ranks, and it is \<open>CURRENT\<close> only when every dimension is.
\<close>

theorem MoreSevere_fold:
  "fold MoreSevere cs Cur_kCurrent \<in> insert Cur_kCurrent (set cs) \<and>
   CurrentnessSeverity (fold MoreSevere cs Cur_kCurrent) = Min (insert 9 (CurrentnessSeverity ` set cs)) \<and>
   (fold MoreSevere cs Cur_kCurrent = Cur_kCurrent \<longleftrightarrow> set cs \<subseteq> {Cur_kCurrent})"
proof -
  have "fold MoreSevere cs c \<in> insert c (set cs) \<and>
     CurrentnessSeverity (fold MoreSevere cs c) = Min (insert (CurrentnessSeverity c) (CurrentnessSeverity ` set cs)) \<and>
     (fold MoreSevere cs c = Cur_kCurrent \<longleftrightarrow> c = Cur_kCurrent \<and> set cs \<subseteq> {Cur_kCurrent})" for c
  proof (induction cs arbitrary: c)
    case (Cons x cs)
    have "MoreSevere x c \<in> {x, c}" by (simp add: MoreSevere_def)
    moreover have "Min (insert (min a b) A) = Min (insert b (insert a A))" if "finite A" for a b :: int and A
      using that by (cases "A = {}") (simp_all add: min.assoc min.left_commute)
    ultimately show ?case using Cons.IH [of "MoreSevere x c"] by auto
  qed simp
  from this [of Cur_kCurrent] show ?thesis by auto
qed

end
