(* ===== verification/Canonical.thy ===== *)
theory Canonical
  imports PP_Prelude
begin

unbundle bit_operations_syntax

text \<open>
  The canonical encoder and decoder of \<open>canonical.hpp\<close> and \<open>canonical.cpp\<close>: a little-endian,
  length-prefixed writer with an explicit ceiling and a strict reader that latches failure. A
  \<open>codec\<close> is a value type with its writer and reader; the locale's laws say that the writer
  appends the value's bytes and that the reader gives the value back, and \<open>strict_codec\<close> adds
  that every accepted input is the encoding of the value it decodes to.
\<close>

section \<open>ByteWriter\<close>

record ByteWriter =
  bw_data :: bytes
  bw_ceiling :: nat
  bw_overflowed :: bool

definition ByteWriter_new :: "nat \<Rightarrow> ByteWriter" where
  "ByteWriter_new c = \<lparr>bw_data = [], bw_ceiling = c, bw_overflowed = False\<rparr>"

definition PutByte :: "u8 \<Rightarrow> ByteWriter \<Rightarrow> ByteWriter" where
  "PutByte v w =
     (if bw_overflowed w then w
      else if length (bw_data w) + 1 > bw_ceiling w then w\<lparr>bw_overflowed := True\<rparr>
      else w\<lparr>bw_data := bw_data w @ [v]\<rparr>)"

definition Put :: "bytes \<Rightarrow> ByteWriter \<Rightarrow> ByteWriter" where
  "Put bs w =
     (if bw_overflowed w then w
      else if length bs > bw_ceiling w - length (bw_data w) then w\<lparr>bw_overflowed := True\<rparr>
      else w\<lparr>bw_data := bw_data w @ bs\<rparr>)"

definition write_U8 :: "u8 \<Rightarrow> ByteWriter \<Rightarrow> ByteWriter" where
  "write_U8 v w = PutByte v w"

definition write_U16 :: "u16 \<Rightarrow> ByteWriter \<Rightarrow> ByteWriter" where
  "write_U16 v w = PutByte (ucast ((drop_bit 8 v) AND 0xFF)) (PutByte (ucast (v AND 0xFF)) w)"

definition write_U32 :: "u32 \<Rightarrow> ByteWriter \<Rightarrow> ByteWriter" where
  "write_U32 v w = fold (\<lambda>shift. PutByte (ucast ((drop_bit shift v) AND 0xFF))) [0, 8, 16, 24] w"

definition write_U64 :: "u64 \<Rightarrow> ByteWriter \<Rightarrow> ByteWriter" where
  "write_U64 v w =
     fold (\<lambda>shift. PutByte (ucast ((drop_bit shift v) AND 0xFF))) [0, 8, 16, 24, 32, 40, 48, 56] w"

lemma unat_drop_bit7_less: "\<not> v < (0x80 :: u64) \<Longrightarrow> unat (drop_bit 7 v) < unat v"
  by (simp add: drop_bit_eq_div word_less_nat_alt unat_div)

function write_VarU64 :: "u64 \<Rightarrow> ByteWriter \<Rightarrow> ByteWriter" where
  "write_VarU64 v w =
     (if \<not> v < 0x80 then write_VarU64 (drop_bit 7 v) (PutByte (ucast ((v AND 0x7F) OR 0x80)) w)
      else PutByte (ucast v) w)"
  by pat_completeness auto
termination
  by (relation "measure (\<lambda>(v, w). unat v)") (use unat_drop_bit7_less in auto)

declare write_VarU64.simps [simp del]

definition write_Bytes :: "bytes \<Rightarrow> ByteWriter \<Rightarrow> ByteWriter" where
  "write_Bytes bs w = Put bs (write_VarU64 (of_nat (length bs)) w)"

definition write_FixedBytes :: "bytes \<Rightarrow> ByteWriter \<Rightarrow> ByteWriter" where
  "write_FixedBytes bs w = Put bs w"

definition write_Text :: "string \<Rightarrow> ByteWriter \<Rightarrow> ByteWriter" where
  "write_Text t w = Put (map of_char t) (write_VarU64 (of_nat (length t)) w)"

definition write_Bool :: "bool \<Rightarrow> ByteWriter \<Rightarrow> ByteWriter" where
  "write_Bool b w = PutByte (if b then 1 else 0) w"

section \<open>ByteReader\<close>

record ByteReader =
  br_data :: bytes
  br_position :: nat
  br_failed :: bool

definition ByteReader_new :: "bytes \<Rightarrow> ByteReader" where
  "ByteReader_new bs = \<lparr>br_data = bs, br_position = 0, br_failed = False\<rparr>"

definition AtEnd :: "ByteReader \<Rightarrow> bool" where
  "AtEnd r \<longleftrightarrow> br_position r = length (br_data r)"

definition Need :: "nat \<Rightarrow> ByteReader \<Rightarrow> bool \<times> ByteReader" where
  "Need n r =
     (if br_failed r then (False, r)
      else if n > length (br_data r) - br_position r then (False, r\<lparr>br_failed := True\<rparr>)
      else (True, r))"

definition read_U8 :: "ByteReader \<Rightarrow> u8 option \<times> ByteReader" where
  "read_U8 r =
     (case Need 1 r of
        (False, r) \<Rightarrow> (None, r)
      | (True, r) \<Rightarrow> (Some (br_data r ! br_position r), r\<lparr>br_position := br_position r + 1\<rparr>))"

text \<open>The accumulation loop shared by \<open>U16\<close>, \<open>U32\<close> and \<open>U64\<close>.\<close>

definition le_accumulate :: "nat \<Rightarrow> ByteReader \<Rightarrow> 'a::len word" where
  "le_accumulate n r =
     fold (\<lambda>i acc. acc OR push_bit (8 * i) (ucast (br_data r ! (br_position r + i)))) [0..<n] 0"

definition read_U16 :: "ByteReader \<Rightarrow> u16 option \<times> ByteReader" where
  "read_U16 r =
     (case Need 2 r of
        (False, r) \<Rightarrow> (None, r)
      | (True, r) \<Rightarrow> (Some (le_accumulate 2 r), r\<lparr>br_position := br_position r + 2\<rparr>))"

definition read_U32 :: "ByteReader \<Rightarrow> u32 option \<times> ByteReader" where
  "read_U32 r =
     (case Need 4 r of
        (False, r) \<Rightarrow> (None, r)
      | (True, r) \<Rightarrow> (Some (le_accumulate 4 r), r\<lparr>br_position := br_position r + 4\<rparr>))"

definition read_U64 :: "ByteReader \<Rightarrow> u64 option \<times> ByteReader" where
  "read_U64 r =
     (case Need 8 r of
        (False, r) \<Rightarrow> (None, r)
      | (True, r) \<Rightarrow> (Some (le_accumulate 8 r), r\<lparr>br_position := br_position r + 8\<rparr>))"

definition kVarU64MaxBytes :: nat where "kVarU64MaxBytes = 10"

text \<open>
  The loop of \<open>ByteReader::VarU64\<close> at iteration \<open>i\<close>, with \<open>shift = 7 i\<close> and \<open>left\<close> iterations
  to go.
\<close>

fun read_VarU64_loop :: "nat \<Rightarrow> nat \<Rightarrow> nat \<Rightarrow> u64 \<Rightarrow> ByteReader \<Rightarrow> u64 option \<times> ByteReader" where
  "read_VarU64_loop 0 i shift v r = (None, r\<lparr>br_failed := True\<rparr>)"
| "read_VarU64_loop (Suc left) i shift v r =
     (case read_U8 r of
        (None, r) \<Rightarrow> (None, r)
      | (Some byte, r) \<Rightarrow>
          let low = byte AND 0x7F in
          if shift = 63 \<and> low > 1 then (None, r\<lparr>br_failed := True\<rparr>)
          else let v = v OR push_bit shift (ucast low) in
          if byte AND 0x80 = 0 then
            (if i > 0 \<and> low = 0 then (None, r\<lparr>br_failed := True\<rparr>) else (Some v, r))
          else read_VarU64_loop left (Suc i) (shift + 7) v r)"

definition read_VarU64 :: "ByteReader \<Rightarrow> u64 option \<times> ByteReader" where
  "read_VarU64 r = read_VarU64_loop kVarU64MaxBytes 0 0 0 r"

definition read_View :: "nat \<Rightarrow> ByteReader \<Rightarrow> bytes option \<times> ByteReader" where
  "read_View n r =
     (case Need n r of
        (False, r) \<Rightarrow> (None, r)
      | (True, r) \<Rightarrow> (Some (take n (drop (br_position r) (br_data r))), r\<lparr>br_position := br_position r + n\<rparr>))"

definition read_Text :: "ByteReader \<Rightarrow> string option \<times> ByteReader" where
  "read_Text r =
     (case read_VarU64 r of
        (None, r) \<Rightarrow> (None, r)
      | (Some n, r) \<Rightarrow>
          if unat n > length (br_data r) then (None, r\<lparr>br_failed := True\<rparr>)
          else (case read_View (unat n) r of
                  (None, r) \<Rightarrow> (None, r)
                | (Some view, r) \<Rightarrow> (Some (map (\<lambda>b. char_of (unat b)) view), r)))"

definition read_Bool :: "ByteReader \<Rightarrow> bool option \<times> ByteReader" where
  "read_Bool r =
     (case read_U8 r of
        (None, r) \<Rightarrow> (None, r)
      | (Some v, r) \<Rightarrow> if v > 1 then (None, r\<lparr>br_failed := True\<rparr>) else (Some (v = 1), r))"

definition read_FixedBytes :: "nat \<Rightarrow> ByteReader \<Rightarrow> bytes option \<times> ByteReader" where
  "read_FixedBytes n r =
     (case read_View n r of (None, r) \<Rightarrow> (None, r) | (Some view, r) \<Rightarrow> (Some view, r))"

section \<open>Hexadecimal text\<close>

definition kDigits :: string where "kDigits = ''0123456789abcdef''"

definition HexEncode :: "bytes \<Rightarrow> string" where
  "HexEncode bs = concat (map (\<lambda>b. [kDigits ! unat (drop_bit 4 b), kDigits ! unat (b AND 0x0F)]) bs)"

definition IsLowerHexDigit :: "char \<Rightarrow> bool" where
  "IsLowerHexDigit c \<longleftrightarrow>
     (of_char c \<ge> (48::nat) \<and> of_char c \<le> (57::nat)) \<or> (of_char c \<ge> (97::nat) \<and> of_char c \<le> (102::nat))"

definition LowerHexValue :: "char \<Rightarrow> u8" where
  "LowerHexValue c = (if of_char c \<le> (57::nat) then of_char c - 48 else of_char c - 97 + 10)"

text \<open>\<open>HexDecodeStrict(text, out)\<close> with \<open>out.size() = n\<close>: the bytes written on success.\<close>

fun HexDecode_loop :: "string \<Rightarrow> bytes option" where
  "HexDecode_loop (high # low # rest) =
     (if \<not> IsLowerHexDigit high \<or> \<not> IsLowerHexDigit low then None
      else map_option (\<lambda>bs. (push_bit 4 (LowerHexValue high) OR LowerHexValue low) # bs) (HexDecode_loop rest))"
| "HexDecode_loop _ = Some []"

definition HexDecodeStrict :: "string \<Rightarrow> nat \<Rightarrow> bytes option" where
  "HexDecodeStrict t n = (if length t \<noteq> n * 2 then None else HexDecode_loop t)"

section \<open>What a writer appends\<close>

definition bw_ok :: "ByteWriter \<Rightarrow> bool" where
  "bw_ok w \<longleftrightarrow> length (bw_data w) \<le> bw_ceiling w"

text \<open>
  \<open>emits f bs\<close>: the writer operation \<open>f\<close> appends exactly \<open>bs\<close>, or latches the overflow flag
  when \<open>bs\<close> does not fit under the ceiling; a latched writer stays latched.
\<close>

definition emits :: "(ByteWriter \<Rightarrow> ByteWriter) \<Rightarrow> bytes \<Rightarrow> bool" where
  "emits f bs \<longleftrightarrow> (\<forall>w. bw_ok w \<longrightarrow>
     bw_ok (f w) \<and> bw_ceiling (f w) = bw_ceiling w \<and>
     (bw_overflowed (f w) \<longleftrightarrow> bw_overflowed w \<or> bw_ceiling w < length (bw_data w) + length bs) \<and>
     (\<not> bw_overflowed (f w) \<longrightarrow> bw_data (f w) = bw_data w @ bs))"

lemma emits_PutByte [intro]: "emits (PutByte v) [v]"
  by (auto simp: emits_def PutByte_def bw_ok_def)

lemma emits_Put [intro]: "emits (Put bs) bs"
  by (auto simp: emits_def Put_def bw_ok_def)

lemma emits_id: "emits (\<lambda>w. w) []"
  by (auto simp: emits_def bw_ok_def)

lemma emits_comp:
  assumes "emits f as" "emits g bs"
  shows "emits (\<lambda>w. g (f w)) (as @ bs)"
  unfolding emits_def
proof (intro allI impI)
  fix w assume w: "bw_ok w"
  have f: "bw_ok (f w)" "bw_ceiling (f w) = bw_ceiling w"
    "bw_overflowed (f w) \<longleftrightarrow> bw_overflowed w \<or> bw_ceiling w < length (bw_data w) + length as"
    "\<not> bw_overflowed (f w) \<Longrightarrow> bw_data (f w) = bw_data w @ as"
    using assms(1) w by (auto simp: emits_def)
  have g: "bw_ok (g (f w))" "bw_ceiling (g (f w)) = bw_ceiling w"
    "bw_overflowed (g (f w)) \<longleftrightarrow> bw_overflowed (f w) \<or> bw_ceiling w < length (bw_data (f w)) + length bs"
    "\<not> bw_overflowed (g (f w)) \<Longrightarrow> bw_data (g (f w)) = bw_data (f w) @ bs"
    using assms(2) f(1,2) by (auto simp: emits_def)
  show "bw_ok (g (f w)) \<and> bw_ceiling (g (f w)) = bw_ceiling w \<and>
     (bw_overflowed (g (f w)) \<longleftrightarrow> bw_overflowed w \<or> bw_ceiling w < length (bw_data w) + length (as @ bs)) \<and>
     (\<not> bw_overflowed (g (f w)) \<longrightarrow> bw_data (g (f w)) = bw_data w @ as @ bs)"
    using f(3,4) g by (cases "bw_overflowed (f w)") auto
qed

lemma emits_fold: "(\<And>x. x \<in> set xs \<Longrightarrow> emits (f x) (e x)) \<Longrightarrow> emits (fold f xs) (concat (map e xs))"
proof (induction xs)
  case Nil
  then show ?case by (simp add: emits_id id_def)
next
  case (Cons x xs)
  then have "emits (\<lambda>w. fold f xs (f x w)) (e x @ concat (map e xs))"
    by (intro emits_comp) auto
  then show ?case by (simp add: comp_def)
qed

lemma emits_new:
  assumes "emits f bs"
  shows "bw_overflowed (f (ByteWriter_new c)) \<longleftrightarrow> c < length bs"
    and "length bs \<le> c \<Longrightarrow> bw_data (f (ByteWriter_new c)) = bs"
  using assms [unfolded emits_def, rule_format, of "ByteWriter_new c"]
  by (auto simp: ByteWriter_new_def bw_ok_def)

section \<open>What a reader consumes\<close>

definition ready :: "ByteReader \<Rightarrow> bytes \<Rightarrow> bool" where
  "ready r bs \<longleftrightarrow> \<not> br_failed r \<and> br_position r \<le> length (br_data r) \<and> drop (br_position r) (br_data r) = bs"

definition advance :: "nat \<Rightarrow> ByteReader \<Rightarrow> ByteReader" where
  "advance n r = r\<lparr>br_position := br_position r + n\<rparr>"

lemma ready_new [simp]: "ready (ByteReader_new bs) bs"
  by (simp add: ready_def ByteReader_new_def)

lemma ready_advance:
  assumes "ready r (as @ bs)"
  shows "ready (advance (length as) r) bs"
proof -
  have r: "\<not> br_failed r" "br_position r \<le> length (br_data r)" "drop (br_position r) (br_data r) = as @ bs"
    using assms by (auto simp: ready_def)
  have "length (br_data r) - br_position r = length as + length bs"
    using arg_cong [OF r(3), of length] by simp
  moreover have "drop (br_position r + length as) (br_data r) = bs"
    using r(3) by (metis add.commute append_eq_conv_conj drop_drop)
  ultimately show ?thesis using r(1,2) by (simp add: ready_def advance_def)
qed

lemma advance_advance [simp]: "advance n (advance m r) = advance (m + n) r"
  by (simp add: advance_def add.assoc)

lemma Need_ready: "ready r bs \<Longrightarrow> Need n r = (if n \<le> length bs then (True, r) else (False, r\<lparr>br_failed := True\<rparr>))"
  by (auto simp: ready_def Need_def)

lemma ready_nth: "ready r bs \<Longrightarrow> i < length bs \<Longrightarrow> br_data r ! (br_position r + i) = bs ! i"
  by (auto simp: ready_def)

lemma ready_AtEnd: "ready r bs \<Longrightarrow> AtEnd r \<longleftrightarrow> bs = []"
  by (auto simp: ready_def AtEnd_def)

section \<open>The codec contract\<close>

locale codec =
  fixes valid :: "'a \<Rightarrow> bool" and enc :: "'a \<Rightarrow> bytes"
    and put :: "'a \<Rightarrow> ByteWriter \<Rightarrow> ByteWriter" and get :: "ByteReader \<Rightarrow> 'a option \<times> ByteReader"
  assumes put_emits: "valid x \<Longrightarrow> emits (put x) (enc x)"
    and get_enc: "valid x \<Longrightarrow> ready r (enc x @ rest) \<Longrightarrow> get r = (Some x, advance (length (enc x)) r)"
begin

lemma enc_prefix:
  assumes "valid x" "valid y" "enc x @ as = enc y @ bs"
  shows "x = y \<and> as = bs"
proof -
  have "get (ByteReader_new (enc x @ as)) = (Some x, advance (length (enc x)) (ByteReader_new (enc x @ as)))"
    by (rule get_enc [OF assms(1) ready_new])
  moreover have "get (ByteReader_new (enc y @ bs)) = (Some y, advance (length (enc y)) (ByteReader_new (enc y @ bs)))"
    by (rule get_enc [OF assms(2) ready_new])
  ultimately have "x = y" using assms(3) by simp
  with assms(3) show ?thesis by simp
qed

lemma enc_inj: "valid x \<Longrightarrow> valid y \<Longrightarrow> enc x = enc y \<Longrightarrow> x = y"
  using enc_prefix [of x y "[]" "[]"] by simp

lemma write_read:
  assumes "valid x" "length (enc x) \<le> c"
  shows "\<not> bw_overflowed (put x (ByteWriter_new c)) \<and>
    (let (v, r) = get (ByteReader_new (bw_data (put x (ByteWriter_new c)))) in v = Some x \<and> AtEnd r \<and> \<not> br_failed r)"
proof -
  note e = emits_new [OF put_emits [OF assms(1)], of c]
  have "ready (ByteReader_new (enc x)) (enc x @ [])" by simp
  then have "get (ByteReader_new (enc x)) = (Some x, advance (length (enc x)) (ByteReader_new (enc x)))"
    by (rule get_enc [OF assms(1)])
  with e assms(2) show ?thesis
    by (simp add: advance_def AtEnd_def ByteReader_new_def)
qed

end

locale strict_codec = codec +
  assumes get_sound: "ready r bs \<Longrightarrow> get r = (Some x, r') \<Longrightarrow>
    valid x \<and> (\<exists>rest. bs = enc x @ rest \<and> r' = advance (length (enc x)) r)"
begin

lemma get_iff:
  "ready r bs \<Longrightarrow> (\<exists>r'. get r = (Some x, r')) \<longleftrightarrow> valid x \<and> (\<exists>rest. bs = enc x @ rest)"
  using get_sound get_enc by blast

end

section \<open>Fixed-width integers\<close>

definition le_bytes :: "nat \<Rightarrow> 'a::len word \<Rightarrow> bytes" where
  "le_bytes n v = map (\<lambda>i. ucast (drop_bit (8 * i) v)) [0..<n]"

definition le_word :: "nat \<Rightarrow> bytes \<Rightarrow> 'a::len word" where
  "le_word n bs = fold (\<lambda>i acc. acc OR push_bit (8 * i) (ucast (bs ! i))) [0..<n] 0"

lemma length_le_bytes [simp]: "length (le_bytes n v) = n"
  by (simp add: le_bytes_def)

lemma byte_cast: "(ucast (v AND 0xFF) :: u8) = ucast (v :: 'a::len word)"
proof (rule bit_word_eqI)
  fix n assume n: "n < LENGTH(8)"
  have ff: "(0xFF :: 'a word) = mask 8" by (simp add: mask_eq_exp_minus_1)
  show "bit (ucast (v AND 0xFF) :: u8) n = bit (ucast v :: u8) n"
    using n bit_imp_le_length [of v n] unfolding ff by (auto simp: bit_ucast_iff bit_and_iff bit_mask_iff)
qed

lemma bit_le_word_fold:
  "bit (fold (\<lambda>i acc. acc OR push_bit (8 * i) (ucast (bs ! i))) [0..<n] (0 :: 'a::len word)) k \<longleftrightarrow>
     k < LENGTH('a) \<and> k div 8 < n \<and> bit (bs ! (k div 8) :: u8) (k mod 8)"
proof (induction n)
  case 0
  then show ?case by simp
next
  case (Suc n)
  have "bit (push_bit (8 * n) (ucast (bs ! n) :: 'a word)) k \<longleftrightarrow>
      k < LENGTH('a) \<and> k div 8 = n \<and> bit (bs ! n) (k mod 8)"
  proof (cases "8 * n \<le> k \<and> k < 8 * n + 8")
    case True
    then have "k div 8 = n" "k - 8 * n = k mod 8" by (auto simp: div_nat_eqI modulo_nat_def)
    then show ?thesis using True by (auto simp: bit_push_bit_iff bit_ucast_iff)
  next
    case False
    then have "k div 8 \<noteq> n" by (metis dividend_less_times_div times_div_less_eq_dividend zero_less_numeral add.commute mult.commute)
    then show ?thesis using False bit_imp_le_length [of "bs ! n" "k - 8 * n"]
      by (auto simp: bit_push_bit_iff bit_ucast_iff)
  qed
  with Suc show ?case by (auto simp: bit_or_iff less_Suc_eq)
qed

lemma le_word_le_bytes:
  assumes "LENGTH('a) = 8 * n" "length bs \<ge> n" "take n bs = le_bytes n v"
  shows "le_word n bs = (v :: 'a::len word)"
proof (rule bit_word_eqI)
  fix k assume k: "k < LENGTH('a)"
  then have kn: "k div 8 < n" using assms(1) by (simp add: div_less_iff_less_mult mult.commute)
  have "bs ! (k div 8) = ucast (drop_bit (8 * (k div 8)) v)"
    using arg_cong [OF assms(3), of "\<lambda>l. l ! (k div 8)"] kn by (simp add: le_bytes_def)
  then show "bit (le_word n bs :: 'a word) k = bit v k"
    using k kn unfolding le_word_def bit_le_word_fold
    by (simp add: bit_ucast_iff bit_drop_bit_eq)
qed

lemma le_bytes_le_word:
  assumes "LENGTH('a) = 8 * n" "length bs = n"
  shows "le_bytes n (le_word n bs :: 'a::len word) = bs"
proof (rule nth_equalityI)
  show "length (le_bytes n (le_word n bs :: 'a word)) = length bs" using assms by simp
  fix i assume "i < length (le_bytes n (le_word n bs :: 'a word))"
  then have i: "i < n" by simp
  show "le_bytes n (le_word n bs :: 'a word) ! i = bs ! i"
  proof (rule bit_word_eqI)
    fix k assume k: "k < LENGTH(8)"
    then have "(8 * i + k) div 8 = i" "(8 * i + k) mod 8 = k" "8 * i + k < LENGTH('a)"
      using i assms(1) by auto
    then show "bit (le_bytes n (le_word n bs :: 'a word) ! i) k = bit (bs ! i) k"
      using i k by (simp add: le_bytes_def le_word_def bit_ucast_iff bit_drop_bit_eq bit_le_word_fold)
  qed
qed

lemma le_accumulate_ready:
  assumes "ready r bs" "n \<le> length bs"
  shows "(le_accumulate n r :: 'a::len word) = le_word n bs"
  unfolding le_accumulate_def le_word_def
  by (rule fold_cong) (use assms in \<open>auto simp: ready_nth\<close>)

lemma le_bytes_unfold:
  "le_bytes 2 v = [ucast v, ucast (drop_bit 8 v)]"
  "le_bytes 4 v = [ucast v, ucast (drop_bit 8 v), ucast (drop_bit 16 v), ucast (drop_bit 24 v)]"
  "le_bytes 8 v = [ucast v, ucast (drop_bit 8 v), ucast (drop_bit 16 v), ucast (drop_bit 24 v),
     ucast (drop_bit 32 v), ucast (drop_bit 40 v), ucast (drop_bit 48 v), ucast (drop_bit 56 v)]"
  by (simp_all add: le_bytes_def upt_rec)

lemma emits_write_U16: "emits (write_U16 v) (le_bytes 2 v)"
  unfolding write_U16_def le_bytes_unfold byte_cast
  using emits_comp [OF emits_PutByte emits_PutByte] by simp

lemma emits_write_bytes:
  "emits (fold (\<lambda>shift. PutByte (ucast ((drop_bit shift v) AND 0xFF))) shifts)
     (map (\<lambda>shift. ucast (drop_bit shift v)) shifts)"
proof -
  have "emits (fold (\<lambda>shift. PutByte (ucast ((drop_bit shift v) AND 0xFF))) shifts)
     (concat (map (\<lambda>shift. [ucast (drop_bit shift v)]) shifts))"
    by (rule emits_fold) (simp add: byte_cast emits_PutByte)
  then show ?thesis by simp
qed

lemma emits_write_U32: "emits (write_U32 v) (le_bytes 4 v)"
  using emits_write_bytes [of v "[0, 8, 16, 24]"] by (simp add: le_bytes_unfold write_U32_def [abs_def] comp_def)

lemma emits_write_U64: "emits (write_U64 v) (le_bytes 8 v)"
  using emits_write_bytes [of v "[0, 8, 16, 24, 32, 40, 48, 56]"]
  by (simp add: le_bytes_unfold write_U64_def [abs_def] comp_def)

lemma read_le_enc:
  assumes len: "LENGTH('a) = 8 * n" and r: "ready r (le_bytes n v @ rest)"
  shows "Need n r = (True, r)" "le_accumulate n r = (v :: 'a::len word)"
  using Need_ready [OF r, of n] le_accumulate_ready [OF r, of n, where 'a = 'a]
    le_word_le_bytes [OF len, of "le_bytes n v @ rest" v]
  by simp_all

lemma read_le_sound:
  assumes len: "LENGTH('a) = 8 * n" and r: "ready r bs" and need: "Need n r = (True, r')"
  shows "r' = r \<and> (\<exists>rest. bs = le_bytes n (le_accumulate n r :: 'a::len word) @ rest)"
proof -
  from Need_ready [OF r, of n] need have n: "n \<le> length bs" "r' = r" by (auto split: if_splits)
  have "le_bytes n (le_word n (take n bs) :: 'a word) = take n bs"
    using le_bytes_le_word [OF len, of "take n bs"] n by simp
  moreover have "(le_word n (take n bs) :: 'a word) = le_word n bs"
    unfolding le_word_def by (rule fold_cong) (use n in auto)
  ultimately show ?thesis
    using le_accumulate_ready [OF r n(1), where 'a = 'a] n(2) by (metis append_take_drop_id)
qed

interpretation u16: strict_codec "\<lambda>_. True" "le_bytes 2" write_U16 read_U16
proof
  show "emits (write_U16 x) (le_bytes 2 x)" for x by (rule emits_write_U16)
  show "read_U16 r = (Some x, advance (length (le_bytes 2 x)) r)" if "ready r (le_bytes 2 x @ rest)" for x r rest
    using read_le_enc [OF _ that] by (simp add: read_U16_def advance_def)
  show "True \<and> (\<exists>rest. bs = le_bytes 2 x @ rest \<and> r' = advance (length (le_bytes 2 x)) r)"
    if "ready r bs" "read_U16 r = (Some x, r')" for r bs x r'
    using that read_le_sound [where 'a = 16, of 2, OF _ that(1)]
    by (auto simp: read_U16_def advance_def split: prod.splits bool.splits)
qed

interpretation u32: strict_codec "\<lambda>_. True" "le_bytes 4" write_U32 read_U32
proof
  show "emits (write_U32 x) (le_bytes 4 x)" for x by (rule emits_write_U32)
  show "read_U32 r = (Some x, advance (length (le_bytes 4 x)) r)" if "ready r (le_bytes 4 x @ rest)" for x r rest
    using read_le_enc [OF _ that] by (simp add: read_U32_def advance_def)
  show "True \<and> (\<exists>rest. bs = le_bytes 4 x @ rest \<and> r' = advance (length (le_bytes 4 x)) r)"
    if "ready r bs" "read_U32 r = (Some x, r')" for r bs x r'
    using that read_le_sound [where 'a = 32, of 4, OF _ that(1)]
    by (auto simp: read_U32_def advance_def split: prod.splits bool.splits)
qed

interpretation u64: strict_codec "\<lambda>_. True" "le_bytes 8" write_U64 read_U64
proof
  show "emits (write_U64 x) (le_bytes 8 x)" for x by (rule emits_write_U64)
  show "read_U64 r = (Some x, advance (length (le_bytes 8 x)) r)" if "ready r (le_bytes 8 x @ rest)" for x r rest
    using read_le_enc [OF _ that] by (simp add: read_U64_def advance_def)
  show "True \<and> (\<exists>rest. bs = le_bytes 8 x @ rest \<and> r' = advance (length (le_bytes 8 x)) r)"
    if "ready r bs" "read_U64 r = (Some x, r')" for r bs x r'
    using that read_le_sound [where 'a = 64, of 8, OF _ that(1)]
    by (auto simp: read_U64_def advance_def split: prod.splits bool.splits)
qed

lemma read_U8_ready:
  assumes "ready r bs"
  shows "read_U8 r = (case bs of [] \<Rightarrow> (None, r\<lparr>br_failed := True\<rparr>) | b # _ \<Rightarrow> (Some b, advance 1 r))"
  using Need_ready [OF assms, of 1] ready_nth [OF assms, of 0]
  by (cases bs) (auto simp: read_U8_def advance_def)

interpretation u8: strict_codec "\<lambda>_. True" "\<lambda>b. [b]" write_U8 read_U8
proof
  show "emits (write_U8 x) [x]" for x by (auto simp: write_U8_def [abs_def])
qed (auto simp: read_U8_ready split: list.splits)

interpretation boolean: strict_codec "\<lambda>_. True" "\<lambda>b. [if b then 1 else 0]" write_Bool read_Bool
proof
  show "emits (write_Bool x) [if x then 1 else 0]" for x by (auto simp: write_Bool_def [abs_def])
  have "v = 0 \<or> v = 1" if "\<not> v > 1" for v :: u8
    using that by (simp add: word_less_nat_alt word_unat_eq_iff) linarith
  then show "True \<and> (\<exists>rest. bs = [if x then 1 else 0] @ rest \<and> r' = advance (length [if x then 1 else 0]) r)"
    if "ready r bs" "read_Bool r = (Some x, r')" for r bs x r'
    using that by (auto simp: read_Bool_def read_U8_ready split: list.splits if_splits)
qed (auto simp: read_Bool_def read_U8_ready)

interpretation fixed: strict_codec "\<lambda>bs. length bs = n" "\<lambda>bs. bs" write_FixedBytes "read_FixedBytes n" for n
proof
  show "emits (write_FixedBytes x) x" for x by (auto simp: write_FixedBytes_def [abs_def])
  show "read_FixedBytes n r = (Some x, advance (length x) r)"
    if "length x = n" "ready r (x @ rest)" for x r rest
    using Need_ready [OF that(2), of n] that
    by (auto simp: read_FixedBytes_def read_View_def advance_def ready_def)
  show "length x = n \<and> (\<exists>rest. bs = x @ rest \<and> r' = advance (length x) r)"
    if "ready r bs" "read_FixedBytes n r = (Some x, r')" for r bs x r'
    using Need_ready [OF that(1), of n] that
    by (auto simp: read_FixedBytes_def read_View_def advance_def ready_def simp del: drop_drop
        split: if_splits intro!: exI [of _ "drop n bs"])
qed

section \<open>Variable-length integers\<close>

function enc_VarU64 :: "u64 \<Rightarrow> bytes" where
  "enc_VarU64 v =
     (if v < 0x80 then [ucast v] else ucast ((v AND 0x7F) OR 0x80) # enc_VarU64 (drop_bit 7 v))"
  by pat_completeness auto
termination
  by (relation "measure unat") (use unat_drop_bit7_less in auto)

declare enc_VarU64.simps [simp del]

lemma emits_write_VarU64: "emits (write_VarU64 v) (enc_VarU64 v)"
proof (induction v rule: enc_VarU64.induct)
  case (1 v)
  show ?case
  proof (cases "v < 0x80")
    case True
    then have "write_VarU64 v = PutByte (ucast v)" by (simp add: fun_eq_iff write_VarU64.simps)
    with True show ?thesis by (simp add: enc_VarU64.simps emits_PutByte)
  next
    case False
    have "emits (\<lambda>w. write_VarU64 (drop_bit 7 v) (PutByte (ucast ((v AND 0x7F) OR 0x80)) w))
        ([ucast ((v AND 0x7F) OR 0x80)] @ enc_VarU64 (drop_bit 7 v))"
      by (rule emits_comp [OF emits_PutByte "1.IH" [OF False]])
    moreover have "write_VarU64 v =
        (\<lambda>w. write_VarU64 (drop_bit 7 v) (PutByte (ucast ((v AND 0x7F) OR 0x80)) w))"
      using False by (simp add: fun_eq_iff write_VarU64.simps [of v])
    ultimately show ?thesis using False by (simp add: enc_VarU64.simps [of v])
  qed
qed

lemma bit_seven:
  "bit (0x80 :: u64) n \<longleftrightarrow> n = 7" "bit (0x80 :: u8) n \<longleftrightarrow> n = 7"
  "bit (0x7F :: u64) n \<longleftrightarrow> n < 7" "bit (0x7F :: u8) n \<longleftrightarrow> n < 7"
  "bit (0x80 :: int) n \<longleftrightarrow> n = 7" "bit (0x7F :: int) n \<longleftrightarrow> n < 7"
proof -
  have e: "(0x80 :: u64) = 2 ^ 7" "(0x80 :: u8) = 2 ^ 7" "(0x7F :: u64) = mask 7" "(0x7F :: u8) = mask 7"
    "(0x80 :: int) = 2 ^ 7" "(0x7F :: int) = mask 7"
    by (simp_all add: mask_eq_exp_minus_1)
  show "bit (0x80 :: int) n \<longleftrightarrow> n = 7" unfolding e(5) bit_exp_iff by auto
  show "bit (0x7F :: int) n \<longleftrightarrow> n < 7" unfolding e(6) bit_mask_iff by auto
  show "bit (0x80 :: u64) n \<longleftrightarrow> n = 7" unfolding e(1) bit_exp_iff by auto
  show "bit (0x80 :: u8) n \<longleftrightarrow> n = 7" unfolding e(2) bit_exp_iff by auto
  show "bit (0x7F :: u64) n \<longleftrightarrow> n < 7" unfolding e(3) bit_mask_iff by auto
  show "bit (0x7F :: u8) n \<longleftrightarrow> n < 7" unfolding e(4) bit_mask_iff by auto
qed

lemma less_exp_iff_drop_bit:
  assumes "k < LENGTH('a)"
  shows "(u :: 'a::len word) < 2 ^ k \<longleftrightarrow> drop_bit k u = 0"
proof -
  have "(2 ^ k :: 'a word) \<noteq> 0" using assms by simp
  then have pos: "0 < unat (2 ^ k :: 'a word)" by (simp add: unat_gt_0)
  have "drop_bit k u = 0 \<longleftrightarrow> unat u div unat (2 ^ k :: 'a word) = 0"
    by (simp add: drop_bit_eq_div word_unat_eq_iff unat_div)
  also have "\<dots> \<longleftrightarrow> u < 2 ^ k" using pos by (simp only: div_eq_0_iff word_less_nat_alt) simp
  finally show ?thesis ..
qed

lemma less80_bit: "(u :: u64) < 0x80 \<longleftrightarrow> (\<forall>n \<ge> 7. \<not> bit u n)"
proof -
  have "u < 0x80 \<longleftrightarrow> drop_bit 7 u = 0" using less_exp_iff_drop_bit [of 7 u] by simp
  also have "\<dots> \<longleftrightarrow> (\<forall>n. \<not> bit u (7 + n))"
    using bit_imp_le_length [of u] by (auto simp: bit_eq_iff bit_drop_bit_eq) fastforce
  also have "\<dots> \<longleftrightarrow> (\<forall>n \<ge> 7. \<not> bit u n)" by (metis le_add1 le_Suc_ex)
  finally show ?thesis .
qed

lemmas byte_bits = bit_ucast_iff bit_and_iff bit_or_iff bit_push_bit_iff bit_drop_bit_eq bit_seven

lemma var_last:
  assumes "(u :: u64) < 0x80"
  shows "(ucast u :: u8) AND 0x7F = ucast u" "(ucast u :: u8) AND 0x80 = 0"
    "ucast (ucast u :: u8) = u" "(ucast u :: u8) = 0 \<longleftrightarrow> u = 0"
proof -
  have b: "n < 7" if "bit u n" for n using assms that by (simp add: less80_bit) (meson not_le)
  show "(ucast u :: u8) AND 0x7F = ucast u" by (rule bit_word_eqI) (use b in \<open>auto simp: byte_bits not_le\<close>)
  show "(ucast u :: u8) AND 0x80 = 0" by (rule bit_word_eqI) (use b in \<open>auto simp: byte_bits\<close>)
  show *: "ucast (ucast u :: u8) = u" by (rule bit_word_eqI) (use b in \<open>fastforce simp: byte_bits\<close>)
  show "(ucast u :: u8) = 0 \<longleftrightarrow> u = 0" using * by (metis unsigned_0)
qed

lemma var_more:
  fixes u :: u64
  shows "(ucast ((u AND 0x7F) OR 0x80) :: u8) AND 0x7F = ucast (u AND 0x7F)"
    "(ucast ((u AND 0x7F) OR 0x80) :: u8) AND 0x80 \<noteq> 0"
    "ucast (ucast (u AND 0x7F) :: u8) = u AND 0x7F"
proof -
  show "(ucast ((u AND 0x7F) OR 0x80) :: u8) AND 0x7F = ucast (u AND 0x7F)"
    by (rule bit_word_eqI) (auto simp: byte_bits)
  have "bit ((ucast ((u AND 0x7F) OR 0x80) :: u8) AND 0x80) 7" by (simp add: byte_bits)
  then show "(ucast ((u AND 0x7F) OR 0x80) :: u8) AND 0x80 \<noteq> 0" by (metis bit_0_eq bot_apply bot_bool_def)
  show "ucast (ucast (u AND 0x7F) :: u8) = u AND 0x7F"
    by (rule bit_word_eqI) (auto simp: byte_bits)
qed

lemma push_bit_split:
  "push_bit s u = push_bit s (u AND 0x7F) OR push_bit (s + 7) (drop_bit 7 (u :: u64))"
proof (rule bit_word_eqI)
  fix n assume "n < LENGTH(64)"
  then show "bit (push_bit s u) n = bit (push_bit s (u AND 0x7F) OR push_bit (s + 7) (drop_bit 7 u)) n"
    by (cases "n < s + 7") (auto simp: byte_bits)
qed

lemma var_join:
  fixes b :: u8 and u' :: u64
  assumes "b AND 0x80 \<noteq> 0" "u' \<noteq> 0" "drop_bit 57 u' = 0"
  defines "u \<equiv> ucast (b AND 0x7F) OR push_bit 7 u'"
  shows "\<not> u < 0x80" "ucast ((u AND 0x7F) OR 0x80) = b" "drop_bit 7 u = u'" "u AND 0x7F = ucast (b AND 0x7F)"
proof -
  have b7: "bit b 7"
  proof (rule ccontr)
    assume "\<not> bit b 7"
    then have "b AND 0x80 = 0" by (intro bit_word_eqI) (auto simp: byte_bits)
    with assms(1) show False by simp
  qed
  have hi: "n < 57" if "bit u' n" for n
    using arg_cong [OF assms(3), of "\<lambda>w. bit w (n - 57)"] that
    by (cases "n < 57") (simp_all add: bit_drop_bit_eq)
  have bl: "n < 8" if "bit b n" for n using that bit_imp_le_length [of b n] by auto
  show d: "drop_bit 7 u = u'"
    unfolding u_def by (rule bit_word_eqI) (use hi bl in \<open>fastforce simp: byte_bits\<close>)
  show "\<not> u < 0x80" using d assms(2) less_exp_iff_drop_bit [of 7 u] by simp
  show "u AND 0x7F = ucast (b AND 0x7F)"
    unfolding u_def by (rule bit_word_eqI) (auto simp: byte_bits)
  then show "ucast ((u AND 0x7F) OR 0x80) = b"
    by (intro bit_word_eqI) (use b7 in \<open>auto simp: byte_bits less_Suc_eq numeral_eq_Suc\<close>)
qed

lemma drop_bit_zero_mono: "drop_bit a (u :: u64) = 0 \<Longrightarrow> a \<le> b \<Longrightarrow> drop_bit b u = 0"
  by (metis drop_bit_0 drop_bit_drop_bit drop_bit_of_0 le_add_diff_inverse2)

lemma drop_bit63: "drop_bit (64 - 63) (u :: u64) = 0 \<Longrightarrow> u < 2"
  using less_exp_iff_drop_bit [of 1 u] by simp

lemma read_VarU64_enc:
  assumes "ready r (enc_VarU64 u @ rest)" "left + i = 10" "shift = 7 * i" "left > 0"
    and "drop_bit (64 - shift) u = 0" "i > 0 \<Longrightarrow> u \<noteq> 0"
  shows "read_VarU64_loop left i shift acc r = (Some (acc OR push_bit shift u), advance (length (enc_VarU64 u)) r)"
  using assms
proof (induction u arbitrary: r left i shift acc rule: enc_VarU64.induct)
  case (1 u)
  then obtain l where l: "left = Suc l" by (cases left) auto
  have small: "u < 2" if "shift = 63" using drop_bit63 "1.prems"(5) that by simp
  show ?case
  proof (cases "u < 0x80")
    case True
    have "\<not> (1 :: u8) < ucast u" if "shift = 63"
      using small [OF that] True by (simp add: word_less_nat_alt unsigned_ucast_eq take_bit_eq_mod)
    with True "1.prems"(6) show ?thesis
      using read_U8_ready [OF "1.prems"(1)] var_last [OF True]
      by (auto simp: l enc_VarU64.simps [of u] Let_def)
  next
    case False
    then have s: "shift \<noteq> 63" using small by (auto simp: word_less_nat_alt)
    then have i: "i < 9" and l0: "l > 0" using "1.prems"(2,3,4) l by auto
    let ?b = "ucast ((u AND 0x7F) OR 0x80) :: u8"
    have r1: "ready r ([?b] @ (enc_VarU64 (drop_bit 7 u) @ rest))"
      using "1.prems"(1) False by (simp add: enc_VarU64.simps [of u])
    have d: "drop_bit 7 u \<noteq> 0" using less_exp_iff_drop_bit [of 7 u] False by simp
    have "64 - (shift + 7) + 7 = 64 - shift" using i "1.prems"(3) by simp
    then have "drop_bit (64 - (shift + 7)) (drop_bit 7 u) = 0"
      using "1.prems"(5) by (metis drop_bit_drop_bit)
    then have "read_VarU64_loop l (Suc i) (shift + 7) (acc OR push_bit shift (u AND 0x7F)) (advance 1 r) =
        (Some ((acc OR push_bit shift (u AND 0x7F)) OR push_bit (shift + 7) (drop_bit 7 u)),
         advance (length (enc_VarU64 (drop_bit 7 u))) (advance 1 r))"
      using "1.IH" [OF False, of "advance 1 r" l "Suc i" "shift + 7"] ready_advance [OF r1] d l0 "1.prems"(2,3) l
      by simp
    moreover have "read_U8 r = (Some ?b, advance 1 r)" using read_U8_ready [OF r1] by simp
    ultimately show ?thesis
      using s var_more [of u] False push_bit_split [of shift u, symmetric]
      by (simp add: l enc_VarU64.simps [of u] Let_def or.assoc)
  qed
qed

lemma byte_up_down: "ucast (ucast (b :: u8) :: u64) = b"
  by (rule bit_word_eqI) (simp add: bit_ucast_iff)

lemma read_VarU64_sound:
  assumes "ready r bs" "read_VarU64_loop left i shift acc r = (Some v, r')" "left + i = 10" "shift = 7 * i"
  shows "\<exists>u rest. bs = enc_VarU64 u @ rest \<and> r' = advance (length (enc_VarU64 u)) r \<and>
    v = acc OR push_bit shift u \<and> (i > 0 \<longrightarrow> u \<noteq> 0) \<and> drop_bit (64 - shift) u = 0"
  using assms
proof (induction left arbitrary: r bs i shift acc)
  case 0
  then show ?case by simp
next
  case (Suc left)
  from Suc.prems(1,2) obtain b bs' where b: "bs = b # bs'" "read_U8 r = (Some b, advance 1 r)"
    by (cases bs) (auto simp: read_U8_ready)
  let ?low = "b AND 0x7F"
  have r1: "ready (advance 1 r) bs'" using ready_advance [of r "[b]" bs'] Suc.prems(1) b by simp
  have nofail: "\<not> (shift = 63 \<and> ?low > 1)" using Suc.prems(2) b by (auto simp: Let_def)
  show ?case
  proof (cases "b AND 0x80 = 0")
    case True
    have low: "b = ?low"
    proof (rule bit_word_eqI)
      fix n assume n: "n < LENGTH(8)"
      have "\<not> bit b 7" using arg_cong [OF True, of "\<lambda>w. bit w 7"] by (simp add: byte_bits)
      with n show "bit b n = bit ?low n" by (cases "n = 7") (auto simp: byte_bits)
    qed
    let ?u = "ucast b :: u64"
    have u80: "?u < 0x80" unfolding less80_bit
    proof (intro allI impI)
      fix n :: nat assume "7 \<le> n"
      have "\<not> bit ?low n" using \<open>7 \<le> n\<close> by (simp add: byte_bits)
      then show "\<not> bit ?u n" using low by (simp add: bit_ucast_iff)
    qed
    have res: "v = acc OR push_bit shift ?u" "r' = advance 1 r" "i > 0 \<Longrightarrow> b \<noteq> 0"
      using Suc.prems(2) b True nofail low by (auto simp: Let_def split: if_splits)
    have "drop_bit (64 - shift) ?u = 0"
    proof (cases "shift = 63")
      case True
      then have "b \<le> 1" using nofail low by simp
      then have "?u < 2 ^ 1" by (simp add: word_less_nat_alt word_le_nat_alt unsigned_ucast_eq take_bit_eq_mod)
      then show ?thesis using True less_exp_iff_drop_bit [of 1 ?u] by simp
    next
      case False
      then have "7 \<le> 64 - shift" using Suc.prems(3,4) by simp
      moreover have "drop_bit 7 ?u = 0" using u80 less_exp_iff_drop_bit [of 7 ?u] by simp
      ultimately show ?thesis by (rule drop_bit_zero_mono [rotated])
    qed
    moreover have "enc_VarU64 ?u = [b]" using u80 by (simp add: enc_VarU64.simps byte_up_down)
    moreover have "?u = 0 \<longleftrightarrow> b = 0" using byte_up_down [of b] by auto
    ultimately show ?thesis using res b(1) by (intro exI [of _ ?u] exI [of _ bs']) auto
  next
    case False
    then have rec: "read_VarU64_loop left (Suc i) (shift + 7) (acc OR push_bit shift (ucast ?low)) (advance 1 r) = (Some v, r')"
      using Suc.prems(2) b nofail by (auto simp: Let_def)
    from Suc.IH [OF r1 rec] Suc.prems(3,4) obtain u' rest where u':
      "bs' = enc_VarU64 u' @ rest" "r' = advance (length (enc_VarU64 u')) (advance 1 r)"
      "v = (acc OR push_bit shift (ucast ?low)) OR push_bit (shift + 7) u'" "u' \<noteq> 0"
      "drop_bit (64 - (shift + 7)) u' = 0" by auto
    have sh: "shift + 7 \<le> 63 "
      using u'(4,5) Suc.prems(3,4) by (cases "shift = 63") auto
    define u where "u = ucast ?low OR push_bit 7 u'"
    have d57: "drop_bit 57 u' = 0" by (rule drop_bit_zero_mono [OF u'(5)]) simp
    note j = var_join [OF False u'(4) d57, folded u_def]
    have "enc_VarU64 u = b # enc_VarU64 u'" using j by (simp add: enc_VarU64.simps [of u])
    moreover have "v = acc OR push_bit shift u"
      using u'(3) push_bit_split [of shift u, symmetric] j(3,4) by (simp add: or.assoc)
    moreover have "drop_bit (64 - shift) u = 0"
    proof -
      have "64 - shift = (64 - (shift + 7)) + 7" using sh by simp
      then show ?thesis using u'(5) j(3) by (metis drop_bit_drop_bit)
    qed
    moreover have "u \<noteq> 0" using j(1) by auto
    ultimately show ?thesis using u'(1,2) b(1) by (intro exI [of _ u] exI [of _ rest]) auto
  qed
qed

interpretation var: strict_codec "\<lambda>_. True" enc_VarU64 write_VarU64 read_VarU64
proof
  show "emits (write_VarU64 x) (enc_VarU64 x)" for x by (rule emits_write_VarU64)
  show "read_VarU64 r = (Some x, advance (length (enc_VarU64 x)) r)" if "ready r (enc_VarU64 x @ rest)" for x r rest
    using read_VarU64_enc [OF that, of 10 0 0 0] by (simp add: read_VarU64_def kVarU64MaxBytes_def)
  show "True \<and> (\<exists>rest. bs = enc_VarU64 x @ rest \<and> r' = advance (length (enc_VarU64 x)) r)"
    if "ready r bs" "read_VarU64 r = (Some x, r')" for r bs x r'
    using read_VarU64_sound [OF that(1), of 10 0 0 0 x r'] that(2)
    by (auto simp: read_VarU64_def kVarU64MaxBytes_def)
qed

section \<open>Text\<close>

lemma of_char_char_of: "(of_char (char_of (unat b)) :: u8) = b"
proof -
  have "(of_char (char_of (unat b)) :: nat) = unat b"
    using unsigned_less [of b, where 'a = nat] by (simp add: of_char_of)
  moreover have "(of_nat (unat b) :: u8) = b" by simp
  ultimately show ?thesis by (metis of_nat_of_char)
qed

lemma char_of_of_char: "char_of (unat (of_char c :: u8)) = c"
proof -
  have "unat (of_char c :: u8) = (of_char c :: nat)"
    using nat_of_char_less_256 [of c] by (simp flip: of_nat_of_char [where 'a = u8] add: unat_of_nat)
  then show ?thesis by (simp add: char_of_char)
qed

definition enc_Text :: "string \<Rightarrow> bytes" where
  "enc_Text t = enc_VarU64 (of_nat (length t)) @ map of_char t"

lemma emits_write_Text: "emits (write_Text x) (enc_Text x)"
  unfolding write_Text_def [abs_def] enc_Text_def by (rule emits_comp [OF emits_write_VarU64 emits_Put])

interpretation str: strict_codec "\<lambda>t. length t < 2 ^ 64" enc_Text write_Text read_Text
proof
  show "emits (write_Text x) (enc_Text x)" for x by (rule emits_write_Text)
next
  fix x r rest assume x: "length x < 2 ^ 64" and r: "ready r (enc_Text x @ rest)"
  let ?e = "enc_VarU64 (of_nat (length x))"
  have r0: "ready r (?e @ (map of_char x @ rest))" using r by (simp add: enc_Text_def)
  let ?r1 = "advance (length ?e) r"
  have r1: "ready ?r1 (map of_char x @ rest)" by (rule ready_advance [OF r0])
  then have "length x \<le> length (br_data ?r1)" by (auto simp: ready_def dest: arg_cong [of _ _ length])
  moreover have "unat (of_nat (length x) :: u64) = length x" using x by (simp add: unat_of_nat)
  moreover have "read_View (length x) ?r1 = (Some (map of_char x), advance (length x) ?r1)"
    using r1 Need_ready [OF r1, of "length x"] by (auto simp: read_View_def advance_def ready_def)
  ultimately show "read_Text r = (Some x, advance (length (enc_Text x)) r)"
    using var.get_enc [OF _ r0] by (simp add: read_Text_def enc_Text_def comp_def char_of_of_char)
next
  fix r bs x r' assume r: "ready r bs" and g: "read_Text r = (Some x, r')"
  then obtain n r1 where n: "read_VarU64 r = (Some n, r1)" by (auto simp: read_Text_def split: prod.splits option.splits)
  from var.get_sound [OF r n] obtain rest where rest: "bs = enc_VarU64 n @ rest" "r1 = advance (length (enc_VarU64 n)) r" by auto
  then have r1: "ready r1 rest" using ready_advance r by blast
  from g n obtain view r2 where view: "read_View (unat n) r1 = (Some view, r2)"
    "x = map (\<lambda>b. char_of (unat b)) view" "r' = r2"
    by (auto simp: read_Text_def split: prod.splits option.splits if_splits)
  have v: "unat n \<le> length rest" "view = take (unat n) rest" "r2 = advance (unat n) r1"
    using view(1) r1 Need_ready [OF r1, of "unat n"]
    by (auto simp: read_View_def advance_def ready_def split: prod.splits bool.splits if_splits)
  then have lx: "length x = unat n" using view(2) by simp
  moreover have "map of_char x = view" using view(2) by (simp add: comp_def of_char_char_of)
  ultimately show "length x < 2 ^ 64 \<and> (\<exists>rest. bs = enc_Text x @ rest \<and> r' = advance (length (enc_Text x)) r)"
    using rest v view(3) unsigned_less [of n, where 'a = nat]
    by (auto simp: enc_Text_def intro!: exI [of _ "drop (unat n) rest"])
qed

section \<open>Hexadecimal round trips\<close>

lemma kDigits_nth: "n < 16 \<Longrightarrow> IsLowerHexDigit (kDigits ! n) \<and> LowerHexValue (kDigits ! n) = of_nat n"
proof -
  assume "n < 16"
  then have "n \<in> {0, 1, 2, 3, 4, 5, 6, 7, 8, 9, 10, 11, 12, 13, 14, 15}" by (simp, presburger)
  then show ?thesis
    by (elim insertE emptyE) (simp_all add: kDigits_def IsLowerHexDigit_def LowerHexValue_def)
qed

lemma LowerHexDigit_cases:
  assumes "IsLowerHexDigit c"
  shows "unat (LowerHexValue c) < 16 \<and> kDigits ! unat (LowerHexValue c) = c"
proof -
  have c: "c = char_of (of_char c :: nat)" by simp
  define n where "n = (of_char c :: nat)"
  have "n \<in> {48, 49, 50, 51, 52, 53, 54, 55, 56, 57, 97, 98, 99, 100, 101, 102}"
    using assms unfolding IsLowerHexDigit_def n_def [symmetric] by (simp, presburger)
  then have "c \<in> set ''0123456789abcdef''"
    using c unfolding n_def [symmetric] by (elim insertE emptyE) (simp_all add: char_of_def bit_0)
  then show ?thesis by (auto simp: LowerHexValue_def kDigits_def)
qed

lemma nibbles:
  fixes b :: u8
  shows "unat (drop_bit 4 b) < 16" "unat (b AND 0x0F) < 16"
    "push_bit 4 (drop_bit 4 b) OR (b AND 0x0F) = b"
proof -
  have f: "(0x0F :: u8) = mask 4" by (simp add: mask_eq_exp_minus_1)
  have bl: "n < 8" if "bit b n" for n using that bit_imp_le_length [of b n] by auto
  show "unat (drop_bit 4 b) < 16"
    using unsigned_less [of b, where 'a = nat] by (simp add: drop_bit_eq_div unat_div)
  show "unat (b AND 0x0F) < 16"
    unfolding f take_bit_eq_mask [symmetric] by (simp add: take_bit_eq_mod unat_mod)
  show "push_bit 4 (drop_bit 4 b) OR (b AND 0x0F) = b"
    unfolding f by (rule bit_word_eqI) (use bl in \<open>auto simp: bit_or_iff bit_push_bit_iff bit_drop_bit_eq bit_and_iff bit_mask_iff\<close>)
qed

lemma length_HexEncode [simp]: "length (HexEncode bs) = 2 * length bs"
  by (induction bs) (simp_all add: HexEncode_def)

lemma HexDecode_HexEncode: "HexDecodeStrict (HexEncode bs) (length bs) = Some bs"
proof -
  have "HexDecode_loop (HexEncode bs) = Some bs"
    by (induction bs) (simp_all add: HexEncode_def kDigits_nth nibbles)
  then show ?thesis by (simp add: HexDecodeStrict_def)
qed

lemma hex_byte:
  fixes h l :: u8
  assumes "unat h < 16" "unat l < 16"
  shows "drop_bit 4 (push_bit 4 h OR l) = h" "(push_bit 4 h OR l) AND 0x0F = l"
proof -
  have f: "(0x0F :: u8) = mask 4" by (simp add: mask_eq_exp_minus_1)
  have small: "n < 4" if "bit x n" "unat x < 16" for x :: u8 and n
  proof -
    have "x < 2 ^ 4" using that(2) by (simp add: word_less_nat_alt)
    then have "drop_bit 4 x = 0" using less_exp_iff_drop_bit [of 4 x] by simp
    then have "\<not> bit (drop_bit 4 x) (n - 4)" by simp
    then show ?thesis using that(1) by (cases "n < 4") (simp_all add: bit_drop_bit_eq)
  qed
  show "drop_bit 4 (push_bit 4 h OR l) = h"
    by (rule bit_word_eqI) (use small [OF _ assms(1)] small [OF _ assms(2)] in
        \<open>fastforce simp: bit_or_iff bit_push_bit_iff bit_drop_bit_eq\<close>)
  show "(push_bit 4 h OR l) AND 0x0F = l"
    unfolding f by (rule bit_word_eqI) (use small [OF _ assms(2)] in
        \<open>auto simp: bit_or_iff bit_push_bit_iff bit_and_iff bit_mask_iff\<close>)
qed

lemma HexDecode_loop_sound: "HexDecode_loop t = Some bs \<Longrightarrow> even (length t) \<Longrightarrow> HexEncode bs = t"
proof (induction t arbitrary: bs rule: HexDecode_loop.induct)
  case (1 high low rest)
  then obtain bs' where bs': "HexDecode_loop rest = Some bs'"
    "bs = (push_bit 4 (LowerHexValue high) OR LowerHexValue low) # bs'"
    and d: "IsLowerHexDigit high" "IsLowerHexDigit low"
    by (auto split: if_splits)
  note h = LowerHexDigit_cases [OF d(1)] and l = LowerHexDigit_cases [OF d(2)]
  have "HexEncode bs' = rest" using "1.IH" bs' d "1.prems"(2) by simp
  then show ?case using bs'(2) h l hex_byte by (simp add: HexEncode_def)
qed (simp_all add: HexEncode_def)

lemma HexDecodeStrict_iff: "HexDecodeStrict t n = Some bs \<longleftrightarrow> t = HexEncode bs \<and> length bs = n"
  using HexDecode_loop_sound [of t bs] HexDecode_HexEncode [of bs]
  by (auto simp: HexDecodeStrict_def split: if_splits)

lemma HexEncode_inj: "HexEncode as = HexEncode bs \<Longrightarrow> as = bs"
  using HexDecode_HexEncode [of as] HexDecode_HexEncode [of bs] length_HexEncode [of as] length_HexEncode [of bs]
  by simp


section \<open>Sequences of writes\<close>

lemma emits_then:
  "emits f bs \<Longrightarrow> emits (\<lambda>w. write_U32 a (f w)) (bs @ le_bytes 4 a)"
  "emits f bs \<Longrightarrow> emits (\<lambda>w. write_U64 b (f w)) (bs @ le_bytes 8 b)"
  "emits f bs \<Longrightarrow> emits (\<lambda>w. write_U16 g (f w)) (bs @ le_bytes 2 g)"
  "emits f bs \<Longrightarrow> emits (\<lambda>w. write_U8 h (f w)) (bs @ [h])"
  "emits f bs \<Longrightarrow> emits (\<lambda>w. write_VarU64 c (f w)) (bs @ enc_VarU64 c)"
  "emits f bs \<Longrightarrow> emits (\<lambda>w. write_FixedBytes d (f w)) (bs @ d)"
  "emits f bs \<Longrightarrow> emits (\<lambda>w. write_Text t (f w)) (bs @ enc_Text t)"
  "emits f bs \<Longrightarrow> emits (\<lambda>w. write_Bool e (f w)) (bs @ [if e then 1 else 0])"
  by (rule emits_comp, assumption,
      rule emits_write_U32 emits_write_U64 emits_write_U16 u8.put_emits [OF TrueI] emits_write_VarU64
        fixed.put_emits [OF refl] boolean.put_emits [OF TrueI] emits_write_Text)+

lemma emits_then_fold:
  "emits f bs \<Longrightarrow> (\<And>x. x \<in> set xs \<Longrightarrow> emits (g x) (e x)) \<Longrightarrow> emits (\<lambda>w. fold g xs (f w)) (bs @ concat (map e xs))"
  by (rule emits_comp [OF _ emits_fold])

lemma emits_eqI: "emits f bs' \<Longrightarrow> bs' = bs \<Longrightarrow> emits f bs"
  by simp

lemma enc_prefix_simps:
  "le_bytes 4 (a :: u32) @ xs = le_bytes 4 b @ ys \<longleftrightarrow> a = b \<and> xs = ys"
  "le_bytes 8 (c :: u64) @ xs = le_bytes 8 d @ ys \<longleftrightarrow> c = d \<and> xs = ys"
  "enc_VarU64 e @ xs = enc_VarU64 f @ ys \<longleftrightarrow> e = f \<and> xs = ys"
  using u32.enc_prefix [OF TrueI TrueI, of a xs b ys] u64.enc_prefix [OF TrueI TrueI, of c xs d ys]
    var.enc_prefix [OF TrueI TrueI, of e xs f ys]
  by blast+

text \<open>Encodings of a list of items that are prefix-free and non-empty determine the list.\<close>

lemma concat_map_inj:
  assumes "\<And>x y xs ys. x \<in> A \<Longrightarrow> y \<in> A \<Longrightarrow> e x @ xs = e y @ ys \<Longrightarrow> k x = k y \<and> xs = ys"
    and "length xs = length ys" "set xs \<subseteq> A" "set ys \<subseteq> A"
    and "concat (map e xs) @ as = concat (map e ys) @ bs"
  shows "map k xs = map k ys \<and> as = bs"
  using assms(2-5)
proof (induction xs ys rule: list_induct2)
  case (Cons x xs y ys)
  then have "e x @ (concat (map e xs) @ as) = e y @ (concat (map e ys) @ bs)" by simp
  then have e: "k x = k y \<and> concat (map e xs) @ as = concat (map e ys) @ bs"
    by (rule assms(1) [rotated 2]) (use Cons.prems in simp_all)
  have "map k xs = map k ys \<and> as = bs"
    by (rule Cons.IH) (use Cons.prems e in simp_all)
  with e show ?case by simp
qed simp

section \<open>Properties\<close>

lemma length_enc_VarU64: "length (enc_VarU64 v) \<le> 10"
proof -
  have "read_VarU64 (ByteReader_new (enc_VarU64 v)) = (Some v, advance (length (enc_VarU64 v)) (ByteReader_new (enc_VarU64 v)))"
    using var.get_enc [of "ByteReader_new (enc_VarU64 v)" v "[]"] by simp
  moreover have "br_position r' \<le> br_position r + n" if "read_VarU64_loop n i shift v r = (x, r')" for n i shift v r x r'
    using that
    by (induction n i shift v r arbitrary: x r' rule: read_VarU64_loop.induct)
      (force simp: read_U8_def Need_def Let_def split: if_splits option.splits prod.splits)+
  ultimately show ?thesis
    by (force simp: read_VarU64_def kVarU64MaxBytes_def ByteReader_new_def advance_def)
qed

text \<open>
  C39. \<open>ByteReader::VarU64\<close> accepts exactly the bytes \<open>ByteWriter::VarU64\<close> writes: a value is
  returned if and only if the input starts with the encoding the writer produces for that value,
  and then exactly that encoding is consumed.  Over-long and overflowing encodings are therefore
  rejected, and every value has one accepted encoding.
\<close>

theorem VarU64_canonical:
  "read_VarU64 (ByteReader_new bs) = (Some v, r) \<longleftrightarrow>
     (\<exists>rest. bs = bw_data (write_VarU64 v (ByteWriter_new kVarU64MaxBytes)) @ rest \<and>
        r = advance (length bs - length rest) (ByteReader_new bs))"
proof -
  have w: "bw_data (write_VarU64 v (ByteWriter_new kVarU64MaxBytes)) = enc_VarU64 v"
    using emits_new(2) [OF emits_write_VarU64] length_enc_VarU64 by (simp add: kVarU64MaxBytes_def)
  show ?thesis unfolding w
  proof
    assume "read_VarU64 (ByteReader_new bs) = (Some v, r)"
    from var.get_sound [OF ready_new this]
    show "\<exists>rest. bs = enc_VarU64 v @ rest \<and> r = advance (length bs - length rest) (ByteReader_new bs)" by auto
  next
    assume "\<exists>rest. bs = enc_VarU64 v @ rest \<and> r = advance (length bs - length rest) (ByteReader_new bs)"
    then obtain rest where rest: "bs = enc_VarU64 v @ rest" "r = advance (length bs - length rest) (ByteReader_new bs)"
      by blast
    then have "ready (ByteReader_new bs) (enc_VarU64 v @ rest)" by simp
    from var.get_enc [OF TrueI this] rest show "read_VarU64 (ByteReader_new bs) = (Some v, r)" by simp
  qed
qed

text \<open>
  \<open>ByteReader::Text\<close> inverts \<open>ByteWriter::Text\<close>: under a ceiling that is large enough the
  writer does not overflow, and reading what it wrote, followed by anything, gives the text back
  and stops right behind it.
\<close>

theorem Text_roundtrip:
  assumes "length (enc_Text t) \<le> c" "length t < 2 ^ 64"
  shows "\<not> bw_overflowed (write_Text t (ByteWriter_new c)) \<and>
    read_Text (ByteReader_new (bw_data (write_Text t (ByteWriter_new c)) @ rest)) =
      (Some t, advance (length (enc_Text t)) (ByteReader_new (enc_Text t @ rest)))"
  using emits_new [OF str.put_emits [OF assms(2)], of c] assms(1)
    str.get_enc [OF assms(2), of "ByteReader_new (enc_Text t @ rest)" rest]
  by simp

theorem Text_roundtrip_witness:
  "read_Text (ByteReader_new (bw_data (write_Text ''ab'' (ByteWriter_new 16)) @ [7])) =
     (Some ''ab'', advance 3 (ByteReader_new [2, 0x61, 0x62, 7]))"
proof -
  have e: "enc_Text ''ab'' = [2, 0x61, 0x62]" by (simp add: enc_Text_def enc_VarU64.simps)
  show ?thesis using Text_roundtrip [of "''ab''" 16 "[7]"] by (simp add: e numeral_3_eq_3)
qed

text \<open>
  \<open>HexDecodeStrict\<close> accepts exactly the canonical lower-case text of the requested number of
  bytes, and returns those bytes.
\<close>

theorem HexDecodeStrict_exact:
  "HexDecodeStrict t n = Some bs \<longleftrightarrow> t = HexEncode bs \<and> length bs = n"
  by (rule HexDecodeStrict_iff)

end
