(* ===== verification/Sha256.thy ===== *)
theory Sha256
  imports Canonical
begin

unbundle bit_operations_syntax

text \<open>
  The incremental SHA-256 of \<open>sha256.hpp\<close> and \<open>sha256.cpp\<close>: the compression function on 32-bit
  words, the buffered \<open>Update\<close> and \<open>Finish\<close>, and \<open>Hash\<close>. The block buffer is the list of the
  bytes buffered (the bytes beyond \<open>buffered_\<close> are never read). The lemmas show that feeding a
  message in any pieces is feeding it whole, that the buffer invariant holds, and that \<open>Hash\<close> is
  the fold of the compression function over the padded message.
\<close>

type_synonym Sha256Digest = bytes

definition kSha256Bytes :: nat where "kSha256Bytes = 32"

definition kRoundConstants :: "u32 list" where
  "kRoundConstants =
    [1116352408, 1899447441, 3049323471, 3921009573, 961987163, 1508970993, 2453635748, 2870763221,
     3624381080, 310598401, 607225278, 1426881987, 1925078388, 2162078206, 2614888103, 3248222580,
     3835390401, 4022224774, 264347078, 604807628, 770255983, 1249150122, 1555081692, 1996064986,
     2554220882, 2821834349, 2952996808, 3210313671, 3336571891, 3584528711, 113926993, 338241895,
     666307205, 773529912, 1294757372, 1396182291, 1695183700, 1986661051, 2177026350, 2456956037,
     2730485921, 2820302411, 3259730800, 3345764771, 3516065817, 3600352804, 4094571909, 275423344,
     430227734, 506948616, 659060556, 883997877, 958139571, 1322822218, 1537002063, 1747873779,
     1955562222, 2024104815, 2227730452, 2361852424, 2428436474, 2756734187, 3204031479, 3329325298]"

definition kInitialState :: "u32 list" where
  "kInitialState =
    [1779033703, 3144134277, 1013904242, 2773480762, 1359893119, 2600822924, 528734635, 1541459225]"

definition RotateRight :: "u32 \<Rightarrow> nat \<Rightarrow> u32" where
  "RotateRight v bits = drop_bit bits v OR push_bit (32 - bits) v"

definition Sha256Digest_ToHex :: "Sha256Digest \<Rightarrow> string" where
  "Sha256Digest_ToHex d = HexEncode d"

definition Sha256Digest_FromHex :: "string \<Rightarrow> Sha256Digest option" where
  "Sha256Digest_FromHex t = HexDecodeStrict t kSha256Bytes"

definition IsZero :: "Sha256Digest \<Rightarrow> bool" where
  "IsZero d \<longleftrightarrow> list_all (\<lambda>b. b = 0) d"

section \<open>The compression function\<close>

definition schedule_word :: "bytes \<Rightarrow> nat \<Rightarrow> u32" where
  "schedule_word block i =
     push_bit 24 (ucast (block ! (i * 4))) OR push_bit 16 (ucast (block ! (i * 4 + 1))) OR
     push_bit 8 (ucast (block ! (i * 4 + 2))) OR ucast (block ! (i * 4 + 3))"

definition schedule_step :: "nat \<Rightarrow> u32 list \<Rightarrow> u32 list" where
  "schedule_step i sch =
     (let s0 = RotateRight (sch ! (i - 15)) 7 XOR RotateRight (sch ! (i - 15)) 18 XOR drop_bit 3 (sch ! (i - 15));
          s1 = RotateRight (sch ! (i - 2)) 17 XOR RotateRight (sch ! (i - 2)) 19 XOR drop_bit 10 (sch ! (i - 2))
      in sch @ [sch ! (i - 16) + s0 + sch ! (i - 7) + s1])"

definition message_schedule :: "bytes \<Rightarrow> u32 list" where
  "message_schedule block = fold schedule_step [16..<64] (map (schedule_word block) [0..<16])"

fun sha_round :: "u32 list \<Rightarrow> nat \<Rightarrow> u32 list \<Rightarrow> u32 list" where
  "sha_round sch i [a, b, c, d, e, f, g, h] =
     (let sigma1 = RotateRight e 6 XOR RotateRight e 11 XOR RotateRight e 25;
          choice = (e AND f) XOR ((NOT e) AND g);
          temp1 = h + sigma1 + choice + kRoundConstants ! i + sch ! i;
          sigma0 = RotateRight a 2 XOR RotateRight a 13 XOR RotateRight a 22;
          majority = (a AND b) XOR (a AND c) XOR (b AND c);
          temp2 = sigma0 + majority
      in [temp1 + temp2, a, b, c, d + temp1, e, f, g])"
| "sha_round sch i st = st"

definition Transform :: "bytes \<Rightarrow> u32 list \<Rightarrow> u32 list" where
  "Transform block state =
     map2 (+) state (fold (sha_round (message_schedule block)) [0..<64] state)"

section \<open>The incremental hasher\<close>

record Sha256_state =
  sha_state :: "u32 list"
  sha_buffer :: bytes
  sha_total :: u64

definition Sha256_new :: Sha256_state where
  "Sha256_new = \<lparr>sha_state = kInitialState, sha_buffer = [], sha_total = 0\<rparr>"

text \<open>The first loop of \<open>Update\<close>: fill a started buffer, and compress it when it is full.\<close>

definition fill_buffer :: "bytes \<Rightarrow> Sha256_state \<Rightarrow> Sha256_state \<times> bytes" where
  "fill_buffer data h =
     (if length (sha_buffer h) > 0 then
        let room = 64 - length (sha_buffer h);
            buf = sha_buffer h @ take room data
        in (if length buf = 64
            then h\<lparr>sha_state := Transform buf (sha_state h), sha_buffer := []\<rparr>
            else h\<lparr>sha_buffer := buf\<rparr>, drop room data)
      else (h, data))"

function whole_blocks :: "bytes \<Rightarrow> Sha256_state \<Rightarrow> Sha256_state \<times> bytes" where
  "whole_blocks data h =
     (if length data \<ge> 64
      then whole_blocks (drop 64 data) (h\<lparr>sha_state := Transform (take 64 data) (sha_state h)\<rparr>)
      else (h, data))"
  by pat_completeness auto
termination
  by (relation "measure (\<lambda>(data, h). length data)") auto

declare whole_blocks.simps [simp del]

definition Sha256_Update :: "bytes \<Rightarrow> Sha256_state \<Rightarrow> Sha256_state" where
  "Sha256_Update data h =
     (let h = h\<lparr>sha_total := sha_total h + of_nat (length data)\<rparr>;
          (h, data) = fill_buffer data h;
          (h, data) = whole_blocks data h
      in h\<lparr>sha_buffer := sha_buffer h @ data\<rparr>)"

text \<open>The padding loop of \<open>Finish\<close>; 64 iterations always reach \<open>buffered_ = 56\<close>.\<close>

fun pad_zeros :: "nat \<Rightarrow> Sha256_state \<Rightarrow> Sha256_state" where
  "pad_zeros 0 h = h"
| "pad_zeros (Suc fuel) h =
     (if length (sha_buffer h) \<noteq> 56 then pad_zeros fuel (Sha256_Update [0] h) else h)"

definition length_bytes :: "u64 \<Rightarrow> bytes" where
  "length_bytes bit_length = map (\<lambda>i. ucast (drop_bit (8 * (7 - i)) bit_length AND 0xFF)) [0..<8]"

definition digest_bytes :: "u32 list \<Rightarrow> bytes" where
  "digest_bytes state =
     concat (map (\<lambda>s. [ucast (drop_bit 24 s AND 0xFF), ucast (drop_bit 16 s AND 0xFF),
                       ucast (drop_bit 8 s AND 0xFF), ucast (s AND 0xFF)]) state)"

definition Sha256_Finish :: "Sha256_state \<Rightarrow> Sha256Digest" where
  "Sha256_Finish h =
     (let bit_length = sha_total h * 8;
          h = Sha256_Update [0x80] h;
          h = pad_zeros 64 h;
          h = Sha256_Update (length_bytes bit_length) h
      in digest_bytes (sha_state h))"

definition Sha256_Hash :: "bytes \<Rightarrow> Sha256Digest" where
  "Sha256_Hash data = Sha256_Finish (Sha256_Update data Sha256_new)"

section \<open>Correctness of the buffering\<close>

text \<open>The specification: split the whole byte stream into blocks, keep the incomplete rest.\<close>

function absorb :: "bytes \<Rightarrow> u32 list \<Rightarrow> u32 list \<times> bytes" where
  "absorb xs st = (if length xs \<ge> 64 then absorb (drop 64 xs) (Transform (take 64 xs) st) else (st, xs))"
  by pat_completeness auto
termination
  by (relation "measure (\<lambda>(xs, st). length xs)") auto

declare absorb.simps [simp del]

lemma absorb_short: "length xs < 64 \<Longrightarrow> absorb xs st = (st, xs)"
  by (simp add: absorb.simps)

lemma absorb_rest: "absorb xs st = (st', rest) \<Longrightarrow> length rest = length xs mod 64"
proof (induction xs st rule: absorb.induct)
  case (1 xs st)
  then show ?case
    by (cases "length xs \<ge> 64") (auto simp: absorb.simps [of xs] le_mod_geq)
qed

lemma absorb_append: "absorb (xs @ ys) st = (case absorb xs st of (st', rest) \<Rightarrow> absorb (rest @ ys) st')"
proof (induction xs st rule: absorb.induct)
  case (1 xs st)
  then show ?case
    by (cases "length xs \<ge> 64") (simp_all add: absorb.simps [of xs] absorb.simps [of "xs @ ys"])
qed

lemma whole_blocks_absorb:
  "whole_blocks data h = (let (st, rest) = absorb data (sha_state h) in (h\<lparr>sha_state := st\<rparr>, rest))"
proof (induction data h rule: whole_blocks.induct)
  case (1 data h)
  then show ?case
    by (cases "length data \<ge> 64") (simp_all add: whole_blocks.simps [of data] absorb.simps [of data] Let_def)
qed

definition sha_ok :: "Sha256_state \<Rightarrow> bool" where
  "sha_ok h \<longleftrightarrow> length (sha_buffer h) < 64"

lemma Update_absorb:
  assumes "sha_ok h"
  shows "Sha256_Update data h =
    (let (st, rest) = absorb (sha_buffer h @ data) (sha_state h)
     in \<lparr>sha_state = st, sha_buffer = rest, sha_total = sha_total h + of_nat (length data)\<rparr>)"
proof (cases "sha_buffer h = []")
  case True
  then show ?thesis
    by (cases h) (simp add: Sha256_Update_def fill_buffer_def whole_blocks_absorb Let_def split: prod.splits)
next
  case False
  define room where "room = 64 - length (sha_buffer h)"
  have len: "length (sha_buffer h) < 64" "0 < length (sha_buffer h)" using assms False by (auto simp: sha_ok_def)
  show ?thesis
  proof (cases "length data < room")
    case True
    then have s: "length (sha_buffer h @ data) < 64" using len by (simp add: room_def)
    show ?thesis using True False s len
      by (cases h) (simp add: Sha256_Update_def fill_buffer_def whole_blocks_absorb absorb_short Let_def room_def)
  next
    case False2: False
    then have b: "length (sha_buffer h @ take room data) = 64" using len by (simp add: room_def)
    have "take 64 (sha_buffer h @ data) = sha_buffer h @ take room data"
      "drop 64 (sha_buffer h @ data) = drop room data" "length (sha_buffer h @ data) \<ge> 64"
      using len False2 by (simp_all add: room_def)
    then have a: "absorb (sha_buffer h @ data) (sha_state h) =
        absorb (drop room data) (Transform (sha_buffer h @ take room data) (sha_state h))"
      by (simp only: absorb.simps [of "sha_buffer h @ data"] if_True)
    show ?thesis using a False b
      by (cases h) (simp add: Sha256_Update_def fill_buffer_def whole_blocks_absorb Let_def room_def
          split: prod.splits)
  qed
qed

lemma sha_ok_new: "sha_ok Sha256_new"
  by (simp add: sha_ok_def Sha256_new_def)

lemma sha_ok_Update: "sha_ok h \<Longrightarrow> sha_ok (Sha256_Update data h)"
  by (auto simp: Update_absorb sha_ok_def Let_def split: prod.splits dest!: absorb_rest)

lemma Update_Update:
  assumes "sha_ok h"
  shows "Sha256_Update b (Sha256_Update a h) = Sha256_Update (a @ b) h"
  using sha_ok_Update [OF assms, of a]
  by (auto simp: Update_absorb assms absorb_append [of "sha_buffer h @ a" b, simplified] Let_def add.assoc
      split: prod.splits)

lemma buffer_Update: "sha_ok h \<Longrightarrow> length (sha_buffer (Sha256_Update data h)) = (length (sha_buffer h) + length data) mod 64"
  by (auto simp: Update_absorb Let_def split: prod.splits dest!: absorb_rest)

text \<open>The number of zero bytes the padding loop writes.\<close>

definition zeros_needed :: "nat \<Rightarrow> nat" where
  "zeros_needed buffered = (120 - buffered) mod 64"

lemma zeros_needed_eq: "n < 64 \<Longrightarrow> zeros_needed n = (if n \<le> 56 then 56 - n else 120 - n)"
  by (simp add: zeros_needed_def mod_if)

lemma zeros_needed_mod: "n < 64 \<Longrightarrow> (n + zeros_needed n) mod 64 = 56"
  by (cases "n \<le> 56") (simp_all add: zeros_needed_eq)

lemma pad_zeros_eq:
  "sha_ok h \<Longrightarrow> zeros_needed (length (sha_buffer h)) < fuel \<Longrightarrow>
   pad_zeros fuel h = Sha256_Update (replicate (zeros_needed (length (sha_buffer h))) 0) h"
proof (induction fuel arbitrary: h)
  case 0
  then show ?case by simp
next
  case (Suc fuel)
  let ?n = "length (sha_buffer h)"
  have n: "?n < 64" using Suc.prems(1) by (simp add: sha_ok_def)
  show ?case
  proof (cases "?n = 56")
    case True
    then have "absorb (sha_buffer h) (sha_state h) = (sha_state h, sha_buffer h)" by (simp add: absorb_short)
    then show ?thesis using True Suc.prems(1) by (cases h) (simp add: zeros_needed_def Update_absorb)
  next
    case False
    have z: "zeros_needed ?n = Suc (zeros_needed ((?n + 1) mod 64))"
      using False n by (cases "?n = 63") (simp_all add: zeros_needed_eq, arith)
    have ok: "sha_ok (Sha256_Update [0] h)" by (rule sha_ok_Update [OF Suc.prems(1)])
    have buf: "length (sha_buffer (Sha256_Update [0] h)) = (?n + 1) mod 64"
      using buffer_Update [OF Suc.prems(1), of "[0]"] by simp
    have "pad_zeros fuel (Sha256_Update [0] h) =
        Sha256_Update (replicate (zeros_needed ((?n + 1) mod 64)) 0) (Sha256_Update [0] h)"
      using Suc.IH [OF ok] Suc.prems(2) z buf by simp
    also have "\<dots> = Sha256_Update (replicate (zeros_needed ?n) 0) h"
      using Update_Update [OF Suc.prems(1)] z by simp
    finally show ?thesis using False by simp
  qed
qed

text \<open>The padded message of the standard: a one bit, zeros up to 56 modulo 64, the length in bits.\<close>

definition sha_pad :: "bytes \<Rightarrow> bytes" where
  "sha_pad data = data @ [0x80] @ replicate (zeros_needed ((length data + 1) mod 64)) 0 @
     length_bytes (of_nat (length data) * 8)"

lemma zeros_needed_less [simp]: "zeros_needed n < 64"
  by (simp add: zeros_needed_def)

lemma length_length_bytes [simp]: "length (length_bytes n) = 8"
  by (simp add: length_bytes_def)

lemma pad_to_block:
  assumes "(a mod 64 + z) mod 64 = (56::nat)"
  shows "64 dvd a + z + 8"
proof -
  have "(a + z) mod 64 = 56" using assms by (simp add: mod_add_left_eq)
  then have "a + z = 64 * ((a + z) div 64) + 56" using mult_div_mod_eq [of 64 "a + z"] by simp
  then have "a + z + 8 = 64 * ((a + z) div 64 + 1)" by simp
  then show ?thesis by (rule dvdI)
qed

lemma length_sha_pad: "64 dvd length (sha_pad data)"
  using pad_to_block [OF zeros_needed_mod, of "length data + 1"] by (simp add: sha_pad_def add.left_commute)

lemma Sha256_Hash_spec: "Sha256_Hash data = digest_bytes (fst (absorb (sha_pad data) kInitialState))"
proof -
  let ?h = "Sha256_Update data Sha256_new"
  have ok: "sha_ok ?h" by (rule sha_ok_Update [OF sha_ok_new])
  have ok1: "sha_ok (Sha256_Update [0x80] ?h)" by (rule sha_ok_Update [OF ok])
  have buf: "length (sha_buffer (Sha256_Update (data @ [0x80]) Sha256_new)) = Suc (length data) mod 64"
    using buffer_Update [OF sha_ok_new, of "data @ [0x80]"] by (simp add: Sha256_new_def)
  have tot: "sha_total ?h = of_nat (length data)"
    using sha_ok_new by (simp add: Update_absorb Let_def split: prod.splits) (simp add: Sha256_new_def)
  have "Sha256_Hash data = digest_bytes (sha_state (Sha256_Update (sha_pad data) Sha256_new))"
    by (simp add: Sha256_Hash_def Sha256_Finish_def pad_zeros_eq ok1 buf tot sha_pad_def Let_def
        Update_Update sha_ok_new sha_ok_Update)
  then show ?thesis
    by (simp add: Update_absorb sha_ok_new) (simp add: Sha256_new_def Let_def split: prod.splits)
qed

lemma length_Transform: "length st = 8 \<Longrightarrow> length (Transform block st) = 8"
proof -
  assume st: "length st = 8"
  have "length (fold (sha_round sch) is st) = 8" for sch "is"
    using st
  proof (induction "is" arbitrary: st)
    case (Cons i "is")
    have "length (sha_round sch i st) = length st"
      by (induction sch i st rule: sha_round.induct) (simp_all add: Let_def)
    with Cons show ?case by simp
  qed simp
  with st show ?thesis by (simp add: Transform_def)
qed

lemma length_absorb: "length st = 8 \<Longrightarrow> length (fst (absorb xs st)) = 8"
proof (induction xs st rule: absorb.induct)
  case (1 xs st)
  then show ?case
    by (cases "length xs \<ge> 64") (simp_all add: absorb.simps [of xs] length_Transform)
qed

lemma length_digest_bytes: "length (digest_bytes st) = 4 * length st"
  by (induction st) (simp_all add: digest_bytes_def)

lemma length_Sha256_Hash [simp]: "length (Sha256_Hash data) = 32"
proof -
  have "length kInitialState = 8" by (simp add: kInitialState_def)
  then show ?thesis by (simp add: Sha256_Hash_spec length_digest_bytes length_absorb)
qed


section \<open>Properties\<close>

lemma fold_Update: "sha_ok h \<Longrightarrow> fold Sha256_Update chunks h = Sha256_Update (concat chunks) h"
proof (induction chunks arbitrary: h)
  case Nil
  then have "absorb (sha_buffer h) (sha_state h) = (sha_state h, sha_buffer h)" by (simp add: absorb_short sha_ok_def)
  then show ?case using Nil by (cases h) (simp add: Update_absorb)
next
  case (Cons c cs)
  then show ?case by (simp add: sha_ok_Update Update_Update)
qed

text \<open>
  C40. The incremental hasher: whatever the pieces a message is fed in, \<open>Finish\<close> returns the
  compression of the padded message in whole 64-byte blocks.  The buffered \<open>Update\<close> with its three
  loops and the byte-wise padding of \<open>Finish\<close> are thereby equivalent to the one-shot definition.
\<close>

theorem Sha256_incremental:
  "Sha256_Finish (fold Sha256_Update chunks Sha256_new) =
     digest_bytes (fst (absorb (sha_pad (concat chunks)) kInitialState))"
  using Sha256_Hash_spec [of "concat chunks"] by (simp add: fold_Update sha_ok_new Sha256_Hash_def)

end
