(* ===== verification/Ids.thy ===== *)
theory Ids
  imports Canonical Sha256
begin

text \<open>
  Identifiers and scalar quantities (\<open>include/pathplanner/ids.hpp\<close>).

  \<open>FixedId<Tag, N>\<close> is the datatype \<open>'tag FixedId\<close> over its bytes: the phantom type argument
  keeps the identity domains apart as the C++ tag does, and the byte count \<open>N\<close> is the invariant
  \<open>id_ok N\<close>.  Its order is the byte-wise order of \<open>operator<=>\<close>, as an instance of \<open>linorder\<close>.
  \<open>StrongUInt<Tag, T, Max>\<close> is the machine word \<open>T\<close>; its maximum is an argument of the checked
  operations, of the decimal parser and of the decimal printer's round trip.
\<close>

section \<open>Fixed-width identifiers\<close>

datatype 'tag FixedId = FixedId (id_bytes: bytes)

fun bytes_le :: "bytes \<Rightarrow> bytes \<Rightarrow> bool" where
  "bytes_le [] ys = True"
| "bytes_le (x # xs) [] = False"
| "bytes_le (x # xs) (y # ys) = (if x < y then True else if y < x then False else bytes_le xs ys)"

definition FixedId_FromDigest :: "nat \<Rightarrow> Sha256Digest \<Rightarrow> 'tag FixedId" where
  "FixedId_FromDigest n digest = FixedId (take n digest)"

definition FixedId_IsValid :: "'tag FixedId \<Rightarrow> bool" where
  "FixedId_IsValid x = list_ex (\<lambda>b. b \<noteq> 0) (id_bytes x)"

definition FixedId_ToString :: "'tag FixedId \<Rightarrow> string" where
  "FixedId_ToString x = HexEncode (id_bytes x)"

definition FixedId_Parse :: "nat \<Rightarrow> string \<Rightarrow> 'tag FixedId option" where
  "FixedId_Parse n t =
     (if length t \<noteq> n * 2 then None
      else case HexDecodeStrict t n of
             None \<Rightarrow> None
           | Some bs \<Rightarrow> if FixedId_IsValid (FixedId bs :: 'tag FixedId) then Some (FixedId bs) else None)"

definition id_ok :: "nat \<Rightarrow> 'tag FixedId \<Rightarrow> bool" where
  "id_ok n x \<longleftrightarrow> length (id_bytes x) = n"

lemma bytes_le_refl [simp]: "bytes_le xs xs"
  by (induction xs) auto

lemma bytes_le_trans: "bytes_le xs ys \<Longrightarrow> bytes_le ys zs \<Longrightarrow> bytes_le xs zs"
proof (induction xs ys arbitrary: zs rule: bytes_le.induct)
  case (3 x xs y ys)
  then show ?case by (cases zs) (auto split: if_splits)
qed simp_all

lemma bytes_le_antisym: "bytes_le xs ys \<Longrightarrow> bytes_le ys xs \<Longrightarrow> xs = ys"
proof (induction xs ys rule: bytes_le.induct)
  case (1 ys)
  then show ?case by (cases ys) auto
next
  case (3 x xs y ys)
  then show ?case by (cases x y rule: linorder_cases) (auto split: if_splits dest: order.asym)
qed simp

lemma bytes_le_total: "bytes_le xs ys \<or> bytes_le ys xs"
  by (induction xs ys rule: bytes_le.induct) auto

instantiation FixedId :: (type) linorder
begin

definition less_eq_FixedId :: "'a FixedId \<Rightarrow> 'a FixedId \<Rightarrow> bool" where
  "x \<le> y \<longleftrightarrow> bytes_le (id_bytes x) (id_bytes y)"

definition less_FixedId :: "'a FixedId \<Rightarrow> 'a FixedId \<Rightarrow> bool" where
  "x < y \<longleftrightarrow> x \<le> y \<and> x \<noteq> (y :: 'a FixedId)"

instance
proof
  fix x y z :: "'a FixedId"
  show "x < y \<longleftrightarrow> x \<le> y \<and> \<not> y \<le> x"
    using bytes_le_antisym by (auto simp: less_FixedId_def less_eq_FixedId_def intro: FixedId.expand)
  show "x \<le> x" by (simp add: less_eq_FixedId_def)
  show "x \<le> z" if "x \<le> y" "y \<le> z" using that bytes_le_trans by (auto simp: less_eq_FixedId_def)
  show "x = y" if "x \<le> y" "y \<le> x"
    using that bytes_le_antisym by (auto simp: less_eq_FixedId_def intro: FixedId.expand)
  show "x \<le> y \<or> y \<le> x" using bytes_le_total by (auto simp: less_eq_FixedId_def)
qed

end

lemma FixedId_Parse_iff:
  "FixedId_Parse n t = Some x \<longleftrightarrow> id_ok n x \<and> FixedId_IsValid x \<and> t = FixedId_ToString x"
proof -
  have "HexDecodeStrict t n = Some (id_bytes x) \<longleftrightarrow> t = FixedId_ToString x \<and> id_ok n x"
    by (simp add: HexDecodeStrict_iff FixedId_ToString_def id_ok_def)
  moreover have "FixedId_Parse n t = Some x \<longleftrightarrow> HexDecodeStrict t n = Some (id_bytes x) \<and> FixedId_IsValid x"
    by (cases x) (auto simp: FixedId_Parse_def HexDecodeStrict_def split: option.splits)
  ultimately show ?thesis by blast
qed

lemma FixedId_ToString_inj: "FixedId_ToString x = FixedId_ToString y \<longleftrightarrow> x = y"
  by (metis FixedId.expand FixedId_ToString_def HexEncode_inj)

lemma id_ok_FromDigest: "n \<le> length d \<Longrightarrow> id_ok n (FixedId_FromDigest n d)"
  by (simp add: id_ok_def FixedId_FromDigest_def)

section \<open>Identity domains\<close>

datatype NodeIdTag = NodeIdTag
datatype LinkIdTag = LinkIdTag
datatype PortIdTag = PortIdTag
datatype EndpointIdTag = EndpointIdTag
datatype SwitchIdTag = SwitchIdTag
datatype FailureDomainIdTag = FailureDomainIdTag
datatype FailureDomainClassTag = FailureDomainClassTag
datatype CapabilityIdTag = CapabilityIdTag
datatype CandidatePathIdTag = CandidatePathIdTag
datatype PathPlanIdTag = PathPlanIdTag
datatype PlanningRequestIdTag = PlanningRequestIdTag
datatype ConstraintSetIdTag = ConstraintSetIdTag
datatype SnapshotIdTag = SnapshotIdTag
datatype PublisherIdTag = PublisherIdTag
datatype WorkerBootIdTag = WorkerBootIdTag
datatype MutationAttemptIdTag = MutationAttemptIdTag

type_synonym NodeId = "NodeIdTag FixedId"
type_synonym LinkId = "LinkIdTag FixedId"
type_synonym PortId = "PortIdTag FixedId"
type_synonym EndpointId = "EndpointIdTag FixedId"
type_synonym SwitchId = "SwitchIdTag FixedId"
type_synonym FailureDomainId = "FailureDomainIdTag FixedId"
type_synonym FailureDomainClass = "FailureDomainClassTag FixedId"
type_synonym CapabilityId = "CapabilityIdTag FixedId"
type_synonym CandidatePathId = "CandidatePathIdTag FixedId"
type_synonym PathPlanId = "PathPlanIdTag FixedId"
type_synonym PlanningRequestId = "PlanningRequestIdTag FixedId"
type_synonym ConstraintSetId = "ConstraintSetIdTag FixedId"
type_synonym SnapshotId = "SnapshotIdTag FixedId"
type_synonym PublisherId = "PublisherIdTag FixedId"
type_synonym WorkerBootId = "WorkerBootIdTag FixedId"
type_synonym MutationAttemptId = "MutationAttemptIdTag FixedId"

section \<open>Bounded unsigned integers\<close>

definition kMaxHopCount :: u32 where "kMaxHopCount = 65535"
definition kMaxCandidateRank :: u32 where "kMaxCandidateRank = 4095"

type_synonym CostValue = u64
type_synonym StaticCost = u32
type_synonym Generation = u64

definition CostValue_Max :: CostValue where "CostValue_Max = 0xFFFFFFFFFFFFFFFF"

definition TryFrom :: "'a::len word \<Rightarrow> 'a word \<Rightarrow> 'a word option" where
  "TryFrom bound v = (if v > bound then None else Some v)"

fun StrongUInt_Parse_loop :: "'a::len word \<Rightarrow> 'a word \<Rightarrow> string \<Rightarrow> 'a word option" where
  "StrongUInt_Parse_loop bound v [] = Some v"
| "StrongUInt_Parse_loop bound v (c # cs) =
     (if of_char c < (48 :: nat) \<or> of_char c > (57 :: nat) then None
      else let digit = of_nat (of_char c - 48) in
           if v > (bound - digit) div 10 then None
           else StrongUInt_Parse_loop bound (v * 10 + digit) cs)"

definition StrongUInt_Parse :: "'a::len word \<Rightarrow> string \<Rightarrow> 'a word option" where
  "StrongUInt_Parse bound t =
     (if t = [] \<or> length t > 20 then None
      else if length t > 1 \<and> t ! 0 = CHR ''0'' then None
      else StrongUInt_Parse_loop bound 0 t)"

text \<open>The digits of \<open>ToString\<close> are pushed least significant first and then reversed in place.\<close>

function decimal_digits :: "nat \<Rightarrow> string" where
  "decimal_digits remaining =
     (if remaining > 0 then char_of (48 + remaining mod 10) # decimal_digits (remaining div 10) else [])"
  by pat_completeness auto
termination
  by (relation "measure id") auto

declare decimal_digits.simps [simp del]

definition StrongUInt_ToString :: "'a::len word \<Rightarrow> string" where
  "StrongUInt_ToString v = (if v = 0 then ''0'' else rev (decimal_digits (unat v)))"

definition CheckedAdd :: "'a::len word \<Rightarrow> 'a word \<Rightarrow> 'a word \<Rightarrow> 'a word option" where
  "CheckedAdd bound a b = (if a > bound - b then None else TryFrom bound (a + b))"

definition CheckedMul :: "'a::len word \<Rightarrow> 'a word \<Rightarrow> 'a word \<Rightarrow> 'a word option" where
  "CheckedMul bound a factor =
     (if factor \<noteq> 0 \<and> a > bound div factor then None else TryFrom bound (a * factor))"

definition ToU32 :: "u64 \<Rightarrow> u32 option" where
  "ToU32 v = (if v > 0xFFFFFFFF then None else Some (ucast v))"

subsection \<open>Checked arithmetic is exact\<close>

lemma CheckedAdd_eq:
  assumes "b \<le> bound"
  shows "CheckedAdd bound a b =
    (if unat a + unat b \<le> unat bound then Some (a + b) else None)"
proof -
  have s: "unat (bound - b) = unat bound - unat b" using assms by (simp add: unat_sub)
  have lb: "unat b \<le> unat bound" using assms by (simp add: word_le_nat_alt)
  have eq: "a > bound - b \<longleftrightarrow> \<not> unat a + unat b \<le> unat bound"
    unfolding word_less_nat_alt s using lb by linarith
  have "unat (a + b) = unat a + unat b" if "unat a + unat b \<le> unat bound"
    using that unsigned_less [of bound, where 'a = nat] by (subst unat_add_lem [symmetric]) linarith
  then show ?thesis
    using eq by (auto simp: CheckedAdd_def TryFrom_def word_less_nat_alt)
qed

lemma CheckedMul_eq:
  "CheckedMul bound a f = (if unat a * unat f \<le> unat bound then Some (a * f) else None)"
proof (cases "f = 0")
  case True
  then show ?thesis by (simp add: CheckedMul_def TryFrom_def)
next
  case False
  then have f: "0 < unat f" by (simp add: unat_gt_0)
  have eq: "a > bound div f \<longleftrightarrow> \<not> unat a * unat f \<le> unat bound"
    using div_less_iff_less_mult [OF f, of "unat bound" "unat a"] by (simp add: word_less_nat_alt unat_div not_le)
  have "unat (a * f) = unat a * unat f" if "unat a * unat f \<le> unat bound"
    using that unsigned_less [of bound, where 'a = nat] by (subst unat_mult_lem [symmetric]) linarith
  then show ?thesis
    using eq False by (auto simp: CheckedMul_def TryFrom_def word_less_nat_alt)
qed

abbreviation CostAdd :: "CostValue \<Rightarrow> CostValue \<Rightarrow> CostValue option" where
  "CostAdd a b \<equiv> CheckedAdd CostValue_Max a b"

lemma unat_CostValue_Max: "unat CostValue_Max = 2 ^ 64 - 1"
  by (simp add: CostValue_Max_def)

lemma CostValue_le_Max [simp]: "c \<le> CostValue_Max"
  using unsigned_less [of c, where 'a = nat] by (simp add: word_le_nat_alt unat_CostValue_Max)

lemma CostAdd_SomeD: "CostAdd a b = Some c \<Longrightarrow> unat c = unat a + unat b"
  using unsigned_less [of CostValue_Max, where 'a = nat]
  by (auto simp: CheckedAdd_eq unat_CostValue_Max split: if_splits) (simp add: unat_word_ariths)

lemma CostAdd_eq_None: "CostAdd a b = None \<longleftrightarrow> 2 ^ 64 \<le> unat a + unat b"
  by (auto simp: CheckedAdd_eq unat_CostValue_Max)

subsection \<open>Decimal text\<close>

lemma decimal_step: "10 * n + d > 0 \<Longrightarrow> d < 10 \<Longrightarrow> decimal_digits (10 * n + d) = char_of (48 + d) # decimal_digits n"
  by (subst decimal_digits.simps) simp

lemma length_decimal_digits: "n < 10 ^ k \<Longrightarrow> length (decimal_digits n) \<le> k"
proof (induction k arbitrary: n)
  case 0
  then show ?case by (simp add: decimal_digits.simps [of 0])
next
  case (Suc k)
  then have "n div 10 < 10 ^ k" by (simp add: less_mult_imp_div_less mult.commute)
  from Suc.IH [OF this] show ?case by (simp add: decimal_digits.simps [of n])
qed

lemma Parse_loop_append:
  "StrongUInt_Parse_loop bound v (xs @ ys) =
     Option.bind (StrongUInt_Parse_loop bound v xs) (\<lambda>w. StrongUInt_Parse_loop bound w ys)"
  by (induction bound v xs rule: StrongUInt_Parse_loop.induct) (simp_all add: Let_def)

text \<open>One digit: the guard against exceeding the bound is exact.\<close>

lemma unat_of_nat_less: "n < 2 ^ LENGTH('a) \<Longrightarrow> unat (of_nat n :: 'a::len word) = n"
  by (simp add: unat_of_nat)

lemma Parse_loop_digit:
  fixes bound v :: "'a::len word"
  assumes "10 \<le> unat bound" "d < 10"
  shows "StrongUInt_Parse_loop bound v (char_of (48 + d) # cs) =
    (if 10 * unat v + d \<le> unat bound then StrongUInt_Parse_loop bound (of_nat (10 * unat v + d)) cs else None)"
proof -
  have b: "unat bound < 2 ^ LENGTH('a)" by (rule unsigned_less)
  have small: "10 < (2 :: nat) ^ LENGTH('a)" using assms(1) b by linarith
  have d: "unat (of_nat d :: 'a word) = d" using assms(2) small by (intro unat_of_nat_less) linarith
  have ten: "unat (10 :: 'a word) = 10" using unat_of_nat_less [OF small] by simp
  have "unat (bound - of_nat d) = unat bound - d"
    using d assms by (subst unat_sub) (simp_all add: word_le_nat_alt)
  then have g: "v > (bound - of_nat d) div 10 \<longleftrightarrow> \<not> 10 * unat v + d \<le> unat bound"
    unfolding word_less_nat_alt unat_div ten using assms by (simp add: div_less_iff_less_mult) linarith
  show ?thesis using g assms(2) by (simp add: of_char_of Let_def mult.commute)
qed

lemma Parse_loop_digits:
  fixes bound :: "'a::len word"
  assumes "10 \<le> unat bound" "n \<le> unat bound"
  shows "StrongUInt_Parse_loop bound 0 (rev (decimal_digits n)) = Some (of_nat n)"
  using assms(2)
proof (induction n rule: decimal_digits.induct)
  case (1 n)
  show ?case
  proof (cases "n > 0")
    case True
    have "StrongUInt_Parse_loop bound 0 (rev (decimal_digits (n div 10))) = Some (of_nat (n div 10))"
      using 1 True by simp
    moreover have "unat (of_nat (n div 10) :: 'a word) = n div 10"
      using "1.prems" unsigned_less [of bound, where 'a = nat] by (intro unat_of_nat_less) linarith
    ultimately show ?thesis
      using True "1.prems"
      by (simp del: StrongUInt_Parse_loop.simps(2)
          add: decimal_digits.simps [of n] Parse_loop_append Parse_loop_digit assms(1))
  qed (simp add: decimal_digits.simps)
qed

lemma digit_char:
  assumes "\<not> (of_char c < (48 :: nat) \<or> of_char c > (57 :: nat))"
  obtains d :: nat where "d < 10" "c = char_of (48 + d)"
proof
  show "of_char c - 48 < (10 :: nat)" using assms by linarith
  have "48 + (of_char c - 48) = (of_char c :: nat)" using assms by linarith
  then show "c = char_of (48 + (of_char c - 48 :: nat))" by simp
qed

lemma Parse_loop_sound:
  fixes bound :: "'a::len word"
  assumes "10 \<le> unat bound" "StrongUInt_Parse_loop bound v t = Some w"
    and "unat v > 0 \<or> (t \<noteq> [] \<and> hd t \<noteq> CHR ''0'')"
  shows "unat w > 0 \<and> rev (decimal_digits (unat w)) = rev (decimal_digits (unat v)) @ t"
  using assms(2,3)
proof (induction t arbitrary: v)
  case (Cons c cs)
  then have "\<not> (of_char c < (48 :: nat) \<or> of_char c > (57 :: nat))" by (auto split: if_splits)
  then obtain d :: nat where d: "d < 10" "c = char_of (48 + d)" by (rule digit_char)
  let ?n = "10 * unat v + d"
  have n: "?n \<le> unat bound" "StrongUInt_Parse_loop bound (of_nat ?n) cs = Some w"
    using Cons.prems(1) Parse_loop_digit [OF assms(1) d(1), of v cs] d(2) by (simp_all split: if_splits)
  have "(char_of (48 :: nat) :: char) = CHR ''0''" by (simp add: char_of_def bit_0)
  then have "d > 0 \<or> unat v > 0" using Cons.prems(2) d by (cases "d = 0") auto
  then have pos: "?n > 0" by auto
  have u: "unat (of_nat ?n :: 'a word) = ?n"
    using n(1) unsigned_less [of bound, where 'a = nat] by (intro unat_of_nat_less) linarith
  show ?case using Cons.IH [OF n(2)] u pos decimal_step [OF pos d(1)] d(2) by simp
qed simp

lemma Parse_loop_bound:
  fixes bound :: "'a::len word"
  assumes "10 \<le> unat bound" "StrongUInt_Parse_loop bound v t = Some w" "unat v \<le> unat bound"
  shows "unat w \<le> unat bound"
  using assms(2,3)
proof (induction t arbitrary: v)
  case (Cons c cs)
  then have "\<not> (of_char c < (48 :: nat) \<or> of_char c > (57 :: nat))" by (auto split: if_splits)
  then obtain d :: nat where d: "d < 10" "c = char_of (48 + d)" by (rule digit_char)
  let ?n = "10 * unat v + d"
  have n: "?n \<le> unat bound" "StrongUInt_Parse_loop bound (of_nat ?n) cs = Some w"
    using Cons.prems(1) Parse_loop_digit [OF assms(1) d(1), of v cs] d(2) by (simp_all split: if_splits)
  have "unat (of_nat ?n :: 'a word) = ?n"
    using n(1) unsigned_less [of bound, where 'a = nat] by (intro unat_of_nat_less) linarith
  then show ?case using Cons.IH [OF n(2)] n(1) by simp
qed simp

lemma decimal_digits_last: "n > 0 \<Longrightarrow> decimal_digits n \<noteq> [] \<and> last (decimal_digits n) \<noteq> CHR ''0''"
proof (induction n rule: decimal_digits.induct)
  case (1 n)
  show ?case
  proof (cases "n div 10 > 0")
    case True
    with 1 show ?thesis by (simp add: decimal_digits.simps [of n])
  next
    case False
    then have "n < 10" by simp
    moreover have "char_of (48 + n) \<noteq> CHR ''0''"
    proof
      assume "char_of (48 + n) = CHR ''0''"
      then have "(of_char (char_of (48 + n)) :: nat) = 48" by simp
      then show False using \<open>n < 10\<close> "1.prems" by (simp add: of_char_of)
    qed
    ultimately show ?thesis using "1.prems" by (simp add: decimal_digits.simps)
  qed
qed

section \<open>Properties\<close>

text \<open>
  The decimal form of every bounded integer type is canonical: \<open>Parse\<close> accepts a text exactly
  when it is what \<open>ToString\<close> prints for a value within the bound, and returns that value; signs,
  blanks, leading zeros, values above the bound and wrapped values are rejected.
\<close>

theorem StrongUInt_Parse_exact:
  fixes bound v :: "'a::len word"
  assumes "10 \<le> unat bound" "LENGTH('a) \<le> 64"
  shows "StrongUInt_Parse bound t = Some v \<longleftrightarrow> v \<le> bound \<and> t = StrongUInt_ToString v"
proof
  assume p: "StrongUInt_Parse bound t = Some v"
  then have loop: "StrongUInt_Parse_loop bound 0 t = Some v" "t \<noteq> []" "length t > 1 \<longrightarrow> hd t \<noteq> CHR ''0''"
    by (auto simp: StrongUInt_Parse_def hd_conv_nth split: if_splits)
  have "v \<le> bound" using Parse_loop_bound [OF assms(1) loop(1)] by (simp add: word_le_nat_alt)
  moreover have "t = StrongUInt_ToString v"
  proof (cases "hd t = CHR ''0''")
    case True
    then have "t = ''0''" using loop(2,3) by (cases t) auto
    moreover from this have "v = 0"
      using loop(1) Parse_loop_digit [OF assms(1), of 0 0 "[]"] by (simp add: char_of_def)
    ultimately show ?thesis by (simp add: StrongUInt_ToString_def)
  next
    case False
    with Parse_loop_sound [OF assms(1) loop(1)] loop(2) show ?thesis
      by (auto simp: StrongUInt_ToString_def decimal_digits.simps [of 0])
  qed
  ultimately show "v \<le> bound \<and> t = StrongUInt_ToString v" by blast
next
  assume v: "v \<le> bound \<and> t = StrongUInt_ToString v"
  show "StrongUInt_Parse bound t = Some v"
  proof (cases "v = 0")
    case True
    then show ?thesis using v Parse_loop_digit [OF assms(1), of 0 0 "[]"]
      by (simp add: StrongUInt_ToString_def StrongUInt_Parse_def char_of_def)
  next
    case False
    have "unat v < 2 ^ LENGTH('a)" by (rule unsigned_less)
    also have "\<dots> \<le> 2 ^ 64" by (rule power_increasing) (use assms(2) in simp_all)
    also have "\<dots> < (10 :: nat) ^ 20" by simp
    finally have len: "length (decimal_digits (unat v)) \<le> 20" by (rule length_decimal_digits)
    have t: "t = rev (decimal_digits (unat v))" using v False by (simp add: StrongUInt_ToString_def)
    have ne: "decimal_digits (unat v) \<noteq> []" "last (decimal_digits (unat v)) \<noteq> CHR ''0''"
      using decimal_digits_last [of "unat v"] False by (simp_all add: unat_gt_0)
    have "StrongUInt_Parse_loop bound 0 t = Some v"
      using Parse_loop_digits [OF assms(1), of "unat v"] v t by (simp add: word_le_nat_alt)
    moreover have "t ! 0 = last (decimal_digits (unat v))" using ne(1) t by (simp add: hd_rev flip: hd_conv_nth)
    ultimately show ?thesis using t ne len by (simp add: StrongUInt_Parse_def)
  qed
qed

theorem StrongUInt_Parse_exact_witness:
  "StrongUInt_Parse kMaxHopCount (StrongUInt_ToString (512 :: u32)) = Some 512"
  using StrongUInt_Parse_exact [of kMaxHopCount "StrongUInt_ToString (512 :: u32)" 512]
  by (simp add: kMaxHopCount_def)

text \<open>
  Checked addition and multiplication never wrap: the result is the exact sum or product when
  it does not exceed the bound of the type, and absent otherwise.
\<close>

theorem Checked_arithmetic_exact:
  fixes a b f bound :: "'a::len word"
  assumes "b \<le> bound"
  shows "(CheckedAdd bound a b = Some s \<longleftrightarrow> unat s = unat a + unat b \<and> s \<le> bound) \<and>
    (CheckedMul bound a f = Some p \<longleftrightarrow> unat p = unat a * unat f \<and> p \<le> bound)"
proof -
  have b: "unat bound < 2 ^ LENGTH('a)" by (rule unsigned_less)
  have add: "unat (a + b) = unat a + unat b" if "unat a + unat b \<le> unat bound"
    using that b by (subst unat_add_lem [symmetric]) linarith
  have mul: "unat (a * f) = unat a * unat f" if "unat a * unat f \<le> unat bound"
    using that b by (subst unat_mult_lem [symmetric]) linarith
  have "CheckedAdd bound a b = Some s \<longleftrightarrow> unat s = unat a + unat b \<and> s \<le> bound"
    unfolding CheckedAdd_eq [OF assms] word_le_nat_alt using add by (auto simp: word_unat_eq_iff)
  moreover have "CheckedMul bound a f = Some p \<longleftrightarrow> unat p = unat a * unat f \<and> p \<le> bound"
    unfolding CheckedMul_eq word_le_nat_alt using mul by (auto simp: word_unat_eq_iff)
  ultimately show ?thesis by blast
qed

theorem Checked_arithmetic_exact_witness:
  "CheckedAdd kMaxHopCount 13107 5 = Some (13112 :: u32) \<and> CheckedMul kMaxHopCount 13107 5 = Some (65535 :: u32)"
  using Checked_arithmetic_exact [of 5 kMaxHopCount 13107 13112 5 65535]
  by (simp add: kMaxHopCount_def)

text \<open>
  Identifier text is canonical: \<open>FixedId::Parse\<close> accepts exactly the lower-case hexadecimal
  text of a non-nil identifier of the domain's width, and returns that identifier.
\<close>

theorem FixedId_Parse_exact:
  "FixedId_Parse n t = Some x \<longleftrightarrow> id_ok n x \<and> FixedId_IsValid x \<and> t = FixedId_ToString x"
  by (rule FixedId_Parse_iff)

end
