(* ===== verification/Limits.thy ===== *)
theory Limits
  imports Status Ids
begin

text \<open>
  Resource limits (\<open>include/pathplanner/limits.hpp\<close>, \<open>ValidateLimits\<close> of \<open>src/graph.cpp\<close>).
  The fields are unsigned 32- and 64-bit counts in the source; they are only compared with counts
  here, so the model keeps them as natural numbers.
\<close>

record ResourceLimits =
  max_nodes :: nat
  max_edges :: nat
  max_endpoints :: nat
  max_ports_per_node :: nat
  max_link_state_records :: nat
  max_port_state_records :: nat
  max_capability_bindings :: nat
  max_failure_domains :: nat
  max_members_per_failure_domain :: nat
  max_candidates_per_request :: nat
  lim_max_hops :: nat
  max_constraints_total :: nat
  max_forbidden_ids :: nat
  max_required_ids :: nat
  max_required_any_sets :: nat
  max_members_in_any_set :: nat
  max_transit_alternatives :: nat
  max_transit_combinations :: nat
  max_capability_requirements :: nat
  max_forbidden_domain_classes :: nat
  max_expanded_states :: nat
  max_spur_searches :: nat
  max_queue_entries :: nat
  max_search_states :: nat
  max_retained_plans :: nat
  max_history_entries :: nat
  max_explanation_entries :: nat
  max_reverse_dependency_entries :: nat
  max_persisted_plans :: nat
  max_enumeration_candidates :: nat
  max_frame_bytes :: nat
  max_sessions :: nat
  max_concurrent_requests :: nat
  max_workers :: nat
  receive_bound_ms :: nat
  send_bound_ms :: nat
  connect_bound_ms :: nat

definition ResourceLimits_default :: ResourceLimits where
  "ResourceLimits_default = \<lparr>
     max_nodes = 1048576, max_edges = 4194304, max_endpoints = 1048576, max_ports_per_node = 4096,
     max_link_state_records = 4194304, max_port_state_records = 4194304,
     max_capability_bindings = 4194304, max_failure_domains = 262144,
     max_members_per_failure_domain = 65536,
     max_candidates_per_request = 64, lim_max_hops = 512, max_constraints_total = 4096,
     max_forbidden_ids = 2048, max_required_ids = 256, max_required_any_sets = 64,
     max_members_in_any_set = 256, max_transit_alternatives = 1024, max_transit_combinations = 64,
     max_capability_requirements = 256, max_forbidden_domain_classes = 256,
     max_expanded_states = 50000000, max_spur_searches = 4000000, max_queue_entries = 20000000,
     max_search_states = 4000000,
     max_retained_plans = 4096, max_history_entries = 64, max_explanation_entries = 256,
     max_reverse_dependency_entries = 1048576, max_persisted_plans = 65536,
     max_enumeration_candidates = 256,
     max_frame_bytes = 1048576, max_sessions = 256, max_concurrent_requests = 256, max_workers = 64,
     receive_bound_ms = 15000, send_bound_ms = 15000, connect_bound_ms = 10000\<rparr>"

definition ValidateLimits :: "ResourceLimits \<Rightarrow> DiagnosticCode option" where
  "ValidateLimits l =
     (if max_nodes l = 0 \<or> max_edges l = 0 \<or> max_endpoints l = 0 \<or> max_ports_per_node l = 0
      then Some DC_kGraphTooLarge
      else if max_candidates_per_request l = 0 \<or> max_candidates_per_request l > unat kMaxCandidateRank
      then Some DC_kCandidateLimitExceeded
      else if lim_max_hops l = 0 \<or> lim_max_hops l > unat kMaxHopCount
      then Some DC_kMaxHopsExceeded
      else if max_frame_bytes l < 64 \<or> max_frame_bytes l > 268435456
      then Some DC_kProtocolMalformedFrame
      else if max_sessions l = 0 \<or> max_workers l = 0 \<or> max_concurrent_requests l = 0
      then Some DC_kProtocolSessionLimit
      else if receive_bound_ms l = 0 \<or> connect_bound_ms l = 0 \<or> send_bound_ms l = 0
      then Some DC_kProtocolReceiveBoundExceeded
      else if max_expanded_states l = 0 \<or> max_spur_searches l = 0 \<or> max_queue_entries l = 0
      then Some DC_kWorkBudgetExhausted
      else if max_retained_plans l = 0 \<or> max_history_entries l = 0 \<or> max_explanation_entries l = 0
      then Some DC_kPersistenceLimitExceeded
      else if max_constraints_total l = 0 \<or> max_forbidden_ids l = 0 \<or> max_required_ids l = 0
      then Some DC_kConstraintCountExceeded
      else if max_required_any_sets l = 0 \<or> max_members_in_any_set l = 0
      then Some DC_kConstraintCountExceeded
      else None)"

lemma ValidateLimits_default [simp]: "ValidateLimits ResourceLimits_default = None"
  by (simp add: ValidateLimits_def ResourceLimits_default_def kMaxCandidateRank_def kMaxHopCount_def)

lemma ValidateLimits_hops: "ValidateLimits l = None \<Longrightarrow> 0 < lim_max_hops l \<and> lim_max_hops l \<le> 65535"
  by (simp add: ValidateLimits_def kMaxHopCount_def split: if_splits)

end
