(* ===== verification/Graph.thy ===== *)
theory Graph
  imports Limits
begin

text \<open>
  The planning input (\<open>include/pathplanner/graph.hpp\<close>, \<open>src/graph.cpp\<close>): the records published by
  the authoritative runtimes, the four lookup views, the generation vector and its comparison, the
  immutable snapshot and the builder that validates it.

  Structs are records with their fields prefixed by the struct; the view classes wrap the sorted
  vectors their constructors establish.  \<open>std::sort\<close> by a key is \<open>sort_key\<close> (records with equal keys,
  whose order the standard leaves open, keep their order).  \<open>Build\<close> returns an error with its detail
  text or the snapshot; the moved-from builder is not used afterwards.
\<close>

section \<open>Subjects\<close>

datatype SubjectKind = Subj_kNode | Subj_kLink | Subj_kPort

fun SubjectKind_value :: "SubjectKind \<Rightarrow> nat" where
  "SubjectKind_value Subj_kNode = 1"
| "SubjectKind_value Subj_kLink = 2"
| "SubjectKind_value Subj_kPort = 3"

definition SubjectKind_cast :: "nat \<Rightarrow> SubjectKind option" where
  "SubjectKind_cast v = map_of [(1, Subj_kNode), (2, Subj_kLink), (3, Subj_kPort)] v"

definition kSubjectKindNames :: "EnumEntry list" where
  "kSubjectKindNames = [(''NODE'', 1), (''LINK'', 2), (''PORT'', 3)]"

interpretation SubjectKind_enum: enum_table SubjectKind_value SubjectKind_cast kSubjectKindNames "\<lambda>_. True"
proof
  show "SubjectKind_cast (SubjectKind_value x) = Some x" for x by (cases x) (simp_all add: SubjectKind_cast_def)
  show "SubjectKind_value x \<in> snd ` set kSubjectKindNames" for x by (cases x) (simp_all add: kSubjectKindNames_def)
qed (simp_all add: kSubjectKindNames_def SubjectKind_cast_def)

datatype SubjectKey = SubjectKey (subj_kind: SubjectKind) (subj_bytes: bytes)

definition ForNode :: "NodeId \<Rightarrow> SubjectKey" where
  "ForNode x = SubjectKey Subj_kNode (id_bytes x)"

definition ForLink :: "LinkId \<Rightarrow> SubjectKey" where
  "ForLink x = SubjectKey Subj_kLink (id_bytes x)"

definition ForPort :: "PortId \<Rightarrow> SubjectKey" where
  "ForPort x = SubjectKey Subj_kPort (id_bytes x)"

definition AsNode :: "SubjectKey \<Rightarrow> NodeId option" where
  "AsNode s = (if subj_kind s \<noteq> Subj_kNode then None else Some (FixedId (subj_bytes s)))"

definition AsLink :: "SubjectKey \<Rightarrow> LinkId option" where
  "AsLink s = (if subj_kind s \<noteq> Subj_kLink then None else Some (FixedId (subj_bytes s)))"

definition AsPort :: "SubjectKey \<Rightarrow> PortId option" where
  "AsPort s = (if subj_kind s \<noteq> Subj_kPort then None else Some (FixedId (subj_bytes s)))"

definition SubjectKey_ToString :: "SubjectKey \<Rightarrow> string" where
  "SubjectKey_ToString s = EnumName kSubjectKindNames (SubjectKind_value (subj_kind s)) @ '':'' @ HexEncode (subj_bytes s)"

lemma SubjectKind_value_inj [simp]: "SubjectKind_value a = SubjectKind_value b \<longleftrightarrow> a = b"
  by (cases a; cases b) simp_all

instantiation SubjectKey :: linorder
begin

definition less_eq_SubjectKey :: "SubjectKey \<Rightarrow> SubjectKey \<Rightarrow> bool" where
  "x \<le> y \<longleftrightarrow> (if subj_kind x \<noteq> subj_kind y then SubjectKind_value (subj_kind x) < SubjectKind_value (subj_kind y)
     else bytes_le (subj_bytes x) (subj_bytes y))"

definition less_SubjectKey :: "SubjectKey \<Rightarrow> SubjectKey \<Rightarrow> bool" where
  "x < y \<longleftrightarrow> x \<le> y \<and> x \<noteq> (y :: SubjectKey)"

instance
proof
  fix x y z :: SubjectKey
  have anti: "x = y" if "x \<le> y" "y \<le> x" for x y :: SubjectKey
    using that bytes_le_antisym
    by (cases x; cases y) (auto simp: less_eq_SubjectKey_def split: if_splits)
  show "x = y" if "x \<le> y" "y \<le> x" using that by (rule anti)
  show refl: "x \<le> x" by (simp add: less_eq_SubjectKey_def)
  show "x < y \<longleftrightarrow> x \<le> y \<and> \<not> y \<le> x"
    using anti [of x y] refl by (auto simp: less_SubjectKey_def less_eq_SubjectKey_def)
  show "x \<le> z" if "x \<le> y" "y \<le> z"
    using that bytes_le_trans by (auto simp: less_eq_SubjectKey_def split: if_splits)
  show "x \<le> y \<or> y \<le> x"
    using bytes_le_total [of "subj_bytes x" "subj_bytes y"]
      SubjectKind_value_inj [of "subj_kind x" "subj_kind y"]
    by (auto simp: less_eq_SubjectKey_def simp del: SubjectKind_value_inj)
qed

end

section \<open>Topology records\<close>

record NodeRecord =
  node_id :: NodeId
  node_attachment :: SwitchId
  node_entity_generation :: Generation
  node_structural_generation :: Generation
  node_ports :: "PortId list"

record EdgeRecord =
  edge_id :: LinkId
  edge_from :: NodeId
  edge_to :: NodeId
  edge_from_port :: PortId
  edge_to_port :: PortId
  edge_layer :: PathLayer
  edge_relationship :: RelationshipType
  edge_static_cost :: StaticCost
  edge_entity_generation :: Generation
  edge_structural_generation :: Generation

record EndpointRecord =
  ep_id :: EndpointId
  ep_class :: EndpointClass
  ep_node :: NodeId
  ep_port :: PortId
  ep_entity_generation :: Generation

section \<open>Views of the authoritative state\<close>

record LinkStateRecord =
  ls_link :: LinkId
  ls_state :: LinkState

datatype LinkStateView = LinkStateView (LinkStateView_Records: "LinkStateRecord list")

definition LinkStateView_new :: "LinkStateRecord list \<Rightarrow> LinkStateView" where
  "LinkStateView_new records = LinkStateView (sort_key ls_link records)"

definition LinkStateView_Find :: "LinkStateView \<Rightarrow> LinkId \<Rightarrow> LinkStateRecord option" where
  "LinkStateView_Find v link =
     map_option (\<lambda>i. LinkStateView_Records v ! i) (find_sorted ls_link (LinkStateView_Records v) link)"

definition LinkStateView_StateOf :: "LinkStateView \<Rightarrow> LinkId \<Rightarrow> LinkState" where
  "LinkStateView_StateOf v link =
     (case LinkStateView_Find v link of None \<Rightarrow> Link_kUnknown | Some r \<Rightarrow> ls_state r)"

record PortStateRecord =
  ps_port :: PortId
  ps_state :: PortState

datatype PortStateView = PortStateView (PortStateView_Records: "PortStateRecord list")

definition PortStateView_new :: "PortStateRecord list \<Rightarrow> PortStateView" where
  "PortStateView_new records = PortStateView (sort_key ps_port records)"

definition PortStateView_Find :: "PortStateView \<Rightarrow> PortId \<Rightarrow> PortStateRecord option" where
  "PortStateView_Find v port =
     map_option (\<lambda>i. PortStateView_Records v ! i) (find_sorted ps_port (PortStateView_Records v) port)"

definition PortStateView_StateOf :: "PortStateView \<Rightarrow> PortId \<Rightarrow> PortState" where
  "PortStateView_StateOf v port =
     (case PortStateView_Find v port of None \<Rightarrow> Port_kUnknown | Some r \<Rightarrow> ps_state r)"

record CapabilityBinding =
  cap_subject :: SubjectKey
  cap_capability :: CapabilityId
  cap_value :: u64

definition cap_key :: "CapabilityBinding \<Rightarrow> SubjectKey \<times> CapabilityId" where
  "cap_key b = (cap_subject b, cap_capability b)"

datatype CapabilityView = CapabilityView (CapabilityView_Bindings: "CapabilityBinding list")

definition CapabilityView_new :: "CapabilityBinding list \<Rightarrow> CapabilityView" where
  "CapabilityView_new bindings = CapabilityView (sort_key cap_key bindings)"

definition CapabilityView_Find :: "CapabilityView \<Rightarrow> SubjectKey \<times> CapabilityId \<Rightarrow> CapabilityBinding option" where
  "CapabilityView_Find v k =
     map_option (\<lambda>i. CapabilityView_Bindings v ! i) (find_sorted cap_key (CapabilityView_Bindings v) k)"

definition CapabilityView_Lookup :: "CapabilityView \<Rightarrow> SubjectKey \<Rightarrow> CapabilityId \<Rightarrow> u64 option" where
  "CapabilityView_Lookup v subject capability = map_option cap_value (CapabilityView_Find v (subject, capability))"

record FailureDomainRecord =
  fd_domain :: FailureDomainId
  fd_risk_class :: FailureDomainClass
  fd_members :: "SubjectKey list"

record FailureDomainView =
  fdv_domains :: "FailureDomainRecord list"
  fdv_membership :: "(SubjectKey \<times> FailureDomainId) list"
  fdv_membership_complete :: bool

definition FailureDomainView_new :: "FailureDomainRecord list \<Rightarrow> bool \<Rightarrow> FailureDomainView" where
  "FailureDomainView_new domains complete =
     (let sorted_domains = sort_key fd_domain domains;
          pairs = concat (map (\<lambda>r. map (\<lambda>m. (m, fd_domain r)) (fd_members r)) sorted_domains)
      in \<lparr>fdv_domains = sorted_domains, fdv_membership = unique_by (=) (sort pairs),
          fdv_membership_complete = complete\<rparr>)"

definition FindDomain :: "FailureDomainView \<Rightarrow> FailureDomainId \<Rightarrow> FailureDomainRecord option" where
  "FindDomain v domain = map_option (\<lambda>i. fdv_domains v ! i) (find_sorted fd_domain (fdv_domains v) domain)"

record Membership =
  mem_known :: bool
  mem_domains :: "FailureDomainId list"

definition MembershipOf :: "FailureDomainView \<Rightarrow> SubjectKey \<Rightarrow> Membership" where
  "MembershipOf v subject =
     (let it = lower_bound (\<lambda>entry. fst entry < subject) (fdv_membership v);
          run = takeWhile (\<lambda>entry. fst entry = subject) (drop it (fdv_membership v))
      in \<lparr>mem_known = (run \<noteq> [] \<or> fdv_membership_complete v), mem_domains = map snd run\<rparr>)"

section \<open>Generations and evidence\<close>

record SnapshotGenerations =
  gen_topology :: Generation
  gen_link_state :: Generation
  gen_ports :: Generation
  gen_capabilities :: Generation
  gen_failure_domains :: Generation
  gen_epoch :: Generation
  gen_policy :: Generation
  gen_constraints :: Generation

definition SnapshotGenerations_Encode :: "SnapshotGenerations \<Rightarrow> ByteWriter \<Rightarrow> ByteWriter" where
  "SnapshotGenerations_Encode g w =
     (let w = write_U64 (gen_topology g) w;
          w = write_U64 (gen_link_state g) w;
          w = write_U64 (gen_ports g) w;
          w = write_U64 (gen_capabilities g) w;
          w = write_U64 (gen_failure_domains g) w;
          w = write_U64 (gen_epoch g) w;
          w = write_U64 (gen_policy g) w
      in write_U64 (gen_constraints g) w)"

record EvidenceVector =
  ev_snapshot :: SnapshotId
  ev_generations :: SnapshotGenerations
  ev_source :: EvidenceSource
  ev_publish_sequence :: u64

definition EvidenceVector_Encode :: "EvidenceVector \<Rightarrow> ByteWriter \<Rightarrow> ByteWriter" where
  "EvidenceVector_Encode e w =
     (let w = write_FixedBytes (id_bytes (ev_snapshot e)) w;
          w = SnapshotGenerations_Encode (ev_generations e) w;
          w = write_U32 (of_nat (EvidenceSource_value (ev_source e))) w
      in write_U64 (ev_publish_sequence e) w)"

definition ClassifyEvidence :: "EvidenceVector \<Rightarrow> EvidenceVector \<Rightarrow> Currentness" where
  "ClassifyEvidence prior current =
     (let p = ev_generations prior; c = ev_generations current; worst = Cur_kCurrent;
          worst = (if gen_topology p \<noteq> gen_topology c then MoreSevere worst Cur_kStaleTopology else worst);
          worst = (if gen_link_state p \<noteq> gen_link_state c then MoreSevere worst Cur_kStaleLinkState else worst);
          worst = (if gen_ports p \<noteq> gen_ports c then MoreSevere worst Cur_kStalePortState else worst);
          worst = (if gen_capabilities p \<noteq> gen_capabilities c then MoreSevere worst Cur_kStaleCapability else worst);
          worst = (if gen_failure_domains p \<noteq> gen_failure_domains c then MoreSevere worst Cur_kStaleFailureDomain else worst);
          worst = (if gen_policy p \<noteq> gen_policy c then MoreSevere worst Cur_kStalePolicy else worst);
          worst = (if gen_epoch p \<noteq> gen_epoch c then MoreSevere worst Cur_kStaleEpoch else worst)
      in worst)"

section \<open>The snapshot\<close>

record FabricSnapshot =
  snap_generations :: SnapshotGenerations
  snap_source :: EvidenceSource
  snap_limits :: ResourceLimits
  snap_nodes :: "NodeRecord list"
  snap_edges :: "EdgeRecord list"
  snap_endpoints :: "EndpointRecord list"
  snap_link_states :: LinkStateView
  snap_port_states :: PortStateView
  snap_capabilities :: CapabilityView
  snap_failure_domains :: FailureDomainView
  snap_digest :: Sha256Digest

definition node_lookup :: "NodeRecord list \<Rightarrow> NodeId \<Rightarrow> NodeRecord option" where
  "node_lookup nodes k = map_option (\<lambda>i. nodes ! i) (find_sorted node_id nodes k)"

definition edge_lookup :: "EdgeRecord list \<Rightarrow> LinkId \<Rightarrow> EdgeRecord option" where
  "edge_lookup edges k = map_option (\<lambda>i. edges ! i) (find_sorted edge_id edges k)"

definition endpoint_lookup :: "EndpointRecord list \<Rightarrow> EndpointId \<Rightarrow> EndpointRecord option" where
  "endpoint_lookup endpoints k = map_option (\<lambda>i. endpoints ! i) (find_sorted ep_id endpoints k)"

definition FindNode :: "FabricSnapshot \<Rightarrow> NodeId \<Rightarrow> NodeRecord option" where
  "FindNode s k = node_lookup (snap_nodes s) k"

definition FindEdge :: "FabricSnapshot \<Rightarrow> LinkId \<Rightarrow> EdgeRecord option" where
  "FindEdge s k = edge_lookup (snap_edges s) k"

definition FindEndpoint :: "FabricSnapshot \<Rightarrow> EndpointId \<Rightarrow> EndpointRecord option" where
  "FindEndpoint s k = endpoint_lookup (snap_endpoints s) k"

definition Snapshot_Id :: "FabricSnapshot \<Rightarrow> SnapshotId" where
  "Snapshot_Id s = FixedId_FromDigest 16 (snap_digest s)"

definition Snapshot_Evidence :: "FabricSnapshot \<Rightarrow> EvidenceVector" where
  "Snapshot_Evidence s = \<lparr>ev_snapshot = Snapshot_Id s, ev_generations = snap_generations s,
     ev_source = snap_source s, ev_publish_sequence = 0\<rparr>"

definition kPathEncodingVersion :: u32 where "kPathEncodingVersion = 1"

definition encode_node :: "NodeRecord \<Rightarrow> ByteWriter \<Rightarrow> ByteWriter" where
  "encode_node n w =
     (let w = write_FixedBytes (id_bytes (node_id n)) w;
          w = write_FixedBytes (id_bytes (node_attachment n)) w;
          w = write_U64 (node_entity_generation n) w;
          w = write_U64 (node_structural_generation n) w;
          w = write_VarU64 (of_nat (length (node_ports n))) w
      in fold (\<lambda>p. write_FixedBytes (id_bytes p)) (node_ports n) w)"

definition encode_edge :: "EdgeRecord \<Rightarrow> ByteWriter \<Rightarrow> ByteWriter" where
  "encode_edge e w =
     (let w = write_FixedBytes (id_bytes (edge_id e)) w;
          w = write_FixedBytes (id_bytes (edge_from e)) w;
          w = write_FixedBytes (id_bytes (edge_to e)) w;
          w = write_FixedBytes (id_bytes (edge_from_port e)) w;
          w = write_FixedBytes (id_bytes (edge_to_port e)) w;
          w = write_U32 (of_nat (PathLayer_value (edge_layer e))) w;
          w = write_U32 (of_nat (RelationshipType_value (edge_relationship e))) w;
          w = write_U32 (edge_static_cost e) w;
          w = write_U64 (edge_entity_generation e) w
      in write_U64 (edge_structural_generation e) w)"

definition encode_endpoint :: "EndpointRecord \<Rightarrow> ByteWriter \<Rightarrow> ByteWriter" where
  "encode_endpoint e w =
     (let w = write_FixedBytes (id_bytes (ep_id e)) w;
          w = write_U32 (of_nat (EndpointClass_value (ep_class e))) w;
          w = write_FixedBytes (id_bytes (ep_node e)) w;
          w = write_FixedBytes (id_bytes (ep_port e)) w
      in write_U64 (ep_entity_generation e) w)"

definition encode_link_state :: "LinkStateRecord \<Rightarrow> ByteWriter \<Rightarrow> ByteWriter" where
  "encode_link_state r w = write_U32 (of_nat (LinkState_value (ls_state r))) (write_FixedBytes (id_bytes (ls_link r)) w)"

definition encode_port_state :: "PortStateRecord \<Rightarrow> ByteWriter \<Rightarrow> ByteWriter" where
  "encode_port_state r w = write_U32 (of_nat (PortState_value (ps_state r))) (write_FixedBytes (id_bytes (ps_port r)) w)"

definition encode_subject :: "SubjectKey \<Rightarrow> ByteWriter \<Rightarrow> ByteWriter" where
  "encode_subject s w = write_FixedBytes (subj_bytes s) (write_U32 (of_nat (SubjectKind_value (subj_kind s))) w)"

definition encode_capability :: "CapabilityBinding \<Rightarrow> ByteWriter \<Rightarrow> ByteWriter" where
  "encode_capability b w =
     write_U64 (cap_value b) (write_FixedBytes (id_bytes (cap_capability b)) (encode_subject (cap_subject b) w))"

definition encode_domain :: "FailureDomainRecord \<Rightarrow> ByteWriter \<Rightarrow> ByteWriter" where
  "encode_domain r w =
     (let w = write_FixedBytes (id_bytes (fd_domain r)) w;
          w = write_FixedBytes (id_bytes (fd_risk_class r)) w;
          w = write_VarU64 (of_nat (length (fd_members r))) w
      in fold encode_subject (fd_members r) w)"

definition encode_list :: "('a \<Rightarrow> ByteWriter \<Rightarrow> ByteWriter) \<Rightarrow> 'a list \<Rightarrow> ByteWriter \<Rightarrow> ByteWriter" where
  "encode_list f xs w = fold f xs (write_VarU64 (of_nat (length xs)) w)"

definition FabricSnapshot_Encode :: "FabricSnapshot \<Rightarrow> ByteWriter \<Rightarrow> ByteWriter" where
  "FabricSnapshot_Encode s w =
     (let w = write_U32 kPathEncodingVersion w;
          w = SnapshotGenerations_Encode (snap_generations s) w;
          w = write_U32 (of_nat (EvidenceSource_value (snap_source s))) w;
          w = encode_list encode_node (snap_nodes s) w;
          w = encode_list encode_edge (snap_edges s) w;
          w = encode_list encode_endpoint (snap_endpoints s) w;
          w = encode_list encode_link_state (LinkStateView_Records (snap_link_states s)) w;
          w = encode_list encode_port_state (PortStateView_Records (snap_port_states s)) w;
          w = encode_list encode_capability (CapabilityView_Bindings (snap_capabilities s)) w;
          w = write_VarU64 (of_nat (length (fdv_domains (snap_failure_domains s)))) w;
          w = write_Bool (fdv_membership_complete (snap_failure_domains s)) w
      in fold encode_domain (fdv_domains (snap_failure_domains s)) w)"

section \<open>The snapshot builder\<close>

definition Exceeds :: "nat \<Rightarrow> nat \<Rightarrow> bool" where
  "Exceeds n limit \<longleftrightarrow> n > limit"

fun IsSortedUnique :: "('r \<Rightarrow> 'k::linorder) \<Rightarrow> 'r list \<Rightarrow> bool" where
  "IsSortedUnique key (x # y # zs) = (if \<not> key x < key y then False else IsSortedUnique key (y # zs))"
| "IsSortedUnique key _ = True"

fun RelationshipMatchesLayer :: "RelationshipType \<Rightarrow> PathLayer \<Rightarrow> bool" where
  "RelationshipMatchesLayer Rel_kDirectLink layer = (layer = Layer_kPhysical)"
| "RelationshipMatchesLayer Rel_kPortPairing layer = (layer = Layer_kPhysical)"
| "RelationshipMatchesLayer Rel_kLogicalAdjacency layer = (layer = Layer_kLogical)"
| "RelationshipMatchesLayer Rel_kTunnelEncapsulation layer = (layer = Layer_kTunnel \<or> layer = Layer_kOverlay)"

record FabricSnapshotBuilder =
  b_limits :: ResourceLimits
  b_generations :: SnapshotGenerations
  b_source :: EvidenceSource
  b_nodes :: "NodeRecord list"
  b_edges :: "EdgeRecord list"
  b_endpoints :: "EndpointRecord list"
  b_link_states :: "LinkStateRecord list"
  b_port_states :: "PortStateRecord list"
  b_capabilities :: "CapabilityBinding list"
  b_failure_domains :: "FailureDomainRecord list"
  b_membership_complete :: bool
  b_diagnostics :: "DiagnosticCode list"

definition SnapshotGenerations_zero :: SnapshotGenerations where
  "SnapshotGenerations_zero = \<lparr>gen_topology = 0, gen_link_state = 0, gen_ports = 0, gen_capabilities = 0,
     gen_failure_domains = 0, gen_epoch = 0, gen_policy = 0, gen_constraints = 0\<rparr>"

definition FabricSnapshotBuilder_new :: "ResourceLimits \<Rightarrow> FabricSnapshotBuilder" where
  "FabricSnapshotBuilder_new limits = \<lparr>b_limits = limits, b_generations = SnapshotGenerations_zero,
     b_source = Src_kSynthetic, b_nodes = [], b_edges = [], b_endpoints = [], b_link_states = [],
     b_port_states = [], b_capabilities = [], b_failure_domains = [], b_membership_complete = False,
     b_diagnostics = []\<rparr>"

definition Reject :: "DiagnosticCode \<Rightarrow> FabricSnapshotBuilder \<Rightarrow> bool \<times> FabricSnapshotBuilder" where
  "Reject code b = (False, b\<lparr>b_diagnostics := b_diagnostics b @ [code]\<rparr>)"

definition AddNode :: "NodeRecord \<Rightarrow> FabricSnapshotBuilder \<Rightarrow> bool \<times> FabricSnapshotBuilder" where
  "AddNode n b =
     (if Exceeds (length (b_nodes b) + 1) (max_nodes (b_limits b)) then Reject DC_kGraphTooLarge b
      else if \<not> FixedId_IsValid (node_id n) then Reject DC_kMalformedIdentifier b
      else if list_ex (\<lambda>p. \<not> FixedId_IsValid p) (node_ports n) then Reject DC_kMalformedIdentifier b
      else if Exceeds (length (node_ports n)) (max_ports_per_node (b_limits b)) then Reject DC_kGraphTooLarge b
      else let ports = sort (node_ports n) in
        if adjacent_find ports then Reject DC_kDuplicateIdentifier b
        else if node_structural_generation n > gen_topology (b_generations b)
        then Reject DC_kTopologyGenerationMismatch b
        else (True, b\<lparr>b_nodes := b_nodes b @ [n\<lparr>node_ports := ports\<rparr>]\<rparr>))"

definition AddEdge :: "EdgeRecord \<Rightarrow> FabricSnapshotBuilder \<Rightarrow> bool \<times> FabricSnapshotBuilder" where
  "AddEdge e b =
     (if Exceeds (length (b_edges b) + 1) (max_edges (b_limits b)) then Reject DC_kTooManyEdges b
      else if \<not> FixedId_IsValid (edge_id e) \<or> \<not> FixedId_IsValid (edge_from e) \<or> \<not> FixedId_IsValid (edge_to e) \<or>
        \<not> FixedId_IsValid (edge_from_port e) \<or> \<not> FixedId_IsValid (edge_to_port e)
      then Reject DC_kMalformedIdentifier b
      else if edge_from e = edge_to e then Reject DC_kSelfLoopRejected b
      else if \<not> RelationshipMatchesLayer (edge_relationship e) (edge_layer e) then Reject DC_kLayerMismatch b
      else if edge_structural_generation e > gen_topology (b_generations b)
      then Reject DC_kTopologyGenerationMismatch b
      else (True, b\<lparr>b_edges := b_edges b @ [e]\<rparr>))"

definition AddEndpoint :: "EndpointRecord \<Rightarrow> FabricSnapshotBuilder \<Rightarrow> bool \<times> FabricSnapshotBuilder" where
  "AddEndpoint e b =
     (if Exceeds (length (b_endpoints b) + 1) (max_endpoints (b_limits b)) then Reject DC_kGraphTooLarge b
      else if \<not> FixedId_IsValid (ep_id e) \<or> \<not> FixedId_IsValid (ep_node e) \<or> \<not> FixedId_IsValid (ep_port e)
      then Reject DC_kMalformedIdentifier b
      else (True, b\<lparr>b_endpoints := b_endpoints b @ [e]\<rparr>))"

type_synonym build_error = "DiagnosticCode \<times> string"

text \<open>The first edge whose endpoints or ports the nodes do not publish.\<close>

fun check_edges :: "NodeRecord list \<Rightarrow> EdgeRecord list \<Rightarrow> build_error option" where
  "check_edges nodes [] = None"
| "check_edges nodes (e # es) =
     (case node_lookup nodes (edge_from e) of
        None \<Rightarrow> Some (DC_kNoStructuralPath, ''edge '' @ FixedId_ToString (edge_id e) @ '' references unknown source node'')
      | Some from_it \<Rightarrow>
          if \<not> binary_search (node_ports from_it) (edge_from_port e) then
            Some (DC_kNoStructuralPath, ''edge '' @ FixedId_ToString (edge_id e) @
              '' references a port not published by its source node'')
          else case node_lookup nodes (edge_to e) of
            None \<Rightarrow> Some (DC_kNoStructuralPath, ''edge '' @ FixedId_ToString (edge_id e) @
              '' references unknown destination node'')
          | Some to_it \<Rightarrow>
              if \<not> binary_search (node_ports to_it) (edge_to_port e) then
                Some (DC_kNoStructuralPath, ''edge '' @ FixedId_ToString (edge_id e) @
                  '' references a port not published by its destination node'')
              else check_edges nodes es)"

fun check_endpoints :: "NodeRecord list \<Rightarrow> EndpointRecord list \<Rightarrow> build_error option" where
  "check_endpoints nodes [] = None"
| "check_endpoints nodes (e # es) =
     (case node_lookup nodes (ep_node e) of
        None \<Rightarrow> Some (DC_kUnknownEndpoint, ''endpoint '' @ FixedId_ToString (ep_id e) @ '' references an unknown node'')
      | Some node_it \<Rightarrow>
          if \<not> binary_search (node_ports node_it) (ep_port e) then
            Some (DC_kUnknownEndpoint, ''endpoint '' @ FixedId_ToString (ep_id e) @
              '' references a port not published by its node'')
          else check_endpoints nodes es)"

text \<open>The loop over the failure domains validates each and makes its members sorted and unique.\<close>

fun normalise_domains :: "nat \<Rightarrow> FailureDomainRecord list \<Rightarrow> build_error + FailureDomainRecord list" where
  "normalise_domains limit [] = Inr []"
| "normalise_domains limit (r # rs) =
     (if \<not> FixedId_IsValid (fd_domain r) then Inl (DC_kMalformedIdentifier, ''failure domain identity is nil'')
      else if Exceeds (length (fd_members r)) limit then Inl (DC_kGraphTooLarge, ''failure domain member limit exceeded'')
      else case normalise_domains limit rs of
             Inl e \<Rightarrow> Inl e
           | Inr rs' \<Rightarrow> Inr (r\<lparr>fd_members := unique_by (=) (sort (fd_members r))\<rparr> # rs'))"

text \<open>The record limits and the duplicate tests on the views, in the order they are made.\<close>

definition check_views :: "FabricSnapshotBuilder \<Rightarrow> build_error option" where
  "check_views b =
     (if Exceeds (length (b_link_states b)) (max_link_state_records (b_limits b))
      then Some (DC_kGraphTooLarge, ''link state record limit exceeded'')
      else if Exceeds (length (b_port_states b)) (max_port_state_records (b_limits b))
      then Some (DC_kGraphTooLarge, ''port state record limit exceeded'')
      else if Exceeds (length (b_capabilities b)) (max_capability_bindings (b_limits b))
      then Some (DC_kGraphTooLarge, ''capability binding limit exceeded'')
      else if Exceeds (length (b_failure_domains b)) (max_failure_domains (b_limits b))
      then Some (DC_kGraphTooLarge, ''failure domain limit exceeded'')
      else if adjacent_find (map ls_link (b_link_states b))
      then Some (DC_kDuplicateIdentifier, ''duplicate link state record'')
      else if adjacent_find (map ps_port (b_port_states b))
      then Some (DC_kDuplicateIdentifier, ''duplicate port state record'')
      else if adjacent_find (map cap_key (b_capabilities b))
      then Some (DC_kDuplicateIdentifier, ''duplicate capability binding'')
      else if adjacent_find (map fd_domain (b_failure_domains b))
      then Some (DC_kDuplicateIdentifier, ''duplicate failure domain'')
      else None)"

text \<open>The snapshot the validated vectors are moved into, before its digest is computed.\<close>

definition assemble :: "FabricSnapshotBuilder \<Rightarrow> NodeRecord list \<Rightarrow> EdgeRecord list \<Rightarrow> EndpointRecord list \<Rightarrow>
    FailureDomainRecord list \<Rightarrow> FabricSnapshot" where
  "assemble b nodes edges endpoints domains = \<lparr>
     snap_generations = b_generations b, snap_source = b_source b, snap_limits = b_limits b,
     snap_nodes = nodes, snap_edges = edges, snap_endpoints = endpoints,
     snap_link_states = LinkStateView_new (b_link_states b),
     snap_port_states = PortStateView_new (b_port_states b),
     snap_capabilities = CapabilityView_new (b_capabilities b),
     snap_failure_domains = FailureDomainView_new domains (b_membership_complete b),
     snap_digest = replicate 32 0\<rparr>"

definition seal :: "nat \<Rightarrow> FabricSnapshot \<Rightarrow> build_error + FabricSnapshot" where
  "seal ceiling s =
     (let w = FabricSnapshot_Encode s (ByteWriter_new ceiling) in
      if bw_overflowed w then Inl (DC_kGraphTooLarge, ''snapshot encoding exceeded its ceiling'')
      else let digest = Sha256_Hash (bw_data w) in
        if IsZero digest then Inl (DC_kPersistenceCorrupt, ''snapshot digest is degenerate'')
        else Inr (s\<lparr>snap_digest := digest\<rparr>))"

definition Build :: "FabricSnapshotBuilder \<Rightarrow> build_error + FabricSnapshot" where
  "Build b =
     (case ValidateLimits (b_limits b) of
        Some code \<Rightarrow> Inl (code, ''resource limits are incoherent'')
      | None \<Rightarrow>
        let nodes = sort_key node_id (b_nodes b) in
        if \<not> IsSortedUnique node_id nodes then Inl (DC_kDuplicateIdentifier, ''duplicate node identity'')
        else let edges = sort_key edge_id (b_edges b) in
        if \<not> IsSortedUnique edge_id edges then Inl (DC_kDuplicateIdentifier, ''duplicate link identity'')
        else case check_edges nodes edges of Some e \<Rightarrow> Inl e
      | None \<Rightarrow>
        let endpoints = sort_key ep_id (b_endpoints b) in
        if \<not> IsSortedUnique ep_id endpoints then Inl (DC_kAmbiguousEndpoint, ''duplicate endpoint identity'')
        else case check_endpoints nodes endpoints of Some e \<Rightarrow> Inl e
      | None \<Rightarrow>
        (case check_views b of Some e \<Rightarrow> Inl e
      | None \<Rightarrow>
        (case normalise_domains (max_members_per_failure_domain (b_limits b)) (b_failure_domains b) of Inl e \<Rightarrow> Inl e
      | Inr domains \<Rightarrow>
        let record_count = length nodes + length edges + length endpoints + length (b_link_states b) +
              length (b_port_states b) + length (b_capabilities b) + length domains
        in seal (1024 + record_count * 128) (assemble b nodes edges endpoints domains))))"

text \<open>The calls a client makes on a builder before \<open>Build\<close>.\<close>

datatype BuilderOp =
    Op_SetGenerations SnapshotGenerations
  | Op_SetSource EvidenceSource
  | Op_AddNode NodeRecord
  | Op_AddEdge EdgeRecord
  | Op_AddEndpoint EndpointRecord
  | Op_SetLinkStates "LinkStateRecord list"
  | Op_SetPortStates "PortStateRecord list"
  | Op_SetCapabilities "CapabilityBinding list"
  | Op_SetFailureDomains "FailureDomainRecord list" bool
  | Op_ClearDiagnostics

fun builder_step :: "BuilderOp \<Rightarrow> FabricSnapshotBuilder \<Rightarrow> FabricSnapshotBuilder" where
  "builder_step (Op_SetGenerations g) b = b\<lparr>b_generations := g\<rparr>"
| "builder_step (Op_SetSource s) b = b\<lparr>b_source := s\<rparr>"
| "builder_step (Op_AddNode n) b = snd (AddNode n b)"
| "builder_step (Op_AddEdge e) b = snd (AddEdge e b)"
| "builder_step (Op_AddEndpoint e) b = snd (AddEndpoint e b)"
| "builder_step (Op_SetLinkStates rs) b = b\<lparr>b_link_states := rs\<rparr>"
| "builder_step (Op_SetPortStates rs) b = b\<lparr>b_port_states := rs\<rparr>"
| "builder_step (Op_SetCapabilities rs) b = b\<lparr>b_capabilities := rs\<rparr>"
| "builder_step (Op_SetFailureDomains rs complete) b = b\<lparr>b_failure_domains := rs, b_membership_complete := complete\<rparr>"
| "builder_step Op_ClearDiagnostics b = b\<lparr>b_diagnostics := []\<rparr>"

section \<open>The lookup tables satisfy their contract\<close>

interpretation link_states: sorted_view LinkStateView_new LinkStateView_Find ls_link LinkStateView_Records
  by unfold_locales (simp_all add: LinkStateView_new_def LinkStateView_Find_def)

interpretation port_states: sorted_view PortStateView_new PortStateView_Find ps_port PortStateView_Records
  by unfold_locales (simp_all add: PortStateView_new_def PortStateView_Find_def)

interpretation bindings: sorted_view CapabilityView_new CapabilityView_Find cap_key CapabilityView_Bindings
  by unfold_locales (simp_all add: CapabilityView_new_def CapabilityView_Find_def)

interpretation domains: sorted_view "\<lambda>rs. FailureDomainView_new rs complete" FindDomain fd_domain fdv_domains
  for complete
  by unfold_locales (simp_all add: FailureDomainView_new_def FindDomain_def Let_def)

interpretation nodes: sorted_view "sort_key node_id" node_lookup node_id "\<lambda>ns. ns"
  by unfold_locales (simp_all add: node_lookup_def)

interpretation edges: sorted_view "sort_key edge_id" edge_lookup edge_id "\<lambda>es. es"
  by unfold_locales (simp_all add: edge_lookup_def)

interpretation endpoints: sorted_view "sort_key ep_id" endpoint_lookup ep_id "\<lambda>es. es"
  by unfold_locales (simp_all add: endpoint_lookup_def)

lemma IsSortedUnique_iff [simp]: "IsSortedUnique key xs \<longleftrightarrow> sorted_wrt (<) (map key xs)"
proof (induction key xs rule: IsSortedUnique.induct)
  case (1 key x y zs)
  then show ?case by (auto dest: order.strict_trans)
qed simp_all

lemma IsSortedUnique_sort [simp]: "IsSortedUnique key (sort_key key xs) \<longleftrightarrow> distinct (map key xs)"
proof -
  have "distinct (map key (sort_key key xs)) \<longleftrightarrow> distinct (map key xs)"
    by (metis mset_map mset_sort mset_eq_imp_distinct_iff)
  then show ?thesis by (simp add: strict_sorted_iff)
qed

text \<open>On a strictly sorted vector the lookups are exact.\<close>

lemma node_lookup_iff:
  "sorted_wrt (<) (map node_id ns) \<Longrightarrow> node_lookup ns k = Some n \<longleftrightarrow> n \<in> set ns \<and> node_id n = k"
  by (auto simp: node_lookup_def find_sorted_eq_Some in_set_conv_nth)

lemma edge_lookup_iff:
  "sorted_wrt (<) (map edge_id es) \<Longrightarrow> edge_lookup es k = Some e \<longleftrightarrow> e \<in> set es \<and> edge_id e = k"
  by (auto simp: edge_lookup_def find_sorted_eq_Some in_set_conv_nth)

lemma endpoint_lookup_iff:
  "sorted_wrt (<) (map ep_id es) \<Longrightarrow> endpoint_lookup es k = Some e \<longleftrightarrow> e \<in> set es \<and> ep_id e = k"
  by (auto simp: endpoint_lookup_def find_sorted_eq_Some in_set_conv_nth)

text \<open>Reading a state out of a table with a default for absent keys.\<close>

lemma view_state_iff:
  assumes "\<And>k. lookup k = None \<longleftrightarrow> k \<notin> key ` set rs" "\<And>k r. lookup k = Some r \<Longrightarrow> r \<in> set rs \<and> key r = k"
    and "\<And>r. r \<in> set rs \<Longrightarrow> lookup (key r) = Some r"
  shows "(case lookup k of None \<Rightarrow> d | Some r \<Rightarrow> state r) = st \<longleftrightarrow>
    (\<exists>r \<in> set rs. key r = k \<and> state r = st) \<or> (k \<notin> key ` set rs \<and> st = d)"
proof (cases "lookup k")
  case None
  then have "k \<notin> key ` set rs" using assms(1) by blast
  with None show ?thesis by auto
next
  case (Some r)
  then have r: "r \<in> set rs" "key r = k" using assms(2) by auto
  moreover have "r' = r" if "r' \<in> set rs" "key r' = k" for r' using assms(3) [OF that(1)] that(2) Some by simp
  moreover have "k \<in> key ` set rs" using r by blast
  ultimately show ?thesis unfolding Some option.case by blast
qed

subsection \<open>Failure-domain membership\<close>

lemma sorted_block:
  fixes k :: "'k::linorder"
  assumes "sorted (map key xs)"
  shows "takeWhile (\<lambda>x. key x = k) (drop (lower_bound (\<lambda>x. key x < k) xs) xs) = filter (\<lambda>x. key x = k) xs"
proof -
  let ?i = "lower_bound (\<lambda>x. key x < k) xs"
  note lb = lower_bound_spec [OF sorted_partitioned [OF assms, of k]]
  have low: "filter (\<lambda>x. key x = k) (take ?i xs) = []"
    using lb(1,2) by (force simp: filter_empty_conv in_set_conv_nth)
  have ge: "\<forall>x \<in> set (drop ?i xs). k \<le> key x"
    using lb(2,3) by (auto simp: in_set_conv_nth not_less)
  have tw: "takeWhile (\<lambda>x. key x = k) ys = filter (\<lambda>x. key x = k) ys"
    if "sorted (map key ys)" "\<forall>x \<in> set ys. k \<le> key x" for ys
    using that
  proof (induction ys)
    case (Cons y ys)
    have "filter (\<lambda>x. key x = k) ys = []" if "key y \<noteq> k"
      using Cons.prems that by (auto simp: filter_empty_conv)
    with Cons show ?case by (cases "key y = k") simp_all
  qed simp
  have "sorted (map key (drop ?i xs))" using assms by (simp add: drop_map [symmetric] sorted_wrt_drop)
  from tw [OF this ge] low show ?thesis
    by (metis append_Nil append_take_drop_id filter_append)
qed

lemma fdv_membership_spec:
  "sorted_wrt (<) (fdv_membership (FailureDomainView_new rs c))"
  "set (fdv_membership (FailureDomainView_new rs c)) = {(m, fd_domain r) | m r. r \<in> set rs \<and> m \<in> set (fd_members r)}"
  by (auto simp: FailureDomainView_new_def Let_def sorted_unique_by_eq)

lemma MembershipOf_spec:
  "set (mem_domains (MembershipOf (FailureDomainView_new rs c) s)) = {fd_domain r | r. r \<in> set rs \<and> s \<in> set (fd_members r)}"
  "sorted_wrt (<) (mem_domains (MembershipOf (FailureDomainView_new rs c) s))"
  "mem_known (MembershipOf (FailureDomainView_new rs c) s) \<longleftrightarrow> c \<or> (\<exists>r \<in> set rs. s \<in> set (fd_members r))"
proof -
  let ?m = "fdv_membership (FailureDomainView_new rs c)"
  have st: "sorted_wrt (<) ?m" by (rule fdv_membership_spec)
  have "sorted (map fst ?m)"
    unfolding sorted_map using st by (rule sorted_wrt_mono_rel [rotated]) (auto simp: less_prod_def)
  from sorted_block [OF this] have run:
    "takeWhile (\<lambda>e. fst e = s) (drop (lower_bound (\<lambda>e. fst e < s) ?m) ?m) = filter (\<lambda>e. fst e = s) ?m" by simp
  show "set (mem_domains (MembershipOf (FailureDomainView_new rs c) s)) = {fd_domain r | r. r \<in> set rs \<and> s \<in> set (fd_members r)}"
    by (force simp: MembershipOf_def Let_def run fdv_membership_spec)
  have "sorted_wrt (<) (filter (\<lambda>e. fst e = s) ?m)" using st by (rule sorted_wrt_filter)
  then have "sorted_wrt (\<lambda>a b. snd a < snd b) (filter (\<lambda>e. fst e = s) ?m)"
    by (rule sorted_wrt_mono_rel [rotated]) (auto simp: less_prod_def)
  then show "sorted_wrt (<) (mem_domains (MembershipOf (FailureDomainView_new rs c) s))"
    by (simp add: MembershipOf_def Let_def run sorted_wrt_map)
  have "filter (\<lambda>e. fst e = s) ?m \<noteq> [] \<longleftrightarrow> (\<exists>r \<in> set rs. s \<in> set (fd_members r))"
    by (auto simp: filter_empty_conv fdv_membership_spec)
  moreover have "fdv_membership_complete (FailureDomainView_new rs c) = c"
    by (simp add: FailureDomainView_new_def Let_def)
  ultimately show "mem_known (MembershipOf (FailureDomainView_new rs c) s) \<longleftrightarrow> c \<or> (\<exists>r \<in> set rs. s \<in> set (fd_members r))"
    by (auto simp: MembershipOf_def Let_def run)
qed

section \<open>What a built snapshot guarantees\<close>

definition node_ok :: "NodeRecord \<Rightarrow> bool" where
  "node_ok n \<longleftrightarrow> FixedId_IsValid (node_id n) \<and> (\<forall>p \<in> set (node_ports n). FixedId_IsValid p) \<and>
     sorted_wrt (<) (node_ports n)"

definition edge_ok :: "EdgeRecord \<Rightarrow> bool" where
  "edge_ok e \<longleftrightarrow> FixedId_IsValid (edge_id e) \<and> FixedId_IsValid (edge_from e) \<and> FixedId_IsValid (edge_to e) \<and>
     FixedId_IsValid (edge_from_port e) \<and> FixedId_IsValid (edge_to_port e) \<and> edge_from e \<noteq> edge_to e \<and>
     RelationshipMatchesLayer (edge_relationship e) (edge_layer e)"

definition endpoint_ok :: "EndpointRecord \<Rightarrow> bool" where
  "endpoint_ok e \<longleftrightarrow> FixedId_IsValid (ep_id e) \<and> FixedId_IsValid (ep_node e) \<and> FixedId_IsValid (ep_port e)"

definition publishes :: "NodeRecord list \<Rightarrow> NodeId \<Rightarrow> PortId \<Rightarrow> bool" where
  "publishes nodes x p \<longleftrightarrow> (\<exists>n \<in> set nodes. node_id n = x \<and> p \<in> set (node_ports n))"

definition snapshot_wf :: "FabricSnapshot \<Rightarrow> bool" where
  "snapshot_wf s \<longleftrightarrow>
     sorted_wrt (<) (map node_id (snap_nodes s)) \<and> (\<forall>n \<in> set (snap_nodes s). node_ok n) \<and>
     sorted_wrt (<) (map edge_id (snap_edges s)) \<and>
     (\<forall>e \<in> set (snap_edges s). edge_ok e \<and> publishes (snap_nodes s) (edge_from e) (edge_from_port e) \<and>
        publishes (snap_nodes s) (edge_to e) (edge_to_port e)) \<and>
     sorted_wrt (<) (map ep_id (snap_endpoints s)) \<and>
     (\<forall>e \<in> set (snap_endpoints s). endpoint_ok e \<and> publishes (snap_nodes s) (ep_node e) (ep_port e)) \<and>
     length (snap_nodes s) \<le> max_nodes (snap_limits s) \<and> length (snap_edges s) \<le> max_edges (snap_limits s)"

definition builder_ok :: "FabricSnapshotBuilder \<Rightarrow> bool" where
  "builder_ok b \<longleftrightarrow> list_all node_ok (b_nodes b) \<and> list_all edge_ok (b_edges b) \<and> list_all endpoint_ok (b_endpoints b) \<and>
     length (b_nodes b) \<le> max_nodes (b_limits b) \<and> length (b_edges b) \<le> max_edges (b_limits b)"

lemma builder_ok_new: "builder_ok (FabricSnapshotBuilder_new l)"
  by (simp add: builder_ok_def FabricSnapshotBuilder_new_def)

lemma builder_ok_Reject: "builder_ok b \<Longrightarrow> builder_ok (snd (Reject c b))"
  by (simp add: builder_ok_def Reject_def)

lemma builder_ok_AddNode:
  assumes "builder_ok b"
  shows "builder_ok (snd (AddNode n b))"
proof -
  have "node_ok (n\<lparr>node_ports := sort (node_ports n)\<rparr>)"
    if "FixedId_IsValid (node_id n)" "\<not> list_ex (\<lambda>p. \<not> FixedId_IsValid p) (node_ports n)"
      "\<not> adjacent_find (sort (node_ports n))"
    using that by (auto simp: node_ok_def strict_sorted_iff list_ex_iff)
  then show ?thesis
    using assms builder_ok_Reject [OF assms]
    by (auto simp: AddNode_def Let_def builder_ok_def Exceeds_def simp del: adjacent_find_sort)
qed

lemma builder_ok_AddEdge: "builder_ok b \<Longrightarrow> builder_ok (snd (AddEdge e b))"
  using builder_ok_Reject by (auto simp: AddEdge_def builder_ok_def Exceeds_def edge_ok_def)

lemma builder_ok_AddEndpoint: "builder_ok b \<Longrightarrow> builder_ok (snd (AddEndpoint e b))"
  using builder_ok_Reject by (auto simp: AddEndpoint_def builder_ok_def endpoint_ok_def)

lemma builder_ok_step: "builder_ok b \<Longrightarrow> builder_ok (builder_step op b)"
  by (cases op) (simp_all add: builder_ok_AddNode builder_ok_AddEdge builder_ok_AddEndpoint, simp_all add: builder_ok_def)

lemma builder_ok_fold: "builder_ok b \<Longrightarrow> builder_ok (fold builder_step ops b)"
  by (induction ops arbitrary: b) (simp_all add: builder_ok_step)

lemma node_lookup_publishes:
  assumes "sorted_wrt (<) (map node_id nodes)" "\<forall>n \<in> set nodes. node_ok n"
    and "node_lookup nodes x = Some n" "binary_search (node_ports n) p"
  shows "publishes nodes x p"
proof -
  have "n \<in> set nodes" "node_id n = x" using assms(1,3) by (simp_all add: node_lookup_iff)
  moreover have "sorted (node_ports n)" using assms(2) \<open>n \<in> set nodes\<close> by (auto simp: node_ok_def strict_sorted_iff)
  ultimately show ?thesis using assms(4) by (auto simp: publishes_def)
qed

text \<open>What \<open>Build\<close> asks of the collected records, stated without its loops and sorts.\<close>

definition normalised :: "FailureDomainRecord \<Rightarrow> FailureDomainRecord" where
  "normalised r = r\<lparr>fd_members := unique_by (=) (sort (fd_members r))\<rparr>"

definition coherent_input :: "FabricSnapshotBuilder \<Rightarrow> bool" where
  "coherent_input b \<longleftrightarrow> ValidateLimits (b_limits b) = None \<and>
     distinct (map node_id (b_nodes b)) \<and> distinct (map edge_id (b_edges b)) \<and> distinct (map ep_id (b_endpoints b)) \<and>
     (\<forall>e \<in> set (b_edges b). publishes (b_nodes b) (edge_from e) (edge_from_port e) \<and>
        publishes (b_nodes b) (edge_to e) (edge_to_port e)) \<and>
     (\<forall>e \<in> set (b_endpoints b). publishes (b_nodes b) (ep_node e) (ep_port e)) \<and>
     check_views b = None \<and>
     (\<forall>r \<in> set (b_failure_domains b). FixedId_IsValid (fd_domain r) \<and>
        length (fd_members r) \<le> max_members_per_failure_domain (b_limits b))"

definition prepared :: "FabricSnapshotBuilder \<Rightarrow> FabricSnapshot" where
  "prepared b = assemble b (sort_key node_id (b_nodes b)) (sort_key edge_id (b_edges b))
     (sort_key ep_id (b_endpoints b)) (map normalised (b_failure_domains b))"

definition encoding_ceiling :: "FabricSnapshotBuilder \<Rightarrow> nat" where
  "encoding_ceiling b = 1024 + (length (b_nodes b) + length (b_edges b) + length (b_endpoints b) +
     length (b_link_states b) + length (b_port_states b) + length (b_capabilities b) + length (b_failure_domains b)) * 128"

lemma publishes_sort [simp]: "publishes (sort_key f ns) x p = publishes ns x p"
  by (simp add: publishes_def)

lemma node_lookup_publishes_iff:
  assumes "sorted_wrt (<) (map node_id nodes)" "\<forall>n \<in> set nodes. node_ok n"
  shows "publishes nodes x p \<longleftrightarrow> (\<exists>n. node_lookup nodes x = Some n \<and> binary_search (node_ports n) p)"
proof
  assume "publishes nodes x p"
  then obtain n where n: "n \<in> set nodes" "node_id n = x" "p \<in> set (node_ports n)" by (auto simp: publishes_def)
  moreover have "sorted (node_ports n)" using assms(2) n(1) by (auto simp: node_ok_def strict_sorted_iff)
  ultimately show "\<exists>n. node_lookup nodes x = Some n \<and> binary_search (node_ports n) p"
    using node_lookup_iff [OF assms(1), of x n] by auto
qed (use node_lookup_publishes [OF assms] in blast)

lemma check_edges_iff:
  assumes "sorted_wrt (<) (map node_id nodes)" "\<forall>n \<in> set nodes. node_ok n"
  shows "check_edges nodes es = None \<longleftrightarrow>
    (\<forall>e \<in> set es. publishes nodes (edge_from e) (edge_from_port e) \<and> publishes nodes (edge_to e) (edge_to_port e))"
  by (induction es) (auto simp: node_lookup_publishes_iff [OF assms] split: option.splits)

lemma check_endpoints_iff:
  assumes "sorted_wrt (<) (map node_id nodes)" "\<forall>n \<in> set nodes. node_ok n"
  shows "check_endpoints nodes es = None \<longleftrightarrow> (\<forall>e \<in> set es. publishes nodes (ep_node e) (ep_port e))"
  by (induction es) (auto simp: node_lookup_publishes_iff [OF assms] split: option.splits)

lemma normalise_domains_eq:
  "normalise_domains limit rs = Inr ds \<longleftrightarrow>
     (\<forall>r \<in> set rs. FixedId_IsValid (fd_domain r) \<and> length (fd_members r) \<le> limit) \<and> ds = map normalised rs"
proof (induction rs arbitrary: ds)
  case (Cons r rs)
  then show ?case
    by (cases "normalise_domains limit rs") (auto simp: Exceeds_def normalised_def)
qed auto

lemma Build_seal:
  assumes "builder_ok b" "coherent_input b"
  shows "Build b = seal (encoding_ceiling b) (prepared b)"
proof -
  let ?ns = "sort_key node_id (b_nodes b)"
  have ok: "\<forall>n \<in> set ?ns. node_ok n" using assms(1) by (simp add: builder_ok_def list_all_iff)
  have c: "distinct (map node_id (b_nodes b))" "distinct (map edge_id (b_edges b))" "distinct (map ep_id (b_endpoints b))"
    "ValidateLimits (b_limits b) = None" "check_views b = None"
    using assms(2) by (simp_all add: coherent_input_def)
  have str: "sorted_wrt (<) (map node_id ?ns)"
    using c(1) IsSortedUnique_sort [of node_id "b_nodes b"] by (simp del: IsSortedUnique_sort)
  have "check_edges ?ns (sort_key edge_id (b_edges b)) = None"
    "check_endpoints ?ns (sort_key ep_id (b_endpoints b)) = None"
    using assms(2) by (simp_all add: check_edges_iff [OF str ok] check_endpoints_iff [OF str ok] coherent_input_def)
  moreover have "normalise_domains (max_members_per_failure_domain (b_limits b)) (b_failure_domains b) =
      Inr (map normalised (b_failure_domains b))"
    using assms(2) by (simp add: normalise_domains_eq coherent_input_def)
  ultimately show ?thesis
    using c by (simp add: Build_def prepared_def encoding_ceiling_def Let_def del: IsSortedUnique_iff)
qed

lemma Build_coherent:
  assumes "builder_ok b" "Build b = Inr s"
  shows "coherent_input b"
proof -
  let ?ns = "sort_key node_id (b_nodes b)"
  have ok: "\<forall>n \<in> set ?ns. node_ok n" using assms(1) by (simp add: builder_ok_def list_all_iff)
  have c: "distinct (map node_id (b_nodes b))" "distinct (map edge_id (b_edges b))" "distinct (map ep_id (b_endpoints b))"
    "ValidateLimits (b_limits b) = None" "check_views b = None" "check_edges ?ns (sort_key edge_id (b_edges b)) = None"
    "check_endpoints ?ns (sort_key ep_id (b_endpoints b)) = None"
    "\<exists>ds. normalise_domains (max_members_per_failure_domain (b_limits b)) (b_failure_domains b) = Inr ds"
    using assms(2) by (auto simp: Build_def Let_def simp del: IsSortedUnique_iff split: option.splits sum.splits if_splits)
  have str: "sorted_wrt (<) (map node_id ?ns)"
    using c(1) IsSortedUnique_sort [of node_id "b_nodes b"] by (simp del: IsSortedUnique_sort)
  show ?thesis
    using c by (simp add: coherent_input_def check_edges_iff [OF str ok] check_endpoints_iff [OF str ok] normalise_domains_eq)
qed

lemma seal_InrD: "seal c s = Inr s' \<Longrightarrow> \<exists>d. s' = s\<lparr>snap_digest := d\<rparr> \<and> \<not> IsZero d"
  by (auto simp: seal_def Let_def split: if_splits)

lemma prepared_wf:
  assumes "builder_ok b" "coherent_input b"
  shows "snapshot_wf (prepared b\<lparr>snap_digest := d\<rparr>)"
  using assms IsSortedUnique_sort [of node_id "b_nodes b"] IsSortedUnique_sort [of edge_id "b_edges b"]
    IsSortedUnique_sort [of ep_id "b_endpoints b"]
  by (simp add: snapshot_wf_def prepared_def assemble_def coherent_input_def builder_ok_def list_all_iff
      del: IsSortedUnique_sort)

section \<open>Properties\<close>

text \<open>
  C35. Whatever calls a client makes on a builder, in whatever order: \<open>Build\<close> returns a snapshot
  exactly when the limits are coherent, no node, link or endpoint identity is repeated, both ends of
  every link and every endpoint are published nodes with published ports, the view checks pass, the
  failure domains are well formed, and the canonical encoding of the prepared snapshot fits its
  ceiling with a non-zero digest (\<open>seal\<close>).  The snapshot then is coherent: nodes, links and endpoints strictly sorted by identity,
  identifiers non-nil, no self loops, relationships matching layers, references resolved, node and
  link limits respected.
\<close>

theorem Build_exact:
  "let b = fold builder_step ops (FabricSnapshotBuilder_new limits) in
   (if coherent_input b then Build b = seal (encoding_ceiling b) (prepared b) else isl (Build b)) \<and>
   (case Build b of
      Inl e \<Rightarrow> True
    | Inr s \<Rightarrow> snapshot_wf s \<and> ValidateLimits (snap_limits s) = None \<and> \<not> IsZero (snap_digest s))"
proof -
  define b where "b = fold builder_step ops (FabricSnapshotBuilder_new limits)"
  have ok: "builder_ok b" unfolding b_def by (rule builder_ok_fold [OF builder_ok_new])
  have "snapshot_wf s \<and> ValidateLimits (snap_limits s) = None \<and> \<not> IsZero (snap_digest s)" if s: "Build b = Inr s" for s
  proof -
    have c: "coherent_input b" using ok s by (rule Build_coherent)
    from seal_InrD [of "encoding_ceiling b" "prepared b" s] Build_seal [OF ok c] s
    obtain d where "s = prepared b\<lparr>snap_digest := d\<rparr>" "\<not> IsZero d" by auto
    with prepared_wf [OF ok c] c show ?thesis by (simp add: coherent_input_def prepared_def assemble_def)
  qed
  moreover have "isl (Build b)" if "\<not> coherent_input b"
    using that Build_coherent [OF ok] by (cases "Build b") auto
  ultimately show ?thesis
    unfolding b_def [symmetric] Let_def using Build_seal [OF ok] by (auto split: sum.splits)
qed

text \<open>
  The currentness of old evidence against new evidence is decided by the most severe generation
  that differs: epoch first, then topology, link state, ports, capabilities, failure domains and
  policy; it is \<open>CURRENT\<close> exactly when these seven agree.  The constraint generation, the snapshot
  identity, the source and the publish sequence are not looked at.
\<close>

theorem ClassifyEvidence_priority:
  "ClassifyEvidence p c =
    (let a = ev_generations p; b = ev_generations c in
     if gen_epoch a \<noteq> gen_epoch b then Cur_kStaleEpoch
     else if gen_topology a \<noteq> gen_topology b then Cur_kStaleTopology
     else if gen_link_state a \<noteq> gen_link_state b then Cur_kStaleLinkState
     else if gen_ports a \<noteq> gen_ports b then Cur_kStalePortState
     else if gen_capabilities a \<noteq> gen_capabilities b then Cur_kStaleCapability
     else if gen_failure_domains a \<noteq> gen_failure_domains b then Cur_kStaleFailureDomain
     else if gen_policy a \<noteq> gen_policy b then Cur_kStalePolicy
     else Cur_kCurrent)"
  by (simp add: ClassifyEvidence_def Let_def MoreSevere_def)

text \<open>
  The views answer from the published records alone: when a link (port, subject and capability)
  is published at most once its published state (value) is returned, when it is not published the
  state is UNKNOWN and the capability has no value; nothing is inferred.
\<close>

theorem views_exact:
  assumes "distinct (map ls_link ls)" "distinct (map ps_port ps)" "distinct (map cap_key cs)"
  shows "(LinkStateView_StateOf (LinkStateView_new ls) l = st \<longleftrightarrow>
      (\<exists>r \<in> set ls. ls_link r = l \<and> ls_state r = st) \<or> (l \<notin> ls_link ` set ls \<and> st = Link_kUnknown)) \<and>
    (PortStateView_StateOf (PortStateView_new ps) p = pt \<longleftrightarrow>
      (\<exists>r \<in> set ps. ps_port r = p \<and> ps_state r = pt) \<or> (p \<notin> ps_port ` set ps \<and> pt = Port_kUnknown)) \<and>
    (CapabilityView_Lookup (CapabilityView_new cs) s k = Some v \<longleftrightarrow>
      (\<exists>r \<in> set cs. cap_subject r = s \<and> cap_capability r = k \<and> cap_value r = v))"
proof (intro conjI)
  show "LinkStateView_StateOf (LinkStateView_new ls) l = st \<longleftrightarrow>
      (\<exists>r \<in> set ls. ls_link r = l \<and> ls_state r = st) \<or> (l \<notin> ls_link ` set ls \<and> st = Link_kUnknown)"
    unfolding LinkStateView_StateOf_def
    by (rule view_state_iff [OF link_states.find_None link_states.find_sound link_states.find_complete [OF assms(1)]])
  show "PortStateView_StateOf (PortStateView_new ps) p = pt \<longleftrightarrow>
      (\<exists>r \<in> set ps. ps_port r = p \<and> ps_state r = pt) \<or> (p \<notin> ps_port ` set ps \<and> pt = Port_kUnknown)"
    unfolding PortStateView_StateOf_def
    by (rule view_state_iff [OF port_states.find_None port_states.find_sound port_states.find_complete [OF assms(2)]])
  show "CapabilityView_Lookup (CapabilityView_new cs) s k = Some v \<longleftrightarrow>
      (\<exists>r \<in> set cs. cap_subject r = s \<and> cap_capability r = k \<and> cap_value r = v)"
  proof
    assume "CapabilityView_Lookup (CapabilityView_new cs) s k = Some v"
    then show "\<exists>r \<in> set cs. cap_subject r = s \<and> cap_capability r = k \<and> cap_value r = v"
      using bindings.find_sound [of cs "(s, k)"] by (auto simp: CapabilityView_Lookup_def cap_key_def)
  next
    assume "\<exists>r \<in> set cs. cap_subject r = s \<and> cap_capability r = k \<and> cap_value r = v"
    then obtain r where "r \<in> set cs" "cap_key r = (s, k)" "cap_value r = v" by (auto simp: cap_key_def)
    with bindings.find_complete [OF assms(3), of r] show "CapabilityView_Lookup (CapabilityView_new cs) s k = Some v"
      by (simp add: CapabilityView_Lookup_def)
  qed
qed

theorem views_exact_witness:
  "LinkStateView_StateOf (LinkStateView_new
     [\<lparr>ls_link = FixedId [2], ls_state = Link_kDown\<rparr>, \<lparr>ls_link = FixedId [1], ls_state = Link_kUp\<rparr>]) (FixedId [2]) = Link_kDown"
  using views_exact [of "[\<lparr>ls_link = FixedId [2], ls_state = Link_kDown\<rparr>, \<lparr>ls_link = FixedId [1], ls_state = Link_kUp\<rparr>]"
      "[]" "[]" "FixedId [2]" Link_kDown]
  by simp

text \<open>
  Failure-domain membership of a subject is exactly the set of published domains that list it,
  each once and in ascending order; it is known when a domain lists the subject or the registry
  declared its membership complete.
\<close>

theorem MembershipOf_exact:
  "set (mem_domains (MembershipOf (FailureDomainView_new rs complete) s)) =
     {fd_domain r | r. r \<in> set rs \<and> s \<in> set (fd_members r)} \<and>
   sorted_wrt (<) (mem_domains (MembershipOf (FailureDomainView_new rs complete) s)) \<and>
   (mem_known (MembershipOf (FailureDomainView_new rs complete) s) \<longleftrightarrow>
      complete \<or> (\<exists>r \<in> set rs. s \<in> set (fd_members r)))"
  using MembershipOf_spec [of rs complete s] by blast

text \<open>
  The duplicate test on the published link states is made on neighbours in the caller's order:
  two conflicting records for one link are accepted when another record stands between them.
\<close>

theorem check_views_misses_duplicates:
  "check_views ((FabricSnapshotBuilder_new ResourceLimits_default)\<lparr>b_link_states :=
     [\<lparr>ls_link = FixedId [1], ls_state = Link_kUp\<rparr>, \<lparr>ls_link = FixedId [2], ls_state = Link_kUp\<rparr>,
      \<lparr>ls_link = FixedId [1], ls_state = Link_kDown\<rparr>]\<rparr>) = None"
  by (simp add: check_views_def FabricSnapshotBuilder_new_def ResourceLimits_default_def Exceeds_def)

end
