(* ===== verification/Path.thy ===== *)
theory Path
  imports Graph "HOL-Library.List_Lexorder"
begin

text \<open>
  Paths, their cost and their canonical order (\<open>include/pathplanner/path.hpp\<close>, \<open>src/path.cpp\<close>):
  well-formedness and simplicity tests, the canonical encoding and identity, checked cost
  accumulation, and the ranking comparator.
\<close>

section \<open>Paths\<close>

record PathHop =
  hop_link :: LinkId
  hop_from :: NodeId
  hop_to :: NodeId
  hop_from_port :: PortId
  hop_to_port :: PortId
  hop_layer :: PathLayer
  hop_relationship :: RelationshipType
  hop_structural_generation :: Generation
  hop_static_cost :: StaticCost
  hop_link_state :: LinkState
  hop_degraded :: bool

record CandidatePath =
  path_source :: NodeId
  path_destination :: NodeId
  path_layer :: PathLayer
  path_nodes :: "NodeId list"
  path_hops :: "PathHop list"

definition IsWellFormed :: "CandidatePath \<Rightarrow> bool" where
  "IsWellFormed p =
     (if \<not> FixedId_IsValid (path_source p) \<or> \<not> FixedId_IsValid (path_destination p) then False
      else if length (path_nodes p) \<noteq> length (path_hops p) + 1 then False
      else if path_nodes p = [] then False
      else if hd (path_nodes p) \<noteq> path_source p \<or> last (path_nodes p) \<noteq> path_destination p then False
      else list_all (\<lambda>i. let h = path_hops p ! i in
             hop_from h = path_nodes p ! i \<and> hop_to h = path_nodes p ! (i + 1) \<and> hop_layer h = path_layer p \<and>
             FixedId_IsValid (hop_link h) \<and> FixedId_IsValid (hop_from_port h) \<and> FixedId_IsValid (hop_to_port h))
           [0..<length (path_hops p)])"

definition IsSimple :: "CandidatePath \<Rightarrow> bool" where
  "IsSimple p = (if length (path_nodes p) < 2 then True else \<not> adjacent_find (sort (path_nodes p)))"

definition encode_hop :: "PathHop \<Rightarrow> ByteWriter \<Rightarrow> ByteWriter" where
  "encode_hop h w =
     (let w = write_FixedBytes (id_bytes (hop_link h)) w;
          w = write_FixedBytes (id_bytes (hop_from h)) w;
          w = write_FixedBytes (id_bytes (hop_to h)) w;
          w = write_FixedBytes (id_bytes (hop_from_port h)) w;
          w = write_FixedBytes (id_bytes (hop_to_port h)) w;
          w = write_U32 (of_nat (PathLayer_value (hop_layer h))) w;
          w = write_U32 (of_nat (RelationshipType_value (hop_relationship h))) w;
          w = write_U64 (hop_structural_generation h) w
      in write_U32 (hop_static_cost h) w)"

definition CandidatePath_Encode :: "CandidatePath \<Rightarrow> ByteWriter \<Rightarrow> ByteWriter" where
  "CandidatePath_Encode p w =
     (let w = write_U32 kPathEncodingVersion w;
          w = write_FixedBytes (id_bytes (path_source p)) w;
          w = write_FixedBytes (id_bytes (path_destination p)) w;
          w = write_U32 (of_nat (PathLayer_value (path_layer p))) w;
          w = write_VarU64 (of_nat (length (path_hops p))) w
      in fold encode_hop (path_hops p) w)"

definition CandidatePath_Digest :: "CandidatePath \<Rightarrow> Sha256Digest" where
  "CandidatePath_Digest p =
     (let ceiling = 256 + length (path_hops p) * 128;
          w = CandidatePath_Encode p (ByteWriter_new ceiling)
      in if bw_overflowed w then replicate 32 0 else Sha256_Hash (bw_data w))"

definition CandidatePath_Id :: "CandidatePath \<Rightarrow> CandidatePathId" where
  "CandidatePath_Id p =
     (let digest = CandidatePath_Digest p
      in if IsZero digest then FixedId (replicate 16 0) else FixedId_FromDigest 16 digest)"

fun render_nodes :: "NodeId list \<Rightarrow> string" where
  "render_nodes [] = []"
| "render_nodes [n] = FixedId_ToString n"
| "render_nodes (n # ns) = FixedId_ToString n @ '' -> '' @ render_nodes ns"

definition CandidatePath_Render :: "CandidatePath \<Rightarrow> string" where
  "CandidatePath_Render p = render_nodes (path_nodes p)"

definition CandidatePath_RenderHops :: "CandidatePath \<Rightarrow> string" where
  "CandidatePath_RenderHops p =
     (let out = concat (map (\<lambda>h. FixedId_ToString (hop_link h) @ '':'' @ FixedId_ToString (hop_from h) @ ''->'' @
            FixedId_ToString (hop_to h) @ '' '') (path_hops p))
      in if out \<noteq> [] then butlast out else out)"

section \<open>Costs\<close>

record CostModel =
  hop_cost :: CostValue
  degraded_penalty :: CostValue
  locality_penalty :: CostValue

record PathCost =
  cost_hops_cost :: CostValue
  cost_static :: CostValue
  cost_degraded :: CostValue
  cost_locality :: CostValue
  cost_total :: CostValue
  cost_hops :: u32
  cost_degraded_hops :: u32
  cost_locality_breaches :: u32

record HopCostInput =
  hc_static :: StaticCost
  hc_degraded :: bool
  hc_outside :: bool

text \<open>The loop over the hops: the checked static sum and the two 64-bit counters.\<close>

fun accumulate_hops :: "HopCostInput list \<Rightarrow> CostValue \<Rightarrow> u64 \<Rightarrow> u64 \<Rightarrow> (CostValue \<times> u64 \<times> u64) option" where
  "accumulate_hops [] static degraded breaches = Some (static, degraded, breaches)"
| "accumulate_hops (h # hs) static degraded breaches =
     (case CostAdd static (ucast (hc_static h)) of
        None \<Rightarrow> None
      | Some acc \<Rightarrow> accumulate_hops hs acc (if hc_degraded h then degraded + 1 else degraded)
          (if hc_outside h then breaches + 1 else breaches))"

definition AccumulatePathCost :: "HopCostInput list \<Rightarrow> CostModel \<Rightarrow> PathCost option" where
  "AccumulatePathCost hops model =
     (if length hops > unat kMaxHopCount then None
      else Option.bind (CheckedMul CostValue_Max (hop_cost model) (of_nat (length hops))) (\<lambda>hops_cost.
        Option.bind (accumulate_hops hops 0 0 0) (\<lambda>(static, degraded_hops, locality_breaches).
        Option.bind (CheckedMul CostValue_Max (degraded_penalty model) degraded_hops) (\<lambda>degraded.
        Option.bind (CheckedMul CostValue_Max (locality_penalty model) locality_breaches) (\<lambda>locality.
        Option.bind (CostAdd 0 hops_cost) (\<lambda>total.
        Option.bind (CostAdd total static) (\<lambda>total.
        Option.bind (CostAdd total degraded) (\<lambda>total.
        Option.bind (CostAdd total locality) (\<lambda>total.
          Some \<lparr>cost_hops_cost = hops_cost, cost_static = static, cost_degraded = degraded,
                cost_locality = locality, cost_total = total, cost_hops = of_nat (length hops),
                cost_degraded_hops = ucast degraded_hops,
                cost_locality_breaches = ucast locality_breaches\<rparr>)))))))))"

section \<open>Candidates and their order\<close>

record CandidateProvenance =
  prov_planning_generation :: u64
  prov_constraint_set :: ConstraintSetId
  prov_constraint_generation :: Generation
  prov_policy_generation :: Generation
  prov_source :: EvidenceSource
  prov_planning_rule_version :: u32
  prov_path_encoding_version :: u32

record Candidate =
  cand_id :: CandidatePathId
  cand_path :: CandidatePath
  cand_cost :: PathCost
  cand_rank :: u32
  cand_evidence :: EvidenceVector
  cand_provenance :: CandidateProvenance
  cand_authority :: AuthorityValidation
  cand_currentness :: Currentness
  cand_notes :: "DiagnosticCode list"

datatype strong_ordering = SO_less | SO_equal | SO_greater

text \<open>The comparison loop over two sequences: the first difference decides, then the sizes.\<close>

fun compare_sequences :: "'a::linorder list \<Rightarrow> 'a list \<Rightarrow> strong_ordering" where
  "compare_sequences [] [] = SO_equal"
| "compare_sequences [] (y # ys) = SO_less"
| "compare_sequences (x # xs) [] = SO_greater"
| "compare_sequences (x # xs) (y # ys) =
     (if x \<noteq> y then (if x < y then SO_less else SO_greater) else compare_sequences xs ys)"

definition CompareCanonicalPaths :: "CandidatePath \<Rightarrow> CandidatePath \<Rightarrow> strong_ordering" where
  "CompareCanonicalPaths l r =
     (case compare_sequences (path_nodes l) (path_nodes r) of
        SO_equal \<Rightarrow> compare_sequences (map hop_link (path_hops l)) (map hop_link (path_hops r))
      | c \<Rightarrow> c)"

definition RanksBefore :: "Candidate \<Rightarrow> Candidate \<Rightarrow> bool" where
  "RanksBefore l r =
     (if cost_total (cand_cost l) \<noteq> cost_total (cand_cost r)
      then cost_total (cand_cost l) < cost_total (cand_cost r)
      else if cost_hops (cand_cost l) \<noteq> cost_hops (cand_cost r)
      then cost_hops (cand_cost l) < cost_hops (cand_cost r)
      else CompareCanonicalPaths (cand_path l) (cand_path r) = SO_less)"

section \<open>Well-formed and simple paths\<close>

lemma IsSimple_iff: "IsSimple p \<longleftrightarrow> distinct (path_nodes p)"
proof (cases "length (path_nodes p) < 2")
  case True
  then have "path_nodes p = [] \<or> (\<exists>n. path_nodes p = [n])" by (cases "path_nodes p") auto
  with True show ?thesis by (auto simp: IsSimple_def)
qed (simp add: IsSimple_def)

text \<open>A walk: every hop continues from the previous node.\<close>

fun walk :: "PathHop list \<Rightarrow> NodeId list \<Rightarrow> bool" where
  "walk [] [n] = True"
| "walk (h # hs) (n # m # ns) = (hop_from h = n \<and> hop_to h = m \<and> walk hs (m # ns))"
| "walk _ _ = False"

lemma walk_iff_nth:
  "walk hs ns \<longleftrightarrow> length ns = length hs + 1 \<and>
     (\<forall>i < length hs. hop_from (hs ! i) = ns ! i \<and> hop_to (hs ! i) = ns ! (i + 1))"
  by (induction hs ns rule: walk.induct) (auto simp: nth_Cons' less_Suc_eq_0_disj)

lemma IsWellFormed_iff:
  "IsWellFormed p \<longleftrightarrow> FixedId_IsValid (path_source p) \<and> FixedId_IsValid (path_destination p) \<and>
     walk (path_hops p) (path_nodes p) \<and> hd (path_nodes p) = path_source p \<and>
     last (path_nodes p) = path_destination p \<and>
     (\<forall>h \<in> set (path_hops p). hop_layer h = path_layer p \<and> FixedId_IsValid (hop_link h) \<and>
        FixedId_IsValid (hop_from_port h) \<and> FixedId_IsValid (hop_to_port h))"
  by (auto simp: IsWellFormed_def walk_iff_nth list_all_iff Let_def all_set_conv_all_nth)

section \<open>Cost accumulation is exact\<close>

definition static_sum :: "HopCostInput list \<Rightarrow> nat" where
  "static_sum hs = sum_list (map (\<lambda>h. unat (hc_static h)) hs)"

definition degraded_count :: "HopCostInput list \<Rightarrow> nat" where
  "degraded_count hs = length (filter hc_degraded hs)"

definition breach_count :: "HopCostInput list \<Rightarrow> nat" where
  "breach_count hs = length (filter hc_outside hs)"

definition total_cost :: "HopCostInput list \<Rightarrow> CostModel \<Rightarrow> nat" where
  "total_cost hs m = length hs * unat (hop_cost m) + static_sum hs + degraded_count hs * unat (degraded_penalty m) +
     breach_count hs * unat (locality_penalty m)"

lemma unat_ucast_u64: "unat (ucast (x :: u32) :: u64) = unat x"
proof -
  have "unat x < 2 ^ 64" using unsigned_less [of x, where 'a = nat] by simp
  then show ?thesis by (simp add: unsigned_ucast_eq take_bit_nat_eq_self)
qed

lemma accumulate_hops_eq:
  "accumulate_hops hs s d b =
    (if unat s + static_sum hs < 2 ^ 64
     then Some (s + of_nat (static_sum hs), d + of_nat (degraded_count hs), b + of_nat (breach_count hs)) else None)"
proof (induction hs arbitrary: s d b)
  case Nil
  then show ?case using unsigned_less [of s, where 'a = nat] by (simp add: static_sum_def degraded_count_def breach_count_def)
next
  case (Cons h hs)
  note u = unat_ucast_u64 [of "hc_static h"]
  show ?case
  proof (cases "CostAdd s (ucast (hc_static h))")
    case None
    moreover have "2 ^ 64 \<le> unat s + static_sum (h # hs)"
      using None by (simp add: CostAdd_eq_None u static_sum_def)
    ultimately show ?thesis by simp
  next
    case (Some s')
    from CostAdd_SomeD [OF Some] have s': "unat s' = unat s + unat (hc_static h)" by (simp add: u)
    then have "of_nat (unat s') = (of_nat (unat s + unat (hc_static h)) :: u64)" by simp
    then have "s' = s + of_nat (unat (hc_static h))" by simp
    with s' Some show ?thesis
      by (simp add: Cons.IH static_sum_def degraded_count_def breach_count_def add.assoc)
  qed
qed

text \<open>Checked arithmetic on the unbounded values.\<close>

definition checked :: "nat \<Rightarrow> CostValue option" where
  "checked n = (if n < 2 ^ 64 then Some (of_nat n) else None)"

lemma CheckedMul_checked: "n < 2 ^ 64 \<Longrightarrow> CheckedMul CostValue_Max a (of_nat n) = checked (unat a * n)"
  by (auto simp: CheckedMul_eq unat_CostValue_Max checked_def unat_of_nat_less)

lemma CostAdd_checked: "x < 2 ^ 64 \<Longrightarrow> y < 2 ^ 64 \<Longrightarrow> CostAdd (of_nat x) (of_nat y) = checked (x + y)"
  by (auto simp: CheckedAdd_eq unat_CostValue_Max checked_def unat_of_nat_less)

lemma ucast_of_nat_u32: "n < 2 ^ 64 \<Longrightarrow> (ucast (of_nat n :: u64) :: u32) = of_nat n"
  by (simp add: unsigned_of_nat take_bit_nat_eq_self)

text \<open>Each component is at most the total, so the total decides.\<close>

lemma AccumulatePathCost_eq:
  assumes "length hs \<le> 65535"
  shows "AccumulatePathCost hs m =
    (if total_cost hs m < 2 ^ 64 then
       Some \<lparr>cost_hops_cost = of_nat (length hs * unat (hop_cost m)), cost_static = of_nat (static_sum hs),
         cost_degraded = of_nat (degraded_count hs * unat (degraded_penalty m)),
         cost_locality = of_nat (breach_count hs * unat (locality_penalty m)),
         cost_total = of_nat (total_cost hs m), cost_hops = of_nat (length hs),
         cost_degraded_hops = of_nat (degraded_count hs), cost_locality_breaches = of_nat (breach_count hs)\<rparr>
     else None)"
proof -
  have "degraded_count hs \<le> length hs" "breach_count hs \<le> length hs"
    by (simp_all add: degraded_count_def breach_count_def)
  then have n: "length hs < 2 ^ 64" "degraded_count hs < 2 ^ 64" "breach_count hs < 2 ^ 64"
    using assms by simp_all
  define a where "a = length hs * unat (hop_cost m)"
  define b where "b = static_sum hs"
  define c where "c = degraded_count hs * unat (degraded_penalty m)"
  define d where "d = breach_count hs * unat (locality_penalty m)"
  have tot: "total_cost hs m = a + b + c + d" by (simp add: total_cost_def a_def b_def c_def d_def)
  have mul: "CheckedMul CostValue_Max (hop_cost m) (of_nat (length hs)) = checked a"
    "CheckedMul CostValue_Max (degraded_penalty m) (of_nat (degraded_count hs)) = checked c"
    "CheckedMul CostValue_Max (locality_penalty m) (of_nat (breach_count hs)) = checked d"
    using n by (simp_all add: CheckedMul_checked a_def c_def d_def mult.commute)
  have acc: "accumulate_hops hs 0 0 0 =
      (if b < 2 ^ 64 then Some (of_nat b, of_nat (degraded_count hs), of_nat (breach_count hs)) else None)"
    by (simp add: accumulate_hops_eq b_def)
  have add: "CostAdd (of_nat x) (of_nat y) = checked (x + y)" if "x < 2 ^ 64" "y < 2 ^ 64" for x y
    using that by (rule CostAdd_checked)
  have guard: "\<not> length hs > unat kMaxHopCount" using assms by (simp add: kMaxHopCount_def)
  show ?thesis
    unfolding tot a_def [symmetric] b_def [symmetric] c_def [symmetric] d_def [symmetric]
  proof (cases "a < 2 ^ 64 \<and> b < 2 ^ 64 \<and> c < 2 ^ 64 \<and> d < 2 ^ 64")
    case True
    then have "CostAdd 0 (of_nat a) = checked a" using add [of 0 a] by simp
    moreover have "CostAdd (of_nat a) (of_nat b) = checked (a + b)" using add True by blast
    moreover have "CostAdd (of_nat (a + b)) (of_nat c) = checked (a + b + c)" if "a + b < 2 ^ 64"
      using add [OF that] True by blast
    moreover have "CostAdd (of_nat (a + b + c)) (of_nat d) = checked (a + b + c + d)" if "a + b + c < 2 ^ 64"
      using add [OF that] True by blast
    ultimately show "AccumulatePathCost hs m = (if a + b + c + d < 2 ^ 64 then
       Some \<lparr>cost_hops_cost = of_nat a, cost_static = of_nat b, cost_degraded = of_nat c, cost_locality = of_nat d,
         cost_total = of_nat (a + b + c + d), cost_hops = of_nat (length hs),
         cost_degraded_hops = of_nat (degraded_count hs), cost_locality_breaches = of_nat (breach_count hs)\<rparr> else None)"
      using True guard n
      by (auto simp: AccumulatePathCost_def mul acc checked_def ucast_of_nat_u32 simp del: of_nat_add of_nat_mult)
  next
    case False
    then have "\<not> a + b + c + d < 2 ^ 64" by linarith
    moreover have "AccumulatePathCost hs m = None"
      using False guard by (auto simp: AccumulatePathCost_def mul acc checked_def bind_eq_None_conv split: if_splits)
    ultimately show "AccumulatePathCost hs m = (if a + b + c + d < 2 ^ 64 then
       Some \<lparr>cost_hops_cost = of_nat a, cost_static = of_nat b, cost_degraded = of_nat c, cost_locality = of_nat d,
         cost_total = of_nat (a + b + c + d), cost_hops = of_nat (length hs),
         cost_degraded_hops = of_nat (degraded_count hs), cost_locality_breaches = of_nat (breach_count hs)\<rparr> else None)"
      by simp
  qed
qed

section \<open>The canonical order\<close>

lemma compare_sequences_less: "compare_sequences xs ys = SO_less \<longleftrightarrow> xs < ys"
  by (induction xs ys rule: compare_sequences.induct) auto

lemma compare_sequences_equal: "compare_sequences xs ys = SO_equal \<longleftrightarrow> xs = ys"
  by (induction xs ys rule: compare_sequences.induct) auto

definition rank_key :: "Candidate \<Rightarrow> CostValue \<times> u32 \<times> NodeId list \<times> LinkId list" where
  "rank_key c = (cost_total (cand_cost c), cost_hops (cand_cost c), path_nodes (cand_path c),
     map hop_link (path_hops (cand_path c)))"

lemma RanksBefore_key: "RanksBefore l r \<longleftrightarrow> rank_key l < rank_key r"
proof -
  have "CompareCanonicalPaths p q = SO_less \<longleftrightarrow>
      path_nodes p < path_nodes q \<or> path_nodes p = path_nodes q \<and> map hop_link (path_hops p) < map hop_link (path_hops q)"
    for p q
    using compare_sequences_less [of "path_nodes p" "path_nodes q"]
      compare_sequences_equal [of "path_nodes p" "path_nodes q"]
      compare_sequences_less [of "map hop_link (path_hops p)" "map hop_link (path_hops q)"]
    by (cases "compare_sequences (path_nodes p) (path_nodes q)") (auto simp: CompareCanonicalPaths_def)
  then show ?thesis
    by (auto simp: RanksBefore_def rank_key_def less_prod_def)
qed

section \<open>The canonical encoding\<close>

definition enc_hop :: "PathHop \<Rightarrow> bytes" where
  "enc_hop h = id_bytes (hop_link h) @ id_bytes (hop_from h) @ id_bytes (hop_to h) @ id_bytes (hop_from_port h) @
     id_bytes (hop_to_port h) @ le_bytes 4 (of_nat (PathLayer_value (hop_layer h)) :: u32) @
     le_bytes 4 (of_nat (RelationshipType_value (hop_relationship h)) :: u32) @
     le_bytes 8 (hop_structural_generation h) @ le_bytes 4 (hop_static_cost h)"

definition enc_path :: "CandidatePath \<Rightarrow> bytes" where
  "enc_path p = le_bytes 4 kPathEncodingVersion @ id_bytes (path_source p) @ id_bytes (path_destination p) @
     le_bytes 4 (of_nat (PathLayer_value (path_layer p)) :: u32) @ enc_VarU64 (of_nat (length (path_hops p))) @
     concat (map enc_hop (path_hops p))"

lemma emits_encode_hop: "emits (encode_hop h) (enc_hop h)"
  unfolding encode_hop_def [abs_def] Let_def
  by (rule emits_eqI, (rule emits_then emits_id)+) (simp add: enc_hop_def)

lemma emits_CandidatePath_Encode: "emits (CandidatePath_Encode p) (enc_path p)"
  unfolding CandidatePath_Encode_def [abs_def] Let_def
  by (rule emits_eqI, (rule emits_then emits_then_fold emits_id emits_encode_hop)+) (simp add: enc_path_def)

text \<open>Identifiers have the width of their type, enumerators are those the source names.\<close>

definition layer_named :: "PathLayer \<Rightarrow> bool" where
  "layer_named l \<longleftrightarrow> l = Layer_kPhysical \<or> l = Layer_kLogical \<or> l = Layer_kOverlay \<or> l = Layer_kTunnel"

definition hop_ok :: "PathHop \<Rightarrow> bool" where
  "hop_ok h \<longleftrightarrow> id_ok 16 (hop_link h) \<and> id_ok 16 (hop_from h) \<and> id_ok 16 (hop_to h) \<and> id_ok 16 (hop_from_port h) \<and>
     id_ok 16 (hop_to_port h) \<and> layer_named (hop_layer h)"

definition path_ok :: "CandidatePath \<Rightarrow> bool" where
  "path_ok p \<longleftrightarrow> id_ok 16 (path_source p) \<and> id_ok 16 (path_destination p) \<and>
     layer_named (path_layer p) \<and> length (path_hops p) < 2 ^ 64 \<and>
     (\<forall>h \<in> set (path_hops p). hop_ok h)"

text \<open>What the encoding records of a hop: everything but the operational evidence.\<close>

definition hop_identity :: "PathHop \<Rightarrow> PathHop" where
  "hop_identity h = h\<lparr>hop_link_state := Link_kUnknown, hop_degraded := False\<rparr>"

lemma layer_value_inj:
  "layer_named a \<Longrightarrow> layer_named b \<Longrightarrow> (of_nat (PathLayer_value a) :: u32) = of_nat (PathLayer_value b) \<Longrightarrow> a = b"
  by (auto simp: layer_named_def)

lemma relationship_value_inj:
  "(of_nat (RelationshipType_value a) :: u32) = of_nat (RelationshipType_value b) \<Longrightarrow> a = b"
  by (cases a; cases b) simp_all

lemma id_prefix:
  "id_ok n x \<Longrightarrow> id_ok n y \<Longrightarrow> id_bytes x @ xs = id_bytes y @ ys \<longleftrightarrow> x = y \<and> xs = ys"
  by (auto simp: id_ok_def intro: FixedId.expand)

lemma enc_hop_prefix:
  assumes "hop_ok g" "hop_ok h" "enc_hop g @ xs = enc_hop h @ ys"
  shows "hop_identity g = hop_identity h \<and> xs = ys"
proof -
  have "le_bytes 4 (hop_static_cost g) @ xs = le_bytes 4 (hop_static_cost h) @ ys"
    "hop_link g = hop_link h" "hop_from g = hop_from h" "hop_to g = hop_to h" "hop_from_port g = hop_from_port h"
    "hop_to_port g = hop_to_port h" "hop_layer g = hop_layer h" "hop_relationship g = hop_relationship h"
    "hop_structural_generation g = hop_structural_generation h"
    using assms layer_value_inj [of "hop_layer g" "hop_layer h"] relationship_value_inj
    by (auto simp: enc_hop_def hop_ok_def enc_prefix_simps id_prefix [where n = 16])
  then show ?thesis by (auto simp: hop_identity_def enc_prefix_simps)
qed

lemma length_enc_hop: "hop_ok h \<Longrightarrow> length (enc_hop h) = 100"
  by (simp add: enc_hop_def hop_ok_def id_ok_def)

lemma length_concat_hops: "\<forall>h \<in> set hs. hop_ok h \<Longrightarrow> length (concat (map enc_hop hs)) = 100 * length hs"
  by (induction hs) (simp_all add: length_enc_hop)

lemma length_enc_path: "path_ok p \<Longrightarrow> length (enc_path p) \<le> 256 + length (path_hops p) * 128"
  using length_enc_VarU64 [of "of_nat (length (path_hops p))"]
  by (simp add: enc_path_def path_ok_def id_ok_def length_concat_hops)

lemma CandidatePath_Digest_eq: "path_ok p \<Longrightarrow> CandidatePath_Digest p = Sha256_Hash (enc_path p)"
  using emits_new [OF emits_CandidatePath_Encode [of p], of "256 + length (path_hops p) * 128"] length_enc_path [of p]
  by (simp add: CandidatePath_Digest_def Let_def)

section \<open>Properties\<close>

text \<open>
  The canonical path encoding identifies a path: two paths with the same encoded bytes have the
  same source, destination, layer and the same hops in the same order, up to the operational
  evidence that is not part of the encoding; and the encoding never exceeds the ceiling under which
  the digest is computed, so the digest is always the hash of the whole encoding.
\<close>

theorem path_encoding_injective:
  assumes "path_ok p" "path_ok q"
  shows "CandidatePath_Digest p = Sha256_Hash (enc_path p) \<and>
    (bw_data (CandidatePath_Encode p (ByteWriter_new (256 + length (path_hops p) * 128))) =
     bw_data (CandidatePath_Encode q (ByteWriter_new (256 + length (path_hops q) * 128))) \<longleftrightarrow>
     path_source p = path_source q \<and> path_destination p = path_destination q \<and> path_layer p = path_layer q \<and>
     map hop_identity (path_hops p) = map hop_identity (path_hops q))"
proof -
  have d: "bw_data (CandidatePath_Encode r (ByteWriter_new (256 + length (path_hops r) * 128))) = enc_path r"
    if "path_ok r" for r
    using emits_new(2) [OF emits_CandidatePath_Encode length_enc_path [OF that]] .
  have len: "unat (of_nat (length (path_hops r)) :: u64) = length (path_hops r)" if "path_ok r" for r
    using that by (simp add: path_ok_def unat_of_nat_less)
  have inj: "path_source p = path_source q \<and> path_destination p = path_destination q \<and> path_layer p = path_layer q \<and>
     map hop_identity (path_hops p) = map hop_identity (path_hops q)" if e: "enc_path p = enc_path q"
  proof -
    have e1: "path_source p = path_source q" "path_destination p = path_destination q" "path_layer p = path_layer q"
      "(of_nat (length (path_hops p)) :: u64) = of_nat (length (path_hops q))"
      "concat (map enc_hop (path_hops p)) @ [] = concat (map enc_hop (path_hops q)) @ []"
      using e assms layer_value_inj [of "path_layer p" "path_layer q"]
      by (auto simp: enc_path_def path_ok_def enc_prefix_simps id_prefix [where n = 16])
    then have "length (path_hops p) = length (path_hops q)" using len [OF assms(1)] len [OF assms(2)] by metis
    moreover have "set (path_hops p) \<subseteq> Collect hop_ok" "set (path_hops q) \<subseteq> Collect hop_ok"
      using assms by (auto simp: path_ok_def)
    ultimately have "map hop_identity (path_hops p) = map hop_identity (path_hops q)"
      using concat_map_inj [where A = "Collect hop_ok" and e = enc_hop and k = hop_identity, OF _ _ _ _ e1(5)] enc_hop_prefix
      by blast
    with e1(1-3) show ?thesis by blast
  qed
  have same: "enc_path p = enc_path q" if "path_source p = path_source q" "path_destination p = path_destination q"
    "path_layer p = path_layer q" "map hop_identity (path_hops p) = map hop_identity (path_hops q)"
  proof -
    have "enc_hop h = enc_hop (hop_identity h)" for h by (simp add: enc_hop_def hop_identity_def)
    then have "map enc_hop hs = map enc_hop (map hop_identity hs)" for hs by simp
    with that show ?thesis using map_eq_imp_length_eq [OF that(4)] by (metis enc_path_def)
  qed
  show ?thesis using d [OF assms(1)] d [OF assms(2)] inj same CandidatePath_Digest_eq [OF assms(1)] by auto
qed

definition sample_path :: CandidatePath where
  "sample_path = (let n = \<lambda>k. FixedId (replicate 15 0 @ [k]) in
     \<lparr>path_source = n 1, path_destination = n 1, path_layer = Layer_kPhysical, path_nodes = [n 1], path_hops = []\<rparr>)"

theorem path_encoding_injective_witness:
  "CandidatePath_Digest sample_path = Sha256_Hash (enc_path sample_path)"
  using path_encoding_injective [of sample_path sample_path]
  by (simp add: path_ok_def sample_path_def id_ok_def layer_named_def Let_def)

text \<open>
  C36. Path cost is exact: for a path within the hop bound, \<open>AccumulatePathCost\<close> returns a cost
  exactly when the true total fits 64 bits; then the total, the four components and the counters are
  the true sums, and otherwise nothing is returned.  No intermediate sum wraps.
\<close>

theorem AccumulatePathCost_exact:
  "case AccumulatePathCost hs m of
     None \<Rightarrow> length hs > 65535 \<or> 2 ^ 64 \<le> total_cost hs m
   | Some c \<Rightarrow> length hs \<le> 65535 \<and> unat (cost_total c) = total_cost hs m \<and>
       unat (cost_hops_cost c) = length hs * unat (hop_cost m) \<and> unat (cost_static c) = static_sum hs \<and>
       unat (cost_degraded c) = degraded_count hs * unat (degraded_penalty m) \<and>
       unat (cost_locality c) = breach_count hs * unat (locality_penalty m) \<and>
       unat (cost_hops c) = length hs"
proof (cases "length hs \<le> 65535")
  case False
  then show ?thesis by (simp add: AccumulatePathCost_def kMaxHopCount_def)
next
  case True
  then have "unat (of_nat (length hs) :: u32) = length hs" by (simp add: unat_of_nat_less)
  moreover have "unat (of_nat x :: u64) = x" if "x \<le> total_cost hs m" "total_cost hs m < 2 ^ 64" for x
    using that by (intro unat_of_nat_less) simp
  ultimately show ?thesis
    using True unfolding AccumulatePathCost_eq [OF True]
    by (simp add: total_cost_def del: of_nat_add of_nat_mult)
qed

text \<open>
  The ranking comparator is the strict lexicographic order on (total cost, hop count, node
  sequence, link sequence): it is irreflexive, transitive and total up to that key, so two
  candidates that are not ordered have the same cost, hop count, nodes and links.
\<close>

theorem RanksBefore_strict_order:
  "(RanksBefore a b \<longleftrightarrow> rank_key a < rank_key b) \<and> \<not> RanksBefore a a \<and>
   (RanksBefore a b \<or> RanksBefore b a \<or> rank_key a = rank_key b)"
  by (auto simp: RanksBefore_key)

end
