(* ===== verification/Request.thy ===== *)
theory Request
  imports Path
begin

text \<open>
  Planning requests and their validation (\<open>include/pathplanner/request.hpp\<close>, \<open>src/request.cpp\<close>).
  Enumerations that \<open>ValidateRequest\<close> checks against their name table have a constructor \<open>other\<close> for
  numeric values outside it.  A validation result is the first problem found, with its detail text.
\<close>

section \<open>The request\<close>

record EndpointRef =
  ref_id :: EndpointId
  ref_class :: EndpointClass
  ref_generation :: Generation

datatype CapabilityScope =
    CapScope_kEveryNode | CapScope_kEveryLink | CapScope_kEveryPort | CapScope_kSourceNode
  | CapScope_kDestinationNode | CapScope_other nat

fun CapabilityScope_value :: "CapabilityScope \<Rightarrow> nat" where
  "CapabilityScope_value CapScope_kEveryNode = 1"
| "CapabilityScope_value CapScope_kEveryLink = 2"
| "CapabilityScope_value CapScope_kEveryPort = 3"
| "CapabilityScope_value CapScope_kSourceNode = 4"
| "CapabilityScope_value CapScope_kDestinationNode = 5"
| "CapabilityScope_value (CapScope_other v) = v"

definition kCapabilityScopeNames :: "EnumEntry list" where
  "kCapabilityScopeNames = [(''EVERY_NODE'', 1), (''EVERY_LINK'', 2), (''EVERY_PORT'', 3), (''SOURCE_NODE'', 4),
     (''DESTINATION_NODE'', 5)]"

datatype CapabilityComparator = Cmp_kAtLeast | Cmp_kAtMost | Cmp_kEqual | Cmp_other nat

fun CapabilityComparator_value :: "CapabilityComparator \<Rightarrow> nat" where
  "CapabilityComparator_value Cmp_kAtLeast = 1"
| "CapabilityComparator_value Cmp_kAtMost = 2"
| "CapabilityComparator_value Cmp_kEqual = 3"
| "CapabilityComparator_value (Cmp_other v) = v"

definition kCapabilityComparatorNames :: "EnumEntry list" where
  "kCapabilityComparatorNames = [(''AT_LEAST'', 1), (''AT_MOST'', 2), (''EQUAL'', 3)]"

record CapabilityRequirement =
  req_capability :: CapabilityId
  req_scope :: CapabilityScope
  req_comparator :: CapabilityComparator
  req_value :: u64

definition SatisfiedBy :: "CapabilityRequirement \<Rightarrow> u64 \<Rightarrow> bool" where
  "SatisfiedBy r observed =
     (case req_comparator r of
        Cmp_kAtLeast \<Rightarrow> observed \<ge> req_value r
      | Cmp_kAtMost \<Rightarrow> observed \<le> req_value r
      | Cmp_kEqual \<Rightarrow> observed = req_value r
      | Cmp_other _ \<Rightarrow> False)"

datatype TransitKind = Transit_kExact | Transit_kAnyOf

record TransitStage =
  stage_kind :: TransitKind
  stage_alternatives :: "NodeId list"

record ConstraintSet =
  cs_id :: ConstraintSetId
  cs_generation :: Generation
  cs_layer :: PathLayer
  forbidden_nodes :: "NodeId list"
  forbidden_links :: "LinkId list"
  forbidden_ports :: "PortId list"
  forbidden_failure_domains :: "FailureDomainId list"
  forbidden_failure_domain_classes :: "FailureDomainClass list"
  required_transit :: "TransitStage list"
  required_capabilities :: "CapabilityRequirement list"
  cs_max_hops :: "u32 option"
  cs_max_members :: "nat option"
  fail_closed_on_unknown_domains :: bool

definition EntryCount :: "ConstraintSet \<Rightarrow> nat" where
  "EntryCount c = length (forbidden_nodes c) + length (forbidden_links c) + length (forbidden_ports c) +
     length (forbidden_failure_domains c) + length (forbidden_failure_domain_classes c) +
     length (required_transit c) + length (required_capabilities c)"

definition TransitAlternativeCount :: "ConstraintSet \<Rightarrow> nat" where
  "TransitAlternativeCount c = fold (\<lambda>stage total. total + length (stage_alternatives stage)) (required_transit c) 0"

datatype AuthorityValidationMode = AuthMode_kNone | AuthMode_kBestEffort | AuthMode_kRequired | AuthMode_other nat

fun AuthorityValidationMode_value :: "AuthorityValidationMode \<Rightarrow> nat" where
  "AuthorityValidationMode_value AuthMode_kNone = 1"
| "AuthorityValidationMode_value AuthMode_kBestEffort = 2"
| "AuthorityValidationMode_value AuthMode_kRequired = 3"
| "AuthorityValidationMode_value (AuthMode_other v) = v"

definition kAuthorityValidationModeNames :: "EnumEntry list" where
  "kAuthorityValidationModeNames = [(''NONE'', 1), (''BEST_EFFORT'', 2), (''REQUIRED'', 3)]"

record PlanningPolicy =
  pol_generation :: Generation
  pol_cost_model :: CostModel
  allow_degraded_links :: bool
  allow_draining_ports :: bool
  allow_maintenance_ports :: bool
  require_operational_proof :: bool
  allow_zero_hop_self_path :: bool
  locality_scope :: "NodeId list"
  authority_validation :: AuthorityValidationMode

record CallerAuthority =
  auth_scope_mask :: u32
  auth_publisher :: PublisherId
  auth_worker_boot :: WorkerBootId
  auth_coordinator_epoch :: Generation
  auth_attempt :: MutationAttemptId
  auth_epoch_bound :: bool
  auth_enforce_scope :: bool

record PlanningRequest =
  rq_id :: PlanningRequestId
  rq_source :: EndpointRef
  rq_destination :: EndpointRef
  rq_constraints :: ConstraintSet
  rq_policy :: PlanningPolicy
  rq_max_candidates :: nat
  rq_mode :: PlanningMode
  rq_authority :: CallerAuthority
  rq_expect_epoch :: bool
  rq_expected_epoch :: Generation
  rq_expect_topology :: bool
  rq_expected_topology :: Generation
  rq_expect_snapshot :: bool
  rq_expected_snapshot :: SnapshotId

section \<open>Validation\<close>

type_synonym RequestValidation = "(DiagnosticCode \<times> string) option"

definition HasDuplicate :: "'a::linorder list \<Rightarrow> bool" where
  "HasDuplicate values = adjacent_find (sort values)"

fun check_stages :: "nat \<Rightarrow> TransitStage list \<Rightarrow> RequestValidation" where
  "check_stages limit [] = None"
| "check_stages limit (stage # stages) =
     (if stage_alternatives stage = [] then Some (DC_kMalformedIdentifier, ''transit stage has no alternatives'')
      else if stage_kind stage = Transit_kExact \<and> length (stage_alternatives stage) \<noteq> 1
      then Some (DC_kConstraintCountExceeded, ''EXACT transit stage must name exactly one node'')
      else if Exceeds (length (stage_alternatives stage)) limit
      then Some (DC_kConstraintCountExceeded, ''transit stage alternative count exceeds the limit'')
      else if list_ex (\<lambda>n. \<not> FixedId_IsValid n) (stage_alternatives stage)
      then Some (DC_kMalformedIdentifier, ''transit node identity is nil'')
      else if HasDuplicate (stage_alternatives stage)
      then Some (DC_kDuplicateConstraintEntry, ''duplicate alternative in a transit stage'')
      else check_stages limit stages)"

definition ValidateConstraintSet :: "ConstraintSet \<Rightarrow> ResourceLimits \<Rightarrow> RequestValidation" where
  "ValidateConstraintSet c l =
     (if \<not> FixedId_IsValid (cs_id c) then Some (DC_kMalformedIdentifier, ''constraint set identity is nil'')
      else if Exceeds (EntryCount c) (max_constraints_total l)
      then Some (DC_kConstraintCountExceeded, ''constraint entry count exceeds the configured limit'')
      else if Exceeds (length (forbidden_nodes c)) (max_forbidden_ids l) \<or>
        Exceeds (length (forbidden_links c)) (max_forbidden_ids l) \<or>
        Exceeds (length (forbidden_ports c)) (max_forbidden_ids l) \<or>
        Exceeds (length (forbidden_failure_domains c)) (max_forbidden_ids l) \<or>
        Exceeds (length (forbidden_failure_domain_classes c)) (max_forbidden_domain_classes l)
      then Some (DC_kConstraintCountExceeded, ''forbidden identifier count exceeds the configured limit'')
      else if Exceeds (length (required_transit c)) (max_required_ids l)
      then Some (DC_kConstraintCountExceeded, ''transit stage count exceeds the configured limit'')
      else if Exceeds (length (required_capabilities c)) (max_capability_requirements l)
      then Some (DC_kConstraintCountExceeded, ''capability requirement count exceeds the configured limit'')
      else if list_ex (\<lambda>x. \<not> FixedId_IsValid x) (forbidden_nodes c)
      then Some (DC_kMalformedIdentifier, ''forbidden node identity is nil'')
      else if list_ex (\<lambda>x. \<not> FixedId_IsValid x) (forbidden_links c)
      then Some (DC_kMalformedIdentifier, ''forbidden link identity is nil'')
      else if list_ex (\<lambda>x. \<not> FixedId_IsValid x) (forbidden_ports c)
      then Some (DC_kMalformedIdentifier, ''forbidden port identity is nil'')
      else if list_ex (\<lambda>x. \<not> FixedId_IsValid x) (forbidden_failure_domains c)
      then Some (DC_kMalformedIdentifier, ''forbidden failure domain identity is nil'')
      else if list_ex (\<lambda>x. \<not> FixedId_IsValid x) (forbidden_failure_domain_classes c)
      then Some (DC_kMalformedIdentifier, ''forbidden failure domain class identity is nil'')
      else if HasDuplicate (forbidden_nodes c) \<or> HasDuplicate (forbidden_links c) \<or> HasDuplicate (forbidden_ports c) \<or>
        HasDuplicate (forbidden_failure_domains c) \<or> HasDuplicate (forbidden_failure_domain_classes c)
      then Some (DC_kDuplicateConstraintEntry, ''duplicate forbidden constraint entry'')
      else case check_stages (max_members_in_any_set l) (required_transit c) of
        Some e \<Rightarrow> Some e
      | None \<Rightarrow>
          if list_ex (\<lambda>r. \<not> FixedId_IsValid (req_capability r)) (required_capabilities c)
          then Some (DC_kMalformedIdentifier, ''capability identity is nil'')
          else if (case cs_max_hops c of None \<Rightarrow> False | Some h \<Rightarrow> unat h > lim_max_hops l)
          then Some (DC_kMaxHopsExceeded, ''max_hops exceeds the configured ceiling'')
          else if cs_max_members c = Some 0
          then Some (DC_kConstraintCountExceeded, ''max_members_per_failure_domain must be positive'')
          else None)"

definition ValidatePolicy :: "PlanningPolicy \<Rightarrow> ResourceLimits \<Rightarrow> RequestValidation" where
  "ValidatePolicy p l =
     (if length (locality_scope p) > max_forbidden_ids l
      then Some (DC_kConstraintCountExceeded, ''locality scope exceeds the configured limit'')
      else if list_ex (\<lambda>x. \<not> FixedId_IsValid x) (locality_scope p)
      then Some (DC_kMalformedIdentifier, ''locality scope node identity is nil'')
      else if HasDuplicate (locality_scope p)
      then Some (DC_kDuplicateConstraintEntry, ''duplicate node in locality scope'')
      else if locality_penalty (pol_cost_model p) \<noteq> 0 \<and> locality_scope p = []
      then Some (DC_kUnsupportedRequest, ''locality_penalty requires a non-empty locality_scope'')
      else None)"

definition ValidateRequest :: "PlanningRequest \<Rightarrow> ResourceLimits \<Rightarrow> RequestValidation" where
  "ValidateRequest r l =
     (if \<not> FixedId_IsValid (rq_id r) then Some (DC_kMalformedIdentifier, ''planning request identity is nil'')
      else if \<not> FixedId_IsValid (ref_id (rq_source r))
      then Some (DC_kMalformedIdentifier, ''source endpoint identity is nil'')
      else if \<not> FixedId_IsValid (ref_id (rq_destination r))
      then Some (DC_kMalformedIdentifier, ''destination endpoint identity is nil'')
      else if rq_max_candidates r = 0 then Some (DC_kCandidateLimitExceeded, ''max_candidates must be at least 1'')
      else if rq_max_candidates r > max_candidates_per_request l
      then Some (DC_kRequestedCandidatesAboveCeiling, ''max_candidates exceeds the configured ceiling'')
      else if \<not> IsKnownEnumValue kPathLayerNames (PathLayer_value (cs_layer (rq_constraints r)))
      then Some (DC_kUnsupportedLayer, ''unknown planning layer'')
      else if \<not> IsKnownEnumValue kPlanningModeNames (PlanningMode_value (rq_mode r))
      then Some (DC_kUnsupportedRequest, ''unknown planning mode'')
      else if \<not> IsKnownEnumValue kAuthorityValidationModeNames
          (AuthorityValidationMode_value (authority_validation (rq_policy r)))
      then Some (DC_kUnsupportedRequest, ''unknown authority validation mode'')
      else if list_ex (\<lambda>q. \<not> IsKnownEnumValue kCapabilityScopeNames (CapabilityScope_value (req_scope q)) \<or>
          \<not> IsKnownEnumValue kCapabilityComparatorNames (CapabilityComparator_value (req_comparator q)))
          (required_capabilities (rq_constraints r))
      then Some (DC_kUnsupportedRequest, ''unknown capability requirement encoding'')
      else case ValidateConstraintSet (rq_constraints r) l of
        Some e \<Rightarrow> Some e
      | None \<Rightarrow> (case ValidatePolicy (rq_policy r) l of
        Some e \<Rightarrow> Some e
      | None \<Rightarrow>
          if rq_expect_topology r \<and> rq_expected_topology r = 0
          then Some (DC_kMalformedIdentifier, ''expected topology generation must be positive'')
          else if rq_expect_snapshot r \<and> \<not> FixedId_IsValid (rq_expected_snapshot r)
          then Some (DC_kMalformedIdentifier, ''expected snapshot identity is nil'')
          else None))"

definition StatusForValidationCode :: "DiagnosticCode \<Rightarrow> PlanStatus" where
  "StatusForValidationCode code =
     (if code \<in> {DC_kMalformedIdentifier, DC_kDuplicateConstraintEntry, DC_kDuplicateIdentifier, DC_kSelfLoopRejected}
      then Status_kMalformedRequest
      else if code \<in> {DC_kRequestedCandidatesAboveCeiling, DC_kConstraintCountExceeded, DC_kGraphTooLarge,
          DC_kTooManyEdges, DC_kWorkBudgetExhausted}
      then Status_kResourceLimit
      else if code = DC_kCandidateLimitExceeded then Status_kMalformedRequest
      else if code = DC_kMaxHopsExceeded then Status_kConstraintUnsatisfied
      else if code \<in> {DC_kUnsupportedLayer, DC_kUnsupportedRequest, DC_kUnsupportedEndpointClass}
      then Status_kUnsupported
      else Status_kMalformedRequest)"

section \<open>What a valid request satisfies\<close>

lemma HasDuplicate_iff [simp]: "HasDuplicate xs \<longleftrightarrow> \<not> distinct xs"
  by (simp add: HasDuplicate_def)

definition ids_valid :: "'t FixedId list \<Rightarrow> bool" where
  "ids_valid xs \<longleftrightarrow> (\<forall>x \<in> set xs. FixedId_IsValid x)"

lemma list_ex_invalid [simp]: "list_ex (\<lambda>x. \<not> FixedId_IsValid x) xs \<longleftrightarrow> \<not> ids_valid xs"
  by (simp add: list_ex_iff ids_valid_def)

definition stage_ok :: "nat \<Rightarrow> TransitStage \<Rightarrow> bool" where
  "stage_ok limit s \<longleftrightarrow> stage_alternatives s \<noteq> [] \<and> length (stage_alternatives s) \<le> limit \<and>
     (stage_kind s = Transit_kAnyOf \<or> length (stage_alternatives s) = 1) \<and>
     ids_valid (stage_alternatives s) \<and> distinct (stage_alternatives s)"

definition constraints_ok :: "ConstraintSet \<Rightarrow> ResourceLimits \<Rightarrow> bool" where
  "constraints_ok c l \<longleftrightarrow> FixedId_IsValid (cs_id c) \<and> EntryCount c \<le> max_constraints_total l \<and>
     ids_valid (forbidden_nodes c) \<and> distinct (forbidden_nodes c) \<and> length (forbidden_nodes c) \<le> max_forbidden_ids l \<and>
     ids_valid (forbidden_links c) \<and> distinct (forbidden_links c) \<and> length (forbidden_links c) \<le> max_forbidden_ids l \<and>
     ids_valid (forbidden_ports c) \<and> distinct (forbidden_ports c) \<and> length (forbidden_ports c) \<le> max_forbidden_ids l \<and>
     ids_valid (forbidden_failure_domains c) \<and> distinct (forbidden_failure_domains c) \<and>
     length (forbidden_failure_domains c) \<le> max_forbidden_ids l \<and>
     ids_valid (forbidden_failure_domain_classes c) \<and> distinct (forbidden_failure_domain_classes c) \<and>
     length (forbidden_failure_domain_classes c) \<le> max_forbidden_domain_classes l \<and>
     length (required_transit c) \<le> max_required_ids l \<and>
     list_all (stage_ok (max_members_in_any_set l)) (required_transit c) \<and>
     length (required_capabilities c) \<le> max_capability_requirements l \<and>
     (\<forall>r \<in> set (required_capabilities c). FixedId_IsValid (req_capability r)) \<and>
     (case cs_max_hops c of None \<Rightarrow> True | Some h \<Rightarrow> unat h \<le> lim_max_hops l) \<and> cs_max_members c \<noteq> Some 0"

lemma check_stages_None: "check_stages limit stages = None \<longleftrightarrow> list_all (stage_ok limit) stages"
proof (induction stages)
  case (Cons s ss)
  have "stage_kind s = Transit_kAnyOf \<longleftrightarrow> stage_kind s \<noteq> Transit_kExact" by (cases "stage_kind s") simp_all
  with Cons show ?case by (auto simp: stage_ok_def Exceeds_def)
qed simp

lemma ValidateConstraintSet_iff: "ValidateConstraintSet c l = None \<longleftrightarrow> constraints_ok c l"
  unfolding constraints_ok_def check_stages_None [symmetric]
  by (auto simp: ValidateConstraintSet_def Exceeds_def list_ex_iff split: option.splits)

definition policy_ok :: "PlanningPolicy \<Rightarrow> ResourceLimits \<Rightarrow> bool" where
  "policy_ok p l \<longleftrightarrow> length (locality_scope p) \<le> max_forbidden_ids l \<and> ids_valid (locality_scope p) \<and>
     distinct (locality_scope p) \<and> (locality_penalty (pol_cost_model p) = 0 \<or> locality_scope p \<noteq> [])"

lemma ValidatePolicy_iff: "ValidatePolicy p l = None \<longleftrightarrow> policy_ok p l"
  by (auto simp: ValidatePolicy_def policy_ok_def)

definition request_ok :: "PlanningRequest \<Rightarrow> ResourceLimits \<Rightarrow> bool" where
  "request_ok r l \<longleftrightarrow> FixedId_IsValid (rq_id r) \<and> FixedId_IsValid (ref_id (rq_source r)) \<and>
     FixedId_IsValid (ref_id (rq_destination r)) \<and>
     0 < rq_max_candidates r \<and> rq_max_candidates r \<le> max_candidates_per_request l \<and>
     PathLayer_value (cs_layer (rq_constraints r)) \<in> {1..4} \<and> PlanningMode_value (rq_mode r) \<in> {1..2} \<and>
     AuthorityValidationMode_value (authority_validation (rq_policy r)) \<in> {1..3} \<and>
     (\<forall>q \<in> set (required_capabilities (rq_constraints r)). CapabilityScope_value (req_scope q) \<in> {1..5} \<and>
        CapabilityComparator_value (req_comparator q) \<in> {1..3}) \<and>
     constraints_ok (rq_constraints r) l \<and> policy_ok (rq_policy r) l \<and>
     (rq_expect_topology r \<longrightarrow> rq_expected_topology r \<noteq> 0) \<and>
     (rq_expect_snapshot r \<longrightarrow> FixedId_IsValid (rq_expected_snapshot r))"

lemma known_ranges:
  "IsKnownEnumValue kPathLayerNames v \<longleftrightarrow> v \<in> {1..4}"
  "IsKnownEnumValue kPlanningModeNames v \<longleftrightarrow> v \<in> {1..2}"
  "IsKnownEnumValue kAuthorityValidationModeNames v \<longleftrightarrow> v \<in> {1..3}"
  "IsKnownEnumValue kCapabilityScopeNames v \<longleftrightarrow> v \<in> {1..5}"
  "IsKnownEnumValue kCapabilityComparatorNames v \<longleftrightarrow> v \<in> {1..3}"
  by (auto simp: IsKnownEnumValue_def kPathLayerNames_def kPlanningModeNames_def kAuthorityValidationModeNames_def
      kCapabilityScopeNames_def kCapabilityComparatorNames_def split: if_splits)

text \<open>
  The defects of a request in the order of their precedence, each with the code that reports it: what is said of nil identities, of
  lengths and of repeated entries is said of the lists themselves.
\<close>

fun first_defect :: "(bool \<times> DiagnosticCode) list \<Rightarrow> DiagnosticCode option" where
  "first_defect [] = None"
| "first_defect ((present, code) # defects) = (if present then Some code else first_defect defects)"

definition stage_defects :: "nat \<Rightarrow> TransitStage \<Rightarrow> (bool \<times> DiagnosticCode) list" where
  "stage_defects limit s =
     [(stage_alternatives s = [], DC_kMalformedIdentifier),
      (stage_kind s = Transit_kExact \<and> length (stage_alternatives s) \<noteq> 1, DC_kConstraintCountExceeded),
      (limit < length (stage_alternatives s), DC_kConstraintCountExceeded),
      (\<not> ids_valid (stage_alternatives s), DC_kMalformedIdentifier),
      (\<not> distinct (stage_alternatives s), DC_kDuplicateConstraintEntry)]"

definition constraint_defects :: "ConstraintSet \<Rightarrow> ResourceLimits \<Rightarrow> (bool \<times> DiagnosticCode) list" where
  "constraint_defects c l =
     [(\<not> FixedId_IsValid (cs_id c), DC_kMalformedIdentifier),
      (max_constraints_total l < EntryCount c \<or> max_forbidden_ids l < length (forbidden_nodes c) \<or>
       max_forbidden_ids l < length (forbidden_links c) \<or> max_forbidden_ids l < length (forbidden_ports c) \<or>
       max_forbidden_ids l < length (forbidden_failure_domains c) \<or>
       max_forbidden_domain_classes l < length (forbidden_failure_domain_classes c) \<or>
       max_required_ids l < length (required_transit c) \<or>
       max_capability_requirements l < length (required_capabilities c), DC_kConstraintCountExceeded),
      (\<not> ids_valid (forbidden_nodes c) \<or> \<not> ids_valid (forbidden_links c) \<or> \<not> ids_valid (forbidden_ports c) \<or>
       \<not> ids_valid (forbidden_failure_domains c) \<or> \<not> ids_valid (forbidden_failure_domain_classes c), DC_kMalformedIdentifier),
      (\<not> distinct (forbidden_nodes c) \<or> \<not> distinct (forbidden_links c) \<or> \<not> distinct (forbidden_ports c) \<or>
       \<not> distinct (forbidden_failure_domains c) \<or> \<not> distinct (forbidden_failure_domain_classes c), DC_kDuplicateConstraintEntry)] @
     concat (map (stage_defects (max_members_in_any_set l)) (required_transit c)) @
     [(\<exists>r \<in> set (required_capabilities c). \<not> FixedId_IsValid (req_capability r), DC_kMalformedIdentifier),
      (\<exists>h. cs_max_hops c = Some h \<and> lim_max_hops l < unat h, DC_kMaxHopsExceeded),
      (cs_max_members c = Some 0, DC_kConstraintCountExceeded)]"

definition policy_defects :: "PlanningPolicy \<Rightarrow> ResourceLimits \<Rightarrow> (bool \<times> DiagnosticCode) list" where
  "policy_defects p l =
     [(max_forbidden_ids l < length (locality_scope p), DC_kConstraintCountExceeded),
      (\<not> ids_valid (locality_scope p), DC_kMalformedIdentifier),
      (\<not> distinct (locality_scope p), DC_kDuplicateConstraintEntry),
      (locality_penalty (pol_cost_model p) \<noteq> 0 \<and> locality_scope p = [], DC_kUnsupportedRequest)]"

definition request_defects :: "PlanningRequest \<Rightarrow> ResourceLimits \<Rightarrow> (bool \<times> DiagnosticCode) list" where
  "request_defects r l =
     [(\<not> FixedId_IsValid (rq_id r) \<or> \<not> FixedId_IsValid (ref_id (rq_source r)) \<or> \<not> FixedId_IsValid (ref_id (rq_destination r)),
       DC_kMalformedIdentifier),
      (rq_max_candidates r = 0, DC_kCandidateLimitExceeded),
      (max_candidates_per_request l < rq_max_candidates r, DC_kRequestedCandidatesAboveCeiling),
      (PathLayer_value (cs_layer (rq_constraints r)) \<notin> {1..4}, DC_kUnsupportedLayer),
      (PlanningMode_value (rq_mode r) \<notin> {1..2} \<or> AuthorityValidationMode_value (authority_validation (rq_policy r)) \<notin> {1..3} \<or>
       (\<exists>q \<in> set (required_capabilities (rq_constraints r)). CapabilityScope_value (req_scope q) \<notin> {1..5} \<or>
          CapabilityComparator_value (req_comparator q) \<notin> {1..3}), DC_kUnsupportedRequest)] @
     constraint_defects (rq_constraints r) l @ policy_defects (rq_policy r) l @
     [(rq_expect_topology r \<and> rq_expected_topology r = 0, DC_kMalformedIdentifier),
      (rq_expect_snapshot r \<and> \<not> FixedId_IsValid (rq_expected_snapshot r), DC_kMalformedIdentifier)]"

lemma first_defect_append:
  "first_defect (xs @ ys) = (case first_defect xs of None \<Rightarrow> first_defect ys | Some code \<Rightarrow> Some code)"
  by (induction xs rule: first_defect.induct) auto

lemma stages_first: "map_option fst (check_stages limit stages) = first_defect (concat (map (stage_defects limit) stages))"
  by (induction stages) (auto simp: stage_defects_def Exceeds_def)

lemma constraints_first: "map_option fst (ValidateConstraintSet c l) = first_defect (constraint_defects c l)"
  unfolding constraint_defects_def first_defect_append stages_first [symmetric]
  by (auto simp: ValidateConstraintSet_def Exceeds_def list_ex_iff split: option.splits)

lemma policy_first: "map_option fst (ValidatePolicy p l) = first_defect (policy_defects p l)"
  by (simp add: ValidatePolicy_def policy_defects_def)

lemma request_first: "map_option fst (ValidateRequest r l) = first_defect (request_defects r l)"
  unfolding request_defects_def first_defect_append constraints_first [symmetric] policy_first [symmetric]
  by (auto simp: ValidateRequest_def list_ex_iff known_ranges simp del: atLeastAtMost_iff split: option.splits)

text \<open>The codes a request can be rejected with, and the status of each.\<close>

definition validation_statuses :: "(DiagnosticCode \<times> PlanStatus) list" where
  "validation_statuses =
     [(DC_kMalformedIdentifier, Status_kMalformedRequest), (DC_kDuplicateConstraintEntry, Status_kMalformedRequest),
      (DC_kCandidateLimitExceeded, Status_kMalformedRequest), (DC_kRequestedCandidatesAboveCeiling, Status_kResourceLimit),
      (DC_kConstraintCountExceeded, Status_kResourceLimit), (DC_kMaxHopsExceeded, Status_kConstraintUnsatisfied),
      (DC_kUnsupportedLayer, Status_kUnsupported), (DC_kUnsupportedRequest, Status_kUnsupported)]"

lemma first_defect_code: "first_defect defects = Some code \<Longrightarrow> code \<in> snd ` set defects"
  by (induction defects rule: first_defect.induct) (auto split: if_splits)

lemma request_defect_codes: "snd ` set (request_defects r l) \<subseteq> fst ` set validation_statuses"
  by (auto simp: request_defects_def constraint_defects_def policy_defects_def stage_defects_def validation_statuses_def)

lemma validation_status: "code \<in> fst ` set validation_statuses \<Longrightarrow> (code, StatusForValidationCode code) \<in> set validation_statuses"
  by (auto simp: validation_statuses_def StatusForValidationCode_def)

section \<open>Properties\<close>

text \<open>
  C37. Request validation accepts exactly the well-formed requests: identities non-nil, candidate
  count within its range, enumerations known, every constraint list within its limit, free of nil
  and repeated entries, transit stages non-empty and exact stages singletons, the hop bound within
  the configured ceiling, the policy's locality scope coherent, expectations well formed.  A rejected
  request is reported with the code of the first defect it has in the order of precedence
  (\<open>request_defects\<close>), and that code has exactly the status of the table \<open>validation_statuses\<close>.
\<close>

theorem ValidateRequest_exact:
  "case ValidateRequest r l of
     None \<Rightarrow> request_ok r l \<and> first_defect (request_defects r l) = None
   | Some (code, detail) \<Rightarrow> \<not> request_ok r l \<and> first_defect (request_defects r l) = Some code \<and>
       (code, StatusForValidationCode code) \<in> set validation_statuses"
proof -
  have "ValidateRequest r l = None \<longleftrightarrow> request_ok r l"
    unfolding request_ok_def ValidateConstraintSet_iff [symmetric] ValidatePolicy_iff [symmetric]
      ValidateRequest_def list_ex_iff known_ranges
    by (auto simp del: atLeastAtMost_iff split: option.splits)
  moreover have "(code, StatusForValidationCode code) \<in> set validation_statuses" if "first_defect (request_defects r l) = Some code" for code
    using first_defect_code [OF that] request_defect_codes by (intro validation_status) blast
  ultimately show ?thesis using request_first [of r l] by (cases "ValidateRequest r l") auto
qed

end
