(* ===== verification/Result.thy ===== *)
theory Result
  imports Request
begin

text \<open>
  Results and plans (\<open>include/pathplanner/result.hpp\<close>, \<open>src/result.cpp\<close>): the structured planning
  result, the immutable plan with its semantic encoding, digest and identity, and the subjects a plan
  depends on.
\<close>

record ExplanationEntry =
  expl_code :: DiagnosticCode
  expl_detail :: string

record RejectionExplanation =
  rej_code :: DiagnosticCode
  rej_subject :: SubjectKey
  rej_detail :: string
  rej_occurrences :: u64

record PlanningResult =
  res_status :: PlanStatus
  res_primary_failure :: "DiagnosticCode option"
  res_source_endpoint :: EndpointId
  res_destination_endpoint :: EndpointId
  res_source_node :: NodeId
  res_destination_node :: NodeId
  res_candidates :: "Candidate list"
  res_rejections :: "RejectionExplanation list"
  res_explanations :: "ExplanationEntry list"
  res_evidence :: EvidenceVector
  res_plan_id :: PathPlanId
  res_planning_generation :: u64
  res_semantic_digest :: Sha256Digest
  res_requested_candidates :: nat
  res_truncated :: bool
  res_diagnostic_mode :: bool

definition HasCandidates :: "PlanningResult \<Rightarrow> bool" where
  "HasCandidates r = CarriesCandidates (res_status r)"

record PathPlan =
  plan_id :: PathPlanId
  plan_request :: PlanningRequestId
  plan_generation :: u64
  plan_publish_sequence :: u64
  plan_status :: PlanStatus
  plan_source :: NodeId
  plan_destination :: NodeId
  plan_layer :: PathLayer
  plan_evidence :: EvidenceVector
  plan_policy_generation :: Generation
  plan_constraint_set :: ConstraintSetId
  plan_constraint_generation :: Generation
  plan_diagnostic_mode :: bool
  plan_currentness_proven :: bool
  plan_candidates :: "Candidate list"
  plan_semantic_digest :: Sha256Digest

definition kPlanningRuleVersion :: u32 where "kPlanningRuleVersion = 1"
definition kPlanDigestSchemeVersion :: u32 where "kPlanDigestSchemeVersion = 1"

definition encode_candidate :: "Candidate \<Rightarrow> ByteWriter \<Rightarrow> ByteWriter" where
  "encode_candidate c w =
     (let w = write_FixedBytes (id_bytes (cand_id c)) w;
          w = write_U64 (cost_total (cand_cost c)) w;
          w = write_U32 (cost_hops (cand_cost c)) w;
          w = write_U64 (cost_static (cand_cost c)) w;
          w = write_U64 (cost_degraded (cand_cost c)) w;
          w = write_U64 (cost_locality (cand_cost c)) w
      in write_U32 (cand_rank c) w)"

definition EncodeSemantic :: "PathPlan \<Rightarrow> ByteWriter \<Rightarrow> ByteWriter" where
  "EncodeSemantic p w =
     (let w = write_U32 kPlanningRuleVersion w;
          w = write_U32 kPlanDigestSchemeVersion w;
          w = write_FixedBytes (id_bytes (plan_request p)) w;
          w = write_FixedBytes (id_bytes (plan_source p)) w;
          w = write_FixedBytes (id_bytes (plan_destination p)) w;
          w = write_U32 (of_nat (PathLayer_value (plan_layer p))) w;
          w = write_U32 (of_nat (PlanStatus_value (plan_status p))) w;
          w = write_Bool (plan_diagnostic_mode p) w;
          w = EvidenceVector_Encode (plan_evidence p) w;
          w = write_U64 (plan_policy_generation p) w;
          w = write_FixedBytes (id_bytes (plan_constraint_set p)) w;
          w = write_U64 (plan_constraint_generation p) w;
          w = write_VarU64 (of_nat (length (plan_candidates p))) w
      in fold encode_candidate (plan_candidates p) w)"

definition ComputeSemanticDigest :: "PathPlan \<Rightarrow> Sha256Digest" where
  "ComputeSemanticDigest p =
     (let w = EncodeSemantic p (ByteWriter_new (4096 + length (plan_candidates p) * 256))
      in if bw_overflowed w then replicate 32 0 else Sha256_Hash (bw_data w))"

definition ComputePlanId :: "PathPlan \<Rightarrow> PathPlanId" where
  "ComputePlanId p =
     (let digest = ComputeSemanticDigest p
      in if IsZero digest then FixedId (replicate 16 0) else FixedId_FromDigest 16 digest)"

definition HasCandidate :: "PathPlan \<Rightarrow> CandidatePathId \<Rightarrow> bool" where
  "HasCandidate p c = list_ex (\<lambda>existing. cand_id existing = c) (plan_candidates p)"

definition nil_id :: "nat \<Rightarrow> 'tag FixedId" where
  "nil_id n = FixedId (replicate n 0)"

definition MakePathPlan :: "PlanningRequest \<Rightarrow> PlanningResult \<Rightarrow> u64 \<Rightarrow> PathPlan" where
  "MakePathPlan request result sequence =
     (let diagnostic = (rq_mode request = Mode_kDiagnosticNonCurrent);
          plan = \<lparr>plan_id = nil_id 16, plan_request = rq_id request,
            plan_generation = res_planning_generation result, plan_publish_sequence = sequence,
            plan_status = res_status result, plan_source = res_source_node result,
            plan_destination = res_destination_node result, plan_layer = cs_layer (rq_constraints request),
            plan_evidence = res_evidence result, plan_policy_generation = pol_generation (rq_policy request),
            plan_constraint_set = cs_id (rq_constraints request),
            plan_constraint_generation = cs_generation (rq_constraints request),
            plan_diagnostic_mode = diagnostic, plan_currentness_proven = (\<not> diagnostic),
            plan_candidates = res_candidates result, plan_semantic_digest = replicate 32 0\<rparr>;
          plan = plan\<lparr>plan_semantic_digest := ComputeSemanticDigest plan\<rparr>
      in plan\<lparr>plan_id := ComputePlanId plan\<rparr>)"

definition candidate_subjects :: "Candidate \<Rightarrow> SubjectKey list" where
  "candidate_subjects c =
     map ForNode (path_nodes (cand_path c)) @
     concat (map (\<lambda>h. [ForLink (hop_link h), ForPort (hop_from_port h), ForPort (hop_to_port h)])
       (path_hops (cand_path c)))"

text \<open>\<open>CollectPlanDependencies\<close> fills the subjects only; its other two vectors stay empty.\<close>

record PlanDependencies =
  dep_subjects :: "SubjectKey list"
  dep_capabilities :: "CapabilityId list"
  dep_failure_domains :: "FailureDomainId list"

definition CollectPlanDependencies :: "PathPlan \<Rightarrow> PlanDependencies" where
  "CollectPlanDependencies p =
     \<lparr>dep_subjects = unique_by (=) (sort (concat (map candidate_subjects (plan_candidates p)))),
      dep_capabilities = [], dep_failure_domains = []\<rparr>"

record PlanCurrentnessReport =
  rep_currentness :: Currentness
  rep_changes :: "ExplanationEntry list"
  rep_prior_evidence :: EvidenceVector
  rep_current_evidence :: EvidenceVector

record ReplanReport =
  replan_outcome :: ReplanOutcome
  replan_changes :: "ExplanationEntry list"
  replan_prior_digest :: Sha256Digest
  replan_current_digest :: Sha256Digest
  replan_same_semantic_plan :: bool

definition HashCombinePlan :: "PathPlan \<Rightarrow> u64" where
  "HashCombinePlan p =
     fold (\<lambda>b hash. (xor hash (ucast b)) * 1099511628211) (plan_semantic_digest p) 1469598103934665603"

section \<open>The semantic encoding\<close>

definition enc_generations :: "SnapshotGenerations \<Rightarrow> bytes" where
  "enc_generations g = le_bytes 8 (gen_topology g) @ le_bytes 8 (gen_link_state g) @ le_bytes 8 (gen_ports g) @
     le_bytes 8 (gen_capabilities g) @ le_bytes 8 (gen_failure_domains g) @ le_bytes 8 (gen_epoch g) @
     le_bytes 8 (gen_policy g) @ le_bytes 8 (gen_constraints g)"

definition enc_evidence :: "EvidenceVector \<Rightarrow> bytes" where
  "enc_evidence e = id_bytes (ev_snapshot e) @ enc_generations (ev_generations e) @
     le_bytes 4 (of_nat (EvidenceSource_value (ev_source e)) :: u32) @ le_bytes 8 (ev_publish_sequence e)"

lemma emits_SnapshotGenerations: "emits (SnapshotGenerations_Encode g) (enc_generations g)"
  unfolding SnapshotGenerations_Encode_def [abs_def] Let_def
  by (rule emits_eqI, (rule emits_then emits_id)+) (simp add: enc_generations_def)

lemmas emits_then_generations = emits_comp [OF _ emits_SnapshotGenerations]

lemma emits_EvidenceVector: "emits (EvidenceVector_Encode e) (enc_evidence e)"
  unfolding EvidenceVector_Encode_def [abs_def] Let_def
  by (rule emits_eqI, (rule emits_then emits_id emits_then_generations)+) (simp add: enc_evidence_def)

lemmas emits_then_evidence = emits_comp [OF _ emits_EvidenceVector]

lemma enc_generations_prefix:
  "enc_generations a @ xs = enc_generations b @ ys \<longleftrightarrow> a = b \<and> xs = ys"
  by (cases a; cases b) (auto simp: enc_generations_def enc_prefix_simps)

definition enc_candidate :: "Candidate \<Rightarrow> bytes" where
  "enc_candidate c = id_bytes (cand_id c) @ le_bytes 8 (cost_total (cand_cost c)) @ le_bytes 4 (cost_hops (cand_cost c)) @
     le_bytes 8 (cost_static (cand_cost c)) @ le_bytes 8 (cost_degraded (cand_cost c)) @
     le_bytes 8 (cost_locality (cand_cost c)) @ le_bytes 4 (cand_rank c)"

lemma emits_encode_candidate: "emits (encode_candidate c) (enc_candidate c)"
  unfolding encode_candidate_def [abs_def] Let_def
  by (rule emits_eqI, (rule emits_then emits_id)+) (simp add: enc_candidate_def)

definition enc_plan :: "PathPlan \<Rightarrow> bytes" where
  "enc_plan p = le_bytes 4 kPlanningRuleVersion @ le_bytes 4 kPlanDigestSchemeVersion @ id_bytes (plan_request p) @
     id_bytes (plan_source p) @ id_bytes (plan_destination p) @
     le_bytes 4 (of_nat (PathLayer_value (plan_layer p)) :: u32) @
     le_bytes 4 (of_nat (PlanStatus_value (plan_status p)) :: u32) @ [if plan_diagnostic_mode p then 1 else 0] @
     enc_evidence (plan_evidence p) @ le_bytes 8 (plan_policy_generation p) @ id_bytes (plan_constraint_set p) @
     le_bytes 8 (plan_constraint_generation p) @ enc_VarU64 (of_nat (length (plan_candidates p))) @
     concat (map enc_candidate (plan_candidates p))"

lemma emits_EncodeSemantic: "emits (EncodeSemantic p) (enc_plan p)"
  unfolding EncodeSemantic_def [abs_def] Let_def
  by (rule emits_eqI, (rule emits_then emits_id emits_then_evidence emits_then_fold emits_encode_candidate)+)
    (simp add: enc_plan_def)

definition plan_ok :: "PathPlan \<Rightarrow> bool" where
  "plan_ok p \<longleftrightarrow> id_ok 16 (plan_request p) \<and> id_ok 16 (plan_source p) \<and> id_ok 16 (plan_destination p) \<and>
     layer_named (plan_layer p) \<and> id_ok 16 (ev_snapshot (plan_evidence p)) \<and> id_ok 16 (plan_constraint_set p) \<and>
     length (plan_candidates p) < 2 ^ 64 \<and> (\<forall>c \<in> set (plan_candidates p). id_ok 16 (cand_id c))"

lemma enc_evidence_prefix:
  assumes "id_ok 16 (ev_snapshot a)" "id_ok 16 (ev_snapshot b)"
  shows "enc_evidence a @ xs = enc_evidence b @ ys \<longleftrightarrow> a = b \<and> xs = ys"
proof -
  have "(of_nat (EvidenceSource_value s) :: u32) = of_nat (EvidenceSource_value t) \<longleftrightarrow> s = t" for s t
    by (cases s; cases t) simp_all
  with assms show ?thesis
    by (cases a; cases b) (auto simp: enc_evidence_def enc_prefix_simps id_prefix [where n = 16] enc_generations_prefix)
qed

text \<open>What the encoding records of a candidate: its identity, its cost and its rank.\<close>

definition cand_semantics :: "Candidate \<Rightarrow> CandidatePathId \<times> CostValue \<times> u32 \<times> CostValue \<times> CostValue \<times> CostValue \<times> u32" where
  "cand_semantics c = (cand_id c, cost_total (cand_cost c), cost_hops (cand_cost c), cost_static (cand_cost c),
     cost_degraded (cand_cost c), cost_locality (cand_cost c), cand_rank c)"

lemma enc_candidate_prefix:
  assumes "id_ok 16 (cand_id c)" "id_ok 16 (cand_id d)" "enc_candidate c @ xs = enc_candidate d @ ys"
  shows "cand_semantics c = cand_semantics d \<and> xs = ys"
  using assms by (simp add: enc_candidate_def cand_semantics_def enc_prefix_simps id_prefix [where n = 16])

lemma length_enc_plan:
  assumes "plan_ok p"
  shows "length (enc_plan p) \<le> 4096 + length (plan_candidates p) * 256"
proof -
  have "length (concat (map enc_candidate cs)) = 56 * length cs" if "\<forall>c \<in> set cs. id_ok 16 (cand_id c)" for cs
    using that by (induction cs) (simp_all add: enc_candidate_def id_ok_def)
  then show ?thesis
    using assms length_enc_VarU64 [of "of_nat (length (plan_candidates p))"]
    by (simp add: enc_plan_def plan_ok_def id_ok_def enc_evidence_def enc_generations_def)
qed

lemma ComputeSemanticDigest_eq: "plan_ok p \<Longrightarrow> ComputeSemanticDigest p = Sha256_Hash (enc_plan p)"
  using emits_new [OF emits_EncodeSemantic [of p], of "4096 + length (plan_candidates p) * 256"] length_enc_plan [of p]
  by (simp add: ComputeSemanticDigest_def Let_def)

definition plan_semantics where
  "plan_semantics p = (plan_request p, plan_source p, plan_destination p, plan_layer p, plan_status p,
     plan_diagnostic_mode p, plan_evidence p, plan_policy_generation p, plan_constraint_set p,
     plan_constraint_generation p, map cand_semantics (plan_candidates p))"

lemma map_determined:
  assumes "\<And>x y. k x = k y \<Longrightarrow> f x = f y" "map k xs = map k ys"
  shows "map f xs = map f ys"
proof -
  have "list_all2 (\<lambda>x y. k x = k y) xs ys"
    using assms(2) by (metis list_all2_eq list_all2_map1 list_all2_map2 list.rel_mono_strong)
  then have "list_all2 (\<lambda>x y. f x = f y) xs ys" using assms(1) by (rule list_all2_mono)
  then show ?thesis by (induction rule: list_all2_induct) simp_all
qed

lemma enc_plan_same:
  assumes "plan_semantics p = plan_semantics q"
  shows "enc_plan p = enc_plan q"
proof -
  have "enc_candidate c = enc_candidate d" if "cand_semantics c = cand_semantics d" for c d
    using that by (simp add: enc_candidate_def cand_semantics_def)
  moreover have s: "map cand_semantics (plan_candidates p) = map cand_semantics (plan_candidates q)"
    using assms by (simp add: plan_semantics_def)
  ultimately have "map enc_candidate (plan_candidates p) = map enc_candidate (plan_candidates q)"
    by (rule map_determined)
  then show ?thesis using assms map_eq_imp_length_eq [OF s] by (simp add: enc_plan_def plan_semantics_def)
qed

lemma enc_plan_inj:
  assumes "plan_ok p" "plan_ok q" "enc_plan p = enc_plan q"
  shows "plan_semantics p = plan_semantics q"
proof -
  have st: "(of_nat (PlanStatus_value s) :: u32) = of_nat (PlanStatus_value t) \<Longrightarrow> s = t" for s t
    by (cases s; cases t) simp_all
  have e: "plan_request p = plan_request q" "plan_source p = plan_source q" "plan_destination p = plan_destination q"
    "plan_layer p = plan_layer q" "plan_status p = plan_status q" "plan_diagnostic_mode p = plan_diagnostic_mode q"
    "plan_evidence p = plan_evidence q" "plan_policy_generation p = plan_policy_generation q"
    "plan_constraint_set p = plan_constraint_set q" "plan_constraint_generation p = plan_constraint_generation q"
    "(of_nat (length (plan_candidates p)) :: u64) = of_nat (length (plan_candidates q))"
    "concat (map enc_candidate (plan_candidates p)) @ [] = concat (map enc_candidate (plan_candidates q)) @ []"
    using assms layer_value_inj [of "plan_layer p" "plan_layer q"] st
    by (auto simp: enc_plan_def plan_ok_def enc_prefix_simps id_prefix [where n = 16] enc_evidence_prefix split: if_splits)
  have "length (plan_candidates p) = length (plan_candidates q)"
  proof -
    have "unat (of_nat (length (plan_candidates r)) :: u64) = length (plan_candidates r)" if "plan_ok r" for r
      using that by (simp add: plan_ok_def unat_of_nat_less)
    with e(11) assms(1,2) show ?thesis by metis
  qed
  moreover have "set (plan_candidates p) \<subseteq> {c. id_ok 16 (cand_id c)}" "set (plan_candidates q) \<subseteq> {c. id_ok 16 (cand_id c)}"
    using assms by (auto simp: plan_ok_def)
  ultimately have "map cand_semantics (plan_candidates p) = map cand_semantics (plan_candidates q)"
    using concat_map_inj [where A = "{c. id_ok 16 (cand_id c)}" and e = enc_candidate and k = cand_semantics, OF _ _ _ _ e(12)]
      enc_candidate_prefix
    by blast
  with e show ?thesis by (simp add: plan_semantics_def)
qed

section \<open>Properties\<close>

text \<open>
  C38. The semantic encoding of a plan determines, and is determined by, its request, ends, layer,
  status, mode, evidence, policy and constraint generations and the ordered candidates with their
  costs and ranks; the digest hashes the whole encoding.  The plan's own publish sequence and
  planning generation play no part, but the evidence does with its publish sequence.
\<close>

theorem semantic_encoding_exact:
  assumes "plan_ok p" "plan_ok q"
  shows "ComputeSemanticDigest p = Sha256_Hash (enc_plan p) \<and>
    (bw_data (EncodeSemantic p (ByteWriter_new (4096 + length (plan_candidates p) * 256))) =
     bw_data (EncodeSemantic q (ByteWriter_new (4096 + length (plan_candidates q) * 256))) \<longleftrightarrow>
     plan_semantics p = plan_semantics q)"
proof -
  have d: "bw_data (EncodeSemantic r (ByteWriter_new (4096 + length (plan_candidates r) * 256))) = enc_plan r"
    if "plan_ok r" for r
    using emits_new(2) [OF emits_EncodeSemantic length_enc_plan [OF that]] .
  show ?thesis
    using d [OF assms(1)] d [OF assms(2)] ComputeSemanticDigest_eq [OF assms(1)] enc_plan_same [of p q] enc_plan_inj [OF assms]
    by auto
qed

definition sample_evidence :: EvidenceVector where
  "sample_evidence = \<lparr>ev_snapshot = nil_id 16, ev_generations = SnapshotGenerations_zero, ev_source = Src_kSynthetic,
     ev_publish_sequence = 1\<rparr>"

definition sample_plan :: PathPlan where
  "sample_plan = \<lparr>plan_id = nil_id 16, plan_request = nil_id 16, plan_generation = 1, plan_publish_sequence = 1,
     plan_status = Status_kNoPath, plan_source = nil_id 16, plan_destination = nil_id 16, plan_layer = Layer_kPhysical,
     plan_evidence = sample_evidence, plan_policy_generation = 1, plan_constraint_set = nil_id 16,
     plan_constraint_generation = 1, plan_diagnostic_mode = False, plan_currentness_proven = True,
     plan_candidates = [], plan_semantic_digest = replicate 32 0\<rparr>"

theorem semantic_encoding_exact_witness:
  "bw_data (EncodeSemantic sample_plan (ByteWriter_new 4096)) \<noteq>
   bw_data (EncodeSemantic (sample_plan\<lparr>plan_evidence := sample_evidence\<lparr>ev_publish_sequence := 2\<rparr>\<rparr>) (ByteWriter_new 4096))"
  using semantic_encoding_exact [of sample_plan "sample_plan\<lparr>plan_evidence := sample_evidence\<lparr>ev_publish_sequence := 2\<rparr>\<rparr>"]
  by (simp add: sample_plan_def sample_evidence_def plan_ok_def id_ok_def nil_id_def layer_named_def plan_semantics_def)

text \<open>
  A plan depends on exactly the nodes, links and ports of its candidate paths, each listed once
  and in the subject order; capability and failure-domain dependencies are never recorded.
\<close>

theorem CollectPlanDependencies_exact:
  "set (dep_subjects (CollectPlanDependencies p)) =
     (\<Union>c \<in> set (plan_candidates p). ForNode ` set (path_nodes (cand_path c)) \<union>
        (\<Union>h \<in> set (path_hops (cand_path c)). {ForLink (hop_link h), ForPort (hop_from_port h), ForPort (hop_to_port h)})) \<and>
   sorted_wrt (<) (dep_subjects (CollectPlanDependencies p)) \<and>
   dep_capabilities (CollectPlanDependencies p) = [] \<and> dep_failure_domains (CollectPlanDependencies p) = []"
  by (auto simp: CollectPlanDependencies_def candidate_subjects_def sorted_unique_by_eq)

end
