(* ===== verification/PlanningView.thy ===== *)
theory PlanningView
  imports Result
begin

text \<open>
  The eligible, cost-resolved graph of one request (\<open>src/planning_view.hpp\<close>, \<open>src/planning_view.cpp\<close>):
  the bounded rejection log, the eligibility tests on nodes and links, and the construction of the
  compressed adjacency.

  Indices are natural numbers; \<open>kInvalidIndex\<close> is the sentinel of the source.  The snapshot the view
  points to is a field of the view.  A test that reports a failure code through an output argument
  returns the code as an option, \<open>None\<close> meaning that the test passed.  The loop body over the links
  is \<open>EvaluateEdge\<close>, whose verdict says what the loop does with the link: skip it silently, record
  one rejection, or add one adjacency.
\<close>

definition kInvalidIndex :: nat where "kInvalidIndex = 4294967295"
definition kRejectionExampleLimit :: nat where "kRejectionExampleLimit = 4"
definition kDiagnosticCodeSlots :: nat where "kDiagnosticCodeSlots = 96"

section \<open>The rejection log\<close>

record AggregateEntry =
  agg_present :: bool
  agg_count :: u64
  agg_examples :: "SubjectKey list"
  agg_detail :: string

record RejectionLog =
  log_aggregates :: "AggregateEntry list"
  log_explicit :: "RejectionExplanation list"
  log_max_entries :: nat

definition RejectionLog_new :: "nat \<Rightarrow> RejectionLog" where
  "RejectionLog_new max_entries =
     \<lparr>log_aggregates = replicate kDiagnosticCodeSlots \<lparr>agg_present = False, agg_count = 0, agg_examples = [], agg_detail = []\<rparr>,
      log_explicit = [], log_max_entries = (if max_entries = 0 then 1 else max_entries)\<rparr>"

definition Aggregate :: "DiagnosticCode \<Rightarrow> SubjectKey \<Rightarrow> string \<Rightarrow> RejectionLog \<Rightarrow> RejectionLog" where
  "Aggregate code subject detail log =
     (let slot = DiagnosticCode_value code in
      if slot \<ge> length (log_aggregates log) then log
      else let a = log_aggregates log ! slot;
               a = (if \<not> agg_present a then a\<lparr>agg_present := True, agg_detail := detail\<rparr> else a);
               a = a\<lparr>agg_count := agg_count a + 1\<rparr>;
               a = (if length (agg_examples a) < kRejectionExampleLimit
                    then a\<lparr>agg_examples := agg_examples a @ [subject]\<rparr> else a)
           in log\<lparr>log_aggregates := (log_aggregates log)[slot := a]\<rparr>)"

definition Explicit :: "DiagnosticCode \<Rightarrow> SubjectKey \<Rightarrow> string \<Rightarrow> RejectionLog \<Rightarrow> RejectionLog" where
  "Explicit code subject detail log =
     (if length (log_explicit log) \<ge> log_max_entries log then log
      else log\<lparr>log_explicit := log_explicit log @
        [\<lparr>rej_code = code, rej_subject = subject, rej_detail = detail, rej_occurrences = 1\<rparr>]\<rparr>)"

definition RejectionLog_Contains :: "RejectionLog \<Rightarrow> DiagnosticCode \<Rightarrow> bool" where
  "RejectionLog_Contains log code =
     (let slot = DiagnosticCode_value code in
      if slot < length (log_aggregates log) \<and> agg_present (log_aggregates log ! slot) then True
      else list_ex (\<lambda>e. rej_code e = code) (log_explicit log))"

definition RejectionLog_Count :: "RejectionLog \<Rightarrow> DiagnosticCode \<Rightarrow> u64" where
  "RejectionLog_Count log code =
     (let slot = DiagnosticCode_value code;
          total = (if slot < length (log_aggregates log) then agg_count (log_aggregates log ! slot) else 0)
      in fold (\<lambda>e total. if rej_code e = code then total + rej_occurrences e else total) (log_explicit log) total)"

definition RejectionLog_Empty :: "RejectionLog \<Rightarrow> bool" where
  "RejectionLog_Empty log \<longleftrightarrow> (if log_explicit log \<noteq> [] then False else \<not> list_ex agg_present (log_aggregates log))"

definition render_aggregate :: "nat \<Rightarrow> AggregateEntry \<Rightarrow> RejectionExplanation" where
  "render_aggregate slot a =
     (if agg_examples a = []
      then \<lparr>rej_code = DiagnosticCode slot, rej_subject = SubjectKey Subj_kNode (replicate 16 0),
            rej_detail = agg_detail a, rej_occurrences = agg_count a\<rparr>
      else \<lparr>rej_code = DiagnosticCode slot, rej_subject = hd (agg_examples a),
            rej_detail = agg_detail a @ '' (examples:'' @
              concat (map (\<lambda>e. '' '' @ SubjectKey_ToString e) (agg_examples a)) @ '')'',
            rej_occurrences = agg_count a\<rparr>)"

definition RejectionLog_Render :: "RejectionLog \<Rightarrow> RejectionExplanation list" where
  "RejectionLog_Render log =
     map (\<lambda>slot. render_aggregate slot (log_aggregates log ! slot))
       (filter (\<lambda>slot. agg_present (log_aggregates log ! slot)) [1..<length (log_aggregates log)]) @ log_explicit log"

section \<open>The view\<close>

record Adjacency =
  adj_to :: nat
  adj_edge :: nat
  adj_traversal_cost :: CostValue
  adj_degraded :: bool
  adj_outside_locality :: bool

record PlanningView =
  view_snapshot :: FabricSnapshot
  view_limits :: ResourceLimits
  view_layer :: PathLayer
  view_cost_model :: CostModel
  view_diagnostic_mode :: bool
  view_require_operational_proof :: bool
  view_allow_degraded_links :: bool
  view_allow_draining_ports :: bool
  view_allow_maintenance_ports :: bool
  view_locality_scope :: "NodeId list"
  view_forbidden_failure_domains :: "FailureDomainId list"
  view_forbidden_failure_domain_classes :: "FailureDomainClass list"
  view_fail_closed :: bool
  view_provisional :: bool
  view_offsets :: "nat list"
  view_adjacency :: "Adjacency list"
  view_to_snapshot_node :: "nat list"
  snapshot_to_view_node :: "nat list"
  view_rejections :: RejectionLog
  view_eligible_edges :: nat

definition NodeCount :: "PlanningView \<Rightarrow> nat" where
  "NodeCount v = length (view_to_snapshot_node v)"

definition NodeAt :: "PlanningView \<Rightarrow> nat \<Rightarrow> NodeRecord" where
  "NodeAt v i = snap_nodes (view_snapshot v) ! (view_to_snapshot_node v ! i)"

definition EdgeAt :: "PlanningView \<Rightarrow> nat \<Rightarrow> EdgeRecord" where
  "EdgeAt v i = snap_edges (view_snapshot v) ! i"

definition ViewIndex :: "PlanningView \<Rightarrow> NodeId \<Rightarrow> nat" where
  "ViewIndex v x =
     (case find_sorted node_id (snap_nodes (view_snapshot v)) x of
        None \<Rightarrow> kInvalidIndex
      | Some index \<Rightarrow> snapshot_to_view_node v ! index)"

section \<open>Eligibility tests\<close>

definition CapabilitySatisfied :: "PlanningView \<Rightarrow> SubjectKey \<Rightarrow> CapabilityRequirement \<Rightarrow> DiagnosticCode option" where
  "CapabilitySatisfied v subject requirement =
     (case CapabilityView_Lookup (snap_capabilities (view_snapshot v)) subject (req_capability requirement) of
        None \<Rightarrow> Some DC_kCapabilityUnknown
      | Some observed \<Rightarrow> if \<not> SatisfiedBy requirement observed then Some DC_kCapabilityInsufficient else None)"

fun domains_compliant :: "PlanningView \<Rightarrow> FailureDomainId list \<Rightarrow> DiagnosticCode option" where
  "domains_compliant v [] = None"
| "domains_compliant v (domain # ds) =
     (if binary_search (view_forbidden_failure_domains v) domain then Some DC_kFailureDomainForbidden
      else if view_forbidden_failure_domain_classes v \<noteq> [] \<and>
        (case FindDomain (snap_failure_domains (view_snapshot v)) domain of
           None \<Rightarrow> False
         | Some record \<Rightarrow> binary_search (view_forbidden_failure_domain_classes v) (fd_risk_class record))
      then Some DC_kFailureDomainClassForbidden
      else domains_compliant v ds)"

definition FailureDomainCompliant :: "PlanningView \<Rightarrow> SubjectKey \<Rightarrow> bool \<Rightarrow> DiagnosticCode option" where
  "FailureDomainCompliant v subject fail_closed =
     (let has_domain_constraints = (view_forbidden_failure_domains v \<noteq> [] \<or> view_forbidden_failure_domain_classes v \<noteq> []);
          membership = MembershipOf (snap_failure_domains (view_snapshot v)) subject
      in if \<not> mem_known membership
         then (if fail_closed \<and> has_domain_constraints then Some DC_kFailureDomainUnknown else None)
         else domains_compliant v (mem_domains membership))"

record NodeVerdict =
  nv_excluded :: bool
  nv_code :: DiagnosticCode
  nv_detail :: string

fun node_capabilities :: "PlanningView \<Rightarrow> SubjectKey \<Rightarrow> CapabilityRequirement list \<Rightarrow> (DiagnosticCode \<times> string) option" where
  "node_capabilities v subject [] = None"
| "node_capabilities v subject (r # rs) =
     (if req_scope r \<noteq> CapScope_kEveryNode then node_capabilities v subject rs
      else case CapabilitySatisfied v subject r of
             Some failure \<Rightarrow> Some (failure, ''node capability requirement not satisfied for '' @ FixedId_ToString (req_capability r))
           | None \<Rightarrow> node_capabilities v subject rs)"

definition EvaluateNode :: "PlanningView \<Rightarrow> PlanningRequest \<Rightarrow> NodeId list \<Rightarrow> NodeRecord \<Rightarrow> NodeVerdict" where
  "EvaluateNode v request forbidden node =
     (let subject = ForNode (node_id node) in
      if binary_search forbidden (node_id node)
      then \<lparr>nv_excluded = True, nv_code = DC_kForbiddenNode, nv_detail = ''node is forbidden by the constraint set''\<rparr>
      else case node_capabilities v subject (required_capabilities (rq_constraints request)) of
        Some (failure, detail) \<Rightarrow> \<lparr>nv_excluded = True, nv_code = failure, nv_detail = detail\<rparr>
      | None \<Rightarrow>
          (case FailureDomainCompliant v subject (fail_closed_on_unknown_domains (rq_constraints request)) of
             Some failure \<Rightarrow> \<lparr>nv_excluded = True, nv_code = failure, nv_detail = ''node failure-domain constraint violated''\<rparr>
           | None \<Rightarrow> \<lparr>nv_excluded = False, nv_code = DC_kForbiddenNode, nv_detail = []\<rparr>))"

text \<open>The switch on the link state: an exclusion with its reason, or the degraded flag.\<close>

fun link_state_verdict :: "PlanningView \<Rightarrow> LinkState \<Rightarrow> (DiagnosticCode \<times> string) + bool" where
  "link_state_verdict v Link_kUp = Inr False"
| "link_state_verdict v Link_kDegraded =
     (if view_allow_degraded_links v then Inr True
      else Inl (DC_kLinkStateDegradedDisallowed, ''DEGRADED link excluded by planning policy''))"
| "link_state_verdict v Link_kDown = Inl (DC_kLinkStateDown, ''link is DOWN'')"
| "link_state_verdict v Link_kFaulted = Inl (DC_kLinkStateFaulted, ''link is FAULTED'')"
| "link_state_verdict v Link_kRetired = Inl (DC_kLinkStateRetired, ''link is RETIRED'')"
| "link_state_verdict v Link_kRevalidationRequired =
     (if \<not> view_diagnostic_mode v then Inl (DC_kLinkStateRevalidationRequired, ''link requires revalidation'') else Inr False)"
| "link_state_verdict v Link_kUnknown =
     (if view_require_operational_proof v
      then Inl (DC_kLinkStateUnknown, ''link operational state is UNKNOWN and proof is required'') else Inr False)"

fun port_state_verdict :: "PlanningView \<Rightarrow> PortState \<Rightarrow> (DiagnosticCode \<times> string) option" where
  "port_state_verdict v Port_kUp = None"
| "port_state_verdict v Port_kAdminDisabled = Some (DC_kPortAdminDisabled, ''port is ADMIN_DISABLED'')"
| "port_state_verdict v Port_kRetired = Some (DC_kPortRetired, ''port is RETIRED'')"
| "port_state_verdict v Port_kSuperseded = Some (DC_kPortSuperseded, ''port is SUPERSEDED'')"
| "port_state_verdict v Port_kDraining =
     (if \<not> view_allow_draining_ports v \<and> \<not> view_diagnostic_mode v then Some (DC_kPortDraining, ''port is DRAINING'') else None)"
| "port_state_verdict v Port_kMaintenance =
     (if \<not> view_allow_maintenance_ports v \<and> \<not> view_diagnostic_mode v
      then Some (DC_kPortMaintenance, ''port is in MAINTENANCE'') else None)"
| "port_state_verdict v Port_kRevalidationRequired =
     (if \<not> view_diagnostic_mode v then Some (DC_kPortRevalidationRequired, ''port requires revalidation'') else None)"
| "port_state_verdict v Port_kUnknown =
     (if view_require_operational_proof v then Some (DC_kPortUnknown, ''port state is UNKNOWN and proof is required'') else None)"

fun check_ports :: "PlanningView \<Rightarrow> PortId list \<Rightarrow> (DiagnosticCode \<times> SubjectKey \<times> string) option" where
  "check_ports v [] = None"
| "check_ports v (port # ports) =
     (case port_state_verdict v (PortStateView_StateOf (snap_port_states (view_snapshot v)) port) of
        Some (code, detail) \<Rightarrow> Some (code, ForPort port, detail)
      | None \<Rightarrow> check_ports v ports)"

fun check_link_capabilities :: "PlanningView \<Rightarrow> EdgeRecord \<Rightarrow> CapabilityRequirement list \<Rightarrow> (DiagnosticCode \<times> string) option" where
  "check_link_capabilities v e [] = None"
| "check_link_capabilities v e (r # rs) =
     (if req_scope r = CapScope_kEveryLink then
        (case CapabilitySatisfied v (ForLink (edge_id e)) r of
           Some failure \<Rightarrow> Some (failure, ''link capability requirement not satisfied'')
         | None \<Rightarrow> check_link_capabilities v e rs)
      else if req_scope r = CapScope_kEveryPort then
        (case CapabilitySatisfied v (ForPort (edge_from_port e)) r of
           Some failure \<Rightarrow> Some (failure, ''port capability requirement not satisfied'')
         | None \<Rightarrow>
             (case CapabilitySatisfied v (ForPort (edge_to_port e)) r of
                Some failure \<Rightarrow> Some (failure, ''port capability requirement not satisfied'')
              | None \<Rightarrow> check_link_capabilities v e rs))
      else check_link_capabilities v e rs)"

fun check_domains :: "PlanningView \<Rightarrow> bool \<Rightarrow> SubjectKey list \<Rightarrow> DiagnosticCode option" where
  "check_domains v fail_closed [] = None"
| "check_domains v fail_closed (s # ss) =
     (case FailureDomainCompliant v s fail_closed of Some failure \<Rightarrow> Some failure | None \<Rightarrow> check_domains v fail_closed ss)"

text \<open>The traversal cost of a link and whether it leaves the locality scope.\<close>

definition traversal_cost :: "PlanningView \<Rightarrow> EdgeRecord \<Rightarrow> bool \<Rightarrow> (CostValue \<times> bool) option" where
  "traversal_cost v e degraded =
     (case (if degraded then CostAdd (ucast (edge_static_cost e)) (degraded_penalty (view_cost_model v))
            else Some (ucast (edge_static_cost e))) of
        None \<Rightarrow> None
      | Some traversal \<Rightarrow>
          if view_locality_scope v \<noteq> [] \<and> \<not> binary_search (view_locality_scope v) (edge_to e)
          then (case CostAdd traversal (locality_penalty (view_cost_model v)) of
                  None \<Rightarrow> None
                | Some charged \<Rightarrow> Some (charged, True))
          else Some (traversal, False))"

datatype EdgeVerdict =
    Edge_skip
  | Edge_aggregate DiagnosticCode SubjectKey string
  | Edge_explicit DiagnosticCode SubjectKey string
  | Edge_accept nat Adjacency

definition EvaluateEdge :: "PlanningView \<Rightarrow> PlanningRequest \<Rightarrow> LinkId list \<Rightarrow> PortId list \<Rightarrow> nat \<Rightarrow> EdgeVerdict" where
  "EvaluateEdge v request forbidden_link_ids forbidden_port_ids edge_index =
     (let edge = snap_edges (view_snapshot v) ! edge_index;
          nodes = snap_nodes (view_snapshot v)
      in case (find_sorted node_id nodes (edge_from edge), find_sorted node_id nodes (edge_to edge)) of
        (Some from_snapshot_index, Some to_snapshot_index) \<Rightarrow>
          let from_index = snapshot_to_view_node v ! from_snapshot_index;
              to_index = snapshot_to_view_node v ! to_snapshot_index;
              link_subject = ForLink (edge_id edge)
          in if edge_layer edge \<noteq> cs_layer (rq_constraints request)
             then Edge_aggregate DC_kLayerMismatch link_subject ''link layer does not match the requested planning layer''
             else if binary_search forbidden_link_ids (edge_id edge)
             then Edge_explicit DC_kForbiddenLink link_subject ''link is forbidden by the constraint set''
             else if binary_search forbidden_port_ids (edge_from_port edge) \<or> binary_search forbidden_port_ids (edge_to_port edge)
             then Edge_explicit DC_kForbiddenPort link_subject ''link port is forbidden by the constraint set''
             else if from_index = kInvalidIndex \<or> to_index = kInvalidIndex then Edge_skip
             else case link_state_verdict v (LinkStateView_StateOf (snap_link_states (view_snapshot v)) (edge_id edge)) of
               Inl (code, detail) \<Rightarrow> Edge_aggregate code link_subject detail
             | Inr degraded \<Rightarrow>
               (case check_ports v [edge_from_port edge, edge_to_port edge] of
                  Some (code, subject, detail) \<Rightarrow> Edge_aggregate code subject detail
                | None \<Rightarrow>
               (case check_link_capabilities v edge (required_capabilities (rq_constraints request)) of
                  Some (code, detail) \<Rightarrow> Edge_aggregate code link_subject detail
                | None \<Rightarrow>
               (case check_domains v (fail_closed_on_unknown_domains (rq_constraints request))
                   [link_subject, ForPort (edge_from_port edge), ForPort (edge_to_port edge)] of
                  Some code \<Rightarrow> Edge_aggregate code link_subject ''failure-domain constraint violated''
                | None \<Rightarrow>
               (case traversal_cost v edge degraded of
                  None \<Rightarrow> Edge_aggregate DC_kCostOverflow link_subject ''edge cost accumulation overflow''
                | Some (cost, outside) \<Rightarrow>
                    Edge_accept from_index \<lparr>adj_to = to_index, adj_edge = edge_index, adj_traversal_cost = cost,
                      adj_degraded = degraded, adj_outside_locality = outside\<rparr>))))
      | _ \<Rightarrow> Edge_skip)"

section \<open>Construction\<close>

record PlanningViewBuild =
  pvb_view :: PlanningView
  pvb_fatal :: "DiagnosticCode option"
  pvb_detail :: string
  pvb_explanations :: "ExplanationEntry list"
  pvb_source_view :: nat
  pvb_destination_view :: nat

definition initial_view :: "FabricSnapshot \<Rightarrow> PlanningRequest \<Rightarrow> ResourceLimits \<Rightarrow> PlanningView" where
  "initial_view snapshot request limits =
     (let diagnostic = (rq_mode request = Mode_kDiagnosticNonCurrent); policy = rq_policy request in
      \<lparr>view_snapshot = snapshot, view_limits = limits, view_layer = cs_layer (rq_constraints request),
       view_cost_model = pol_cost_model policy, view_diagnostic_mode = diagnostic,
       view_require_operational_proof = (require_operational_proof policy \<and> \<not> diagnostic),
       view_allow_degraded_links = allow_degraded_links policy,
       view_allow_draining_ports = allow_draining_ports policy,
       view_allow_maintenance_ports = allow_maintenance_ports policy,
       view_locality_scope = sort (locality_scope policy),
       view_forbidden_failure_domains = sort (forbidden_failure_domains (rq_constraints request)),
       view_forbidden_failure_domain_classes = sort (forbidden_failure_domain_classes (rq_constraints request)),
       view_fail_closed = fail_closed_on_unknown_domains (rq_constraints request),
       view_provisional = (diagnostic \<or> \<not> require_operational_proof policy),
       view_offsets = [], view_adjacency = [], view_to_snapshot_node = [],
       snapshot_to_view_node = replicate (length (snap_nodes snapshot)) kInvalidIndex,
       view_rejections = RejectionLog_new (max_explanation_entries limits), view_eligible_edges = 0\<rparr>)"

definition add_node :: "PlanningRequest \<Rightarrow> NodeId list \<Rightarrow> nat \<Rightarrow> PlanningView \<Rightarrow> PlanningView" where
  "add_node request forbidden index v =
     (let node = snap_nodes (view_snapshot v) ! index;
          verdict = EvaluateNode v request forbidden node
      in if nv_excluded verdict
         then v\<lparr>view_rejections := Explicit (nv_code verdict) (ForNode (node_id node)) (nv_detail verdict) (view_rejections v)\<rparr>
         else v\<lparr>snapshot_to_view_node := (snapshot_to_view_node v)[index := length (view_to_snapshot_node v)],
                view_to_snapshot_node := view_to_snapshot_node v @ [index]\<rparr>)"

definition add_edge :: "PlanningRequest \<Rightarrow> LinkId list \<Rightarrow> PortId list \<Rightarrow> nat \<Rightarrow>
    PlanningView \<times> (nat \<times> Adjacency) list \<Rightarrow> PlanningView \<times> (nat \<times> Adjacency) list" where
  "add_edge request links ports edge_index = (\<lambda>(v, pending).
     (case EvaluateEdge v request links ports edge_index of
        Edge_skip \<Rightarrow> (v, pending)
      | Edge_aggregate code subject detail \<Rightarrow> (v\<lparr>view_rejections := Aggregate code subject detail (view_rejections v)\<rparr>, pending)
      | Edge_explicit code subject detail \<Rightarrow> (v\<lparr>view_rejections := Explicit code subject detail (view_rejections v)\<rparr>, pending)
      | Edge_accept from entry \<Rightarrow> (v\<lparr>view_eligible_edges := view_eligible_edges v + 1\<rparr>, pending @ [(from, entry)])))"

fun endpoint_capabilities :: "PlanningView \<Rightarrow> NodeId \<Rightarrow> NodeId \<Rightarrow> CapabilityRequirement list \<Rightarrow> (DiagnosticCode \<times> string) option" where
  "endpoint_capabilities v source destination [] = None"
| "endpoint_capabilities v source destination (r # rs) =
     (if req_scope r \<noteq> CapScope_kSourceNode \<and> req_scope r \<noteq> CapScope_kDestinationNode
      then endpoint_capabilities v source destination rs
      else let is_source = (req_scope r = CapScope_kSourceNode) in
           case CapabilitySatisfied v (ForNode (if is_source then source else destination)) r of
             Some failure \<Rightarrow> Some (failure, (if is_source then ''source'' else ''destination'') @
               '' node capability requirement not satisfied for '' @ FixedId_ToString (req_capability r))
           | None \<Rightarrow> endpoint_capabilities v source destination rs)"

definition pending_key :: "PlanningView \<Rightarrow> nat \<times> Adjacency \<Rightarrow> nat \<times> NodeId \<times> LinkId" where
  "pending_key v p = (fst p, node_id (NodeAt v (adj_to (snd p))), edge_id (EdgeAt v (adj_edge (snd p))))"

text \<open>Counting sort offsets: count the entries of each node one slot ahead, then sum up.\<close>

definition count_offsets :: "nat \<Rightarrow> (nat \<times> Adjacency) list \<Rightarrow> nat list" where
  "count_offsets n pending = fold (\<lambda>p os. os[fst p + 1 := os ! (fst p + 1) + 1]) pending (replicate (n + 1) 0)"

definition prefix_sums :: "nat \<Rightarrow> nat list \<Rightarrow> nat list" where
  "prefix_sums n offsets = fold (\<lambda>i os. os[i + 1 := os ! (i + 1) + os ! i]) [0..<n] offsets"

definition compress :: "PlanningView \<Rightarrow> (nat \<times> Adjacency) list \<Rightarrow> PlanningView" where
  "compress v pending =
     (let pending = sort_key (pending_key v) pending; n = length (view_to_snapshot_node v)
      in v\<lparr>view_offsets := prefix_sums n (count_offsets n pending), view_adjacency := map snd pending\<rparr>)"

definition BuildPlanningView :: "FabricSnapshot \<Rightarrow> PlanningRequest \<Rightarrow> ResourceLimits \<Rightarrow> NodeId \<Rightarrow> NodeId \<Rightarrow> PlanningViewBuild" where
  "BuildPlanningView snapshot request limits source_node destination_node =
     (let forbidden = sort (forbidden_nodes (rq_constraints request));
          v = fold (add_node request forbidden) [0..<length (snap_nodes snapshot)] (initial_view snapshot request limits)
      in if length (view_to_snapshot_node v) > max_nodes limits
         then \<lparr>pvb_view = v, pvb_fatal = Some DC_kGraphTooLarge,
               pvb_detail = ''eligible node count exceeds the configured limit'', pvb_explanations = [],
               pvb_source_view = kInvalidIndex, pvb_destination_view = kInvalidIndex\<rparr>
         else let source_view = ViewIndex v source_node; destination_view = ViewIndex v destination_node in
         if source_view = kInvalidIndex \<or> destination_view = kInvalidIndex then
           let source_excluded = (source_view = kInvalidIndex);
               target = (if source_excluded then source_node else destination_node);
               code = (case FindNode snapshot target of
                         None \<Rightarrow> DC_kForbiddenNode
                       | Some node \<Rightarrow> nv_code (EvaluateNode v request forbidden node))
           in \<lparr>pvb_view = v, pvb_fatal = Some code,
               pvb_detail = (if source_excluded then ''source node is excluded by a hard constraint''
                             else ''destination node is excluded by a hard constraint''),
               pvb_explanations = [\<lparr>expl_code = code, expl_detail = (if source_excluded then ''source'' else ''destination'') @
                 '' node '' @ SubjectKey_ToString (ForNode target) @ '' is not eligible''\<rparr>],
               pvb_source_view = source_view, pvb_destination_view = destination_view\<rparr>
         else case endpoint_capabilities v source_node destination_node (required_capabilities (rq_constraints request)) of
           Some (failure, detail) \<Rightarrow> \<lparr>pvb_view = v, pvb_fatal = Some failure, pvb_detail = detail, pvb_explanations = [],
               pvb_source_view = source_view, pvb_destination_view = destination_view\<rparr>
         | None \<Rightarrow>
           let (v, pending) = fold (add_edge request (sort (forbidden_links (rq_constraints request)))
                 (sort (forbidden_ports (rq_constraints request)))) [0..<length (snap_edges snapshot)] (v, [])
           in \<lparr>pvb_view = compress v pending, pvb_fatal = None, pvb_detail = [], pvb_explanations = [],
               pvb_source_view = source_view, pvb_destination_view = destination_view\<rparr>)"

end
