(* ===== verification/Search.thy ===== *)
theory Search
  imports PlanningView
begin

text \<open>
  The searcher (\<open>src/search.hpp\<close>, \<open>src/search.cpp\<close>): bans, the deterministic work budget, the
  label-setting search over nodes, the search over (hops, node) states, and the enumeration of
  candidates with ordered transit stages or by deviations from the accepted paths.

  View and adjacency indices and hop counts are natural numbers: a hop count is the length of a
  path that repeats no node, so it stays below \<open>NodeCount\<close> and a \<open>uint32_t\<close> never wraps.  Costs are
  64-bit words.  Budget counters are decremented only when they are not zero.  A loop with an early
  return carries a flag: \<open>for_each\<close> stops at the first step that answers \<open>False\<close>.  The binary heap of
  \<open>std::priority_queue\<close> is the list of its entries in the order in which they leave the queue;
  entries that compare equal are equal, so this order is the only one.
\<close>

section \<open>Budget and statistics\<close>

definition kNoHopBound :: nat where "kNoHopBound = 4294967295"
definition kInfiniteHops :: nat where "kInfiniteHops = 4294967295"

record WorkBudget =
  states_remaining :: nat
  pushes_remaining :: nat
  spur_remaining :: nat
  exhausted :: bool
  state_space_exceeded :: bool

record PlannerStatistics =
  plans_computed :: u64
  plans_published :: u64
  plans_publish_rejected_stale :: u64
  candidates_returned :: u64
  states_expanded :: u64
  queue_pushes :: u64
  spur_searches :: u64
  snapshots_published :: u64
  epochs_advanced :: u64
  invalidations_applied :: u64
  plans_retired :: u64

definition PlannerStatistics_zero :: PlannerStatistics where
  "PlannerStatistics_zero = \<lparr>plans_computed = 0, plans_published = 0, plans_publish_rejected_stale = 0,
     candidates_returned = 0, states_expanded = 0, queue_pushes = 0, spur_searches = 0, snapshots_published = 0,
     epochs_advanced = 0, invalidations_applied = 0, plans_retired = 0\<rparr>"

text \<open>The two references a searcher holds besides the view.\<close>

record Searcher =
  sr_budget :: WorkBudget
  sr_stats :: PlannerStatistics

definition SpendState :: "Searcher \<Rightarrow> bool \<times> Searcher" where
  "SpendState w =
     (let b = sr_budget w; s = sr_stats w in
      if states_remaining b = 0 then (False, w\<lparr>sr_budget := b\<lparr>exhausted := True\<rparr>\<rparr>)
      else (True, w\<lparr>sr_budget := b\<lparr>states_remaining := states_remaining b - 1\<rparr>,
                    sr_stats := s\<lparr>states_expanded := states_expanded s + 1\<rparr>\<rparr>))"

definition SpendPush :: "Searcher \<Rightarrow> bool \<times> Searcher" where
  "SpendPush w =
     (let b = sr_budget w; s = sr_stats w in
      if pushes_remaining b = 0 then (False, w\<lparr>sr_budget := b\<lparr>exhausted := True\<rparr>\<rparr>)
      else (True, w\<lparr>sr_budget := b\<lparr>pushes_remaining := pushes_remaining b - 1\<rparr>,
                    sr_stats := s\<lparr>queue_pushes := queue_pushes s + 1\<rparr>\<rparr>))"

fun for_each :: "('a \<Rightarrow> 's \<Rightarrow> bool \<times> 's) \<Rightarrow> 'a list \<Rightarrow> 's \<Rightarrow> bool \<times> 's" where
  "for_each f [] s = (True, s)"
| "for_each f (x # xs) s = (case f x s of (True, s) \<Rightarrow> for_each f xs s | (False, s) \<Rightarrow> (False, s))"

section \<open>Bans\<close>

record BanSet =
  ban_nodes :: "nat list"
  ban_adjacency :: "nat list"
  ban_normalized :: bool

definition BanSet_new :: BanSet where
  "BanSet_new = \<lparr>ban_nodes = [], ban_adjacency = [], ban_normalized = True\<rparr>"

definition BanSet_AddNode :: "nat \<Rightarrow> BanSet \<Rightarrow> BanSet" where
  "BanSet_AddNode i b = b\<lparr>ban_nodes := ban_nodes b @ [i], ban_normalized := False\<rparr>"

definition BanSet_AddAdjacency :: "nat \<Rightarrow> BanSet \<Rightarrow> BanSet" where
  "BanSet_AddAdjacency i b = b\<lparr>ban_adjacency := ban_adjacency b @ [i], ban_normalized := False\<rparr>"

definition Normalize :: "BanSet \<Rightarrow> BanSet" where
  "Normalize b =
     (if ban_normalized b then b
      else \<lparr>ban_nodes = unique_by (=) (sort (ban_nodes b)), ban_adjacency = unique_by (=) (sort (ban_adjacency b)),
            ban_normalized = True\<rparr>)"

definition NodeBanned :: "BanSet \<Rightarrow> nat \<Rightarrow> bool" where
  "NodeBanned b i = binary_search (ban_nodes (Normalize b)) i"

definition AdjacencyBanned :: "BanSet \<Rightarrow> nat \<Rightarrow> bool" where
  "AdjacencyBanned b i = binary_search (ban_adjacency (Normalize b)) i"

definition BanSet_Empty :: "BanSet \<Rightarrow> bool" where
  "BanSet_Empty b \<longleftrightarrow> ban_nodes b = [] \<and> ban_adjacency b = []"

section \<open>Paths in view coordinates\<close>

record RawPath =
  raw_nodes :: "nat list"
  raw_adjacency :: "nat list"

definition RawPath_empty :: RawPath where "RawPath_empty = \<lparr>raw_nodes = [], raw_adjacency = []\<rparr>"

definition RawPath_HopCount :: "RawPath \<Rightarrow> nat" where "RawPath_HopCount p = length (raw_adjacency p)"

definition SameRawPath :: "RawPath \<Rightarrow> RawPath \<Rightarrow> bool" where
  "SameRawPath l r \<longleftrightarrow> raw_nodes l = raw_nodes r \<and> raw_adjacency l = raw_adjacency r"

record SearchOutcome =
  out_found :: bool
  out_resource_limit :: bool
  out_cost_overflow :: bool
  out_path :: RawPath

definition SearchOutcome_new :: SearchOutcome where
  "SearchOutcome_new = \<lparr>out_found = False, out_resource_limit = False, out_cost_overflow = False, out_path = RawPath_empty\<rparr>"

record RankedRawPath =
  rk_path :: RawPath
  rk_cost :: PathCost

text \<open>The comparison loops stop at the shorter sequence; a tie on the shared links is no order.\<close>

definition view_nodes :: "PlanningView \<Rightarrow> RawPath \<Rightarrow> NodeId list" where
  "view_nodes v p = map (\<lambda>i. node_id (NodeAt v i)) (raw_nodes p)"

definition view_links :: "PlanningView \<Rightarrow> RawPath \<Rightarrow> LinkId list" where
  "view_links v p = map (\<lambda>a. edge_id (EdgeAt v (adj_edge (view_adjacency v ! a)))) (raw_adjacency p)"

definition RankedBefore :: "PlanningView \<Rightarrow> RankedRawPath \<Rightarrow> RankedRawPath \<Rightarrow> bool" where
  "RankedBefore v l r =
     (if cost_total (rk_cost l) \<noteq> cost_total (rk_cost r) then cost_total (rk_cost l) < cost_total (rk_cost r)
      else if cost_hops (rk_cost l) \<noteq> cost_hops (rk_cost r) then cost_hops (rk_cost l) < cost_hops (rk_cost r)
      else case compare_sequences (view_nodes v (rk_path l)) (view_nodes v (rk_path r)) of
             SO_less \<Rightarrow> True
           | SO_greater \<Rightarrow> False
           | SO_equal \<Rightarrow>
               (let shared = min (length (raw_adjacency (rk_path l))) (length (raw_adjacency (rk_path r)))
                in compare_sequences (take shared (view_links v (rk_path l))) (take shared (view_links v (rk_path r))) = SO_less))"

definition hop_input :: "PlanningView \<Rightarrow> nat \<Rightarrow> HopCostInput" where
  "hop_input v a =
     (let entry = view_adjacency v ! a in
      \<lparr>hc_static = edge_static_cost (EdgeAt v (adj_edge entry)), hc_degraded = adj_degraded entry,
       hc_outside = adj_outside_locality entry\<rparr>)"

definition ComputeRawPathCost :: "PlanningView \<Rightarrow> RawPath \<Rightarrow> PathCost option" where
  "ComputeRawPathCost v raw = AccumulatePathCost (map (hop_input v) (raw_adjacency raw)) (view_cost_model v)"

definition RawPathRanksBefore :: "PlanningView \<Rightarrow> RawPath \<Rightarrow> RawPath \<Rightarrow> bool" where
  "RawPathRanksBefore v l r =
     (case (ComputeRawPathCost v l, ComputeRawPathCost v r) of
        (Some a, Some b) \<Rightarrow> RankedBefore v \<lparr>rk_path = l, rk_cost = a\<rparr> \<lparr>rk_path = r, rk_cost = b\<rparr>
      | (lhs_cost, _) \<Rightarrow> lhs_cost \<noteq> None)"

text \<open>
  The member limit: a sorted table of (domain, count), one increment per membership of a traversed
  link.  The counters are 32-bit in the source and stop at the first count above the limit.
\<close>

fun count_domains :: "nat \<Rightarrow> FailureDomainId list \<Rightarrow> (FailureDomainId \<times> nat) list \<Rightarrow> (FailureDomainId \<times> nat) list option" where
  "count_domains limit [] counts = Some counts"
| "count_domains limit (domain # ds) counts =
     (let i = lower_bound (\<lambda>item. fst item < domain) counts;
          counts = (if i = length counts \<or> fst (counts ! i) \<noteq> domain then take i counts @ (domain, 0) # drop i counts else counts);
          counts = counts[i := (domain, snd (counts ! i) + 1)]
      in if snd (counts ! i) > limit then None else count_domains limit ds counts)"

fun member_limit_loop :: "PlanningView \<Rightarrow> nat \<Rightarrow> bool \<Rightarrow> nat list \<Rightarrow> (FailureDomainId \<times> nat) list \<Rightarrow> bool" where
  "member_limit_loop v limit fail_closed [] counts = True"
| "member_limit_loop v limit fail_closed (a # as) counts =
     (let membership = MembershipOf (snap_failure_domains (view_snapshot v))
            (ForLink (edge_id (EdgeAt v (adj_edge (view_adjacency v ! a)))))
      in if \<not> mem_known membership
         then (if fail_closed then False else member_limit_loop v limit fail_closed as counts)
         else case count_domains limit (mem_domains membership) counts of
                None \<Rightarrow> False
              | Some counts \<Rightarrow> member_limit_loop v limit fail_closed as counts)"

definition DomainMemberLimitCompliant :: "PlanningView \<Rightarrow> RawPath \<Rightarrow> nat \<Rightarrow> bool \<Rightarrow> bool" where
  "DomainMemberLimitCompliant v raw limit fail_closed =
     (if raw_adjacency raw = [] then True else member_limit_loop v limit fail_closed (raw_adjacency raw) [])"

definition build_hop :: "PlanningView \<Rightarrow> nat \<Rightarrow> PathHop" where
  "build_hop v a =
     (let entry = view_adjacency v ! a; edge = EdgeAt v (adj_edge entry) in
      \<lparr>hop_link = edge_id edge, hop_from = edge_from edge, hop_to = edge_to edge, hop_from_port = edge_from_port edge,
       hop_to_port = edge_to_port edge, hop_layer = edge_layer edge, hop_relationship = edge_relationship edge,
       hop_structural_generation = edge_structural_generation edge, hop_static_cost = edge_static_cost edge,
       hop_link_state = LinkStateView_StateOf (snap_link_states (view_snapshot v)) (edge_id edge),
       hop_degraded = adj_degraded entry\<rparr>)"

definition BuildCandidatePath :: "PlanningView \<Rightarrow> RawPath \<Rightarrow> CandidatePath" where
  "BuildCandidatePath v raw =
     (if raw_nodes raw = []
      then \<lparr>path_source = nil_id 16, path_destination = nil_id 16, path_layer = Layer_kPhysical, path_nodes = [], path_hops = []\<rparr>
      else \<lparr>path_source = node_id (NodeAt v (hd (raw_nodes raw))), path_destination = node_id (NodeAt v (last (raw_nodes raw))),
            path_layer = view_layer v, path_nodes = map (\<lambda>i. node_id (NodeAt v i)) (raw_nodes raw),
            path_hops = map (build_hop v) (raw_adjacency raw)\<rparr>)"

section \<open>The queue\<close>

record QueueEntry =
  qe_cost :: CostValue
  qe_hops :: nat
  qe_state :: nat

definition QueueGreater :: "QueueEntry \<Rightarrow> QueueEntry \<Rightarrow> bool" where
  "QueueGreater l r =
     (if qe_cost l \<noteq> qe_cost r then qe_cost l > qe_cost r
      else if qe_hops l \<noteq> qe_hops r then qe_hops l > qe_hops r
      else qe_state l > qe_state r)"

fun queue_push :: "QueueEntry \<Rightarrow> QueueEntry list \<Rightarrow> QueueEntry list" where
  "queue_push e [] = [e]"
| "queue_push e (x # xs) = (if QueueGreater e x then x # queue_push e xs else e # x # xs)"

definition BetterLabel :: "CostValue \<Rightarrow> nat \<Rightarrow> CostValue \<Rightarrow> nat \<Rightarrow> bool" where
  "BetterLabel cost hops other_cost other_hops = (if cost \<noteq> other_cost then cost < other_cost else hops < other_hops)"

definition HopIncrement :: "PlanningView \<Rightarrow> Adjacency \<Rightarrow> CostValue option" where
  "HopIncrement v entry = CostAdd (hop_cost (view_cost_model v)) (adj_traversal_cost entry)"

definition AdjacencyBegin :: "PlanningView \<Rightarrow> nat \<Rightarrow> nat" where "AdjacencyBegin v node = view_offsets v ! node"

definition AdjacencyEnd :: "PlanningView \<Rightarrow> nat \<Rightarrow> nat" where "AdjacencyEnd v node = view_offsets v ! (node + 1)"

abbreviation adjacency_range :: "PlanningView \<Rightarrow> nat \<Rightarrow> nat list" where
  "adjacency_range v node \<equiv> [AdjacencyBegin v node..<AdjacencyEnd v node]"

section \<open>Search over nodes\<close>

record PlainState =
  ps_dist :: "CostValue list"
  ps_hops :: "nat list"
  ps_settled :: "bool list"
  ps_queue :: "QueueEntry list"
  ps_work :: Searcher
  ps_overflow :: bool

text \<open>The body of the relaxation loop for one adjacency of the settled node; \<open>False\<close> is the early return on a spent budget.\<close>

definition relax_plain :: "PlanningView \<Rightarrow> BanSet \<Rightarrow> nat \<Rightarrow> nat \<Rightarrow> CostValue \<Rightarrow> nat \<Rightarrow> PlainState \<Rightarrow> bool \<times> PlainState" where
  "relax_plain v bans hop_budget node entry_cost a st =
     (if AdjacencyBanned bans a then (True, st)
      else let candidate = view_adjacency v ! a in
      if NodeBanned bans (adj_to candidate) then (True, st)
      else let next_hops = ps_hops st ! node + 1 in
      if hop_budget \<noteq> kNoHopBound \<and> next_hops > hop_budget then (True, st)
      else case HopIncrement v candidate of
        None \<Rightarrow> (True, st\<lparr>ps_overflow := True\<rparr>)
      | Some increment \<Rightarrow>
        (case CostAdd entry_cost increment of
           None \<Rightarrow> (True, st\<lparr>ps_overflow := True\<rparr>)
         | Some next_cost \<Rightarrow>
           (case SpendState (ps_work st) of
              (False, w) \<Rightarrow> (False, st\<lparr>ps_work := w\<rparr>)
            | (True, w) \<Rightarrow>
                if \<not> BetterLabel next_cost next_hops (ps_dist st ! adj_to candidate) (ps_hops st ! adj_to candidate)
                then (True, st\<lparr>ps_work := w\<rparr>)
                else let (ok, w) = SpendPush w in
                  (ok, st\<lparr>ps_dist := (ps_dist st)[adj_to candidate := next_cost],
                          ps_hops := (ps_hops st)[adj_to candidate := next_hops],
                          ps_queue := queue_push \<lparr>qe_cost = next_cost, qe_hops = next_hops, qe_state = adj_to candidate\<rparr> (ps_queue st),
                          ps_work := w\<rparr>))))"

definition plain_weight :: "PlainState \<Rightarrow> nat" where
  "plain_weight st = 2 * pushes_remaining (sr_budget (ps_work st)) + length (ps_queue st)"

lemma length_queue_push [simp]: "length (queue_push e q) = Suc (length q)"
  by (induction q) auto

lemma relax_plain_weight: "relax_plain v bans b node c a st = (True, st') \<Longrightarrow> plain_weight st' \<le> plain_weight st"
  by (auto simp: relax_plain_def SpendState_def SpendPush_def plain_weight_def Let_def split: if_splits option.splits)

lemma for_each_invariant:
  assumes "for_each f xs s = (True, s')" "P s" "\<And>x s s'. \<lbrakk>x \<in> set xs; f x s = (True, s'); P s\<rbrakk> \<Longrightarrow> P s'"
  shows "P s'"
  using assms
proof (induction xs arbitrary: s)
  case (Cons x xs)
  then obtain t where t: "f x s = (True, t)" "for_each f xs t = (True, s')" by (auto split: prod.splits bool.splits)
  have "P t" using Cons.prems(2,3) t(1) by auto
  with Cons.IH [OF t(2)] Cons.prems(3) show ?case by auto
qed simp

lemma relax_all_weight:
  "for_each (relax_plain v bans b node c) xs st = (True, st') \<Longrightarrow> plain_weight st' \<le> plain_weight st"
  by (rule for_each_invariant [where P = "\<lambda>s. plain_weight s \<le> plain_weight st"])
    (auto dest: relax_plain_weight)

text \<open>
  The main loop.  Every turn removes an entry, and every new entry is paid for with a push of the
  budget, so the loop ends.
\<close>

function plain_loop :: "PlanningView \<Rightarrow> BanSet \<Rightarrow> nat \<Rightarrow> PlainState \<Rightarrow> bool \<times> PlainState" where
  "plain_loop v bans hop_budget st =
     (case ps_queue st of
        [] \<Rightarrow> (True, st)
      | entry # rest \<Rightarrow>
          let node = qe_state entry; st1 = st\<lparr>ps_queue := rest\<rparr> in
          if ps_settled st1 ! node then plain_loop v bans hop_budget st1
          else if BetterLabel (ps_dist st1 ! node) (ps_hops st1 ! node) (qe_cost entry) (qe_hops entry)
          then plain_loop v bans hop_budget st1
          else case for_each (relax_plain v bans hop_budget node (qe_cost entry)) (adjacency_range v node)
                      (st1\<lparr>ps_settled := (ps_settled st1)[node := True]\<rparr>) of
                 (False, st2) \<Rightarrow> (False, st2)
               | (True, st2) \<Rightarrow> plain_loop v bans hop_budget st2)"
  by pat_completeness auto
termination
proof (relation "measure (\<lambda>(v, bans, b, st). plain_weight st)", goal_cases)
  case 4
  from relax_all_weight [OF 4(6) [unfolded 4(7), symmetric]] 4(1-3) show ?case by (simp add: plain_weight_def)
qed (auto simp: plain_weight_def)

declare plain_loop.simps [simp del]

text \<open>The entries of an optimal continuation: not banned, one hop further, still able to reach the end, exact cost.\<close>

definition plain_tight :: "PlanningView \<Rightarrow> BanSet \<Rightarrow> PlainState \<Rightarrow> bool list \<Rightarrow> nat \<Rightarrow> nat \<Rightarrow> nat \<Rightarrow> bool" where
  "plain_tight v bans st can_reach node node_hops a \<longleftrightarrow>
     (let candidate = view_adjacency v ! a in
      \<not> AdjacencyBanned bans a \<and> \<not> NodeBanned bans (adj_to candidate) \<and>
      ps_hops st ! adj_to candidate = node_hops + 1 \<and> can_reach ! adj_to candidate \<and>
      (case HopIncrement v candidate of
         None \<Rightarrow> False
       | Some increment \<Rightarrow> CostAdd (ps_dist st ! node) increment = Some (ps_dist st ! adj_to candidate)))"

definition plain_buckets :: "PlanningView \<Rightarrow> PlainState \<Rightarrow> nat \<Rightarrow> nat list list" where
  "plain_buckets v st target_hops =
     fold (\<lambda>node bs. if ps_dist st ! node \<noteq> CostValue_Max \<and> ps_hops st ! node \<le> target_hops
                     then bs[ps_hops st ! node := bs ! (ps_hops st ! node) @ [node]] else bs)
       [0..<NodeCount v] (replicate (target_hops + 1) [])"

definition plain_can_reach :: "PlanningView \<Rightarrow> BanSet \<Rightarrow> PlainState \<Rightarrow> nat \<Rightarrow> nat \<Rightarrow> bool list" where
  "plain_can_reach v bans st dest target_hops =
     fold (\<lambda>current can_reach.
        fold (\<lambda>node can_reach.
            can_reach[node := list_ex (plain_tight v bans st can_reach node current) (adjacency_range v node)])
          (plain_buckets v st target_hops ! current) can_reach)
       (rev [0..<target_hops]) ((replicate (NodeCount v) False)[dest := True])"

datatype Rebuilt = Rebuilt RawPath | Stuck | Out_of_fuel

fun plain_rebuild :: "PlanningView \<Rightarrow> BanSet \<Rightarrow> PlainState \<Rightarrow> bool list \<Rightarrow> nat \<Rightarrow> nat \<Rightarrow> nat \<Rightarrow> RawPath \<Rightarrow> Rebuilt" where
  "plain_rebuild v bans st can_reach dest fuel current path =
     (if current = dest then Rebuilt path
      else case fuel of
        0 \<Rightarrow> Out_of_fuel
      | Suc fuel \<Rightarrow>
         (case List.find (plain_tight v bans st can_reach current (ps_hops st ! current)) (adjacency_range v current) of
            None \<Rightarrow> Stuck
          | Some a \<Rightarrow> plain_rebuild v bans st can_reach dest fuel (adj_to (view_adjacency v ! a))
              \<lparr>raw_nodes = raw_nodes path @ [adj_to (view_adjacency v ! a)], raw_adjacency = raw_adjacency path @ [a]\<rparr>))"

declare plain_rebuild.simps [simp del]

definition plain_start :: "PlanningView \<Rightarrow> nat \<Rightarrow> Searcher \<Rightarrow> PlainState" where
  "plain_start v source w =
     \<lparr>ps_dist = (replicate (NodeCount v) CostValue_Max)[source := 0], ps_hops = (replicate (NodeCount v) kInfiniteHops)[source := 0],
      ps_settled = replicate (NodeCount v) False, ps_queue = [\<lparr>qe_cost = 0, qe_hops = 0, qe_state = source\<rparr>],
      ps_work = w, ps_overflow = False\<rparr>"

text \<open>The hop count strictly grows along the walk and stays below \<open>NodeCount\<close>, which is the fuel.\<close>

definition PlainSearch :: "PlanningView \<Rightarrow> nat \<Rightarrow> nat \<Rightarrow> nat \<Rightarrow> BanSet \<Rightarrow> Searcher \<Rightarrow> SearchOutcome \<times> Searcher" where
  "PlainSearch v source dest hop_budget bans w =
     (case SpendPush w of
        (False, w) \<Rightarrow> (SearchOutcome_new\<lparr>out_resource_limit := True\<rparr>, w)
      | (True, w) \<Rightarrow>
        (case plain_loop v bans hop_budget (plain_start v source w) of
           (False, st) \<Rightarrow> (SearchOutcome_new\<lparr>out_resource_limit := True, out_cost_overflow := ps_overflow st\<rparr>, ps_work st)
         | (True, st) \<Rightarrow>
             let outcome = SearchOutcome_new\<lparr>out_cost_overflow := ps_overflow st\<rparr> in
             if ps_dist st ! dest = CostValue_Max then (outcome, ps_work st)
             else let can_reach = plain_can_reach v bans st dest (ps_hops st ! dest) in
             if \<not> can_reach ! source then (outcome, ps_work st)
             else case plain_rebuild v bans st can_reach dest (NodeCount v) source \<lparr>raw_nodes = [source], raw_adjacency = []\<rparr> of
                    Rebuilt path \<Rightarrow> (outcome\<lparr>out_found := True, out_path := path\<rparr>, ps_work st)
                  | _ \<Rightarrow> (outcome, ps_work st)))"

section \<open>Search over (hops, node) states\<close>

record ExpandedState =
  es_dist :: "CostValue list"
  es_settled :: "bool list"
  es_queue :: "QueueEntry list"
  es_work :: Searcher
  es_overflow :: bool

definition index_of :: "PlanningView \<Rightarrow> nat \<Rightarrow> nat \<Rightarrow> nat" where
  "index_of v hops node = hops * NodeCount v + node"

definition relax_expanded :: "PlanningView \<Rightarrow> BanSet \<Rightarrow> QueueEntry \<Rightarrow> nat \<Rightarrow> ExpandedState \<Rightarrow> bool \<times> ExpandedState" where
  "relax_expanded v bans entry a st =
     (if AdjacencyBanned bans a then (True, st)
      else let candidate = view_adjacency v ! a in
      if NodeBanned bans (adj_to candidate) then (True, st)
      else case HopIncrement v candidate of
        None \<Rightarrow> (True, st\<lparr>es_overflow := True\<rparr>)
      | Some increment \<Rightarrow>
        (case CostAdd (qe_cost entry) increment of
           None \<Rightarrow> (True, st\<lparr>es_overflow := True\<rparr>)
         | Some next_cost \<Rightarrow>
           (case SpendState (es_work st) of
              (False, w) \<Rightarrow> (False, st\<lparr>es_work := w\<rparr>)
            | (True, w) \<Rightarrow>
                let next_state = index_of v (qe_hops entry + 1) (adj_to candidate) in
                if es_dist st ! next_state \<le> next_cost then (True, st\<lparr>es_work := w\<rparr>)
                else let (ok, w) = SpendPush w in
                  (ok, st\<lparr>es_dist := (es_dist st)[next_state := next_cost],
                          es_queue := queue_push \<lparr>qe_cost = next_cost, qe_hops = qe_hops entry + 1, qe_state = adj_to candidate\<rparr>
                            (es_queue st),
                          es_work := w\<rparr>))))"

definition expanded_weight :: "ExpandedState \<Rightarrow> nat" where
  "expanded_weight st = 2 * pushes_remaining (sr_budget (es_work st)) + length (es_queue st)"

lemma relax_expanded_weight: "relax_expanded v bans e a st = (True, st') \<Longrightarrow> expanded_weight st' \<le> expanded_weight st"
  by (auto simp: relax_expanded_def SpendState_def SpendPush_def expanded_weight_def Let_def split: if_splits option.splits)

lemma relax_all_expanded_weight:
  "for_each (relax_expanded v bans e) xs st = (True, st') \<Longrightarrow> expanded_weight st' \<le> expanded_weight st"
  by (rule for_each_invariant [where P = "\<lambda>s. expanded_weight s \<le> expanded_weight st"])
    (auto dest: relax_expanded_weight)

function expanded_loop :: "PlanningView \<Rightarrow> BanSet \<Rightarrow> nat \<Rightarrow> ExpandedState \<Rightarrow> bool \<times> ExpandedState" where
  "expanded_loop v bans hop_budget st =
     (case es_queue st of
        [] \<Rightarrow> (True, st)
      | entry # rest \<Rightarrow>
          let state = index_of v (qe_hops entry) (qe_state entry); st1 = st\<lparr>es_queue := rest\<rparr> in
          if es_settled st1 ! state then expanded_loop v bans hop_budget st1
          else if es_dist st1 ! state \<noteq> qe_cost entry then expanded_loop v bans hop_budget st1
          else let st2 = st1\<lparr>es_settled := (es_settled st1)[state := True]\<rparr> in
          if qe_hops entry = hop_budget then expanded_loop v bans hop_budget st2
          else case for_each (relax_expanded v bans entry) (adjacency_range v (qe_state entry)) st2 of
                 (False, st3) \<Rightarrow> (False, st3)
               | (True, st3) \<Rightarrow> expanded_loop v bans hop_budget st3)"
  by pat_completeness auto
termination
proof (relation "measure (\<lambda>(v, bans, b, st). expanded_weight st)", goal_cases)
  case 5
  from relax_all_expanded_weight [OF 5(8) [unfolded 5(9), symmetric]] 5(1-3,6) show ?case by (simp add: expanded_weight_def)
qed (auto simp: expanded_weight_def)

declare expanded_loop.simps [simp del]

definition expanded_start :: "PlanningView \<Rightarrow> nat \<Rightarrow> nat \<Rightarrow> Searcher \<Rightarrow> ExpandedState" where
  "expanded_start v source states w =
     \<lparr>es_dist = (replicate states CostValue_Max)[index_of v 0 source := 0], es_settled = replicate states False,
      es_queue = [\<lparr>qe_cost = 0, qe_hops = 0, qe_state = source\<rparr>], es_work = w, es_overflow = False\<rparr>"

text \<open>The best label of the destination over all hop counts within the budget.\<close>

definition best_label :: "PlanningView \<Rightarrow> ExpandedState \<Rightarrow> nat \<Rightarrow> nat \<Rightarrow> CostValue \<times> nat" where
  "best_label v st dest hop_budget =
     fold (\<lambda>hops (best_cost, best_hops).
        let value = es_dist st ! index_of v hops dest in
        if value = CostValue_Max then (best_cost, best_hops)
        else if value < best_cost \<or> value = best_cost \<and> hops < best_hops then (value, hops)
        else (best_cost, best_hops)) [0..<hop_budget + 1] (CostValue_Max, kInfiniteHops)"

definition expanded_tight :: "PlanningView \<Rightarrow> BanSet \<Rightarrow> ExpandedState \<Rightarrow> bool list \<Rightarrow> nat \<Rightarrow> nat \<Rightarrow> nat \<Rightarrow> bool" where
  "expanded_tight v bans st can_reach hops node a \<longleftrightarrow>
     (let candidate = view_adjacency v ! a; next_state = index_of v (hops + 1) (adj_to candidate) in
      \<not> AdjacencyBanned bans a \<and> \<not> NodeBanned bans (adj_to candidate) \<and> can_reach ! next_state \<and>
      (case HopIncrement v candidate of
         None \<Rightarrow> False
       | Some increment \<Rightarrow> CostAdd (es_dist st ! index_of v hops node) increment = Some (es_dist st ! next_state)))"

definition expanded_can_reach :: "PlanningView \<Rightarrow> BanSet \<Rightarrow> ExpandedState \<Rightarrow> nat \<Rightarrow> nat \<Rightarrow> bool list" where
  "expanded_can_reach v bans st dest best_hops =
     fold (\<lambda>hops can_reach.
        fold (\<lambda>node can_reach.
            if es_dist st ! index_of v hops node = CostValue_Max then can_reach
            else can_reach[index_of v hops node := list_ex (expanded_tight v bans st can_reach hops node) (adjacency_range v node)])
          [0..<NodeCount v] can_reach)
       (rev [0..<best_hops]) ((replicate (length (es_dist st)) False)[index_of v best_hops dest := True])"

fun expanded_rebuild :: "PlanningView \<Rightarrow> BanSet \<Rightarrow> ExpandedState \<Rightarrow> bool list \<Rightarrow> nat \<Rightarrow> nat \<Rightarrow> nat \<Rightarrow> nat \<Rightarrow> nat \<Rightarrow> RawPath \<Rightarrow> Rebuilt" where
  "expanded_rebuild v bans st can_reach dest best_hops fuel current hops path =
     (if current = dest \<and> hops = best_hops then Rebuilt path
      else case fuel of
        0 \<Rightarrow> Out_of_fuel
      | Suc fuel \<Rightarrow>
         (case List.find (expanded_tight v bans st can_reach hops current) (adjacency_range v current) of
            None \<Rightarrow> Stuck
          | Some a \<Rightarrow> expanded_rebuild v bans st can_reach dest best_hops fuel (adj_to (view_adjacency v ! a)) (hops + 1)
              \<lparr>raw_nodes = raw_nodes path @ [adj_to (view_adjacency v ! a)], raw_adjacency = raw_adjacency path @ [a]\<rparr>))"

declare expanded_rebuild.simps [simp del]

text \<open>States marked reachable lie on the levels up to the best hop count, so that many steps are enough fuel.\<close>

definition ExpandedSearch :: "PlanningView \<Rightarrow> nat \<Rightarrow> nat \<Rightarrow> nat \<Rightarrow> BanSet \<Rightarrow> Searcher \<Rightarrow> SearchOutcome \<times> Searcher" where
  "ExpandedSearch v source dest hop_budget bans w =
     (let states = (hop_budget + 1) * NodeCount v in
      if states > max_search_states (view_limits v)
      then (SearchOutcome_new\<lparr>out_resource_limit := True\<rparr>, w\<lparr>sr_budget := (sr_budget w)\<lparr>state_space_exceeded := True\<rparr>\<rparr>)
      else case SpendPush w of
        (False, w) \<Rightarrow> (SearchOutcome_new\<lparr>out_resource_limit := True\<rparr>, w)
      | (True, w) \<Rightarrow>
        (case expanded_loop v bans hop_budget (expanded_start v source states w) of
           (False, st) \<Rightarrow> (SearchOutcome_new\<lparr>out_resource_limit := True, out_cost_overflow := es_overflow st\<rparr>, es_work st)
         | (True, st) \<Rightarrow>
             let outcome = SearchOutcome_new\<lparr>out_cost_overflow := es_overflow st\<rparr>;
                 (best_cost, best_hops) = best_label v st dest hop_budget
             in if best_hops = kInfiniteHops then (outcome, es_work st)
             else case expanded_rebuild v bans st (expanded_can_reach v bans st dest best_hops) dest best_hops best_hops source 0
                      \<lparr>raw_nodes = [source], raw_adjacency = []\<rparr> of
                    Rebuilt path \<Rightarrow> (outcome\<lparr>out_found := True, out_path := path\<rparr>, es_work st)
                  | _ \<Rightarrow> (outcome, es_work st)))"

definition ShortestPath :: "PlanningView \<Rightarrow> nat \<Rightarrow> nat \<Rightarrow> nat \<Rightarrow> BanSet \<Rightarrow> Searcher \<Rightarrow> SearchOutcome \<times> Searcher" where
  "ShortestPath v source dest hop_budget bans w =
     (if source = dest then (SearchOutcome_new\<lparr>out_found := True, out_path := \<lparr>raw_nodes = [source], raw_adjacency = []\<rparr>\<rparr>, w)
      else let node_count = NodeCount v in
      if source \<ge> node_count \<or> dest \<ge> node_count then (SearchOutcome_new, w)
      else if hop_budget = 0 then (SearchOutcome_new, w)
      else if hop_budget = kNoHopBound then PlainSearch v source dest kNoHopBound bans w
      else let simple_bound = (if node_count = 0 then 0 else node_count - 1) in
      if hop_budget < simple_bound then ExpandedSearch v source dest hop_budget bans w
      else PlainSearch v source dest hop_budget bans w)"

end
