(* ===== verification/Enumerate.thy ===== *)
theory Enumerate
  imports Search
begin

text \<open>
  Candidate enumeration (\<open>EnumerateCandidatePaths\<close> of \<open>src/search.cpp\<close>): ordered transit stages, and the
  enumeration of up to the wanted number of paths by spur searches from the paths accepted so far.
  A \<open>return\<close> inside a loop is the \<open>Inl\<close> or the \<open>_return\<close> value of the loop's model.
\<close>

record EnumerationOptions =
  opt_source_view :: nat
  opt_destination_view :: nat
  opt_max_candidates :: nat
  opt_enumeration_ceiling :: nat
  opt_max_hops :: nat
  opt_domain_member_limit_active :: bool

record EnumerationResult =
  enr_ok :: bool
  enr_failure :: DiagnosticCode
  enr_resource_limit :: bool
  enr_truncated :: bool
  enr_paths :: "RawPath list"
  enr_detail :: string

definition EnumerationResult_new :: EnumerationResult where
  "EnumerationResult_new = \<lparr>enr_ok = False, enr_failure = DC_kNoStructuralPath, enr_resource_limit = False,
     enr_truncated = False, enr_paths = [], enr_detail = []\<rparr>"

definition enr_fail :: "DiagnosticCode \<Rightarrow> string \<Rightarrow> EnumerationResult" where
  "enr_fail code detail = EnumerationResult_new\<lparr>enr_failure := code, enr_detail := detail\<rparr>"

definition enr_limit :: "DiagnosticCode \<Rightarrow> string \<Rightarrow> EnumerationResult" where
  "enr_limit code detail = (enr_fail code detail)\<lparr>enr_resource_limit := True\<rparr>"

definition RawPathIsSimple :: "RawPath \<Rightarrow> bool" where
  "RawPathIsSimple p \<longleftrightarrow> \<not> adjacent_find (sort (raw_nodes p))"

definition ContainsRawPath :: "RankedRawPath list \<Rightarrow> RawPath \<Rightarrow> bool" where
  "ContainsRawPath paths candidate = list_ex (\<lambda>entry. SameRawPath (rk_path entry) candidate) paths"

definition append_leg :: "RawPath \<Rightarrow> RawPath \<Rightarrow> RawPath" where
  "append_leg p leg = \<lparr>raw_nodes = raw_nodes p @ tl (raw_nodes leg), raw_adjacency = raw_adjacency p @ raw_adjacency leg\<rparr>"

section \<open>Required transit\<close>

fun count_combinations :: "nat \<Rightarrow> TransitStage list \<Rightarrow> nat \<Rightarrow> nat \<Rightarrow> EnumerationResult + nat \<times> nat" where
  "count_combinations limit [] combinations alternatives = Inr (combinations, alternatives)"
| "count_combinations limit (stage # stages) combinations alternatives =
     (let size = length (stage_alternatives stage) in
      if size = 0 then Inl (enr_fail DC_kMalformedIdentifier ''transit stage has no alternatives'')
      else if combinations > limit div size
      then Inl (enr_limit DC_kConstraintCountExceeded ''required transit expands beyond the configured combination limit'')
      else count_combinations limit stages (combinations * size) (alternatives + size))"

text \<open>The choice of one alternative per stage: the digits of the combination number, last stage first.\<close>

fun digits :: "TransitStage list \<Rightarrow> nat \<Rightarrow> nat list" where
  "digits [] remainder = []"
| "digits (stage # stages) remainder =
     remainder mod length (stage_alternatives stage) # digits stages (remainder div length (stage_alternatives stage))"

definition selection :: "TransitStage list \<Rightarrow> nat \<Rightarrow> nat list" where
  "selection stages combination = rev (digits (rev stages) combination)"

datatype Legs = Legs_return EnumerationResult | Legs_failed DiagnosticCode | Legs_done RawPath nat nat

definition leg_budget :: "nat \<Rightarrow> nat \<Rightarrow> nat" where
  "leg_budget max_hops used = (if max_hops = kNoHopBound then kNoHopBound else max_hops - used)"

fun transit_legs :: "PlanningView \<Rightarrow> nat \<Rightarrow> (TransitStage \<times> nat) list \<Rightarrow> RawPath \<Rightarrow> nat \<Rightarrow> nat \<Rightarrow> Searcher \<Rightarrow> Legs \<times> Searcher" where
  "transit_legs v max_hops [] combined current used w = (Legs_done combined current used, w)"
| "transit_legs v max_hops ((stage, pick) # rest) combined current used w =
     (let target = ViewIndex v (stage_alternatives stage ! pick) in
      if target = kInvalidIndex then (Legs_failed DC_kRequiredNodeMissing, w)
      else if max_hops \<noteq> kNoHopBound \<and> used \<ge> max_hops then (Legs_failed DC_kMaxHopsExceeded, w)
      else let bans = fold BanSet_AddNode (filter (\<lambda>n. n \<noteq> current) (raw_nodes combined)) BanSet_new;
               (leg, w) = ShortestPath v current target (leg_budget max_hops used) bans w
      in if out_resource_limit leg
         then (Legs_return (enr_limit DC_kWorkBudgetExhausted ''work budget exhausted during a required transit leg''), w)
         else if \<not> out_found leg
         then (Legs_failed (if stage_kind stage = Transit_kExact then DC_kRequiredNodeMissing else DC_kRequiredAnySetUnsatisfied), w)
         else transit_legs v max_hops rest (append_leg combined (out_path leg)) target
                (used + RawPath_HopCount (out_path leg)) w)"

text \<open>One combination: a value to return, a failure code that replaces the last one, nothing, or a path.\<close>

datatype Combination = Combination_return EnumerationResult | Combination_failed "DiagnosticCode option" | Combination_path RankedRawPath

definition run_combination :: "PlanningView \<Rightarrow> EnumerationOptions \<Rightarrow> (TransitStage \<times> nat) list \<Rightarrow> Searcher \<Rightarrow> Combination \<times> Searcher" where
  "run_combination v options picks w =
     (let max_hops = opt_max_hops options; source = opt_source_view options; dest = opt_destination_view options in
      case transit_legs v max_hops picks \<lparr>raw_nodes = [source], raw_adjacency = []\<rparr> source 0 w of
        (Legs_return r, w) \<Rightarrow> (Combination_return r, w)
      | (Legs_failed code, w) \<Rightarrow> (Combination_failed (Some code), w)
      | (Legs_done combined current used, w) \<Rightarrow>
          if max_hops \<noteq> kNoHopBound \<and> used \<ge> max_hops \<and> current \<noteq> dest then (Combination_failed (Some DC_kMaxHopsExceeded), w)
          else let bans = fold BanSet_AddNode (filter (\<lambda>n. n \<noteq> current \<and> n \<noteq> dest) (raw_nodes combined)) BanSet_new;
                   (leg, w) = ShortestPath v current dest (leg_budget max_hops used) bans w
          in if out_resource_limit leg
             then (Combination_return (enr_limit DC_kWorkBudgetExhausted ''work budget exhausted during the final transit leg''), w)
             else if \<not> out_found leg then (Combination_failed (Some DC_kMaxHopsExceeded), w)
             else let combined = append_leg combined (out_path leg) in
             if \<not> RawPathIsSimple combined then (Combination_failed None, w)
             else case ComputeRawPathCost v combined of
                    None \<Rightarrow> (Combination_failed (Some DC_kCostOverflow), w)
                  | Some cost \<Rightarrow> (Combination_path \<lparr>rk_path = combined, rk_cost = cost\<rparr>, w))"

fun combinations_loop :: "PlanningView \<Rightarrow> EnumerationOptions \<Rightarrow> TransitStage list \<Rightarrow> nat list \<Rightarrow> RankedRawPath option \<Rightarrow>
    DiagnosticCode \<Rightarrow> Searcher \<Rightarrow> (EnumerationResult + RankedRawPath option \<times> DiagnosticCode) \<times> Searcher" where
  "combinations_loop v options stages [] best leg_failure w = (Inr (best, leg_failure), w)"
| "combinations_loop v options stages (c # cs) best leg_failure w =
     (case run_combination v options (zip stages (selection stages c)) w of
        (Combination_return r, w) \<Rightarrow> (Inl r, w)
      | (Combination_failed code, w) \<Rightarrow>
          combinations_loop v options stages cs best (case code of None \<Rightarrow> leg_failure | Some code \<Rightarrow> code) w
      | (Combination_path ranked, w) \<Rightarrow>
          combinations_loop v options stages cs
            (case best of None \<Rightarrow> Some ranked | Some b \<Rightarrow> if RankedBefore v ranked b then Some ranked else best) leg_failure w)"

definition transit_enumeration :: "PlanningView \<Rightarrow> EnumerationOptions \<Rightarrow> TransitStage list \<Rightarrow> Searcher \<Rightarrow> EnumerationResult \<times> Searcher" where
  "transit_enumeration v options stages w =
     (if opt_max_candidates options > 1
      then (enr_fail DC_kUnsupportedRequest
        ''K > 1 with required transit stages is not supported: staged legs have no proven K-shortest semantics'', w)
      else case count_combinations (max_transit_combinations (view_limits v)) stages 1 0 of
        Inl r \<Rightarrow> (r, w)
      | Inr (combinations, alternatives) \<Rightarrow>
          if alternatives > max_transit_alternatives (view_limits v)
          then (enr_limit DC_kConstraintCountExceeded ''required transit alternative count exceeds the configured limit'', w)
          else if combinations > max_transit_combinations (view_limits v)
          then (enr_limit DC_kConstraintCountExceeded ''required transit combination count exceeds the configured limit'', w)
          else case combinations_loop v options stages [0..<combinations] None DC_kRequiredNodeMissing w of
            (Inl r, w) \<Rightarrow> (r, w)
          | (Inr (None, leg_failure), w) \<Rightarrow> (enr_fail leg_failure ''no staged path satisfies the ordered transit requirement'', w)
          | (Inr (Some best, _), w) \<Rightarrow> (EnumerationResult_new\<lparr>enr_ok := True, enr_paths := [rk_path best]\<rparr>, w))"

section \<open>Deviations from the accepted paths\<close>

definition spur_bans :: "RankedRawPath list \<Rightarrow> RankedRawPath \<Rightarrow> nat \<Rightarrow> BanSet" where
  "spur_bans accepted previous spur_index =
     (let nodes = raw_nodes (rk_path previous);
          bans = fold BanSet_AddNode (take spur_index nodes) BanSet_new
      in fold (\<lambda>candidate bans.
           if length (raw_nodes (rk_path candidate)) > spur_index + 1 \<and>
              take (spur_index + 1) (raw_nodes (rk_path candidate)) = take (spur_index + 1) nodes
           then BanSet_AddAdjacency (raw_adjacency (rk_path candidate) ! spur_index) bans else bans) accepted bans)"

record YenState =
  y_pending :: "RankedRawPath list"
  y_work :: Searcher
  y_return :: EnumerationResult

definition spur_step :: "PlanningView \<Rightarrow> EnumerationOptions \<Rightarrow> RankedRawPath list \<Rightarrow> RankedRawPath \<Rightarrow> nat \<Rightarrow> YenState \<Rightarrow> bool \<times> YenState" where
  "spur_step v options accepted previous spur_index st =
     (let bans = spur_bans accepted previous spur_index; w = y_work st; b = sr_budget w in
      if spur_remaining b = 0
      then (False, st\<lparr>y_work := w\<lparr>sr_budget := b\<lparr>exhausted := True\<rparr>\<rparr>,
              y_return := enr_limit DC_kWorkBudgetExhausted ''spur search budget exhausted''\<rparr>)
      else let w = w\<lparr>sr_budget := b\<lparr>spur_remaining := spur_remaining b - 1\<rparr>,
                     sr_stats := (sr_stats w)\<lparr>spur_searches := spur_searches (sr_stats w) + 1\<rparr>\<rparr>;
               (spur, w) = ShortestPath v (raw_nodes (rk_path previous) ! spur_index) (opt_destination_view options)
                  (leg_budget (opt_max_hops options) spur_index) bans w
      in if out_resource_limit spur
         then (False, st\<lparr>y_work := w, y_return := enr_limit DC_kWorkBudgetExhausted ''work budget exhausted during a spur search''\<rparr>)
         else if \<not> out_found spur then (True, st\<lparr>y_work := w\<rparr>)
         else let total = append_leg \<lparr>raw_nodes = take (spur_index + 1) (raw_nodes (rk_path previous)),
                    raw_adjacency = take spur_index (raw_adjacency (rk_path previous))\<rparr> (out_path spur)
         in if \<not> RawPathIsSimple total then (True, st\<lparr>y_work := w\<rparr>)
         else if ContainsRawPath accepted total \<or> ContainsRawPath (y_pending st) total then (True, st\<lparr>y_work := w\<rparr>)
         else case ComputeRawPathCost v total of
                None \<Rightarrow> (True, st\<lparr>y_work := w\<rparr>)
              | Some cost \<Rightarrow> (True, st\<lparr>y_work := w, y_pending := y_pending st @ [\<lparr>rk_path = total, rk_cost = cost\<rparr>]\<rparr>))"

definition best_pending :: "PlanningView \<Rightarrow> RankedRawPath list \<Rightarrow> nat" where
  "best_pending v pending =
     fold (\<lambda>index best. if RankedBefore v (pending ! index) (pending ! best) then index else best) [1..<length pending] 0"

function yen_loop :: "PlanningView \<Rightarrow> EnumerationOptions \<Rightarrow> nat \<Rightarrow> RankedRawPath list \<Rightarrow> YenState \<Rightarrow>
    (EnumerationResult + RankedRawPath list) \<times> Searcher" where
  "yen_loop v options wanted accepted st =
     (if \<not> length accepted < wanted then (Inr accepted, y_work st)
      else case for_each (spur_step v options accepted (last accepted)) [0..<RawPath_HopCount (rk_path (last accepted))] st of
        (False, st) \<Rightarrow> (Inl (y_return st), y_work st)
      | (True, st) \<Rightarrow>
          if y_pending st = [] then (Inr accepted, y_work st)
          else let best = best_pending v (y_pending st) in
            yen_loop v options wanted (accepted @ [y_pending st ! best])
              (st\<lparr>y_pending := take best (y_pending st) @ drop (best + 1) (y_pending st)\<rparr>))"
  by pat_completeness auto
termination
  by (relation "measure (\<lambda>(v, options, wanted, accepted, st). wanted - length accepted)") auto

declare yen_loop.simps [simp del]

fun compliant_paths :: "PlanningView \<Rightarrow> nat \<Rightarrow> bool \<Rightarrow> nat \<Rightarrow> RankedRawPath list \<Rightarrow> RankedRawPath list \<Rightarrow> RankedRawPath list" where
  "compliant_paths v limit fail_closed max_candidates [] compliant = compliant"
| "compliant_paths v limit fail_closed max_candidates (entry # entries) compliant =
     (let compliant = (if DomainMemberLimitCompliant v (rk_path entry) limit fail_closed then compliant @ [entry] else compliant)
      in if length compliant \<ge> max_candidates then compliant
         else compliant_paths v limit fail_closed max_candidates entries compliant)"

definition finish_enumeration :: "PlanningView \<Rightarrow> ConstraintSet \<Rightarrow> EnumerationOptions \<Rightarrow> nat \<Rightarrow> RankedRawPath list \<Rightarrow> EnumerationResult" where
  "finish_enumeration v constraints options wanted accepted =
     (let hit_ceiling = (length accepted \<ge> wanted);
          (accepted, truncated) =
            (case (opt_domain_member_limit_active options, cs_max_members constraints) of
               (True, Some limit) \<Rightarrow>
                 let compliant = compliant_paths v limit (fail_closed_on_unknown_domains constraints) (opt_max_candidates options) accepted []
                 in (compliant, length compliant < opt_max_candidates options \<and> hit_ceiling)
             | _ \<Rightarrow> (accepted, False));
          paths = map rk_path (take (opt_max_candidates options) accepted)
      in EnumerationResult_new\<lparr>enr_truncated := truncated, enr_paths := paths, enr_ok := (paths \<noteq> [])\<rparr>)"

definition yen_enumeration :: "PlanningView \<Rightarrow> ConstraintSet \<Rightarrow> EnumerationOptions \<Rightarrow> Searcher \<Rightarrow> EnumerationResult \<times> Searcher" where
  "yen_enumeration v constraints options w =
     (let wanted = (if opt_enumeration_ceiling options > 0 then opt_enumeration_ceiling options else opt_max_candidates options);
          (first, w) = ShortestPath v (opt_source_view options) (opt_destination_view options) (opt_max_hops options) BanSet_new w
      in if out_resource_limit first then (enr_limit DC_kWorkBudgetExhausted [], w)
         else if \<not> out_found first
         then (enr_fail (if out_cost_overflow first then DC_kCostOverflow else DC_kNoStructuralPath) [], w)
         else case ComputeRawPathCost v (out_path first) of
           None \<Rightarrow> (enr_fail DC_kCostOverflow [], w)
         | Some cost \<Rightarrow>
             (case yen_loop v options wanted [\<lparr>rk_path = out_path first, rk_cost = cost\<rparr>]
                 \<lparr>y_pending = [], y_work = w, y_return = EnumerationResult_new\<rparr> of
                (Inl r, w) \<Rightarrow> (r, w)
              | (Inr accepted, w) \<Rightarrow> (finish_enumeration v constraints options wanted accepted, w)))"

definition EnumerateCandidatePaths :: "PlanningView \<Rightarrow> PlanningRequest \<Rightarrow> EnumerationOptions \<Rightarrow> Searcher \<Rightarrow> EnumerationResult \<times> Searcher" where
  "EnumerateCandidatePaths v request options w =
     (if required_transit (rq_constraints request) \<noteq> []
      then transit_enumeration v options (required_transit (rq_constraints request)) w
      else yen_enumeration v (rq_constraints request) options w)"

end
