(* ===== verification/Planner.thy ===== *)
theory Planner
  imports Enumerate "HOL-Library.AList"
begin

text \<open>
  Computing a plan (\<open>src/planner.cpp\<close>, the part of \<open>PlannerRuntime::Plan\<close> between the capture of its
  inputs and the publication): admission of the request, endpoint resolution, candidate computation
  and ranking, the Path Authority port, and the classification of failures.

  What a plan reads under the first lock is the \<open>Captured\<close> record.  The Path Authority port is an
  interface that callers implement: it is a function of the path and the evidence, kept in the
  record.  Stage notifications observe only and are left out.  An early \<open>return\<close> is \<open>Inl\<close> of the result.
\<close>

type_synonym PathAuthority = "CandidatePath \<Rightarrow> EvidenceVector \<Rightarrow> AuthorityValidation \<times> string"

record Captured =
  cap_limits :: ResourceLimits
  cap_snapshot :: "FabricSnapshot option"
  cap_sequence :: u64
  cap_epoch :: Generation
  cap_authority :: "PathAuthority option"

definition EvidenceVector_new :: EvidenceVector where
  "EvidenceVector_new = \<lparr>ev_snapshot = nil_id 16, ev_generations = SnapshotGenerations_zero, ev_source = Src_kSynthetic,
     ev_publish_sequence = 0\<rparr>"

definition PlanningResult_new :: PlanningResult where
  "PlanningResult_new = \<lparr>res_status = Status_kNoPath, res_primary_failure = None, res_source_endpoint = nil_id 16,
     res_destination_endpoint = nil_id 16, res_source_node = nil_id 16, res_destination_node = nil_id 16, res_candidates = [],
     res_rejections = [], res_explanations = [], res_evidence = EvidenceVector_new, res_plan_id = nil_id 16,
     res_planning_generation = 0, res_semantic_digest = replicate 32 0, res_requested_candidates = 0, res_truncated = False,
     res_diagnostic_mode = False\<rparr>"

definition explain :: "DiagnosticCode \<Rightarrow> string \<Rightarrow> PlanningResult \<Rightarrow> PlanningResult" where
  "explain code detail r = r\<lparr>res_explanations := res_explanations r @ [\<lparr>expl_code = code, expl_detail = detail\<rparr>]\<rparr>"

definition refuse :: "PlanStatus \<Rightarrow> DiagnosticCode \<Rightarrow> string \<Rightarrow> PlanningResult \<Rightarrow> PlanningResult" where
  "refuse status code detail r = explain code detail (r\<lparr>res_status := status, res_primary_failure := Some code\<rparr>)"

section \<open>Evidence differences\<close>

definition EvidenceChangeDetail :: "string \<Rightarrow> u64 \<Rightarrow> u64 \<Rightarrow> string" where
  "EvidenceChangeDetail dimension before after =
     dimension @ '' generation changed: '' @ StrongUInt_ToString before @ '' -> '' @ StrongUInt_ToString after"

definition changed :: "bool \<Rightarrow> DiagnosticCode \<Rightarrow> string \<Rightarrow> ExplanationEntry list" where
  "changed differs code detail = (if differs then [\<lparr>expl_code = code, expl_detail = detail\<rparr>] else [])"

definition DiffEvidence :: "EvidenceVector \<Rightarrow> EvidenceVector \<Rightarrow> ExplanationEntry list" where
  "DiffEvidence prior current =
     (let p = ev_generations prior; c = ev_generations current;
          dimension = \<lambda>name code before after. changed (before \<noteq> after) code (EvidenceChangeDetail name before after)
      in dimension ''topology'' DC_kTopologyGenerationMismatch (gen_topology p) (gen_topology c) @
         dimension ''link-state'' DC_kStaleEvidence (gen_link_state p) (gen_link_state c) @
         dimension ''port'' DC_kStaleEvidence (gen_ports p) (gen_ports c) @
         dimension ''capability'' DC_kStaleEvidence (gen_capabilities p) (gen_capabilities c) @
         dimension ''failure-domain'' DC_kStaleEvidence (gen_failure_domains p) (gen_failure_domains c) @
         dimension ''policy'' DC_kStaleEvidence (gen_policy p) (gen_policy c) @
         dimension ''fabric epoch'' DC_kEpochMismatch (gen_epoch p) (gen_epoch c) @
         changed (ev_snapshot prior \<noteq> ev_snapshot current) DC_kStaleEvidence (''snapshot identity changed: '' @
           FixedId_ToString (ev_snapshot prior) @ '' -> '' @ FixedId_ToString (ev_snapshot current)) @
         changed (ev_publish_sequence prior \<noteq> ev_publish_sequence current) DC_kInvalidationWatermarkChanged
           (''publication watermark advanced: '' @ StrongUInt_ToString (ev_publish_sequence prior) @ '' -> '' @
            StrongUInt_ToString (ev_publish_sequence current)))"

section \<open>Structural distance\<close>

text \<open>
  The breadth-first search of the structural graph.  Nodes are addressed by the text of their
  identifier; \<open>emplace\<close> keeps the first entry of a key, as \<open>map_of\<close> does.  A node enters the queue when
  its distance is set, which happens once, so the number of nodes is enough fuel.
\<close>

definition node_index :: "NodeRecord list \<Rightarrow> NodeId \<Rightarrow> nat option" where
  "node_index nodes x = map_of (zip (map (\<lambda>n. FixedId_ToString (node_id n)) nodes) [0..<length nodes]) (FixedId_ToString x)"

definition structural_target :: "FabricSnapshot \<Rightarrow> PlanningRequest \<Rightarrow> EdgeRecord \<Rightarrow> (nat \<times> nat) option" where
  "structural_target snapshot request edge =
     (if edge_layer edge \<noteq> cs_layer (rq_constraints request) then None
      else if binary_search (sort (forbidden_links (rq_constraints request))) (edge_id edge) then None
      else case (node_index (snap_nodes snapshot) (edge_from edge), node_index (snap_nodes snapshot) (edge_to edge)) of
        (Some i, Some j) \<Rightarrow>
          if binary_search (sort (forbidden_nodes (rq_constraints request))) (edge_from edge) \<or>
             binary_search (sort (forbidden_nodes (rq_constraints request))) (edge_to edge) then None
          else Some (i, j)
      | _ \<Rightarrow> None)"

definition structural_adjacency :: "FabricSnapshot \<Rightarrow> PlanningRequest \<Rightarrow> nat list list" where
  "structural_adjacency snapshot request =
     fold (\<lambda>edge adjacency. case structural_target snapshot request edge of
         None \<Rightarrow> adjacency
       | Some (i, j) \<Rightarrow> adjacency[i := adjacency ! i @ [j]])
       (snap_edges snapshot) (replicate (length (snap_nodes snapshot)) [])"

fun bfs :: "nat list list \<Rightarrow> nat \<Rightarrow> nat \<Rightarrow> nat list \<Rightarrow> nat list \<Rightarrow> nat option" where
  "bfs adjacency dest 0 queue distance = None"
| "bfs adjacency dest (Suc fuel) [] distance = None"
| "bfs adjacency dest (Suc fuel) (node # queue) distance =
     (if node = dest then Some (distance ! node)
      else let (queue, distance) = fold (\<lambda>n (queue, distance).
               if distance ! n = kInvalidIndex then (queue @ [n], distance[n := distance ! node + 1]) else (queue, distance))
             (adjacency ! node) (queue, distance)
           in bfs adjacency dest fuel queue distance)"

definition StructuralHopDistance :: "FabricSnapshot \<Rightarrow> NodeId \<Rightarrow> NodeId \<Rightarrow> PlanningRequest \<Rightarrow> nat option" where
  "StructuralHopDistance snapshot source destination request =
     (if source = destination then Some 0
      else case (node_index (snap_nodes snapshot) source, node_index (snap_nodes snapshot) destination) of
        (Some s, Some d) \<Rightarrow>
          bfs (structural_adjacency snapshot request) d (length (snap_nodes snapshot)) [s]
            ((replicate (length (snap_nodes snapshot)) kInvalidIndex)[s := 0])
      | _ \<Rightarrow> None)"

section \<open>Classification of failures\<close>

fun first_contained :: "RejectionLog \<Rightarrow> DiagnosticCode list \<Rightarrow> DiagnosticCode" where
  "first_contained log [] = DC_kNoStructuralPath"
| "first_contained log (code # codes) = (if RejectionLog_Contains log code then code else first_contained log codes)"

definition PrimaryFailure :: "PlanningView \<Rightarrow> bool \<Rightarrow> DiagnosticCode" where
  "PrimaryFailure v structural_reachable =
     (if \<not> structural_reachable
      then first_contained (view_rejections v) [DC_kForbiddenLink, DC_kForbiddenPort, DC_kForbiddenNode, DC_kLayerMismatch]
      else first_contained (view_rejections v)
        [DC_kLinkStateDown, DC_kLinkStateFaulted, DC_kLinkStateRetired, DC_kLinkStateRevalidationRequired,
         DC_kLinkStateUnknown, DC_kLinkStateDegradedDisallowed, DC_kPortAdminDisabled, DC_kPortDraining,
         DC_kPortMaintenance, DC_kPortRetired, DC_kPortSuperseded, DC_kPortRevalidationRequired, DC_kPortUnknown,
         DC_kCostOverflow, DC_kCapabilityUnknown, DC_kCapabilityInsufficient, DC_kFailureDomainForbidden,
         DC_kFailureDomainUnknown, DC_kFailureDomainClassForbidden, DC_kFailureDomainMemberLimitExceeded,
         DC_kForbiddenNode, DC_kForbiddenLink, DC_kForbiddenPort])"

definition StatusForFailure :: "DiagnosticCode \<Rightarrow> PlanStatus" where
  "StatusForFailure code =
     (if code \<in> {DC_kRequiredNodeMissing, DC_kRequiredAnySetUnsatisfied, DC_kMaxHopsExceeded, DC_kZeroHopSelfPathDisallowed,
         DC_kFailureDomainMemberLimitExceeded} then Status_kConstraintUnsatisfied
      else if code \<in> {DC_kCostOverflow, DC_kWorkBudgetExhausted, DC_kConstraintCountExceeded} then Status_kResourceLimit
      else if code = DC_kUnsupportedRequest then Status_kUnsupported
      else Status_kNoPath)"

section \<open>Endpoint resolution\<close>

definition side :: "bool \<Rightarrow> string" where "side is_source = (if is_source then ''source'' else ''destination'')"

definition ResolveEndpoint :: "FabricSnapshot \<Rightarrow> EndpointRef \<Rightarrow> bool \<Rightarrow>
    (PlanStatus \<times> DiagnosticCode \<times> string) + (EndpointRecord \<times> NodeRecord)" where
  "ResolveEndpoint snapshot ref is_source =
     (let unknown = (if is_source then Status_kSourceUnknown else Status_kDestinationUnknown) in
      case FindEndpoint snapshot (ref_id ref) of
        None \<Rightarrow> Inl (unknown, DC_kUnknownEndpoint, side is_source @ '' endpoint has no published binding: '' @ FixedId_ToString (ref_id ref))
      | Some record \<Rightarrow>
          if ep_class record \<noteq> ref_class ref
          then Inl (Status_kUnsupported, DC_kUnsupportedEndpointClass, side is_source @ '' endpoint class mismatch: requested '' @
            EnumName kEndpointClassNames (EndpointClass_value (ref_class ref)) @ '', published '' @
            EnumName kEndpointClassNames (EndpointClass_value (ep_class record)))
          else if ep_entity_generation record \<noteq> ref_generation ref
          then Inl (if is_source then Status_kSourceStale else Status_kDestinationStale, DC_kEntityGenerationMismatch,
            side is_source @ '' endpoint generation '' @ StrongUInt_ToString (ref_generation ref) @
            '' does not match published generation '' @ StrongUInt_ToString (ep_entity_generation record))
          else case FindNode snapshot (ep_node record) of
            None \<Rightarrow> Inl (unknown, DC_kUnknownEndpoint, side is_source @ '' endpoint resolves to an unknown node'')
          | Some node \<Rightarrow> Inr (record, node))"

section \<open>Admission\<close>

text \<open>The tests before the endpoints are looked at, in their order.\<close>

definition admit :: "Captured \<Rightarrow> PlanningRequest \<Rightarrow> PlanningResult + FabricSnapshot" where
  "admit cap request =
     (let r = PlanningResult_new; authority = rq_authority request in
      case ValidateRequest request (cap_limits cap) of
        Some (code, detail) \<Rightarrow> Inl (refuse (StatusForValidationCode code) code detail r)
      | None \<Rightarrow>
        if auth_enforce_scope authority \<and> \<not> HasScope (auth_scope_mask authority) Scope_kSubmitPlanRequest
        then Inl (refuse Status_kUnauthorized DC_kAuthorityScopeInsufficient ''caller authority does not include kSubmitPlanRequest'' r)
        else if auth_epoch_bound authority \<and> auth_coordinator_epoch authority \<noteq> cap_epoch cap
        then Inl (refuse Status_kEpochStale DC_kEpochMismatch (''request carries coordinator epoch '' @
          StrongUInt_ToString (auth_coordinator_epoch authority) @ '' but the runtime epoch is '' @ StrongUInt_ToString (cap_epoch cap)) r)
        else case cap_snapshot cap of
          None \<Rightarrow> Inl (refuse Status_kRevalidationRequired DC_kSnapshotNotAvailable ''no fabric snapshot has been published to this runtime'' r)
        | Some snapshot \<Rightarrow>
          let g = snap_generations snapshot in
          if rq_expect_epoch request \<and> rq_expected_epoch request \<noteq> gen_epoch g
          then Inl (refuse Status_kEpochStale DC_kEpochMismatch (''request expects fabric epoch '' @
            StrongUInt_ToString (rq_expected_epoch request) @ '' but the captured snapshot carries '' @ StrongUInt_ToString (gen_epoch g)) r)
          else if rq_expect_topology request \<and> rq_expected_topology request \<noteq> gen_topology g
          then Inl (refuse Status_kTopologyStale DC_kTopologyGenerationMismatch (''request expects topology generation '' @
            StrongUInt_ToString (rq_expected_topology request) @ '' but the captured snapshot carries '' @ StrongUInt_ToString (gen_topology g)) r)
          else if rq_expect_snapshot request \<and> rq_expected_snapshot request \<noteq> Snapshot_Id snapshot
          then Inl (refuse Status_kRevalidationRequired DC_kStaleEvidence (''request expects snapshot '' @
            FixedId_ToString (rq_expected_snapshot request) @ '' but the captured snapshot is '' @ FixedId_ToString (Snapshot_Id snapshot)) r)
          else Inr snapshot)"

section \<open>Candidates\<close>

definition Candidate_new :: "CandidatePath \<Rightarrow> PathCost \<Rightarrow> Candidate" where
  "Candidate_new path cost =
     \<lparr>cand_id = CandidatePath_Id path, cand_path = path, cand_cost = cost, cand_rank = 0, cand_evidence = EvidenceVector_new,
      cand_provenance = \<lparr>prov_planning_generation = 0, prov_constraint_set = nil_id 16, prov_constraint_generation = 0,
        prov_policy_generation = 0, prov_source = Src_kSynthetic, prov_planning_rule_version = 0, prov_path_encoding_version = 0\<rparr>,
      cand_authority = Auth_kNotRequested, cand_currentness = Cur_kCurrent, cand_notes = []\<rparr>"

record Computation =
  comp_candidates :: "Candidate list"
  comp_truncated :: bool
  comp_failure :: "DiagnosticCode option"
  comp_detail :: string
  comp_resource_limit :: bool
  comp_stats :: PlannerStatistics

definition raw_candidate :: "PlanningView \<Rightarrow> RawPath \<Rightarrow> Candidate option" where
  "raw_candidate v raw =
     (let path = BuildCandidatePath v raw in
      case ComputeRawPathCost v raw of
        None \<Rightarrow> None
      | Some cost \<Rightarrow> if \<not> IsWellFormed path \<or> \<not> IsSimple path then None else Some (Candidate_new path cost))"

definition enumeration_options :: "PlanningRequest \<Rightarrow> ResourceLimits \<Rightarrow> nat \<Rightarrow> nat \<Rightarrow> EnumerationOptions" where
  "enumeration_options request limits source_view destination_view =
     (let active = (cs_max_members (rq_constraints request) \<noteq> None) in
      \<lparr>opt_source_view = source_view, opt_destination_view = destination_view, opt_max_candidates = rq_max_candidates request,
       opt_enumeration_ceiling = (if active then max (rq_max_candidates request) (max_enumeration_candidates limits)
         else rq_max_candidates request),
       opt_max_hops = (case cs_max_hops (rq_constraints request) of None \<Rightarrow> kNoHopBound | Some h \<Rightarrow> unat h),
       opt_domain_member_limit_active = active\<rparr>)"

definition work_for :: "ResourceLimits \<Rightarrow> Searcher" where
  "work_for limits = \<lparr>sr_budget = \<lparr>states_remaining = max_expanded_states limits, pushes_remaining = max_queue_entries limits,
     spur_remaining = max_spur_searches limits, exhausted = False, state_space_exceeded = False\<rparr>, sr_stats = PlannerStatistics_zero\<rparr>"

definition compute_candidates :: "PlanningView \<Rightarrow> PlanningRequest \<Rightarrow> ResourceLimits \<Rightarrow> nat \<Rightarrow> nat \<Rightarrow> Computation" where
  "compute_candidates v request limits source_view destination_view =
     (let identity_request = (source_view = destination_view);
          transit_requested = (required_transit (rq_constraints request) \<noteq> []);
          none = \<lparr>comp_candidates = [], comp_truncated = False, comp_failure = None, comp_detail = [], comp_resource_limit = False,
                  comp_stats = PlannerStatistics_zero\<rparr>
      in if identity_request \<and> \<not> transit_requested \<and> allow_zero_hop_self_path (rq_policy request)
         then let zero_hop = \<lparr>raw_nodes = [source_view], raw_adjacency = []\<rparr>
              in none\<lparr>comp_candidates := [Candidate_new (BuildCandidatePath v zero_hop) (the (ComputeRawPathCost v zero_hop))]\<rparr>
         else if identity_request \<and> \<not> transit_requested
         then none\<lparr>comp_failure := Some DC_kZeroHopSelfPathDisallowed,
           comp_detail := ''source and destination resolve to the same node and zero-hop self paths are disabled''\<rparr>
         else let (enumeration, w) = EnumerateCandidatePaths v request
                    (enumeration_options request limits source_view destination_view) (work_for limits);
                  c = none\<lparr>comp_truncated := enr_truncated enumeration, comp_stats := sr_stats w\<rparr>;
                  c = (if enr_ok enumeration \<or> enr_resource_limit enumeration
                       then c\<lparr>comp_candidates := List.map_filter (raw_candidate v) (enr_paths enumeration)\<rparr> else c);
                  c = (if \<not> enr_ok enumeration
                       then c\<lparr>comp_failure := Some (enr_failure enumeration), comp_detail := enr_detail enumeration,
                              comp_resource_limit := enr_resource_limit enumeration\<rparr> else c)
              in if exhausted (sr_budget w)
                 then c\<lparr>comp_resource_limit := True,
                        comp_failure := (case comp_failure c of None \<Rightarrow> Some DC_kWorkBudgetExhausted | Some f \<Rightarrow> Some f),
                        comp_detail := ''deterministic work budget exhausted''\<rparr>
                 else c)"

text \<open>Ranking: sorted by the comparator, one candidate per identity, cut to the requested number.\<close>

definition rank_candidates :: "nat \<Rightarrow> Candidate list \<Rightarrow> Candidate list" where
  "rank_candidates max_candidates candidates =
     take max_candidates (unique_by (\<lambda>l r. cand_id l = cand_id r) (sort_key rank_key candidates))"

definition set_ranks :: "Candidate list \<Rightarrow> Candidate list" where
  "set_ranks cs = map (\<lambda>(i, c). c\<lparr>cand_rank := of_nat (i + 1)\<rparr>) (enumerate 0 cs)"

definition decorate :: "PlanningView \<Rightarrow> PlanningRequest \<Rightarrow> FabricSnapshot \<Rightarrow> EvidenceVector \<Rightarrow> Candidate \<Rightarrow> Candidate" where
  "decorate v request snapshot evidence c =
     c\<lparr>cand_evidence := evidence,
       cand_currentness := (if view_provisional v then Cur_kRevalidationRequired else Cur_kCurrent),
       cand_provenance := (cand_provenance c)\<lparr>prov_constraint_set := cs_id (rq_constraints request),
         prov_constraint_generation := cs_generation (rq_constraints request), prov_policy_generation := pol_generation (rq_policy request),
         prov_source := snap_source snapshot, prov_planning_rule_version := kPlanningRuleVersion,
         prov_path_encoding_version := kPathEncodingVersion\<rparr>,
       cand_notes := (if view_provisional v then cand_notes c @ [DC_kNonCurrentCandidate] else cand_notes c)\<rparr>"

section \<open>The Path Authority port\<close>

definition add_note :: "DiagnosticCode \<Rightarrow> Candidate \<Rightarrow> Candidate" where
  "add_note code c = c\<lparr>cand_notes := cand_notes c @ [code]\<rparr>"

fun consult :: "PathAuthority \<Rightarrow> AuthorityValidationMode \<Rightarrow> EvidenceVector \<Rightarrow> Candidate list \<Rightarrow> Candidate list \<times> bool" where
  "consult authority mode evidence [] = ([], False)"
| "consult authority mode evidence (c # cs) =
     (let (verdict, reason) = authority (cand_path c) evidence;
          c = c\<lparr>cand_authority := verdict\<rparr>;
          (validated, rejected_any) = consult authority mode evidence cs
      in case verdict of
           Auth_kValidated \<Rightarrow> (c # validated, rejected_any)
         | Auth_kRejected \<Rightarrow> (validated, True)
         | _ \<Rightarrow> (if mode = AuthMode_kBestEffort then add_note DC_kAuthorityValidationUnavailable c # validated else validated, rejected_any))"

text \<open>\<open>Inl\<close> is an early return.\<close>

definition authority_stage :: "PathAuthority option \<Rightarrow> AuthorityValidationMode \<Rightarrow> PlanningView \<Rightarrow> bool \<Rightarrow> PlanningResult \<Rightarrow>
    Candidate list \<Rightarrow> PlanningResult + Candidate list" where
  "authority_stage authority mode v truncated r candidates =
     (if mode = AuthMode_kNone \<or> candidates = [] then Inr candidates
      else case authority of
        None \<Rightarrow>
          if mode = AuthMode_kRequired
          then Inl (refuse Status_kUnsupported DC_kAuthorityValidationUnavailable
            ''authority validation is required but no Path Authority port is configured'' r)
          else Inr (map (\<lambda>c. add_note DC_kAuthorityValidationUnavailable (c\<lparr>cand_authority := Auth_kUnavailable\<rparr>)) candidates)
      | Some port \<Rightarrow>
          let (validated, rejected_any) = consult port mode (res_evidence r) candidates in
          if validated = [] \<and> rejected_any
          then Inl ((refuse Status_kRevalidationRequired DC_kAuthorityValidationRejected
            ''Path Authority rejected every computed candidate path'' r)
              \<lparr>res_rejections := RejectionLog_Render (view_rejections v), res_truncated := truncated\<rparr>)
          else Inr (set_ranks validated))"

section \<open>The computed result\<close>

definition classify_failure :: "FabricSnapshot \<Rightarrow> PlanningRequest \<Rightarrow> PlanningView \<Rightarrow> NodeId \<Rightarrow> NodeId \<Rightarrow> Computation \<Rightarrow> PlanningResult \<Rightarrow> PlanningResult" where
  "classify_failure snapshot request v source destination computed r =
     (let distance = StructuralHopDistance snapshot source destination request;
          (primary, r) =
            (case comp_failure computed of
               Some f \<Rightarrow> if f \<noteq> DC_kNoStructuralPath then (f, r) else (DC_kNoStructuralPath, r)
             | None \<Rightarrow> (DC_kNoStructuralPath, r));
          (primary, r) =
            (if primary \<noteq> DC_kNoStructuralPath then (primary, r)
             else case (distance, cs_max_hops (rq_constraints request)) of
               (Some d, Some h) \<Rightarrow>
                 if d > unat h
                 then (DC_kMaxHopsExceeded, explain DC_kMaxHopsExceeded (''the shortest structural path needs '' @
                   StrongUInt_ToString (of_nat d :: u32) @ '' hops, which exceeds max_hops='' @ StrongUInt_ToString h) r)
                 else (PrimaryFailure v True, r)
             | _ \<Rightarrow> (PrimaryFailure v (distance \<noteq> None), r));
          r = r\<lparr>res_status := (if comp_resource_limit computed then Status_kResourceLimit else StatusForFailure primary),
                res_primary_failure := Some primary\<rparr>
      in if comp_detail computed \<noteq> [] then explain primary (comp_detail computed) r else r)"

definition conclude :: "FabricSnapshot \<Rightarrow> PlanningRequest \<Rightarrow> PlanningView \<Rightarrow> NodeId \<Rightarrow> NodeId \<Rightarrow> Computation \<Rightarrow> Candidate list \<Rightarrow>
    PlanningResult \<Rightarrow> PlanningResult" where
  "conclude snapshot request v source destination computed candidates r =
     (let r = r\<lparr>res_truncated := comp_truncated computed\<rparr>;
          r = (if candidates = [] then classify_failure snapshot request v source destination computed r
               else if comp_truncated computed
               then explain DC_kTruncatedByLimit ''candidate enumeration stopped at the configured enumeration ceiling''
                 (r\<lparr>res_status := Status_kTruncatedByLimit\<rparr>)
               else r\<lparr>res_status := (if view_provisional v then Status_kRevalidationRequired else Status_kPlanned)\<rparr>)
      in r\<lparr>res_rejections := RejectionLog_Render (view_rejections v), res_candidates := candidates\<rparr>)"

text \<open>Everything between the capture and the pre-publication check; \<open>Inl\<close> is returned to the caller without publication.\<close>

definition compute_plan :: "Captured \<Rightarrow> PlanningRequest \<Rightarrow> PlanningResult + PlanningResult \<times> PlannerStatistics" where
  "compute_plan cap request =
     (case admit cap request of
        Inl r \<Rightarrow> Inl r
      | Inr snapshot \<Rightarrow>
        (case ResolveEndpoint snapshot (rq_source request) True of
           Inl (status, code, detail) \<Rightarrow> Inl (refuse status code detail PlanningResult_new)
         | Inr (source, source_node) \<Rightarrow>
           (case ResolveEndpoint snapshot (rq_destination request) False of
              Inl (status, code, detail) \<Rightarrow> Inl (refuse status code detail PlanningResult_new)
            | Inr (destination, destination_node) \<Rightarrow>
              let r = PlanningResult_new\<lparr>res_source_endpoint := ep_id source, res_destination_endpoint := ep_id destination,
                    res_source_node := node_id source_node, res_destination_node := node_id destination_node,
                    res_evidence := (Snapshot_Evidence snapshot)\<lparr>ev_publish_sequence := cap_sequence cap\<rparr>,
                    res_requested_candidates := rq_max_candidates request,
                    res_diagnostic_mode := (rq_mode request = Mode_kDiagnosticNonCurrent)\<rparr>;
                  build = BuildPlanningView snapshot request (cap_limits cap) (node_id source_node) (node_id destination_node);
                  r = r\<lparr>res_explanations := res_explanations r @ pvb_explanations build\<rparr>
              in case pvb_fatal build of
                Some fatal \<Rightarrow> Inl (refuse Status_kConstraintUnsatisfied fatal (pvb_detail build) r)
              | None \<Rightarrow>
                let v = pvb_view build;
                    computed = compute_candidates v request (cap_limits cap) (pvb_source_view build) (pvb_destination_view build);
                    candidates = map (decorate v request snapshot (res_evidence r))
                      (set_ranks (rank_candidates (rq_max_candidates request) (comp_candidates computed)))
                in (case authority_stage (cap_authority cap) (authority_validation (rq_policy request)) v (comp_truncated computed) r candidates of
                      Inl r \<Rightarrow> Inl r
                    | Inr candidates \<Rightarrow>
                        Inr (conclude snapshot request v (node_id source_node) (node_id destination_node) computed candidates r,
                          comp_stats computed)))))"

end
