(* ===== verification/ViewCorrect.thy ===== *)
theory ViewCorrect
  imports PlanningView "HOL-Library.Code_Target_Nat"
begin

text \<open>
  Correctness of the planning view.  Eligibility is stated over the snapshot and the request alone
  (\<open>node_allowed\<close>, \<open>edge_allowed\<close>, \<open>link_cost\<close>), each test of the code is shown to decide its part of it,
  the two construction loops are shown to number the allowed nodes and to collect the allowed links,
  and the counting sort is shown to give every node its own slice of the adjacency.  \<open>view_wf\<close> is the
  invariant the searcher relies on.  The theory ends with a small fabric that the witnesses of this
  and the later theories evaluate.
\<close>

section \<open>What eligibility means\<close>

text \<open>The declarative tests, over the snapshot and the request only.\<close>

definition capability_ok :: "FabricSnapshot \<Rightarrow> SubjectKey \<Rightarrow> CapabilityRequirement \<Rightarrow> bool" where
  "capability_ok s subject r \<longleftrightarrow>
     (\<exists>observed. CapabilityView_Lookup (snap_capabilities s) subject (req_capability r) = Some observed \<and> SatisfiedBy r observed)"

definition domain_ok :: "FabricSnapshot \<Rightarrow> ConstraintSet \<Rightarrow> SubjectKey \<Rightarrow> bool" where
  "domain_ok s c subject \<longleftrightarrow>
     (let m = MembershipOf (snap_failure_domains s) subject in
      if mem_known m then
        \<forall>d \<in> set (mem_domains m). d \<notin> set (forbidden_failure_domains c) \<and>
          (case FindDomain (snap_failure_domains s) d of
             None \<Rightarrow> True | Some r \<Rightarrow> fd_risk_class r \<notin> set (forbidden_failure_domain_classes c))
      else \<not> (fail_closed_on_unknown_domains c \<and>
        (forbidden_failure_domains c \<noteq> [] \<or> forbidden_failure_domain_classes c \<noteq> [])))"

definition node_allowed :: "FabricSnapshot \<Rightarrow> PlanningRequest \<Rightarrow> NodeRecord \<Rightarrow> bool" where
  "node_allowed s q n \<longleftrightarrow> node_id n \<notin> set (forbidden_nodes (rq_constraints q)) \<and>
     (\<forall>r \<in> set (required_capabilities (rq_constraints q)). req_scope r = CapScope_kEveryNode \<longrightarrow>
        capability_ok s (ForNode (node_id n)) r) \<and>
     domain_ok s (rq_constraints q) (ForNode (node_id n))"

definition proof_required :: "PlanningRequest \<Rightarrow> bool" where
  "proof_required q \<longleftrightarrow> require_operational_proof (rq_policy q) \<and> rq_mode q \<noteq> Mode_kDiagnosticNonCurrent"

definition link_usable :: "PlanningRequest \<Rightarrow> LinkState \<Rightarrow> bool" where
  "link_usable q st \<longleftrightarrow> st = Link_kUp \<or> st = Link_kDegraded \<and> allow_degraded_links (rq_policy q) \<or>
     st = Link_kRevalidationRequired \<and> rq_mode q = Mode_kDiagnosticNonCurrent \<or>
     st = Link_kUnknown \<and> \<not> proof_required q"

definition port_usable :: "PlanningRequest \<Rightarrow> PortState \<Rightarrow> bool" where
  "port_usable q st \<longleftrightarrow> st = Port_kUp \<or>
     st = Port_kDraining \<and> (allow_draining_ports (rq_policy q) \<or> rq_mode q = Mode_kDiagnosticNonCurrent) \<or>
     st = Port_kMaintenance \<and> (allow_maintenance_ports (rq_policy q) \<or> rq_mode q = Mode_kDiagnosticNonCurrent) \<or>
     st = Port_kRevalidationRequired \<and> rq_mode q = Mode_kDiagnosticNonCurrent \<or>
     st = Port_kUnknown \<and> \<not> proof_required q"

definition link_degraded :: "FabricSnapshot \<Rightarrow> EdgeRecord \<Rightarrow> bool" where
  "link_degraded s e \<longleftrightarrow> LinkStateView_StateOf (snap_link_states s) (edge_id e) = Link_kDegraded"

definition leaves_locality :: "PlanningRequest \<Rightarrow> EdgeRecord \<Rightarrow> bool" where
  "leaves_locality q e \<longleftrightarrow> locality_scope (rq_policy q) \<noteq> [] \<and> edge_to e \<notin> set (locality_scope (rq_policy q))"

definition link_cost :: "FabricSnapshot \<Rightarrow> PlanningRequest \<Rightarrow> EdgeRecord \<Rightarrow> nat" where
  "link_cost s q e = unat (edge_static_cost e) +
     (if link_degraded s e then unat (degraded_penalty (pol_cost_model (rq_policy q))) else 0) +
     (if leaves_locality q e then unat (locality_penalty (pol_cost_model (rq_policy q))) else 0)"

definition edge_allowed :: "FabricSnapshot \<Rightarrow> PlanningRequest \<Rightarrow> EdgeRecord \<Rightarrow> bool" where
  "edge_allowed s q e \<longleftrightarrow> edge_layer e = cs_layer (rq_constraints q) \<and>
     edge_id e \<notin> set (forbidden_links (rq_constraints q)) \<and>
     edge_from_port e \<notin> set (forbidden_ports (rq_constraints q)) \<and> edge_to_port e \<notin> set (forbidden_ports (rq_constraints q)) \<and>
     link_usable q (LinkStateView_StateOf (snap_link_states s) (edge_id e)) \<and>
     port_usable q (PortStateView_StateOf (snap_port_states s) (edge_from_port e)) \<and>
     port_usable q (PortStateView_StateOf (snap_port_states s) (edge_to_port e)) \<and>
     (\<forall>r \<in> set (required_capabilities (rq_constraints q)).
        (req_scope r = CapScope_kEveryLink \<longrightarrow> capability_ok s (ForLink (edge_id e)) r) \<and>
        (req_scope r = CapScope_kEveryPort \<longrightarrow> capability_ok s (ForPort (edge_from_port e)) r \<and>
           capability_ok s (ForPort (edge_to_port e)) r)) \<and>
     domain_ok s (rq_constraints q) (ForLink (edge_id e)) \<and> domain_ok s (rq_constraints q) (ForPort (edge_from_port e)) \<and>
     domain_ok s (rq_constraints q) (ForPort (edge_to_port e)) \<and>
     link_cost s q e < 2 ^ 64"

section \<open>The tests implement it\<close>

text \<open>The part of a view that the construction loops never change.\<close>

definition frame :: "PlanningView \<Rightarrow> PlanningView" where
  "frame v = v\<lparr>view_offsets := [], view_adjacency := [], view_to_snapshot_node := [], snapshot_to_view_node := [],
     view_rejections := RejectionLog_new 0, view_eligible_edges := 0\<rparr>"

definition frames :: "FabricSnapshot \<Rightarrow> PlanningRequest \<Rightarrow> ResourceLimits \<Rightarrow> PlanningView \<Rightarrow> bool" where
  "frames s q l v \<longleftrightarrow> frame v = frame (initial_view s q l)"

lemma frame_update [simp]:
  "frame (v\<lparr>view_rejections := r\<rparr>) = frame v" "frame (v\<lparr>view_eligible_edges := n\<rparr>) = frame v"
  "frame (v\<lparr>snapshot_to_view_node := a, view_to_snapshot_node := b\<rparr>) = frame v"
  "frame (v\<lparr>view_offsets := os, view_adjacency := as\<rparr>) = frame v"
  by (simp_all add: frame_def)

lemma frames_fields:
  assumes "frames s q l v"
  shows "view_snapshot v = s" "view_cost_model v = pol_cost_model (rq_policy q)"
    "view_diagnostic_mode v \<longleftrightarrow> rq_mode q = Mode_kDiagnosticNonCurrent"
    "view_require_operational_proof v \<longleftrightarrow> proof_required q"
    "view_allow_degraded_links v = allow_degraded_links (rq_policy q)"
    "view_allow_draining_ports v = allow_draining_ports (rq_policy q)"
    "view_allow_maintenance_ports v = allow_maintenance_ports (rq_policy q)"
    "view_locality_scope v = sort (locality_scope (rq_policy q))"
    "view_forbidden_failure_domains v = sort (forbidden_failure_domains (rq_constraints q))"
    "view_forbidden_failure_domain_classes v = sort (forbidden_failure_domain_classes (rq_constraints q))"
    "view_provisional v \<longleftrightarrow> rq_mode q = Mode_kDiagnosticNonCurrent \<or> \<not> require_operational_proof (rq_policy q)"
  using assms unfolding frames_def frame_def initial_view_def Let_def proof_required_def
  by (simp_all (no_asm_use) add: PlanningView.ext_inject) (cases v; simp)+

lemma CapabilitySatisfied_iff:
  "frames s q l v \<Longrightarrow> CapabilitySatisfied v subject r = None \<longleftrightarrow> capability_ok s subject r"
  by (auto simp: CapabilitySatisfied_def capability_ok_def frames_fields split: option.splits)

lemma domains_compliant_iff:
  assumes "frames s q l v"
  shows "domains_compliant v ds = None \<longleftrightarrow>
    (\<forall>d \<in> set ds. d \<notin> set (forbidden_failure_domains (rq_constraints q)) \<and>
       (case FindDomain (snap_failure_domains s) d of
          None \<Rightarrow> True | Some r \<Rightarrow> fd_risk_class r \<notin> set (forbidden_failure_domain_classes (rq_constraints q))))"
proof (induction ds)
  case (Cons d ds)
  have "sort xs = [] \<longleftrightarrow> xs = []" for xs :: "FailureDomainClass list" by (metis set_empty set_sort)
  with Cons show ?case by (auto simp: frames_fields [OF assms] split: option.splits)
qed simp

lemma sort_eq_Nil [simp]: "sort (xs :: 'a::linorder list) = [] \<longleftrightarrow> xs = []"
  by (metis set_empty set_sort)

lemma FailureDomainCompliant_iff:
  assumes "frames s q l v"
  shows "FailureDomainCompliant v subject (fail_closed_on_unknown_domains (rq_constraints q)) = None \<longleftrightarrow>
    domain_ok s (rq_constraints q) subject"
  by (simp add: FailureDomainCompliant_def domain_ok_def Let_def domains_compliant_iff [OF assms] frames_fields [OF assms])

lemma node_capabilities_iff:
  "frames s q l v \<Longrightarrow> node_capabilities v subject rs = None \<longleftrightarrow>
    (\<forall>r \<in> set rs. req_scope r = CapScope_kEveryNode \<longrightarrow> capability_ok s subject r)"
  by (induction rs) (auto simp: CapabilitySatisfied_iff [symmetric] split: option.splits)

lemma EvaluateNode_iff:
  assumes "frames s q l v"
  shows "nv_excluded (EvaluateNode v q (sort (forbidden_nodes (rq_constraints q))) n) \<longleftrightarrow> \<not> node_allowed s q n"
  by (auto simp: EvaluateNode_def node_allowed_def Let_def node_capabilities_iff [OF assms, symmetric]
      FailureDomainCompliant_iff [OF assms, symmetric] split: option.splits)

lemma link_state_verdict_iff:
  assumes "frames s q l v"
  shows "link_state_verdict v st = Inr d \<longleftrightarrow> link_usable q st \<and> d = (st = Link_kDegraded)"
  by (cases st) (auto simp: link_usable_def frames_fields [OF assms])

lemma port_state_verdict_iff:
  assumes "frames s q l v"
  shows "port_state_verdict v st = None \<longleftrightarrow> port_usable q st"
  by (cases st) (auto simp: port_usable_def frames_fields [OF assms])

lemma check_ports_iff:
  assumes "frames s q l v"
  shows "check_ports v ports = None \<longleftrightarrow> (\<forall>p \<in> set ports. port_usable q (PortStateView_StateOf (snap_port_states s) p))"
  by (induction ports)
    (auto simp: port_state_verdict_iff [OF assms, symmetric] frames_fields [OF assms] split: option.splits)

lemma check_link_capabilities_iff:
  assumes "frames s q l v"
  shows "check_link_capabilities v e rs = None \<longleftrightarrow>
    (\<forall>r \<in> set rs. (req_scope r = CapScope_kEveryLink \<longrightarrow> capability_ok s (ForLink (edge_id e)) r) \<and>
        (req_scope r = CapScope_kEveryPort \<longrightarrow> capability_ok s (ForPort (edge_from_port e)) r \<and>
           capability_ok s (ForPort (edge_to_port e)) r))"
  by (induction rs) (auto simp: CapabilitySatisfied_iff [OF assms, symmetric] split: option.splits)

lemma check_domains_iff:
  assumes "frames s q l v"
  shows "check_domains v (fail_closed_on_unknown_domains (rq_constraints q)) ss = None \<longleftrightarrow>
    (\<forall>x \<in> set ss. domain_ok s (rq_constraints q) x)"
  by (induction ss) (auto simp: FailureDomainCompliant_iff [OF assms, symmetric] split: option.splits)

lemma CostAdd_of_nat: "x < 2 ^ 64 \<Longrightarrow> CostAdd (of_nat x) p = checked (x + unat p)"
  using CostAdd_checked [of x "unat p"] unsigned_less [of p, where 'a = nat] by simp

lemma traversal_cost_eq:
  assumes "frames s q l v"
  shows "traversal_cost v e (link_degraded s e) = map_option (\<lambda>c. (c, leaves_locality q e)) (checked (link_cost s q e))"
proof -
  let ?st = "unat (edge_static_cost e)" and ?m = "pol_cost_model (rq_policy q)"
  define b where "b = ?st + (if link_degraded s e then unat (degraded_penalty ?m) else 0)"
  have small: "?st < 2 ^ 64" using unsigned_less [of "edge_static_cost e", where 'a = nat] by simp
  have uc: "(ucast (edge_static_cost e) :: u64) = of_nat ?st"
    using unat_ucast_u64 [of "edge_static_cost e"] small by (simp add: word_unat_eq_iff unat_of_nat_less)
  have base: "(if link_degraded s e then CostAdd (ucast (edge_static_cost e)) (degraded_penalty (view_cost_model v))
      else Some (ucast (edge_static_cost e))) = checked b"
  proof (cases "link_degraded s e")
    case True
    then show ?thesis unfolding uc frames_fields(2) [OF assms] b_def by (simp only: if_True CostAdd_of_nat [OF small])
  next
    case False
    then show ?thesis unfolding uc using small by (simp add: b_def checked_def)
  qed
  have leaves: "view_locality_scope v \<noteq> [] \<and> \<not> binary_search (view_locality_scope v) (edge_to e) \<longleftrightarrow> leaves_locality q e"
    by (simp add: frames_fields [OF assms] leaves_locality_def)
  have cost: "link_cost s q e = b + (if leaves_locality q e then unat (locality_penalty ?m) else 0)"
    by (simp add: link_cost_def b_def)
  show ?thesis
  proof (cases "b < 2 ^ 64")
    case True
    then have "checked b = Some (of_nat b)" by (simp add: checked_def)
    then show ?thesis unfolding traversal_cost_def base leaves cost
      using CostAdd_of_nat [OF True, of "locality_penalty ?m"]
      by (simp add: frames_fields(2) [OF assms] option.map_comp split: option.splits)
  next
    case False
    then have "checked b = None" "checked (link_cost s q e) = None" by (simp_all add: checked_def cost)
    then show ?thesis unfolding traversal_cost_def base by simp
  qed
qed

lemma EvaluateEdge_iff:
  assumes "frames s q l v" "find_sorted node_id (snap_nodes s) (edge_from (snap_edges s ! k)) = Some i"
    and "find_sorted node_id (snap_nodes s) (edge_to (snap_edges s ! k)) = Some j"
  shows "EvaluateEdge v q (sort (forbidden_links (rq_constraints q))) (sort (forbidden_ports (rq_constraints q))) k =
      Edge_accept from a \<longleftrightarrow>
    snapshot_to_view_node v ! i \<noteq> kInvalidIndex \<and> snapshot_to_view_node v ! j \<noteq> kInvalidIndex \<and>
    edge_allowed s q (snap_edges s ! k) \<and> from = snapshot_to_view_node v ! i \<and>
    a = \<lparr>adj_to = snapshot_to_view_node v ! j, adj_edge = k, adj_traversal_cost = of_nat (link_cost s q (snap_edges s ! k)),
      adj_degraded = link_degraded s (snap_edges s ! k), adj_outside_locality = leaves_locality q (snap_edges s ! k)\<rparr>"
proof -
  let ?e = "snap_edges s ! k"
  note ff = frames_fields [OF assms(1)]
  let ?st = "LinkStateView_StateOf (snap_link_states s) (edge_id ?e)"
  define D where "D = (check_domains v (fail_closed_on_unknown_domains (rq_constraints q))
    [ForLink (edge_id ?e), ForPort (edge_from_port ?e), ForPort (edge_to_port ?e)])"
  have D: "D = None \<longleftrightarrow> domain_ok s (rq_constraints q) (ForLink (edge_id ?e)) \<and>
    domain_ok s (rq_constraints q) (ForPort (edge_from_port ?e)) \<and> domain_ok s (rq_constraints q) (ForPort (edge_to_port ?e))"
    unfolding D_def check_domains_iff [OF assms(1)] by simp
  define C where "C = check_link_capabilities v ?e (required_capabilities (rq_constraints q))"
  note C = check_link_capabilities_iff [OF assms(1), of ?e "required_capabilities (rq_constraints q)", folded C_def]
  define P where "P = check_ports v [edge_from_port ?e, edge_to_port ?e]"
  have P: "P = None \<longleftrightarrow> port_usable q (PortStateView_StateOf (snap_port_states s) (edge_from_port ?e)) \<and>
     port_usable q (PortStateView_StateOf (snap_port_states s) (edge_to_port ?e))"
    unfolding P_def check_ports_iff [OF assms(1)] by simp
  note tc = traversal_cost_eq [OF assms(1), of ?e]
  have ea: "edge_allowed s q ?e \<longleftrightarrow> edge_layer ?e = cs_layer (rq_constraints q) \<and>
     edge_id ?e \<notin> set (forbidden_links (rq_constraints q)) \<and>
     edge_from_port ?e \<notin> set (forbidden_ports (rq_constraints q)) \<and> edge_to_port ?e \<notin> set (forbidden_ports (rq_constraints q)) \<and>
     link_usable q ?st \<and> P = None \<and> C = None \<and> D = None \<and> link_cost s q ?e < 2 ^ 64"
    unfolding edge_allowed_def P C D by blast
  have usable: "link_state_verdict v ?st = Inr (link_degraded s ?e)" if "link_usable q ?st"
    using that by (simp add: link_state_verdict_iff [OF assms(1)] link_degraded_def)
  show ?thesis
  proof (cases "link_usable q ?st")
    case False
    then have "\<exists>c d. link_state_verdict v ?st = Inl (c, d)"
      using link_state_verdict_iff [OF assms(1), of ?st] by (cases "link_state_verdict v ?st") auto
    then show ?thesis using False assms(2,3)
      by (auto simp: EvaluateEdge_def Let_def ff(1) edge_allowed_def)
  next
    case True
    show ?thesis
      using assms(2,3) True
      unfolding EvaluateEdge_def Let_def ff(1) D_def [symmetric] C_def [symmetric] P_def [symmetric]
      by (auto simp: usable tc checked_def ea split: option.splits)
  qed
qed

section \<open>The construction loops\<close>

lemma filter_upt_nth:
  assumes "i < n" "ok i"
  shows "length (filter ok [0..<i]) < length (filter ok [0..<n]) \<and> filter ok [0..<n] ! length (filter ok [0..<i]) = i"
proof -
  have "[0..<n] = [0..<i] @ [i..<n]" using upt_add_eq_append [of 0 i "n - i"] assms(1) by simp
  moreover have "[i..<n] = i # [Suc i..<n]" using assms(1) by (rule upt_conv_Cons)
  ultimately have "filter ok [0..<n] = filter ok [0..<i] @ i # filter ok [Suc i..<n]" using assms(2) by simp
  then show ?thesis by simp
qed

lemma filter_upt_index:
  assumes "u < length (filter ok [0..<n])"
  shows "filter ok [0..<n] ! u < n \<and> ok (filter ok [0..<n] ! u) \<and> length (filter ok [0..<filter ok [0..<n] ! u]) = u"
proof -
  let ?i = "filter ok [0..<n] ! u"
  have i: "?i < n" "ok ?i" using nth_mem [OF assms] by auto
  have d: "distinct (filter ok [0..<n])" by simp
  from filter_upt_nth [of ?i n ok] i have "length (filter ok [0..<?i]) = u"
    using nth_eq_iff_index_eq [OF d, of "length (filter ok [0..<?i])" u] assms by simp
  with i show ?thesis by simp
qed

text \<open>The node loop numbers the allowed nodes in snapshot order.\<close>

definition allowed_index :: "FabricSnapshot \<Rightarrow> PlanningRequest \<Rightarrow> nat \<Rightarrow> bool" where
  "allowed_index s q i \<longleftrightarrow> node_allowed s q (snap_nodes s ! i)"

lemma node_loop:
  fixes s q l
  assumes "k \<le> length (snap_nodes s)"
  defines "v \<equiv> fold (add_node q (sort (forbidden_nodes (rq_constraints q)))) [0..<k] (initial_view s q l)"
  shows "frames s q l v \<and> view_to_snapshot_node v = filter (allowed_index s q) [0..<k] \<and>
    length (snapshot_to_view_node v) = length (snap_nodes s) \<and>
    (\<forall>i < length (snap_nodes s). snapshot_to_view_node v ! i =
       (if i < k \<and> allowed_index s q i then length (filter (allowed_index s q) [0..<i]) else kInvalidIndex))"
  using assms(1) unfolding v_def
proof (induction k)
  case 0
  then show ?case by (simp add: frames_def initial_view_def Let_def)
next
  case (Suc k)
  let ?f = "add_node q (sort (forbidden_nodes (rq_constraints q)))"
  define w where "w = fold ?f [0..<k] (initial_view s q l)"
  have w: "frames s q l w" "view_to_snapshot_node w = filter (allowed_index s q) [0..<k]"
    "length (snapshot_to_view_node w) = length (snap_nodes s)"
    "\<forall>i < length (snap_nodes s). snapshot_to_view_node w ! i =
       (if i < k \<and> allowed_index s q i then length (filter (allowed_index s q) [0..<i]) else kInvalidIndex)"
    using Suc unfolding w_def by auto
  have fold: "fold ?f [0..<Suc k] (initial_view s q l) = ?f k w" by (simp add: w_def)
  have ex: "nv_excluded (EvaluateNode w q (sort (forbidden_nodes (rq_constraints q))) (snap_nodes s ! k)) \<longleftrightarrow> \<not> allowed_index s q k"
    by (simp add: EvaluateNode_iff [OF w(1)] allowed_index_def)
  have fr: "frames s q l (?f k w)"
    using w(1) by (simp add: add_node_def Let_def frames_def)
  have step: "view_to_snapshot_node (?f k w) = (if allowed_index s q k then view_to_snapshot_node w @ [k] else view_to_snapshot_node w)"
    "snapshot_to_view_node (?f k w) = (if allowed_index s q k
       then (snapshot_to_view_node w)[k := length (view_to_snapshot_node w)] else snapshot_to_view_node w)"
    using ex by (auto simp: add_node_def Let_def frames_fields(1) [OF w(1)])
  show ?case
    unfolding fold step
    using fr w(2-4) Suc.prems by (auto simp: nth_list_update less_Suc_eq)
qed

text \<open>The link loop collects, in link order, the adjacency of every allowed link.\<close>

definition adjacency_of :: "FabricSnapshot \<Rightarrow> PlanningRequest \<Rightarrow> nat list \<Rightarrow> nat \<Rightarrow> (nat \<times> Adjacency) option" where
  "adjacency_of s q stv k =
     (let e = snap_edges s ! k in
      case (find_sorted node_id (snap_nodes s) (edge_from e), find_sorted node_id (snap_nodes s) (edge_to e)) of
        (Some i, Some j) \<Rightarrow>
          if stv ! i \<noteq> kInvalidIndex \<and> stv ! j \<noteq> kInvalidIndex \<and> edge_allowed s q e
          then Some (stv ! i, \<lparr>adj_to = stv ! j, adj_edge = k, adj_traversal_cost = of_nat (link_cost s q e),
            adj_degraded = link_degraded s e, adj_outside_locality = leaves_locality q e\<rparr>)
          else None
      | _ \<Rightarrow> None)"

lemma EvaluateEdge_adjacency_of:
  assumes "frames s q l v"
  shows "EvaluateEdge v q (sort (forbidden_links (rq_constraints q))) (sort (forbidden_ports (rq_constraints q))) k =
      Edge_accept f a \<longleftrightarrow> adjacency_of s q (snapshot_to_view_node v) k = Some (f, a)"
proof -
  let ?e = "snap_edges s ! k"
  show ?thesis
  proof (cases "find_sorted node_id (snap_nodes s) (edge_from ?e)")
    case None
    then show ?thesis by (simp add: EvaluateEdge_def adjacency_of_def Let_def frames_fields(1) [OF assms])
  next
    case i: (Some i)
    show ?thesis
    proof (cases "find_sorted node_id (snap_nodes s) (edge_to ?e)")
      case None
      then show ?thesis using i by (simp add: EvaluateEdge_def adjacency_of_def Let_def frames_fields(1) [OF assms])
    next
      case j: (Some j)
      show ?thesis unfolding EvaluateEdge_iff [OF assms i j] adjacency_of_def Let_def i j by auto
    qed
  qed
qed

lemma map_filter_snoc: "List.map_filter f (xs @ [x]) = List.map_filter f xs @ (case f x of None \<Rightarrow> [] | Some y \<Rightarrow> [y])"
  by (simp add: List.map_filter_def split: option.splits)

lemma edge_loop:
  fixes s q l v
  assumes "frames s q l v"
  defines "r \<equiv> \<lambda>k. fold (add_edge q (sort (forbidden_links (rq_constraints q))) (sort (forbidden_ports (rq_constraints q))))
    [0..<k] (v, [])"
  shows "frames s q l (fst (r k)) \<and> snapshot_to_view_node (fst (r k)) = snapshot_to_view_node v \<and>
    view_to_snapshot_node (fst (r k)) = view_to_snapshot_node v \<and>
    snd (r k) = List.map_filter (adjacency_of s q (snapshot_to_view_node v)) [0..<k]"
proof (induction k)
  case 0
  then show ?case using assms by (simp add: r_def map_filter_simps)
next
  case (Suc k)
  let ?g = "add_edge q (sort (forbidden_links (rq_constraints q))) (sort (forbidden_ports (rq_constraints q)))"
  obtain w p where w: "r k = (w, p)" by (cases "r k")
  then have IH: "frames s q l w" "snapshot_to_view_node w = snapshot_to_view_node v"
    "view_to_snapshot_node w = view_to_snapshot_node v"
    "p = List.map_filter (adjacency_of s q (snapshot_to_view_node v)) [0..<k]" using Suc by auto
  have r: "r (Suc k) = ?g k (w, p)" using w by (simp add: r_def)
  note acc = EvaluateEdge_adjacency_of [OF IH(1), of k, unfolded IH(2)]
  show ?case
  proof (cases "EvaluateEdge w q (sort (forbidden_links (rq_constraints q))) (sort (forbidden_ports (rq_constraints q))) k")
    case (Edge_accept f a)
    with acc [of f a] have "adjacency_of s q (snapshot_to_view_node v) k = Some (f, a)" by simp
    then show ?thesis using IH Edge_accept by (simp add: r add_edge_def map_filter_snoc frames_def)
  next
    case Edge_skip
    with acc have "adjacency_of s q (snapshot_to_view_node v) k = None" by (cases "adjacency_of s q (snapshot_to_view_node v) k") auto
    then show ?thesis using IH Edge_skip by (simp add: r add_edge_def map_filter_snoc frames_def)
  next
    case (Edge_aggregate c x d)
    with acc have "adjacency_of s q (snapshot_to_view_node v) k = None" by (cases "adjacency_of s q (snapshot_to_view_node v) k") auto
    then show ?thesis using IH Edge_aggregate by (simp add: r add_edge_def map_filter_snoc frames_def)
  next
    case (Edge_explicit c x d)
    with acc have "adjacency_of s q (snapshot_to_view_node v) k = None" by (cases "adjacency_of s q (snapshot_to_view_node v) k") auto
    then show ?thesis using IH Edge_explicit by (simp add: r add_edge_def map_filter_snoc frames_def)
  qed
qed

section \<open>The compressed adjacency\<close>

lemma count_offsets_nth:
  assumes "\<forall>p \<in> set ps. fst p < n"
  shows "length (count_offsets n ps) = n + 1 \<and> count_offsets n ps ! 0 = 0 \<and>
    (\<forall>i < n. count_offsets n ps ! Suc i = length (filter (\<lambda>p. fst p = i) ps))"
  using assms
proof (induction ps rule: rev_induct)
  case Nil
  then show ?case by (simp add: count_offsets_def)
next
  case (snoc p ps)
  have "count_offsets n (ps @ [p]) = (count_offsets n ps)[fst p + 1 := count_offsets n ps ! (fst p + 1) + 1]"
    by (simp add: count_offsets_def)
  with snoc show ?case by (auto simp: nth_list_update)
qed

lemma prefix_sums_nth:
  assumes "k \<le> n" "length os = n + 1"
  shows "length (prefix_sums k os) = n + 1 \<and> (\<forall>i \<le> n. prefix_sums k os ! i = (if i \<le> k then sum_list (take (Suc i) os) else os ! i))"
  using assms(1)
proof (induction k)
  case 0
  then show ?case using assms(2) by (cases os) (auto simp: prefix_sums_def)
next
  case (Suc k)
  have "prefix_sums (Suc k) os = (prefix_sums k os)[k + 1 := prefix_sums k os ! (k + 1) + prefix_sums k os ! k]"
    by (simp add: prefix_sums_def)
  moreover have "take (Suc (Suc k)) os = take (Suc k) os @ [os ! Suc k]"
    using Suc.prems assms(2) by (simp add: take_Suc_conv_app_nth)
  ultimately show ?case using Suc by (auto simp: nth_list_update le_Suc_eq)
qed

lemma offsets_nth:
  assumes "\<forall>p \<in> set ps. fst p < n" "i \<le> n"
  shows "prefix_sums n (count_offsets n ps) ! i = length (filter (\<lambda>p. fst p < i) ps)"
  using assms(2)
proof (induction i)
  case 0
  then show ?case using prefix_sums_nth [of n n "count_offsets n ps"] count_offsets_nth [OF assms(1)]
    by (simp add: take_Suc_conv_app_nth)
next
  case (Suc i)
  note c = count_offsets_nth [OF assms(1)]
  have p: "prefix_sums n (count_offsets n ps) ! j = sum_list (take (Suc j) (count_offsets n ps))" if "j \<le> n" for j
    using prefix_sums_nth [of n n "count_offsets n ps"] c that by simp
  have "prefix_sums n (count_offsets n ps) ! Suc i = prefix_sums n (count_offsets n ps) ! i + length (filter (\<lambda>p. fst p = i) ps)"
    using Suc.prems c by (simp add: p take_Suc_conv_app_nth)
  moreover have "length (filter (\<lambda>p. fst p < Suc i) ps) = length (filter (\<lambda>p. fst p < i) ps) + length (filter (\<lambda>p. fst p = i) ps)"
    by (induction ps) auto
  ultimately show ?case using Suc by simp
qed

lemma sorted_block_split:
  "sorted (map fst ps) \<Longrightarrow>
   ps = filter (\<lambda>p. fst p < u) ps @ filter (\<lambda>p. fst p = u) ps @ filter (\<lambda>p. fst p > (u :: nat)) ps"
proof (induction ps)
  case (Cons p ps)
  have ge: "fst p \<le> fst x" if "x \<in> set ps" for x using Cons.prems that by simp
  consider "fst p < u" | "fst p = u" | "fst p > u" by linarith
  then show ?case
  proof cases
    case 1
    then show ?thesis using Cons by simp
  next
    case 2
    then have "filter (\<lambda>p. fst p < u) ps = []" using ge by (force simp: filter_empty_conv)
    then show ?thesis using 2 Cons by simp
  next
    case 3
    then have "filter (\<lambda>p. fst p < u) ps = []" "filter (\<lambda>p. fst p = u) ps = []" "filter (\<lambda>p. fst p > u) ps = ps"
      using ge by (force simp: filter_empty_conv filter_id_conv)+
    then show ?thesis using 3 by simp
  qed
qed simp

text \<open>The slice of the adjacency that a search iterates for a node.\<close>

definition out_edges :: "PlanningView \<Rightarrow> nat \<Rightarrow> Adjacency list" where
  "out_edges v u = map (\<lambda>i. view_adjacency v ! i) [view_offsets v ! u..<view_offsets v ! (u + 1)]"

lemma compress_out_edges:
  assumes "\<forall>p \<in> set ps. fst p < length (view_to_snapshot_node v)" "u < length (view_to_snapshot_node v)"
  shows "out_edges (compress v ps) u = map snd (filter (\<lambda>p. fst p = u) (sort_key (pending_key v) ps))"
proof -
  let ?ps = "sort_key (pending_key v) ps" and ?n = "length (view_to_snapshot_node v)"
  have f: "\<forall>p \<in> set ?ps. fst p < ?n" using assms(1) by simp
  have "sorted (map (pending_key v) ?ps)" by simp
  then have "sorted_wrt (\<lambda>a b. pending_key v a \<le> pending_key v b) ?ps" by (simp only: sorted_map)
  then have s: "sorted (map fst ?ps)"
    unfolding sorted_map by (rule sorted_wrt_mono_rel [rotated]) (auto simp: pending_key_def less_eq_prod_def)
  have o: "view_offsets (compress v ps) ! i = length (filter (\<lambda>p. fst p < i) ?ps)" if "i \<le> ?n" for i
    using offsets_nth [OF f that] by (simp add: compress_def Let_def)
  let ?a = "filter (\<lambda>p. fst p < u) ?ps" and ?b = "filter (\<lambda>p. fst p = u) ?ps" and ?c = "filter (\<lambda>p. fst p > u) ?ps"
  have split: "?ps = ?a @ ?b @ ?c" by (rule sorted_block_split [OF s])
  have "filter (\<lambda>p. fst p < u + 1) (?a @ ?b @ ?c) = ?a @ ?b"
    by (simp add: filter_empty_conv) (auto simp: less_Suc_eq intro!: filter_cong arg_cong2 [where f = append])
  then have hi: "view_offsets (compress v ps) ! (u + 1) = length ?a + length ?b"
    using o [of "u + 1"] assms(2) split by (metis Suc_eq_plus1 Suc_leI length_append)
  have lo: "view_offsets (compress v ps) ! u = length ?a" using o [of u] assms(2) by simp
  have adj: "view_adjacency (compress v ps) = map snd (?a @ ?b @ ?c)" using split by (simp add: compress_def Let_def)
  have sl: "map (\<lambda>i. (xs @ ys @ zs) ! i) [length xs..<length xs + length ys] = ys" for xs ys zs :: "Adjacency list"
    by (rule nth_equalityI) (simp_all add: nth_append)
  show ?thesis unfolding out_edges_def lo hi adj
    using sl [of "map snd ?a" "map snd ?b" "map snd ?c"] by simp
qed

text \<open>The slices in terms of the allowed links, for a view whose numbering is the one of the node loop.\<close>

definition view_node_ids :: "PlanningView \<Rightarrow> NodeId list" where
  "view_node_ids v = map (\<lambda>i. node_id (snap_nodes (view_snapshot v) ! i)) (view_to_snapshot_node v)"

definition adjacency_key :: "PlanningView \<Rightarrow> Adjacency \<Rightarrow> nat \<times> LinkId" where
  "adjacency_key v a = (adj_to a, edge_id (EdgeAt v (adj_edge a)))"

definition view_wf :: "PlanningView \<Rightarrow> bool" where
  "view_wf v \<longleftrightarrow> NodeCount v < kInvalidIndex \<and> sorted_wrt (<) (view_node_ids v) \<and>
     length (view_offsets v) = NodeCount v + 1 \<and> sorted (view_offsets v) \<and>
     view_offsets v ! NodeCount v = length (view_adjacency v) \<and>
     (\<forall>a \<in> set (view_adjacency v). adj_to a < NodeCount v) \<and>
     (\<forall>u < NodeCount v. sorted_wrt (\<lambda>a b. adjacency_key v a < adjacency_key v b) (out_edges v u))"

definition entry_of :: "FabricSnapshot \<Rightarrow> PlanningRequest \<Rightarrow> nat \<Rightarrow> nat \<Rightarrow> Adjacency" where
  "entry_of s q t k = (let e = snap_edges s ! k in
     \<lparr>adj_to = t, adj_edge = k, adj_traversal_cost = of_nat (link_cost s q e), adj_degraded = link_degraded s e,
      adj_outside_locality = leaves_locality q e\<rparr>)"

definition numbered :: "FabricSnapshot \<Rightarrow> PlanningRequest \<Rightarrow> PlanningView \<Rightarrow> bool" where
  "numbered s q v \<longleftrightarrow> view_snapshot v = s \<and>
     view_to_snapshot_node v = filter (allowed_index s q) [0..<length (snap_nodes s)] \<and>
     (\<forall>i < length (snap_nodes s). snapshot_to_view_node v ! i =
       (if allowed_index s q i then length (filter (allowed_index s q) [0..<i]) else kInvalidIndex))"

lemma numbered_index:
  assumes "snapshot_wf s" "length (snap_nodes s) < kInvalidIndex" "numbered s q v" "x \<in> node_id ` set (snap_nodes s)"
  shows "\<exists>i. find_sorted node_id (snap_nodes s) x = Some i \<and>
    (\<forall>u. (snapshot_to_view_node v ! i = u \<and> u \<noteq> kInvalidIndex) = (u < NodeCount v \<and> node_id (NodeAt v u) = x))"
proof -
  let ?ok = "allowed_index s q" and ?n = "length (snap_nodes s)"
  have ss: "sorted_wrt (<) (map node_id (snap_nodes s))" using assms(1) by (simp add: snapshot_wf_def)
  obtain i where i: "i < ?n" "node_id (snap_nodes s ! i) = x" using assms(4) by (auto simp: in_set_conv_nth)
  then have fs: "find_sorted node_id (snap_nodes s) x = Some i" by (simp add: find_sorted_eq_Some [OF ss])
  have stv: "snapshot_to_view_node v ! i = (if ?ok i then length (filter ?ok [0..<i]) else kInvalidIndex)"
    and vts: "view_to_snapshot_node v = filter ?ok [0..<?n]" and sn: "view_snapshot v = s"
    using assms(3) i(1) by (simp_all add: numbered_def)
  have "snapshot_to_view_node v ! i = u \<and> u \<noteq> kInvalidIndex \<longleftrightarrow> u < NodeCount v \<and> node_id (NodeAt v u) = x" for u
  proof
    assume u: "snapshot_to_view_node v ! i = u \<and> u \<noteq> kInvalidIndex"
    then have ok: "?ok i" using stv by (auto split: if_splits)
    with u stv have "u = length (filter ?ok [0..<i])" by simp
    with filter_upt_nth [OF i(1), of ?ok] ok i(2) show "u < NodeCount v \<and> node_id (NodeAt v u) = x"
      by (simp add: NodeCount_def NodeAt_def vts sn)
  next
    assume u: "u < NodeCount v \<and> node_id (NodeAt v u) = x"
    let ?j = "filter ?ok [0..<?n] ! u"
    have j: "?j < ?n" "?ok ?j" "length (filter ?ok [0..<?j]) = u"
      using filter_upt_index [of u ?ok ?n] u by (simp_all add: NodeCount_def vts)
    have "node_id (snap_nodes s ! ?j) = x" using u by (simp add: NodeAt_def vts sn)
    then have "?j = i"
      using j(1) i ss by (metis fs find_sorted_eq_Some option.inject)
    moreover have "u < ?n" using u j(1) filter_upt_nth [of ?j ?n ?ok]
      by (metis (no_types, lifting) NodeCount_def length_filter_le diff_zero length_upt order_less_le_trans vts)
    ultimately show "snapshot_to_view_node v ! i = u \<and> u \<noteq> kInvalidIndex"
      using stv j(2,3) assms(2) by auto
  qed
  then show ?thesis using fs by blast
qed

lemma edge_ends_known:
  assumes "snapshot_wf s" "k < length (snap_edges s)"
  shows "edge_from (snap_edges s ! k) \<in> node_id ` set (snap_nodes s)" "edge_to (snap_edges s ! k) \<in> node_id ` set (snap_nodes s)"
proof -
  have "publishes (snap_nodes s) (edge_from (snap_edges s ! k)) (edge_from_port (snap_edges s ! k)) \<and>
      publishes (snap_nodes s) (edge_to (snap_edges s ! k)) (edge_to_port (snap_edges s ! k))"
    using assms nth_mem [OF assms(2)] by (auto simp: snapshot_wf_def)
  then show "edge_from (snap_edges s ! k) \<in> node_id ` set (snap_nodes s)" "edge_to (snap_edges s ! k) \<in> node_id ` set (snap_nodes s)"
    unfolding publishes_def by (metis imageI)+
qed

lemma adjacency_of_iff:
  assumes "snapshot_wf s" "length (snap_nodes s) < kInvalidIndex" "numbered s q v" "k < length (snap_edges s)"
  shows "adjacency_of s q (snapshot_to_view_node v) k = Some (u, a) \<longleftrightarrow>
    edge_allowed s q (snap_edges s ! k) \<and> u < NodeCount v \<and> node_id (NodeAt v u) = edge_from (snap_edges s ! k) \<and>
    adj_to a < NodeCount v \<and> node_id (NodeAt v (adj_to a)) = edge_to (snap_edges s ! k) \<and> a = entry_of s q (adj_to a) k"
proof -
  obtain i where i: "find_sorted node_id (snap_nodes s) (edge_from (snap_edges s ! k)) = Some i"
    "\<And>u. (snapshot_to_view_node v ! i = u \<and> u \<noteq> kInvalidIndex) = (u < NodeCount v \<and> node_id (NodeAt v u) = edge_from (snap_edges s ! k))"
    using numbered_index [OF assms(1-3) edge_ends_known(1) [OF assms(1,4)]] by blast
  obtain j where j: "find_sorted node_id (snap_nodes s) (edge_to (snap_edges s ! k)) = Some j"
    "\<And>u. (snapshot_to_view_node v ! j = u \<and> u \<noteq> kInvalidIndex) = (u < NodeCount v \<and> node_id (NodeAt v u) = edge_to (snap_edges s ! k))"
    using numbered_index [OF assms(1-3) edge_ends_known(2) [OF assms(1,4)]] by blast
  have "adjacency_of s q (snapshot_to_view_node v) k = Some (u, a) \<longleftrightarrow>
    edge_allowed s q (snap_edges s ! k) \<and> (snapshot_to_view_node v ! i = u \<and> u \<noteq> kInvalidIndex) \<and>
    (snapshot_to_view_node v ! j = adj_to a \<and> adj_to a \<noteq> kInvalidIndex) \<and> a = entry_of s q (adj_to a) k"
    by (auto simp: adjacency_of_def Let_def i(1) j(1) entry_of_def)
  also have "\<dots> \<longleftrightarrow> edge_allowed s q (snap_edges s ! k) \<and> (u < NodeCount v \<and> node_id (NodeAt v u) = edge_from (snap_edges s ! k)) \<and>
    (adj_to a < NodeCount v \<and> node_id (NodeAt v (adj_to a)) = edge_to (snap_edges s ! k)) \<and> a = entry_of s q (adj_to a) k"
    unfolding i(2) j(2) ..
  finally show ?thesis by blast
qed

lemma sort_key_strict:
  assumes "distinct (map f xs)"
  shows "sorted_wrt (\<lambda>a b. f a < f b) (sort_key f xs)"
proof -
  have "distinct (map f (sort_key f xs))" using assms by (simp add: distinct_map)
  then have "sorted_wrt (<) (map f (sort_key f xs))" by (simp add: strict_sorted_iff)
  then show ?thesis by (simp add: sorted_wrt_map)
qed

lemma set_map_filter: "set (List.map_filter f xs) = {y. \<exists>x \<in> set xs. f x = Some y}"
  by (force simp: List.map_filter_def)

text \<open>The strictly increasing node order of a numbered view.\<close>

lemma numbered_ids_sorted:
  assumes "snapshot_wf s" "numbered s q v"
  shows "sorted_wrt (<) (view_node_ids v)"
proof -
  have "sorted_wrt (\<lambda>i j. node_id (snap_nodes s ! i) < node_id (snap_nodes s ! j)) [0..<length (snap_nodes s)]"
    using assms(1) by (auto simp: snapshot_wf_def sorted_wrt_iff_nth_less)
  then show ?thesis using assms(2)
    by (simp add: numbered_def view_node_ids_def sorted_wrt_map sorted_wrt_filter)
qed

lemma view_node_ids_less:
  assumes "sorted_wrt (<) (view_node_ids v)" "i < NodeCount v" "j < NodeCount v"
  shows "node_id (NodeAt v i) < node_id (NodeAt v j) \<longleftrightarrow> i < j" "node_id (NodeAt v i) = node_id (NodeAt v j) \<longleftrightarrow> i = j"
    "node_id (NodeAt v i) \<le> node_id (NodeAt v j) \<longleftrightarrow> i \<le> j"
proof -
  have mono: "node_id (NodeAt v i) < node_id (NodeAt v j)" if "i < j" "j < NodeCount v" for i j
    using sorted_wrt_nth_less [OF assms(1), of i j] that by (simp add: view_node_ids_def NodeAt_def NodeCount_def)
  show "node_id (NodeAt v i) < node_id (NodeAt v j) \<longleftrightarrow> i < j" "node_id (NodeAt v i) = node_id (NodeAt v j) \<longleftrightarrow> i = j"
    "node_id (NodeAt v i) \<le> node_id (NodeAt v j) \<longleftrightarrow> i \<le> j"
    using mono [of i j] mono [of j i] assms(2,3) by (cases i j rule: linorder_cases; auto)+
qed

text \<open>The compressed form of any pending list whose entries stay inside the view and are told apart by their keys.\<close>

lemma compress_wf:
  assumes "NodeCount v < kInvalidIndex" "sorted_wrt (<) (view_node_ids v)"
    and "\<forall>p \<in> set ps. fst p < NodeCount v \<and> adj_to (snd p) < NodeCount v" "distinct (map (pending_key v) ps)"
  shows "view_wf (compress v ps)"
proof -
  let ?ps = "sort_key (pending_key v) ps" and ?n = "NodeCount v"
  have same [simp]: "NodeCount (compress v ps) = ?n" "view_node_ids (compress v ps) = view_node_ids v"
    "EdgeAt (compress v ps) = EdgeAt v" "view_adjacency (compress v ps) = map snd ?ps"
    by (simp_all add: compress_def Let_def NodeCount_def view_node_ids_def EdgeAt_def fun_eq_iff)
  have f: "\<forall>p \<in> set ?ps. fst p < ?n" using assms(3) by simp
  have offs: "view_offsets (compress v ps) = prefix_sums ?n (count_offsets ?n ?ps)" by (simp add: compress_def Let_def NodeCount_def)
  have len: "length (view_offsets (compress v ps)) = ?n + 1"
    using prefix_sums_nth [of ?n ?n "count_offsets ?n ?ps"] count_offsets_nth [OF f] by (simp add: offs)
  have nth: "view_offsets (compress v ps) ! i = length (filter (\<lambda>p. fst p < i) ?ps)" if "i \<le> ?n" for i
    using offsets_nth [OF f that] by (simp add: offs)
  have "sorted (view_offsets (compress v ps))"
    unfolding sorted_iff_nth_mono
  proof (intro allI impI)
    fix i j assume ij: "i \<le> j" "j < length (view_offsets (compress v ps))"
    have "filter (\<lambda>p. fst p < i) ?ps = filter (\<lambda>p. fst p < i) (filter (\<lambda>p. fst p < j) ?ps)"
      using ij(1) by (auto intro: filter_cong)
    then have "length (filter (\<lambda>p. fst p < i) ?ps) \<le> length (filter (\<lambda>p. fst p < j) ?ps)"
      by (metis length_filter_le)
    then show "view_offsets (compress v ps) ! i \<le> view_offsets (compress v ps) ! j" using ij len by (simp add: nth)
  qed
  moreover have "view_offsets (compress v ps) ! ?n = length (view_adjacency (compress v ps))"
    using f by (simp add: nth filter_id_conv [THEN iffD2])
  moreover have "sorted_wrt (\<lambda>a b. adjacency_key v a < adjacency_key v b) (out_edges (compress v ps) u)" if u: "u < ?n" for u
  proof -
    have "sorted_wrt (\<lambda>a b. pending_key v a < pending_key v b) (filter (\<lambda>p. fst p = u) ?ps)"
      by (rule sorted_wrt_filter [OF sort_key_strict [OF assms(4)]])
    then have "sorted_wrt (\<lambda>a b. adjacency_key v (snd a) < adjacency_key v (snd b)) (filter (\<lambda>p. fst p = u) ?ps)"
      by (rule sorted_wrt_mono_rel [rotated])
        (use assms(3) view_node_ids_less [OF assms(2)] in \<open>auto simp: pending_key_def adjacency_key_def less_prod_def\<close>)
    then show ?thesis
      using compress_out_edges [of ps v u] f u by (simp add: NodeCount_def sorted_wrt_map)
  qed
  ultimately show ?thesis
    using assms len unfolding view_wf_def by (simp add: adjacency_key_def)
qed

text \<open>What the two loops leave when no fatal code is set.\<close>

lemma BuildPlanningView_unfold:
  fixes s q l x y
  assumes "pvb_fatal (BuildPlanningView s q l x y) = None"
  defines "v0 \<equiv> fold (add_node q (sort (forbidden_nodes (rq_constraints q)))) [0..<length (snap_nodes s)] (initial_view s q l)"
  defines "r \<equiv> fold (add_edge q (sort (forbidden_links (rq_constraints q))) (sort (forbidden_ports (rq_constraints q))))
    [0..<length (snap_edges s)] (v0, [])"
  shows "pvb_view (BuildPlanningView s q l x y) = compress (fst r) (snd r) \<and>
    pvb_source_view (BuildPlanningView s q l x y) = ViewIndex v0 x \<and> ViewIndex v0 x \<noteq> kInvalidIndex \<and>
    pvb_destination_view (BuildPlanningView s q l x y) = ViewIndex v0 y \<and> ViewIndex v0 y \<noteq> kInvalidIndex \<and>
    NodeCount v0 \<le> max_nodes l"
  using assms(1)
  unfolding BuildPlanningView_def Let_def v0_def [symmetric] r_def [symmetric]
  by (auto simp: NodeCount_def case_prod_beta split: if_splits option.splits)

lemma loops_numbered:
  fixes s q l
  assumes "length (snap_nodes s) < kInvalidIndex"
  defines "v0 \<equiv> fold (add_node q (sort (forbidden_nodes (rq_constraints q)))) [0..<length (snap_nodes s)] (initial_view s q l)"
  defines "r \<equiv> fold (add_edge q (sort (forbidden_links (rq_constraints q))) (sort (forbidden_ports (rq_constraints q))))
    [0..<length (snap_edges s)] (v0, [])"
  shows "numbered s q v0" "numbered s q (fst r)" "frames s q l (fst r)" "NodeCount v0 < kInvalidIndex"
    "snapshot_to_view_node (fst r) = snapshot_to_view_node v0" "view_to_snapshot_node (fst r) = view_to_snapshot_node v0"
    "snd r = List.map_filter (adjacency_of s q (snapshot_to_view_node v0)) [0..<length (snap_edges s)]"
proof -
  note n = node_loop [of "length (snap_nodes s)" s q l, folded v0_def, simplified]
  then have fr: "frames s q l v0" by simp
  note e = edge_loop [OF fr, of "length (snap_edges s)", folded r_def]
  show "numbered s q v0" "numbered s q (fst r)" "frames s q l (fst r)"
    "snapshot_to_view_node (fst r) = snapshot_to_view_node v0" "view_to_snapshot_node (fst r) = view_to_snapshot_node v0"
    "snd r = List.map_filter (adjacency_of s q (snapshot_to_view_node v0)) [0..<length (snap_edges s)]"
    using n e by (simp_all add: numbered_def frames_fields(1) [OF fr] frames_fields(1) [of s q l "fst r"])
  have "NodeCount v0 \<le> length (snap_nodes s)"
    using n length_filter_le [of "allowed_index s q" "[0..<length (snap_nodes s)]"] by (simp add: NodeCount_def)
  then show "NodeCount v0 < kInvalidIndex" using assms(1) by simp
qed

text \<open>The pending entries carry different keys, because every link has its own identifier.\<close>

lemma pending_keys_distinct:
  assumes "snapshot_wf s" "length (snap_nodes s) < kInvalidIndex" "numbered s q v" "m \<le> length (snap_edges s)"
  shows "distinct (map (pending_key v) (List.map_filter (adjacency_of s q (snapshot_to_view_node v)) [0..<m]))"
  using assms(4)
proof (induction m)
  case (Suc m)
  let ?A = "adjacency_of s q (snapshot_to_view_node v)"
  have id: "edge_id (snap_edges s ! i) \<noteq> edge_id (snap_edges s ! j)" if "i < j" "j < length (snap_edges s)" for i j
    using assms(1) that sorted_wrt_nth_less [of "(<)" "map edge_id (snap_edges s)" i j] by (auto simp: snapshot_wf_def)
  have edge: "EdgeAt v (adj_edge (snd p)) = snap_edges s ! k" if "?A k = Some p" "k \<le> m" for k p
    using that adjacency_of_iff [OF assms(1-3), of k "fst p" "snd p"] assms(3) Suc.prems
    by (auto simp: EdgeAt_def numbered_def entry_of_def Let_def) (metis Adjacency.select_convs(2))
  show ?case
  proof (cases "?A m")
    case None
    then show ?thesis using Suc by (simp add: map_filter_snoc)
  next
    case (Some p)
    have "pending_key v p \<noteq> pending_key v p'" if mem: "p' \<in> set (List.map_filter ?A [0..<m])" for p'
    proof -
      obtain k where k: "k < m" "?A k = Some p'" using mem unfolding set_map_filter by auto
      have "edge_id (EdgeAt v (adj_edge (snd p'))) \<noteq> edge_id (EdgeAt v (adj_edge (snd p)))"
        using edge [OF k(2)] edge [OF Some] id [of k m] k(1) Suc.prems by simp
      then show ?thesis by (auto simp: pending_key_def)
    qed
    then show ?thesis using Suc Some by (auto simp: map_filter_snoc)
  qed
qed (simp add: map_filter_simps)

lemma BuildPlanningView_spec:
  assumes "snapshot_wf s" "length (snap_nodes s) < kInvalidIndex"
    and "BuildPlanningView s q l x y = b" "pvb_fatal b = None"
  shows "view_wf (pvb_view b) \<and>
    view_to_snapshot_node (pvb_view b) = filter (\<lambda>i. node_allowed s q (snap_nodes s ! i)) [0..<length (snap_nodes s)] \<and>
    (\<forall>u < NodeCount (pvb_view b). set (out_edges (pvb_view b) u) =
       {entry_of s q t k | t k. k < length (snap_edges s) \<and> edge_allowed s q (snap_edges s ! k) \<and>
          edge_from (snap_edges s ! k) = node_id (NodeAt (pvb_view b) u) \<and> t < NodeCount (pvb_view b) \<and>
          edge_to (snap_edges s ! k) = node_id (NodeAt (pvb_view b) t)}) \<and>
    (pvb_source_view b < NodeCount (pvb_view b) \<and> node_id (NodeAt (pvb_view b) (pvb_source_view b)) = x) \<and>
    (pvb_destination_view b < NodeCount (pvb_view b) \<and> node_id (NodeAt (pvb_view b) (pvb_destination_view b)) = y) \<and>
    frames s q l (pvb_view b) \<and> numbered s q (pvb_view b)"
proof -
  define v0 where "v0 = fold (add_node q (sort (forbidden_nodes (rq_constraints q)))) [0..<length (snap_nodes s)] (initial_view s q l)"
  define r where "r = fold (add_edge q (sort (forbidden_links (rq_constraints q))) (sort (forbidden_ports (rq_constraints q))))
    [0..<length (snap_edges s)] (v0, [])"
  note ln = loops_numbered [OF assms(2), of q l, folded v0_def, folded r_def]
  note un = BuildPlanningView_unfold [of s q l x y, folded v0_def, folded r_def, unfolded assms(3), OF assms(4)]
  let ?v = "fst r" and ?A = "adjacency_of s q (snapshot_to_view_node (fst r))"
  have v: "pvb_view b = compress ?v (snd r)" using un by simp
  have ps: "snd r = List.map_filter ?A [0..<length (snap_edges s)]" using ln(5,7) by simp
  note af = adjacency_of_iff [OF assms(1,2) ln(2)]
  have same: "NodeCount (pvb_view b) = NodeCount ?v" "NodeAt (pvb_view b) = NodeAt ?v" "NodeCount ?v = NodeCount v0" "NodeAt ?v = NodeAt v0"
    using ln(1,2,6) by (simp_all add: v compress_def Let_def NodeCount_def NodeAt_def fun_eq_iff numbered_def)
  have inside: "\<forall>p \<in> set (snd r). fst p < NodeCount ?v \<and> adj_to (snd p) < NodeCount ?v"
    unfolding ps set_map_filter using af by fastforce
  have wf: "view_wf (pvb_view b)"
    unfolding v using compress_wf [OF _ numbered_ids_sorted [OF assms(1) ln(2)] inside] ln(4) same(3)
      pending_keys_distinct [OF assms(1,2) ln(2) order_refl] ps by simp
  have outs: "set (out_edges (pvb_view b) u) = {entry_of s q t k | t k. k < length (snap_edges s) \<and>
      edge_allowed s q (snap_edges s ! k) \<and> edge_from (snap_edges s ! k) = node_id (NodeAt ?v u) \<and> t < NodeCount ?v \<and>
      edge_to (snap_edges s ! k) = node_id (NodeAt ?v t)}" (is "_ = ?E") if u: "u < NodeCount ?v" for u
  proof -
    have to: "adj_to (entry_of s q t k) = t" for t k by (simp add: entry_of_def Let_def)
    have "out_edges (pvb_view b) u = map snd (filter (\<lambda>p. fst p = u) (sort_key (pending_key ?v) (snd r)))"
      unfolding v using inside u by (intro compress_out_edges) (auto simp: NodeCount_def)
    then have "set (out_edges (pvb_view b) u) = {a. \<exists>k < length (snap_edges s). ?A k = Some (u, a)}"
      by (force simp: ps set_map_filter)
    also have "\<dots> = ?E"
    proof (intro set_eqI iffI)
      fix a assume "a \<in> {a. \<exists>k < length (snap_edges s). ?A k = Some (u, a)}"
      then obtain k where "k < length (snap_edges s)" "?A k = Some (u, a)" by blast
      then show "a \<in> ?E" using af [of k u a] by (intro CollectI exI [of _ "adj_to a"] exI [of _ k]) metis
    next
      fix a assume "a \<in> ?E"
      then show "a \<in> {a. \<exists>k < length (snap_edges s). ?A k = Some (u, a)}" using af [of _ u a] u by (auto simp: to)
    qed
    finally show ?thesis .
  qed
  have idx: "ViewIndex v0 z < NodeCount ?v \<and> node_id (NodeAt ?v (ViewIndex v0 z)) = z" if z: "ViewIndex v0 z \<noteq> kInvalidIndex" for z
  proof -
    have ss: "sorted_wrt (<) (map node_id (snap_nodes s))" using assms(1) by (simp add: snapshot_wf_def)
    have vs: "view_snapshot v0 = s" using ln(1) by (simp add: numbered_def)
    obtain i where i: "find_sorted node_id (snap_nodes s) z = Some i"
      using z by (auto simp: ViewIndex_def vs split: option.splits)
    then have "z \<in> node_id ` set (snap_nodes s)" by (auto simp: find_sorted_eq_Some [OF ss])
    from numbered_index [OF assms(1,2) ln(1) this] z i show ?thesis by (auto simp: ViewIndex_def vs same)
  qed
  have vts: "view_to_snapshot_node (pvb_view b) = filter (\<lambda>i. node_allowed s q (snap_nodes s ! i)) [0..<length (snap_nodes s)]"
    using ln(1,6) by (simp add: v compress_def Let_def numbered_def allowed_index_def [abs_def])
  have "frames s q l (pvb_view b)" "numbered s q (pvb_view b)"
    using ln(2,3) by (simp_all add: v compress_def Let_def frames_def numbered_def)
  then show ?thesis unfolding same(1,2) using wf outs vts idx un by simp
qed

text \<open>
  C3.  The view of a request is exact.  Whenever a well-formed snapshot is turned into a view
  without a fatal code, the view is well formed (its offsets delimit the adjacency, every entry stays
  inside the view, the entries of a node are strictly sorted by target and link); its nodes are
  exactly the nodes the request allows, in snapshot order; the entries of a node are exactly the
  allowed links that leave it for an allowed node, each with its cost and flags; and source and
  destination are numbered by the positions of their nodes.
\<close>

theorem BuildPlanningView_exact:
  assumes "snapshot_wf s" "length (snap_nodes s) < kInvalidIndex"
    and "BuildPlanningView s q l x y = b" "pvb_fatal b = None"
  shows "view_wf (pvb_view b) \<and>
    view_to_snapshot_node (pvb_view b) = filter (\<lambda>i. node_allowed s q (snap_nodes s ! i)) [0..<length (snap_nodes s)] \<and>
    (\<forall>u < NodeCount (pvb_view b). set (out_edges (pvb_view b) u) =
       {entry_of s q t k | t k. k < length (snap_edges s) \<and> edge_allowed s q (snap_edges s ! k) \<and>
          edge_from (snap_edges s ! k) = node_id (NodeAt (pvb_view b) u) \<and> t < NodeCount (pvb_view b) \<and>
          edge_to (snap_edges s ! k) = node_id (NodeAt (pvb_view b) t)}) \<and>
    (pvb_source_view b < NodeCount (pvb_view b) \<and> node_id (NodeAt (pvb_view b) (pvb_source_view b)) = x) \<and>
    (pvb_destination_view b < NodeCount (pvb_view b) \<and> node_id (NodeAt (pvb_view b) (pvb_destination_view b)) = y)"
  using BuildPlanningView_spec [OF assms] by blast

section \<open>A small fabric\<close>

text \<open>Three nodes; links 1 to 2 (DEGRADED), 2 to 3 (UP) and 1 to 3 (UP, expensive).\<close>

definition small_id :: "u8 \<Rightarrow> 'tag FixedId" where "small_id k = FixedId (replicate 15 0 @ [k])"

definition small_edge :: "u8 \<Rightarrow> u8 \<Rightarrow> u8 \<Rightarrow> u32 \<Rightarrow> EdgeRecord" where
  "small_edge l a b c = \<lparr>edge_id = small_id l, edge_from = small_id a, edge_to = small_id b, edge_from_port = small_id a,
     edge_to_port = small_id b, edge_layer = Layer_kPhysical, edge_relationship = Rel_kDirectLink,
     edge_static_cost = c, edge_entity_generation = 1, edge_structural_generation = 1\<rparr>"

definition small_snapshot :: FabricSnapshot where
  "small_snapshot = \<lparr>snap_generations = SnapshotGenerations_zero, snap_source = Src_kSynthetic, snap_limits = ResourceLimits_default,
     snap_nodes = map (\<lambda>k. \<lparr>node_id = small_id k, node_attachment = small_id k, node_entity_generation = 1,
       node_structural_generation = 1, node_ports = [small_id k]\<rparr>) [1, 2, 3],
     snap_edges = [small_edge 1 1 2 5, small_edge 2 2 3 5, small_edge 3 1 3 90], snap_endpoints = [],
     snap_link_states = LinkStateView_new [\<lparr>ls_link = small_id 1, ls_state = Link_kDegraded\<rparr>,
       \<lparr>ls_link = small_id 2, ls_state = Link_kUp\<rparr>, \<lparr>ls_link = small_id 3, ls_state = Link_kUp\<rparr>],
     snap_port_states = PortStateView_new (map (\<lambda>k. \<lparr>ps_port = small_id k, ps_state = Port_kUp\<rparr>) [1, 2, 3]),
     snap_capabilities = CapabilityView_new [], snap_failure_domains = FailureDomainView_new [] True,
     snap_digest = replicate 32 1\<rparr>"

definition small_request :: PlanningRequest where
  "small_request = \<lparr>rq_id = small_id 9, rq_source = \<lparr>ref_id = small_id 1, ref_class = Class_kEndpoint, ref_generation = 1\<rparr>,
     rq_destination = \<lparr>ref_id = small_id 3, ref_class = Class_kEndpoint, ref_generation = 1\<rparr>,
     rq_constraints = \<lparr>cs_id = small_id 8, cs_generation = 1, cs_layer = Layer_kPhysical, forbidden_nodes = [], forbidden_links = [],
       forbidden_ports = [], forbidden_failure_domains = [], forbidden_failure_domain_classes = [], required_transit = [],
       required_capabilities = [], cs_max_hops = None, cs_max_members = None, fail_closed_on_unknown_domains = True\<rparr>,
     rq_policy = \<lparr>pol_generation = 1, pol_cost_model = \<lparr>hop_cost = 1, degraded_penalty = 10, locality_penalty = 7\<rparr>,
       allow_degraded_links = True, allow_draining_ports = False, allow_maintenance_ports = False,
       require_operational_proof = True, allow_zero_hop_self_path = False, locality_scope = [],
       authority_validation = AuthMode_kNone\<rparr>,
     rq_max_candidates = 2, rq_mode = Mode_kStandard,
     rq_authority = \<lparr>auth_scope_mask = 0, auth_publisher = small_id 1, auth_worker_boot = small_id 1, auth_coordinator_epoch = 1,
       auth_attempt = small_id 1, auth_epoch_bound = False, auth_enforce_scope = False\<rparr>,
     rq_expect_epoch = False, rq_expected_epoch = 0, rq_expect_topology = False, rq_expected_topology = 0,
     rq_expect_snapshot = False, rq_expected_snapshot = small_id 1\<rparr>"

abbreviation small_view :: PlanningViewBuild where
  "small_view \<equiv> BuildPlanningView small_snapshot small_request ResourceLimits_default (small_id 1) (small_id 3)"

lemma small_wf: "snapshot_wf small_snapshot" by code_simp

lemma small_view_ok:
  "pvb_fatal small_view = None \<and> map (map adj_to) (map (out_edges (pvb_view small_view)) [0, 1, 2]) = [[1, 2], [2], []]"
  by code_simp

theorem BuildPlanningView_exact_witness:
  "snapshot_wf small_snapshot \<and> pvb_fatal small_view = None \<and> view_wf (pvb_view small_view) \<and>
   map (map adj_to) (map (out_edges (pvb_view small_view)) [0, 1, 2]) = [[1, 2], [2], []]"
proof -
  have "length (snap_nodes small_snapshot) < kInvalidIndex" by (simp add: small_snapshot_def kInvalidIndex_def)
  from BuildPlanningView_exact [OF small_wf this refl] small_view_ok show ?thesis using small_wf by blast
qed

text \<open>
  In the standard mode with operational proof required, a policy that allows draining ports
  makes them pass the port test while the view stays unmarked, so that plans over them are not
  provisional.
\<close>

theorem draining_ports_not_provisional:
  "port_state_verdict (initial_view s q l) Port_kDraining = None \<and> \<not> view_provisional (initial_view s q l) \<longleftrightarrow>
   allow_draining_ports (rq_policy q) \<and> rq_mode q \<noteq> Mode_kDiagnosticNonCurrent \<and> require_operational_proof (rq_policy q)"
  by (auto simp: initial_view_def Let_def)

end
