(* ===== verification/SearchCorrect.thy ===== *)
theory SearchCorrect
  imports Search ViewCorrect
begin

text \<open>
  Correctness of the search over nodes.  The \<open>min_queue\<close> locale is what the loop asks of the priority
  queue.  A \<open>walks\<close> derivation is a walk of the view that the bans allow.  \<open>plain_inv\<close> is the invariant
  of the main loop: every label is realised by a path without repeated nodes, labelled nodes that are
  not settled are queued with their label, labels of settled nodes are at most those in the queue and
  their entries are relaxed.  When the queue is empty the labels are the minima over all walks; the
  backward pass marks exactly the nodes on optimal paths, and the greedy walk over the sorted entries
  rebuilds the first of them in the canonical order.
\<close>

section \<open>The queue interface\<close>

text \<open>What the searches rely on: pushing keeps the order of departure and adds exactly the entry.\<close>

locale min_queue =
  fixes key :: "'e \<Rightarrow> 'k::linorder" and push :: "'e \<Rightarrow> 'e list \<Rightarrow> 'e list"
  assumes push_set: "set (push e q) = insert e (set q)"
    and push_sorted: "sorted (map key q) \<Longrightarrow> sorted (map key (push e q))"
begin

lemma top_min: "sorted (map key (e # q)) \<Longrightarrow> x \<in> set q \<Longrightarrow> key e \<le> key x"
  by auto

lemma pop_sorted: "sorted (map key (e # q)) \<Longrightarrow> sorted (map key q)"
  by simp

end

definition queue_key :: "QueueEntry \<Rightarrow> nat \<times> nat \<times> nat" where
  "queue_key e = (unat (qe_cost e), qe_hops e, qe_state e)"

lemma QueueGreater_iff: "QueueGreater l r \<longleftrightarrow> queue_key l > queue_key r"
  by (auto simp: QueueGreater_def queue_key_def less_prod_def word_less_nat_alt word_unat_eq_iff)

interpretation queue: min_queue queue_key queue_push
proof
  show set: "set (queue_push e q) = insert e (set q)" for e q
    by (induction q) auto
  show "sorted (map queue_key (queue_push e q))" if "sorted (map queue_key q)" for e q
    using that
  proof (induction q)
    case (Cons x q)
    then show ?case using set [of e q] by (auto simp: QueueGreater_iff not_less)
  qed simp
qed

section \<open>Walks of the view\<close>

abbreviation target :: "PlanningView \<Rightarrow> nat \<Rightarrow> nat" where "target v a \<equiv> adj_to (view_adjacency v ! a)"

definition usable :: "PlanningView \<Rightarrow> BanSet \<Rightarrow> nat \<Rightarrow> nat \<Rightarrow> bool" where
  "usable v bans u a \<longleftrightarrow> a \<in> set (adjacency_range v u) \<and> \<not> AdjacencyBanned bans a \<and> \<not> NodeBanned bans (target v a)"

definition hop_weight :: "PlanningView \<Rightarrow> nat \<Rightarrow> nat" where
  "hop_weight v a = unat (hop_cost (view_cost_model v)) + unat (adj_traversal_cost (view_adjacency v ! a))"

definition path_weight :: "PlanningView \<Rightarrow> nat list \<Rightarrow> nat" where
  "path_weight v as = sum_list (map (hop_weight v) as)"

lemma path_weight_simps [simp]:
  "path_weight v [] = 0" "path_weight v (a # as) = hop_weight v a + path_weight v as"
  "path_weight v (as @ bs) = path_weight v as + path_weight v bs"
  by (simp_all add: path_weight_def)

lemma path_weight_take: "path_weight v (take i as) \<le> path_weight v as"
  by (metis append_take_drop_id le_add1 path_weight_simps(3))

inductive walks :: "PlanningView \<Rightarrow> BanSet \<Rightarrow> nat \<Rightarrow> nat list \<Rightarrow> nat list \<Rightarrow> nat \<Rightarrow> bool" for v bans s where
  start: "walks v bans s [s] [] s"
| step: "walks v bans s ns as u \<Longrightarrow> usable v bans u a \<Longrightarrow> walks v bans s (ns @ [target v a]) (as @ [a]) (target v a)"

lemma walks_length: "walks v bans s ns as x \<Longrightarrow> length ns = length as + 1"
  by (induction rule: walks.induct) auto

lemma walks_last: "walks v bans s ns as x \<Longrightarrow> last ns = x"
  by (induction rule: walks.induct) auto

lemma adjacency_range_bound:
  assumes "view_wf v" "u < NodeCount v" "a \<in> set (adjacency_range v u)"
  shows "a < length (view_adjacency v)" "target v a < NodeCount v"
proof -
  have len: "length (view_offsets v) = NodeCount v + 1" and s: "sorted (view_offsets v)"
    and last: "view_offsets v ! NodeCount v = length (view_adjacency v)"
    and to: "\<forall>a \<in> set (view_adjacency v). adj_to a < NodeCount v" using assms(1) by (auto simp: view_wf_def)
  have "view_offsets v ! (u + 1) \<le> view_offsets v ! NodeCount v"
    using s len assms(2) by (intro sorted_nth_mono) auto
  with assms(3) last show a: "a < length (view_adjacency v)" by (auto simp: AdjacencyEnd_def)
  then show "target v a < NodeCount v" using to by simp
qed

lemma walks_bounds:
  assumes "view_wf v" "s < NodeCount v" "walks v bans s ns as x"
  shows "x < NodeCount v \<and> (\<forall>n \<in> set ns. n < NodeCount v)"
  using assms(3)
proof (induction rule: walks.induct)
  case (step ns as u a)
  then have "target v a < NodeCount v" using adjacency_range_bound(2) [OF assms(1), of u a] by (simp add: usable_def)
  with step show ?case by auto
qed (use assms(2) in simp)

section \<open>Labels\<close>

definition label :: "PlainState \<Rightarrow> nat \<Rightarrow> nat \<times> nat" where
  "label st u = (unat (ps_dist st ! u), ps_hops st ! u)"

lemma BetterLabel_iff: "BetterLabel c h c' h' \<longleftrightarrow> (unat c, h) < (unat c', h')"
  by (auto simp: BetterLabel_def less_prod_def word_less_nat_alt word_unat_eq_iff)

lemma HopIncrement_eq:
  "HopIncrement v (view_adjacency v ! a) = checked (hop_weight v a)"
  using CostAdd_checked [of "unat (hop_cost (view_cost_model v))" "unat (adj_traversal_cost (view_adjacency v ! a))"]
    unsigned_less [of "hop_cost (view_cost_model v)", where 'a = nat]
    unsigned_less [of "adj_traversal_cost (view_adjacency v ! a)", where 'a = nat]
  by (simp add: HopIncrement_def hop_weight_def)

lemma next_cost_eq:
  "(case HopIncrement v (view_adjacency v ! a) of None \<Rightarrow> None | Some i \<Rightarrow> CostAdd c i) = checked (unat c + hop_weight v a)"
proof -
  have c: "unat c < 2 ^ 64" using unsigned_less [of c, where 'a = nat] by simp
  show ?thesis
    using CostAdd_checked [OF c, of "hop_weight v a"] by (auto simp: HopIncrement_eq checked_def)
qed

lemma checked_eq_Some: "checked n = Some d \<longleftrightarrow> unat d = n"
proof
  assume "checked n = Some d"
  then have "n < 2 ^ 64" "d = of_nat n" by (simp_all add: checked_def split: if_splits)
  then show "unat d = n" by (simp add: unat_of_nat_less)
next
  assume "unat d = n"
  moreover have "unat d < 2 ^ 64" using unsigned_less [of d, where 'a = nat] by simp
  ultimately show "checked n = Some d" by (auto simp: checked_def)
qed

lemma label_step_mono: "(d, h) \<le> (p, l) \<Longrightarrow> (d + w, h + 1) \<le> (p + w, l + (1::nat))" for d p :: nat
  by (auto simp: less_eq_prod_def)

lemma label_prefix_le: "p \<le> d \<Longrightarrow> i \<le> h \<Longrightarrow> (p, i) \<le> (d + w, h + (1::nat))" for d p w :: nat
  by (auto simp: less_eq_prod_def)

text \<open>
  A label is realised by a path without repeated nodes, along which every node has a label at most
  as large as the prefix that leads to it.
\<close>

definition realised :: "PlanningView \<Rightarrow> BanSet \<Rightarrow> nat \<Rightarrow> PlainState \<Rightarrow> nat \<Rightarrow> bool" where
  "realised v bans s st u \<longleftrightarrow> (\<exists>ns as. walks v bans s ns as u \<and> distinct ns \<and> label st u = (path_weight v as, length as) \<and>
     (\<forall>i < length ns. label st (ns ! i) \<le> (path_weight v (take i as), i)))"

definition plain_inv :: "PlanningView \<Rightarrow> BanSet \<Rightarrow> nat \<Rightarrow> (nat \<times> nat) set \<Rightarrow> PlainState \<Rightarrow> bool" where
  "plain_inv v bans s P st \<longleftrightarrow>
     length (ps_dist st) = NodeCount v \<and> length (ps_hops st) = NodeCount v \<and> length (ps_settled st) = NodeCount v \<and>
     label st s = (0, 0) \<and>
     (\<forall>u < NodeCount v. if ps_hops st ! u = kInfiniteHops then ps_dist st ! u = CostValue_Max else realised v bans s st u) \<and>
     sorted (map queue_key (ps_queue st)) \<and>
     (\<forall>e \<in> set (ps_queue st). qe_state e < NodeCount v \<and> qe_hops e \<noteq> kInfiniteHops \<and>
        label st (qe_state e) \<le> (unat (qe_cost e), qe_hops e)) \<and>
     (\<forall>u < NodeCount v. ps_hops st ! u \<noteq> kInfiniteHops \<and> \<not> ps_settled st ! u \<longrightarrow>
        \<lparr>qe_cost = ps_dist st ! u, qe_hops = ps_hops st ! u, qe_state = u\<rparr> \<in> set (ps_queue st)) \<and>
     (\<forall>u < NodeCount v. ps_settled st ! u \<longrightarrow> ps_hops st ! u \<noteq> kInfiniteHops \<and>
        (\<forall>e \<in> set (ps_queue st). label st u \<le> (unat (qe_cost e), qe_hops e)) \<and>
        (\<forall>a. usable v bans u a \<and> (u, a) \<notin> P \<and> fst (label st u) + hop_weight v a < 2 ^ 64 \<longrightarrow>
           label st (target v a) \<le> (fst (label st u) + hop_weight v a, snd (label st u) + 1)))"

lemma plain_invD:
  assumes "plain_inv v bans s P st"
  shows "length (ps_dist st) = NodeCount v" "length (ps_hops st) = NodeCount v" "length (ps_settled st) = NodeCount v"
    and "label st s = (0, 0)"
    and "u < NodeCount v \<Longrightarrow> ps_hops st ! u = kInfiniteHops \<Longrightarrow> ps_dist st ! u = CostValue_Max"
    and "u < NodeCount v \<Longrightarrow> ps_hops st ! u \<noteq> kInfiniteHops \<Longrightarrow> realised v bans s st u"
    and "sorted (map queue_key (ps_queue st))"
    and "e \<in> set (ps_queue st) \<Longrightarrow> qe_state e < NodeCount v"
    and "e \<in> set (ps_queue st) \<Longrightarrow> qe_hops e \<noteq> kInfiniteHops"
    and "e \<in> set (ps_queue st) \<Longrightarrow> label st (qe_state e) \<le> (unat (qe_cost e), qe_hops e)"
    and "u < NodeCount v \<Longrightarrow> ps_hops st ! u \<noteq> kInfiniteHops \<Longrightarrow> \<not> ps_settled st ! u \<Longrightarrow>
      \<lparr>qe_cost = ps_dist st ! u, qe_hops = ps_hops st ! u, qe_state = u\<rparr> \<in> set (ps_queue st)"
    and "u < NodeCount v \<Longrightarrow> ps_settled st ! u \<Longrightarrow> ps_hops st ! u \<noteq> kInfiniteHops"
    and "u < NodeCount v \<Longrightarrow> ps_settled st ! u \<Longrightarrow> e \<in> set (ps_queue st) \<Longrightarrow> label st u \<le> (unat (qe_cost e), qe_hops e)"
    and "u < NodeCount v \<Longrightarrow> ps_settled st ! u \<Longrightarrow> usable v bans u a \<Longrightarrow> (u, a) \<notin> P \<Longrightarrow>
      fst (label st u) + hop_weight v a < 2 ^ 64 \<Longrightarrow>
      label st (target v a) \<le> (fst (label st u) + hop_weight v a, snd (label st u) + 1)"
  using assms unfolding plain_inv_def by (simp_all split: if_splits)

text \<open>The invariant reads the labels, the marks and the queue only.\<close>

lemma plain_inv_cong:
  assumes "ps_dist st' = ps_dist st" "ps_hops st' = ps_hops st" "ps_settled st' = ps_settled st" "ps_queue st' = ps_queue st"
  shows "label st' = label st" "plain_inv v bans s P st' = plain_inv v bans s P st"
  using assms by (simp_all add: plain_inv_def label_def fun_eq_iff realised_def)

lemma plain_inv_relaxed:
  assumes "plain_inv v bans s (insert (u, a) P) st"
    and "usable v bans u a \<Longrightarrow> fst (label st u) + hop_weight v a < 2 ^ 64 \<Longrightarrow>
      label st (target v a) \<le> (fst (label st u) + hop_weight v a, snd (label st u) + 1)"
  shows "plain_inv v bans s P st"
proof -
  have "label st (target v b) \<le> (fst (label st x) + hop_weight v b, snd (label st x) + 1)"
    if "x < NodeCount v" "ps_settled st ! x" "usable v bans x b" "(x, b) \<notin> P" "fst (label st x) + hop_weight v b < 2 ^ 64" for x b
    using plain_invD(14) [OF assms(1) that(1-3) _ that(5)] assms(2) that by (cases "(x, b) = (u, a)") auto
  with assms(1) show ?thesis unfolding plain_inv_def by simp
qed

text \<open>A path without repeated nodes that is as long as the view visits every node.\<close>

lemma realised_full:
  assumes "view_wf v" "s < NodeCount v" "realised v bans s st u" "NodeCount v \<le> snd (label st u) + 1" "w < NodeCount v"
  shows "label st w \<le> (fst (label st u) + k, snd (label st u) + 1)"
proof -
  obtain ns as where w: "walks v bans s ns as u" "distinct ns" "label st u = (path_weight v as, length as)"
    "\<forall>i < length ns. label st (ns ! i) \<le> (path_weight v (take i as), i)" using assms(3) unfolding realised_def by blast
  have sub: "set ns \<subseteq> {..<NodeCount v}" using walks_bounds [OF assms(1,2) w(1)] by auto
  have len: "length ns = length as + 1" by (rule walks_length [OF w(1)])
  have "NodeCount v \<le> card (set ns)" using distinct_card [OF w(2)] assms(4) w(3) len by simp
  then have "set ns = {..<NodeCount v}" using sub by (intro card_seteq) auto
  then obtain i where i: "i < length ns" "ns ! i = w" using assms(5) by (metis in_set_conv_nth lessThan_iff)
  have "label st w \<le> (path_weight v (take i as), i)" using w(4) i by auto
  also have "\<dots> \<le> (path_weight v as + k, length as + 1)"
    using path_weight_take [of v i as] i(1) len by (intro label_prefix_le) auto
  finally show ?thesis using w(3) by simp
qed

lemma realised_hops:
  assumes "view_wf v" "s < NodeCount v" "realised v bans s st u"
  shows "snd (label st u) < NodeCount v"
proof -
  obtain ns as where w: "walks v bans s ns as u" "distinct ns" "label st u = (path_weight v as, length as)"
    using assms(3) unfolding realised_def by blast
  have "card (set ns) \<le> card {..<NodeCount v}" using walks_bounds [OF assms(1,2) w(1)] by (intro card_mono) auto
  then show ?thesis using distinct_card [OF w(2)] walks_length [OF w(1)] w(3) by simp
qed

text \<open>Improving a label keeps the invariant, because the improved node is not settled.\<close>

definition improve :: "nat \<Rightarrow> CostValue \<Rightarrow> nat \<Rightarrow> PlainState \<Rightarrow> PlainState" where
  "improve w c h st = st\<lparr>ps_dist := (ps_dist st)[w := c], ps_hops := (ps_hops st)[w := h],
     ps_queue := queue_push \<lparr>qe_cost = c, qe_hops = h, qe_state = w\<rparr> (ps_queue st)\<rparr>"

lemma improve_label:
  assumes "length (ps_dist st) = n" "length (ps_hops st) = n" "w < n" "(unat c, h) < label st w"
  shows "label (improve w c h st) x = (if x = w then (unat c, h) else label st x)" "label (improve w c h st) x \<le> label st x"
  using assms by (auto simp: label_def improve_def nth_list_update)

lemma realised_improve:
  assumes "view_wf v" "s < NodeCount v" "length (ps_dist st) = NodeCount v" "length (ps_hops st) = NodeCount v"
    and "realised v bans s st u" "usable v bans u a" "u < NodeCount v"
    and "unat c = fst (label st u) + hop_weight v a" "h = snd (label st u) + 1" "(unat c, h) < label st (target v a)"
  shows "realised v bans s (improve (target v a) c h st) (target v a)"
    and "realised v bans s st x \<Longrightarrow> x \<noteq> target v a \<Longrightarrow> realised v bans s (improve (target v a) c h st) x"
    and "h < NodeCount v"
proof -
  let ?w = "target v a" and ?st = "improve (target v a) c h st"
  have w: "?w < NodeCount v" using adjacency_range_bound(2) [OF assms(1,7)] assms(6) by (simp add: usable_def)
  note lab = improve_label [OF assms(3,4) w assms(10)]
  obtain ns as where W: "walks v bans s ns as u" "distinct ns" "label st u = (path_weight v as, length as)"
    "\<forall>i < length ns. label st (ns ! i) \<le> (path_weight v (take i as), i)" using assms(5) unfolding realised_def by blast
  have len: "length ns = length as + 1" by (rule walks_length [OF W(1)])
  have new: "(unat c, h) = (path_weight v (as @ [a]), length (as @ [a]))" using assms(8,9) W(3) by simp
  have fresh: "?w \<notin> set ns"
  proof
    assume "?w \<in> set ns"
    then obtain i where i: "i < length ns" "ns ! i = ?w" by (auto simp: in_set_conv_nth)
    then have "label st ?w \<le> (path_weight v (take i as), i)" using W(4) by auto
    also have "\<dots> \<le> (unat c, h)" unfolding new
      using path_weight_take [of v i as] i(1) len label_prefix_le [of "path_weight v (take i as)" "path_weight v as" i "length as" "hop_weight v a"] by simp
    finally show False using assms(10) by simp
  qed
  have walk: "walks v bans s (ns @ [?w]) (as @ [a]) ?w" by (rule walks.step [OF W(1) assms(6)])
  have "label ?st ((ns @ [?w]) ! i) \<le> (path_weight v (take i (as @ [a])), i)" if "i < length (ns @ [?w])" for i
  proof (cases "i < length ns")
    case True
    then show ?thesis using W(4) len lab(2) [of "ns ! i"] by (auto simp: nth_append intro: order_trans)
  next
    case False
    then have "i = length ns" using that by simp
    then have "(ns @ [?w]) ! i = ?w" by simp
    moreover have "i = length (as @ [a])" using \<open>i = length ns\<close> len by simp
    ultimately show ?thesis using lab(1) [of ?w] new by simp
  qed
  then show "realised v bans s ?st ?w"
    unfolding realised_def using walk fresh W(2) lab(1) [of ?w] new by (intro exI [of _ "ns @ [?w]"] exI [of _ "as @ [a]"]) simp
  have "distinct (ns @ [?w])" using W(2) fresh by simp
  moreover have "set (ns @ [?w]) \<subseteq> {..<NodeCount v}" using walks_bounds [OF assms(1,2) walk] by auto
  ultimately have "length (ns @ [?w]) \<le> NodeCount v" using card_mono [of "{..<NodeCount v}" "set (ns @ [?w])"] distinct_card by fastforce
  then show "h < NodeCount v" using new len by simp
  show "realised v bans s ?st x" if x: "realised v bans s st x" "x \<noteq> ?w"
  proof -
    obtain ms bs where M: "walks v bans s ms bs x" "distinct ms" "label st x = (path_weight v bs, length bs)"
      "\<forall>i < length ms. label st (ms ! i) \<le> (path_weight v (take i bs), i)" using x(1) unfolding realised_def by blast
    have "\<forall>i < length ms. label ?st (ms ! i) \<le> (path_weight v (take i bs), i)"
      using M(4) lab(2) by (metis order_trans)
    then show ?thesis unfolding realised_def using M(1-3) lab(1) [of x] x(2) by metis
  qed
qed

lemma plain_inv_improve:
  assumes "view_wf v" "s < NodeCount v" "plain_inv v bans s (insert (u, a) P) st" "u < NodeCount v" "ps_settled st ! u"
    and "usable v bans u a" "\<forall>x < NodeCount v. ps_settled st ! x \<longrightarrow> label st x \<le> label st u"
    and "unat c = fst (label st u) + hop_weight v a" "h = snd (label st u) + 1" "(unat c, h) < label st (target v a)"
  shows "plain_inv v bans s P (improve (target v a) c h st)"
    and "x < NodeCount v \<Longrightarrow> ps_settled st ! x \<Longrightarrow> label (improve (target v a) c h st) x = label st x"
proof -
  let ?w = "target v a" and ?st = "improve (target v a) c h st"
  note D = plain_invD [OF assms(3)]
  have w: "?w < NodeCount v" using adjacency_range_bound(2) [OF assms(1,4)] assms(6) by (simp add: usable_def)
  note lab = improve_label [OF D(1,2) w assms(10)]
  have real: "realised v bans s st u" using D(6) [OF assms(4)] D(12) [OF assms(4,5)] by simp
  note R = realised_improve [OF assms(1,2) D(1,2) real assms(6,4,8-10)]
  have above: "label st u < (unat c, h)" using assms(8,9) by (cases "label st u") (auto simp: less_prod_def)
  have fresh: "\<not> ps_settled st ! ?w" using assms(7,10) w above by (metis le_less_trans less_asym less_le_trans)
  then show same: "label ?st x = label st x" if "x < NodeCount v" "ps_settled st ! x" for x using that lab(1) [of x] by auto
  have hw: "h \<noteq> kInfiniteHops" using R(3) assms(1) by (simp add: view_wf_def kInvalidIndex_def kInfiniteHops_def)
  have hops: "ps_hops ?st ! x = (if x = ?w then h else ps_hops st ! x)" "ps_dist ?st ! x = (if x = ?w then c else ps_dist st ! x)" for x
    using D(1,2) w by (simp_all add: improve_def nth_list_update)
  have settled: "ps_settled ?st = ps_settled st" by (simp add: improve_def)
  have q: "set (ps_queue ?st) = insert \<lparr>qe_cost = c, qe_hops = h, qe_state = ?w\<rparr> (set (ps_queue st))"
    by (simp add: improve_def queue.push_set)
  have src: "label ?st s = (0, 0)" using lab(2) [of s] D(4) by (auto simp: less_eq_prod_def prod_eq_iff)
  have "if ps_hops ?st ! x = kInfiniteHops then ps_dist ?st ! x = CostValue_Max else realised v bans s ?st x" if "x < NodeCount v" for x
    using R(1) R(2) [of x] D(5,6) [OF that] hw by (auto simp: hops)
  moreover have "sorted (map queue_key (ps_queue ?st))" using queue.push_sorted [OF D(7)] by (simp add: improve_def)
  moreover have "qe_state e < NodeCount v \<and> qe_hops e \<noteq> kInfiniteHops \<and> label ?st (qe_state e) \<le> (unat (qe_cost e), qe_hops e)"
    if "e \<in> set (ps_queue ?st)" for e
  proof (cases "e \<in> set (ps_queue st)")
    case True
    then show ?thesis using D(8,9) [OF True] order_trans [OF lab(2) D(10) [OF True]] by blast
  next
    case False
    then have "e = \<lparr>qe_cost = c, qe_hops = h, qe_state = ?w\<rparr>" using that by (simp add: q)
    then show ?thesis using lab(1) [of ?w] w hw by simp
  qed
  moreover have "\<lparr>qe_cost = ps_dist ?st ! x, qe_hops = ps_hops ?st ! x, qe_state = x\<rparr> \<in> set (ps_queue ?st)"
    if "x < NodeCount v" "ps_hops ?st ! x \<noteq> kInfiniteHops" "\<not> ps_settled ?st ! x" for x
    using D(11) [OF that(1)] that(2,3) by (cases "x = ?w") (auto simp: q hops settled)
  moreover have "ps_hops ?st ! x \<noteq> kInfiniteHops \<and> (\<forall>e \<in> set (ps_queue ?st). label ?st x \<le> (unat (qe_cost e), qe_hops e)) \<and>
      (\<forall>b. usable v bans x b \<and> (x, b) \<notin> P \<and> fst (label ?st x) + hop_weight v b < 2 ^ 64 \<longrightarrow>
         label ?st (target v b) \<le> (fst (label ?st x) + hop_weight v b, snd (label ?st x) + 1))"
    if x: "x < NodeCount v" "ps_settled ?st ! x" for x
  proof (intro conjI ballI allI impI)
    have xs: "ps_settled st ! x" using x(2) by (simp add: settled)
    note eq = same [OF x(1) xs]
    show "ps_hops ?st ! x \<noteq> kInfiniteHops" using D(12) [OF x(1) xs] hops(1) [of x] fresh xs by auto
    show "label ?st x \<le> (unat (qe_cost e), qe_hops e)" if "e \<in> set (ps_queue ?st)" for e
      using that D(13) [OF x(1) xs, of e] assms(7) x(1) xs above eq by (auto simp: q intro: order_trans less_imp_le)
    show "label ?st (target v b) \<le> (fst (label ?st x) + hop_weight v b, snd (label ?st x) + 1)"
      if b: "usable v bans x b \<and> (x, b) \<notin> P \<and> fst (label ?st x) + hop_weight v b < 2 ^ 64" for b
    proof (cases "(x, b) = (u, a)")
      case True
      then show ?thesis using lab(1) [of ?w] assms(8,9) eq by simp
    next
      case False
      then have "label st (target v b) \<le> (fst (label st x) + hop_weight v b, snd (label st x) + 1)"
        using D(14) [OF x(1) xs, of b] b eq by simp
      from order_trans [OF lab(2) this] show ?thesis unfolding eq .
    qed
  qed
  moreover have "length (ps_dist ?st) = NodeCount v" "length (ps_hops ?st) = NodeCount v" "length (ps_settled ?st) = NodeCount v"
    using D(1-3) by (simp_all add: improve_def)
  ultimately show "plain_inv v bans s P ?st" unfolding plain_inv_def using src by blast
qed

lemma relax_plain_cases:
  assumes "relax_plain v bans hb u c a st = (True, st')" "a \<in> set (adjacency_range v u)"
  defines "new \<equiv> (unat c + hop_weight v a, ps_hops st ! u + 1)"
  obtains (unchanged) "ps_dist st' = ps_dist st" "ps_hops st' = ps_hops st" "ps_settled st' = ps_settled st" "ps_queue st' = ps_queue st"
      "usable v bans u a \<Longrightarrow> fst new < 2 ^ 64 \<Longrightarrow> \<not> (hb \<noteq> kNoHopBound \<and> snd new > hb) \<Longrightarrow> label st (target v a) \<le> new"
  | (improved) c' w where "usable v bans u a" "unat c' = fst new" "new < label st (target v a)"
      "st' = (improve (target v a) c' (snd new) st)\<lparr>ps_work := w\<rparr>"
proof (cases "usable v bans u a \<and> \<not> (hb \<noteq> kNoHopBound \<and> ps_hops st ! u + 1 > hb) \<and> fst new < 2 ^ 64 \<and> new < label st (target v a)")
  case True
  define c' where "c' = (of_nat (fst new) :: CostValue)"
  have nc: "(case HopIncrement v (view_adjacency v ! a) of None \<Rightarrow> None | Some i \<Rightarrow> CostAdd c i) = Some c'"
    unfolding next_cost_eq using True by (simp add: checked_def c'_def new_def)
  then obtain i where i: "HopIncrement v (view_adjacency v ! a) = Some i" "CostAdd c i = Some c'" by (auto split: option.splits)
  have c': "unat c' = fst new" using True by (simp add: c'_def unat_of_nat_less)
  have better: "BetterLabel c' (ps_hops st ! u + 1) (ps_dist st ! target v a) (ps_hops st ! target v a)"
    using True c' by (simp add: BetterLabel_iff label_def new_def)
  from assms(1) True i better
  have "\<exists>w. st' = (improve (target v a) c' (snd new) st)\<lparr>ps_work := w\<rparr>"
    by (auto simp: relax_plain_def usable_def improve_def new_def Let_def split: prod.splits bool.splits)
  then show thesis using improved True c' by blast
next
  case False
  have "ps_dist st' = ps_dist st \<and> ps_hops st' = ps_hops st \<and> ps_settled st' = ps_settled st \<and> ps_queue st' = ps_queue st"
  proof (cases "usable v bans u a \<and> \<not> (hb \<noteq> kNoHopBound \<and> ps_hops st ! u + 1 > hb)")
    case usable: True
    show ?thesis
    proof (cases "fst new < 2 ^ 64")
      case True
      define c' where "c' = (of_nat (fst new) :: CostValue)"
      have "(case HopIncrement v (view_adjacency v ! a) of None \<Rightarrow> None | Some i \<Rightarrow> CostAdd c i) = Some c'"
        unfolding next_cost_eq using True by (simp add: checked_def c'_def new_def)
      then obtain i where i: "HopIncrement v (view_adjacency v ! a) = Some i" "CostAdd c i = Some c'" by (auto split: option.splits)
      have "unat c' = fst new" using True by (simp add: c'_def unat_of_nat_less)
      then have "\<not> BetterLabel c' (ps_hops st ! u + 1) (ps_dist st ! target v a) (ps_hops st ! target v a)"
        using True usable False by (simp add: BetterLabel_iff label_def new_def)
      then show ?thesis using assms(1) usable i
        by (auto simp: relax_plain_def usable_def Let_def split: prod.splits bool.splits)
    next
      case False
      then have "(case HopIncrement v (view_adjacency v ! a) of None \<Rightarrow> None | Some i \<Rightarrow> CostAdd c i) = None"
        unfolding next_cost_eq by (simp add: checked_def new_def)
      then show ?thesis using assms(1) usable
        by (auto simp: relax_plain_def usable_def Let_def split: option.splits)
    qed
  next
    case False
    then show ?thesis using assms(1,2) by (auto simp: relax_plain_def usable_def Let_def split: if_splits)
  qed
  then show thesis using unchanged False by (auto simp: new_def)
qed

lemma relax_plain_step:
  assumes "view_wf v" "s < NodeCount v" "hb = kNoHopBound \<or> NodeCount v \<le> hb + 1"
    and "plain_inv v bans s (insert (u, a) P) st" "u < NodeCount v" "ps_settled st ! u"
    and "\<forall>x < NodeCount v. ps_settled st ! x \<longrightarrow> label st x \<le> label st u"
    and "unat c = fst (label st u)" "a \<in> set (adjacency_range v u)" "relax_plain v bans hb u c a st = (True, st')"
  shows "plain_inv v bans s P st' \<and> ps_settled st' = ps_settled st \<and> (\<forall>x < NodeCount v. ps_settled st ! x \<longrightarrow> label st' x = label st x)"
  using assms(10,9)
proof (cases rule: relax_plain_cases)
  case unchanged
  note D = plain_invD [OF assms(4)]
  have real: "realised v bans s st u" using D(6) [OF assms(5)] D(12) [OF assms(5,6)] by simp
  have "label st (target v a) \<le> (fst (label st u) + hop_weight v a, snd (label st u) + 1)"
    if "usable v bans u a" "fst (label st u) + hop_weight v a < 2 ^ 64"
  proof (cases "hb \<noteq> kNoHopBound \<and> ps_hops st ! u + 1 > hb")
    case True
    then show ?thesis using realised_full [OF assms(1,2) real, of "target v a"] assms(3)
        adjacency_range_bound(2) [OF assms(1,5,9)] by (simp add: label_def)
  next
    case False
    then show ?thesis using unchanged(5) that assms(8) by (simp add: label_def)
  qed
  from plain_inv_relaxed [OF assms(4) this] have "plain_inv v bans s P st" .
  then show ?thesis using plain_inv_cong [OF unchanged(1-4)] unchanged(3) by simp
next
  case (improved c' w)
  let ?st = "improve (target v a) c' (snd (unat c + hop_weight v a, ps_hops st ! u + 1)) st"
  have h: "snd (unat c + hop_weight v a, ps_hops st ! u + 1) = snd (label st u) + 1" by (simp add: label_def)
  have c': "unat c' = fst (label st u) + hop_weight v a" using improved(2) assms(8) by simp
  have less: "(unat c', snd (unat c + hop_weight v a, ps_hops st ! u + 1)) < label st (target v a)"
    using improved(2,3) by simp
  note I = plain_inv_improve [OF assms(1,2,4-6) improved(1) assms(7) c' h less]
  have cong: "ps_dist st' = ps_dist ?st" "ps_hops st' = ps_hops ?st" "ps_settled st' = ps_settled ?st" "ps_queue st' = ps_queue ?st"
    using improved(4) by simp_all
  show ?thesis using plain_inv_cong [OF cong] I cong(3) by (simp add: improve_def)
qed

lemma relax_all_step:
  assumes "view_wf v" "s < NodeCount v" "hb = kNoHopBound \<or> NodeCount v \<le> hb + 1" "u < NodeCount v"
    and "for_each (relax_plain v bans hb u c) xs st = (True, st')" "set xs \<subseteq> set (adjacency_range v u)"
    and "plain_inv v bans s (Pair u ` set xs) st" "ps_settled st ! u" "unat c = fst (label st u)"
    and "\<forall>x < NodeCount v. ps_settled st ! x \<longrightarrow> label st x \<le> label st u"
  shows "plain_inv v bans s {} st'"
  using assms(5-)
proof (induction xs arbitrary: st)
  case Nil
  then show ?case by simp
next
  case (Cons a xs)
  obtain st1 where st1: "relax_plain v bans hb u c a st = (True, st1)" "for_each (relax_plain v bans hb u c) xs st1 = (True, st')"
    using Cons.prems(1) by (auto split: prod.splits bool.splits)
  have inv: "plain_inv v bans s (insert (u, a) (Pair u ` set xs)) st" using Cons.prems(3) by (simp add: image_insert)
  have a: "a \<in> set (adjacency_range v u)" using Cons.prems(2) by simp
  note S = relax_plain_step [OF assms(1-3) inv assms(4) Cons.prems(4,6,5) a st1(1)]
  have xs: "set xs \<subseteq> set (adjacency_range v u)" using Cons.prems(2) by simp
  show ?case
    by (rule Cons.IH [OF st1(2) xs]) (use S Cons.prems(4-6) assms(4) in auto)
qed

text \<open>Removing the top of the queue, when it is settled already or older than the label of its node.\<close>

lemma plain_inv_drop:
  assumes "plain_inv v bans s {} st" "ps_queue st = e # q"
    and "ps_settled st ! qe_state e \<or> label st (qe_state e) < (unat (qe_cost e), qe_hops e)"
  shows "plain_inv v bans s {} (st\<lparr>ps_queue := q\<rparr>)"
proof -
  note D = plain_invD [OF assms(1)]
  have lab: "label (st\<lparr>ps_queue := q\<rparr>) = label st" by (simp add: label_def fun_eq_iff)
  have real: "realised v bans s (st\<lparr>ps_queue := q\<rparr>) x = realised v bans s st x" for x by (simp add: realised_def lab)
  have "\<lparr>qe_cost = ps_dist st ! x, qe_hops = ps_hops st ! x, qe_state = x\<rparr> \<in> set q"
    if "x < NodeCount v" "ps_hops st ! x \<noteq> kInfiniteHops" "\<not> ps_settled st ! x" for x
    using D(11) [OF that] assms(2,3) that(3) by (auto simp: label_def)
  then show ?thesis using assms(1,2) unfolding plain_inv_def lab real by (auto simp: lab)
qed

lemma plain_inv_settle:
  assumes "plain_inv v bans s {} st" "ps_queue st = e # q" "\<not> label st (qe_state e) < (unat (qe_cost e), qe_hops e)"
  defines "u \<equiv> qe_state e" and "st1 \<equiv> st\<lparr>ps_queue := q, ps_settled := (ps_settled st)[qe_state e := True]\<rparr>"
  shows "plain_inv v bans s (Pair u ` set (adjacency_range v u)) st1" "u < NodeCount v" "ps_settled st1 ! u"
    "unat (qe_cost e) = fst (label st1 u)" "\<forall>x < NodeCount v. ps_settled st1 ! x \<longrightarrow> label st1 x \<le> label st1 u"
proof -
  note D = plain_invD [OF assms(1)]
  have e: "e \<in> set (ps_queue st)" using assms(2) by simp
  have lab: "label st1 = label st" by (simp add: label_def fun_eq_iff st1_def)
  have real: "realised v bans s st1 x = realised v bans s st x" for x by (simp add: realised_def lab)
  show u: "u < NodeCount v" using D(8) [OF e] by (simp add: u_def)
  have eq: "label st u = (unat (qe_cost e), qe_hops e)" using D(10) [OF e] assms(3) by (simp add: u_def)
  then have fin: "ps_hops st ! u \<noteq> kInfiniteHops" using D(9) [OF e] by (simp add: label_def)
  have st: "ps_settled st1 ! x \<longleftrightarrow> x = u \<or> ps_settled st ! x" if "x < NodeCount v" for x
    using that D(3) u by (auto simp: st1_def u_def nth_list_update)
  show "ps_settled st1 ! u" using st [OF u] by simp
  show "unat (qe_cost e) = fst (label st1 u)" using eq lab by simp
  show max: "\<forall>x < NodeCount v. ps_settled st1 ! x \<longrightarrow> label st1 x \<le> label st1 u"
    using D(13) [OF _ _ e] st eq by (auto simp: lab)
  have top: "label st u \<le> (unat (qe_cost x), qe_hops x)" if "x \<in> set q" for x
    using queue.top_min [of e q x] D(7) assms(2) that eq by (auto simp: queue_key_def less_eq_prod_def)
  show "plain_inv v bans s (Pair u ` set (adjacency_range v u)) st1"
    unfolding plain_inv_def
  proof (intro conjI allI impI ballI)
    fix x assume x: "x < NodeCount v"
    show "if ps_hops st1 ! x = kInfiniteHops then ps_dist st1 ! x = CostValue_Max else realised v bans s st1 x"
      using D(5,6) [OF x] by (simp add: real) (simp add: st1_def)
    show "\<lparr>qe_cost = ps_dist st1 ! x, qe_hops = ps_hops st1 ! x, qe_state = x\<rparr> \<in> set (ps_queue st1)"
      if "ps_hops st1 ! x \<noteq> kInfiniteHops \<and> \<not> ps_settled st1 ! x"
    proof -
      have "x \<noteq> u" "\<not> ps_settled st ! x" "ps_hops st ! x \<noteq> kInfiniteHops" using that st [OF x] by (auto simp: st1_def)
      then show ?thesis using D(11) [OF x] assms(2) by (auto simp: st1_def u_def)
    qed
    assume sx: "ps_settled st1 ! x"
    show "ps_hops st1 ! x \<noteq> kInfiniteHops" using sx st [OF x] fin D(12) [OF x] by (auto simp: st1_def)
    show "label st1 x \<le> (unat (qe_cost y), qe_hops y)" if "y \<in> set (ps_queue st1)" for y
    proof -
      have "y \<in> set q" "y \<in> set (ps_queue st)" using that assms(2) by (simp_all add: st1_def)
      then show ?thesis unfolding lab using sx st [OF x] top D(13) [OF x] by blast
    qed
    fix b assume b: "usable v bans x b \<and> (x, b) \<notin> Pair u ` set (adjacency_range v u) \<and> fst (label st1 x) + hop_weight v b < 2 ^ 64"
    then have "x \<noteq> u" by (auto simp: usable_def)
    then show "label st1 (target v b) \<le> (fst (label st1 x) + hop_weight v b, snd (label st1 x) + 1)"
      using D(14) [OF x, of b] b sx st [OF x] by (simp add: lab)
  qed (use D assms(2) in \<open>auto simp: st1_def label_def\<close>)
qed

lemma plain_loop_inv:
  assumes "view_wf v" "s < NodeCount v" "hb = kNoHopBound \<or> NodeCount v \<le> hb + 1"
  shows "plain_inv v bans s {} st \<Longrightarrow> plain_loop v bans hb st = (True, st') \<Longrightarrow> plain_inv v bans s {} st' \<and> ps_queue st' = []"
  using assms
proof (induction v bans hb st rule: plain_loop.induct)
  case (1 v bans hb st)
  show ?case
  proof (cases "ps_queue st")
    case Nil
    then show ?thesis using "1.prems" by (simp add: plain_loop.simps [of v bans hb st])
  next
    case (Cons e q)
    let ?st = "st\<lparr>ps_queue := q\<rparr>"
    note IH = "1.IH" [OF Cons refl refl]
    show ?thesis
    proof (cases "ps_settled ?st ! qe_state e")
      case True
      then have "plain_loop v bans hb ?st = (True, st')"
        using "1.prems"(2) Cons by (simp add: plain_loop.simps [of v bans hb st])
      then show ?thesis using IH(1) [OF True] plain_inv_drop [OF "1.prems"(1) Cons] True "1.prems"(3-) by simp
    next
      case False
      show ?thesis
      proof (cases "BetterLabel (ps_dist ?st ! qe_state e) (ps_hops ?st ! qe_state e) (qe_cost e) (qe_hops e)")
        case True
        then have "plain_loop v bans hb ?st = (True, st')"
          using "1.prems"(2) Cons False by (simp add: plain_loop.simps [of v bans hb st])
        moreover have "plain_inv v bans s {} ?st"
          using plain_inv_drop [OF "1.prems"(1) Cons] True by (simp add: BetterLabel_iff label_def)
        ultimately show ?thesis using IH(2) [OF False True] "1.prems"(3-) by simp
      next
        case notbetter: False
        let ?u = "qe_state e" and ?st1 = "st\<lparr>ps_queue := q, ps_settled := (ps_settled st)[qe_state e := True]\<rparr>"
        obtain ok st2 where st2: "for_each (relax_plain v bans hb ?u (qe_cost e)) (adjacency_range v ?u) ?st1 = (ok, st2)"
          by (cases "for_each (relax_plain v bans hb ?u (qe_cost e)) (adjacency_range v ?u) ?st1")
        have res: "ok" "plain_loop v bans hb st2 = (True, st')"
          using "1.prems"(2) Cons False notbetter st2 by (auto simp: plain_loop.simps [of v bans hb st] Let_def split: bool.splits)
        have nb: "\<not> label st ?u < (unat (qe_cost e), qe_hops e)" using notbetter by (simp add: BetterLabel_iff label_def)
        note S = plain_inv_settle [OF "1.prems"(1) Cons nb]
        have "plain_inv v bans s {} st2"
          using relax_all_step [OF "1.prems"(3-5) S(2) _ subset_refl S(1,3-5)] st2 res(1) by simp
        then show ?thesis using IH(3) [OF False notbetter _ _ _ res(2)] st2 res "1.prems"(3-) by simp
      qed
    qed
  qed
qed

section \<open>The labels are optimal\<close>

lemma plain_start_inv:
  assumes "view_wf v" "s < NodeCount v"
  shows "plain_inv v bans s {} (plain_start v s w)"
proof -
  let ?st = "plain_start v s w"
  have lab: "label ?st s = (0, 0)" using assms(2) by (simp add: label_def plain_start_def)
  have "realised v bans s ?st s"
    unfolding realised_def using lab by (intro exI [of _ "[s]"] exI [of _ "[]"]) (auto intro: walks.start)
  moreover have "ps_hops ?st ! x = (if x = s then 0 else kInfiniteHops)" "ps_dist ?st ! x = (if x = s then 0 else CostValue_Max)"
    "\<not> ps_settled ?st ! x" if "x < NodeCount v" for x using that by (simp_all add: plain_start_def nth_list_update)
  moreover have "ps_queue ?st = [\<lparr>qe_cost = 0, qe_hops = 0, qe_state = s\<rparr>]" by (simp add: plain_start_def)
  ultimately show ?thesis
    unfolding plain_inv_def using lab assms(2)
    by (auto simp: kInfiniteHops_def) (simp_all add: plain_start_def)
qed

lemma plain_labels_lower:
  assumes "view_wf v" "s < NodeCount v" "plain_inv v bans s {} st" "ps_queue st = []" "walks v bans s ns as x"
    and "path_weight v as < 2 ^ 64"
  shows "label st x \<le> (path_weight v as, length as) \<and> ps_hops st ! x \<noteq> kInfiniteHops"
  using assms(5,6)
proof (induction rule: walks.induct)
  case start
  then show ?case using plain_invD(4) [OF assms(3)] by (simp add: label_def kInfiniteHops_def)
next
  case (step ns as u a)
  note D = plain_invD [OF assms(3)]
  have IH: "label st u \<le> (path_weight v as, length as)" "ps_hops st ! u \<noteq> kInfiniteHops" using step by auto
  have u: "u < NodeCount v" using walks_bounds [OF assms(1,2) step.hyps(1)] by simp
  have set: "ps_settled st ! u" using D(11) [OF u IH(2)] assms(4) by auto
  have le: "fst (label st u) \<le> path_weight v as" using IH(1) by (cases "label st u") (auto simp: less_eq_prod_def)
  have lab: "label st (target v a) \<le> (fst (label st u) + hop_weight v a, snd (label st u) + 1)"
    using D(14) [OF u set step.hyps(2)] le step.prems by simp
  also have "\<dots> \<le> (path_weight v as + hop_weight v a, length as + 1)"
    using IH(1) label_step_mono [of "fst (label st u)" "snd (label st u)"] by simp
  finally have le': "label st (target v a) \<le> (path_weight v (as @ [a]), length (as @ [a]))" by simp
  have "snd (label st u) < NodeCount v" using realised_hops [OF assms(1,2) D(6) [OF u IH(2)]] .
  then have "snd (label st u) + 1 < kInfiniteHops" using assms(1) by (simp add: view_wf_def kInvalidIndex_def kInfiniteHops_def)
  moreover have "unat (ps_dist st ! target v a) = 2 ^ 64 - 1" if "ps_hops st ! target v a = kInfiniteHops"
    using D(5) [OF adjacency_range_bound(2) [OF assms(1) u] that] step.hyps(2) by (simp add: usable_def unat_CostValue_Max)
  ultimately have "ps_hops st ! target v a \<noteq> kInfiniteHops"
    using lab le step.prems by (auto simp: label_def less_eq_prod_def)
  with le' show ?case by blast
qed

section \<open>Reconstruction\<close>

text \<open>The edges of optimal paths: one hop further at exactly the cost of the edge.\<close>

definition tight :: "PlanningView \<Rightarrow> BanSet \<Rightarrow> PlainState \<Rightarrow> nat \<Rightarrow> nat \<Rightarrow> bool" where
  "tight v bans st u a \<longleftrightarrow> usable v bans u a \<and>
     label st (target v a) = (fst (label st u) + hop_weight v a, snd (label st u) + 1)"

lemma plain_tight_iff:
  "a \<in> set (adjacency_range v u) \<and> plain_tight v bans st r u (ps_hops st ! u) a \<longleftrightarrow> tight v bans st u a \<and> r ! target v a"
proof -
  have "(case HopIncrement v (view_adjacency v ! a) of None \<Rightarrow> False | Some i \<Rightarrow> CostAdd (ps_dist st ! u) i = Some d) \<longleftrightarrow>
      unat d = unat (ps_dist st ! u) + hop_weight v a" for d
  proof -
    have "(case HopIncrement v (view_adjacency v ! a) of None \<Rightarrow> False | Some i \<Rightarrow> CostAdd (ps_dist st ! u) i = Some d) \<longleftrightarrow>
      (case HopIncrement v (view_adjacency v ! a) of None \<Rightarrow> None | Some i \<Rightarrow> CostAdd (ps_dist st ! u) i) = Some d"
      by (auto split: option.splits)
    also have "\<dots> \<longleftrightarrow> unat d = unat (ps_dist st ! u) + hop_weight v a"
      unfolding next_cost_eq checked_eq_Some ..
    finally show ?thesis .
  qed
  then show ?thesis by (auto simp: plain_tight_def tight_def usable_def label_def Let_def)
qed

text \<open>Paths of tight edges to the destination.\<close>

fun tight_path :: "PlanningView \<Rightarrow> BanSet \<Rightarrow> PlainState \<Rightarrow> nat \<Rightarrow> nat \<Rightarrow> nat list \<Rightarrow> bool" where
  "tight_path v bans st dest u [] \<longleftrightarrow> u = dest"
| "tight_path v bans st dest u (a # as) \<longleftrightarrow> tight v bans st u a \<and> tight_path v bans st dest (target v a) as"

lemma tight_path_label:
  "tight_path v bans st dest u as \<Longrightarrow> label st dest = (fst (label st u) + path_weight v as, snd (label st u) + length as)"
  by (induction as arbitrary: u) (auto simp: tight_def)

definition can_finish :: "PlanningView \<Rightarrow> BanSet \<Rightarrow> PlainState \<Rightarrow> nat \<Rightarrow> nat \<Rightarrow> bool" where
  "can_finish v bans st dest u \<longleftrightarrow> (\<exists>as. tight_path v bans st dest u as)"

lemma can_finish_step:
  "can_finish v bans st dest u \<longleftrightarrow> u = dest \<or> (\<exists>a. tight v bans st u a \<and> can_finish v bans st dest (target v a))"
proof
  assume "can_finish v bans st dest u"
  then obtain as where "tight_path v bans st dest u as" by (auto simp: can_finish_def)
  then show "u = dest \<or> (\<exists>a. tight v bans st u a \<and> can_finish v bans st dest (target v a))"
    by (cases as) (auto simp: can_finish_def)
qed (auto simp: can_finish_def intro: tight_path.simps(1) [THEN iffD2] tight_path.simps(2) [THEN iffD2])

lemma plain_buckets_nth:
  assumes "c \<le> T"
  shows "plain_buckets v st T ! c = filter (\<lambda>x. ps_dist st ! x \<noteq> CostValue_Max \<and> ps_hops st ! x = c) [0..<NodeCount v]"
proof -
  let ?f = "\<lambda>node bs. if ps_dist st ! node \<noteq> CostValue_Max \<and> ps_hops st ! node \<le> T
    then bs[ps_hops st ! node := bs ! (ps_hops st ! node) @ [node]] else bs"
  have "length (fold ?f [0..<k] (replicate (T + 1) [])) = T + 1 \<and>
    fold ?f [0..<k] (replicate (T + 1) []) ! c = filter (\<lambda>x. ps_dist st ! x \<noteq> CostValue_Max \<and> ps_hops st ! x = c) [0..<k]" for k
    using assms by (induction k) (auto simp: nth_list_update simp del: replicate_Suc)
  then show ?thesis by (simp add: plain_buckets_def)
qed

lemma fold_update_nth:
  assumes "distinct xs" "\<And>r x. length r = n \<Longrightarrow> (\<And>y. y \<notin> set xs \<Longrightarrow> r ! y = r0 ! y) \<Longrightarrow> x \<in> set xs \<Longrightarrow> f r x = f r0 x"
    and "length r0 = n" "y < n"
  shows "fold (\<lambda>x r. r[x := f r x]) xs r0 ! y = (if y \<in> set xs then f r0 y else r0 ! y)"
proof -
  have "length (fold (\<lambda>x r. r[x := f r x]) ys r0) = n \<and>
      (\<forall>z < n. fold (\<lambda>x r. r[x := f r x]) ys r0 ! z = (if z \<in> set ys then f r0 z else r0 ! z)) \<and>
      (\<forall>z. z \<notin> set ys \<longrightarrow> fold (\<lambda>x r. r[x := f r x]) ys r0 ! z = r0 ! z)"
    if "set ys \<subseteq> set xs" for ys
    using that
  proof (induction ys rule: rev_induct)
    case (snoc x ys)
    let ?r = "fold (\<lambda>x r. r[x := f r x]) ys r0"
    have "f ?r x = f r0 x" using snoc assms(2) [of ?r x] by auto
    moreover have "?r[x := f r0 x] ! z = (if z = x then f r0 x else ?r ! z)" if "z < n" for z
      using that snoc by (auto simp: nth_list_update)
    ultimately show ?case using snoc by auto
  qed (use assms(3) in simp)
  from this [of xs] assms(4) show ?thesis by simp
qed

text \<open>A finished search: the invariant holds, the queue is empty and the destination has a cost.\<close>

definition finished :: "PlanningView \<Rightarrow> BanSet \<Rightarrow> nat \<Rightarrow> nat \<Rightarrow> PlainState \<Rightarrow> bool" where
  "finished v bans s dest st \<longleftrightarrow> view_wf v \<and> s < NodeCount v \<and> dest < NodeCount v \<and> plain_inv v bans s {} st \<and>
     ps_queue st = [] \<and> ps_dist st ! dest \<noteq> CostValue_Max"

lemma can_finish_bounds:
  assumes "finished v bans s dest st" "can_finish v bans st dest u"
  shows "ps_hops st ! u \<le> ps_hops st ! dest" "ps_dist st ! u \<noteq> CostValue_Max" "ps_hops st ! u = ps_hops st ! dest \<longleftrightarrow> u = dest"
proof -
  obtain as where as: "tight_path v bans st dest u as" using assms(2) by (auto simp: can_finish_def)
  note L = tight_path_label [OF as]
  show "ps_hops st ! u \<le> ps_hops st ! dest" using L by (simp add: label_def)
  have "unat (ps_dist st ! dest) < 2 ^ 64 - 1"
    using assms(1) unsigned_less [of "ps_dist st ! dest", where 'a = nat] unat_CostValue_Max
    by (auto simp: finished_def word_unat_eq_iff)
  then show "ps_dist st ! u \<noteq> CostValue_Max" using L unat_CostValue_Max by (auto simp: label_def)
  show "ps_hops st ! u = ps_hops st ! dest \<longleftrightarrow> u = dest" using L as by (cases as) (auto simp: label_def)
qed

lemma reach_level:
  assumes "finished v bans s dest st" "c < ps_hops st ! dest" "length r = NodeCount v"
    and "\<forall>x < NodeCount v. r ! x \<longleftrightarrow> Suc c \<le> ps_hops st ! x \<and> can_finish v bans st dest x" "x < NodeCount v"
  shows "fold (\<lambda>node r. r[node := list_ex (plain_tight v bans st r node c) (adjacency_range v node)])
      (plain_buckets v st (ps_hops st ! dest) ! c) r ! x \<longleftrightarrow> c \<le> ps_hops st ! x \<and> can_finish v bans st dest x"
proof -
  let ?f = "\<lambda>r node. list_ex (plain_tight v bans st r node c) (adjacency_range v node)"
  define B where "B = filter (\<lambda>x. ps_dist st ! x \<noteq> CostValue_Max \<and> ps_hops st ! x = c) [0..<NodeCount v]"
  have b: "plain_buckets v st (ps_hops st ! dest) ! c = B" unfolding B_def using assms(2) by (intro plain_buckets_nth) simp
  have stable: "?f q y = ?f r y" if "\<And>z. z \<notin> set B \<Longrightarrow> q ! z = r ! z" for q y
  proof -
    have "plain_tight v bans st q y c a = plain_tight v bans st r y c a" for a
      using that [of "target v a"] by (auto simp: plain_tight_def B_def Let_def)
    then show ?thesis by (simp add: list_ex_iff)
  qed
  have "fold (\<lambda>node r. r[node := ?f r node]) B r ! x = (if x \<in> set B then ?f r x else r ! x)"
  proof (rule fold_update_nth [where f = ?f and xs = B and n = "NodeCount v"])
    show "distinct B" by (simp add: B_def)
    show "?f q y = ?f r y" if "\<And>z. z \<notin> set B \<Longrightarrow> q ! z = r ! z" for q y by (rule stable [OF that])
  qed (rule assms(3,5))+
  moreover have "?f r x \<longleftrightarrow> can_finish v bans st dest x" if "x \<in> set B"
  proof -
    have hx: "ps_hops st ! x = c" "x \<noteq> dest" using that assms(2) by (auto simp: B_def)
    have to: "target v a < NodeCount v \<and> ps_hops st ! target v a = Suc c" if "tight v bans st x a" for a
      using that assms(1,5) adjacency_range_bound(2) [of v x a] hx by (auto simp: tight_def usable_def finished_def label_def)
    have "?f r x \<longleftrightarrow> (\<exists>a. a \<in> set (adjacency_range v x) \<and> plain_tight v bans st r x (ps_hops st ! x) a)"
      unfolding list_ex_iff hx(1) by blast
    also have "\<dots> \<longleftrightarrow> (\<exists>a. tight v bans st x a \<and> r ! target v a)" unfolding plain_tight_iff ..
    also have "\<dots> \<longleftrightarrow> (\<exists>a. tight v bans st x a \<and> can_finish v bans st dest (target v a))" using to assms(4) by auto
    finally show ?thesis using can_finish_step [of v bans st dest x] hx(2) by simp
  qed
  moreover have "can_finish v bans st dest x \<longrightarrow> ps_hops st ! x \<noteq> c" if "x \<notin> set B"
    using that can_finish_bounds(2) [OF assms(1), of x] assms(5) by (auto simp: B_def)
  moreover have "ps_hops st ! x = c" if "x \<in> set B" using that by (simp add: B_def)
  moreover have "r ! x \<longleftrightarrow> Suc c \<le> ps_hops st ! x \<and> can_finish v bans st dest x" using assms(4,5) by blast
  ultimately show ?thesis unfolding b by (cases "x \<in> set B") (auto simp: Suc_le_eq)
qed

lemma plain_can_reach_iff:
  assumes "finished v bans s dest st" "x < NodeCount v"
  shows "plain_can_reach v bans st dest (ps_hops st ! dest) ! x \<longleftrightarrow> can_finish v bans st dest x"
proof -
  let ?T = "ps_hops st ! dest" and ?n = "NodeCount v"
  let ?g = "\<lambda>c r. fold (\<lambda>node r. r[node := list_ex (plain_tight v bans st r node c) (adjacency_range v node)])
      (plain_buckets v st (ps_hops st ! dest) ! c) r"
  let ?r0 = "(replicate ?n False)[dest := True]"
  have len: "length (?g c r) = length r" for c r
  proof -
    have "length (fold (\<lambda>node r. r[node := list_ex (plain_tight v bans st r node c) (adjacency_range v node)]) B r) = length r" for B
      by (induction B arbitrary: r) auto
    then show ?thesis .
  qed
  have "length (fold ?g (rev [c..<?T]) ?r0) = ?n \<and>
      (\<forall>x < ?n. fold ?g (rev [c..<?T]) ?r0 ! x \<longleftrightarrow> c \<le> ps_hops st ! x \<and> can_finish v bans st dest x)" if "c \<le> ?T" for c
    using that
  proof (induction rule: inc_induct)
    case base
    have "?T \<le> ps_hops st ! x \<and> can_finish v bans st dest x \<longleftrightarrow> x = dest" for x
      using can_finish_bounds(1,3) [OF assms(1), of x] can_finish_step [of v bans st dest dest] by auto
    then show ?case using assms(1) by (auto simp: nth_list_update finished_def)
  next
    case (step c)
    have "rev [c..<?T] = rev [Suc c..<?T] @ [c]" using step(2) by (simp add: upt_conv_Cons)
    then have "fold ?g (rev [c..<?T]) ?r0 = ?g c (fold ?g (rev [Suc c..<?T]) ?r0)" by simp
    then show ?case using step.IH reach_level [OF assms(1) step(2)] len by simp
  qed
  from this [of 0] assms(2) show ?thesis by (simp add: plain_can_reach_def)
qed

section \<open>The rebuilt path is the canonical one\<close>

definition link_at :: "PlanningView \<Rightarrow> nat \<Rightarrow> LinkId" where
  "link_at v a = edge_id (EdgeAt v (adj_edge (view_adjacency v ! a)))"

lemma adjacency_range_key:
  assumes "view_wf v" "u < NodeCount v" "a \<in> set (adjacency_range v u)" "b \<in> set (adjacency_range v u)" "a \<le> b"
  shows "(target v a, link_at v a) \<le> (target v b, link_at v b)"
proof (cases "a = b")
  case False
  have "sorted_wrt (\<lambda>i j. adjacency_key v (view_adjacency v ! i) < adjacency_key v (view_adjacency v ! j)) (adjacency_range v u)"
    using assms(1,2) by (auto simp: view_wf_def out_edges_def AdjacencyBegin_def AdjacencyEnd_def sorted_wrt_map)
  from sorted_wrt_nth_less [OF this, of "a - AdjacencyBegin v u" "b - AdjacencyBegin v u"] assms(3-5) False
  have "adjacency_key v (view_adjacency v ! a) < adjacency_key v (view_adjacency v ! b)" by auto
  then show ?thesis by (auto simp: adjacency_key_def link_at_def less_imp_le)
qed simp

lemma find_upt:
  assumes "List.find P [m..<k] = Some a"
  shows "a \<in> set [m..<k]" "P a" "\<And>b. b \<in> set [m..<k] \<Longrightarrow> P b \<Longrightarrow> a \<le> b"
proof -
  from assms obtain i where i: "i < length [m..<k]" "P ([m..<k] ! i)" "a = [m..<k] ! i" "\<forall>j < i. \<not> P ([m..<k] ! j)"
    unfolding find_Some_iff by blast
  then show "a \<in> set [m..<k]" "P a" by auto
  show "a \<le> b" if b: "b \<in> set [m..<k]" "P b" for b
  proof (rule ccontr)
    assume "\<not> a \<le> b"
    then have "b - m < i" "[m..<k] ! (b - m) = b" using b(1) i(1,3) by auto
    then show False using i(4) b(2) by metis
  qed
qed

lemma sequence_pair_Cons:
  fixes t t' :: nat and l l' :: LinkId
  assumes "(t, l) \<le> (t', l')" "t = t' \<Longrightarrow> (ts, ls) \<le> (ts', ls')"
  shows "(t # ts, l # ls) \<le> (t' # ts', l' # ls')"
  using assms by (auto simp: less_eq_prod_def less_le)

lemma plain_rebuild_spec:
  assumes "finished v bans s dest st" "\<And>x. x < NodeCount v \<Longrightarrow> r ! x \<longleftrightarrow> can_finish v bans st dest x"
  shows "\<lbrakk>u < NodeCount v; can_finish v bans st dest u; ps_hops st ! dest \<le> ps_hops st ! u + fuel\<rbrakk> \<Longrightarrow>
    \<exists>bs. plain_rebuild v bans st r dest fuel u path =
        Rebuilt \<lparr>raw_nodes = raw_nodes path @ map (target v) bs, raw_adjacency = raw_adjacency path @ bs\<rparr> \<and>
      tight_path v bans st dest u bs \<and>
      (\<forall>as. tight_path v bans st dest u as \<longrightarrow> (map (target v) bs, map (link_at v) bs) \<le> (map (target v) as, map (link_at v) as))"
proof (induction fuel arbitrary: u path)
  case 0
  then have "u = dest" using can_finish_bounds(1,3) [OF assms(1), of u] by auto
  then show ?case by (intro exI [of _ "[]"]) (simp add: plain_rebuild.simps less_eq_prod_def)
next
  case (Suc fuel)
  show ?case
  proof (cases "u = dest")
    case True
    then show ?thesis by (intro exI [of _ "[]"]) (simp add: plain_rebuild.simps less_eq_prod_def)
  next
    case False
    let ?P = "plain_tight v bans st r u (ps_hops st ! u)"
    have wf: "view_wf v" using assms(1) by (simp add: finished_def)
    have sat: "b \<in> set (adjacency_range v u) \<and> ?P b \<longleftrightarrow> tight v bans st u b \<and> can_finish v bans st dest (target v b)" for b
      using plain_tight_iff [of b v u bans st r] assms(2) adjacency_range_bound(2) [OF wf Suc.prems(1), of b]
      by (auto simp: tight_def usable_def)
    obtain b0 where "b0 \<in> set (adjacency_range v u) \<and> ?P b0" using can_finish_step [of v bans st dest u] Suc.prems(2) False sat by blast
    then obtain a where a: "List.find ?P (adjacency_range v u) = Some a" by (metis find_None_iff not_None_eq)
    note F = find_upt [OF a]
    have ta: "tight v bans st u a" "can_finish v bans st dest (target v a)" using F(1,2) sat by blast+
    have n: "target v a < NodeCount v" using adjacency_range_bound(2) [OF wf Suc.prems(1) F(1)] .
    have h: "ps_hops st ! target v a = ps_hops st ! u + 1" using ta(1) by (simp add: tight_def label_def)
    from Suc.IH [OF n ta(2), of "\<lparr>raw_nodes = raw_nodes path @ [target v a], raw_adjacency = raw_adjacency path @ [a]\<rparr>"] Suc.prems(3) h
    obtain bs where bs: "plain_rebuild v bans st r dest fuel (target v a) \<lparr>raw_nodes = raw_nodes path @ [target v a], raw_adjacency = raw_adjacency path @ [a]\<rparr>
        = Rebuilt \<lparr>raw_nodes = (raw_nodes path @ [target v a]) @ map (target v) bs, raw_adjacency = (raw_adjacency path @ [a]) @ bs\<rparr>"
      "tight_path v bans st dest (target v a) bs"
      "\<forall>as. tight_path v bans st dest (target v a) as \<longrightarrow> (map (target v) bs, map (link_at v) bs) \<le> (map (target v) as, map (link_at v) as)"
      by auto
    have "(map (target v) (a # bs), map (link_at v) (a # bs)) \<le> (map (target v) as, map (link_at v) as)" if as: "tight_path v bans st dest u as" for as
    proof (cases as)
      case Nil
      then show ?thesis using as False by simp
    next
      case (Cons b cs)
      then have b: "tight v bans st u b" "tight_path v bans st dest (target v b) cs" using as by simp_all
      then have "b \<in> set (adjacency_range v u)" "?P b" using sat [of b] by (auto simp: can_finish_def)
      with F have "(target v a, link_at v a) \<le> (target v b, link_at v b)"
        using adjacency_range_key [OF wf Suc.prems(1) F(1)] by blast
      then show ?thesis unfolding Cons list.map using bs(3) b(2) by (intro sequence_pair_Cons) auto
    qed
    then show ?thesis using bs(1,2) ta(1) a False by (intro exI [of _ "a # bs"]) (simp add: plain_rebuild.simps [of v bans st r dest "Suc fuel"])
  qed
qed

lemma walks_nodes: "walks v bans s ns as x \<Longrightarrow> ns = s # map (target v) as"
  by (induction rule: walks.induct) auto

lemma walks_append_tight:
  "\<lbrakk>walks v bans s ns as u; tight_path v bans st dest u bs\<rbrakk> \<Longrightarrow> walks v bans s (ns @ map (target v) bs) (as @ bs) dest"
proof (induction bs arbitrary: ns as u)
  case (Cons b bs)
  then have "walks v bans s (ns @ [target v b]) (as @ [b]) (target v b)" by (auto simp: tight_def intro: walks.step)
  from Cons.IH [OF this] Cons.prems(2) show ?case by simp
qed simp

lemma optimal_walk_tight:
  assumes "view_wf v" "s < NodeCount v" "plain_inv v bans s {} st" "ps_queue st = []" "walks v bans s ns as x"
    and "path_weight v as < 2 ^ 64" "label st x = (path_weight v as, length as)" "tight_path v bans st dest x bs"
  shows "tight_path v bans st dest s (as @ bs)"
  using assms(5-8)
proof (induction arbitrary: bs rule: walks.induct)
  case (step ns as u a)
  note D = plain_invD [OF assms(3)]
  have low: "label st u \<le> (path_weight v as, length as)" "ps_hops st ! u \<noteq> kInfiniteHops"
    using plain_labels_lower [OF assms(1-4) step.hyps(1)] step.prems(1) by auto
  have u: "u < NodeCount v" using walks_bounds [OF assms(1,2) step.hyps(1)] by simp
  have set: "ps_settled st ! u" using D(11) [OF u low(2)] assms(4) by auto
  have le: "fst (label st u) \<le> path_weight v as" using low(1) by (cases "label st u") (auto simp: less_eq_prod_def)
  have "label st (target v a) \<le> (fst (label st u) + hop_weight v a, snd (label st u) + 1)"
    using D(14) [OF u set step.hyps(2)] le step.prems(1) by simp
  then have eq: "label st u = (path_weight v as, length as)"
    using low(1) step.prems(2) by (cases "label st u") (auto simp: less_eq_prod_def)
  then have "tight v bans st u a" using step.hyps(2) step.prems(2) by (simp add: tight_def)
  then have "tight_path v bans st dest u (a # bs)" using step.prems(3) by simp
  from step.IH [OF _ eq this] step.prems(1) show ?case by simp
qed simp

text \<open>The key that orders paths: cost, hops, node sequence, link sequence.\<close>

definition walk_key :: "PlanningView \<Rightarrow> RawPath \<Rightarrow> nat \<times> nat \<times> nat list \<times> LinkId list" where
  "walk_key v p = (path_weight v (raw_adjacency p), length (raw_adjacency p), raw_nodes p, map (link_at v) (raw_adjacency p))"

definition is_walk :: "PlanningView \<Rightarrow> BanSet \<Rightarrow> nat \<Rightarrow> nat \<Rightarrow> RawPath \<Rightarrow> bool" where
  "is_walk v bans s dest p \<longleftrightarrow> walks v bans s (raw_nodes p) (raw_adjacency p) dest"

definition walk_cost :: "PlanningView \<Rightarrow> RawPath \<Rightarrow> nat" where
  "walk_cost v p = path_weight v (raw_adjacency p)"

lemma PlainSearch_outcome:
  assumes "view_wf v" "s < NodeCount v" "dest < NodeCount v" "hb = kNoHopBound \<or> NodeCount v \<le> hb + 1"
    and "PlainSearch v s dest hb bans w = (out, w')" "\<not> out_resource_limit out"
  shows "if out_found out
    then is_walk v bans s dest (out_path out) \<and> RawPath_HopCount (out_path out) < NodeCount v \<and>
      (\<forall>q. is_walk v bans s dest q \<and> walk_cost v q < 2 ^ 64 \<longrightarrow> walk_key v (out_path out) \<le> walk_key v q)
    else \<forall>q. is_walk v bans s dest q \<longrightarrow> 2 ^ 64 - 1 \<le> walk_cost v q"
proof -
  obtain w1 st where st: "plain_loop v bans hb (plain_start v s w1) = (True, st)"
    and out: "out = (let outcome = SearchOutcome_new\<lparr>out_cost_overflow := ps_overflow st\<rparr> in
       if ps_dist st ! dest = CostValue_Max then outcome
       else let r = plain_can_reach v bans st dest (ps_hops st ! dest) in
       if \<not> r ! s then outcome
       else case plain_rebuild v bans st r dest (NodeCount v) s \<lparr>raw_nodes = [s], raw_adjacency = []\<rparr> of
              Rebuilt path \<Rightarrow> outcome\<lparr>out_found := True, out_path := path\<rparr> | _ \<Rightarrow> outcome)"
    using assms(5,6) unfolding PlainSearch_def Let_def
    by (auto simp: SearchOutcome_new_def split: prod.splits bool.splits if_splits Rebuilt.splits)
  have inv: "plain_inv v bans s {} st" "ps_queue st = []"
    using plain_loop_inv [OF assms(1,2,4) plain_start_inv [OF assms(1,2)] st] by auto
  have low: "label st dest \<le> (walk_cost v q, length (raw_adjacency q))" if "is_walk v bans s dest q" "walk_cost v q < 2 ^ 64" for q
    using plain_labels_lower [OF assms(1,2) inv] that by (auto simp: is_walk_def walk_cost_def)
  show ?thesis
  proof (cases "ps_dist st ! dest = CostValue_Max")
    case True
    have "2 ^ 64 - 1 \<le> walk_cost v q" if q: "is_walk v bans s dest q" for q
    proof (rule ccontr)
      assume a: "\<not> 2 ^ 64 - 1 \<le> walk_cost v q"
      then have "label st dest \<le> (walk_cost v q, length (raw_adjacency q))" using low [OF q] by simp
      then show False using True a unat_CostValue_Max by (auto simp: label_def less_eq_prod_def)
    qed
    moreover have "\<not> out_found out" using True by (simp add: out SearchOutcome_new_def)
    ultimately show ?thesis by simp
  next
    case False
    then have fin: "finished v bans s dest st" using assms(1-3) inv by (simp add: finished_def)
    let ?r = "plain_can_reach v bans st dest (ps_hops st ! dest)"
    have r: "?r ! x \<longleftrightarrow> can_finish v bans st dest x" if "x < NodeCount v" for x by (rule plain_can_reach_iff [OF fin that])
    have labelled: "ps_hops st ! dest \<noteq> kInfiniteHops" using plain_invD(5) [OF inv(1) assms(3)] False by blast
    then have real: "realised v bans s st dest" using plain_invD(6) [OF inv(1) assms(3)] by simp
    then obtain ns as where W: "walks v bans s ns as dest" "label st dest = (path_weight v as, length as)"
      unfolding realised_def by blast
    have small: "path_weight v as < 2 ^ 64"
      using W(2) unsigned_less [of "ps_dist st ! dest", where 'a = nat] by (simp add: label_def)
    have "tight_path v bans st dest s as" using optimal_walk_tight [OF assms(1,2) inv W(1) small W(2), of dest "[]"] by simp
    then have cf: "can_finish v bans st dest s" by (auto simp: can_finish_def)
    have fuel: "ps_hops st ! dest \<le> ps_hops st ! s + NodeCount v"
      using realised_hops [OF assms(1,2) real] by (simp add: label_def)
    from plain_rebuild_spec [OF fin r assms(2) cf fuel, of "\<lparr>raw_nodes = [s], raw_adjacency = []\<rparr>"]
    obtain bs where bs: "plain_rebuild v bans st ?r dest (NodeCount v) s \<lparr>raw_nodes = [s], raw_adjacency = []\<rparr> =
        Rebuilt \<lparr>raw_nodes = s # map (target v) bs, raw_adjacency = bs\<rparr>" "tight_path v bans st dest s bs"
      "\<forall>as. tight_path v bans st dest s as \<longrightarrow> (map (target v) bs, map (link_at v) bs) \<le> (map (target v) as, map (link_at v) as)" by auto
    have found: "out_found out" "out_path out = \<lparr>raw_nodes = s # map (target v) bs, raw_adjacency = bs\<rparr>"
      using False r [OF assms(2)] cf bs(1) by (simp_all add: out Let_def)
    have walk: "is_walk v bans s dest (out_path out)"
      using walks_append_tight [OF walks.start bs(2)] by (simp add: is_walk_def found)
    have lab: "label st dest = (path_weight v bs, length bs)"
      using tight_path_label [OF bs(2)] plain_invD(4) [OF inv(1)] by simp
    have "walk_key v (out_path out) \<le> walk_key v q" if q: "is_walk v bans s dest q" "walk_cost v q < 2 ^ 64" for q
    proof (cases "label st dest = (walk_cost v q, length (raw_adjacency q))")
      case True
      then have "tight_path v bans st dest s (raw_adjacency q)"
        using optimal_walk_tight [OF assms(1,2) inv, of "raw_nodes q" "raw_adjacency q" dest dest "[]"] q
        by (simp add: is_walk_def walk_cost_def)
      with bs(3) have "(map (target v) bs, map (link_at v) bs) \<le> (map (target v) (raw_adjacency q), map (link_at v) (raw_adjacency q))" by blast
      then have "(s # map (target v) bs, map (link_at v) bs) \<le> (raw_nodes q, map (link_at v) (raw_adjacency q))"
        unfolding walks_nodes [OF q(1) [unfolded is_walk_def]] by (auto simp: less_eq_prod_def)
      then show ?thesis using True lab by (simp add: walk_key_def found walk_cost_def)
    next
      case False
      then have "(path_weight v bs, length bs) < (walk_cost v q, length (raw_adjacency q))" using low [OF q] lab by auto
      then show ?thesis by (auto simp: walk_key_def found walk_cost_def less_prod_def less_eq_prod_def)
    qed
    moreover have "RawPath_HopCount (out_path out) < NodeCount v"
      using realised_hops [OF assms(1,2) real] lab by (simp add: found RawPath_HopCount_def)
    ultimately show ?thesis using found(1) walk by simp
  qed
qed

section \<open>Enough budget\<close>

text \<open>Every node is settled once, so the relaxations still to come are the entries of the nodes not settled.\<close>

definition open_entries :: "PlanningView \<Rightarrow> PlainState \<Rightarrow> nat" where
  "open_entries v st = (\<Sum>u \<in> {u. u < NodeCount v \<and> \<not> ps_settled st ! u}. length (adjacency_range v u))"

abbreviation states_left :: "PlainState \<Rightarrow> nat" where "states_left st \<equiv> states_remaining (sr_budget (ps_work st))"
abbreviation pushes_left :: "PlainState \<Rightarrow> nat" where "pushes_left st \<equiv> pushes_remaining (sr_budget (ps_work st))"

lemma relax_plain_budget:
  assumes "0 < states_left st" "0 < pushes_left st"
  shows "\<exists>st'. relax_plain v bans hb u c a st = (True, st') \<and> ps_settled st' = ps_settled st \<and>
    states_left st \<le> states_left st' + 1 \<and> pushes_left st \<le> pushes_left st' + 1"
  using assms by (auto simp: relax_plain_def SpendState_def SpendPush_def Let_def split: option.splits)

lemma relax_all_budget:
  assumes "length xs + k \<le> states_left st" "length xs + k \<le> pushes_left st"
  shows "\<exists>st'. for_each (relax_plain v bans hb u c) xs st = (True, st') \<and> ps_settled st' = ps_settled st \<and>
    k \<le> states_left st' \<and> k \<le> pushes_left st'"
  using assms
proof (induction xs arbitrary: st)
  case (Cons x xs)
  then obtain st1 where "relax_plain v bans hb u c x st = (True, st1)" "ps_settled st1 = ps_settled st"
    "states_left st \<le> states_left st1 + 1" "pushes_left st \<le> pushes_left st1 + 1"
    using relax_plain_budget [of st v bans hb u c x] by auto
  moreover from this Cons.prems Cons.IH [of st1] obtain st2 where "for_each (relax_plain v bans hb u c) xs st1 = (True, st2)"
    "ps_settled st2 = ps_settled st1" "k \<le> states_left st2" "k \<le> pushes_left st2" by auto
  ultimately show ?case by auto
qed simp

lemma plain_loop_budget:
  assumes "view_wf v" "s < NodeCount v" "hb = kNoHopBound \<or> NodeCount v \<le> hb + 1"
  shows "\<lbrakk>plain_inv v bans s {} st; open_entries v st \<le> states_left st; open_entries v st \<le> pushes_left st\<rbrakk> \<Longrightarrow>
    \<exists>st'. plain_loop v bans hb st = (True, st')"
  using assms
proof (induction v bans hb st rule: plain_loop.induct)
  case (1 v bans hb st)
  show ?case
  proof (cases "ps_queue st")
    case Nil
    then show ?thesis by (simp add: plain_loop.simps [of v bans hb st])
  next
    case (Cons e q)
    let ?st = "st\<lparr>ps_queue := q\<rparr>" and ?u = "qe_state e"
    note IH = "1.IH" [OF Cons refl refl]
    have same: "open_entries v ?st = open_entries v st" by (simp add: open_entries_def)
    show ?thesis
    proof (cases "ps_settled ?st ! ?u \<or> BetterLabel (ps_dist ?st ! ?u) (ps_hops ?st ! ?u) (qe_cost e) (qe_hops e)")
      case True
      then have "plain_inv v bans s {} ?st" using plain_inv_drop [OF "1.prems"(1) Cons] by (auto simp: BetterLabel_iff label_def)
      then have "\<exists>st'. plain_loop v bans hb ?st = (True, st')" using IH(1,2) True "1.prems" same by (cases "ps_settled ?st ! ?u") auto
      then show ?thesis using True Cons by (auto simp: plain_loop.simps [of v bans hb st] Let_def)
    next
      case False
      let ?st1 = "st\<lparr>ps_queue := q, ps_settled := (ps_settled st)[?u := True]\<rparr>"
      have nb: "\<not> label st ?u < (unat (qe_cost e), qe_hops e)" using False by (simp add: BetterLabel_iff label_def)
      note S = plain_inv_settle [OF "1.prems"(1) Cons nb]
      have len: "length (ps_settled st) = NodeCount v" using plain_invD(3) [OF "1.prems"(1)] .
      have "{x. x < NodeCount v \<and> \<not> ps_settled st ! x} = insert ?u {x. x < NodeCount v \<and> \<not> ps_settled ?st1 ! x}"
        using S(2) len False by (auto simp: nth_list_update)
      then have split: "open_entries v st = length (adjacency_range v ?u) + open_entries v ?st1"
        unfolding open_entries_def using S(2,3) by (simp add: nth_list_update len)
      obtain st2 where st2: "for_each (relax_plain v bans hb ?u (qe_cost e)) (adjacency_range v ?u) ?st1 = (True, st2)"
        "ps_settled st2 = ps_settled ?st1" "open_entries v ?st1 \<le> states_left st2" "open_entries v ?st1 \<le> pushes_left st2"
        using relax_all_budget [of "adjacency_range v ?u" "open_entries v ?st1" ?st1 v bans hb ?u "qe_cost e"] "1.prems"(2,3) split by auto
      have inv: "plain_inv v bans s {} st2" using relax_all_step [OF "1.prems"(4-6) S(2) st2(1) subset_refl S(1,3-5)] .
      have "open_entries v st2 = open_entries v ?st1" by (simp add: open_entries_def st2(2))
      then have "\<exists>st'. plain_loop v bans hb st2 = (True, st')"
        using IH(3) [of True st2] False st2 inv "1.prems"(4-6) by simp
      then show ?thesis using False Cons st2(1) by (simp add: plain_loop.simps [of v bans hb st] Let_def)
    qed
  qed
qed

lemma open_entries_start:
  assumes "view_wf v" "s < NodeCount v"
  shows "open_entries v (plain_start v s w) \<le> length (view_adjacency v)"
proof -
  have len: "length (view_offsets v) = NodeCount v + 1" and so: "sorted (view_offsets v)"
    and last: "view_offsets v ! NodeCount v = length (view_adjacency v)" using assms(1) by (auto simp: view_wf_def)
  have mono: "view_offsets v ! i \<le> view_offsets v ! Suc i" if "i < NodeCount v" for i
    using so len that by (intro sorted_nth_mono) auto
  have "(\<Sum>u < k. view_offsets v ! (u + 1) - view_offsets v ! u) \<le> view_offsets v ! k" if "k \<le> NodeCount v" for k
    using that
  proof (induction k)
    case (Suc k)
    then show ?case using mono [of k] by simp
  qed simp
  moreover have "open_entries v (plain_start v s w) \<le> (\<Sum>u < NodeCount v. view_offsets v ! (u + 1) - view_offsets v ! u)"
    unfolding open_entries_def by (simp add: AdjacencyBegin_def AdjacencyEnd_def) (rule sum_mono2; auto)
  ultimately show ?thesis using last by fastforce
qed

text \<open>
  The search under a binding hop bound settles every pair of a node and a hop count once and relaxes the entries of the
  pairs below the bound: at most as many times the adjacency as the bound allows hops.
\<close>

definition open_states :: "PlanningView \<Rightarrow> nat \<Rightarrow> ExpandedState \<Rightarrow> nat" where
  "open_states v hb st = (\<Sum>x \<in> {x. x < hb * NodeCount v \<and> \<not> es_settled st ! x}. length (adjacency_range v (x mod NodeCount v)))"

definition expanded_inv :: "PlanningView \<Rightarrow> nat \<Rightarrow> ExpandedState \<Rightarrow> bool" where
  "expanded_inv v hb st \<longleftrightarrow> length (es_settled st) = (hb + 1) * NodeCount v \<and>
     (\<forall>e \<in> set (es_queue st). qe_state e < NodeCount v \<and> qe_hops e \<le> hb)"

abbreviation states_spare :: "ExpandedState \<Rightarrow> nat" where "states_spare st \<equiv> states_remaining (sr_budget (es_work st))"
abbreviation pushes_spare :: "ExpandedState \<Rightarrow> nat" where "pushes_spare st \<equiv> pushes_remaining (sr_budget (es_work st))"

lemma set_queue_push [simp]: "set (queue_push e q) = insert e (set q)"
  by (induction q) auto

lemma relax_expanded_budget:
  assumes "0 < states_spare st" "0 < pushes_spare st" "expanded_inv v hb st" "target v a < NodeCount v" "qe_hops entry < hb"
  shows "\<exists>st'. relax_expanded v bans entry a st = (True, st') \<and> es_settled st' = es_settled st \<and> expanded_inv v hb st' \<and>
    states_spare st \<le> states_spare st' + 1 \<and> pushes_spare st \<le> pushes_spare st' + 1"
  using assms by (auto simp: relax_expanded_def SpendState_def SpendPush_def Let_def expanded_inv_def split: option.splits)

lemma relax_all_expanded_budget:
  assumes "length xs + k \<le> states_spare st" "length xs + k \<le> pushes_spare st" "expanded_inv v hb st"
    and "\<forall>a \<in> set xs. target v a < NodeCount v" "qe_hops entry < hb"
  shows "\<exists>st'. for_each (relax_expanded v bans entry) xs st = (True, st') \<and> es_settled st' = es_settled st \<and> expanded_inv v hb st' \<and>
    k \<le> states_spare st' \<and> k \<le> pushes_spare st'"
  using assms
proof (induction xs arbitrary: st)
  case (Cons x xs)
  then obtain st1 where "relax_expanded v bans entry x st = (True, st1)" "es_settled st1 = es_settled st" "expanded_inv v hb st1"
    "states_spare st \<le> states_spare st1 + 1" "pushes_spare st \<le> pushes_spare st1 + 1"
    using relax_expanded_budget [of st v hb x entry bans] by auto
  moreover from this Cons.prems Cons.IH [of st1] obtain st2 where "for_each (relax_expanded v bans entry) xs st1 = (True, st2)"
    "es_settled st2 = es_settled st1" "expanded_inv v hb st2" "k \<le> states_spare st2" "k \<le> pushes_spare st2" by auto
  ultimately show ?case by auto
qed simp

lemma index_below: "u < n \<Longrightarrow> h < hb \<Longrightarrow> h * n + u < hb * (n :: nat)"
  by (metis add.commute add_less_cancel_left less_le_trans mult_Suc mult_le_mono1 Suc_leI)

lemma expanded_loop_budget:
  assumes "view_wf v"
  shows "\<lbrakk>expanded_inv v hb st; open_states v hb st \<le> states_spare st; open_states v hb st \<le> pushes_spare st\<rbrakk> \<Longrightarrow>
    \<exists>st'. expanded_loop v bans hb st = (True, st')"
  using assms
proof (induction v bans hb st rule: expanded_loop.induct)
  case (1 v bans hb st)
  show ?case
  proof (cases "es_queue st")
    case Nil
    then show ?thesis by (simp add: expanded_loop.simps [of v bans hb st])
  next
    case (Cons e q)
    let ?st = "st\<lparr>es_queue := q\<rparr>" and ?x = "index_of v (qe_hops e) (qe_state e)"
    note IH = "1.IH" [OF Cons refl refl]
    have same: "open_states v hb ?st = open_states v hb st" by (simp add: open_states_def)
    have inv: "expanded_inv v hb ?st" using "1.prems"(1) Cons by (simp add: expanded_inv_def)
    have e: "qe_state e < NodeCount v" "qe_hops e \<le> hb" using "1.prems"(1) Cons by (simp_all add: expanded_inv_def)
    show ?thesis
    proof (cases "es_settled ?st ! ?x \<or> es_dist ?st ! ?x \<noteq> qe_cost e")
      case True
      then have "\<exists>st'. expanded_loop v bans hb ?st = (True, st')"
        using IH(1,2) inv "1.prems" same by (cases "es_settled ?st ! ?x") auto
      then show ?thesis using True Cons by (auto simp: expanded_loop.simps [of v bans hb st] Let_def)
    next
      case False
      let ?st1 = "st\<lparr>es_queue := q, es_settled := (es_settled st)[?x := True]\<rparr>"
      have inv1: "expanded_inv v hb ?st1" using inv by (simp add: expanded_inv_def)
      have len: "length (es_settled st) = (hb + 1) * NodeCount v" using "1.prems"(1) by (simp add: expanded_inv_def)
      have within: "?x < length (es_settled st)" using index_below [OF e(1), of "qe_hops e" "hb + 1"] e(2) by (simp add: len index_of_def)
      show ?thesis
      proof (cases "qe_hops e = hb")
        case True
        have "open_states v hb ?st1 \<le> open_states v hb st"
          unfolding open_states_def by (rule sum_mono2) (use within in \<open>auto simp: nth_list_update split: if_splits\<close>)
        then have "\<exists>st'. expanded_loop v bans hb ?st1 = (True, st')"
          using IH(3) [OF _ _ refl True] False inv1 "1.prems" by simp
        then show ?thesis using False True Cons by (simp add: expanded_loop.simps [of v bans hb st] Let_def)
      next
        case below: False
        then have lt: "qe_hops e < hb" using e(2) by simp
        have mod: "?x mod NodeCount v = qe_state e" using e(1) by (simp add: index_of_def)
        have "?x < hb * NodeCount v" using index_below [OF e(1) lt] by (simp add: index_of_def)
        then have "{x. x < hb * NodeCount v \<and> \<not> es_settled st ! x} = insert ?x {x. x < hb * NodeCount v \<and> \<not> es_settled ?st1 ! x}"
          using within False len by (auto simp: nth_list_update)
        then have split: "open_states v hb st = length (adjacency_range v (qe_state e)) + open_states v hb ?st1"
          unfolding open_states_def using within by (simp add: nth_list_update mod)
        obtain st2 where st2: "for_each (relax_expanded v bans e) (adjacency_range v (qe_state e)) ?st1 = (True, st2)"
          "es_settled st2 = es_settled ?st1" "expanded_inv v hb st2"
          "open_states v hb ?st1 \<le> states_spare st2" "open_states v hb ?st1 \<le> pushes_spare st2"
          using relax_all_expanded_budget [of "adjacency_range v (qe_state e)" "open_states v hb ?st1" ?st1 v hb e bans]
            "1.prems"(2,3) split inv1 lt adjacency_range_bound(2) [OF "1.prems"(4) e(1)] by auto
        have "open_states v hb st2 = open_states v hb ?st1" by (simp add: open_states_def st2(2))
        then have "\<exists>st'. expanded_loop v bans hb st2 = (True, st')"
          using IH(4) [OF _ _ refl below, of True st2] False st2 "1.prems"(4) by simp
        then show ?thesis using False below Cons st2(1) by (simp add: expanded_loop.simps [of v bans hb st] Let_def)
      qed
    qed
  qed
qed

lemma adjacency_total:
  assumes "view_wf v"
  shows "(\<Sum>u < NodeCount v. length (adjacency_range v u)) \<le> length (view_adjacency v)"
proof -
  have len: "length (view_offsets v) = NodeCount v + 1" and so: "sorted (view_offsets v)"
    and last: "view_offsets v ! NodeCount v = length (view_adjacency v)" using assms by (auto simp: view_wf_def)
  have mono: "view_offsets v ! i \<le> view_offsets v ! Suc i" if "i < NodeCount v" for i
    using so len that by (intro sorted_nth_mono) auto
  have "(\<Sum>u < k. view_offsets v ! (u + 1) - view_offsets v ! u) \<le> view_offsets v ! k" if "k \<le> NodeCount v" for k
    using that
  proof (induction k)
    case (Suc k)
    then show ?case using mono [of k] by simp
  qed simp
  from this [of "NodeCount v"] last show ?thesis by (simp add: AdjacencyBegin_def AdjacencyEnd_def)
qed

lemma sum_mod_blocks: "(\<Sum>x < k * n. f (x mod n)) = k * (\<Sum>u < n. f u :: nat)"
proof (cases "n = 0")
  case False
  show ?thesis
  proof (induction k)
    case (Suc k)
    have "(\<Sum>x < Suc k * n. f (x mod n)) = (\<Sum>x < k * n. f (x mod n)) + (\<Sum>x \<in> {k * n..<k * n + n}. f (x mod n))"
      by (simp add: lessThan_atLeast0 sum.atLeastLessThan_concat add.commute)
    also have "(\<Sum>x \<in> {k * n..<k * n + n}. f (x mod n)) = (\<Sum>u < n. f u)"
      using sum.shift_bounds_nat_ivl [of "\<lambda>x. f (x mod n)" 0 "k * n" n] by (simp add: lessThan_atLeast0 add.commute)
    finally show ?case using Suc by simp
  qed simp
qed simp

lemma open_states_start:
  assumes "view_wf v"
  shows "open_states v hb (expanded_start v s states w) \<le> hb * length (view_adjacency v)"
proof -
  have "open_states v hb (expanded_start v s states w) \<le> (\<Sum>x < hb * NodeCount v. length (adjacency_range v (x mod NodeCount v)))"
    unfolding open_states_def by (rule sum_mono2) auto
  also have "\<dots> \<le> hb * length (view_adjacency v)"
    unfolding sum_mod_blocks [of "\<lambda>u. length (adjacency_range v u)"] using adjacency_total [OF assms] by (rule mult_le_mono2)
  finally show ?thesis .
qed

text \<open>How many times the adjacency a search under a hop bound may have to relax.\<close>

definition hop_levels :: "PlanningView \<Rightarrow> nat \<Rightarrow> nat" where
  "hop_levels v hb = (if hb = kNoHopBound \<or> NodeCount v \<le> hb + 1 then 1 else hb)"

lemma ExpandedSearch_budget:
  assumes "view_wf v" "s < NodeCount v" "(hb + 1) * NodeCount v \<le> max_search_states (view_limits v)"
    and "hb * length (view_adjacency v) \<le> states_remaining (sr_budget w)" "hb * length (view_adjacency v) + 1 \<le> pushes_remaining (sr_budget w)"
  shows "\<not> out_resource_limit (fst (ExpandedSearch v s dest hb bans w))"
proof -
  obtain w1 where w1: "SpendPush w = (True, w1)" "states_remaining (sr_budget w1) = states_remaining (sr_budget w)"
    "pushes_remaining (sr_budget w1) = pushes_remaining (sr_budget w) - 1"
    using assms(5) by (auto simp: SpendPush_def Let_def)
  let ?st = "expanded_start v s ((hb + 1) * NodeCount v) w1"
  have "expanded_inv v hb ?st" using assms(2) by (simp add: expanded_inv_def expanded_start_def)
  moreover have "open_states v hb ?st \<le> states_spare ?st" "open_states v hb ?st \<le> pushes_spare ?st"
    using open_states_start [OF assms(1), of hb s "(hb + 1) * NodeCount v" w1] assms(4,5) w1(2,3) by (simp_all add: expanded_start_def)
  ultimately obtain st where "expanded_loop v bans hb ?st = (True, st)" using expanded_loop_budget [OF assms(1)] by blast
  then show ?thesis unfolding ExpandedSearch_def using w1(1) assms(3)
    by (simp add: SearchOutcome_new_def Let_def split: Rebuilt.splits prod.splits)
qed

lemma PlainSearch_budget:
  assumes "view_wf v" "s < NodeCount v" "hb = kNoHopBound \<or> NodeCount v \<le> hb + 1"
    and "length (view_adjacency v) \<le> states_remaining (sr_budget w)" "length (view_adjacency v) + 1 \<le> pushes_remaining (sr_budget w)"
  shows "\<not> out_resource_limit (fst (PlainSearch v s dest hb bans w))"
proof -
  obtain w1 where w1: "SpendPush w = (True, w1)" "states_remaining (sr_budget w1) = states_remaining (sr_budget w)"
    "pushes_remaining (sr_budget w1) = pushes_remaining (sr_budget w) - 1"
    using assms(5) by (auto simp: SpendPush_def Let_def)
  let ?st = "plain_start v s w1"
  have room: "open_entries v ?st \<le> states_left ?st" "open_entries v ?st \<le> pushes_left ?st"
    using open_entries_start [OF assms(1,2), of w1] assms(4,5) w1(2,3) by (simp_all add: plain_start_def)
  obtain st where st: "plain_loop v bans hb ?st = (True, st)"
    using plain_loop_budget [OF assms(1-3) plain_start_inv [OF assms(1,2)] room] by blast
  show ?thesis unfolding PlainSearch_def using w1(1) st by (simp add: SearchOutcome_new_def Let_def split: Rebuilt.splits)
qed

section \<open>Bans\<close>

definition bans_ok :: "BanSet \<Rightarrow> bool" where
  "bans_ok b \<longleftrightarrow> (ban_normalized b \<longrightarrow> sorted (ban_nodes b) \<and> sorted (ban_adjacency b))"

lemma bans_ok_ops [simp]: "bans_ok BanSet_new" "bans_ok (BanSet_AddNode i b)" "bans_ok (BanSet_AddAdjacency i b)"
  by (simp_all add: bans_ok_def BanSet_new_def BanSet_AddNode_def BanSet_AddAdjacency_def)

lemma banned_iff:
  assumes "bans_ok b"
  shows "NodeBanned b i \<longleftrightarrow> i \<in> set (ban_nodes b)" "AdjacencyBanned b i \<longleftrightarrow> i \<in> set (ban_adjacency b)"
proof -
  have "sorted (unique_by (=) (sort xs))" for xs :: "nat list" using sorted_unique_by_eq [of "sort xs"] by (simp add: strict_sorted_iff)
  then show "NodeBanned b i \<longleftrightarrow> i \<in> set (ban_nodes b)" "AdjacencyBanned b i \<longleftrightarrow> i \<in> set (ban_adjacency b)"
    using assms by (simp_all add: NodeBanned_def AdjacencyBanned_def Normalize_def bans_ok_def)
qed

lemma banned_ops [simp]:
  "NodeBanned BanSet_new i \<longleftrightarrow> False" "AdjacencyBanned BanSet_new i \<longleftrightarrow> False"
  "bans_ok b \<Longrightarrow> NodeBanned (BanSet_AddNode j b) i \<longleftrightarrow> i = j \<or> NodeBanned b i"
  "bans_ok b \<Longrightarrow> AdjacencyBanned (BanSet_AddNode j b) i \<longleftrightarrow> AdjacencyBanned b i"
  "bans_ok b \<Longrightarrow> NodeBanned (BanSet_AddAdjacency j b) i \<longleftrightarrow> NodeBanned b i"
  "bans_ok b \<Longrightarrow> AdjacencyBanned (BanSet_AddAdjacency j b) i \<longleftrightarrow> i = j \<or> AdjacencyBanned b i"
  by (simp_all add: banned_iff) (auto simp: BanSet_new_def BanSet_AddNode_def BanSet_AddAdjacency_def)

section \<open>A search on the small fabric\<close>

text \<open>The view of the small fabric, with its two paths from the first to the third node.\<close>

definition small_work :: Searcher where
  "small_work = \<lparr>sr_budget = \<lparr>states_remaining = 10, pushes_remaining = 10, spur_remaining = 10, exhausted = False,
     state_space_exceeded = False\<rparr>, sr_stats = PlannerStatistics_zero\<rparr>"

definition small_net :: PlanningView where
  "small_net = (initial_view small_snapshot small_request ResourceLimits_default)
     \<lparr>view_offsets := [0, 2, 3, 3], view_to_snapshot_node := [0, 1, 2],
      view_adjacency := [\<lparr>adj_to = 1, adj_edge = 0, adj_traversal_cost = 15, adj_degraded = True, adj_outside_locality = False\<rparr>,
        \<lparr>adj_to = 2, adj_edge = 2, adj_traversal_cost = 90, adj_degraded = False, adj_outside_locality = False\<rparr>,
        \<lparr>adj_to = 2, adj_edge = 1, adj_traversal_cost = 5, adj_degraded = False, adj_outside_locality = False\<rparr>]\<rparr>"

lemma small_net_simps:
  "NodeCount small_net = 3" "view_offsets small_net = [0, 2, 3, 3]" "hop_cost (view_cost_model small_net) = 1"
  "view_adjacency small_net = [\<lparr>adj_to = 1, adj_edge = 0, adj_traversal_cost = 15, adj_degraded = True, adj_outside_locality = False\<rparr>,
        \<lparr>adj_to = 2, adj_edge = 2, adj_traversal_cost = 90, adj_degraded = False, adj_outside_locality = False\<rparr>,
        \<lparr>adj_to = 2, adj_edge = 1, adj_traversal_cost = 5, adj_degraded = False, adj_outside_locality = False\<rparr>]"
  by (simp_all add: small_net_def NodeCount_def initial_view_def Let_def small_request_def)

lemma small_net_wf: "view_wf small_net" by code_simp

lemma small_search:
  "fst (ShortestPath small_net 0 2 kNoHopBound BanSet_new small_work) =
     \<lparr>out_found = True, out_resource_limit = False, out_cost_overflow = False,
      out_path = \<lparr>raw_nodes = [0, 1, 2], raw_adjacency = [0, 2]\<rparr>\<rparr>"
  by code_simp

section \<open>Properties\<close>

text \<open>
  C2. The search without a binding hop bound returns the canonical minimum.  On a well-formed view,
  for different endpoints and any bans, a search that did not run out of budget either finds a walk
  that is allowed by the bans and comes first among all allowed walks of representable cost in the
  order by cost, hops, node sequence and link sequence, or no allowed walk costs less than the
  largest 64-bit value.
\<close>

theorem ShortestPath_canonical:
  assumes "view_wf v" "s < NodeCount v" "dest < NodeCount v" "s \<noteq> dest" "hb = kNoHopBound \<or> NodeCount v \<le> hb + 1" "0 < hb"
    and "ShortestPath v s dest hb bans w = (out, w')" "\<not> out_resource_limit out"
  shows "if out_found out
    then is_walk v bans s dest (out_path out) \<and>
      (\<forall>q. is_walk v bans s dest q \<and> walk_cost v q < 2 ^ 64 \<longrightarrow> walk_key v (out_path out) \<le> walk_key v q)
    else \<forall>q. is_walk v bans s dest q \<longrightarrow> 2 ^ 64 - 1 \<le> walk_cost v q"
proof -
  have "ShortestPath v s dest hb bans w = PlainSearch v s dest hb bans w"
    using assms(2-6) by (auto simp: ShortestPath_def Let_def)
  with assms(7) have "PlainSearch v s dest hb bans w = (out, w')" by simp
  from PlainSearch_outcome [OF assms(1-3,5) this assms(8)] show ?thesis by (auto split: if_splits)
qed

lemma kNoHopBound_pos: "0 < kNoHopBound" by (simp add: kNoHopBound_def)

theorem ShortestPath_canonical_witness:
  "is_walk small_net BanSet_new 0 2 \<lparr>raw_nodes = [0, 1, 2], raw_adjacency = [0, 2]\<rparr>"
proof -
  have "\<not> out_resource_limit (fst (ShortestPath small_net 0 2 kNoHopBound BanSet_new small_work))" by (simp add: small_search)
  from ShortestPath_canonical [OF small_net_wf, of 0 2 kNoHopBound BanSet_new small_work _ _, OF _ _ _ _ _ prod.collapse [symmetric] this]
  show ?thesis using kNoHopBound_pos by (simp add: small_search small_net_simps)
qed

text \<open>
  C7. Enough budget, for either search.  Without a binding hop bound (none, or at least the node count less one) one state and
  one push per adjacency entry, and one push for the source, are enough.  Under a binding bound the search runs over pairs of a
  hop count and a node: there the same times the bound is enough, provided that one pair per node and per hop count from 0 to
  the bound fits the limit on search states.  With that much the search never reports a resource limit.
\<close>

theorem ShortestPath_enough_budget:
  assumes "view_wf v"
    and "hop_levels v hb * length (view_adjacency v) \<le> states_remaining (sr_budget w)"
    and "hop_levels v hb * length (view_adjacency v) + 1 \<le> pushes_remaining (sr_budget w)"
    and "hb = kNoHopBound \<or> NodeCount v \<le> hb + 1 \<or> (hb + 1) * NodeCount v \<le> max_search_states (view_limits v)"
  shows "\<not> out_resource_limit (fst (ShortestPath v s dest hb bans w))"
proof -
  let ?plain = "hb = kNoHopBound \<or> NodeCount v \<le> hb + 1"
  have eq: "ShortestPath v s dest hb bans w = (if ?plain then PlainSearch v s dest hb bans w else ExpandedSearch v s dest hb bans w)"
    if "s \<noteq> dest" "s < NodeCount v" "dest < NodeCount v" "hb \<noteq> 0"
    using that by (auto simp: ShortestPath_def Let_def)
  show ?thesis
  proof (cases "s = dest \<or> NodeCount v \<le> s \<or> NodeCount v \<le> dest \<or> hb = 0")
    case True
    then show ?thesis by (auto simp: ShortestPath_def SearchOutcome_new_def Let_def)
  next
    case False
    then show ?thesis
      using PlainSearch_budget [OF assms(1), of s hb w dest bans] ExpandedSearch_budget [OF assms(1), of s hb w dest bans] assms(2-4) eq
      by (cases ?plain) (simp_all add: hop_levels_def)
  qed
qed

theorem ShortestPath_enough_budget_witness:
  "\<not> out_resource_limit (fst (ShortestPath small_net 0 2 kNoHopBound BanSet_new small_work)) \<and>
   \<not> out_resource_limit (fst (ShortestPath small_net 0 2 1 BanSet_new small_work))"
proof
  show "\<not> out_resource_limit (fst (ShortestPath small_net 0 2 kNoHopBound BanSet_new small_work))"
    by (rule ShortestPath_enough_budget [OF small_net_wf]) (simp_all add: small_net_simps small_work_def hop_levels_def)
  have "max_search_states (view_limits small_net) = max_search_states ResourceLimits_default"
    by (simp add: small_net_def initial_view_def Let_def)
  then show "\<not> out_resource_limit (fst (ShortestPath small_net 0 2 1 BanSet_new small_work))"
    by (intro ShortestPath_enough_budget [OF small_net_wf])
      (simp_all add: small_net_simps small_work_def hop_levels_def kNoHopBound_def ResourceLimits_default_def)
qed

end
