(* ===== verification/EnumerateCorrect.thy ===== *)
theory EnumerateCorrect
  imports SearchCorrect Enumerate "HOL-Library.Multiset" "HOL-Library.Sublist"
begin

text \<open>
  Correctness of the enumeration.  Every search returns a walk within its hop budget, the legs of the
  staged search and the deviations from accepted paths compose to walks between the endpoints, and
  the two loops keep an invariant from which the properties of all returned paths follow.
\<close>

section \<open>The hop-bounded search returns walks within the bound\<close>

lemma expanded_tight_usable: "expanded_tight v bans st r h u a \<Longrightarrow> a \<in> set (adjacency_range v u) \<Longrightarrow> usable v bans u a"
  by (auto simp: expanded_tight_def usable_def Let_def)

lemma expanded_rebuild_walk:
  "\<lbrakk>expanded_rebuild v bans st r dest best fuel u h path = Rebuilt p; is_walk v bans s u path; RawPath_HopCount path = h\<rbrakk> \<Longrightarrow>
   is_walk v bans s dest p \<and> RawPath_HopCount p = best"
proof (induction fuel arbitrary: u h path)
  case 0
  then show ?case by (subst (asm) expanded_rebuild.simps) (auto split: if_splits)
next
  case (Suc fuel)
  show ?case
  proof (cases "u = dest \<and> h = best")
    case True
    then show ?thesis using Suc.prems by (subst (asm) expanded_rebuild.simps) simp
  next
    case False
    then obtain a where a: "List.find (expanded_tight v bans st r h u) (adjacency_range v u) = Some a"
      and rec: "expanded_rebuild v bans st r dest best fuel (target v a) (h + 1)
        \<lparr>raw_nodes = raw_nodes path @ [target v a], raw_adjacency = raw_adjacency path @ [a]\<rparr> = Rebuilt p"
      using Suc.prems(1) by (subst (asm) expanded_rebuild.simps) (auto split: option.splits if_splits)
    have "usable v bans u a" using a by (intro expanded_tight_usable [of v bans st r h u a]) (auto simp: find_Some_iff)
    then have "is_walk v bans s (target v a) \<lparr>raw_nodes = raw_nodes path @ [target v a], raw_adjacency = raw_adjacency path @ [a]\<rparr>"
      using Suc.prems(2) by (simp add: is_walk_def walks.step)
    from Suc.IH [OF rec this] show ?thesis using Suc.prems(3) by (simp add: RawPath_HopCount_def)
  qed
qed

lemma fold_select:
  assumes "\<And>x c. f x c = c \<or> snd (f x c) = x"
  shows "snd (fold f xs c) = snd c \<or> snd (fold f xs c) \<in> set xs"
proof (induction xs arbitrary: c)
  case (Cons x xs)
  then show ?case using assms [of x c] by (metis fold_simps(2) list.set_intros(1,2))
qed simp

lemma best_label_bound: "best_label v st dest hb = (c, h) \<Longrightarrow> h \<noteq> kInfiniteHops \<Longrightarrow> h \<le> hb"
proof -
  define f where "f = (\<lambda>hops (best_cost, best_hops).
    let value = es_dist st ! index_of v hops dest in
    if value = CostValue_Max then (best_cost, best_hops)
    else if value < best_cost \<or> value = best_cost \<and> hops < best_hops then (value, hops)
    else (best_cost, best_hops))"
  have "f x c = c \<or> snd (f x c) = x" for x c by (cases c) (simp add: f_def Let_def)
  from fold_select [of f, OF this, of "[0..<hb + 1]" "(CostValue_Max, kInfiniteHops)"]
  show "best_label v st dest hb = (c, h) \<Longrightarrow> h \<noteq> kInfiniteHops \<Longrightarrow> h \<le> hb"
    by (auto simp: best_label_def f_def)
qed

lemma ExpandedSearch_walk:
  assumes "ExpandedSearch v s dest hb bans w = (out, w')" "out_found out"
  shows "is_walk v bans s dest (out_path out) \<and> RawPath_HopCount (out_path out) \<le> hb"
proof -
  obtain st c best where best: "best_label v st dest hb = (c, best)" "best \<noteq> kInfiniteHops"
    and run: "expanded_rebuild v bans st (expanded_can_reach v bans st dest best) dest
      best best s 0 \<lparr>raw_nodes = [s], raw_adjacency = []\<rparr> = Rebuilt (out_path out)"
    using assms unfolding ExpandedSearch_def Let_def
    by (auto simp: SearchOutcome_new_def split: if_splits prod.splits bool.splits Rebuilt.splits)
  have "is_walk v bans s s \<lparr>raw_nodes = [s], raw_adjacency = []\<rparr>" by (simp add: is_walk_def walks.start)
  from expanded_rebuild_walk [OF run this] best_label_bound [OF best] show ?thesis by (simp add: RawPath_HopCount_def)
qed

section \<open>Walks under fewer bans, and their composition\<close>

lemma walks_fewer_bans:
  assumes "\<And>u a. usable v bans u a \<Longrightarrow> usable v bans' u a"
  shows "walks v bans s ns as x \<Longrightarrow> walks v bans' s ns as x"
  by (induction rule: walks.induct) (auto intro: walks.intros assms)

lemma usable_no_bans: "usable v bans u a \<Longrightarrow> usable v BanSet_new u a"
  by (simp add: usable_def)

lemma is_walk_no_bans: "is_walk v bans s x p \<Longrightarrow> is_walk v BanSet_new s x p"
  unfolding is_walk_def by (erule walks_fewer_bans [rotated]) (rule usable_no_bans)

lemma walks_trans:
  assumes "walks v bans s ns as x" "walks v bans x ms bs y"
  shows "walks v bans s (ns @ tl ms) (as @ bs) y"
  using assms(2)
proof (induction rule: walks.induct)
  case start
  then show ?case using assms(1) by simp
next
  case (step ms bs u a)
  have "ms \<noteq> []" using walks_length [OF step.hyps(1)] by auto
  then have "ns @ tl (ms @ [target v a]) = (ns @ tl ms) @ [target v a]" by simp
  then show ?case using walks.step [OF step.IH step.hyps(2)] by simp
qed

lemma is_walk_append_leg: "is_walk v bans s x p \<Longrightarrow> is_walk v bans x y q \<Longrightarrow> is_walk v bans s y (append_leg p q)"
  unfolding is_walk_def append_leg_def using walks_trans by simp

lemma HopCount_append_leg [simp]: "RawPath_HopCount (append_leg p q) = RawPath_HopCount p + RawPath_HopCount q"
  by (simp add: RawPath_HopCount_def append_leg_def)

lemma walks_take:
  "walks v bans s ns as x \<Longrightarrow> i \<le> length as \<Longrightarrow> walks v bans s (take (i + 1) ns) (take i as) (ns ! i)"
proof (induction rule: walks.induct)
  case (step ns as u a)
  show ?case
  proof (cases "i \<le> length as")
    case True
    then show ?thesis using step walks_length [OF step.hyps(1)] by (simp add: nth_append)
  next
    case False
    then have "i = length as + 1" using step.prems by simp
    then show ?thesis using walks.step [OF step.hyps] walks_length [OF step.hyps(1)] by (simp add: nth_append)
  qed
qed (simp add: walks.start)


section \<open>Every search\<close>

definition within :: "nat \<Rightarrow> RawPath \<Rightarrow> bool" where
  "within hb p \<longleftrightarrow> hb = kNoHopBound \<or> RawPath_HopCount p \<le> hb"

lemma ShortestPath_walk:
  assumes "view_wf v" "ShortestPath v s dest hb bans w = (out, w')" "out_found out"
  shows "is_walk v bans s dest (out_path out)" "within hb (out_path out)"
proof -
  have "is_walk v bans s dest (out_path out) \<and> within hb (out_path out)"
  proof (cases "s = dest")
    case True
    then show ?thesis using assms(2) by (auto simp: ShortestPath_def is_walk_def within_def RawPath_HopCount_def intro: walks.start)
  next
    case False
    have in_range: "s < NodeCount v" "dest < NodeCount v" "hb \<noteq> 0"
      using assms(2,3) False by (auto simp: ShortestPath_def SearchOutcome_new_def Let_def split: if_splits)
    show ?thesis
    proof (cases "hb = kNoHopBound \<or> NodeCount v \<le> hb + 1")
      case True
      then have P: "PlainSearch v s dest hb bans w = (out, w')"
        using assms(2) False in_range by (auto simp: ShortestPath_def Let_def split: if_splits)
      then have "\<not> out_resource_limit out"
        using assms(3) by (auto simp: PlainSearch_def SearchOutcome_new_def Let_def split: prod.splits bool.splits if_splits Rebuilt.splits)
      from PlainSearch_outcome [OF assms(1) in_range(1,2) True P this] assms(3) True show ?thesis by (auto simp: within_def)
    next
      case f: False
      then have "ExpandedSearch v s dest hb bans w = (out, w')" using assms(2) False in_range by (auto simp: ShortestPath_def Let_def split: if_splits)
      from ExpandedSearch_walk [OF this assms(3)] show ?thesis by (simp add: within_def)
    qed
  qed
  then show "is_walk v bans s dest (out_path out)" "within hb (out_path out)" by auto
qed


section \<open>Deviations\<close>

lemma failed_paths [simp]:
  "enr_paths (enr_fail c d) = []" "\<not> enr_ok (enr_fail c d)" "enr_paths (enr_limit c d) = []" "\<not> enr_ok (enr_limit c d)"
  by (simp_all add: enr_fail_def enr_limit_def EnumerationResult_new_def)

text \<open>A ranked path is sound when it is a walk between the endpoints within the hop bound, ranked by its cost.\<close>

definition sound :: "PlanningView \<Rightarrow> EnumerationOptions \<Rightarrow> RankedRawPath \<Rightarrow> bool" where
  "sound v options r \<longleftrightarrow> is_walk v BanSet_new (opt_source_view options) (opt_destination_view options) (rk_path r) \<and>
     within (opt_max_hops options) (rk_path r) \<and> ComputeRawPathCost v (rk_path r) = Some (rk_cost r)"

lemma leg_within:
  assumes "within (leg_budget hb (RawPath_HopCount p)) q" "within hb p" "hb \<le> kNoHopBound"
  shows "within hb (append_leg p q)"
  using assms by (auto simp: within_def leg_budget_def split: if_splits)

definition yen_ok :: "PlanningView \<Rightarrow> EnumerationOptions \<Rightarrow> RankedRawPath list \<Rightarrow> YenState \<Rightarrow> bool" where
  "yen_ok v options accepted st \<longleftrightarrow> (\<forall>r \<in> set accepted \<union> set (y_pending st). sound v options r) \<and>
     distinct (map rk_path (accepted @ y_pending st))"

lemma yen_ok_pending:
  assumes "yen_ok v options accepted st" "sound v options r" "rk_path r \<notin> rk_path ` (set accepted \<union> set (y_pending st))"
    "y_pending st' = y_pending st @ [r]"
  shows "yen_ok v options accepted st'"
proof -
  have "distinct (map rk_path (accepted @ y_pending st) @ [rk_path r])"
    using assms(1,3) unfolding yen_ok_def distinct_append by (auto simp del: map_append)
  then show ?thesis using assms unfolding yen_ok_def by simp
qed

lemma SameRawPath_iff: "SameRawPath l r \<longleftrightarrow> l = r"
  by (auto simp: SameRawPath_def intro: RawPath.equality)

lemma ContainsRawPath_iff: "ContainsRawPath rs p \<longleftrightarrow> p \<in> rk_path ` set rs"
  by (auto simp: ContainsRawPath_def list_ex_iff SameRawPath_iff)

lemma spur_step_ok:
  assumes "view_wf v" "opt_max_hops options \<le> kNoHopBound" "yen_ok v options accepted st" "previous \<in> set accepted"
    and "i < RawPath_HopCount (rk_path previous)" "spur_step v options accepted previous i st = (True, st')"
  shows "yen_ok v options accepted st'"
proof -
  let ?w = "(y_work st)\<lparr>sr_budget := (sr_budget (y_work st))\<lparr>spur_remaining := spur_remaining (sr_budget (y_work st)) - 1\<rparr>,
    sr_stats := (sr_stats (y_work st))\<lparr>spur_searches := spur_searches (sr_stats (y_work st)) + 1\<rparr>\<rparr>"
  define root where "root = \<lparr>raw_nodes = take (i + 1) (raw_nodes (rk_path previous)), raw_adjacency = take i (raw_adjacency (rk_path previous))\<rparr>"
  obtain spur w where S: "ShortestPath v (raw_nodes (rk_path previous) ! i) (opt_destination_view options)
      (leg_budget (opt_max_hops options) i) (spur_bans accepted previous i) ?w = (spur, w)" by fastforce
  have prev: "is_walk v BanSet_new (opt_source_view options) (opt_destination_view options) (rk_path previous)"
    "within (opt_max_hops options) (rk_path previous)" using assms(3,4) by (auto simp: yen_ok_def sound_def)
  have root: "is_walk v BanSet_new (opt_source_view options) (raw_nodes (rk_path previous) ! i) root" "RawPath_HopCount root = i"
    "within (opt_max_hops options) root"
    using walks_take [of v BanSet_new _ "raw_nodes (rk_path previous)" "raw_adjacency (rk_path previous)" _ i] prev assms(5)
    by (auto simp: root_def is_walk_def RawPath_HopCount_def within_def)
  have total: "is_walk v BanSet_new (opt_source_view options) (opt_destination_view options) (append_leg root (out_path spur))"
    "within (opt_max_hops options) (append_leg root (out_path spur))" if "out_found spur"
    using ShortestPath_walk [OF assms(1) S that] is_walk_append_leg [OF root(1)] is_walk_no_bans
      leg_within [of "opt_max_hops options" root "out_path spur"] root assms(2) by auto
  have "y_pending st' = y_pending st \<or> (\<exists>cost. out_found spur \<and> ComputeRawPathCost v (append_leg root (out_path spur)) = Some cost \<and>
      append_leg root (out_path spur) \<notin> rk_path ` (set accepted \<union> set (y_pending st)) \<and>
      y_pending st' = y_pending st @ [\<lparr>rk_path = append_leg root (out_path spur), rk_cost = cost\<rparr>])"
    using assms(6) S unfolding spur_step_def Let_def root_def by (auto simp: ContainsRawPath_iff split: if_splits option.splits)
  then show ?thesis
  proof (elim disjE exE conjE)
    assume "y_pending st' = y_pending st"
    then show ?thesis using assms(3) by (simp add: yen_ok_def)
  next
    fix cost
    assume *: "out_found spur" "ComputeRawPathCost v (append_leg root (out_path spur)) = Some cost"
      "append_leg root (out_path spur) \<notin> rk_path ` (set accepted \<union> set (y_pending st))"
      "y_pending st' = y_pending st @ [\<lparr>rk_path = append_leg root (out_path spur), rk_cost = cost\<rparr>]"
    have "sound v options \<lparr>rk_path = append_leg root (out_path spur), rk_cost = cost\<rparr>" using total [OF *(1)] *(2) by (simp add: sound_def)
    then show ?thesis using yen_ok_pending [OF assms(3) _ _ *(4)] *(3) by simp
  qed
qed


lemma best_pending_less: "pending \<noteq> [] \<Longrightarrow> best_pending v pending < length pending"
proof -
  have "fold (\<lambda>index best. if P index best then index else best) xs b \<in> insert b (set xs)" for P and xs :: "nat list" and b
    by (induction xs arbitrary: b) (auto split: if_splits)
  from this [of "\<lambda>index best. RankedBefore v (pending ! index) (pending ! best)" "[1..<length pending]" 0]
  show "pending \<noteq> [] \<Longrightarrow> best_pending v pending < length pending" by (auto simp: best_pending_def)
qed

lemma yen_loop_ok:
  assumes "view_wf v" "opt_max_hops options \<le> kNoHopBound"
  shows "\<lbrakk>yen_loop v options wanted accepted st = (Inr result, w); yen_ok v options accepted st; accepted \<noteq> [];
      length accepted \<le> max 1 wanted\<rbrakk> \<Longrightarrow>
    (\<forall>r \<in> set result. sound v options r) \<and> distinct (map rk_path result) \<and> length result \<le> max 1 wanted \<and> hd result = hd accepted"
proof (induction "wanted - length accepted" arbitrary: accepted st rule: less_induct)
  case less
  show ?case
  proof (cases "length accepted < wanted")
    case False
    then show ?thesis using less.prems by (subst (asm) yen_loop.simps) (auto simp: yen_ok_def)
  next
    case True
    let ?step = "spur_step v options accepted (last accepted)" and ?is = "[0..<RawPath_HopCount (rk_path (last accepted))]"
    obtain st' where spur: "for_each ?step ?is st = (True, st')"
      using less.prems(1) True by (subst (asm) yen_loop.simps) (auto split: prod.splits bool.splits)
    have ok: "yen_ok v options accepted st'"
    proof (rule for_each_invariant [where P = "yen_ok v options accepted", OF spur less.prems(2)])
      fix i a b assume "i \<in> set ?is" "?step i a = (True, b)" "yen_ok v options accepted a"
      then show "yen_ok v options accepted b" using spur_step_ok [OF assms, of accepted a "last accepted" i b] less.prems(3) by simp
    qed
    show ?thesis
    proof (cases "y_pending st' = []")
      case True
      then show ?thesis using less.prems(1,4) spur ok \<open>length accepted < wanted\<close>
        by (subst (asm) yen_loop.simps) (auto simp: yen_ok_def)
    next
      case False
      define best where "best = best_pending v (y_pending st')"
      define st2 where "st2 = st'\<lparr>y_pending := take best (y_pending st') @ drop (best + 1) (y_pending st')\<rparr>"
      have b: "best < length (y_pending st')" unfolding best_def using False by (rule best_pending_less)
      have split: "y_pending st' = take best (y_pending st') @ y_pending st' ! best # drop (best + 1) (y_pending st')"
        using id_take_nth_drop [OF b] by simp
      have rec: "yen_loop v options wanted (accepted @ [y_pending st' ! best]) st2 = (Inr result, w)"
        using less.prems(1) spur False True by (subst (asm) yen_loop.simps) (simp add: Let_def best_def st2_def)
      have "mset (accepted @ y_pending st') = mset ((accepted @ [y_pending st' ! best]) @ y_pending st2)"
        unfolding st2_def by (subst split) simp
      then have "yen_ok v options (accepted @ [y_pending st' ! best]) st2"
        using ok unfolding yen_ok_def by (metis set_append set_mset_mset mset_map mset_eq_imp_distinct_iff)
      from less.hyps [OF _ rec this] True less.prems(3) show ?thesis by simp
    qed
  qed
qed


lemma distinct_subseq: "subseq xs ys \<Longrightarrow> distinct ys \<Longrightarrow> distinct xs"
  by (induction rule: list_emb.induct) (auto dest: list_emb_set)

lemma for_each_stopped: "for_each f xs s = (False, s') \<Longrightarrow> \<exists>x t. f x t = (False, s')"
  by (induction xs arbitrary: s) (auto split: prod.splits bool.splits)

lemma yen_loop_return: "yen_loop v options wanted accepted st = (Inl r, w) \<Longrightarrow> enr_paths r = [] \<and> \<not> enr_ok r"
proof (induction "wanted - length accepted" arbitrary: accepted st rule: less_induct)
  case less
  let ?step = "spur_step v options accepted (last accepted)" and ?is = "[0..<RawPath_HopCount (rk_path (last accepted))]"
  have run: "length accepted < wanted" using less.prems by (subst (asm) yen_loop.simps) (auto split: if_splits)
  obtain go st' where spur: "for_each ?step ?is st = (go, st')" by fastforce
  show ?case
  proof (cases go)
    case True
    have "y_pending st' \<noteq> []" using less.prems run spur True by (subst (asm) yen_loop.simps) (auto split: if_splits)
    then have "yen_loop v options wanted (accepted @ [y_pending st' ! best_pending v (y_pending st')])
        (st'\<lparr>y_pending := take (best_pending v (y_pending st')) (y_pending st') @ drop (best_pending v (y_pending st') + 1) (y_pending st')\<rparr>) = (Inl r, w)"
      using less.prems run spur True by (subst (asm) yen_loop.simps) (simp add: Let_def)
    from less.hyps [OF _ this] run show ?thesis by simp
  next
    case False
    have r: "r = y_return st'" using less.prems run spur False by (subst (asm) yen_loop.simps) simp
    from spur False have "for_each ?step ?is st = (False, st')" by simp
    from for_each_stopped [OF this] obtain i t where "?step i t = (False, st')" by blast
    then show ?thesis unfolding r spur_step_def Let_def by (auto split: if_splits prod.splits option.splits)
  qed
qed

lemma compliant_paths_spec:
  assumes "set compliant \<subseteq> {r. DomainMemberLimitCompliant v (rk_path r) limit fc}" "length compliant < n"
  shows "\<exists>xs. subseq xs entries \<and> compliant_paths v limit fc n entries compliant = compliant @ xs \<and> length (compliant @ xs) \<le> n \<and>
    (\<forall>r \<in> set xs. DomainMemberLimitCompliant v (rk_path r) limit fc)"
  using assms
proof (induction entries arbitrary: compliant)
  case (Cons e entries)
  show ?case
  proof (cases "DomainMemberLimitCompliant v (rk_path e) limit fc")
    case True
    show ?thesis
    proof (cases "Suc (length compliant) \<ge> n")
      case t: True
      then show ?thesis using True Cons.prems by (intro exI [of _ "[e]"]) (auto simp: Let_def)
    next
      case False
      from Cons.IH [of "compliant @ [e]"] obtain xs where "subseq xs entries"
        "compliant_paths v limit fc n entries (compliant @ [e]) = (compliant @ [e]) @ xs" "length ((compliant @ [e]) @ xs) \<le> n"
        "\<forall>r \<in> set xs. DomainMemberLimitCompliant v (rk_path r) limit fc" using Cons.prems True False by auto
      then show ?thesis using True False by (intro exI [of _ "e # xs"]) (auto simp: Let_def)
    qed
  next
    case False
    from Cons.IH [OF Cons.prems] obtain xs where "subseq xs entries"
      "compliant_paths v limit fc n entries compliant = compliant @ xs" "length (compliant @ xs) \<le> n"
      "\<forall>r \<in> set xs. DomainMemberLimitCompliant v (rk_path r) limit fc" by blast
    then show ?thesis using False Cons.prems by (intro exI [of _ xs]) (auto simp: Let_def)
  qed
qed simp

section \<open>Required transit\<close>

text \<open>The nodes of a path meet the targets in their order; one node can meet several of them.\<close>

definition visits :: "'a list \<Rightarrow> 'a list \<Rightarrow> bool" where
  "visits nodes targets \<longleftrightarrow> (\<exists>ps. sorted ps \<and> length ps = length targets \<and>
     (\<forall>i < length targets. ps ! i < length nodes \<and> nodes ! (ps ! i) = targets ! i))"

lemma visits_append: "visits nodes targets \<Longrightarrow> visits (nodes @ extra) targets"
  unfolding visits_def by (metis (no_types, lifting) nth_append trans_less_add1 length_append)

lemma visits_map: "visits nodes targets \<Longrightarrow> visits (map f nodes) (map f targets)"
  unfolding visits_def by (metis (no_types, lifting) length_map nth_map)

lemma visits_subset: "visits nodes targets \<Longrightarrow> set targets \<subseteq> set nodes"
  unfolding visits_def by (metis in_set_conv_nth subsetI)

lemma visits_last:
  assumes "visits nodes targets" "nodes \<noteq> []"
  shows "visits nodes (targets @ [last nodes])"
proof -
  obtain ps where ps: "sorted ps" "length ps = length targets" "\<forall>i < length targets. ps ! i < length nodes \<and> nodes ! (ps ! i) = targets ! i"
    using assms(1) unfolding visits_def by blast
  have "\<forall>p \<in> set ps. p \<le> length nodes - 1" using ps(2,3) by (fastforce simp: in_set_conv_nth)
  then have "sorted (ps @ [length nodes - 1])" using ps(1) by (simp add: sorted_append)
  moreover have "\<forall>i < length (targets @ [last nodes]). (ps @ [length nodes - 1]) ! i < length nodes \<and>
      nodes ! ((ps @ [length nodes - 1]) ! i) = (targets @ [last nodes]) ! i"
    using ps(2,3) assms(2) by (auto simp: nth_append last_conv_nth less_Suc_eq)
  ultimately show ?thesis unfolding visits_def using ps(2) by (metis length_append length_Cons list.size(3))
qed

definition picked :: "PlanningView \<Rightarrow> (TransitStage \<times> nat) list \<Rightarrow> nat list" where
  "picked v picks = map (\<lambda>(stage, pick). ViewIndex v (stage_alternatives stage ! pick)) picks"

lemma transit_legs_walk:
  assumes "view_wf v" "hb \<le> kNoHopBound"
  shows "\<lbrakk>transit_legs v hb picks combined current used w = (Legs_done p x n, w'); is_walk v BanSet_new s current combined;
      within hb combined; used = RawPath_HopCount combined; visits (raw_nodes combined) ts\<rbrakk> \<Longrightarrow>
    is_walk v BanSet_new s x p \<and> within hb p \<and> n = RawPath_HopCount p \<and> visits (raw_nodes p) (ts @ picked v picks)"
proof (induction picks arbitrary: combined current used w ts)
  case (Cons pk rest)
  obtain stage pick where pk: "pk = (stage, pick)" by fastforce
  define tgt where "tgt = ViewIndex v (stage_alternatives stage ! pick)"
  define bans where "bans = fold BanSet_AddNode (filter (\<lambda>n. n \<noteq> current) (raw_nodes combined)) BanSet_new"
  obtain leg w1 where S: "ShortestPath v current tgt (leg_budget hb used) bans w = (leg, w1)" by fastforce
  have found: "out_found leg" and rec: "transit_legs v hb rest (append_leg combined (out_path leg)) tgt
      (used + RawPath_HopCount (out_path leg)) w1 = (Legs_done p x n, w')"
    using Cons.prems(1) S unfolding pk bans_def tgt_def by (auto simp: Let_def split: if_splits)
  note W = ShortestPath_walk [OF assms(1) S found]
  have walk: "is_walk v BanSet_new s tgt (append_leg combined (out_path leg))"
    using is_walk_append_leg [OF Cons.prems(2) is_walk_no_bans [OF W(1)]] .
  have hops: "within hb (append_leg combined (out_path leg))" using leg_within [OF _ Cons.prems(3) assms(2)] W(2) Cons.prems(4) by simp
  have l: "last (raw_nodes (append_leg combined (out_path leg))) = tgt" "raw_nodes (append_leg combined (out_path leg)) \<noteq> []"
    using walks_last walks_length walk unfolding is_walk_def by fastforce+
  have "visits (raw_nodes (append_leg combined (out_path leg))) (ts @ [tgt])"
    using visits_last [OF _ l(2), of ts] visits_append [OF Cons.prems(5)] l(1) by (simp add: append_leg_def)
  from Cons.IH [OF rec walk hops _ this] Cons.prems(4) show ?case by (simp add: picked_def pk tgt_def)
qed (auto simp: picked_def)


lemma run_combination_path:
  assumes "view_wf v" "opt_max_hops options \<le> kNoHopBound" "run_combination v options picks w = (Combination_path r, w')"
  shows "sound v options r \<and> RawPathIsSimple (rk_path r) \<and> visits (raw_nodes (rk_path r)) (picked v picks)"
proof -
  let ?s = "opt_source_view options" and ?d = "opt_destination_view options" and ?hb = "opt_max_hops options"
  obtain p x n w1 where L: "transit_legs v ?hb picks \<lparr>raw_nodes = [?s], raw_adjacency = []\<rparr> ?s 0 w = (Legs_done p x n, w1)"
    using assms(3) unfolding run_combination_def Let_def by (auto split: prod.splits Legs.splits)
  define bans where "bans = fold BanSet_AddNode (filter (\<lambda>n. n \<noteq> x \<and> n \<noteq> ?d) (raw_nodes p)) BanSet_new"
  obtain leg w2 where S: "ShortestPath v x ?d (leg_budget ?hb n) bans w1 = (leg, w2)" by fastforce
  have R: "out_found leg" "RawPathIsSimple (append_leg p (out_path leg))" "rk_path r = append_leg p (out_path leg)"
    "ComputeRawPathCost v (append_leg p (out_path leg)) = Some (rk_cost r)"
    using assms(3) S unfolding run_combination_def Let_def L bans_def by (auto split: if_splits option.splits)
  have start: "is_walk v BanSet_new ?s ?s \<lparr>raw_nodes = [?s], raw_adjacency = []\<rparr>" "within ?hb \<lparr>raw_nodes = [?s], raw_adjacency = []\<rparr>"
    "visits [?s] []" by (auto simp: is_walk_def walks.start within_def RawPath_HopCount_def visits_def)
  have T: "is_walk v BanSet_new ?s x p" "within ?hb p" "n = RawPath_HopCount p" "visits (raw_nodes p) (picked v picks)"
    using transit_legs_walk [OF assms(1,2) L start(1,2), of "[]"] start(3) by (simp_all add: RawPath_HopCount_def)
  note W = ShortestPath_walk [OF assms(1) S R(1)]
  have "is_walk v BanSet_new ?s ?d (rk_path r)" unfolding R(3) using is_walk_append_leg [OF T(1) is_walk_no_bans [OF W(1)]] .
  moreover have "within ?hb (rk_path r)" unfolding R(3) using leg_within [OF _ T(2) assms(2)] W(2) T(3) by simp
  moreover have "visits (raw_nodes (rk_path r)) (picked v picks)" unfolding R(3) append_leg_def using visits_append [OF T(4)] by simp
  ultimately show ?thesis using R by (simp add: sound_def)
qed

text \<open>One alternative of every stage, in the order of the stages.\<close>

definition chooses :: "PlanningView \<Rightarrow> TransitStage list \<Rightarrow> nat list \<Rightarrow> bool" where
  "chooses v stages ts \<longleftrightarrow> list_all2 (\<lambda>stage t. \<exists>x \<in> set (stage_alternatives stage). t = ViewIndex v x) stages ts"

definition stages_met :: "PlanningView \<Rightarrow> TransitStage list \<Rightarrow> RawPath \<Rightarrow> bool" where
  "stages_met v stages p \<longleftrightarrow> (\<exists>ts. chooses v stages ts \<and> visits (raw_nodes p) ts)"

lemma selection_picks:
  assumes "\<forall>stage \<in> set stages. stage_alternatives stage \<noteq> []"
  shows "chooses v stages (picked v (zip stages (selection stages c)))"
proof -
  have "list_all2 (\<lambda>stage pick. pick < length (stage_alternatives stage)) ss (digits ss c)"
    if "\<forall>stage \<in> set ss. stage_alternatives stage \<noteq> []" for ss c
    using that by (induction ss arbitrary: c) auto
  from this [of "rev stages" c] assms
  have "list_all2 (\<lambda>stage pick. pick < length (stage_alternatives stage)) stages (selection stages c)"
    by (simp add: selection_def list_all2_rev1)
  then show ?thesis by (auto simp: chooses_def picked_def list_all2_conv_all_nth)
qed

lemma combinations_loop_path:
  assumes "view_wf v" "opt_max_hops options \<le> kNoHopBound" "\<forall>stage \<in> set stages. stage_alternatives stage \<noteq> []"
  defines "good \<equiv> \<lambda>r. sound v options r \<and> RawPathIsSimple (rk_path r) \<and> stages_met v stages (rk_path r)"
  shows "\<lbrakk>combinations_loop v options stages cs best code w = (Inr (Some r, code'), w'); \<forall>b. best = Some b \<longrightarrow> good b\<rbrakk> \<Longrightarrow> good r"
proof (induction cs arbitrary: best code w)
  case (Cons c cs)
  obtain result w1 where run: "run_combination v options (zip stages (selection stages c)) w = (result, w1)" by fastforce
  show ?case
  proof (cases result)
    case (Combination_path ranked)
    have "good ranked" unfolding good_def stages_met_def
      using run_combination_path [OF assms(1,2) run [unfolded Combination_path]] selection_picks [OF assms(3), of v c] by blast
    with Cons.IH Cons.prems run Combination_path show ?thesis by (auto split: option.splits if_splits)
  qed (use Cons run in auto)
qed simp

lemma count_combinations_stages:
  "count_combinations limit stages c a = Inr x \<Longrightarrow> \<forall>stage \<in> set stages. stage_alternatives stage \<noteq> []"
  by (induction stages arbitrary: c a) (auto simp: Let_def split: if_splits)


lemma transit_enumeration_paths:
  assumes "view_wf v" "opt_max_hops options \<le> kNoHopBound" "transit_enumeration v options stages w = (r, w')"
  shows "enr_paths r = [] \<and> \<not> enr_ok r \<or>
    (\<exists>b. enr_paths r = [rk_path b] \<and> enr_ok r \<and> opt_max_candidates options \<le> 1 \<and> sound v options b \<and>
      RawPathIsSimple (rk_path b) \<and> stages_met v stages (rk_path b))"
proof -
  have inl: "enr_paths x = [] \<and> \<not> enr_ok x" if "count_combinations limit ss c a = Inl x" for limit ss c a x
    using that by (induction ss arbitrary: c a) (auto simp: Let_def split: if_splits)
  have legs: "enr_paths x = [] \<and> \<not> enr_ok x" if "transit_legs v hb picks p u n w0 = (Legs_return x, w1)" for hb picks p u n w0 x w1
    using that by (induction picks arbitrary: p u n w0) (auto simp: Let_def split: if_splits prod.splits)
  have run: "enr_paths x = [] \<and> \<not> enr_ok x" if "run_combination v options picks w0 = (Combination_return x, w1)" for picks w0 x w1
    using that legs by (auto simp: run_combination_def Let_def split: prod.splits Legs.splits if_splits option.splits)
  have loop: "enr_paths x = [] \<and> \<not> enr_ok x" if "combinations_loop v options ss cs best code w0 = (Inl x, w1)" for ss cs best code w0 x w1
    using that run by (induction cs arbitrary: best code w0) (auto split: prod.splits Combination.splits)
  show ?thesis
  proof (cases "\<exists>b code. \<exists>n m. count_combinations (max_transit_combinations (view_limits v)) stages 1 0 = Inr (n, m) \<and>
      combinations_loop v options stages [0..<n] None DC_kRequiredNodeMissing w = (Inr (Some b, code), w') \<and>
      opt_max_candidates options \<le> 1 \<and> r = EnumerationResult_new\<lparr>enr_ok := True, enr_paths := [rk_path b]\<rparr>")
    case True
    then obtain b code n m where b: "count_combinations (max_transit_combinations (view_limits v)) stages 1 0 = Inr (n, m)"
      "combinations_loop v options stages [0..<n] None DC_kRequiredNodeMissing w = (Inr (Some b, code), w')"
      "opt_max_candidates options \<le> 1" "r = EnumerationResult_new\<lparr>enr_ok := True, enr_paths := [rk_path b]\<rparr>" by blast
    from combinations_loop_path [OF assms(1,2) count_combinations_stages [OF b(1)] b(2)] b(3,4) show ?thesis by auto
  next
    case False
    then show ?thesis using assms(3) inl loop unfolding transit_enumeration_def
      by (auto split: if_splits sum.splits prod.splits option.splits)
  qed
qed

lemma finish_enumeration_paths:
  assumes "0 < opt_max_candidates options"
  shows "\<exists>rs. subseq rs accepted \<and> enr_paths (finish_enumeration v cs options wanted accepted) = map rk_path rs \<and>
    length rs \<le> opt_max_candidates options \<and> (enr_ok (finish_enumeration v cs options wanted accepted) \<longleftrightarrow> rs \<noteq> []) \<and>
    (\<forall>limit. opt_domain_member_limit_active options \<and> cs_max_members cs = Some limit \<longrightarrow>
      (\<forall>r \<in> set rs. DomainMemberLimitCompliant v (rk_path r) limit (fail_closed_on_unknown_domains cs)))"
proof (cases "opt_domain_member_limit_active options \<and> cs_max_members cs \<noteq> None")
  case True
  then obtain limit where l: "opt_domain_member_limit_active options" "cs_max_members cs = Some limit" by auto
  obtain xs where xs: "subseq xs accepted"
    "compliant_paths v limit (fail_closed_on_unknown_domains cs) (opt_max_candidates options) accepted [] = xs"
    "length xs \<le> opt_max_candidates options" "\<forall>r \<in> set xs. DomainMemberLimitCompliant v (rk_path r) limit (fail_closed_on_unknown_domains cs)"
    using compliant_paths_spec [of "[]" v limit _ "opt_max_candidates options" accepted] assms by auto
  then show ?thesis using l assms by (intro exI [of _ xs]) (simp add: finish_enumeration_def Let_def EnumerationResult_new_def)
next
  case False
  then show ?thesis using assms
    by (intro exI [of _ "take (opt_max_candidates options) accepted"])
      (auto simp: finish_enumeration_def Let_def EnumerationResult_new_def split: bool.splits option.splits)
qed


lemma yen_enumeration_paths:
  assumes "view_wf v" "opt_max_hops options \<le> kNoHopBound" "0 < opt_max_candidates options" "yen_enumeration v cs options w = (r, w')"
  shows "\<exists>rs. enr_paths r = map rk_path rs \<and> (\<forall>x \<in> set rs. sound v options x) \<and> distinct (map rk_path rs) \<and>
    length rs \<le> opt_max_candidates options \<and> (enr_ok r \<longleftrightarrow> rs \<noteq> []) \<and>
    (\<forall>limit. opt_domain_member_limit_active options \<and> cs_max_members cs = Some limit \<longrightarrow>
      (\<forall>x \<in> set rs. DomainMemberLimitCompliant v (rk_path x) limit (fail_closed_on_unknown_domains cs)))"
proof -
  define wanted where "wanted = (if opt_enumeration_ceiling options > 0 then opt_enumeration_ceiling options else opt_max_candidates options)"
  define start where "start w1 = \<lparr>y_pending = [], y_work = w1, y_return = EnumerationResult_new\<rparr>" for w1
  obtain first w1 where S: "ShortestPath v (opt_source_view options) (opt_destination_view options) (opt_max_hops options) BanSet_new w = (first, w1)"
    by fastforce
  have ret: "enr_paths x = [] \<and> \<not> enr_ok x" if "yen_loop v options n acc st = (Inl x, w2)" for n acc st x w2
    by (rule yen_loop_return [OF that])
  show ?thesis
  proof (cases "\<exists>accepted cost. out_found first \<and> ComputeRawPathCost v (out_path first) = Some cost \<and>
      yen_loop v options wanted [\<lparr>rk_path = out_path first, rk_cost = cost\<rparr>] (start w1) = (Inr accepted, w') \<and>
      r = finish_enumeration v cs options wanted accepted")
    case True
    then obtain accepted cost where a: "out_found first" "ComputeRawPathCost v (out_path first) = Some cost"
      "yen_loop v options wanted [\<lparr>rk_path = out_path first, rk_cost = cost\<rparr>] (start w1) = (Inr accepted, w')"
      "r = finish_enumeration v cs options wanted accepted" by blast
    have "yen_ok v options [\<lparr>rk_path = out_path first, rk_cost = cost\<rparr>] (start w1)"
      using ShortestPath_walk [OF assms(1) S a(1)] a(2) by (simp add: yen_ok_def sound_def start_def)
    from yen_loop_ok [OF assms(1,2) a(3) this] have acc: "\<forall>x \<in> set accepted. sound v options x" "distinct (map rk_path accepted)" by auto
    from finish_enumeration_paths [OF assms(3), of accepted v cs wanted] obtain rs where rs: "subseq rs accepted" "enr_paths r = map rk_path rs"
      "length rs \<le> opt_max_candidates options" "enr_ok r \<longleftrightarrow> rs \<noteq> []"
      "\<forall>limit. opt_domain_member_limit_active options \<and> cs_max_members cs = Some limit \<longrightarrow>
        (\<forall>x \<in> set rs. DomainMemberLimitCompliant v (rk_path x) limit (fail_closed_on_unknown_domains cs))" unfolding a(4) by blast
    have "distinct (map rk_path rs)" using distinct_subseq [OF subseq_map [OF rs(1)] acc(2)] .
    moreover have "set rs \<subseteq> set accepted" using rs(1) by (auto dest: list_emb_set)
    ultimately show ?thesis using rs acc(1) by (intro exI [of _ rs]) auto
  next
    case False
    then have "enr_paths r = [] \<and> \<not> enr_ok r"
      using assms(4) S ret unfolding yen_enumeration_def wanted_def start_def Let_def
      by (auto split: if_splits sum.splits prod.splits option.splits)
    then show ?thesis by (intro exI [of _ "[]"]) simp
  qed
qed


lemma EnumerateCandidatePaths_spec:
  assumes "view_wf v" "opt_max_hops options \<le> kNoHopBound" "0 < opt_max_candidates options"
    and "EnumerateCandidatePaths v q options w = (r, w')"
  shows "distinct (enr_paths r) \<and> length (enr_paths r) \<le> opt_max_candidates options \<and> (enr_ok r \<longleftrightarrow> enr_paths r \<noteq> []) \<and>
    (\<forall>p \<in> set (enr_paths r).
      is_walk v BanSet_new (opt_source_view options) (opt_destination_view options) p \<and> within (opt_max_hops options) p \<and>
      ComputeRawPathCost v p \<noteq> None \<and>
      (if required_transit (rq_constraints q) \<noteq> []
       then RawPathIsSimple p \<and> stages_met v (required_transit (rq_constraints q)) p
       else \<forall>limit. opt_domain_member_limit_active options \<and> cs_max_members (rq_constraints q) = Some limit \<longrightarrow>
         DomainMemberLimitCompliant v p limit (fail_closed_on_unknown_domains (rq_constraints q))))"
proof (cases "required_transit (rq_constraints q) = []")
  case True
  then have "yen_enumeration v (rq_constraints q) options w = (r, w')" using assms(4) by (simp add: EnumerateCandidatePaths_def)
  from yen_enumeration_paths [OF assms(1-3) this] True show ?thesis by (auto simp: sound_def)
next
  case False
  then have "transit_enumeration v options (required_transit (rq_constraints q)) w = (r, w')"
    using assms(4) by (simp add: EnumerateCandidatePaths_def)
  from transit_enumeration_paths [OF assms(1,2) this] False show ?thesis using assms(3) by (auto simp: sound_def)
qed

section \<open>Properties\<close>

text \<open>
  C5. Every enumerated path is what was asked for.  On a well-formed view the enumeration returns at most the
  requested number of distinct paths, and it reports success exactly when there is one; each is a
  walk of the view from the source to the destination within the hop bound and with a representable
  cost; with required transit it is simple and meets one alternative of every stage in the order of
  the stages, and without it every path respects the member limit when one is set.
\<close>

theorem EnumerateCandidatePaths_sound:
  assumes "view_wf v" "opt_max_hops options \<le> kNoHopBound" "0 < opt_max_candidates options"
    and "EnumerateCandidatePaths v q options w = (r, w')"
  shows "distinct (enr_paths r) \<and> length (enr_paths r) \<le> opt_max_candidates options \<and> (enr_ok r \<longleftrightarrow> enr_paths r \<noteq> []) \<and>
    (\<forall>p \<in> set (enr_paths r).
      is_walk v BanSet_new (opt_source_view options) (opt_destination_view options) p \<and> within (opt_max_hops options) p \<and>
      ComputeRawPathCost v p \<noteq> None \<and>
      (if required_transit (rq_constraints q) \<noteq> []
       then RawPathIsSimple p \<and> stages_met v (required_transit (rq_constraints q)) p
       else \<forall>limit. opt_domain_member_limit_active options \<and> cs_max_members (rq_constraints q) = Some limit \<longrightarrow>
         DomainMemberLimitCompliant v p limit (fail_closed_on_unknown_domains (rq_constraints q))))"
  using EnumerateCandidatePaths_spec [OF assms] .

definition small_options :: EnumerationOptions where
  "small_options = \<lparr>opt_source_view = 0, opt_destination_view = 2, opt_max_candidates = 2, opt_enumeration_ceiling = 2,
     opt_max_hops = kNoHopBound, opt_domain_member_limit_active = False\<rparr>"

lemma small_enumeration:
  "enr_paths (fst (EnumerateCandidatePaths small_net small_request small_options (small_work\<lparr>sr_budget := (sr_budget small_work)\<lparr>states_remaining := 30, pushes_remaining := 30\<rparr>\<rparr>))) =
     [\<lparr>raw_nodes = [0, 1, 2], raw_adjacency = [0, 2]\<rparr>, \<lparr>raw_nodes = [0, 2], raw_adjacency = [1]\<rparr>]"
  by code_simp


theorem EnumerateCandidatePaths_sound_witness:
  "is_walk small_net BanSet_new 0 2 \<lparr>raw_nodes = [0, 2], raw_adjacency = [1]\<rparr>"
  using EnumerateCandidatePaths_sound [OF small_net_wf _ _ prod.collapse [symmetric], of small_options small_request
      "small_work\<lparr>sr_budget := (sr_budget small_work)\<lparr>states_remaining := 30, pushes_remaining := 30\<rparr>\<rparr>"]
  by (simp add: small_enumeration) (simp add: small_options_def)


lemma combinations_loop_options:
  assumes "run_combination v options = run_combination v options'"
  shows "combinations_loop v options stages cs best code w = combinations_loop v options' stages cs best code w"
  using assms by (induction cs arbitrary: best code w) (simp_all split: prod.split Combination.split)

text \<open>
  C6. With required transit the member limit has no effect at all: whatever limit the request carries, the
  staged search returns the same result with the same work.
\<close>

theorem transit_ignores_member_limit:
  assumes "required_transit (rq_constraints q) \<noteq> []"
  shows "EnumerateCandidatePaths v (q\<lparr>rq_constraints := (rq_constraints q)\<lparr>cs_max_members := limit\<rparr>\<rparr>)
      (options\<lparr>opt_domain_member_limit_active := limit \<noteq> None, opt_enumeration_ceiling := ceiling\<rparr>) w = EnumerateCandidatePaths v q options w"
proof -
  define options' where "options' = options\<lparr>opt_domain_member_limit_active := limit \<noteq> None, opt_enumeration_ceiling := ceiling\<rparr>"
  have "run_combination v options' = run_combination v options" by (simp add: run_combination_def fun_eq_iff options'_def)
  from combinations_loop_options [OF this] have loop: "combinations_loop v options' = combinations_loop v options" by (intro ext)
  have k: "opt_max_candidates options' = opt_max_candidates options" by (simp add: options'_def)
  have "transit_enumeration v options' = transit_enumeration v options" unfolding transit_enumeration_def [abs_def] loop k ..
  then show ?thesis using assms unfolding options'_def by (simp add: EnumerateCandidatePaths_def)
qed

theorem transit_ignores_member_limit_witness:
  "EnumerateCandidatePaths small_net
      (small_request\<lparr>rq_constraints := (rq_constraints small_request)\<lparr>required_transit := [\<lparr>stage_kind = Transit_kExact, stage_alternatives = [small_id 2]\<rparr>],
         cs_max_members := Some 1\<rparr>\<rparr>)
      (small_options\<lparr>opt_domain_member_limit_active := True, opt_enumeration_ceiling := 8\<rparr>) small_work =
   EnumerateCandidatePaths small_net
      (small_request\<lparr>rq_constraints := (rq_constraints small_request)\<lparr>required_transit := [\<lparr>stage_kind = Transit_kExact, stage_alternatives = [small_id 2]\<rparr>]\<rparr>\<rparr>)
      small_options small_work"
  using transit_ignores_member_limit [where q = "small_request\<lparr>rq_constraints := (rq_constraints small_request)\<lparr>
      required_transit := [\<lparr>stage_kind = Transit_kExact, stage_alternatives = [small_id 2]\<rparr>]\<rparr>\<rparr>" and v = small_net and limit = "Some 1"
      and options = small_options and ceiling = 8 and w = small_work]
  by simp

end
