(* ===== verification/PlanCorrect.thy ===== *)
theory PlanCorrect
  imports Planner EnumerateCorrect
begin

text \<open>
  Correctness of a computed plan: the walks of a built view are paths of the fabric over allowed nodes and
  links, every candidate is such a path with its exact cost, ranking and the authority stage only
  drop candidates, and the status of a result agrees with the candidates it carries.
\<close>

section \<open>Walks of a built view are paths of the fabric\<close>

definition build_ok :: "FabricSnapshot \<Rightarrow> PlanningRequest \<Rightarrow> ResourceLimits \<Rightarrow> NodeId \<Rightarrow> NodeId \<Rightarrow> PlanningViewBuild \<Rightarrow> bool" where
  "build_ok s q l x y b \<longleftrightarrow> snapshot_wf s \<and> length (snap_nodes s) < kInvalidIndex \<and> BuildPlanningView s q l x y = b \<and> pvb_fatal b = None"

lemma build_view:
  assumes "build_ok s q l x y b"
  shows "view_wf (pvb_view b)" "view_snapshot (pvb_view b) = s" "view_cost_model (pvb_view b) = pol_cost_model (rq_policy q)"
    "view_layer (pvb_view b) = cs_layer (rq_constraints q)"
    "view_provisional (pvb_view b) \<longleftrightarrow> rq_mode q = Mode_kDiagnosticNonCurrent \<or> \<not> require_operational_proof (rq_policy q)"
    "pvb_source_view b < NodeCount (pvb_view b)" "node_id (NodeAt (pvb_view b) (pvb_source_view b)) = x"
    "pvb_destination_view b < NodeCount (pvb_view b)" "node_id (NodeAt (pvb_view b) (pvb_destination_view b)) = y"
    "u < NodeCount (pvb_view b) \<Longrightarrow> NodeAt (pvb_view b) u \<in> set (snap_nodes s) \<and> node_allowed s q (NodeAt (pvb_view b) u)"
proof -
  have spec: "snapshot_wf s" "length (snap_nodes s) < kInvalidIndex" "BuildPlanningView s q l x y = b" "pvb_fatal b = None"
    using assms by (simp_all add: build_ok_def)
  note B = BuildPlanningView_spec [OF spec]
  then show "view_wf (pvb_view b)" "view_snapshot (pvb_view b) = s" "view_cost_model (pvb_view b) = pol_cost_model (rq_policy q)"
    "view_provisional (pvb_view b) \<longleftrightarrow> rq_mode q = Mode_kDiagnosticNonCurrent \<or> \<not> require_operational_proof (rq_policy q)"
    "pvb_source_view b < NodeCount (pvb_view b)" "node_id (NodeAt (pvb_view b) (pvb_source_view b)) = x"
    "pvb_destination_view b < NodeCount (pvb_view b)" "node_id (NodeAt (pvb_view b) (pvb_destination_view b)) = y"
    using frames_fields [of s q l "pvb_view b"] by blast+
  show "view_layer (pvb_view b) = cs_layer (rq_constraints q)"
    using B unfolding frames_def frame_def initial_view_def Let_def by (cases "pvb_view b") simp
  show "NodeAt (pvb_view b) u \<in> set (snap_nodes s) \<and> node_allowed s q (NodeAt (pvb_view b) u)" if "u < NodeCount (pvb_view b)"
  proof -
    have vs: "view_snapshot (pvb_view b) = s" using B frames_fields [of s q l "pvb_view b"] by blast
    have "view_to_snapshot_node (pvb_view b) ! u \<in> set (filter (\<lambda>i. node_allowed s q (snap_nodes s ! i)) [0..<length (snap_nodes s)])"
      using B that nth_mem [of u "view_to_snapshot_node (pvb_view b)"] by (simp add: NodeCount_def)
    then show ?thesis by (simp add: NodeAt_def vs)
  qed
qed

text \<open>The link behind an adjacency entry.\<close>

abbreviation link_of :: "PlanningView \<Rightarrow> nat \<Rightarrow> EdgeRecord" where
  "link_of v a \<equiv> EdgeAt v (adj_edge (view_adjacency v ! a))"

lemma usable_link:
  assumes "build_ok s q l x y b" "u < NodeCount (pvb_view b)" "usable (pvb_view b) bans u a"
  shows "link_of (pvb_view b) a \<in> set (snap_edges s)" "edge_allowed s q (link_of (pvb_view b) a)"
    "edge_from (link_of (pvb_view b) a) = node_id (NodeAt (pvb_view b) u)"
    "edge_to (link_of (pvb_view b) a) = node_id (NodeAt (pvb_view b) (target (pvb_view b) a))"
    "adj_degraded (view_adjacency (pvb_view b) ! a) = link_degraded s (link_of (pvb_view b) a)"
    "adj_outside_locality (view_adjacency (pvb_view b) ! a) = leaves_locality q (link_of (pvb_view b) a)"
proof -
  let ?v = "pvb_view b"
  have spec: "snapshot_wf s" "length (snap_nodes s) < kInvalidIndex" "BuildPlanningView s q l x y = b" "pvb_fatal b = None"
    using assms(1) by (simp_all add: build_ok_def)
  have "view_adjacency ?v ! a \<in> set (out_edges ?v u)"
    using assms(3) by (auto simp: usable_def out_edges_def AdjacencyBegin_def AdjacencyEnd_def)
  then obtain t k where e: "view_adjacency ?v ! a = entry_of s q t k" "k < length (snap_edges s)" "edge_allowed s q (snap_edges s ! k)"
    "edge_from (snap_edges s ! k) = node_id (NodeAt ?v u)" "edge_to (snap_edges s ! k) = node_id (NodeAt ?v t)"
    using BuildPlanningView_spec [OF spec] assms(2) by blast
  have l: "link_of ?v a = snap_edges s ! k" "target ?v a = t"
    using e(1) build_view(2) [OF assms(1)] by (simp_all add: entry_of_def Let_def EdgeAt_def)
  show "link_of ?v a \<in> set (snap_edges s)" "edge_allowed s q (link_of ?v a)" "edge_from (link_of ?v a) = node_id (NodeAt ?v u)"
    "edge_to (link_of ?v a) = node_id (NodeAt ?v (target ?v a))"
    unfolding l using e(2-5) by simp_all
  show "adj_degraded (view_adjacency ?v ! a) = link_degraded s (link_of ?v a)"
    "adj_outside_locality (view_adjacency ?v ! a) = leaves_locality q (link_of ?v a)"
    unfolding l by (simp_all add: e(1) entry_of_def Let_def)
qed


definition hop_matches :: "FabricSnapshot \<Rightarrow> EdgeRecord \<Rightarrow> PathHop \<Rightarrow> bool" where
  "hop_matches s e h \<longleftrightarrow> hop_link h = edge_id e \<and> hop_from h = edge_from e \<and> hop_to h = edge_to e \<and>
     hop_from_port h = edge_from_port e \<and> hop_to_port h = edge_to_port e \<and> hop_layer h = edge_layer e \<and>
     hop_static_cost h = edge_static_cost e \<and> hop_degraded h = link_degraded s e"

definition fabric_path :: "FabricSnapshot \<Rightarrow> PlanningRequest \<Rightarrow> NodeId \<Rightarrow> NodeId \<Rightarrow> CandidatePath \<Rightarrow> bool" where
  "fabric_path s q x y p \<longleftrightarrow> path_source p = x \<and> path_destination p = y \<and> path_layer p = cs_layer (rq_constraints q) \<and>
     (\<forall>n \<in> set (path_nodes p). \<exists>r \<in> set (snap_nodes s). node_id r = n \<and> node_allowed s q r) \<and>
     (\<forall>h \<in> set (path_hops p). \<exists>e \<in> set (snap_edges s). edge_allowed s q e \<and> hop_matches s e h)"

definition hop_cost_input :: "PlanningRequest \<Rightarrow> PathHop \<Rightarrow> HopCostInput" where
  "hop_cost_input q h = \<lparr>hc_static = hop_static_cost h, hc_degraded = hop_degraded h,
     hc_outside = (locality_scope (rq_policy q) \<noteq> [] \<and> hop_to h \<notin> set (locality_scope (rq_policy q)))\<rparr>"

lemma walks_usable:
  assumes "view_wf v" "s < NodeCount v" "walks v bans s ns as x"
  shows "\<forall>a \<in> set as. \<exists>u < NodeCount v. usable v bans u a"
  using assms(3)
proof (induction rule: walks.induct)
  case (step ns as u a)
  then show ?case using walks_bounds [OF assms(1,2) step.hyps(1)] by auto
qed simp

lemma BuildCandidatePath_fabric:
  assumes "build_ok s q l x y b" "is_walk (pvb_view b) BanSet_new (pvb_source_view b) (pvb_destination_view b) raw"
  shows "fabric_path s q x y (BuildCandidatePath (pvb_view b) raw)"
    "map (hop_input (pvb_view b)) (raw_adjacency raw) = map (hop_cost_input q) (path_hops (BuildCandidatePath (pvb_view b) raw))"
    "length (path_hops (BuildCandidatePath (pvb_view b) raw)) = RawPath_HopCount raw"
    "path_nodes (BuildCandidatePath (pvb_view b) raw) = map (\<lambda>i. node_id (NodeAt (pvb_view b) i)) (raw_nodes raw)"
proof -
  let ?v = "pvb_view b" and ?p = "BuildCandidatePath (pvb_view b) raw"
  note V = build_view [OF assms(1)]
  have W: "walks ?v BanSet_new (pvb_source_view b) (raw_nodes raw) (raw_adjacency raw) (pvb_destination_view b)"
    using assms(2) by (simp add: is_walk_def)
  have ends: "raw_nodes raw \<noteq> []" "hd (raw_nodes raw) = pvb_source_view b" "last (raw_nodes raw) = pvb_destination_view b"
    using walks_nodes [OF W] walks_last [OF W] by simp_all
  have links: "\<exists>u < NodeCount ?v. usable ?v BanSet_new u a" if "a \<in> set (raw_adjacency raw)" for a
    using walks_usable [OF V(1,6) W] that by blast
  have hop: "link_of ?v a \<in> set (snap_edges s) \<and> edge_allowed s q (link_of ?v a) \<and> hop_matches s (link_of ?v a) (build_hop ?v a) \<and>
      hop_input ?v a = hop_cost_input q (build_hop ?v a)" if a: "a \<in> set (raw_adjacency raw)" for a
  proof -
    obtain u where u: "u < NodeCount ?v" "usable ?v BanSet_new u a" using links [OF a] by blast
    note L = usable_link [OF assms(1) u]
    show ?thesis using L by (simp add: hop_matches_def build_hop_def Let_def hop_input_def hop_cost_input_def leaves_locality_def)
  qed
  have p: "?p = \<lparr>path_source = x, path_destination = y, path_layer = cs_layer (rq_constraints q),
      path_nodes = map (\<lambda>i. node_id (NodeAt ?v i)) (raw_nodes raw), path_hops = map (build_hop ?v) (raw_adjacency raw)\<rparr>"
    unfolding BuildCandidatePath_def using ends V(4,7,9) by simp
  have "\<forall>i \<in> set (raw_nodes raw). i < NodeCount ?v" using walks_bounds [OF V(1,6) W] by blast
  then show "fabric_path s q x y ?p" using hop V(10) unfolding fabric_path_def p by auto
  show "map (hop_input ?v) (raw_adjacency raw) = map (hop_cost_input q) (path_hops ?p)" unfolding p using hop by simp
  show "length (path_hops ?p) = RawPath_HopCount raw" "path_nodes ?p = map (\<lambda>i. node_id (NodeAt ?v i)) (raw_nodes raw)"
    unfolding p by (simp_all add: RawPath_HopCount_def)
qed

section \<open>Candidates\<close>

definition stage_order :: "PlanningRequest \<Rightarrow> CandidatePath \<Rightarrow> bool" where
  "stage_order q p \<longleftrightarrow> (\<exists>ns. list_all2 (\<lambda>stage n. n \<in> set (stage_alternatives stage)) (required_transit (rq_constraints q)) ns \<and>
     visits (path_nodes p) ns)"

text \<open>
  The failure-domain member limit, counted on the hops: no domain has more than the limit of the links of the path, and
  a request that fails closed admits no link of unknown membership.  The enumeration through transit stages does not
  read the limit, so it is asked of requests without stages only.
\<close>

definition hop_membership :: "FabricSnapshot \<Rightarrow> PathHop \<Rightarrow> Membership" where
  "hop_membership s h = MembershipOf (snap_failure_domains s) (ForLink (hop_link h))"

definition member_limit_ok :: "FabricSnapshot \<Rightarrow> PlanningRequest \<Rightarrow> CandidatePath \<Rightarrow> bool" where
  "member_limit_ok s q p \<longleftrightarrow> (\<forall>limit. cs_max_members (rq_constraints q) = Some limit \<and> required_transit (rq_constraints q) = [] \<longrightarrow>
     (\<forall>d. length (filter (\<lambda>h. d \<in> set (mem_domains (hop_membership s h))) (path_hops p)) \<le> limit) \<and>
     (fail_closed_on_unknown_domains (rq_constraints q) \<longrightarrow> (\<forall>h \<in> set (path_hops p). mem_known (hop_membership s h))))"

definition candidate_ok :: "FabricSnapshot \<Rightarrow> PlanningRequest \<Rightarrow> NodeId \<Rightarrow> NodeId \<Rightarrow> Candidate \<Rightarrow> bool" where
  "candidate_ok s q x y c \<longleftrightarrow> IsWellFormed (cand_path c) \<and> IsSimple (cand_path c) \<and> fabric_path s q x y (cand_path c) \<and>
     (\<forall>m. cs_max_hops (rq_constraints q) = Some m \<longrightarrow> length (path_hops (cand_path c)) \<le> unat m) \<and>
     stage_order q (cand_path c) \<and> member_limit_ok s q (cand_path c) \<and>
     AccumulatePathCost (map (hop_cost_input q) (path_hops (cand_path c))) (pol_cost_model (rq_policy q)) = Some (cand_cost c) \<and>
     cand_id c = CandidatePath_Id (cand_path c)"

text \<open>The sorted table of the search counts exactly: each domain once, with the number of its occurrences so far.\<close>

definition tallied :: "(FailureDomainId \<times> nat) list \<Rightarrow> FailureDomainId \<Rightarrow> nat" where
  "tallied counts d = (case map_of counts d of None \<Rightarrow> 0 | Some n \<Rightarrow> n)"

definition tally_ok :: "nat \<Rightarrow> (FailureDomainId \<times> nat) list \<Rightarrow> bool" where
  "tally_ok limit counts \<longleftrightarrow> sorted_wrt (<) (map fst counts) \<and> (\<forall>d. tallied counts d \<le> limit)"

lemma tallied_nth: "sorted_wrt (<) (map fst counts) \<Longrightarrow> i < length counts \<Longrightarrow> tallied counts (fst (counts ! i)) = snd (counts ! i)"
proof -
  assume "sorted_wrt (<) (map fst counts)" "i < length counts"
  then have "map_of counts (fst (counts ! i)) = Some (snd (counts ! i))"
    by (intro map_of_is_SomeI) (simp_all add: strict_sorted_iff)
  then show ?thesis by (simp add: tallied_def)
qed

lemma tallied_fresh: "d \<notin> fst ` set counts \<Longrightarrow> tallied counts d = 0"
  by (simp add: tallied_def map_of_eq_None_iff [THEN iffD2])

lemma tally_step:
  fixes d :: FailureDomainId
  assumes "sorted_wrt (<) (map fst counts)"
  defines "i \<equiv> lower_bound (\<lambda>item. fst item < d) counts"
  defines "grown \<equiv> if i = length counts \<or> fst (counts ! i) \<noteq> d then take i counts @ (d, 0) # drop i counts else counts"
  defines "bumped \<equiv> grown[i := (d, snd (grown ! i) + 1)]"
  shows "sorted_wrt (<) (map fst bumped)" "snd (bumped ! i) = tallied counts d + 1"
    "tallied bumped = (tallied counts)(d := tallied counts d + 1)"
proof -
  have s: "sorted (map fst counts)" using assms(1) by (simp add: strict_sorted_iff)
  note lb = lower_bound_spec [OF sorted_partitioned [OF s, of d], folded i_def]
  let ?A = "take i counts" and ?C = "if i = length counts \<or> fst (counts ! i) \<noteq> d then drop i counts else drop (Suc i) counts"
  have C: "counts = ?A @ (if i = length counts \<or> fst (counts ! i) \<noteq> d then [] else [counts ! i]) @ ?C"
    using lb(2) by (simp add: Cons_nth_drop_Suc)
  have below: "\<forall>z \<in> set ?A. fst z < d" using lb(1,2) by (fastforce simp: in_set_conv_nth)
  have above_eq: "d \<le> fst z" if z: "z \<in> set (drop i counts)" for z
  proof -
    obtain k where "k < length counts - i" "z = counts ! (i + k)" using z by (auto simp: in_set_conv_nth)
    then show ?thesis using lb(3) [rule_format, of "i + k"] by (simp add: not_less)
  qed
  have above: "\<forall>z \<in> set ?C. d < fst z"
  proof (cases "i = length counts \<or> fst (counts ! i) \<noteq> d")
    case True
    show ?thesis
    proof (cases "i = length counts")
      case False
      then have i: "i < length counts" using lb(2) by simp
      then have gt: "d < fst (counts ! i)" using True False lb(3) by (auto simp: not_less order_less_le)
      have "\<forall>z \<in> set (drop i counts). fst (counts ! i) \<le> fst z"
      proof
        fix z assume "z \<in> set (drop i counts)"
        then obtain k where "k < length counts - i" "z = counts ! (i + k)" by (auto simp: in_set_conv_nth)
        then show "fst (counts ! i) \<le> fst z" using sorted_nth_mono [OF s, of i "i + k"] by simp
      qed
      then show ?thesis using True gt by fastforce
    qed (simp add: True)
  next
    case False
    then have i: "i < length counts" "fst (counts ! i) = d" using lb(2) by auto
    have "fst (counts ! i) < fst z" if z: "z \<in> set (drop (Suc i) counts)" for z
    proof -
      obtain k where "k < length counts - Suc i" "z = counts ! (Suc i + k)" using z by (auto simp: in_set_conv_nth)
      then show ?thesis using sorted_wrt_nth_less [OF assms(1), of i "Suc i + k"] by simp
    qed
    then show ?thesis using False i(2) by auto
  qed
  let ?n = "tallied counts d"
  have n: "?n = (if i = length counts \<or> fst (counts ! i) \<noteq> d then 0 else snd (counts ! i))"
  proof (cases "i = length counts \<or> fst (counts ! i) \<noteq> d")
    case True
    have "set counts = set (take i counts) \<union> set (drop i counts)" by (metis append_take_drop_id set_append)
    moreover have "\<forall>z \<in> set (drop i counts). d < fst z" using above True by simp
    ultimately have "d \<notin> fst ` set counts" using below by blast
    then show ?thesis using True tallied_fresh by simp
  next
    case False
    then show ?thesis using tallied_nth [OF assms(1), of i] lb(2) by auto
  qed
  have B: "bumped = ?A @ (d, ?n + 1) # ?C"
    using lb(2) n by (auto simp: bumped_def grown_def nth_append upd_conv_take_nth_drop min_def not_less)
  show "snd (bumped ! i) = ?n + 1" using lb(2) by (simp add: B nth_append)
  have sA: "sorted_wrt (<) (map fst ?A)" "sorted_wrt (<) (map fst ?C)"
    using assms(1) by (simp_all add: take_map [symmetric] drop_map [symmetric] sorted_wrt_take sorted_wrt_drop)
  have "\<forall>z \<in> set ?A. \<forall>z' \<in> set ?C. fst z < fst z'" using below above less_trans by blast
  then show "sorted_wrt (<) (map fst bumped)"
    unfolding B using sA below above by (simp add: sorted_wrt_append)
  show "tallied bumped = (tallied counts)(d := ?n + 1)"
  proof
    fix e
    have out: "d \<notin> fst ` set ?A" using below by fastforce
    have same: "map_of counts e = map_of (?A @ ?C) e" if "e \<noteq> d"
    proof (cases "i = length counts \<or> fst (counts ! i) \<noteq> d")
      case False
      then have at: "i < length counts" "fst (counts ! i) = d" using lb(2) by auto
      have "map_of counts e = map_of (take i counts @ counts ! i # drop (Suc i) counts) e"
        using id_take_nth_drop [OF at(1)] by (rule arg_cong)
      also have "\<dots> = map_of (take i counts @ drop (Suc i) counts) e"
        using that at(2) by (simp only: map_of_append) (cases "counts ! i", auto simp: map_add_def split: option.split)
      finally show ?thesis using False by simp
    qed simp
    have m: "map_of bumped e = (if e = d then Some (?n + 1) else map_of counts e)"
    proof (cases "e = d")
      case True
      have none: "map_of ?A d = None" using out by (simp add: map_of_eq_None_iff)
      show ?thesis unfolding B True map_of_append map_add_def
        by (simp only: none option.case map_of.simps fst_conv snd_conv fun_upd_same simp_thms if_True)
    next
      case False
      then have "(if e = d then Some (?n + 1) else map_of counts e) = map_of (?A @ ?C) e" using same by simp
      then show ?thesis unfolding B using False
        by (simp only: map_of_append map_add_def map_of.simps fst_conv snd_conv fun_upd_other simp_thms)
    qed
    then show "tallied bumped e = ((tallied counts)(d := ?n + 1)) e" by (simp add: tallied_def)
  qed
qed

lemma count_domains_tally:
  "count_domains limit ds counts = Some counts' \<Longrightarrow> tally_ok limit counts \<Longrightarrow>
     tally_ok limit counts' \<and> (\<forall>d. tallied counts' d = tallied counts d + count_list ds d)"
proof (induction limit ds counts rule: count_domains.induct)
  case (2 limit domain ds counts)
  define i where "i = lower_bound (\<lambda>item. fst item < domain) counts"
  define grown where "grown = (if i = length counts \<or> fst (counts ! i) \<noteq> domain then take i counts @ (domain, 0) # drop i counts else counts)"
  define bumped where "bumped = grown[i := (domain, snd (grown ! i) + 1)]"
  have s: "sorted_wrt (<) (map fst counts)" using 2(3) by (simp add: tally_ok_def)
  note T = tally_step [OF s, of domain, folded i_def, folded grown_def, folded bumped_def]
  have step: "count_domains limit (domain # ds) counts = (if snd (bumped ! i) > limit then None else count_domains limit ds bumped)"
    by (simp add: Let_def i_def grown_def bumped_def)
  then have le: "\<not> limit < snd (bumped ! i)" and rec: "count_domains limit ds bumped = Some counts'" using 2(2) by (auto split: if_splits)
  have ok: "tally_ok limit bumped" using T le 2(3) by (simp add: tally_ok_def)
  have "tally_ok limit counts' \<and> (\<forall>d. tallied counts' d = tallied bumped d + count_list ds d)"
    by (rule 2(1) [OF i_def grown_def bumped_def le rec ok])
  then show ?case using T(3) by auto
qed simp

lemma member_limit_step:
  assumes "member_limit_loop v limit fail_closed (a # as) counts"
    and "mem_known (MembershipOf (snap_failure_domains (view_snapshot v)) (ForLink (edge_id (EdgeAt v (adj_edge (view_adjacency v ! a))))))"
  shows "\<exists>counts'. count_domains limit (mem_domains (MembershipOf (snap_failure_domains (view_snapshot v))
      (ForLink (edge_id (EdgeAt v (adj_edge (view_adjacency v ! a))))))) counts = Some counts' \<and> member_limit_loop v limit fail_closed as counts'"
  using assms by (simp add: Let_def split: option.split_asm)

lemma mem_domains_unknown: "\<not> mem_known (MembershipOf w k) \<Longrightarrow> mem_domains (MembershipOf w k) = []"
  by (simp add: MembershipOf_def Let_def)

lemma member_limit_loop_tally:
  fixes v :: PlanningView
  defines "m a \<equiv> MembershipOf (snap_failure_domains (view_snapshot v)) (ForLink (edge_id (EdgeAt v (adj_edge (view_adjacency v ! a)))))"
  shows "member_limit_loop v limit fail_closed as counts \<Longrightarrow> tally_ok limit counts \<Longrightarrow>
    tallied counts d + length (filter (\<lambda>a. d \<in> set (mem_domains (m a))) as) \<le> limit \<and>
    (fail_closed \<longrightarrow> (\<forall>a \<in> set as. mem_known (m a)))"
proof (induction as arbitrary: counts)
  case Nil
  then show ?case by (simp add: tally_ok_def)
next
  case (Cons a as)
  show ?case
  proof (cases "mem_known (m a)")
    case False
    then have "member_limit_loop v limit fail_closed as counts" "\<not> fail_closed" "mem_domains (m a) = []"
      using Cons.prems(1) by (auto simp: m_def mem_domains_unknown split: if_splits)
    with Cons.IH [OF this(1) Cons.prems(2)] show ?thesis by simp
  next
    case True
    then obtain counts' where c: "count_domains limit (mem_domains (m a)) counts = Some counts'" "member_limit_loop v limit fail_closed as counts'"
      using member_limit_step [OF Cons.prems(1) True [unfolded m_def]] unfolding m_def by blast
    note T = count_domains_tally [OF c(1) Cons.prems(2)]
    have "d \<in> set (mem_domains (m a)) \<longrightarrow> 1 \<le> count_list (mem_domains (m a)) d"
      by (metis count_list_0_iff less_one not_le)
    then show ?thesis using Cons.IH [OF c(2)] T True by auto
  qed
qed

lemma AccumulatePathCost_length: "AccumulatePathCost hs m = Some c \<Longrightarrow> length hs \<le> 65535"
  by (simp add: AccumulatePathCost_def kMaxHopCount_def split: if_splits)

lemma stages_met_order:
  assumes "build_ok s q l x y b" "is_walk (pvb_view b) BanSet_new (pvb_source_view b) (pvb_destination_view b) raw"
    "stages_met (pvb_view b) (required_transit (rq_constraints q)) raw"
  shows "stage_order q (BuildCandidatePath (pvb_view b) raw)"
proof -
  let ?v = "pvb_view b"
  note V = build_view [OF assms(1)]
  have spec: "snapshot_wf s" "length (snap_nodes s) < kInvalidIndex" "BuildPlanningView s q l x y = b" "pvb_fatal b = None"
    using assms(1) by (simp_all add: build_ok_def)
  have num: "numbered s q ?v" using BuildPlanningView_spec [OF spec] by blast
  obtain ts where ts: "chooses ?v (required_transit (rq_constraints q)) ts" "visits (raw_nodes raw) ts"
    using assms(3) unfolding stages_met_def by blast
  have "\<forall>t \<in> set ts. t < NodeCount ?v"
    using visits_subset [OF ts(2)] walks_bounds [OF V(1,6)] assms(2) unfolding is_walk_def by blast
  moreover have id: "node_id (NodeAt ?v (ViewIndex ?v n)) = n" if "ViewIndex ?v n < NodeCount ?v" for n
  proof -
    have ss: "sorted_wrt (<) (map node_id (snap_nodes s))" using spec(1) by (simp add: snapshot_wf_def)
    have ni: "ViewIndex ?v n \<noteq> kInvalidIndex" using that V(1) by (simp add: view_wf_def)
    then obtain i where i: "find_sorted node_id (snap_nodes s) n = Some i" by (auto simp: ViewIndex_def V(2) split: option.splits)
    then have "n \<in> node_id ` set (snap_nodes s)" by (auto simp: find_sorted_eq_Some [OF ss])
    from numbered_index [OF spec(1,2) num this] i ni that show ?thesis by (auto simp: ViewIndex_def V(2))
  qed
  ultimately have "list_all2 (\<lambda>stage n. n \<in> set (stage_alternatives stage)) (required_transit (rq_constraints q))
      (map (\<lambda>i. node_id (NodeAt ?v i)) ts)"
    using ts(1) unfolding chooses_def list_all2_conv_all_nth by (metis length_map nth_map nth_mem)
  then show ?thesis unfolding stage_order_def BuildCandidatePath_fabric(4) [OF assms(1,2)] using visits_map [OF ts(2)] by blast
qed


lemma stage_order_Nil: "required_transit (rq_constraints q) = [] \<Longrightarrow> stage_order q p"
  by (simp add: stage_order_def visits_def)

lemma member_limit_compliant:
  assumes "build_ok s q l x y b" "DomainMemberLimitCompliant (pvb_view b) raw limit fail_closed"
  defines "hops \<equiv> path_hops (BuildCandidatePath (pvb_view b) raw)"
  shows "length (filter (\<lambda>h. d \<in> set (mem_domains (hop_membership s h))) hops) \<le> limit \<and>
    (fail_closed \<longrightarrow> (\<forall>h \<in> set hops. mem_known (hop_membership s h)))"
proof (cases "raw_adjacency raw = []")
  case False
  then have "member_limit_loop (pvb_view b) limit fail_closed (raw_adjacency raw) []"
    using assms(2) by (simp add: DomainMemberLimitCompliant_def)
  from member_limit_loop_tally [OF this, of d] have
    "length (filter (\<lambda>a. d \<in> set (mem_domains (hop_membership s (build_hop (pvb_view b) a)))) (raw_adjacency raw)) \<le> limit \<and>
     (fail_closed \<longrightarrow> (\<forall>a \<in> set (raw_adjacency raw). mem_known (hop_membership s (build_hop (pvb_view b) a))))"
    by (simp add: tally_ok_def tallied_def hop_membership_def build_hop_def Let_def build_view(2) [OF assms(1)])
  then show ?thesis by (simp add: hops_def BuildCandidatePath_def filter_map comp_def)
qed (simp add: hops_def BuildCandidatePath_def)

lemma raw_candidate_ok:
  assumes "build_ok s q l x y b" "is_walk (pvb_view b) BanSet_new (pvb_source_view b) (pvb_destination_view b) raw"
    and "within (opt_max_hops (enumeration_options q l sv dv)) raw"
    and "required_transit (rq_constraints q) \<noteq> [] \<Longrightarrow> stages_met (pvb_view b) (required_transit (rq_constraints q)) raw"
    and "\<And>limit. required_transit (rq_constraints q) = [] \<Longrightarrow> cs_max_members (rq_constraints q) = Some limit \<Longrightarrow>
      DomainMemberLimitCompliant (pvb_view b) raw limit (fail_closed_on_unknown_domains (rq_constraints q))"
    and "raw_candidate (pvb_view b) raw = Some c"
  shows "candidate_ok s q x y c"
proof -
  note F = BuildCandidatePath_fabric [OF assms(1,2)]
  obtain cost where c: "c = Candidate_new (BuildCandidatePath (pvb_view b) raw) cost" "ComputeRawPathCost (pvb_view b) raw = Some cost"
    "IsWellFormed (BuildCandidatePath (pvb_view b) raw)" "IsSimple (BuildCandidatePath (pvb_view b) raw)"
    using assms(6) by (auto simp: raw_candidate_def Let_def split: option.splits if_splits)
  have cost: "AccumulatePathCost (map (hop_cost_input q) (path_hops (BuildCandidatePath (pvb_view b) raw))) (pol_cost_model (rq_policy q)) = Some cost"
    using c(2) unfolding ComputeRawPathCost_def F(2) build_view(3) [OF assms(1)] .
  have "RawPath_HopCount raw \<le> 65535" using AccumulatePathCost_length [OF cost] F(3) by simp
  then have "RawPath_HopCount raw \<le> unat m" if "cs_max_hops (rq_constraints q) = Some m" for m
    using assms(3) that by (auto simp: enumeration_options_def Let_def within_def kNoHopBound_def)
  moreover have "stage_order q (BuildCandidatePath (pvb_view b) raw)"
    using stage_order_Nil stages_met_order [OF assms(1,2)] assms(4) by blast
  moreover have "member_limit_ok s q (BuildCandidatePath (pvb_view b) raw)"
    unfolding member_limit_ok_def using member_limit_compliant [OF assms(1) assms(5)] by blast
  ultimately show ?thesis using F c cost by (simp add: candidate_ok_def Candidate_new_def)
qed

lemma zero_hop_ok:
  assumes "build_ok s q l x y b" "pvb_source_view b = pvb_destination_view b" "required_transit (rq_constraints q) = []"
  defines "raw \<equiv> \<lparr>raw_nodes = [pvb_source_view b], raw_adjacency = []\<rparr>"
  shows "candidate_ok s q x y (Candidate_new (BuildCandidatePath (pvb_view b) raw) (the (ComputeRawPathCost (pvb_view b) raw)))"
proof -
  note V = build_view [OF assms(1)]
  have walk: "is_walk (pvb_view b) BanSet_new (pvb_source_view b) (pvb_destination_view b) raw"
    using walks.start assms(2) by (simp add: is_walk_def raw_def)
  have "NodeAt (pvb_view b) (pvb_source_view b) \<in> set (snap_nodes s)" using V(10) [OF V(6)] by simp
  then have "FixedId_IsValid (node_id (NodeAt (pvb_view b) (pvb_source_view b)))"
    using assms(1) by (auto simp: build_ok_def snapshot_wf_def node_ok_def)
  then have wf: "IsWellFormed (BuildCandidatePath (pvb_view b) raw)" "IsSimple (BuildCandidatePath (pvb_view b) raw)"
    by (simp_all add: raw_def BuildCandidatePath_def IsWellFormed_def IsSimple_def)
  obtain cost where cost: "ComputeRawPathCost (pvb_view b) raw = Some cost"
    by (simp add: ComputeRawPathCost_def raw_def AccumulatePathCost_eq total_cost_def static_sum_def degraded_count_def breach_count_def)
  then have "raw_candidate (pvb_view b) raw = Some (Candidate_new (BuildCandidatePath (pvb_view b) raw) cost)"
    using wf by (simp add: raw_candidate_def Let_def)
  from raw_candidate_ok [OF assms(1) walk _ _ _ this, of 0 0] assms(3) cost show ?thesis
    by (simp add: within_def RawPath_HopCount_def raw_def DomainMemberLimitCompliant_def)
qed

lemma compute_candidates_ok:
  assumes "build_ok s q l x y b" "0 < rq_max_candidates q"
    and "c \<in> set (comp_candidates (compute_candidates (pvb_view b) q l (pvb_source_view b) (pvb_destination_view b)))"
  shows "candidate_ok s q x y c"
proof -
  let ?sv = "pvb_source_view b" and ?dv = "pvb_destination_view b" and ?v = "pvb_view b"
  let ?o = "enumeration_options q l ?sv ?dv"
  obtain e w where E: "EnumerateCandidatePaths ?v q ?o (work_for l) = (e, w)" by fastforce
  consider (zero) "?sv = ?dv" "required_transit (rq_constraints q) = []"
      "c = Candidate_new (BuildCandidatePath ?v \<lparr>raw_nodes = [?sv], raw_adjacency = []\<rparr>)
        (the (ComputeRawPathCost ?v \<lparr>raw_nodes = [?sv], raw_adjacency = []\<rparr>))"
    | (enum) raw where "raw \<in> set (enr_paths e)" "raw_candidate ?v raw = Some c"
    using assms(3) E unfolding compute_candidates_def Let_def
    by (auto simp: set_map_filter split: if_splits option.splits)
  then show ?thesis
  proof cases
    case zero
    then show ?thesis using zero_hop_ok [OF assms(1)] by simp
  next
    case enum
    have o: "opt_max_hops ?o \<le> kNoHopBound" "0 < opt_max_candidates ?o" "opt_source_view ?o = ?sv" "opt_destination_view ?o = ?dv"
      using assms(2) unsigned_less [where 'a = nat and 'b = 32]
      by (auto simp: enumeration_options_def Let_def kNoHopBound_def less_Suc_eq_le [symmetric] split: option.split)
    from EnumerateCandidatePaths_spec [OF build_view(1) [OF assms(1)] o(1,2) E] enum(1)
    have "is_walk ?v BanSet_new ?sv ?dv raw" "within (opt_max_hops ?o) raw"
      "required_transit (rq_constraints q) \<noteq> [] \<Longrightarrow> stages_met ?v (required_transit (rq_constraints q)) raw"
      "\<And>limit. required_transit (rq_constraints q) = [] \<Longrightarrow> cs_max_members (rq_constraints q) = Some limit \<Longrightarrow>
        DomainMemberLimitCompliant ?v raw limit (fail_closed_on_unknown_domains (rq_constraints q))"
      unfolding o(3,4) by (auto simp: enumeration_options_def Let_def split: if_splits)
    from raw_candidate_ok [OF assms(1) this(1,2) this(3,4) enum(2)] show ?thesis .
  qed
qed


section \<open>The result of a computation\<close>

text \<open>What ranking, decoration and the authority stage leave of a candidate.\<close>

definition core :: "Candidate \<Rightarrow> CandidatePathId \<times> CandidatePath \<times> PathCost" where
  "core c = (cand_id c, cand_path c, cand_cost c)"

lemma core_updates [simp]:
  "core (c\<lparr>cand_rank := n\<rparr>) = core c" "core (c\<lparr>cand_authority := a\<rparr>) = core c" "core (add_note code c) = core c"
  "core (decorate v q s e c) = core c" "core (c\<lparr>cand_currentness := k\<rparr>) = core c" "core (c\<lparr>cand_provenance := p\<rparr>) = core c"
  by (simp_all add: core_def add_note_def decorate_def)

lemma candidate_ok_core: "core c = core d \<Longrightarrow> candidate_ok s q x y c = candidate_ok s q x y d"
  by (simp add: core_def candidate_ok_def)

lemma rank_key_core: "core c = core d \<Longrightarrow> rank_key c = rank_key d"
  by (simp add: core_def rank_key_def)

lemma core_set_ranks [simp]: "map core (set_ranks cs) = map core cs"
  by (rule nth_equalityI) (simp_all add: set_ranks_def nth_enumerate_eq)

lemma length_set_ranks [simp]: "length (set_ranks cs) = length cs"
  by (simp add: set_ranks_def)

definition ranked :: "Candidate list \<Rightarrow> bool" where
  "ranked cs \<longleftrightarrow> map cand_rank cs = map (\<lambda>i. of_nat (i + 1)) [0..<length cs]"

lemma ranked_set_ranks: "ranked (set_ranks cs)"
  unfolding ranked_def by (rule nth_equalityI) (simp_all add: set_ranks_def nth_enumerate_eq)

lemma subseq_unique_by: "subseq (unique_by eq xs) xs"
proof (induction eq xs rule: unique_by.induct)
  case (3 eq x y zs)
  show ?case
  proof (cases "eq x y")
    case True
    have "subseq (x # zs) (x # y # zs)" by (auto intro: list_emb_Cons)
    from subseq_order.trans [OF 3(1) [OF True] this] True show ?thesis by simp
  qed (use 3(2) in simp)
qed simp_all

lemma set_subseq: "subseq xs ys \<Longrightarrow> set xs \<subseteq> set ys"
  by (auto dest: list_emb_set)

lemma sorted_subseq: "subseq xs ys \<Longrightarrow> sorted ys \<Longrightarrow> sorted xs"
  by (induction rule: list_emb.induct) (auto dest: list_emb_set)

lemma rank_candidates_spec:
  "sorted (map rank_key (rank_candidates n cs))" "set (rank_candidates n cs) \<subseteq> set cs" "length (rank_candidates n cs) \<le> n"
proof -
  let ?u = "unique_by (\<lambda>l r. cand_id l = cand_id r) (sort_key rank_key cs)"
  have "sorted (map rank_key ?u)" by (rule sorted_subseq [OF subseq_map [OF subseq_unique_by] sorted_sort_key])
  then show "sorted (map rank_key (rank_candidates n cs))" by (simp add: rank_candidates_def take_map [symmetric] sorted_wrt_take)
  show "set (rank_candidates n cs) \<subseteq> set cs"
    using set_take_subset [of n ?u] set_unique_by_subset [of "\<lambda>l r. cand_id l = cand_id r" "sort_key rank_key cs"]
    by (auto simp: rank_candidates_def)
  show "length (rank_candidates n cs) \<le> n" by (simp add: rank_candidates_def)
qed

lemma consult_core: "subseq (map core (fst (consult port mode ev cs))) (map core cs)"
  by (induction cs) (auto simp: Let_def split: prod.split AuthorityValidation.split)

lemma authority_stage_spec:
  assumes "authority_stage authority mode v truncated r cs = Inr cs'" "ranked cs"
  shows "subseq (map core cs') (map core cs)" "ranked cs'"
    "\<forall>c \<in> set cs'. \<exists>d \<in> set cs. cand_currentness c = cand_currentness d"
proof -
  consider "cs' = cs" | "cs' = map (\<lambda>c. add_note DC_kAuthorityValidationUnavailable (c\<lparr>cand_authority := Auth_kUnavailable\<rparr>)) cs"
    | port ds any where "consult port mode (res_evidence r) cs = (ds, any)" "cs' = set_ranks ds"
    using assms(1) by (auto simp: authority_stage_def Let_def split: if_splits option.splits prod.splits)
  then have "subseq (map core cs') (map core cs) \<and> ranked cs' \<and> (\<forall>c \<in> set cs'. \<exists>d \<in> set cs. cand_currentness c = cand_currentness d)"
  proof cases
    case 2
    then show ?thesis using assms(2) by (auto simp: ranked_def comp_def add_note_def core_def [abs_def])
  next
    case 3
    have "\<forall>c \<in> set (fst (consult port mode ev cs)). \<exists>d \<in> set cs. cand_currentness c = cand_currentness d" for ev
      by (induction cs) (auto simp: Let_def add_note_def split: prod.split AuthorityValidation.split)
    moreover have "cand_currentness ` set (set_ranks ds) = cand_currentness ` set ds" for ds
    proof -
      have "map cand_currentness (set_ranks ds) = map cand_currentness ds"
        by (rule nth_equalityI) (simp_all add: set_ranks_def nth_enumerate_eq)
      then show ?thesis by (metis list.set_map)
    qed
    ultimately have "\<forall>c \<in> set cs'. \<exists>d \<in> set cs. cand_currentness c = cand_currentness d"
      unfolding 3(2) using 3(1) by (metis (no_types, lifting) fst_conv imageE image_eqI)
    then show ?thesis using 3 consult_core [of port mode "res_evidence r" cs] ranked_set_ranks by simp
  qed (use assms(2) in auto)
  then show "subseq (map core cs') (map core cs)" "ranked cs'"
    "\<forall>c \<in> set cs'. \<exists>d \<in> set cs. cand_currentness c = cand_currentness d" by auto
qed


text \<open>The stages a published result has passed.\<close>

lemma compute_plan_stages:
  assumes "compute_plan cap q = Inr (r, stats)"
  obtains s sr sn dr dn b computed r0 cs where "cap_snapshot cap = Some s" "ValidateRequest q (cap_limits cap) = None"
    "ResolveEndpoint s (rq_source q) True = Inr (sr, sn)" "ResolveEndpoint s (rq_destination q) False = Inr (dr, dn)"
    "BuildPlanningView s q (cap_limits cap) (node_id sn) (node_id dn) = b" "pvb_fatal b = None"
    "compute_candidates (pvb_view b) q (cap_limits cap) (pvb_source_view b) (pvb_destination_view b) = computed"
    "authority_stage (cap_authority cap) (authority_validation (rq_policy q)) (pvb_view b) (comp_truncated computed) r0
       (map (decorate (pvb_view b) q s (res_evidence r0)) (set_ranks (rank_candidates (rq_max_candidates q) (comp_candidates computed)))) = Inr cs"
    "r = conclude s q (pvb_view b) (node_id sn) (node_id dn) computed cs r0"
    "res_source_node r0 = node_id sn" "res_destination_node r0 = node_id dn"
proof -
  obtain s where s: "admit cap q = Inr s" using assms by (auto simp: compute_plan_def split: sum.splits)
  then have adm: "cap_snapshot cap = Some s" "ValidateRequest q (cap_limits cap) = None"
    by (auto simp: admit_def Let_def split: option.splits if_splits prod.splits)
  obtain sr sn dr dn where e: "ResolveEndpoint s (rq_source q) True = Inr (sr, sn)" "ResolveEndpoint s (rq_destination q) False = Inr (dr, dn)"
    using assms s by (auto simp: compute_plan_def split: sum.splits prod.splits)
  define b where "b = BuildPlanningView s q (cap_limits cap) (node_id sn) (node_id dn)"
  define r0 where "r0 = (PlanningResult_new\<lparr>res_source_endpoint := ep_id sr, res_destination_endpoint := ep_id dr,
    res_source_node := node_id sn, res_destination_node := node_id dn,
    res_evidence := (Snapshot_Evidence s)\<lparr>ev_publish_sequence := cap_sequence cap\<rparr>,
    res_requested_candidates := rq_max_candidates q, res_diagnostic_mode := (rq_mode q = Mode_kDiagnosticNonCurrent)\<rparr>)
      \<lparr>res_explanations := res_explanations PlanningResult_new @ pvb_explanations b\<rparr>"
  have fatal: "pvb_fatal b = None"
    using assms s e by (auto simp: compute_plan_def Let_def b_def split: option.splits)
  define computed where "computed = compute_candidates (pvb_view b) q (cap_limits cap) (pvb_source_view b) (pvb_destination_view b)"
  obtain cs where A: "authority_stage (cap_authority cap) (authority_validation (rq_policy q)) (pvb_view b) (comp_truncated computed) r0
       (map (decorate (pvb_view b) q s (res_evidence r0)) (set_ranks (rank_candidates (rq_max_candidates q) (comp_candidates computed)))) = Inr cs"
    and R: "r = conclude s q (pvb_view b) (node_id sn) (node_id dn) computed cs r0"
    using assms s e fatal unfolding compute_plan_def Let_def
    by (auto simp: b_def [symmetric] computed_def [symmetric] r0_def split: sum.splits)
  show thesis by (rule that [OF adm e b_def [symmetric] fatal computed_def [symmetric] A R]) (simp_all add: r0_def)
qed

lemma conclude_fields:
  "res_candidates (conclude s q v x y computed cs r) = cs" "res_source_node (conclude s q v x y computed cs r) = res_source_node r"
  "res_destination_node (conclude s q v x y computed cs r) = res_destination_node r"
  by (simp_all add: conclude_def classify_failure_def explain_def Let_def split: option.split prod.split)


lemma compute_plan_candidates:
  assumes "compute_plan cap q = Inr (r, stats)" "cap_snapshot cap = Some s" "snapshot_wf s" "length (snap_nodes s) < kInvalidIndex"
  shows "length (res_candidates r) \<le> rq_max_candidates q" "sorted (map rank_key (res_candidates r))" "ranked (res_candidates r)"
    "\<forall>c \<in> set (res_candidates r). candidate_ok s q (res_source_node r) (res_destination_node r) c \<and>
       (cand_currentness c = Cur_kCurrent \<longleftrightarrow> rq_mode q \<noteq> Mode_kDiagnosticNonCurrent \<and> require_operational_proof (rq_policy q))"
proof -
  from assms(1) obtain s' sr sn dr dn b computed r0 cs where st: "cap_snapshot cap = Some s'" "ValidateRequest q (cap_limits cap) = None"
    "ResolveEndpoint s' (rq_source q) True = Inr (sr, sn)" "ResolveEndpoint s' (rq_destination q) False = Inr (dr, dn)"
    "BuildPlanningView s' q (cap_limits cap) (node_id sn) (node_id dn) = b" "pvb_fatal b = None"
    "compute_candidates (pvb_view b) q (cap_limits cap) (pvb_source_view b) (pvb_destination_view b) = computed"
    and au: "authority_stage (cap_authority cap) (authority_validation (rq_policy q)) (pvb_view b) (comp_truncated computed) r0
       (map (decorate (pvb_view b) q s' (res_evidence r0)) (set_ranks (rank_candidates (rq_max_candidates q) (comp_candidates computed)))) = Inr cs"
    and r: "r = conclude s' q (pvb_view b) (node_id sn) (node_id dn) computed cs r0"
    and ends: "res_source_node r0 = node_id sn" "res_destination_node r0 = node_id dn"
    by (rule compute_plan_stages)
  have s: "s' = s" using st(1) assms(2) by simp
  let ?cs0 = "map (decorate (pvb_view b) q s' (res_evidence r0)) (set_ranks (rank_candidates (rq_max_candidates q) (comp_candidates computed)))"
  have ok: "build_ok s q (cap_limits cap) (node_id sn) (node_id dn) b" using st(5,6) assms(3,4) s by (simp add: build_ok_def)
  have pos: "0 < rq_max_candidates q" using st(2) by (auto simp: ValidateRequest_def split: if_splits)
  have "ranked ?cs0" using ranked_set_ranks by (simp add: ranked_def comp_def decorate_def)
  note A = authority_stage_spec [OF au this]
  have core0: "map core ?cs0 = map core (rank_candidates (rq_max_candidates q) (comp_candidates computed))"
    by (simp add: comp_def)
  have sub: "subseq (map core cs) (map core (rank_candidates (rq_max_candidates q) (comp_candidates computed)))" using A(1) core0 by simp
  have rc: "res_candidates r = cs" "res_source_node r = node_id sn" "res_destination_node r = node_id dn"
    using r ends by (simp_all add: conclude_fields)
  show "length (res_candidates r) \<le> rq_max_candidates q"
    using list_emb_length [OF sub] rank_candidates_spec(3) [of "rq_max_candidates q" "comp_candidates computed"] by (simp add: rc)
  show "ranked (res_candidates r)" using A(2) by (simp add: rc)
  have key: "map rank_key xs = map (\<lambda>(i, p, c). (cost_total c, cost_hops c, path_nodes p, map hop_link (path_hops p))) (map core xs)" for xs
    by (simp add: core_def rank_key_def)
  show "sorted (map rank_key (res_candidates r))" unfolding rc key
    using sorted_subseq [OF subseq_map [OF sub]] rank_candidates_spec(1) [of "rq_max_candidates q" "comp_candidates computed"] by (simp only: key)
  show "\<forall>c \<in> set (res_candidates r). candidate_ok s q (res_source_node r) (res_destination_node r) c \<and>
     (cand_currentness c = Cur_kCurrent \<longleftrightarrow> rq_mode q \<noteq> Mode_kDiagnosticNonCurrent \<and> require_operational_proof (rq_policy q))"
  proof (rule ballI, rule conjI)
    fix c assume "c \<in> set (res_candidates r)"
    then have c: "c \<in> set cs" by (simp add: rc)
    have "core c \<in> core ` set (rank_candidates (rq_max_candidates q) (comp_candidates computed))"
      using c set_subseq [OF sub] by (metis image_eqI image_set subsetD)
    then obtain d where "d \<in> set (comp_candidates computed)" "core c = core d"
      using rank_candidates_spec(2) [of "rq_max_candidates q" "comp_candidates computed"] by auto
    then show "candidate_ok s q (res_source_node r) (res_destination_node r) c"
      using compute_candidates_ok [OF ok pos] candidate_ok_core st(7) unfolding rc by blast
    obtain d where "d \<in> set ?cs0" "cand_currentness c = cand_currentness d" using A(3) c by blast
    then show "cand_currentness c = Cur_kCurrent \<longleftrightarrow> rq_mode q \<noteq> Mode_kDiagnosticNonCurrent \<and> require_operational_proof (rq_policy q)"
      using build_view(5) [OF ok] by (auto simp: decorate_def)
  qed
qed


section \<open>Statuses\<close>

text \<open>A status that promises candidates, and the currentness that goes with it.\<close>

definition status_honest :: "PlanningResult \<Rightarrow> bool" where
  "status_honest r \<longleftrightarrow>
     (res_status r = Status_kPlanned \<longrightarrow> res_candidates r \<noteq> [] \<and> (\<forall>c \<in> set (res_candidates r). cand_currentness c = Cur_kCurrent)) \<and>
     (res_status r = Status_kTruncatedByLimit \<longrightarrow> res_candidates r \<noteq> []) \<and>
     (res_status r = Status_kRevalidationRequired \<longrightarrow> (\<forall>c \<in> set (res_candidates r). cand_currentness c = Cur_kRevalidationRequired)) \<and>
     (res_candidates r \<noteq> [] \<longrightarrow> CarriesCandidates (res_status r)) \<and>
     (res_candidates r = [] \<longrightarrow> res_primary_failure r \<noteq> None)"

lemma StatusForFailure_range: "StatusForFailure code \<in> {Status_kConstraintUnsatisfied, Status_kResourceLimit, Status_kUnsupported, Status_kNoPath}"
  by (simp add: StatusForFailure_def)

lemma compute_plan_refused:
  assumes "compute_plan cap q = Inl r"
  shows "res_candidates r = []" "res_primary_failure r \<noteq> None" "res_status r \<notin> {Status_kPlanned, Status_kTruncatedByLimit}"
proof -
  have res: "ResolveEndpoint s e side = Inl (st, code, d) \<Longrightarrow> st \<notin> {Status_kPlanned, Status_kTruncatedByLimit}" for s e side st code d
    by (auto simp: ResolveEndpoint_def Let_def split: option.splits if_splits)
  have val: "StatusForValidationCode code \<notin> {Status_kPlanned, Status_kTruncatedByLimit}" for code
    by (simp add: StatusForValidationCode_def)
  have adm: "admit cap q = Inl r' \<Longrightarrow> res_candidates r' = [] \<and> res_primary_failure r' \<noteq> None \<and> res_status r' \<notin> {Status_kPlanned, Status_kTruncatedByLimit}" for r'
    using val by (auto simp: admit_def refuse_def explain_def PlanningResult_new_def Let_def split: option.splits if_splits prod.splits)
  have auth: "authority_stage a m v t r0 cs = Inl r' \<Longrightarrow> res_candidates r0 = [] \<Longrightarrow>
      res_candidates r' = [] \<and> res_primary_failure r' \<noteq> None \<and> res_status r' \<notin> {Status_kPlanned, Status_kTruncatedByLimit}" for a m v t r0 cs r'
    by (auto simp: authority_stage_def refuse_def explain_def Let_def split: option.splits if_splits prod.splits)
  have "res_candidates r = [] \<and> res_primary_failure r \<noteq> None \<and> res_status r \<notin> {Status_kPlanned, Status_kTruncatedByLimit}"
    using assms adm res auth unfolding compute_plan_def Let_def
    by (auto simp: refuse_def explain_def PlanningResult_new_def split: sum.splits prod.splits option.splits) 
  then show "res_candidates r = []" "res_primary_failure r \<noteq> None" "res_status r \<notin> {Status_kPlanned, Status_kTruncatedByLimit}" by auto
qed


lemma classify_failure_fields:
  "res_status (classify_failure s q v x y computed r) \<in> {Status_kConstraintUnsatisfied, Status_kResourceLimit, Status_kUnsupported, Status_kNoPath}"
  "res_primary_failure (classify_failure s q v x y computed r) \<noteq> None"
  using StatusForFailure_range
  by (auto simp: classify_failure_def explain_def Let_def split: option.split prod.split)

lemma compute_plan_honest:
  assumes "compute_plan cap q = Inr (r, stats)"
  shows "status_honest r"
proof -
  from assms obtain s sr sn dr dn b computed r0 cs where st: "cap_snapshot cap = Some s" "ValidateRequest q (cap_limits cap) = None"
    "ResolveEndpoint s (rq_source q) True = Inr (sr, sn)" "ResolveEndpoint s (rq_destination q) False = Inr (dr, dn)"
    "BuildPlanningView s q (cap_limits cap) (node_id sn) (node_id dn) = b" "pvb_fatal b = None"
    "compute_candidates (pvb_view b) q (cap_limits cap) (pvb_source_view b) (pvb_destination_view b) = computed"
    and au: "authority_stage (cap_authority cap) (authority_validation (rq_policy q)) (pvb_view b) (comp_truncated computed) r0
       (map (decorate (pvb_view b) q s (res_evidence r0)) (set_ranks (rank_candidates (rq_max_candidates q) (comp_candidates computed)))) = Inr cs"
    and r: "r = conclude s q (pvb_view b) (node_id sn) (node_id dn) computed cs r0"
    and ends: "res_source_node r0 = node_id sn" "res_destination_node r0 = node_id dn" by (rule compute_plan_stages)
  let ?cs0 = "map (decorate (pvb_view b) q s (res_evidence r0)) (set_ranks (rank_candidates (rq_max_candidates q) (comp_candidates computed)))"
  have "ranked ?cs0" using ranked_set_ranks by (simp add: ranked_def comp_def decorate_def)
  from authority_stage_spec(3) [OF au this]
  have cur: "\<forall>c \<in> set cs. cand_currentness c = (if view_provisional (pvb_view b) then Cur_kRevalidationRequired else Cur_kCurrent)"
    by (force simp: decorate_def)
  show ?thesis
  proof (cases "cs = []")
    case True
    obtain r1 where "r = (classify_failure s q (pvb_view b) (node_id sn) (node_id dn) computed r1)\<lparr>res_rejections := RejectionLog_Render (view_rejections (pvb_view b)),
        res_candidates := []\<rparr>" using r True by (auto simp: conclude_def Let_def)
    then show ?thesis using classify_failure_fields [of s q "pvb_view b" "node_id sn" "node_id dn" computed r1]
      by (auto simp: status_honest_def)
  next
    case False
    then show ?thesis using cur by (auto simp: r conclude_def Let_def status_honest_def explain_def CarriesCandidates_def)
  qed
qed

end
