(* ===== verification/Runtime.thy ===== *)
theory Runtime
  imports Planner "HOL-Library.Char_ord"
begin

text \<open>
  The planner runtime (\<open>PlannerRuntime\<close> of \<open>include/pathplanner/planner.hpp\<close> and \<open>src/planner.cpp\<close>): its
  state, the operations that change it, currentness checks and replanning.

  Hash maps are association lists; where the code iterates over one it sorts the keys it collects, so
  no order of iteration is observable.  \<open>Plan\<close> holds the mutex in three separate sections (capture,
  pre-publication check, publication); each is a function of its own, \<open>Plan\<close> is their composition
  without interference and \<open>Plan_interleaved\<close> lets other critical sections run in between.
\<close>

record RetainedPlan =
  rt_plan :: PathPlan
  rt_currentness :: Currentness

record RequestGeneration =
  rg_digest :: Sha256Digest
  rg_generation :: u64

record Runtime =
  run_limits :: ResourceLimits
  run_snapshot :: "FabricSnapshot option"
  run_authority :: "PathAuthority option"
  run_sequence :: u64
  run_epoch :: Generation
  run_stats :: PlannerStatistics
  run_retained :: "(string \<times> RetainedPlan) list"
  run_order :: "PathPlanId list"
  run_subject_index :: "(string \<times> string list) list"
  run_generations :: "(string \<times> RequestGeneration) list"
  run_generation_order :: "string list"
  run_reverse_entries :: nat
  run_index_complete :: bool

definition PlanKey :: "PathPlanId \<Rightarrow> string" where "PlanKey x = FixedId_ToString x"

definition PlannerRuntime_new :: "ResourceLimits \<Rightarrow> FabricSnapshot option \<Rightarrow> PathAuthority option \<Rightarrow> Runtime" where
  "PlannerRuntime_new limits initial_snapshot authority =
     \<lparr>run_limits = limits, run_snapshot = initial_snapshot, run_authority = authority, run_sequence = 0,
      run_epoch = (case initial_snapshot of None \<Rightarrow> 0 | Some s \<Rightarrow> gen_epoch (snap_generations s)),
      run_stats = PlannerStatistics_zero, run_retained = [], run_order = [], run_subject_index = [], run_generations = [],
      run_generation_order = [], run_reverse_entries = 0, run_index_complete = True\<rparr>"

definition PublishSnapshot :: "FabricSnapshot option \<Rightarrow> Runtime \<Rightarrow> Runtime" where
  "PublishSnapshot snapshot rt =
     rt\<lparr>run_snapshot := snapshot, run_sequence := run_sequence rt + 1,
        run_stats := (run_stats rt)\<lparr>snapshots_published := snapshots_published (run_stats rt) + 1\<rparr>,
        run_epoch := (case snapshot of None \<Rightarrow> run_epoch rt | Some s \<Rightarrow> gen_epoch (snap_generations s))\<rparr>"

definition ResetStats :: "Runtime \<Rightarrow> Runtime" where
  "ResetStats rt = rt\<lparr>run_stats := PlannerStatistics_zero\<rparr>"

section \<open>The reverse index\<close>

definition index_entries :: "Runtime \<Rightarrow> string \<Rightarrow> string list" where
  "index_entries rt text = (case map_of (run_subject_index rt) text of None \<Rightarrow> [] | Some es \<Rightarrow> es)"

fun index_subjects :: "string \<Rightarrow> SubjectKey list \<Rightarrow> Runtime \<Rightarrow> Runtime" where
  "index_subjects key [] rt = rt"
| "index_subjects key (subject # subjects) rt =
     (if run_reverse_entries rt \<ge> max_reverse_dependency_entries (run_limits rt) then rt\<lparr>run_index_complete := False\<rparr>
      else let text = SubjectKey_ToString subject in
        index_subjects key subjects (rt\<lparr>run_subject_index := AList.update text (index_entries rt text @ [key]) (run_subject_index rt),
          run_reverse_entries := run_reverse_entries rt + 1\<rparr>))"

definition IndexPlan :: "PathPlan \<Rightarrow> Runtime \<Rightarrow> Runtime" where
  "IndexPlan plan rt = index_subjects (PlanKey (plan_id plan)) (dep_subjects (CollectPlanDependencies plan)) rt"

definition unindex_subject :: "string \<Rightarrow> SubjectKey \<Rightarrow> Runtime \<Rightarrow> Runtime" where
  "unindex_subject key subject rt =
     (let text = SubjectKey_ToString subject in
      case map_of (run_subject_index rt) text of
        None \<Rightarrow> rt
      | Some entries \<Rightarrow>
          let kept = filter (\<lambda>k. k \<noteq> key) entries; removed = length entries - length kept in
          rt\<lparr>run_reverse_entries := (if removed > run_reverse_entries rt then 0 else run_reverse_entries rt - removed),
             run_subject_index := (if kept = [] then AList.delete text (run_subject_index rt)
               else AList.update text kept (run_subject_index rt))\<rparr>)"

definition UnindexPlan :: "PathPlan \<Rightarrow> Runtime \<Rightarrow> Runtime" where
  "UnindexPlan plan rt = fold (unindex_subject (PlanKey (plan_id plan))) (dep_subjects (CollectPlanDependencies plan)) rt"

section \<open>Generations of a request\<close>

definition NextGeneration :: "PlanningRequestId \<Rightarrow> Sha256Digest \<Rightarrow> Runtime \<Rightarrow> u64 \<times> Runtime" where
  "NextGeneration request digest rt =
     (let key = FixedId_ToString request in
      case map_of (run_generations rt) key of
        Some g \<Rightarrow>
          if rg_digest g = digest then (rg_generation g, rt)
          else let next = (case CheckedAdd CostValue_Max (rg_generation g) 1 of None \<Rightarrow> rg_generation g | Some n \<Rightarrow> n)
               in (next, rt\<lparr>run_generations := AList.update key \<lparr>rg_digest = digest, rg_generation = next\<rparr> (run_generations rt)\<rparr>)
      | None \<Rightarrow>
          let order = run_generation_order rt @ [key];
              excess = length order - max_retained_plans (run_limits rt)
          in (1, rt\<lparr>run_generations := fold AList.delete (take excess order)
                (AList.update key \<lparr>rg_digest = digest, rg_generation = 1\<rparr> (run_generations rt)),
              run_generation_order := drop excess order\<rparr>))"

section \<open>Planning\<close>

definition capture :: "Runtime \<Rightarrow> Captured" where
  "capture rt = \<lparr>cap_limits = run_limits rt, cap_snapshot = run_snapshot rt, cap_sequence = run_sequence rt,
     cap_epoch = run_epoch rt, cap_authority = run_authority rt\<rparr>"

definition plan_begin :: "Runtime \<Rightarrow> Captured \<times> Runtime" where
  "plan_begin rt = (capture rt, rt\<lparr>run_stats := (run_stats rt)\<lparr>plans_computed := plans_computed (run_stats rt) + 1\<rparr>\<rparr>)"

text \<open>The pre-publication check, and what it does to the result.\<close>

definition watermark_changed :: "Captured \<Rightarrow> Runtime \<Rightarrow> bool" where
  "watermark_changed cap rt \<longleftrightarrow> run_sequence rt \<noteq> cap_sequence cap \<or>
     (case (run_snapshot rt, cap_snapshot cap) of (Some s, Some c) \<Rightarrow> Snapshot_Id s \<noteq> Snapshot_Id c | _ \<Rightarrow> False)"

definition plan_check :: "Captured \<Rightarrow> Runtime \<Rightarrow> PlanningResult \<times> PlannerStatistics \<Rightarrow> PlanningResult \<times> PlannerStatistics" where
  "plan_check cap rt = (\<lambda>(r, stats).
     if watermark_changed cap rt
     then (explain DC_kInvalidationWatermarkChanged
            ''the publication watermark changed while the plan was being computed; the result is not CURRENT''
            (r\<lparr>res_candidates := map (\<lambda>c. c\<lparr>cand_currentness := Cur_kRevalidationRequired\<rparr>) (res_candidates r),
               res_status := Status_kRevalidationRequired\<rparr>),
          stats\<lparr>plans_publish_rejected_stale := plans_publish_rejected_stale stats + 1\<rparr>)
     else (r, stats))"

definition MergeStats :: "PlannerStatistics \<Rightarrow> PlannerStatistics \<Rightarrow> PlannerStatistics" where
  "MergeStats t s =
     \<lparr>plans_computed = plans_computed t + plans_computed s, plans_published = plans_published t + plans_published s,
      plans_publish_rejected_stale = plans_publish_rejected_stale t + plans_publish_rejected_stale s,
      candidates_returned = candidates_returned t + candidates_returned s, states_expanded = states_expanded t + states_expanded s,
      queue_pushes = queue_pushes t + queue_pushes s, spur_searches = spur_searches t + spur_searches s,
      snapshots_published = snapshots_published t + snapshots_published s, epochs_advanced = epochs_advanced t + epochs_advanced s,
      invalidations_applied = invalidations_applied t + invalidations_applied s, plans_retired = plans_retired t + plans_retired s\<rparr>"

definition plan_publish :: "Captured \<Rightarrow> PlanningRequest \<Rightarrow> PlanningResult \<times> PlannerStatistics \<Rightarrow> Runtime \<Rightarrow> PlanningResult \<times> Runtime" where
  "plan_publish cap request = (\<lambda>(r, stats) rt.
     let provisional = MakePathPlan request r (cap_sequence cap);
         (generation, rt) = NextGeneration (rq_id request) (plan_semantic_digest provisional) rt;
         r = r\<lparr>res_semantic_digest := plan_semantic_digest provisional, res_plan_id := plan_id provisional,
               res_planning_generation := generation,
               res_candidates := map (\<lambda>c. c\<lparr>cand_provenance := (cand_provenance c)\<lparr>prov_planning_generation := generation\<rparr>\<rparr>)
                 (res_candidates r)\<rparr>;
         stats = stats\<lparr>plans_published := plans_published stats + 1,
           candidates_returned := candidates_returned stats + of_nat (length (res_candidates r))\<rparr>
     in (r, rt\<lparr>run_stats := MergeStats (run_stats rt) stats\<rparr>))"

text \<open>Other threads run \<open>before_check\<close> and \<open>before_publish\<close> while the mutex is free.\<close>

definition Plan_interleaved :: "(Runtime \<Rightarrow> Runtime) \<Rightarrow> (Runtime \<Rightarrow> Runtime) \<Rightarrow> PlanningRequest \<Rightarrow> Runtime \<Rightarrow> PlanningResult \<times> Runtime" where
  "Plan_interleaved before_check before_publish request rt =
     (let (cap, rt) = plan_begin rt in
      case compute_plan cap request of
        Inl r \<Rightarrow> (r, rt)
      | Inr computed \<Rightarrow>
          let rt = before_check rt; checked = plan_check cap rt computed
          in plan_publish cap request checked (before_publish rt))"

definition Plan :: "PlanningRequest \<Rightarrow> Runtime \<Rightarrow> PlanningResult \<times> Runtime" where
  "Plan request rt =
     (let (cap, rt) = plan_begin rt in
      case compute_plan cap request of
        Inl r \<Rightarrow> (r, rt)
      | Inr computed \<Rightarrow> plan_publish cap request (plan_check cap rt computed) rt)"

section \<open>Retention\<close>

fun evict :: "nat \<Rightarrow> PathPlanId list \<Rightarrow> Runtime \<Rightarrow> Runtime" where
  "evict limit [] rt = rt\<lparr>run_order := []\<rparr>"
| "evict limit (victim # order) rt =
     (if \<not> length (run_retained rt) \<ge> limit then rt\<lparr>run_order := victim # order\<rparr>
      else case map_of (run_retained rt) (PlanKey victim) of
        None \<Rightarrow> evict limit order rt
      | Some entry \<Rightarrow>
          let rt = UnindexPlan (rt_plan entry) rt in
          evict limit order (rt\<lparr>run_retained := AList.delete (PlanKey victim) (run_retained rt),
            run_stats := (run_stats rt)\<lparr>plans_retired := plans_retired (run_stats rt) + 1\<rparr>\<rparr>))"

definition Retain :: "PathPlan \<Rightarrow> Runtime \<Rightarrow> bool \<times> Runtime" where
  "Retain plan rt =
     (if \<not> FixedId_IsValid (plan_id plan) then (False, rt)
      else let key = PlanKey (plan_id plan);
               initial = (if plan_currentness_proven plan then Cur_kCurrent else Cur_kRevalidationRequired);
               entry = \<lparr>rt_plan = plan, rt_currentness = initial\<rparr>
      in case map_of (run_retained rt) key of
           Some _ \<Rightarrow> (True, rt\<lparr>run_retained := AList.update key entry (run_retained rt)\<rparr>)
         | None \<Rightarrow>
             let rt = evict (max_retained_plans (run_limits rt)) (run_order rt) rt;
                 rt = IndexPlan plan rt
             in (True, rt\<lparr>run_retained := AList.update key entry (run_retained rt), run_order := run_order rt @ [plan_id plan]\<rparr>))"

definition FindPlan :: "PathPlanId \<Rightarrow> Runtime \<Rightarrow> PathPlan option" where
  "FindPlan x rt = map_option rt_plan (map_of (run_retained rt) (PlanKey x))"

definition RetainedPlanCount :: "Runtime \<Rightarrow> nat" where
  "RetainedPlanCount rt = length (run_retained rt)"

section \<open>Invalidation\<close>

record InvalidationNotice =
  inv_nodes :: "NodeId list"
  inv_links :: "LinkId list"
  inv_ports :: "PortId list"
  inv_capabilities :: "CapabilityId list"
  inv_failure_domains :: "FailureDomainId list"
  inv_conservative_all :: bool

record InvalidationReport =
  irep_affected :: "PathPlanId list"
  irep_marked :: "PathPlanId list"
  irep_retired :: "PathPlanId list"
  irep_conservative :: bool
  irep_retained_plans :: nat

definition SubjectStillPresent :: "FabricSnapshot \<Rightarrow> SubjectKey \<Rightarrow> bool" where
  "SubjectStillPresent snapshot subject =
     (case AsNode subject of
        Some node \<Rightarrow> FindNode snapshot node \<noteq> None
      | None \<Rightarrow> (case AsLink subject of
        Some link \<Rightarrow> FindEdge snapshot link \<noteq> None
      | None \<Rightarrow> (case AsPort subject of
        Some port \<Rightarrow> list_ex (\<lambda>n. binary_search (node_ports n) port) (snap_nodes snapshot)
      | None \<Rightarrow> False)))"

definition notice_subjects :: "InvalidationNotice \<Rightarrow> SubjectKey list" where
  "notice_subjects notice = map ForNode (inv_nodes notice) @ map ForLink (inv_links notice) @ map ForPort (inv_ports notice)"

definition plan_gone :: "FabricSnapshot option \<Rightarrow> PathPlan \<Rightarrow> bool" where
  "plan_gone snapshot plan =
     (case snapshot of
        None \<Rightarrow> False
      | Some s \<Rightarrow> list_ex (\<lambda>subject. \<not> SubjectStillPresent s subject) (dep_subjects (CollectPlanDependencies plan)))"

definition invalidate_key :: "string \<Rightarrow> Runtime \<times> InvalidationReport \<Rightarrow> Runtime \<times> InvalidationReport" where
  "invalidate_key key = (\<lambda>(rt, report).
     case map_of (run_retained rt) key of
       None \<Rightarrow> (rt, report)
     | Some entry \<Rightarrow>
         let retired = plan_gone (run_snapshot rt) (rt_plan entry); x = plan_id (rt_plan entry);
             entry = entry\<lparr>rt_currentness := (if retired then Cur_kRetired else Cur_kRevalidationRequired)\<rparr>;
             rt = rt\<lparr>run_retained := AList.update key entry (run_retained rt)\<rparr>;
             report = report\<lparr>irep_affected := irep_affected report @ [x]\<rparr>
         in if retired
            then (rt\<lparr>run_stats := (run_stats rt)\<lparr>plans_retired := plans_retired (run_stats rt) + 1\<rparr>\<rparr>,
                  report\<lparr>irep_retired := irep_retired report @ [x]\<rparr>)
            else (rt, report\<lparr>irep_marked := irep_marked report @ [x]\<rparr>))"

definition conservative_notice :: "InvalidationNotice \<Rightarrow> Runtime \<Rightarrow> bool" where
  "conservative_notice notice rt \<longleftrightarrow> inv_conservative_all notice \<or> inv_capabilities notice \<noteq> [] \<or>
     inv_failure_domains notice \<noteq> [] \<or> \<not> run_index_complete rt"

definition affected_keys :: "InvalidationNotice \<Rightarrow> Runtime \<Rightarrow> string list" where
  "affected_keys notice rt =
     unique_by (=) (sort (if conservative_notice notice rt then map fst (run_retained rt)
       else concat (map (\<lambda>s. index_entries rt (SubjectKey_ToString s)) (notice_subjects notice))))"

definition ApplyInvalidation :: "InvalidationNotice \<Rightarrow> Runtime \<Rightarrow> InvalidationReport \<times> Runtime" where
  "ApplyInvalidation notice rt =
     (let rt = rt\<lparr>run_stats := (run_stats rt)\<lparr>invalidations_applied := invalidations_applied (run_stats rt) + 1\<rparr>,
                  run_sequence := run_sequence rt + 1\<rparr>;
          report = \<lparr>irep_affected = [], irep_marked = [], irep_retired = [],
            irep_conservative = (inv_conservative_all notice \<or> conservative_notice notice rt), irep_retained_plans = 0\<rparr>;
          (rt, report) = fold invalidate_key (affected_keys notice rt) (rt, report)
      in (report\<lparr>irep_retained_plans := length (run_retained rt)\<rparr>, rt))"

section \<open>Epochs\<close>

definition AdvanceEpoch :: "Generation \<Rightarrow> bool \<Rightarrow> Runtime \<Rightarrow> (bool \<times> string) \<times> Runtime" where
  "AdvanceEpoch epoch conservative_recovery rt =
     (if epoch \<le> run_epoch rt
      then ((False, ''epoch '' @ StrongUInt_ToString epoch @ '' is not greater than the current epoch '' @ StrongUInt_ToString (run_epoch rt)), rt)
      else let rt = rt\<lparr>run_epoch := epoch, run_sequence := run_sequence rt + 1,
                 run_stats := (run_stats rt)\<lparr>epochs_advanced := epochs_advanced (run_stats rt) + 1\<rparr>\<rparr>
      in if conservative_recovery
         then ((True, ''epoch advanced to '' @ StrongUInt_ToString epoch @
                  '' with conservative recovery: every retained plan requires revalidation''),
               rt\<lparr>run_retained := map (\<lambda>(k, e). (k, e\<lparr>rt_currentness := Cur_kRevalidationRequired\<rparr>)) (run_retained rt)\<rparr>)
         else ((True, ''epoch advanced to '' @ StrongUInt_ToString epoch), rt))"

section \<open>Currentness and replanning\<close>

definition current_evidence :: "Runtime \<Rightarrow> EvidenceVector" where
  "current_evidence rt =
     (case run_snapshot rt of None \<Rightarrow> EvidenceVector_new | Some s \<Rightarrow> Snapshot_Evidence s)\<lparr>ev_publish_sequence := run_sequence rt\<rparr>"

definition report_change :: "Currentness \<Rightarrow> DiagnosticCode \<Rightarrow> string \<Rightarrow> PlanCurrentnessReport \<Rightarrow> PlanCurrentnessReport" where
  "report_change currentness code detail report = report\<lparr>rep_currentness := currentness,
     rep_changes := rep_changes report @ [\<lparr>expl_code = code, expl_detail = detail\<rparr>]\<rparr>"

definition CheckCurrentness :: "PathPlan \<Rightarrow> Runtime \<Rightarrow> PlanCurrentnessReport" where
  "CheckCurrentness plan rt =
     (let now = current_evidence rt;
          report = \<lparr>rep_currentness = Cur_kCurrent, rep_changes = [], rep_prior_evidence = plan_evidence plan, rep_current_evidence = now\<rparr>;
          report = (if plan_diagnostic_mode plan
            then report_change Cur_kRevalidationRequired DC_kNonCurrentCandidate
              ''the plan was computed in diagnostic mode and is not CURRENT'' report else report)
      in case run_snapshot rt of
        None \<Rightarrow> report_change (MoreSevere (rep_currentness report) Cur_kRevalidationRequired) DC_kSnapshotNotAvailable
          ''no fabric snapshot is currently published'' report
      | Some snapshot \<Rightarrow>
        (case List.find (\<lambda>s. \<not> SubjectStillPresent snapshot s) (dep_subjects (CollectPlanDependencies plan)) of
           Some subject \<Rightarrow> report_change Cur_kRetired DC_kPlanRetired (''dependency no longer exists: '' @ SubjectKey_ToString subject) report
         | None \<Rightarrow>
           let retained = map_option rt_currentness (map_of (run_retained rt) (PlanKey (plan_id plan))) in
           if retained = Some Cur_kRetired
           then report_change Cur_kRetired DC_kPlanRetired ''the retained plan was invalidated by subject removal'' report
           else let report = (if retained = Some Cur_kRevalidationRequired
                  then report_change (MoreSevere (rep_currentness report) Cur_kRevalidationRequired) DC_kStaleEvidence
                    ''the retained plan was invalidated by a targeted notice'' report else report);
                report = report\<lparr>rep_changes := rep_changes report @ DiffEvidence (plan_evidence plan) now\<rparr>;
                classified = ClassifyEvidence (plan_evidence plan) now
           in if classified \<noteq> Cur_kCurrent then report\<lparr>rep_currentness := MoreSevere (rep_currentness report) classified\<rparr>
              else if ev_publish_sequence (plan_evidence plan) \<noteq> ev_publish_sequence now \<and> rep_currentness report = Cur_kCurrent
              then report\<lparr>rep_currentness := Cur_kRevalidationRequired\<rparr> else report))"

definition replan_report :: "PathPlan \<Rightarrow> PlanningResult \<Rightarrow> bool \<times> ReplanReport" where
  "replan_report prior result =
     (let same = (\<not> IsZero (plan_semantic_digest prior) \<and> plan_semantic_digest prior = res_semantic_digest result);
          report = \<lambda>outcome. \<lparr>replan_outcome = outcome, replan_changes = DiffEvidence (plan_evidence prior) (res_evidence result),
            replan_prior_digest = plan_semantic_digest prior, replan_current_digest = res_semantic_digest result,
            replan_same_semantic_plan = same\<rparr>;
          prior_ids = map cand_id (plan_candidates prior); current_ids = map cand_id (res_candidates result)
      in if res_status result = Status_kMalformedRequest \<or> res_status result = Status_kUnauthorized then (False, report Replan_kNoPath)
         else if res_status result = Status_kRevalidationRequired then (True, report Replan_kRevalidationRequired)
         else if res_candidates result = [] then (True, report Replan_kNoPath)
         else if same then (True, report Replan_kUnchanged)
         else if prior_ids = current_ids then (True, report Replan_kUnchanged)
         else if sort prior_ids = sort current_ids then (True, report Replan_kOrderingChanged)
         else (True, report Replan_kCandidateSetChanged))"

definition Replan :: "PathPlan \<Rightarrow> PlanningRequest \<Rightarrow> Runtime \<Rightarrow> ((bool \<times> ReplanReport) \<times> PlanningResult) \<times> Runtime" where
  "Replan prior request rt = (let (result, rt) = Plan request rt in ((replan_report prior result, result), rt))"

end
