(* ===== verification/RuntimeCorrect.thy ===== *)
theory RuntimeCorrect
  imports Runtime ViewCorrect
begin

text \<open>
  Correctness of the planner runtime: the invariant of its retained plans, reverse index and generation
  table over every reachable state, what a notice invalidates, what the publication check catches, and
  when a plan is reported current.

  The reachable states are those of an \<open>inductive\<close> predicate over the critical sections of the runtime; the
  argument about the 64-bit watermark is made once in the locale \<open>watermark\<close>, interpreted on them.
\<close>

section \<open>Texts of subjects\<close>

lemma SubjectKey_ToString_inj: "SubjectKey_ToString a = SubjectKey_ToString b \<longleftrightarrow> a = b"
proof (cases a; cases b)
  fix k x l y assume ab: "a = SubjectKey k x" "b = SubjectKey l y"
  show ?thesis
    using HexEncode_inj [of x y] by (cases k; cases l) (auto simp: ab SubjectKey_ToString_def kSubjectKindNames_def EnumName_def)
qed

definition texts :: "PathPlan \<Rightarrow> string set" where
  "texts p = SubjectKey_ToString ` set (dep_subjects (CollectPlanDependencies p))"

text \<open>What the reads of an association list see after an update or a deletion.\<close>

lemma map_of_update [simp]: "map_of (AList.update k v xs) = (map_of xs)(k \<mapsto> v)"
  by (rule update_conv')

lemma map_of_delete [simp]: "map_of (AList.delete k xs) = (map_of xs)(k := None)"
  by (rule delete_conv')

lemma update_fresh: "k \<notin> fst ` set xs \<Longrightarrow> AList.update k v xs = xs @ [(k, v)]"
  by (induction xs) auto

lemma length_update: "k \<in> fst ` set xs \<Longrightarrow> length (AList.update k v xs) = length xs"
  by (induction xs) auto

definition same_store :: "Runtime \<Rightarrow> Runtime \<Rightarrow> bool" where
  "same_store a b \<longleftrightarrow> run_retained a = run_retained b \<and> run_order a = run_order b \<and> run_limits a = run_limits b \<and>
     run_snapshot a = run_snapshot b \<and> run_sequence a = run_sequence b \<and> run_epoch a = run_epoch b"

lemma index_entries_update:
  "index_entries (rt\<lparr>run_subject_index := AList.update t es (run_subject_index rt), run_reverse_entries := n\<rparr>) t' =
    (if t' = t then es else index_entries rt t')"
  by (simp add: index_entries_def)

lemma unindex_subject_spec:
  "index_entries (unindex_subject key s rt) t =
     (if t = SubjectKey_ToString s then filter (\<lambda>k. k \<noteq> key) (index_entries rt t) else index_entries rt t)"
  "same_store (unindex_subject key s rt) rt" "run_index_complete (unindex_subject key s rt) = run_index_complete rt"
  by (auto simp: unindex_subject_def index_entries_def same_store_def Let_def split: option.splits)

lemma UnindexPlan_spec:
  "index_entries (UnindexPlan p rt) t =
     (if t \<in> texts p then filter (\<lambda>k. k \<noteq> PlanKey (plan_id p)) (index_entries rt t) else index_entries rt t)"
  "same_store (UnindexPlan p rt) rt" "run_index_complete (UnindexPlan p rt) = run_index_complete rt"
proof -
  let ?key = "PlanKey (plan_id p)"
  have "index_entries (fold (unindex_subject ?key) ss rt) t =
      (if t \<in> SubjectKey_ToString ` set ss then filter (\<lambda>k. k \<noteq> ?key) (index_entries rt t) else index_entries rt t) \<and>
    same_store (fold (unindex_subject ?key) ss rt) rt \<and> run_index_complete (fold (unindex_subject ?key) ss rt) = run_index_complete rt" for ss
  proof (induction ss arbitrary: rt)
    case (Cons s ss)
    show ?case using Cons [of "unindex_subject ?key s rt"] unindex_subject_spec [of ?key s rt]
      by (auto simp: same_store_def)
  qed (simp add: same_store_def)
  then show "index_entries (UnindexPlan p rt) t =
     (if t \<in> texts p then filter (\<lambda>k. k \<noteq> PlanKey (plan_id p)) (index_entries rt t) else index_entries rt t)"
    "same_store (UnindexPlan p rt) rt" "run_index_complete (UnindexPlan p rt) = run_index_complete rt"
    by (simp_all add: UnindexPlan_def texts_def)
qed

lemma index_subjects_spec:
  "set (index_entries rt t) \<subseteq> set (index_entries (index_subjects key ss rt) t) \<and>
   set (index_entries (index_subjects key ss rt) t) \<subseteq>
     set (index_entries rt t) \<union> (if t \<in> SubjectKey_ToString ` set ss then {key} else {}) \<and>
   (run_index_complete (index_subjects key ss rt) \<longrightarrow> run_index_complete rt \<and>
     (t \<in> SubjectKey_ToString ` set ss \<longrightarrow> key \<in> set (index_entries (index_subjects key ss rt) t))) \<and>
   same_store (index_subjects key ss rt) rt"
proof (induction ss arbitrary: rt)
  case Nil
  then show ?case by (simp add: same_store_def)
next
  case (Cons s ss)
  show ?case
  proof (cases "run_reverse_entries rt \<ge> max_reverse_dependency_entries (run_limits rt)")
    case True
    then show ?thesis by (auto simp: same_store_def index_entries_def)
  next
    case False
    let ?x = "SubjectKey_ToString s"
    let ?rt = "rt\<lparr>run_subject_index := AList.update ?x (index_entries rt ?x @ [key]) (run_subject_index rt),
      run_reverse_entries := run_reverse_entries rt + 1\<rparr>"
    have eq: "index_subjects key (s # ss) rt = index_subjects key ss ?rt" using False by (simp add: Let_def)
    have ie: "index_entries ?rt t = (if t = ?x then index_entries rt t @ [key] else index_entries rt t)"
      by (simp add: index_entries_def)
    have st: "same_store ?rt rt" "run_index_complete ?rt = run_index_complete rt" by (simp_all add: same_store_def)
    show ?thesis unfolding eq using Cons.IH [of ?rt] ie st by (auto simp: same_store_def split: if_splits)
  qed
qed

section \<open>The invariant of the store\<close>

definition store_ok :: "Runtime \<Rightarrow> PathPlanId list \<Rightarrow> bool" where
  "store_ok rt order \<longleftrightarrow> distinct (map fst (run_retained rt)) \<and>
     (\<forall>k e. map_of (run_retained rt) k = Some e \<longrightarrow> k = PlanKey (plan_id (rt_plan e))) \<and>
     distinct (map PlanKey order) \<and> PlanKey ` set order = fst ` set (run_retained rt) \<and>
     (\<forall>t k. k \<in> set (index_entries rt t) \<longrightarrow> (\<exists>e. map_of (run_retained rt) k = Some e \<and> t \<in> texts (rt_plan e))) \<and>
     (run_index_complete rt \<longrightarrow>
        (\<forall>k e t. map_of (run_retained rt) k = Some e \<and> t \<in> texts (rt_plan e) \<longrightarrow> k \<in> set (index_entries rt t)))"

definition runtime_ok :: "Runtime \<Rightarrow> bool" where
  "runtime_ok rt \<longleftrightarrow> store_ok rt (run_order rt) \<and> length (run_retained rt) \<le> max 1 (max_retained_plans (run_limits rt))"

lemma store_okD:
  assumes "store_ok rt order"
  shows "distinct (map fst (run_retained rt))" "map_of (run_retained rt) k = Some e \<Longrightarrow> k = PlanKey (plan_id (rt_plan e))"
    "distinct (map PlanKey order)" "PlanKey ` set order = fst ` set (run_retained rt)"
    "k \<in> set (index_entries rt t) \<Longrightarrow> \<exists>e. map_of (run_retained rt) k = Some e \<and> t \<in> texts (rt_plan e)"
    "run_index_complete rt \<Longrightarrow> map_of (run_retained rt) k = Some e \<Longrightarrow> t \<in> texts (rt_plan e) \<Longrightarrow> k \<in> set (index_entries rt t)"
  using assms unfolding store_ok_def by blast+

text \<open>The invariant reads four parts of the state.\<close>

lemma store_ok_cong:
  assumes "run_retained a = run_retained b" "run_subject_index a = run_subject_index b" "run_index_complete a = run_index_complete b"
  shows "store_ok a order = store_ok b order"
  using assms by (simp add: store_ok_def index_entries_def)

lemma evict_step:
  assumes "store_ok rt (victim # order)" "map_of (run_retained rt) (PlanKey victim) = Some e"
  defines "u \<equiv> UnindexPlan (rt_plan e) rt"
  shows "store_ok (u\<lparr>run_retained := AList.delete (PlanKey victim) (run_retained u), run_stats := st\<rparr>) order"
proof -
  let ?k = "PlanKey victim" and ?rt = "u\<lparr>run_retained := AList.delete (PlanKey victim) (run_retained u), run_stats := st\<rparr>"
  note D = store_okD [OF assms(1)]
  have ret: "run_retained u = run_retained rt" using UnindexPlan_spec(2) [of "rt_plan e" rt] by (simp add: same_store_def u_def)
  have key: "PlanKey (plan_id (rt_plan e)) = ?k" using D(2) [OF assms(2)] by simp
  have ie: "index_entries ?rt t = (if t \<in> texts (rt_plan e) then filter (\<lambda>k. k \<noteq> ?k) (index_entries rt t) else index_entries rt t)" for t
    using UnindexPlan_spec(1) [of "rt_plan e" rt t] key by (simp add: index_entries_def u_def)
  have gone: "k \<noteq> ?k" if k: "k \<in> set (index_entries ?rt t)" for k t
  proof
    assume eq: "k = ?k"
    have "k \<in> set (index_entries rt t)" using k by (auto simp: ie split: if_splits)
    from D(5) [OF this] have "t \<in> texts (rt_plan e)" using assms(2) eq by simp
    then show False using k eq by (simp add: ie)
  qed
  have mo: "map_of (run_retained ?rt) = (map_of (run_retained rt))(?k := None)" by (simp add: ret)
  have dom: "fst ` set (AList.delete ?k (run_retained rt)) = fst ` set (run_retained rt) - {?k}" by (auto simp: AList.delete_eq)
  have notin: "?k \<notin> PlanKey ` set order" using D(3) by auto
  show ?thesis unfolding store_ok_def
  proof (intro conjI allI impI)
    show "distinct (map fst (run_retained ?rt))" using D(1) by (simp add: ret distinct_delete)
    show "distinct (map PlanKey order)" using D(3) by simp
    show "PlanKey ` set order = fst ` set (run_retained ?rt)" using D(4) notin by (simp add: ret dom) blast
    show "k = PlanKey (plan_id (rt_plan x))" if "map_of (run_retained ?rt) k = Some x" for k x
      using that D(2) [of k x] unfolding mo by (simp split: if_splits)
    show "\<exists>x. map_of (run_retained ?rt) k = Some x \<and> t \<in> texts (rt_plan x)" if k: "k \<in> set (index_entries ?rt t)" for t k
    proof -
      have "k \<in> set (index_entries rt t)" using k by (auto simp: ie split: if_splits)
      then show ?thesis unfolding mo using D(5) [of k t] gone [OF k] by simp
    qed
    show "k \<in> set (index_entries ?rt t)"
      if "run_index_complete ?rt" "map_of (run_retained ?rt) k = Some x \<and> t \<in> texts (rt_plan x)" for k x t
    proof -
      have "run_index_complete rt" using that(1) UnindexPlan_spec(3) [of "rt_plan e" rt] by (simp add: u_def)
      then show ?thesis using that(2) D(6) [of k x t] unfolding mo ie by (simp split: if_splits)
    qed
  qed
qed

lemma evict_spec:
  "store_ok rt order \<Longrightarrow> store_ok (evict limit order rt) (run_order (evict limit order rt)) \<and>
     (length (run_retained (evict limit order rt)) < limit \<or> run_retained (evict limit order rt) = []) \<and>
     run_limits (evict limit order rt) = run_limits rt \<and> run_snapshot (evict limit order rt) = run_snapshot rt \<and>
     run_sequence (evict limit order rt) = run_sequence rt \<and>
     fst ` set (run_retained (evict limit order rt)) \<subseteq> fst ` set (run_retained rt)"
proof (induction order arbitrary: rt)
  case Nil
  then have "run_retained rt = []" using store_okD(4) [OF Nil] by simp
  then show ?case using Nil by (simp add: store_ok_cong [of "rt\<lparr>run_order := []\<rparr>" rt])
next
  case (Cons v order)
  show ?case
  proof (cases "length (run_retained rt) \<ge> limit")
    case False
    then show ?thesis using Cons.prems by (simp add: store_ok_cong [of "rt\<lparr>run_order := v # order\<rparr>" rt])
  next
    case True
    have "PlanKey v \<in> fst ` set (run_retained rt)" using store_okD(4) [OF Cons.prems] by auto
    then obtain e where e: "map_of (run_retained rt) (PlanKey v) = Some e" by (metis map_of_eq_None_iff not_None_eq)
    define u where "u = UnindexPlan (rt_plan e) rt"
    define rt' where "rt' = u\<lparr>run_retained := AList.delete (PlanKey v) (run_retained u),
      run_stats := (run_stats u)\<lparr>plans_retired := plans_retired (run_stats u) + 1\<rparr>\<rparr>"
    have eq: "evict limit (v # order) rt = evict limit order rt'" using True e by (simp add: Let_def u_def rt'_def)
    have same: "same_store u rt" unfolding u_def by (rule UnindexPlan_spec(2))
    have sub: "fst ` set (run_retained rt') \<subseteq> fst ` set (run_retained rt)" using same by (auto simp: rt'_def same_store_def AList.delete_eq)
    have lims: "run_limits rt' = run_limits rt" "run_snapshot rt' = run_snapshot rt" "run_sequence rt' = run_sequence rt"
      using same by (simp_all add: rt'_def same_store_def)
    have "store_ok rt' order" unfolding rt'_def u_def by (rule evict_step [OF Cons.prems e])
    note IH = Cons.IH [OF this]
    then have "fst ` set (run_retained (evict limit order rt')) \<subseteq> fst ` set (run_retained rt)" using sub by blast
    then show ?thesis unfolding eq using IH lims by simp
  qed
qed

text \<open>Eviction removes the oldest plans first, and no more than it must.\<close>

lemma store_ok_length:
  assumes "store_ok rt order"
  shows "length (run_retained rt) = length order"
proof -
  note D = store_okD [OF assms]
  have "length (run_retained rt) = card (fst ` set (run_retained rt))" using distinct_card [OF D(1)] by simp
  also have "\<dots> = length order" using distinct_card [OF D(3)] D(4) by simp
  finally show ?thesis .
qed

lemma evict_exact:
  "store_ok rt order \<Longrightarrow> run_order (evict limit order rt) = drop (length order + 1 - limit) order \<and>
     map_of (run_retained (evict limit order rt)) k =
       (if k \<in> PlanKey ` set (take (length order + 1 - limit) order) then None else map_of (run_retained rt) k)"
proof (induction order arbitrary: rt)
  case (Cons v order)
  have len: "length (run_retained rt) = Suc (length order)" using store_ok_length [OF Cons.prems] by simp
  show ?case
  proof (cases "Suc (length order) \<ge> limit")
    case True
    have "PlanKey v \<in> fst ` set (run_retained rt)" using store_okD(4) [OF Cons.prems] by auto
    then obtain e where e: "map_of (run_retained rt) (PlanKey v) = Some e" by (metis map_of_eq_None_iff not_None_eq)
    define u where "u = UnindexPlan (rt_plan e) rt"
    define rt' where "rt' = u\<lparr>run_retained := AList.delete (PlanKey v) (run_retained u),
      run_stats := (run_stats u)\<lparr>plans_retired := plans_retired (run_stats u) + 1\<rparr>\<rparr>"
    have eq: "evict limit (v # order) rt = evict limit order rt'" using True e len by (simp add: Let_def u_def rt'_def)
    have "store_ok rt' order" unfolding rt'_def u_def by (rule evict_step [OF Cons.prems e])
    note IH = Cons.IH [OF this]
    have "run_retained u = run_retained rt" using UnindexPlan_spec(2) [of "rt_plan e" rt] by (simp add: u_def same_store_def)
    then have mo: "map_of (run_retained rt') = (map_of (run_retained rt))(PlanKey v := None)" by (simp add: rt'_def)
    have n: "length (v # order) + 1 - limit = Suc (length order + 1 - limit)" using True by simp
    show ?thesis unfolding eq n using IH by (simp add: mo)
  qed (use len in simp)
qed (simp add: store_ok_def)

lemma Retain_present:
  assumes "runtime_ok rt" "FixedId_IsValid (plan_id p)" "map_of (run_retained rt) (PlanKey (plan_id p)) = Some e"
    "texts (rt_plan e) = texts p"
  shows "runtime_ok (snd (Retain p rt))"
proof -
  let ?k = "PlanKey (plan_id p)"
  let ?e = "\<lparr>rt_plan = p, rt_currentness = if plan_currentness_proven p then Cur_kCurrent else Cur_kRevalidationRequired\<rparr>"
  have ok: "store_ok rt (run_order rt)" and len: "length (run_retained rt) \<le> max 1 (max_retained_plans (run_limits rt))"
    using assms(1) by (auto simp: runtime_ok_def)
  let ?rt = "rt\<lparr>run_retained := AList.update ?k ?e (run_retained rt)\<rparr>"
  have eq: "snd (Retain p rt) = ?rt" using assms(2,3) by (simp add: Retain_def Let_def)
  note D = store_okD [OF ok]
  have mem: "?k \<in> fst ` set (run_retained rt)" using assms(3) by (metis map_of_eq_None_iff option.distinct(1))
  have ie: "index_entries ?rt = index_entries rt" by (simp add: index_entries_def fun_eq_iff)
  have "store_ok ?rt (run_order rt)" unfolding store_ok_def ie
  proof (intro conjI allI impI)
    show "distinct (map fst (run_retained ?rt))" using D(1) by (simp add: distinct_update)
    show "PlanKey ` set (run_order rt) = fst ` set (run_retained ?rt)" using D(4) mem by (simp add: dom_update insert_absorb)
    show "k = PlanKey (plan_id (rt_plan x))" if "map_of (run_retained ?rt) k = Some x" for k x
      using that D(2) [of k x] by (auto split: if_splits)
    show "\<exists>x. map_of (run_retained ?rt) k = Some x \<and> t \<in> texts (rt_plan x)" if "k \<in> set (index_entries rt t)" for t k
    proof (cases "k = ?k")
      case True
      then show ?thesis using D(5) [OF that] assms(3,4) by simp
    next
      case False
      then show ?thesis using D(5) [OF that] by simp
    qed
    show "k \<in> set (index_entries rt t)"
      if "run_index_complete ?rt" "map_of (run_retained ?rt) k = Some x \<and> t \<in> texts (rt_plan x)" for k x t
    proof (cases "k = ?k")
      case True
      have "x = ?e" using that(2) True by simp
        then have "t \<in> texts (rt_plan e)" using that(2) assms(4) by simp
      then show ?thesis using D(6) [OF _ assms(3)] that(1) True by simp
    next
      case False
      then show ?thesis using D(6) [of k x t] that by simp
    qed
  qed (use D(3) in simp)
  moreover have "length (run_retained ?rt) = length (run_retained rt)" using mem by (simp add: length_update)
  ultimately show ?thesis unfolding eq runtime_ok_def using len by simp
qed

lemma Retain_absent:
  assumes "runtime_ok rt" "FixedId_IsValid (plan_id p)" "map_of (run_retained rt) (PlanKey (plan_id p)) = None"
  shows "runtime_ok (snd (Retain p rt))"
proof -
  let ?k = "PlanKey (plan_id p)"
  let ?e = "\<lparr>rt_plan = p, rt_currentness = if plan_currentness_proven p then Cur_kCurrent else Cur_kRevalidationRequired\<rparr>"
  have ok: "store_ok rt (run_order rt)" and len: "length (run_retained rt) \<le> max 1 (max_retained_plans (run_limits rt))"
    using assms(1) by (auto simp: runtime_ok_def)
  define a where "a = evict (max_retained_plans (run_limits rt)) (run_order rt) rt"
  define b where "b = IndexPlan p a"
  let ?rt = "b\<lparr>run_retained := AList.update ?k ?e (run_retained b), run_order := run_order b @ [plan_id p]\<rparr>"
  have eq: "snd (Retain p rt) = ?rt" using assms(2,3) by (simp add: Retain_def Let_def a_def b_def)
  note E = evict_spec [OF ok, of "max_retained_plans (run_limits rt)", folded a_def]
  then have okA: "store_ok a (run_order a)" by blast
  note D = store_okD [OF okA]
  have fresh: "?k \<notin> fst ` set (run_retained a)" using E assms(3) by (metis map_of_eq_None_iff subsetD)
  have X: "set (index_entries a t) \<subseteq> set (index_entries b t)"
    "set (index_entries b t) \<subseteq> set (index_entries a t) \<union> (if t \<in> texts p then {?k} else {})"
    "run_index_complete b \<Longrightarrow> run_index_complete a \<and> (t \<in> texts p \<longrightarrow> ?k \<in> set (index_entries b t))" for t
    using index_subjects_spec [of a t ?k "dep_subjects (CollectPlanDependencies p)"] unfolding b_def IndexPlan_def texts_def by blast+
  have same: "same_store b a"
    using index_subjects_spec [of a undefined ?k "dep_subjects (CollectPlanDependencies p)"] unfolding b_def IndexPlan_def by blast
  have ret: "run_retained ?rt = run_retained a @ [(?k, ?e)]"
    using same fresh by (simp add: same_store_def update_fresh)
  have mo: "map_of (run_retained ?rt) = (map_of (run_retained a))(?k \<mapsto> ?e)" using same by (simp add: same_store_def)
  have ie: "index_entries ?rt = index_entries b" by (simp add: index_entries_def fun_eq_iff)
  have order: "run_order ?rt = run_order a @ [plan_id p]" using same by (simp add: same_store_def)
  have "store_ok ?rt (run_order ?rt)" unfolding store_ok_def ie mo order
  proof (intro conjI allI impI)
    show "distinct (map fst (run_retained ?rt))" unfolding ret using D(1) fresh by simp
    show "distinct (map PlanKey (run_order a @ [plan_id p]))" using D(3,4) fresh by auto
    show "PlanKey ` set (run_order a @ [plan_id p]) = fst ` set (run_retained ?rt)" unfolding ret using D(4) by simp
    show "k = PlanKey (plan_id (rt_plan x))" if "((map_of (run_retained a))(?k \<mapsto> ?e)) k = Some x" for k x
      using that D(2) [of k x] by (auto split: if_splits)
    show "\<exists>x. ((map_of (run_retained a))(?k \<mapsto> ?e)) k = Some x \<and> t \<in> texts (rt_plan x)" if "k \<in> set (index_entries b t)" for t k
    proof (cases "k \<in> set (index_entries a t)")
      case True
      from D(5) [OF this] obtain x where x: "map_of (run_retained a) k = Some x" "t \<in> texts (rt_plan x)" by blast
      then have "k \<noteq> ?k" using fresh by (metis map_of_eq_None_iff option.distinct(1))
      then show ?thesis using x by simp
    next
      case False
      then have "k = ?k" "t \<in> texts p" using X(2) [of t] that by (auto split: if_splits)
      then show ?thesis by simp
    qed
    show "k \<in> set (index_entries b t)"
      if c: "run_index_complete ?rt" and k: "((map_of (run_retained a))(?k \<mapsto> ?e)) k = Some x \<and> t \<in> texts (rt_plan x)" for k x t
    proof (cases "k = ?k")
      case True
      then have "x = ?e" using k by simp
      then show ?thesis using X(3) [of t] c k True by simp
    next
      case False
      then show ?thesis using X(3) [of t] X(1) [of t] D(6) [of k x t] c k by auto
    qed
  qed
  moreover have "length (run_retained ?rt) \<le> max 1 (max_retained_plans (run_limits ?rt))"
    unfolding ret using E same by (auto simp: same_store_def)
  ultimately show ?thesis unfolding eq runtime_ok_def by simp
qed

lemma Retain_ok:
  assumes "runtime_ok rt" "\<And>e. map_of (run_retained rt) (PlanKey (plan_id p)) = Some e \<Longrightarrow> texts (rt_plan e) = texts p"
  shows "runtime_ok (snd (Retain p rt))"
proof (cases "FixedId_IsValid (plan_id p)")
  case True
  then show ?thesis using Retain_present [OF assms(1) True] Retain_absent [OF assms(1) True] assms(2)
    by (cases "map_of (run_retained rt) (PlanKey (plan_id p))") blast+
qed (use assms(1) in \<open>simp add: Retain_def\<close>)


section \<open>The generations of requests\<close>

definition generations_ok :: "Runtime \<Rightarrow> bool" where
  "generations_ok rt \<longleftrightarrow> distinct (run_generation_order rt) \<and> distinct (map fst (run_generations rt)) \<and>
     set (run_generation_order rt) = fst ` set (run_generations rt) \<and>
     length (run_generation_order rt) \<le> max_retained_plans (run_limits rt) \<and>
     (\<forall>k g. map_of (run_generations rt) k = Some g \<longrightarrow> 1 \<le> rg_generation g)"

lemma fold_delete_spec:
  "map_of (fold AList.delete ks xs) = (\<lambda>k. if k \<in> set ks then None else map_of xs k)"
  "fst ` set (fold AList.delete ks xs) = fst ` set xs - set ks"
  "distinct (map fst xs) \<Longrightarrow> distinct (map fst (fold AList.delete ks xs))"
proof -
  show "map_of (fold AList.delete ks xs) = (\<lambda>k. if k \<in> set ks then None else map_of xs k)"
    by (induction ks arbitrary: xs) (auto simp: fun_eq_iff)
  show "fst ` set (fold AList.delete ks xs) = fst ` set xs - set ks"
    by (induction ks arbitrary: xs) (auto simp: AList.delete_eq)
  show "distinct (map fst xs) \<Longrightarrow> distinct (map fst (fold AList.delete ks xs))"
    by (induction ks arbitrary: xs) (auto simp: distinct_delete)
qed

lemma set_drop_distinct: "distinct xs \<Longrightarrow> set (drop n xs) = set xs - set (take n xs)"
  using distinct_append [of "take n xs" "drop n xs"] set_append [of "take n xs" "drop n xs"] by auto

lemma CheckedAdd_one: "CheckedAdd CostValue_Max g 1 = Some n \<Longrightarrow> 1 \<le> n"
  using CostAdd_SomeD [of g 1 n] by (simp add: word_le_nat_alt)

lemma NextGeneration_generations_ok:
  assumes "generations_ok rt"
  shows "generations_ok (snd (NextGeneration request digest rt))"
proof (cases "map_of (run_generations rt) (FixedId_ToString request)")
  case None
  let ?key = "FixedId_ToString request"
  define order where "order = run_generation_order rt @ [?key]"
  define excess where "excess = length order - max_retained_plans (run_limits rt)"
  define gens where "gens = AList.update ?key \<lparr>rg_digest = digest, rg_generation = 1\<rparr> (run_generations rt)"
  have fresh: "?key \<notin> fst ` set (run_generations rt)" using None by (simp add: map_of_eq_None_iff)
  have gens: "distinct (map fst gens)" "fst ` set gens = set order" "map_of gens k = Some g \<Longrightarrow> 1 \<le> rg_generation g" for k g
    using assms by (auto simp: generations_ok_def gens_def order_def distinct_update dom_update split: if_splits)
  have "distinct order" using fresh assms by (simp add: generations_ok_def order_def)
  then have kept: "distinct (drop excess order)" "set (drop excess order) = set order - set (take excess order)"
    by (simp_all add: distinct_drop set_drop_distinct)
  have eq: "snd (NextGeneration request digest rt) =
      rt\<lparr>run_generations := fold AList.delete (take excess order) gens, run_generation_order := drop excess order\<rparr>"
    using None by (simp add: NextGeneration_def Let_def order_def excess_def gens_def)
  have "length (drop excess order) \<le> max_retained_plans (run_limits rt)" by (simp add: excess_def)
  then show ?thesis unfolding eq generations_ok_def using gens kept by (auto simp: fold_delete_spec split: if_splits)
next
  case (Some g)
  define n where "n = (case CheckedAdd CostValue_Max (rg_generation g) 1 of None \<Rightarrow> rg_generation g | Some n \<Rightarrow> n)"
  have mem: "FixedId_ToString request \<in> fst ` set (run_generations rt)" using Some by (metis map_of_eq_None_iff option.distinct(1))
  have "1 \<le> rg_generation g" using Some assms by (simp add: generations_ok_def)
  then have "1 \<le> n" unfolding n_def using CheckedAdd_one [of "rg_generation g"] by (simp split: option.split)
  moreover have "snd (NextGeneration request digest rt) = (if rg_digest g = digest then rt
      else rt\<lparr>run_generations := AList.update (FixedId_ToString request) \<lparr>rg_digest = digest, rg_generation = n\<rparr> (run_generations rt)\<rparr>)"
    using Some by (simp add: NextGeneration_def Let_def n_def)
  ultimately show ?thesis using assms mem
    by (auto simp: generations_ok_def distinct_update dom_update insert_absorb simp del: map_of_eq_Some_iff)
qed


lemma NextGeneration_store: "same_store (snd (NextGeneration request digest rt)) rt"
  "run_subject_index (snd (NextGeneration request digest rt)) = run_subject_index rt"
  "run_index_complete (snd (NextGeneration request digest rt)) = run_index_complete rt"
  by (simp_all add: NextGeneration_def Let_def same_store_def split: option.split)

section \<open>Invalidation\<close>

text \<open>What a notice does to the entry it reaches.\<close>

definition downgraded :: "FabricSnapshot option \<Rightarrow> RetainedPlan \<Rightarrow> RetainedPlan" where
  "downgraded snapshot e = e\<lparr>rt_currentness := (if plan_gone snapshot (rt_plan e) then Cur_kRetired else Cur_kRevalidationRequired)\<rparr>"

definition same_index :: "Runtime \<Rightarrow> Runtime \<Rightarrow> bool" where
  "same_index a b \<longleftrightarrow> map fst (run_retained a) = map fst (run_retained b) \<and> run_order a = run_order b \<and>
     run_limits a = run_limits b \<and> run_subject_index a = run_subject_index b \<and> run_index_complete a = run_index_complete b \<and>
     run_generations a = run_generations b \<and> run_generation_order a = run_generation_order b \<and>
     map_option rt_plan \<circ> map_of (run_retained a) = map_option rt_plan \<circ> map_of (run_retained b)"

lemma map_fst_update: "k \<in> fst ` set xs \<Longrightarrow> map fst (AList.update k v xs) = map fst xs"
  by (induction xs) auto

lemma invalidate_key_spec:
  "same_index (fst (invalidate_key key (rt, report))) rt"
  "run_snapshot (fst (invalidate_key key (rt, report))) = run_snapshot rt"
  "run_sequence (fst (invalidate_key key (rt, report))) = run_sequence rt"
  "map_of (run_retained (fst (invalidate_key key (rt, report)))) k =
     (if k = key then map_option (downgraded (run_snapshot rt)) (map_of (run_retained rt) k) else map_of (run_retained rt) k)"
proof -
  consider "map_of (run_retained rt) key = None" | e where "map_of (run_retained rt) key = Some e" "key \<in> fst ` set (run_retained rt)"
    by (metis map_of_eq_None_iff option.exhaust)
  then have "same_index (fst (invalidate_key key (rt, report))) rt \<and>
    run_snapshot (fst (invalidate_key key (rt, report))) = run_snapshot rt \<and>
    run_sequence (fst (invalidate_key key (rt, report))) = run_sequence rt \<and>
    map_of (run_retained (fst (invalidate_key key (rt, report)))) k =
     (if k = key then map_option (downgraded (run_snapshot rt)) (map_of (run_retained rt) k) else map_of (run_retained rt) k)"
    by cases (auto simp: invalidate_key_def same_index_def downgraded_def Let_def map_fst_update fun_eq_iff simp del: map_of_eq_Some_iff)
  then show "same_index (fst (invalidate_key key (rt, report))) rt"
    "run_snapshot (fst (invalidate_key key (rt, report))) = run_snapshot rt"
    "run_sequence (fst (invalidate_key key (rt, report))) = run_sequence rt"
    "map_of (run_retained (fst (invalidate_key key (rt, report)))) k =
      (if k = key then map_option (downgraded (run_snapshot rt)) (map_of (run_retained rt) k) else map_of (run_retained rt) k)"
    by blast+
qed

lemma downgraded_idem [simp]: "downgraded s (downgraded s e) = downgraded s e"
  by (simp add: downgraded_def)

lemma invalidate_keys_spec:
  "same_index (fst (fold invalidate_key keys (rt, report))) rt \<and>
   run_snapshot (fst (fold invalidate_key keys (rt, report))) = run_snapshot rt \<and>
   run_sequence (fst (fold invalidate_key keys (rt, report))) = run_sequence rt \<and>
   map_of (run_retained (fst (fold invalidate_key keys (rt, report)))) k =
     (if k \<in> set keys then map_option (downgraded (run_snapshot rt)) (map_of (run_retained rt) k) else map_of (run_retained rt) k)"
proof (induction keys arbitrary: rt report)
  case (Cons key keys)
  obtain rt' report' where step: "invalidate_key key (rt, report) = (rt', report')" by fastforce
  note S = invalidate_key_spec [of key rt report, unfolded step fst_conv]
  show ?case using Cons [of rt' report'] S(1-3) S(4) [of k] by (auto simp: step same_index_def option.map_comp comp_def)
qed (simp add: same_index_def)

lemma set_affected_keys:
  "set (affected_keys notice rt) = (if conservative_notice notice rt then fst ` set (run_retained rt)
     else {k. \<exists>s \<in> set (notice_subjects notice). k \<in> set (index_entries rt (SubjectKey_ToString s))})"
  by (auto simp: affected_keys_def)


definition plans_of :: "Runtime \<Rightarrow> string list \<Rightarrow> PathPlan list" where
  "plans_of rt keys = List.map_filter (\<lambda>k. map_option rt_plan (map_of (run_retained rt) k)) keys"

lemma plans_of_cong: "same_index a b \<Longrightarrow> plans_of a keys = plans_of b keys"
  by (simp add: plans_of_def same_index_def fun_eq_iff)

text \<open>The report lists the plans it reached, split into retired and marked ones.\<close>

definition extended :: "InvalidationReport \<Rightarrow> FabricSnapshot option \<Rightarrow> PathPlan list \<Rightarrow> InvalidationReport \<Rightarrow> bool" where
  "extended report snapshot plans report' \<longleftrightarrow> irep_affected report' = irep_affected report @ map plan_id plans \<and>
     irep_retired report' = irep_retired report @ map plan_id (filter (plan_gone snapshot) plans) \<and>
     irep_marked report' = irep_marked report @ map plan_id (filter (\<lambda>p. \<not> plan_gone snapshot p) plans) \<and>
     irep_conservative report' = irep_conservative report"

lemma invalidate_key_report: "extended report (run_snapshot rt) (plans_of rt [key]) (snd (invalidate_key key (rt, report)))"
  by (simp add: extended_def plans_of_def List.map_filter_def invalidate_key_def Let_def split: option.split)

lemma plans_of_Cons: "plans_of rt (k # ks) = plans_of rt [k] @ plans_of rt ks"
  by (simp add: plans_of_def List.map_filter_def)

lemma invalidate_keys_report:
  "extended report (run_snapshot rt) (plans_of rt keys) (snd (fold invalidate_key keys (rt, report)))"
proof (induction keys arbitrary: rt report)
  case (Cons key keys)
  obtain rt' report' where step: "invalidate_key key (rt, report) = (rt', report')" by fastforce
  have "run_snapshot rt' = run_snapshot rt" "plans_of rt' keys = plans_of rt keys"
    using invalidate_key_spec(1,2) [of key rt report] plans_of_cong [of rt' rt] by (simp_all add: step)
  then show ?case using Cons [of report' rt'] invalidate_key_report [of report rt key] plans_of_Cons [of rt key keys]
    by (simp add: step extended_def)
qed (simp add: extended_def plans_of_def List.map_filter_def)

text \<open>The retained plans a notice concerns.\<close>

definition concerns :: "InvalidationNotice \<Rightarrow> Runtime \<Rightarrow> PathPlan \<Rightarrow> bool" where
  "concerns notice rt p \<longleftrightarrow> conservative_notice notice rt \<or>
     (\<exists>s \<in> set (notice_subjects notice). s \<in> set (dep_subjects (CollectPlanDependencies p)))"

lemma affected_iff_concerns:
  assumes "runtime_ok rt" "map_of (run_retained rt) k = Some e"
  shows "k \<in> set (affected_keys notice rt) \<longleftrightarrow> concerns notice rt (rt_plan e)"
proof (cases "conservative_notice notice rt")
  case True
  then show ?thesis using assms(2) by (force simp: set_affected_keys concerns_def dest: map_of_SomeD)
next
  case False
  have ok: "store_ok rt (run_order rt)" using assms(1) by (simp add: runtime_ok_def)
  have complete: "run_index_complete rt" using False by (simp add: conservative_notice_def)
  have "k \<in> set (index_entries rt (SubjectKey_ToString s)) \<longleftrightarrow> s \<in> set (dep_subjects (CollectPlanDependencies (rt_plan e)))" for s
  proof -
    have "k \<in> set (index_entries rt (SubjectKey_ToString s)) \<longleftrightarrow> SubjectKey_ToString s \<in> texts (rt_plan e)"
      using store_okD(5) [OF ok, of k] store_okD(6) [OF ok complete assms(2)] assms(2) by fastforce
    also have "\<dots> \<longleftrightarrow> s \<in> set (dep_subjects (CollectPlanDependencies (rt_plan e)))"
      by (auto simp: texts_def SubjectKey_ToString_inj)
    finally show ?thesis .
  qed
  then show ?thesis using False by (simp add: set_affected_keys concerns_def)
qed

lemma affected_plans:
  assumes "runtime_ok rt"
  shows "set (plans_of rt (affected_keys notice rt)) = {p. p \<in> (rt_plan \<circ> snd) ` set (run_retained rt) \<and> concerns notice rt p}"
proof -
  have d: "distinct (map fst (run_retained rt))" using assms by (simp add: runtime_ok_def store_ok_def)
  have "p \<in> set (plans_of rt (affected_keys notice rt)) \<longleftrightarrow>
      (\<exists>k e. map_of (run_retained rt) k = Some e \<and> rt_plan e = p \<and> concerns notice rt p)" for p
    using affected_iff_concerns [OF assms] by (auto simp: plans_of_def set_map_filter) blast
  then show ?thesis using d by (force simp: map_of_eq_Some_iff)
qed

lemma ApplyInvalidation_run:
  fixes notice rt
  defines "a \<equiv> rt\<lparr>run_stats := (run_stats rt)\<lparr>invalidations_applied := invalidations_applied (run_stats rt) + 1\<rparr>,
    run_sequence := run_sequence rt + 1\<rparr>"
  defines "r \<equiv> \<lparr>irep_affected = [], irep_marked = [], irep_retired = [],
    irep_conservative = conservative_notice notice rt, irep_retained_plans = 0\<rparr>"
  shows "snd (ApplyInvalidation notice rt) = fst (fold invalidate_key (affected_keys notice rt) (a, r))"
    "extended r (run_snapshot rt) (plans_of rt (affected_keys notice rt)) (fst (ApplyInvalidation notice rt))"
    "irep_retained_plans (fst (ApplyInvalidation notice rt)) = length (run_retained rt)"
    "same_index (snd (ApplyInvalidation notice rt)) rt" "run_snapshot (snd (ApplyInvalidation notice rt)) = run_snapshot rt"
    "run_sequence (snd (ApplyInvalidation notice rt)) = run_sequence rt + 1"
proof -
  have c: "conservative_notice notice a = conservative_notice notice rt" "affected_keys notice a = affected_keys notice rt"
    "inv_conservative_all notice \<or> conservative_notice notice rt \<longleftrightarrow> conservative_notice notice rt"
    by (auto simp: a_def conservative_notice_def affected_keys_def index_entries_def)
  obtain rt' report where run: "fold invalidate_key (affected_keys notice rt) (a, r) = (rt', report)" by fastforce
  have eq: "ApplyInvalidation notice rt = (report\<lparr>irep_retained_plans := length (run_retained rt')\<rparr>, rt')"
    unfolding ApplyInvalidation_def Let_def a_def [symmetric] c r_def [symmetric] run by simp
  have si: "same_index rt' a" "run_snapshot rt' = run_snapshot a" "run_sequence rt' = run_sequence a"
    using invalidate_keys_spec [of "affected_keys notice rt" a r, unfolded run] by simp_all
  have ar: "same_index a rt" "run_snapshot a = run_snapshot rt" "run_sequence a = run_sequence rt + 1" "plans_of a = plans_of rt"
    by (simp_all add: a_def same_index_def plans_of_def fun_eq_iff)
  have "map fst (run_retained rt') = map fst (run_retained rt)" using si ar by (simp add: same_index_def)
  then have len: "length (run_retained rt') = length (run_retained rt)" by (metis length_map)
  have rep: "extended r (run_snapshot rt) (plans_of rt (affected_keys notice rt)) report"
    using invalidate_keys_report [of r a "affected_keys notice rt"] ar by (simp add: run)
  show "snd (ApplyInvalidation notice rt) = fst (fold invalidate_key (affected_keys notice rt) (a, r))" by (simp add: eq run)
  show "same_index (snd (ApplyInvalidation notice rt)) rt" "run_snapshot (snd (ApplyInvalidation notice rt)) = run_snapshot rt"
    "run_sequence (snd (ApplyInvalidation notice rt)) = run_sequence rt + 1"
    using si ar by (simp_all add: same_index_def eq)
  show "extended r (run_snapshot rt) (plans_of rt (affected_keys notice rt)) (fst (ApplyInvalidation notice rt))"
    using rep by (simp add: eq extended_def)
  show "irep_retained_plans (fst (ApplyInvalidation notice rt)) = length (run_retained rt)" by (simp add: eq len)
qed


section \<open>Operations, reachable states and the invariant\<close>

text \<open>
  The critical sections of the runtime as one datatype: every public operation that changes the state,
  with \<open>Plan\<close> as its two sections that write (the check between them reads only).
\<close>

datatype RuntimeOp =
    OpPublishSnapshot "FabricSnapshot option"
  | OpPlanBegin
  | OpPlanPublish Captured PlanningRequest "PlanningResult \<times> PlannerStatistics"
  | OpRetain PathPlan
  | OpApplyInvalidation InvalidationNotice
  | OpAdvanceEpoch Generation bool
  | OpResetStats

fun run_op :: "RuntimeOp \<Rightarrow> Runtime \<Rightarrow> Runtime" where
  "run_op (OpPublishSnapshot s) rt = PublishSnapshot s rt"
| "run_op OpPlanBegin rt = snd (plan_begin rt)"
| "run_op (OpPlanPublish cap request computed) rt = snd (plan_publish cap request computed rt)"
| "run_op (OpRetain p) rt = snd (Retain p rt)"
| "run_op (OpApplyInvalidation notice) rt = snd (ApplyInvalidation notice rt)"
| "run_op (OpAdvanceEpoch epoch recovery) rt = snd (AdvanceEpoch epoch recovery rt)"
| "run_op OpResetStats rt = ResetStats rt"

definition run_ops :: "RuntimeOp list \<Rightarrow> Runtime \<Rightarrow> Runtime" where
  "run_ops ops rt = fold run_op ops rt"

text \<open>
  A plan id is a digest of what the plan says, so a plan retained again under the same id depends on the
  same subjects; for plans that come from elsewhere this is a condition on the caller.
\<close>

fun permitted :: "RuntimeOp \<Rightarrow> Runtime \<Rightarrow> bool" where
  "permitted (OpRetain p) rt \<longleftrightarrow>
     (case map_of (run_retained rt) (PlanKey (plan_id p)) of
        None \<Rightarrow> True
      | Some e \<Rightarrow> set (dep_subjects (CollectPlanDependencies (rt_plan e))) = set (dep_subjects (CollectPlanDependencies p)))"
| "permitted _ rt \<longleftrightarrow> True"

inductive reachable :: "Runtime \<Rightarrow> bool" where
  created: "reachable (PlannerRuntime_new limits snapshot authority)"
| stepped: "reachable rt \<Longrightarrow> permitted op rt \<Longrightarrow> reachable (run_op op rt)"

definition runtime_inv :: "Runtime \<Rightarrow> bool" where
  "runtime_inv rt \<longleftrightarrow> runtime_ok rt \<and> generations_ok rt"

lemma same_index_inv:
  assumes "same_index a b" "runtime_inv b"
  shows "runtime_inv a"
proof -
  have plans: "map_option rt_plan (map_of (run_retained a) k) = map_option rt_plan (map_of (run_retained b) k)" for k
    using assms(1) by (simp add: same_index_def fun_eq_iff)
  have e: "(\<exists>e. map_of (run_retained a) k = Some e \<and> P (rt_plan e)) \<longleftrightarrow> (\<exists>e. map_of (run_retained b) k = Some e \<and> P (rt_plan e))" for k P
    using plans [of k] by (cases "map_of (run_retained a) k"; cases "map_of (run_retained b) k") auto
  have keys: "map fst (run_retained a) = map fst (run_retained b)" using assms(1) by (simp add: same_index_def)
  then have dom: "fst ` set (run_retained a) = fst ` set (run_retained b)" by (metis set_map)
  have len: "length (run_retained a) = length (run_retained b)" using keys by (metis length_map)
  have ie: "index_entries a = index_entries b" using assms(1) by (simp add: same_index_def index_entries_def fun_eq_iff)
  have "store_ok a (run_order a)" unfolding store_ok_def
  proof (intro conjI allI impI)
    have ok: "store_ok b (run_order b)" using assms(2) by (simp add: runtime_inv_def runtime_ok_def)
    note D = store_okD [OF ok]
    show "distinct (map fst (run_retained a))" "distinct (map PlanKey (run_order a))"
      "PlanKey ` set (run_order a) = fst ` set (run_retained a)" using D(1,3,4) keys dom assms(1) by (simp_all add: same_index_def)
    show "k = PlanKey (plan_id (rt_plan x))" if "map_of (run_retained a) k = Some x" for k x
      using e [of k "\<lambda>p. p = rt_plan x"] that D(2) [of k] by force
    show "\<exists>x. map_of (run_retained a) k = Some x \<and> t \<in> texts (rt_plan x)" if "k \<in> set (index_entries a t)" for k t
      using D(5) [of k t] that e [of k "\<lambda>p. t \<in> texts p"] by (simp add: ie)
    show "k \<in> set (index_entries a t)"
      if "run_index_complete a" "map_of (run_retained a) k = Some x \<and> t \<in> texts (rt_plan x)" for k x t
      using D(6) [of k] that e [of k "\<lambda>p. t \<in> texts p"] assms(1) by (auto simp: ie same_index_def)
  qed
  then show ?thesis using assms len by (simp add: runtime_inv_def runtime_ok_def generations_ok_def same_index_def)
qed

lemma same_indexI:
  assumes "run_retained a = run_retained b" "run_order a = run_order b" "run_limits a = run_limits b"
    "run_subject_index a = run_subject_index b" "run_index_complete a = run_index_complete b"
    "run_generations a = run_generations b" "run_generation_order a = run_generation_order b"
  shows "same_index a b"
  using assms by (simp add: same_index_def)

lemma requalified:
  "map fst (map (\<lambda>(k, e). (k, f e)) xs) = map fst xs" "map_of (map (\<lambda>(k, e). (k, f e)) xs) k = map_option f (map_of xs k)"
  by (induction xs) auto

lemma AdvanceEpoch_same_index: "same_index (snd (AdvanceEpoch epoch recovery rt)) rt"
  using requalified [of "rt_currentness_update (\<lambda>_. Cur_kRevalidationRequired)" "run_retained rt"]
  by (auto simp: AdvanceEpoch_def same_index_def Let_def fun_eq_iff option.map_comp comp_def simp del: map_map)

lemma UnindexPlan_generations:
  "run_generations (UnindexPlan p rt) = run_generations rt \<and> run_generation_order (UnindexPlan p rt) = run_generation_order rt \<and>
   run_limits (UnindexPlan p rt) = run_limits rt"
proof -
  have "run_generations (fold (unindex_subject k) ss rt) = run_generations rt \<and>
      run_generation_order (fold (unindex_subject k) ss rt) = run_generation_order rt \<and>
      run_limits (fold (unindex_subject k) ss rt) = run_limits rt" for k ss
    by (induction ss arbitrary: rt) (simp_all add: unindex_subject_def Let_def split: option.split)
  then show ?thesis by (simp add: UnindexPlan_def)
qed

lemma evict_generations:
  "run_generations (evict n order rt) = run_generations rt \<and> run_generation_order (evict n order rt) = run_generation_order rt \<and>
   run_limits (evict n order rt) = run_limits rt"
  by (induction n order rt rule: evict.induct) (simp_all add: UnindexPlan_generations Let_def split: option.split)

lemma index_subjects_generations:
  "run_generations (index_subjects k ss rt) = run_generations rt \<and> run_generation_order (index_subjects k ss rt) = run_generation_order rt \<and>
   run_limits (index_subjects k ss rt) = run_limits rt"
  by (induction k ss rt rule: index_subjects.induct) (simp_all add: Let_def)

lemma Retain_generations_ok: "generations_ok (snd (Retain p rt)) = generations_ok rt"
  using evict_generations index_subjects_generations
  by (simp add: generations_ok_def Retain_def Let_def IndexPlan_def split: option.split)

lemma run_op_inv: "runtime_inv rt \<Longrightarrow> permitted op rt \<Longrightarrow> runtime_inv (run_op op rt)"
proof (cases op)
  case (OpRetain p)
  assume inv: "runtime_inv rt" and "permitted op rt"
  then have "runtime_ok (snd (Retain p rt))"
    by (intro Retain_ok) (auto simp: OpRetain runtime_inv_def texts_def split: option.splits)
  then show ?thesis using inv by (simp add: OpRetain runtime_inv_def Retain_generations_ok)
next
  case (OpPlanPublish cap request computed)
  assume inv: "runtime_inv rt"
  obtain r stats where c: "computed = (r, stats)" by fastforce
  let ?digest = "plan_semantic_digest (MakePathPlan request r (cap_sequence cap))"
  define n where "n = snd (NextGeneration (rq_id request) ?digest rt)"
  have "runtime_ok n" using inv NextGeneration_store [of "rq_id request" ?digest rt, folded n_def]
      store_ok_cong [of n rt "run_order rt"] by (simp add: runtime_inv_def runtime_ok_def same_store_def)
  moreover have "generations_ok n" unfolding n_def using inv by (intro NextGeneration_generations_ok) (simp add: runtime_inv_def)
  ultimately have "runtime_inv n" by (simp add: runtime_inv_def)
  moreover have "same_index (run_op op rt) n"
    by (auto intro!: same_indexI simp: OpPlanPublish c plan_publish_def n_def Let_def split: prod.split)
  ultimately show ?thesis using same_index_inv by blast
next
  case (OpApplyInvalidation notice)
  assume "runtime_inv rt"
  then show ?thesis using same_index_inv [OF ApplyInvalidation_run(4)] by (simp add: OpApplyInvalidation)
next
  case (OpAdvanceEpoch epoch recovery)
  assume "runtime_inv rt"
  then show ?thesis using same_index_inv [OF AdvanceEpoch_same_index] by (simp add: OpAdvanceEpoch)
qed (auto intro!: same_index_inv [of _ rt] same_indexI simp: PublishSnapshot_def plan_begin_def ResetStats_def)

lemma reachable_inv: "reachable rt \<Longrightarrow> runtime_inv rt"
proof (induction rule: reachable.induct)
  case (created limits snapshot authority)
  show ?case by (simp add: PlannerRuntime_new_def runtime_inv_def runtime_ok_def store_ok_def generations_ok_def index_entries_def)
qed (rule run_op_inv)


section \<open>The publication watermark\<close>

text \<open>
  A state with a 64-bit sequence number that some operations advance by one: as long as fewer than
  \<open>2 ^ 64\<close> operations run, an equal number means that none of them advanced it.
\<close>

locale watermark =
  fixes run :: "'op \<Rightarrow> 's \<Rightarrow> 's" and watermark_of :: "'s \<Rightarrow> u64" and advances :: "'op \<Rightarrow> 's \<Rightarrow> bool"
  assumes watermark_run: "watermark_of (run op s) = watermark_of s + (if advances op s then 1 else 0)"
begin

fun advanced :: "'op list \<Rightarrow> 's \<Rightarrow> nat" where
  "advanced [] s = 0"
| "advanced (op # ops) s = (if advances op s then 1 else 0) + advanced ops (run op s)"

lemma advanced_le: "advanced ops s \<le> length ops"
proof (induction ops arbitrary: s)
  case (Cons op ops)
  then show ?case by (simp add: le_SucI)
qed simp

lemma watermark_fold: "watermark_of (fold run ops s) = watermark_of s + of_nat (advanced ops s)"
  by (induction ops arbitrary: s) (simp_all add: watermark_run)

lemma watermark_unchanged:
  assumes "length ops < 2 ^ 64"
  shows "watermark_of (fold run ops s) = watermark_of s \<longleftrightarrow> advanced ops s = 0"
proof -
  have "advanced ops s < 2 ^ 64" using advanced_le [of ops s] assms by linarith
  then have "unat (of_nat (advanced ops s) :: u64) = advanced ops s" by (simp add: unat_of_nat take_bit_eq_mod)
  then have "(of_nat (advanced ops s) :: u64) = 0 \<longleftrightarrow> advanced ops s = 0" by (metis unat_0 unat_eq_zero)
  then show ?thesis by (simp add: watermark_fold)
qed

lemma not_advanced_invariant:
  assumes "advanced ops s = 0" "\<And>op s. \<not> advances op s \<Longrightarrow> f (run op s) = f s"
  shows "f (fold run ops s) = f s"
  using assms(1)
proof (induction ops arbitrary: s)
  case (Cons op ops)
  then show ?case using Cons.IH [of "run op s"] assms(2) [of op s] by (simp split: if_splits)
qed simp

end

fun bumps :: "RuntimeOp \<Rightarrow> Runtime \<Rightarrow> bool" where
  "bumps (OpPublishSnapshot s) rt \<longleftrightarrow> True"
| "bumps (OpApplyInvalidation notice) rt \<longleftrightarrow> True"
| "bumps (OpAdvanceEpoch epoch recovery) rt \<longleftrightarrow> run_epoch rt < epoch"
| "bumps _ rt \<longleftrightarrow> False"

lemma plan_publish_frame: "run_sequence (snd (plan_publish cap request computed rt)) = run_sequence rt"
  "run_snapshot (snd (plan_publish cap request computed rt)) = run_snapshot rt"
  using NextGeneration_store(1) by (auto simp: plan_publish_def same_store_def Let_def split: prod.split) (metis snd_conv)+

lemma evict_frame: "run_sequence (evict n order rt) = run_sequence rt \<and> run_snapshot (evict n order rt) = run_snapshot rt"
  using UnindexPlan_spec(2) by (induction n order rt rule: evict.induct) (simp_all add: same_store_def Let_def split: option.split)

lemma Retain_frame: "run_sequence (snd (Retain p rt)) = run_sequence rt" "run_snapshot (snd (Retain p rt)) = run_snapshot rt"
proof -
  have "same_store (IndexPlan p a) a" for a using index_subjects_spec unfolding IndexPlan_def by blast
  then show "run_sequence (snd (Retain p rt)) = run_sequence rt" "run_snapshot (snd (Retain p rt)) = run_snapshot rt"
    using evict_frame by (auto simp: Retain_def Let_def same_store_def split: option.split)
qed

lemma run_op_sequence: "run_sequence (run_op op rt) = run_sequence rt + (if bumps op rt then 1 else 0)"
  by (cases op) (auto simp: PublishSnapshot_def plan_begin_def ResetStats_def plan_publish_frame Retain_frame ApplyInvalidation_run(6)
    AdvanceEpoch_def Let_def)

lemma run_op_snapshot: "\<not> bumps op rt \<Longrightarrow> run_snapshot (run_op op rt) = run_snapshot rt"
  by (cases op) (auto simp: plan_begin_def ResetStats_def plan_publish_frame Retain_frame AdvanceEpoch_def Let_def)

interpretation publication: watermark run_op run_sequence bumps
  by unfold_locales (rule run_op_sequence)

text \<open>Whether one of the operations publishes a snapshot, applies a notice or advances the epoch.\<close>

fun watermark_moved :: "RuntimeOp list \<Rightarrow> Runtime \<Rightarrow> bool" where
  "watermark_moved [] rt \<longleftrightarrow> False"
| "watermark_moved (op # ops) rt \<longleftrightarrow> bumps op rt \<or> watermark_moved ops (run_op op rt)"

lemma watermark_moved_iff: "watermark_moved ops rt \<longleftrightarrow> publication.advanced ops rt \<noteq> 0"
  by (induction ops arbitrary: rt) simp_all

lemma watermark_changed_exact:
  assumes "length ops < 2 ^ 64"
  shows "watermark_changed (capture rt) (run_ops ops rt) \<longleftrightarrow> watermark_moved ops rt"
proof (cases "publication.advanced ops rt = 0")
  case True
  have "run_snapshot (fold run_op ops rt) = run_snapshot rt"
    by (rule publication.not_advanced_invariant [OF True run_op_snapshot])
  then show ?thesis using True publication.watermark_unchanged [OF assms, of rt]
    by (simp add: watermark_moved_iff watermark_changed_def run_ops_def capture_def split: option.split)
next
  case False
  then show ?thesis using publication.watermark_unchanged [OF assms, of rt] by (simp add: watermark_moved_iff watermark_changed_def run_ops_def capture_def)
qed


lemma capture_begin: "capture (snd (plan_begin rt)) = capture rt" "fst (plan_begin rt) = capture rt"
  by (simp_all add: plan_begin_def capture_def)

lemma plan_publish_result:
  "res_status (fst (plan_publish cap request (r, stats) rt)) = res_status r"
  "map cand_currentness (res_candidates (fst (plan_publish cap request (r, stats) rt))) = map cand_currentness (res_candidates r)"
  "map cand_path (res_candidates (fst (plan_publish cap request (r, stats) rt))) = map cand_path (res_candidates r)"
  by (simp_all add: plan_publish_def Let_def comp_def split: prod.split)

lemma Plan_interleaved_Inr:
  assumes "compute_plan (capture rt) request = Inr computed"
  shows "Plan_interleaved f g request rt =
    plan_publish (capture rt) request (plan_check (capture rt) (f (snd (plan_begin rt))) computed) (g (f (snd (plan_begin rt))))"
proof -
  obtain b where "plan_begin rt = (capture rt, b)" by (simp add: plan_begin_def)
  then show ?thesis using assms by (simp add: Plan_interleaved_def Let_def)
qed

lemma Plan_eq_interleaved: "Plan = Plan_interleaved (\<lambda>rt. rt) (\<lambda>rt. rt)"
  unfolding Plan_def [abs_def] Plan_interleaved_def [abs_def] Let_def ..


section \<open>Currentness\<close>

lemma MoreSevere_Current: "MoreSevere a b = Cur_kCurrent \<longleftrightarrow> a = Cur_kCurrent \<and> b = Cur_kCurrent"
  by (cases a; cases b) (simp_all add: MoreSevere_def)

definition subjects_present :: "FabricSnapshot \<Rightarrow> PathPlan \<Rightarrow> bool" where
  "subjects_present s p \<longleftrightarrow> list_all (SubjectStillPresent s) (dep_subjects (CollectPlanDependencies p))"

lemma find_absent: "List.find (\<lambda>x. \<not> SubjectStillPresent s x) (dep_subjects (CollectPlanDependencies p)) = None \<longleftrightarrow> subjects_present s p"
  by (auto simp: find_None_iff subjects_present_def list_all_iff)

lemma subjects_present_iff:
  assumes "snapshot_wf s"
  shows "subjects_present s p \<longleftrightarrow> (\<forall>c \<in> set (plan_candidates p).
    set (path_nodes (cand_path c)) \<subseteq> node_id ` set (snap_nodes s) \<and>
    (\<forall>h \<in> set (path_hops (cand_path c)). hop_link h \<in> edge_id ` set (snap_edges s) \<and>
       (\<exists>n \<in> set (snap_nodes s). hop_from_port h \<in> set (node_ports n)) \<and>
       (\<exists>n \<in> set (snap_nodes s). hop_to_port h \<in> set (node_ports n))))"
proof -
  have found: "find_sorted key xs k \<noteq> None \<longleftrightarrow> k \<in> key ` set xs" if "sorted_wrt (<) (map key xs)"
    for key :: "'r \<Rightarrow> 'k::linorder" and xs k
  proof -
    have "find_sorted key xs k \<noteq> None \<longleftrightarrow> (\<exists>i. i < length xs \<and> key (xs ! i) = k)"
      using find_sorted_eq_Some [OF that, of k] by (cases "find_sorted key xs k") auto
    also have "\<dots> \<longleftrightarrow> k \<in> set (map key xs)" unfolding in_set_conv_nth by (metis length_map nth_map)
    finally show ?thesis by simp
  qed
  have node: "SubjectStillPresent s (ForNode x) \<longleftrightarrow> x \<in> node_id ` set (snap_nodes s)" for x
    using assms found [of node_id "snap_nodes s" x]
    by (simp add: SubjectStillPresent_def AsNode_def ForNode_def FindNode_def node_lookup_def snapshot_wf_def)
  have link: "SubjectStillPresent s (ForLink x) \<longleftrightarrow> x \<in> edge_id ` set (snap_edges s)" for x
    using assms found [of edge_id "snap_edges s" x]
    by (simp add: SubjectStillPresent_def AsNode_def AsLink_def ForLink_def FindEdge_def edge_lookup_def snapshot_wf_def)
  have "sorted (node_ports n)" if "n \<in> set (snap_nodes s)" for n
    using assms that by (auto simp: snapshot_wf_def node_ok_def strict_sorted_iff)
  then have port: "SubjectStillPresent s (ForPort x) \<longleftrightarrow> (\<exists>n \<in> set (snap_nodes s). x \<in> set (node_ports n))" for x
    by (auto simp: SubjectStillPresent_def AsNode_def AsLink_def AsPort_def ForPort_def list_ex_iff)
  show ?thesis unfolding subjects_present_def list_all_iff
    by (simp add: CollectPlanDependencies_def candidate_subjects_def ball_Un node link port subset_eq)
qed

lemma CheckCurrentness_current:
  "rep_currentness (CheckCurrentness p rt) = Cur_kCurrent \<longleftrightarrow>
     (\<exists>s. run_snapshot rt = Some s \<and> subjects_present s p) \<and> \<not> plan_diagnostic_mode p \<and>
     map_option rt_currentness (map_of (run_retained rt) (PlanKey (plan_id p))) \<notin> {Some Cur_kRetired, Some Cur_kRevalidationRequired} \<and>
     ClassifyEvidence (plan_evidence p) (current_evidence rt) = Cur_kCurrent \<and>
     ev_publish_sequence (plan_evidence p) = run_sequence rt"
proof (cases "run_snapshot rt")
  case None
  then show ?thesis by (simp add: CheckCurrentness_def Let_def report_change_def MoreSevere_Current)
next
  case (Some s)
  have seq: "ev_publish_sequence (current_evidence rt) = run_sequence rt" by (simp add: current_evidence_def)
  show ?thesis
  proof (cases "List.find (\<lambda>x. \<not> SubjectStillPresent s x) (dep_subjects (CollectPlanDependencies p))")
    case None
    then have "subjects_present s p" by (simp add: find_absent)
    then show ?thesis using None Some by (simp add: CheckCurrentness_def Let_def report_change_def MoreSevere_Current seq)
  next
    case (Some x)
    then have "\<not> subjects_present s p" by (metis find_absent option.distinct(1))
    then show ?thesis using Some \<open>run_snapshot rt = Some s\<close> by (simp add: CheckCurrentness_def Let_def report_change_def)
  qed
qed


section \<open>A small runtime\<close>

definition small_candidate :: Candidate where
  "small_candidate = \<lparr>cand_id = small_id 4,
     cand_path = \<lparr>path_source = small_id 1, path_destination = small_id 1, path_layer = Layer_kPhysical, path_nodes = [small_id 1], path_hops = []\<rparr>,
     cand_cost = \<lparr>cost_hops_cost = 0, cost_static = 0, cost_degraded = 0, cost_locality = 0, cost_total = 0, cost_hops = 0,
       cost_degraded_hops = 0, cost_locality_breaches = 0\<rparr>,
     cand_rank = 1, cand_evidence = EvidenceVector_new,
     cand_provenance = \<lparr>prov_planning_generation = 0, prov_constraint_set = small_id 8, prov_constraint_generation = 1,
        prov_policy_generation = 1, prov_source = Src_kSynthetic, prov_planning_rule_version = 1, prov_path_encoding_version = 1\<rparr>,
     cand_authority = Auth_kNotRequested, cand_currentness = Cur_kCurrent, cand_notes = []\<rparr>"

definition small_plan :: PathPlan where
  "small_plan = \<lparr>plan_id = small_id 7, plan_request = small_id 9, plan_generation = 1, plan_publish_sequence = 0,
     plan_status = Status_kPlanned, plan_source = small_id 1, plan_destination = small_id 1, plan_layer = Layer_kPhysical,
     plan_evidence = EvidenceVector_new, plan_policy_generation = 1, plan_constraint_set = small_id 8,
     plan_constraint_generation = 1, plan_diagnostic_mode = False, plan_currentness_proven = True,
     plan_candidates = [small_candidate], plan_semantic_digest = replicate 32 0\<rparr>"

definition small_notice :: InvalidationNotice where
  "small_notice = \<lparr>inv_nodes = [small_id 1], inv_links = [], inv_ports = [], inv_capabilities = [], inv_failure_domains = [],
     inv_conservative_all = False\<rparr>"

definition small_runtime :: Runtime where
  "small_runtime = run_op (OpRetain small_plan) (PlannerRuntime_new ResourceLimits_default (Some small_snapshot) None)"

lemma small_plan_simps:
  "plan_id small_plan = small_id 7" "dep_subjects (CollectPlanDependencies small_plan) = [ForNode (small_id 1)]"
  "plan_currentness_proven small_plan" "FixedId_IsValid (small_id 7 :: PathPlanId)"
  by (simp_all add: small_plan_def small_candidate_def CollectPlanDependencies_def candidate_subjects_def small_id_def FixedId_IsValid_def)

lemma reachable_small: "reachable small_runtime"
  unfolding small_runtime_def by (intro reachable.intros) (simp add: PlannerRuntime_new_def)

lemma small_retained:
  "run_retained small_runtime = [(PlanKey (small_id 7), \<lparr>rt_plan = small_plan, rt_currentness = Cur_kCurrent\<rparr>)]"
  "run_index_complete small_runtime" "run_snapshot small_runtime = Some small_snapshot"
  "run_order small_runtime = [small_id 7]" "run_limits small_runtime = ResourceLimits_default" "run_generations small_runtime = []"
  by (simp_all add: small_runtime_def Retain_def PlannerRuntime_new_def small_plan_simps IndexPlan_def Let_def ResourceLimits_default_def)

section \<open>Properties\<close>

text \<open>
  C9. In every state the operations of the runtime can reach, in any order and with the critical sections
  of \<open>Plan\<close> as separate steps, the retained plans are stored under their own identifiers, there
  are at most \<open>max_retained_plans\<close> of them (one when the limit is 0), every index entry names a retained
  plan that depends on the subject, and as long as the index is marked complete it names all of them.
\<close>

theorem runtime_invariant:
  assumes "reachable rt"
  shows "RetainedPlanCount rt \<le> max 1 (max_retained_plans (run_limits rt)) \<and>
    distinct (map PlanKey (run_order rt)) \<and> PlanKey ` set (run_order rt) = fst ` set (run_retained rt) \<and>
    (\<forall>k e. map_of (run_retained rt) k = Some e \<longrightarrow> k = PlanKey (plan_id (rt_plan e))) \<and>
    (\<forall>s k. k \<in> set (index_entries rt (SubjectKey_ToString s)) \<longrightarrow>
      (\<exists>e. map_of (run_retained rt) k = Some e \<and> s \<in> set (dep_subjects (CollectPlanDependencies (rt_plan e))))) \<and>
    (run_index_complete rt \<longrightarrow> (\<forall>s k e. map_of (run_retained rt) k = Some e \<and> s \<in> set (dep_subjects (CollectPlanDependencies (rt_plan e)))
      \<longrightarrow> k \<in> set (index_entries rt (SubjectKey_ToString s))))"
proof -
  have inv: "runtime_ok rt" using reachable_inv [OF assms] by (simp add: runtime_inv_def)
  then have ok: "store_ok rt (run_order rt)" by (simp add: runtime_ok_def)
  have t: "SubjectKey_ToString s \<in> texts p \<longleftrightarrow> s \<in> set (dep_subjects (CollectPlanDependencies p))" for s p
    by (auto simp: texts_def SubjectKey_ToString_inj)
  show ?thesis using store_okD [OF ok] inv by (auto simp: RetainedPlanCount_def runtime_ok_def simp flip: t)
qed

theorem runtime_invariant_witness:
  "PlanKey (small_id 7) \<in> set (index_entries small_runtime (SubjectKey_ToString (ForNode (small_id 1))))"
  using runtime_invariant [OF reachable_small] by (auto simp: small_retained small_plan_simps)

text \<open>
  C10. An invalidation notice reaches exactly the retained plans that depend on a node, link or port it
  names, or every retained plan when it is conservative, names a capability or a failure domain or the
  index is incomplete: these become RETIRED when a dependency left the snapshot and
  REVALIDATION_REQUIRED otherwise, every other plan is left as it is, and the report lists them.
\<close>

theorem ApplyInvalidation_exact:
  assumes "reachable rt"
  shows "map_of (run_retained (snd (ApplyInvalidation notice rt))) k =
      map_option (\<lambda>e. if concerns notice rt (rt_plan e) then downgraded (run_snapshot rt) e else e) (map_of (run_retained rt) k) \<and>
    set (irep_affected (fst (ApplyInvalidation notice rt))) =
      {plan_id p | p. p \<in> (rt_plan \<circ> snd) ` set (run_retained rt) \<and> concerns notice rt p} \<and>
    set (irep_retired (fst (ApplyInvalidation notice rt))) =
      {plan_id p | p. p \<in> (rt_plan \<circ> snd) ` set (run_retained rt) \<and> concerns notice rt p \<and> plan_gone (run_snapshot rt) p} \<and>
    set (irep_marked (fst (ApplyInvalidation notice rt))) =
      {plan_id p | p. p \<in> (rt_plan \<circ> snd) ` set (run_retained rt) \<and> concerns notice rt p \<and> \<not> plan_gone (run_snapshot rt) p} \<and>
    run_sequence (snd (ApplyInvalidation notice rt)) = run_sequence rt + 1"
proof -
  have inv: "runtime_ok rt" using reachable_inv [OF assms] by (simp add: runtime_inv_def)
  have "map_of (run_retained (snd (ApplyInvalidation notice rt))) k =
      map_option (\<lambda>e. if concerns notice rt (rt_plan e) then downgraded (run_snapshot rt) e else e) (map_of (run_retained rt) k)"
    unfolding ApplyInvalidation_run(1) using affected_iff_concerns [OF inv, of k]
    by (cases "map_of (run_retained rt) k") (simp_all add: invalidate_keys_spec)
  then show ?thesis using ApplyInvalidation_run(2) [of notice rt] affected_plans [OF inv, of notice] ApplyInvalidation_run(6) [of notice rt]
    by (auto simp: extended_def)
qed

theorem ApplyInvalidation_exact_witness:
  "map_option rt_currentness (map_of (run_retained (snd (ApplyInvalidation small_notice small_runtime))) (PlanKey (small_id 7))) =
     Some (if plan_gone (Some small_snapshot) small_plan then Cur_kRetired else Cur_kRevalidationRequired)"
  using ApplyInvalidation_exact [OF reachable_small, of small_notice "PlanKey (small_id 7)"]
  by (simp add: small_retained concerns_def small_notice_def notice_subjects_def small_plan_simps downgraded_def)


text \<open>
  C8. The publication check catches every change of the watermark up to it: if a snapshot was published,
  a notice applied or the epoch advanced after the capture and before the check, the result has
  status REVALIDATION_REQUIRED and no CURRENT candidate; if not, it is the computed one.  What other
  threads do after the check and before the publication never shows.
\<close>

theorem Plan_publication_check:
  assumes "length ops < 2 ^ 64"
  shows "case compute_plan (capture rt) request of
      Inl r \<Rightarrow> fst (Plan_interleaved (run_ops ops) late request rt) = r
    | Inr (r, stats) \<Rightarrow>
        let result = fst (Plan_interleaved (run_ops ops) late request rt) in
        map cand_path (res_candidates result) = map cand_path (res_candidates r) \<and>
        (if watermark_moved ops (snd (plan_begin rt))
         then res_status result = Status_kRevalidationRequired \<and>
           list_all (\<lambda>c. cand_currentness c = Cur_kRevalidationRequired) (res_candidates result)
         else res_status result = res_status r \<and> map cand_currentness (res_candidates result) = map cand_currentness (res_candidates r))"
proof (cases "compute_plan (capture rt) request")
  case (Inl r)
  obtain b where "plan_begin rt = (capture rt, b)" by (simp add: plan_begin_def)
  then show ?thesis using Inl by (simp add: Plan_interleaved_def)
next
  case (Inr computed)
  obtain r stats where c: "computed = (r, stats)" by fastforce
  define b where "b = snd (plan_begin rt)"
  have w: "watermark_changed (capture rt) (run_ops ops b) \<longleftrightarrow> watermark_moved ops b"
    using watermark_changed_exact [OF assms, of b] capture_begin(1) [of rt] by (simp add: b_def)
  obtain r' stats' where ck: "plan_check (capture rt) (run_ops ops b) computed = (r', stats')" by fastforce
  have all: "list_all (\<lambda>c. cand_currentness c = Cur_kRevalidationRequired) cs \<longleftrightarrow>
      map cand_currentness cs = replicate (length cs) Cur_kRevalidationRequired" for cs :: "Candidate list"
    by (induction cs) auto
  note P = Plan_interleaved_Inr [OF Inr, of "run_ops ops" late, folded b_def, unfolded ck]
    plan_publish_result [of "capture rt" request r' stats' "late (run_ops ops b)"]
  have l: "length (res_candidates (fst (plan_publish (capture rt) request (r', stats') (late (run_ops ops b))))) = length (res_candidates r')"
    using P(4) by (metis length_map)
  show ?thesis unfolding Inr c b_def [symmetric] Let_def sum.case prod.case P all l
    using ck w by (auto simp: c plan_check_def explain_def comp_def map_replicate_const split: if_splits)
qed

theorem Plan_publication_check_witness:
  "case compute_plan (capture small_runtime) small_request of
      Inl r \<Rightarrow> fst (Plan_interleaved (run_ops [OpApplyInvalidation small_notice]) (\<lambda>rt. rt) small_request small_runtime) = r
    | Inr _ \<Rightarrow> res_status (fst (Plan_interleaved (run_ops [OpApplyInvalidation small_notice]) (\<lambda>rt. rt) small_request small_runtime)) =
        Status_kRevalidationRequired"
  using Plan_publication_check [where ops = "[OpApplyInvalidation small_notice]" and rt = small_runtime and request = small_request and late = "\<lambda>rt. rt"]
  by (auto simp: Let_def split: sum.splits prod.splits)

text \<open>
  C12. A plan is reported CURRENT exactly when nothing it rests on is missing or has changed.  Without a published snapshot it
  never is.  With one that is well formed it is exactly when every node, link and port of its candidate paths is among the
  nodes, links and ports of the snapshot, the seven generations of the snapshot that planning reads
  (topology, link state, ports, capabilities, failure domains, epoch, policy) are the ones the plan was computed from, the
  publication watermark is the one it was computed at, the plan was not computed in diagnostic mode, and the runtime does not
  retain it as retired or marked.  The constraint generation and the snapshot identity are not compared.
\<close>

theorem CheckCurrentness_exact:
  "case run_snapshot rt of
     None \<Rightarrow> rep_currentness (CheckCurrentness p rt) \<noteq> Cur_kCurrent
   | Some s \<Rightarrow> snapshot_wf s \<longrightarrow>
      (rep_currentness (CheckCurrentness p rt) = Cur_kCurrent \<longleftrightarrow>
         (\<forall>c \<in> set (plan_candidates p).
            set (path_nodes (cand_path c)) \<subseteq> node_id ` set (snap_nodes s) \<and>
            (\<forall>h \<in> set (path_hops (cand_path c)). hop_link h \<in> edge_id ` set (snap_edges s) \<and>
               (\<exists>n \<in> set (snap_nodes s). hop_from_port h \<in> set (node_ports n)) \<and>
               (\<exists>n \<in> set (snap_nodes s). hop_to_port h \<in> set (node_ports n)))) \<and>
         (let old = ev_generations (plan_evidence p); new = snap_generations s in
            gen_topology old = gen_topology new \<and> gen_link_state old = gen_link_state new \<and> gen_ports old = gen_ports new \<and>
            gen_capabilities old = gen_capabilities new \<and> gen_failure_domains old = gen_failure_domains new \<and>
            gen_epoch old = gen_epoch new \<and> gen_policy old = gen_policy new) \<and>
         ev_publish_sequence (plan_evidence p) = run_sequence rt \<and>
         \<not> plan_diagnostic_mode p \<and>
         (\<forall>e. map_of (run_retained rt) (PlanKey (plan_id p)) = Some e \<longrightarrow> rt_currentness e \<notin> {Cur_kRetired, Cur_kRevalidationRequired}))"
proof (cases "run_snapshot rt")
  case None
  then show ?thesis by (simp add: CheckCurrentness_current)
next
  case (Some s)
  have seven: "ClassifyEvidence (plan_evidence p) (current_evidence rt) = Cur_kCurrent \<longleftrightarrow>
    (let old = ev_generations (plan_evidence p); new = snap_generations s in
       gen_topology old = gen_topology new \<and> gen_link_state old = gen_link_state new \<and> gen_ports old = gen_ports new \<and>
       gen_capabilities old = gen_capabilities new \<and> gen_failure_domains old = gen_failure_domains new \<and>
       gen_epoch old = gen_epoch new \<and> gen_policy old = gen_policy new)"
    by (simp add: ClassifyEvidence_priority current_evidence_def Some Snapshot_Evidence_def Let_def)
  show ?thesis unfolding Some option.case CheckCurrentness_current seven option.inject
    using subjects_present_iff [of s p] by (cases "map_of (run_retained rt) (PlanKey (plan_id p))") auto
qed

theorem CheckCurrentness_exact_witness:
  "rep_currentness (CheckCurrentness small_plan small_runtime) = Cur_kCurrent"
proof -
  have "path_nodes (cand_path small_candidate) = [small_id 1]" "path_hops (cand_path small_candidate) = []"
    "small_id 1 \<in> node_id ` set (snap_nodes small_snapshot)" "snap_generations small_snapshot = SnapshotGenerations_zero"
    by (simp_all add: small_candidate_def small_snapshot_def)
  moreover have "plan_candidates small_plan = [small_candidate]" "ev_generations (plan_evidence small_plan) = SnapshotGenerations_zero"
    "ev_publish_sequence (plan_evidence small_plan) = run_sequence small_runtime" "\<not> plan_diagnostic_mode small_plan"
    by (simp_all add: small_plan_def EvidenceVector_new_def small_runtime_def Retain_frame PlannerRuntime_new_def)
  ultimately show ?thesis
    using CheckCurrentness_exact [where rt = small_runtime and p = small_plan] small_wf by (simp add: small_retained small_plan_simps)
qed

text \<open>
  C11. A plan computed at the runtime's watermark is never reported CURRENT again once a snapshot was
  published, a notice applied or the epoch advanced, whatever else happened in between.
\<close>

theorem stale_plan_not_current:
  assumes "length ops < 2 ^ 64" "watermark_moved ops rt" "ev_publish_sequence (plan_evidence p) = run_sequence rt"
  shows "rep_currentness (CheckCurrentness p (run_ops ops rt)) \<noteq> Cur_kCurrent"
  using assms publication.watermark_unchanged [OF assms(1), of rt]
  by (auto simp: CheckCurrentness_current watermark_moved_iff run_ops_def)

theorem stale_plan_not_current_witness:
  "rep_currentness (CheckCurrentness small_plan (run_ops [OpResetStats, OpApplyInvalidation small_notice] small_runtime)) \<noteq> Cur_kCurrent"
  by (rule stale_plan_not_current)
    (simp_all add: small_plan_def EvidenceVector_new_def small_runtime_def Retain_frame PlannerRuntime_new_def)


text \<open>
  C13. Retaining a valid plan makes it found under its identifier; a plan that was not retained before
  displaces the oldest plans, as many as exceed the limit, and every other plan stays as it was.
\<close>

theorem Retain_fifo:
  assumes "reachable rt" "FixedId_IsValid (plan_id p)" "FindPlan (plan_id p) rt = None"
  defines "kept \<equiv> drop (length (run_order rt) + 1 - max_retained_plans (run_limits rt)) (run_order rt)"
  shows "fst (Retain p rt) \<and> run_order (snd (Retain p rt)) = kept @ [plan_id p] \<and>
    FindPlan x (snd (Retain p rt)) = (if x = plan_id p then Some p else if x \<in> set kept then FindPlan x rt else None)"
proof -
  define n where "n = length (run_order rt) + 1 - max_retained_plans (run_limits rt)"
  have ok: "store_ok rt (run_order rt)" using reachable_inv [OF assms(1)] by (simp add: runtime_inv_def runtime_ok_def)
  note E = evict_exact [OF ok, of "max_retained_plans (run_limits rt)", folded n_def]
  define a where "a = evict (max_retained_plans (run_limits rt)) (run_order rt) rt"
  have "same_store (IndexPlan p a) a" using index_subjects_spec unfolding IndexPlan_def by blast
  then have R: "fst (Retain p rt)" "run_order (snd (Retain p rt)) = drop n (run_order rt) @ [plan_id p]"
    "FindPlan x (snd (Retain p rt)) = (if x = plan_id p then Some p else map_option rt_plan (map_of (run_retained a) (PlanKey x)))"
    using assms(2,3) E by (auto simp: Retain_def FindPlan_def Let_def a_def same_store_def PlanKey_def FixedId_ToString_inj)
  have inj: "inj PlanKey" by (simp add: inj_def PlanKey_def FixedId_ToString_inj)
  have mem: "x \<in> set (run_order rt) \<longleftrightarrow> map_of (run_retained rt) (PlanKey x) \<noteq> None" for x
    using store_okD(4) [OF ok] inj_image_mem_iff [OF inj, of x "set (run_order rt)"] by (simp add: map_of_eq_None_iff)
  have "distinct (run_order rt)" using store_okD(3) [OF ok] by (simp add: distinct_map)
  then have "x \<in> set (drop n (run_order rt)) \<longleftrightarrow> x \<in> set (run_order rt) \<and> x \<notin> set (take n (run_order rt))"
    by (simp add: set_drop_distinct)
  moreover have "PlanKey x \<in> PlanKey ` set (take n (run_order rt)) \<longleftrightarrow> x \<in> set (take n (run_order rt))"
    by (rule inj_image_mem_iff [OF inj])
  ultimately show ?thesis using R E [of "PlanKey x"] mem [of x] unfolding kept_def n_def [symmetric] a_def [symmetric]
    by (auto simp: FindPlan_def)
qed

theorem Retain_fifo_witness:
  "FindPlan (small_id 7) (snd (Retain (small_plan\<lparr>plan_id := small_id 6\<rparr>) small_runtime)) = Some small_plan"
proof -
  have "PlanKey (small_id 6) \<noteq> PlanKey (small_id 7)" "FixedId_IsValid (small_id 6 :: PathPlanId)"
    by (simp_all add: PlanKey_def FixedId_ToString_inj small_id_def FixedId_IsValid_def)
  then show ?thesis
    using Retain_fifo [OF reachable_small, of "small_plan\<lparr>plan_id := small_id 6\<rparr>" "small_id 7"]
    by (simp add: FindPlan_def small_retained PlanKey_def ResourceLimits_default_def FixedId_ToString_inj)
qed

text \<open>
  An epoch that is not greater is refused without any change; a greater one is stored and moves the
  watermark.  With conservative recovery every retained plan requires revalidation afterwards, one that was
  already RETIRED included; without it the retained plans keep their currentness.
\<close>

lemma AdvanceEpoch_exact:
  "(if epoch \<le> run_epoch rt then \<not> fst (fst (AdvanceEpoch epoch recovery rt)) \<and> snd (AdvanceEpoch epoch recovery rt) = rt
    else fst (fst (AdvanceEpoch epoch recovery rt)) \<and> run_epoch (snd (AdvanceEpoch epoch recovery rt)) = epoch \<and>
      run_sequence (snd (AdvanceEpoch epoch recovery rt)) = run_sequence rt + 1 \<and>
      run_snapshot (snd (AdvanceEpoch epoch recovery rt)) = run_snapshot rt \<and>
      map_of (run_retained (snd (AdvanceEpoch epoch recovery rt))) k =
        map_option (\<lambda>e. if recovery then e\<lparr>rt_currentness := Cur_kRevalidationRequired\<rparr> else e) (map_of (run_retained rt) k))"
  by (simp add: AdvanceEpoch_def Let_def requalified option.map_ident)

lemma NextGeneration_stored:
  assumes "generations_ok rt" "0 < max_retained_plans (run_limits rt)" "NextGeneration q d rt = (g, rt')"
  shows "map_of (run_generations rt') (FixedId_ToString q) = Some \<lparr>rg_digest = d, rg_generation = g\<rparr>"
proof (cases "map_of (run_generations rt) (FixedId_ToString q)")
  case None
  let ?order = "run_generation_order rt @ [FixedId_ToString q]"
  let ?n = "length ?order - max_retained_plans (run_limits rt)"
  have fresh: "FixedId_ToString q \<notin> set (run_generation_order rt)"
    using None assms(1) by (simp add: generations_ok_def map_of_eq_None_iff)
  have "?n \<le> length (run_generation_order rt)" using assms(2) by simp
  then have "set (take ?n ?order) \<subseteq> set (run_generation_order rt)" by (simp add: set_take_subset)
  then have "FixedId_ToString q \<notin> set (take ?n ?order)" using fresh by blast
  then show ?thesis using None assms(3) by (auto simp: NextGeneration_def Let_def fold_delete_spec)
next
  case (Some r)
  then show ?thesis using assms(3) by (cases r) (auto simp: NextGeneration_def Let_def split: if_splits)
qed

text \<open>
  C14. The generation of a request is 1 the first time it is planned, stays the same while the plan stays
  semantically the same, and grows by one when it changes until it reaches the 64-bit maximum.
\<close>

theorem NextGeneration_counts:
  assumes "reachable rt" "0 < max_retained_plans (run_limits rt)" "NextGeneration q d rt = (g, rt')"
  shows "fst (NextGeneration q d' rt') = (if d' = d \<or> unat g = 2 ^ 64 - 1 then g else g + 1) \<and>
    (map_of (run_generations rt) (FixedId_ToString q) = None \<longrightarrow> g = 1)"
proof -
  have "generations_ok rt" using reachable_inv [OF assms(1)] by (simp add: runtime_inv_def)
  note S = NextGeneration_stored [OF this assms(2,3)]
  have "CheckedAdd CostValue_Max g 1 = (if unat g = 2 ^ 64 - 1 then None else Some (g + 1))"
    using unsigned_less [of g, where 'a = nat] by (simp add: CheckedAdd_eq unat_CostValue_Max)
  then show ?thesis using S assms(3) by (auto simp: NextGeneration_def Let_def)
qed

theorem NextGeneration_counts_witness:
  "fst (NextGeneration (small_id 9) [2] (snd (NextGeneration (small_id 9) [1] small_runtime))) = 2"
proof -
  have "NextGeneration (small_id 9) [1] small_runtime = (1, snd (NextGeneration (small_id 9) [1] small_runtime))"
    by (simp add: NextGeneration_def small_retained Let_def)
  from NextGeneration_counts [OF reachable_small _ this, of "[2]"] show ?thesis by (simp add: small_retained ResourceLimits_default_def)
qed

end
