(* ===== verification/Decoder.thy ===== *)
theory Decoder
  imports Planner
begin

text \<open>
  Strict decoders, as \<open>src/proto.cpp\<close> and \<open>src/store.cpp\<close> write them: a chain of reads from one
  \<open>ByteReader\<close> in which the first problem ends the chain with a detail text.  A decoder is modelled as
  a function that returns the text or the value together with the reader; the reader of a failed
  chain is never used again.  A decoder that fails without setting the text leaves the caller's, which is
  empty.  The theory has the two rules of the development's codec proofs: \<open>runs\<close> (what a decoder does on
  an encoding) and \<open>only\<close> (what a decoder accepts), and the contract \<open>exact_decoder\<close>.
\<close>

section \<open>The decoder monad\<close>

type_synonym ('e, 'a) decoder = "ByteReader \<Rightarrow> ('e + 'a) \<times> ByteReader"

definition dreturn :: "'a \<Rightarrow> ('e, 'a) decoder" where
  "dreturn x r = (Inr x, r)"

definition dfail :: "'e \<Rightarrow> ('e, 'a) decoder" where
  "dfail detail r = (Inl detail, r)"

definition dbind :: "('e, 'a) decoder \<Rightarrow> ('a \<Rightarrow> ('e, 'b) decoder) \<Rightarrow> ('e, 'b) decoder" where
  "dbind d f r = (case d r of (Inl detail, r) \<Rightarrow> (Inl detail, r) | (Inr x, r) \<Rightarrow> f x r)"

definition dguard :: "bool \<Rightarrow> 'e \<Rightarrow> ('e, 'a) decoder \<Rightarrow> ('e, 'a) decoder" where
  "dguard ok detail d = (if ok then d else dfail detail)"

text \<open>A read whose absence is reported with the given text.\<close>

definition dread :: "'e \<Rightarrow> (ByteReader \<Rightarrow> 'a option \<times> ByteReader) \<Rightarrow> ('e, 'a) decoder" where
  "dread detail get r = (case get r of (None, r) \<Rightarrow> (Inl detail, r) | (Some x, r) \<Rightarrow> (Inr x, r))"

text \<open>The counted loops: \<open>n\<close> elements, each with its index.\<close>

fun dloop :: "(nat \<Rightarrow> 'a list \<Rightarrow> ('e, 'a) decoder) \<Rightarrow> nat \<Rightarrow> 'a list \<Rightarrow> ('e, 'a list) decoder" where
  "dloop item 0 acc = dreturn acc"
| "dloop item (Suc n) acc = dbind (item (length acc) acc) (\<lambda>x. dloop item n (acc @ [x]))"

definition dlist :: "('e, 'a) decoder \<Rightarrow> nat \<Rightarrow> ('e, 'a list) decoder" where
  "dlist item n = dloop (\<lambda>_ _. item) n []"

text \<open>A whole message: after the last field the reader has to be at its end.\<close>

definition decode_message :: "'e \<Rightarrow> ('e, 'a) decoder \<Rightarrow> bytes \<Rightarrow> 'e + 'a" where
  "decode_message trailing d bytes =
     (case d (ByteReader_new bytes) of (Inl e, _) \<Rightarrow> Inl e | (Inr x, r) \<Rightarrow> if \<not> AtEnd r then Inl trailing else Inr x)"

section \<open>What a decoder does\<close>

definition runs :: "('e, 'a) decoder \<Rightarrow> bytes \<Rightarrow> 'a \<Rightarrow> bool" where
  "runs d bs x \<longleftrightarrow> (\<forall>r rest. ready r (bs @ rest) \<longrightarrow> d r = (Inr x, advance (length bs) r))"

definition only :: "('e, 'a) decoder \<Rightarrow> (bytes \<Rightarrow> 'a \<Rightarrow> bool) \<Rightarrow> bool" where
  "only d R \<longleftrightarrow> (\<forall>r bs x r'. ready r bs \<longrightarrow> d r = (Inr x, r') \<longrightarrow>
     (\<exists>cs rest. bs = cs @ rest \<and> r' = advance (length cs) r \<and> R cs x))"

lemma runsD: "runs d bs x \<Longrightarrow> ready r (bs @ rest) \<Longrightarrow> d r = (Inr x, advance (length bs) r)"
  unfolding runs_def by blast

lemma onlyE:
  assumes "only d R" "ready r bs" "d r = (Inr x, r')"
  obtains cs rest where "bs = cs @ rest" "r' = advance (length cs) r" "R cs x" "ready r' rest"
proof -
  from assms(1) [unfolded only_def, rule_format, OF assms(2,3)]
  obtain cs rest where "bs = cs @ rest" "r' = advance (length cs) r" "R cs x" by (elim exE conjE)
  with assms(2) ready_advance [of r cs rest] that show thesis by simp
qed

lemma onlyI:
  assumes "\<And>r bs x r'. ready r bs \<Longrightarrow> d r = (Inr x, r') \<Longrightarrow> \<exists>cs rest. bs = cs @ rest \<and> r' = advance (length cs) r \<and> R cs x"
  shows "only d R"
  unfolding only_def by (intro allI impI) (rule assms)

lemma runs_return: "x = y \<Longrightarrow> runs (dreturn x) [] y"
  by (simp add: runs_def dreturn_def advance_def)

lemma runs_bind:
  assumes "runs d as x" "runs (f x) bs y"
  shows "runs (dbind d f) (as @ bs) y"
  unfolding runs_def
proof (intro allI impI)
  fix r rest assume r: "ready r ((as @ bs) @ rest)"
  then have d: "d r = (Inr x, advance (length as) r)" by (intro runsD [OF assms(1)]) simp
  have "ready (advance (length as) r) (bs @ rest)" using ready_advance [of r as "bs @ rest"] r by simp
  from runsD [OF assms(2) this] d show "dbind d f r = (Inr y, advance (length (as @ bs)) r)" by (simp add: dbind_def)
qed

lemma runs_guard: "ok \<Longrightarrow> runs d bs x \<Longrightarrow> runs (dguard ok detail d) bs x"
  by (simp add: dguard_def)

lemma runs_last: "runs d bs x \<Longrightarrow> runs d (bs @ []) x"
  by simp

lemma only_return: "R [] x \<Longrightarrow> only (dreturn x) R"
  by (rule onlyI, rule exI [of _ "[]"]) (auto simp: dreturn_def advance_def)

lemma only_fail: "only (dfail detail) R"
  by (simp add: only_def dfail_def)

lemma only_bind:
  assumes "only d (\<lambda>as x. only (f x) (\<lambda>bs. R (as @ bs)))"
  shows "only (dbind d f) R"
proof (rule onlyI)
  fix r bs y r' assume r: "ready r bs" and "dbind d f r = (Inr y, r')"
  then obtain x r1 where d: "d r = (Inr x, r1)" "f x r1 = (Inr y, r')"
    by (auto simp: dbind_def split: prod.splits sum.splits)
  from assms r d(1) obtain as rest where a: "bs = as @ rest" "r1 = advance (length as) r"
    "only (f x) (\<lambda>bs. R (as @ bs))" "ready r1 rest" by (rule onlyE)
  from a(3,4) d(2) obtain cs rest' where c: "rest = cs @ rest'" "r' = advance (length cs) r1" "R (as @ cs) y" by (rule onlyE)
  show "\<exists>cs rest. bs = cs @ rest \<and> r' = advance (length cs) r \<and> R cs y"
    using a(1,2) c by (intro exI [of _ "as @ cs"] exI [of _ rest']) simp
qed

lemma only_guard: "(ok \<Longrightarrow> only d R) \<Longrightarrow> only (dguard ok detail d) R"
  by (simp add: dguard_def only_fail)

lemma only_mono:
  assumes "only d P" "\<And>cs x. P cs x \<Longrightarrow> R cs x"
  shows "only d R"
proof (rule onlyI)
  fix r bs x r' assume "ready r bs" "d r = (Inr x, r')"
  with assms(1) obtain cs rest where "bs = cs @ rest" "r' = advance (length cs) r" "P cs x" by (rule onlyE)
  with assms(2) show "\<exists>cs rest. bs = cs @ rest \<and> r' = advance (length cs) r \<and> R cs x" by (intro exI conjI)
qed

section \<open>The contract of a decoder\<close>

text \<open>
  An exact decoder accepts the encodings of the valid values and nothing else: it never accepts two
  byte sequences for one value.
\<close>

locale exact_decoder =
  fixes valid :: "'a \<Rightarrow> bool" and enc :: "'a \<Rightarrow> bytes" and dec :: "('e, 'a) decoder"
  assumes accepts: "valid x \<Longrightarrow> runs dec (enc x) x"
    and rejects: "only dec (\<lambda>cs x. valid x \<and> cs = enc x)"
begin

lemma step: "valid x \<Longrightarrow> runs (f x) bs y \<Longrightarrow> runs (dbind dec f) (enc x @ bs) y"
  by (rule runs_bind [OF accepts])

lemma last_step: "valid x \<Longrightarrow> runs (f x) [] y \<Longrightarrow> runs (dbind dec f) (enc x) y"
  using step [of x f "[]" y] by simp

lemma only_step: "(\<And>x. valid x \<Longrightarrow> only (f x) (\<lambda>bs. R (enc x @ bs))) \<Longrightarrow> only (dbind dec f) R"
  by (rule only_bind [OF only_mono [OF rejects]]) simp

text \<open>A message is decoded completely: nothing may follow it.\<close>

lemma message: "decode_message trailing dec bs = Inr x \<longleftrightarrow> valid x \<and> bs = enc x"
proof
  assume "decode_message trailing dec bs = Inr x"
  then obtain r where r: "dec (ByteReader_new bs) = (Inr x, r)" "AtEnd r"
    by (auto simp: decode_message_def split: prod.splits sum.splits if_splits)
  from rejects ready_new r(1) obtain cs rest where "bs = cs @ rest" "valid x \<and> cs = enc x" "ready r rest" by (rule onlyE)
  with r(2) show "valid x \<and> bs = enc x" by (simp add: ready_AtEnd)
next
  assume v: "valid x \<and> bs = enc x"
  then have "dec (ByteReader_new bs) = (Inr x, advance (length bs) (ByteReader_new bs))"
    using runsD [OF accepts [of x], of "ByteReader_new bs" "[]"] by simp
  then show "decode_message trailing dec bs = Inr x"
    by (simp add: decode_message_def advance_def AtEnd_def ByteReader_new_def)
qed

lemma prefix_free: "valid x \<Longrightarrow> valid y \<Longrightarrow> enc x @ as = enc y @ bs \<Longrightarrow> x = y \<and> as = bs"
  using runsD [OF accepts [of x], of "ByteReader_new (enc x @ as)" as] runsD [OF accepts [of y], of "ByteReader_new (enc y @ bs)" bs]
  by auto

end

text \<open>
  Loops: an element may depend on those before it.  \<open>follows V acc xs\<close>: every element of \<open>xs\<close> is valid after \<open>acc\<close> and the
  elements before it.
\<close>

fun follows :: "('a list \<Rightarrow> 'a \<Rightarrow> bool) \<Rightarrow> 'a list \<Rightarrow> 'a list \<Rightarrow> bool" where
  "follows V acc [] = True"
| "follows V acc (x # xs) = (V acc x \<and> follows V (acc @ [x]) xs)"

lemma follows_const: "follows (\<lambda>_. valid) acc xs \<longleftrightarrow> (\<forall>x \<in> set xs. valid x)"
  by (induction xs arbitrary: acc) auto

lemma exact_loop_acc:
  assumes "\<And>acc. exact_decoder (V acc) enc (item (length acc) acc)"
  shows "follows V acc xs \<Longrightarrow> runs (dloop item (length xs) acc) (concat (map enc xs)) (acc @ xs)"
    and "only (dloop item n acc) (\<lambda>cs ys. \<exists>xs. ys = acc @ xs \<and> length xs = n \<and> follows V acc xs \<and> cs = concat (map enc xs))"
proof -
  show "follows V acc xs \<Longrightarrow> runs (dloop item (length xs) acc) (concat (map enc xs)) (acc @ xs)"
  proof (induction xs arbitrary: acc)
    case Nil
    then show ?case by (simp add: runs_return)
  next
    case (Cons x xs)
    then show ?case using exact_decoder.step [OF assms, of acc x _ "concat (map enc xs)" "acc @ x # xs"] Cons.IH [of "acc @ [x]"] by simp
  qed
  show "only (dloop item n acc) (\<lambda>cs ys. \<exists>xs. ys = acc @ xs \<and> length xs = n \<and> follows V acc xs \<and> cs = concat (map enc xs))"
  proof (induction n arbitrary: acc)
    case 0
    then show ?case by (simp add: only_return)
  next
    case (Suc n)
    have "only (dloop item n (acc @ [x])) (\<lambda>bs ys. \<exists>xs. ys = acc @ xs \<and> length xs = Suc n \<and> follows V acc xs \<and> enc x @ bs = concat (map enc xs))"
      if "V acc x" for x
      using Suc.IH [of "acc @ [x]"]
    proof (rule only_mono)
      fix cs ys assume "\<exists>xs. ys = (acc @ [x]) @ xs \<and> length xs = n \<and> follows V (acc @ [x]) xs \<and> cs = concat (map enc xs)"
      then obtain xs where "ys = (acc @ [x]) @ xs" "length xs = n" "follows V (acc @ [x]) xs" "cs = concat (map enc xs)" by blast
      with that show "\<exists>xs. ys = acc @ xs \<and> length xs = Suc n \<and> follows V acc xs \<and> enc x @ cs = concat (map enc xs)"
        by (intro exI [of _ "x # xs"]) simp
    qed
    then show ?case by (simp add: exact_decoder.only_step [OF assms])
  qed
qed

lemma exact_loop:
  assumes "\<And>acc. exact_decoder (V acc) enc (item (length acc) acc)"
  shows "exact_decoder (\<lambda>xs. length xs = n \<and> follows V [] xs) (\<lambda>xs. concat (map enc xs)) (dloop item n [])"
proof
  show "runs (dloop item n []) (concat (map enc xs)) xs" if "length xs = n \<and> follows V [] xs" for xs
    using exact_loop_acc(1) [of V enc item, OF assms, of "[]" xs] that by auto
  show "only (dloop item n []) (\<lambda>cs x. (length x = n \<and> follows V [] x) \<and> cs = concat (map enc x))"
    using exact_loop_acc(2) [of V enc item, OF assms, of n "[]"] by simp
qed

lemma exact_list:
  assumes "exact_decoder valid enc item"
  shows "exact_decoder (\<lambda>xs. length xs = n \<and> (\<forall>x \<in> set xs. valid x)) (\<lambda>xs. concat (map enc xs)) (dlist item n)"
  using exact_loop [of "\<lambda>_. valid" enc "\<lambda>_ _. item" n, OF assms] by (simp add: dlist_def follows_const)

section \<open>Single values\<close>

context strict_codec
begin

lemma exact_read: "exact_decoder valid enc (dread detail get)"
proof
  show "runs (dread detail get) (enc x) x" if "valid x" for x
    using get_enc [OF that] by (simp add: runs_def dread_def)
  show "only (dread detail get) (\<lambda>cs x. valid x \<and> cs = enc x)"
    by (rule onlyI) (auto simp: dread_def dest!: get_sound split: prod.splits option.splits)
qed

end

lemmas exact_u32 = u32.exact_read
lemmas exact_u64 = u64.exact_read
lemmas exact_var = var.exact_read
lemmas exact_bool = boolean.exact_read
lemmas exact_fixed = fixed.exact_read
lemmas exact_text = str.exact_read

text \<open>An identifier, refused when it is nil, and one that may be nil.\<close>

definition decode_id :: "'e \<Rightarrow> 'e \<Rightarrow> nat \<Rightarrow> ('e, 'tag FixedId) decoder" where
  "decode_id truncated nil n = dbind (dread truncated (read_FixedBytes n)) (\<lambda>bs. dguard (FixedId_IsValid (FixedId bs :: 'tag FixedId)) nil (dreturn (FixedId bs)))"

definition decode_any_id :: "'e \<Rightarrow> nat \<Rightarrow> ('e, 'tag FixedId) decoder" where
  "decode_any_id truncated n = dbind (dread truncated (read_FixedBytes n)) (\<lambda>bs. dreturn (FixedId bs))"

lemma exact_id: "exact_decoder (\<lambda>x. id_ok n x \<and> FixedId_IsValid x) id_bytes (decode_id truncated nil n)"
proof
  show "runs (decode_id truncated nil n) (id_bytes x) x" if "id_ok n x \<and> FixedId_IsValid x" for x :: "'a FixedId"
    unfolding decode_id_def
    by (rule exact_decoder.last_step [OF exact_fixed]) (use that in \<open>simp_all add: id_ok_def dguard_def runs_return\<close>)
qed (auto simp: decode_id_def id_ok_def intro!: exact_decoder.only_step [OF exact_fixed] only_guard only_return)

lemma exact_any_id: "exact_decoder (id_ok n) id_bytes (decode_any_id truncated n)"
proof
  show "runs (decode_any_id truncated n) (id_bytes x) x" if "id_ok n x" for x :: "'a FixedId"
    unfolding decode_any_id_def
    by (rule exact_decoder.last_step [OF exact_fixed]) (use that in \<open>simp_all add: id_ok_def runs_return\<close>)
qed (auto simp: decode_any_id_def id_ok_def intro!: exact_decoder.only_step [OF exact_fixed] only_return)

text \<open>Bounded integers.\<close>

definition decode_strong :: "'e \<Rightarrow> 'e \<Rightarrow> ('e, u64) decoder" where
  "decode_strong missing outside = dbind (dread missing read_U64)
     (\<lambda>raw. case TryFrom 0xFFFFFFFFFFFFFFFF raw of None \<Rightarrow> dfail outside | Some v \<Rightarrow> dreturn v)"

definition decode_bounded :: "u32 \<Rightarrow> 'e \<Rightarrow> 'e \<Rightarrow> ('e, u32) decoder" where
  "decode_bounded bound missing outside = dbind (dread missing read_U32)
     (\<lambda>raw. case TryFrom bound raw of None \<Rightarrow> dfail outside | Some v \<Rightarrow> dreturn v)"

definition decode_count :: "'e \<Rightarrow> ('e, nat) decoder" where
  "decode_count missing = dbind (dread missing read_U32) (\<lambda>v. dreturn (unat v))"

lemma exact_strong: "exact_decoder (\<lambda>_. True) (le_bytes 8) (decode_strong missing outside)"
proof -
  have "decode_strong missing outside = dread missing read_U64"
  proof -
    have "TryFrom 0xFFFFFFFFFFFFFFFF v = Some v" for v :: u64
      using unsigned_less [of v, where 'a = nat] by (simp add: TryFrom_def not_less word_le_nat_alt)
    then show ?thesis by (auto simp: decode_strong_def dbind_def dreturn_def fun_eq_iff split: prod.split sum.split)
  qed
  then show ?thesis using exact_u64 by simp
qed

lemma exact_bounded: "exact_decoder (\<lambda>v. v \<le> bound) (le_bytes 4) (decode_bounded bound missing outside)"
proof
  show "runs (decode_bounded bound missing outside) (le_bytes 4 v) v" if "v \<le> bound" for v
    unfolding decode_bounded_def
    by (rule exact_decoder.last_step [OF exact_u32 TrueI]) (use that in \<open>auto simp: TryFrom_def runs_return dest: leD\<close>)
qed (auto simp: decode_bounded_def TryFrom_def not_less intro!: exact_decoder.only_step [OF exact_u32] only_return only_fail)

lemma exact_count: "exact_decoder (\<lambda>n. n < 2 ^ 32) (\<lambda>n. le_bytes 4 (of_nat n :: u32)) (decode_count missing)"
proof
  show "runs (decode_count missing) (le_bytes 4 (of_nat n :: u32)) n" if "n < 2 ^ 32" for n
    unfolding decode_count_def
    by (rule exact_decoder.last_step [OF exact_u32 TrueI]) (use that in \<open>simp add: runs_return unat_of_nat_less\<close>)
  have "unat v < 2 ^ 32" for v :: u32 using unsigned_less [of v, where 'a = nat] by simp
  then show "only (decode_count missing) (\<lambda>cs n. n < 2 ^ 32 \<and> cs = le_bytes 4 (of_nat n :: u32))"
    by (auto simp: decode_count_def intro!: exact_decoder.only_step [OF exact_u32] only_return)
qed

text \<open>Enumerations: the value has to be one the name table lists.\<close>

definition decode_enum :: "'e \<Rightarrow> (u32 \<Rightarrow> 'e) \<Rightarrow> EnumEntry list \<Rightarrow> (nat \<Rightarrow> 'c option) \<Rightarrow> ('e, 'c) decoder" where
  "decode_enum missing unknown table cast = dbind (dread missing read_U32)
     (\<lambda>raw. dguard (IsKnownEnumValue table (unat raw)) (unknown raw) (dreturn (the (cast (unat raw)))))"

locale wire_enum = enum_table +
  assumes narrow: "list_all (\<lambda>e. snd e < 2 ^ 32) table"
begin

lemma value_narrow: "known x \<Longrightarrow> value_of x < 2 ^ 32"
  using known_listed [of x] narrow by (auto simp: list_all_iff)

lemma exact_enum: "exact_decoder known (\<lambda>x. le_bytes 4 (of_nat (value_of x) :: u32)) (decode_enum missing unknown table cast)"
proof
  show "runs (decode_enum missing unknown table cast) (le_bytes 4 (of_nat (value_of x) :: u32)) x" if x: "known x" for x
  proof -
    have v: "unat (of_nat (value_of x) :: u32) = value_of x" using value_narrow [OF x] by (simp add: unat_of_nat_less)
    then have "IsKnownEnumValue table (unat (of_nat (value_of x) :: u32))" using known_iff x by auto
    then show ?thesis
      unfolding decode_enum_def
      by (intro exact_decoder.last_step [OF exact_u32 TrueI] runs_guard runs_return) (simp_all add: v cast_value [OF x])
  qed
  show "only (decode_enum missing unknown table cast) (\<lambda>cs x. known x \<and> cs = le_bytes 4 (of_nat (value_of x) :: u32))"
    unfolding decode_enum_def
  proof (intro exact_decoder.only_step [OF exact_u32] only_guard)
    fix raw :: u32 assume "IsKnownEnumValue table (unat raw)"
    then obtain x where x: "known x" "value_of x = unat raw" using known_iff by blast
    with cast_value [OF x(1)] have "the (cast (unat raw)) = x" by simp
    moreover have "of_nat (value_of x) = raw" using x(2) by simp
    ultimately show "only (dreturn (the (cast (unat raw))))
       (\<lambda>bs x. known x \<and> le_bytes 4 raw @ bs = le_bytes 4 (of_nat (value_of x) :: u32))"
      using x(1) by (auto intro!: only_return)
  qed
qed

end

text \<open>A vector: its length, checked against a limit before anything is read, and its elements.\<close>

definition decode_vector :: "'e \<Rightarrow> 'e \<Rightarrow> nat \<Rightarrow> ('e, 'a) decoder \<Rightarrow> ('e, 'a list) decoder" where
  "decode_vector missing too_many limit item = dbind (dread missing read_VarU64)
     (\<lambda>n. dguard (\<not> unat n > limit) too_many (dlist item (unat n)))"

definition enc_vector :: "('a \<Rightarrow> bytes) \<Rightarrow> 'a list \<Rightarrow> bytes" where
  "enc_vector enc xs = enc_VarU64 (of_nat (length xs)) @ concat (map enc xs)"

lemma exact_vector:
  assumes "exact_decoder valid enc item"
  shows "exact_decoder (\<lambda>xs. length xs \<le> limit \<and> length xs < 2 ^ 64 \<and> (\<forall>x \<in> set xs. valid x)) (enc_vector enc)
    (decode_vector missing too_many limit item)"
proof
  fix xs assume xs: "length xs \<le> limit \<and> length xs < 2 ^ 64 \<and> (\<forall>x \<in> set xs. valid x)"
  then have n: "unat (of_nat (length xs) :: u64) = length xs" by (simp add: unat_of_nat_less)
  have "runs (dlist item (length xs)) (concat (map enc xs)) xs"
    by (rule exact_decoder.accepts [OF exact_list [OF assms]]) (use xs in simp)
  then show "runs (decode_vector missing too_many limit item) (enc_vector enc xs) xs"
    unfolding decode_vector_def enc_vector_def
    by (intro exact_decoder.step [OF exact_var] runs_guard) (use xs n in auto)
next
  have "unat n < 2 ^ 64" for n :: u64 using unsigned_less [of n, where 'a = nat] by simp
  then show "only (decode_vector missing too_many limit item)
     (\<lambda>cs x. (length x \<le> limit \<and> length x < 2 ^ 64 \<and> (\<forall>x \<in> set x. valid x)) \<and> cs = enc_vector enc x)"
    unfolding decode_vector_def
    by (intro exact_decoder.only_step [OF exact_var] only_guard only_mono [OF exact_decoder.rejects [OF exact_list [OF assms]]])
      (auto simp: enc_vector_def)
qed

text \<open>A flag and, when it is set, a value.\<close>

definition decode_optional :: "'e \<Rightarrow> ('e, 'a) decoder \<Rightarrow> ('e, 'a option) decoder" where
  "decode_optional missing item = dbind (dread missing read_Bool)
     (\<lambda>present. if present then dbind item (\<lambda>x. dreturn (Some x)) else dreturn None)"

definition enc_bool :: "bool \<Rightarrow> bytes" where
  "enc_bool b = [if b then 1 else 0]"

definition enc_optional :: "('a \<Rightarrow> bytes) \<Rightarrow> 'a option \<Rightarrow> bytes" where
  "enc_optional enc x = enc_bool (x \<noteq> None) @ (case x of None \<Rightarrow> [] | Some y \<Rightarrow> enc y)"

lemma exact_flag: "exact_decoder (\<lambda>_. True) enc_bool (dread missing read_Bool)"
  using exact_bool by (simp add: enc_bool_def [abs_def])

lemma exact_optional:
  assumes "exact_decoder valid enc item"
  shows "exact_decoder (pred_option valid) (enc_optional enc) (decode_optional missing item)"
proof
  fix x assume x: "pred_option valid x"
  show "runs (decode_optional missing item) (enc_optional enc x) x"
    unfolding decode_optional_def enc_optional_def
    by (rule exact_decoder.step [OF exact_flag TrueI])
      (use x in \<open>auto simp: runs_return intro!: exact_decoder.last_step [OF assms] split: option.split\<close>)
next
  show "only (decode_optional missing item) (\<lambda>cs x. pred_option valid x \<and> cs = enc_optional enc x)"
    unfolding decode_optional_def
    by (rule exact_decoder.only_step [OF exact_flag])
      (auto simp: enc_optional_def intro!: only_return exact_decoder.only_step [OF assms])
qed

lemma emits_vector:
  assumes "\<And>x. emits (put x) (enc x)" "emits f bs"
  shows "emits (\<lambda>w. fold put xs (write_VarU64 (of_nat (length xs)) (f w))) (bs @ enc_vector enc xs)"
  unfolding enc_vector_def append_assoc [symmetric] by (intro emits_then_fold emits_then assms)

section \<open>The enumerations\<close>

interpretation PlanStatus_wire: wire_enum PlanStatus_value PlanStatus_cast kPlanStatusNames "\<lambda>_. True"
  by unfold_locales (simp add: kPlanStatusNames_def)

interpretation Currentness_wire: wire_enum Currentness_value Currentness_cast kCurrentnessNames "\<lambda>_. True"
  by unfold_locales (simp add: kCurrentnessNames_def)

interpretation PathLayer_wire: wire_enum PathLayer_value PathLayer_cast kPathLayerNames "\<lambda>x. case x of Layer_other v \<Rightarrow> False | _ \<Rightarrow> True"
  by unfold_locales (simp add: kPathLayerNames_def)

interpretation RelationshipType_wire: wire_enum RelationshipType_value RelationshipType_cast kRelationshipTypeNames "\<lambda>_. True"
  by unfold_locales (simp add: kRelationshipTypeNames_def)

interpretation EndpointClass_wire: wire_enum EndpointClass_value EndpointClass_cast kEndpointClassNames "\<lambda>_. True"
  by unfold_locales (simp add: kEndpointClassNames_def)

interpretation EvidenceSource_wire: wire_enum EvidenceSource_value EvidenceSource_cast kEvidenceSourceNames "\<lambda>_. True"
  by unfold_locales (simp add: kEvidenceSourceNames_def)

interpretation PlanningMode_wire: wire_enum PlanningMode_value PlanningMode_cast kPlanningModeNames "\<lambda>x. case x of Mode_other v \<Rightarrow> False | _ \<Rightarrow> True"
  by unfold_locales (simp add: kPlanningModeNames_def)

interpretation AuthorityValidation_wire: wire_enum AuthorityValidation_value AuthorityValidation_cast kAuthorityValidationNames "\<lambda>_. True"
  by unfold_locales (simp add: kAuthorityValidationNames_def)

interpretation DiagnosticCode_wire: wire_enum DiagnosticCode_value DiagnosticCode_cast kDiagnosticCodeNames
  "\<lambda>c. DiagnosticCode_value c \<in> snd ` set kDiagnosticCodeNames"
  by unfold_locales (simp add: kDiagnosticCodeNames_def)

interpretation SubjectKind_wire: wire_enum SubjectKind_value SubjectKind_cast kSubjectKindNames "\<lambda>_. True"
  by unfold_locales (simp add: kSubjectKindNames_def)

lemma layer_known: "(case l of Layer_other v \<Rightarrow> False | _ \<Rightarrow> True) \<longleftrightarrow> layer_named l"
  by (cases l) (simp_all add: layer_named_def)

lemma exact_layer: "exact_decoder layer_named (\<lambda>x. le_bytes 4 (of_nat (PathLayer_value x) :: u32)) (decode_enum missing unknown kPathLayerNames PathLayer_cast)"
  using PathLayer_wire.exact_enum by (simp add: layer_known)

section \<open>Generations and evidence\<close>

text \<open>The fields of both readers are the same; the texts of their problems differ and are arguments.\<close>

definition generations_decoder :: "(string \<Rightarrow> ('e, u64) decoder) \<Rightarrow> ('e, SnapshotGenerations) decoder" where
  "generations_decoder strong =
     dbind (strong ''topology generation'') (\<lambda>topology. dbind (strong ''link-state generation'') (\<lambda>link_state.
     dbind (strong ''port generation'') (\<lambda>ports. dbind (strong ''capability generation'') (\<lambda>capabilities.
     dbind (strong ''failure-domain generation'') (\<lambda>failure_domains. dbind (strong ''fabric epoch'') (\<lambda>epoch.
     dbind (strong ''policy generation'') (\<lambda>policy. dbind (strong ''constraint generation'') (\<lambda>constraints.
       dreturn \<lparr>gen_topology = topology, gen_link_state = link_state, gen_ports = ports, gen_capabilities = capabilities,
         gen_failure_domains = failure_domains, gen_epoch = epoch, gen_policy = policy, gen_constraints = constraints\<rparr>))))))))"

lemma exact_generations:
  assumes "\<And>name. exact_decoder (\<lambda>_. True) (le_bytes 8) (strong name)"
  shows "exact_decoder (\<lambda>_. True) enc_generations (generations_decoder strong)"
proof
  show "runs (generations_decoder strong) (enc_generations g) g" for g
    unfolding generations_decoder_def enc_generations_def
    by (intro exact_decoder.step [OF assms TrueI] exact_decoder.last_step [OF assms TrueI] runs_return) simp
qed (auto simp: generations_decoder_def enc_generations_def intro!: exact_decoder.only_step [OF assms] only_return)

definition evidence_decoder :: "('e, SnapshotId) decoder \<Rightarrow> ('e, SnapshotGenerations) decoder \<Rightarrow> ('e, EvidenceSource) decoder \<Rightarrow>
    ('e, u64) decoder \<Rightarrow> ('e, EvidenceVector) decoder" where
  "evidence_decoder snapshot generations source sequence =
     dbind snapshot (\<lambda>snapshot. dbind generations (\<lambda>generations. dbind source (\<lambda>source. dbind sequence (\<lambda>sequence.
       dreturn \<lparr>ev_snapshot = snapshot, ev_generations = generations, ev_source = source, ev_publish_sequence = sequence\<rparr>))))"

abbreviation id_present :: "nat \<Rightarrow> 'tag FixedId \<Rightarrow> bool" where
  "id_present n x \<equiv> id_ok n x \<and> FixedId_IsValid x"

definition wire_evidence :: "EvidenceVector \<Rightarrow> bool" where
  "wire_evidence e \<longleftrightarrow> id_present 16 (ev_snapshot e)"

lemma exact_evidence:
  assumes "exact_decoder (id_present 16) id_bytes snapshot" "exact_decoder (\<lambda>_. True) enc_generations generations"
    "exact_decoder (\<lambda>_. True) (\<lambda>x. le_bytes 4 (of_nat (EvidenceSource_value x) :: u32)) source" "exact_decoder (\<lambda>_. True) (le_bytes 8) sequence"
  shows "exact_decoder wire_evidence enc_evidence (evidence_decoder snapshot generations source sequence)"
proof
  show "runs (evidence_decoder snapshot generations source sequence) (enc_evidence e) e" if "wire_evidence e" for e
    using that unfolding evidence_decoder_def enc_evidence_def wire_evidence_def
    by (intro exact_decoder.step [OF assms(1)] exact_decoder.step [OF assms(2)] exact_decoder.step [OF assms(3)]
        exact_decoder.last_step [OF assms(4)] runs_return) simp_all
qed (auto simp: evidence_decoder_def enc_evidence_def wire_evidence_def
    intro!: exact_decoder.only_step [OF assms(1)] exact_decoder.only_step [OF assms(2)] exact_decoder.only_step [OF assms(3)]
      exact_decoder.only_step [OF assms(4)] only_return)

section \<open>Paths\<close>

definition hop_decoder :: "('e, LinkId) decoder \<Rightarrow> ('e, NodeId) decoder \<Rightarrow> ('e, NodeId) decoder \<Rightarrow> ('e, PortId) decoder \<Rightarrow>
    ('e, PortId) decoder \<Rightarrow> ('e, PathLayer) decoder \<Rightarrow> ('e, RelationshipType) decoder \<Rightarrow> ('e, u64) decoder \<Rightarrow> 'e \<Rightarrow>
    ('e, PathHop) decoder" where
  "hop_decoder link source target from_port to_port layer relationship generation no_cost =
     dbind link (\<lambda>link. dbind source (\<lambda>source. dbind target (\<lambda>target. dbind from_port (\<lambda>from_port. dbind to_port (\<lambda>to_port.
     dbind layer (\<lambda>layer. dbind relationship (\<lambda>relationship. dbind generation (\<lambda>generation. dbind (dread no_cost read_U32) (\<lambda>static_cost.
       dreturn \<lparr>hop_link = link, hop_from = source, hop_to = target, hop_from_port = from_port, hop_to_port = to_port,
         hop_layer = layer, hop_relationship = relationship, hop_structural_generation = generation,
         hop_static_cost = static_cost, hop_link_state = Link_kUnknown, hop_degraded = False\<rparr>)))))))))"

definition wire_hop :: "PathHop \<Rightarrow> bool" where
  "wire_hop h \<longleftrightarrow> id_present 16 (hop_link h) \<and> id_present 16 (hop_from h) \<and> id_present 16 (hop_to h) \<and>
     id_present 16 (hop_from_port h) \<and> id_present 16 (hop_to_port h) \<and> layer_named (hop_layer h) \<and>
     hop_link_state h = Link_kUnknown \<and> \<not> hop_degraded h"

lemma exact_hop:
  assumes "exact_decoder (id_present 16) id_bytes link" "exact_decoder (id_present 16) id_bytes source"
    "exact_decoder (id_present 16) id_bytes target" "exact_decoder (id_present 16) id_bytes from_port"
    "exact_decoder (id_present 16) id_bytes to_port"
    "exact_decoder layer_named (\<lambda>x. le_bytes 4 (of_nat (PathLayer_value x) :: u32)) layer"
    "exact_decoder (\<lambda>_. True) (\<lambda>x. le_bytes 4 (of_nat (RelationshipType_value x) :: u32)) relationship"
    "exact_decoder (\<lambda>_. True) (le_bytes 8) generation"
  shows "exact_decoder wire_hop enc_hop (hop_decoder link source target from_port to_port layer relationship generation no_cost)"
proof
  show "runs (hop_decoder link source target from_port to_port layer relationship generation no_cost) (enc_hop h) h"
    if "wire_hop h" for h
    using that unfolding hop_decoder_def enc_hop_def wire_hop_def
    by (intro exact_decoder.step [OF assms(1)] exact_decoder.step [OF assms(2)] exact_decoder.step [OF assms(3)]
        exact_decoder.step [OF assms(4)] exact_decoder.step [OF assms(5)] exact_decoder.step [OF assms(6)]
        exact_decoder.step [OF assms(7)] exact_decoder.step [OF assms(8)] exact_decoder.last_step [OF exact_u32] runs_return) simp_all
qed (auto simp: hop_decoder_def enc_hop_def wire_hop_def
    intro!: exact_decoder.only_step [OF assms(1)] exact_decoder.only_step [OF assms(2)] exact_decoder.only_step [OF assms(3)]
      exact_decoder.only_step [OF assms(4)] exact_decoder.only_step [OF assms(5)] exact_decoder.only_step [OF assms(6)]
      exact_decoder.only_step [OF assms(7)] exact_decoder.only_step [OF assms(8)] exact_decoder.only_step [OF exact_u32] only_return)

definition path_decoder :: "'e \<Rightarrow> ('e, NodeId) decoder \<Rightarrow> ('e, NodeId) decoder \<Rightarrow> ('e, PathLayer) decoder \<Rightarrow> 'e \<Rightarrow> nat \<Rightarrow>
    ('e, PathHop) decoder \<Rightarrow> 'e \<Rightarrow> 'e \<Rightarrow> ('e, CandidatePath) decoder" where
  "path_decoder version source destination layer too_long limit hop malformed not_simple =
     dbind (dread version read_U32) (\<lambda>encoding_version. dguard (encoding_version = kPathEncodingVersion) version (
     dbind source (\<lambda>source. dbind destination (\<lambda>destination. dbind layer (\<lambda>layer.
     dbind (decode_vector too_long too_long limit hop) (\<lambda>hops.
       let path = \<lparr>path_source = source, path_destination = destination, path_layer = layer,
             path_nodes = source # map hop_to hops, path_hops = hops\<rparr>
       in dguard (IsWellFormed path) malformed (dguard (IsSimple path) not_simple (dreturn path))))))))"

definition wire_path :: "nat \<Rightarrow> CandidatePath \<Rightarrow> bool" where
  "wire_path limit p \<longleftrightarrow> id_present 16 (path_source p) \<and> id_present 16 (path_destination p) \<and> layer_named (path_layer p) \<and>
     length (path_hops p) \<le> limit \<and> length (path_hops p) < 2 ^ 64 \<and> (\<forall>h \<in> set (path_hops p). wire_hop h) \<and> IsWellFormed p \<and> IsSimple p"

lemma IsWellFormed_nodes:
  assumes "IsWellFormed p"
  shows "path_nodes p = path_source p # map hop_to (path_hops p)"
proof (rule nth_equalityI)
  have n: "length (path_nodes p) = length (path_hops p) + 1" "path_nodes p \<noteq> []" "hd (path_nodes p) = path_source p"
    using assms by (auto simp: IsWellFormed_def split: if_splits)
  show "length (path_nodes p) = length (path_source p # map hop_to (path_hops p))" using n by simp
  show "path_nodes p ! i = (path_source p # map hop_to (path_hops p)) ! i" if "i < length (path_nodes p)" for i
  proof (cases i)
    case 0
    then show ?thesis using n by (simp add: hd_conv_nth)
  next
    case (Suc j)
    then have "j < length (path_hops p)" using that n by simp
    then have "hop_to (path_hops p ! j) = path_nodes p ! (j + 1)"
      using assms by (auto simp: IsWellFormed_def list_all_iff Let_def split: if_splits)
    then show ?thesis using Suc \<open>j < length (path_hops p)\<close> by simp
  qed
qed

lemma enc_path_vector: "enc_path p = le_bytes 4 kPathEncodingVersion @ id_bytes (path_source p) @ id_bytes (path_destination p) @
     le_bytes 4 (of_nat (PathLayer_value (path_layer p)) :: u32) @ enc_vector enc_hop (path_hops p)"
  by (simp add: enc_path_def enc_vector_def)

lemma exact_path:
  assumes "exact_decoder (id_present 16) id_bytes source" "exact_decoder (id_present 16) id_bytes destination"
    "exact_decoder layer_named (\<lambda>x. le_bytes 4 (of_nat (PathLayer_value x) :: u32)) layer" "exact_decoder wire_hop enc_hop hop"
  shows "exact_decoder (wire_path limit) enc_path
    (path_decoder version source destination layer too_long limit hop malformed not_simple)"
proof
  fix p assume p: "wire_path limit p"
  let ?p = "\<lparr>path_source = path_source p, path_destination = path_destination p, path_layer = path_layer p,
      path_nodes = path_source p # map hop_to (path_hops p), path_hops = path_hops p\<rparr>"
  have eq: "?p = p" using IsWellFormed_nodes [of p] p by (simp add: wire_path_def)
  show "runs (path_decoder version source destination layer too_long limit hop malformed not_simple) (enc_path p) p"
    using p unfolding path_decoder_def enc_path_vector wire_path_def Let_def
    by (intro exact_decoder.step [OF exact_u32] runs_guard exact_decoder.step [OF assms(1)] exact_decoder.step [OF assms(2)]
        exact_decoder.step [OF assms(3)] exact_decoder.last_step [OF exact_vector [OF assms(4)]] runs_return) (simp_all only: eq, simp_all)
qed (auto simp: path_decoder_def enc_path_vector wire_path_def Let_def
    intro!: exact_decoder.only_step [OF exact_u32] only_guard exact_decoder.only_step [OF assms(1)] exact_decoder.only_step [OF assms(2)]
      exact_decoder.only_step [OF assms(3)] exact_decoder.only_step [OF exact_vector [OF assms(4)]] only_return)

section \<open>Costs\<close>

definition enc_cost :: "PathCost \<Rightarrow> bytes" where
  "enc_cost c = le_bytes 8 (cost_total c) @ le_bytes 8 (cost_hops_cost c) @ le_bytes 8 (cost_static c) @ le_bytes 8 (cost_degraded c) @
     le_bytes 8 (cost_locality c) @ le_bytes 4 (cost_hops c) @ le_bytes 4 (cost_degraded_hops c) @ le_bytes 4 (cost_locality_breaches c)"

definition write_cost :: "PathCost \<Rightarrow> ByteWriter \<Rightarrow> ByteWriter" where
  "write_cost c w =
     (let w = write_U64 (cost_total c) w;
          w = write_U64 (cost_hops_cost c) w;
          w = write_U64 (cost_static c) w;
          w = write_U64 (cost_degraded c) w;
          w = write_U64 (cost_locality c) w;
          w = write_U32 (cost_hops c) w;
          w = write_U32 (cost_degraded_hops c) w
      in write_U32 (cost_locality_breaches c) w)"

lemma emits_write_cost: "emits (write_cost c) (enc_cost c)"
  unfolding write_cost_def [abs_def] Let_def
  by (rule emits_eqI, (rule emits_then emits_id)+) (simp add: enc_cost_def)

text \<open>The eight fields, before the checks: the hop count is read as a plain 32-bit value.\<close>

definition cost_fields :: "'e \<Rightarrow> ('e, PathCost) decoder" where
  "cost_fields truncated =
     dbind (dread truncated read_U64) (\<lambda>total. dbind (dread truncated read_U64) (\<lambda>hops_cost.
     dbind (dread truncated read_U64) (\<lambda>static_cost. dbind (dread truncated read_U64) (\<lambda>degraded.
     dbind (dread truncated read_U64) (\<lambda>locality. dbind (dread truncated read_U32) (\<lambda>hops.
     dbind (dread truncated read_U32) (\<lambda>degraded_hops. dbind (dread truncated read_U32) (\<lambda>locality_breaches.
       dreturn \<lparr>cost_hops_cost = hops_cost, cost_static = static_cost, cost_degraded = degraded, cost_locality = locality,
         cost_total = total, cost_hops = hops, cost_degraded_hops = degraded_hops, cost_locality_breaches = locality_breaches\<rparr>))))))))"

lemma exact_cost_fields: "exact_decoder (\<lambda>_. True) enc_cost (cost_fields truncated)"
proof
  show "runs (cost_fields truncated) (enc_cost c) c" for c
    unfolding cost_fields_def enc_cost_def
    by (intro exact_decoder.step [OF exact_u64 TrueI] exact_decoder.step [OF exact_u32 TrueI]
        exact_decoder.last_step [OF exact_u32 TrueI] runs_return) simp
qed (auto simp: cost_fields_def enc_cost_def intro!: exact_decoder.only_step [OF exact_u64] exact_decoder.only_step [OF exact_u32] only_return)

text \<open>What both readers demand of a cost: the hop count is in range, the components add up to the total without
  overflow, and no penalty count exceeds the hop count.\<close>

definition wire_cost :: "PathCost \<Rightarrow> bool" where
  "wire_cost c \<longleftrightarrow> cost_hops c \<le> kMaxHopCount \<and>
     unat (cost_hops_cost c) + unat (cost_static c) + unat (cost_degraded c) + unat (cost_locality c) = unat (cost_total c) \<and>
     cost_degraded_hops c \<le> cost_hops c \<and> cost_locality_breaches c \<le> cost_hops c"

definition cost_sum :: "PathCost \<Rightarrow> CostValue option" where
  "cost_sum c = Option.bind (CostAdd (cost_hops_cost c) (cost_static c)) (\<lambda>a. Option.bind (CostAdd a (cost_degraded c)) (\<lambda>a. CostAdd a (cost_locality c)))"

lemma CostAdd_iff: "CostAdd a b = Some c \<longleftrightarrow> unat a + unat b = unat c"
proof
  assume e: "unat a + unat b = unat c"
  then have "CostAdd a b \<noteq> None" using CostAdd_eq_None [of a b] unsigned_less [of c, where 'a = nat] by simp
  then obtain d where d: "CostAdd a b = Some d" by blast
  then have "d = c" using CostAdd_SomeD [OF d] e by (simp add: word_unat_eq_iff)
  then show "CostAdd a b = Some c" using d by simp
qed (rule CostAdd_SomeD [symmetric])

lemma ex_unat: "(\<exists>x. n = unat (x :: u64) \<and> P (unat x)) \<longleftrightarrow> n < 2 ^ 64 \<and> P n"
proof
  show "n < 2 ^ 64 \<and> P n" if "\<exists>x. n = unat (x :: u64) \<and> P (unat x)"
    using that unsigned_less [where 'a = nat and 'b = 64] by auto
  show "\<exists>x. n = unat (x :: u64) \<and> P (unat x)" if "n < 2 ^ 64 \<and> P n"
    using that by (intro exI [of _ "of_nat n"]) (simp add: unat_of_nat_less)
qed

lemma cost_sum_eq:
  "cost_sum c = Some (cost_total c) \<longleftrightarrow>
   unat (cost_hops_cost c) + unat (cost_static c) + unat (cost_degraded c) + unat (cost_locality c) = unat (cost_total c)"
proof -
  have "cost_sum c = Some (cost_total c) \<longleftrightarrow>
      (\<exists>x. unat (cost_hops_cost c) + unat (cost_static c) = unat (x :: u64) \<and>
        (\<exists>y. unat x + unat (cost_degraded c) = unat (y :: u64) \<and> unat y + unat (cost_locality c) = unat (cost_total c)))"
    by (simp add: cost_sum_def bind_eq_Some_conv CostAdd_iff)
  also have "\<dots> \<longleftrightarrow> unat (cost_hops_cost c) + unat (cost_static c) + unat (cost_degraded c) + unat (cost_locality c) = unat (cost_total c)"
    using ex_unat [of "unat (cost_hops_cost c) + unat (cost_static c)"
        "\<lambda>x. \<exists>y. x + unat (cost_degraded c) = unat (y :: u64) \<and> unat y + unat (cost_locality c) = unat (cost_total c)"]
      ex_unat [of _ "\<lambda>y. y + unat (cost_locality c) = unat (cost_total c)"] unsigned_less [of "cost_total c", where 'a = nat]
    by auto
  finally show ?thesis .
qed

text \<open>Integrity values hash two pieces one after the other.\<close>

lemma Finish_two: "Sha256_Finish (Sha256_Update b (Sha256_Update a Sha256_new)) = Sha256_Hash (a @ b)"
  using Update_Update [OF sha_ok_new] by (simp add: Sha256_Hash_def)

end
