(* ===== verification/Proto.thy ===== *)
theory Proto
  imports Decoder
begin

text \<open>
  The framed wire protocol (\<open>include/pathplanner/proto.hpp\<close>, \<open>src/proto.cpp\<close>): frames with their integrity
  value, and the encoder and strict decoder of every payload.  A decoder returns the wire status and
  the detail text of the first problem, or the decoded value.
\<close>

section \<open>Messages and statuses\<close>

datatype WireMessage =
    Msg_kHello
  | Msg_kRegisterWorker
  | Msg_kPlanRequest
  | Msg_kPlanResult
  | Msg_kPlanError
  | Msg_kValidateCurrentness
  | Msg_kCurrentnessResult
  | Msg_kSnapshotRequest
  | Msg_kSnapshotResponse
  | Msg_kFenceNotice
  | Msg_kError
  | Msg_kShutdownWorker

fun WireMessage_value :: "WireMessage \<Rightarrow> nat" where
  "WireMessage_value Msg_kHello = 1"
| "WireMessage_value Msg_kRegisterWorker = 2"
| "WireMessage_value Msg_kPlanRequest = 3"
| "WireMessage_value Msg_kPlanResult = 4"
| "WireMessage_value Msg_kPlanError = 5"
| "WireMessage_value Msg_kValidateCurrentness = 6"
| "WireMessage_value Msg_kCurrentnessResult = 7"
| "WireMessage_value Msg_kSnapshotRequest = 8"
| "WireMessage_value Msg_kSnapshotResponse = 9"
| "WireMessage_value Msg_kFenceNotice = 10"
| "WireMessage_value Msg_kError = 11"
| "WireMessage_value Msg_kShutdownWorker = 12"

definition WireMessage_cast :: "nat \<Rightarrow> WireMessage option" where
  "WireMessage_cast v = map_of [(1, Msg_kHello), (2, Msg_kRegisterWorker), (3, Msg_kPlanRequest), (4, Msg_kPlanResult), (5, Msg_kPlanError), (6, Msg_kValidateCurrentness), (7, Msg_kCurrentnessResult), (8, Msg_kSnapshotRequest), (9, Msg_kSnapshotResponse), (10, Msg_kFenceNotice), (11, Msg_kError), (12, Msg_kShutdownWorker)] v"

definition kWireMessageNames :: "EnumEntry list" where
  "kWireMessageNames = [(''HELLO'', 1), (''REGISTER_WORKER'', 2), (''PLAN_REQUEST'', 3), (''PLAN_RESULT'', 4), (''PLAN_ERROR'', 5), (''VALIDATE_CURRENTNESS'', 6), (''CURRENTNESS_RESULT'', 7), (''SNAPSHOT_REQUEST'', 8), (''SNAPSHOT_RESPONSE'', 9), (''FENCE_NOTICE'', 10), (''ERROR'', 11), (''SHUTDOWN_WORKER'', 12)]"

interpretation WireMessage_wire: wire_enum WireMessage_value WireMessage_cast kWireMessageNames "\<lambda>_. True"
proof
  fix x :: WireMessage
  assume "(\<lambda>_. True) x"
  then show "WireMessage_cast (WireMessage_value x) = Some x" "WireMessage_value x \<in> snd ` set kWireMessageNames"
    by (cases x; simp add: WireMessage_cast_def kWireMessageNames_def)+
qed (simp_all add: WireMessage_cast_def kWireMessageNames_def)

datatype WireStatus =
    Wire_kOk
  | Wire_kMalformed
  | Wire_kVersionMismatch
  | Wire_kIntegrityMismatch
  | Wire_kUnknownMessage
  | Wire_kTooLarge
  | Wire_kTrailingBytes
  | Wire_kEpochStale
  | Wire_kWorkerFenced
  | Wire_kUnknownWorker
  | Wire_kSnapshotMismatch
  | Wire_kReceiveBoundExceeded
  | Wire_kSessionLimit
  | Wire_kNoWorkerAvailable
  | Wire_kInternal
  | Wire_kRequestMismatch
  | Wire_kUnsupported

fun WireStatus_value :: "WireStatus \<Rightarrow> nat" where
  "WireStatus_value Wire_kOk = 1"
| "WireStatus_value Wire_kMalformed = 2"
| "WireStatus_value Wire_kVersionMismatch = 3"
| "WireStatus_value Wire_kIntegrityMismatch = 4"
| "WireStatus_value Wire_kUnknownMessage = 5"
| "WireStatus_value Wire_kTooLarge = 6"
| "WireStatus_value Wire_kTrailingBytes = 7"
| "WireStatus_value Wire_kEpochStale = 8"
| "WireStatus_value Wire_kWorkerFenced = 9"
| "WireStatus_value Wire_kUnknownWorker = 10"
| "WireStatus_value Wire_kSnapshotMismatch = 11"
| "WireStatus_value Wire_kReceiveBoundExceeded = 12"
| "WireStatus_value Wire_kSessionLimit = 13"
| "WireStatus_value Wire_kNoWorkerAvailable = 14"
| "WireStatus_value Wire_kInternal = 15"
| "WireStatus_value Wire_kRequestMismatch = 16"
| "WireStatus_value Wire_kUnsupported = 17"

definition WireStatus_cast :: "nat \<Rightarrow> WireStatus option" where
  "WireStatus_cast v = map_of [(1, Wire_kOk), (2, Wire_kMalformed), (3, Wire_kVersionMismatch), (4, Wire_kIntegrityMismatch), (5, Wire_kUnknownMessage), (6, Wire_kTooLarge), (7, Wire_kTrailingBytes), (8, Wire_kEpochStale), (9, Wire_kWorkerFenced), (10, Wire_kUnknownWorker), (11, Wire_kSnapshotMismatch), (12, Wire_kReceiveBoundExceeded), (13, Wire_kSessionLimit), (14, Wire_kNoWorkerAvailable), (15, Wire_kInternal), (16, Wire_kRequestMismatch), (17, Wire_kUnsupported)] v"

definition kWireStatusNames :: "EnumEntry list" where
  "kWireStatusNames = [(''OK'', 1), (''MALFORMED'', 2), (''VERSION_MISMATCH'', 3), (''INTEGRITY_MISMATCH'', 4), (''UNKNOWN_MESSAGE'', 5), (''TOO_LARGE'', 6), (''TRAILING_BYTES'', 7), (''EPOCH_STALE'', 8), (''WORKER_FENCED'', 9), (''UNKNOWN_WORKER'', 10), (''SNAPSHOT_MISMATCH'', 11), (''RECEIVE_BOUND_EXCEEDED'', 12), (''SESSION_LIMIT'', 13), (''NO_WORKER_AVAILABLE'', 14), (''INTERNAL'', 15), (''REQUEST_MISMATCH'', 16), (''UNSUPPORTED'', 17)]"

interpretation WireStatus_wire: wire_enum WireStatus_value WireStatus_cast kWireStatusNames "\<lambda>_. True"
proof
  fix x :: WireStatus
  assume "(\<lambda>_. True) x"
  then show "WireStatus_cast (WireStatus_value x) = Some x" "WireStatus_value x \<in> snd ` set kWireStatusNames"
    by (cases x; simp add: WireStatus_cast_def kWireStatusNames_def)+
qed (simp_all add: WireStatus_cast_def kWireStatusNames_def)

definition DiagnosticForWireStatus :: "WireStatus \<Rightarrow> DiagnosticCode" where
  "DiagnosticForWireStatus status =
     (case status of
        Wire_kVersionMismatch \<Rightarrow> DC_kProtocolVersionMismatch
      | Wire_kIntegrityMismatch \<Rightarrow> DC_kProtocolIntegrityMismatch
      | Wire_kUnknownMessage \<Rightarrow> DC_kProtocolUnknownMessage
      | Wire_kTrailingBytes \<Rightarrow> DC_kProtocolTrailingBytes
      | Wire_kTooLarge \<Rightarrow> DC_kProtocolMalformedFrame
      | Wire_kReceiveBoundExceeded \<Rightarrow> DC_kProtocolReceiveBoundExceeded
      | Wire_kSessionLimit \<Rightarrow> DC_kProtocolSessionLimit
      | Wire_kWorkerFenced \<Rightarrow> DC_kWorkerBootFenced
      | Wire_kEpochStale \<Rightarrow> DC_kCoordinatorEpochStale
      | _ \<Rightarrow> DC_kProtocolMalformedFrame)"

text \<open>The enumerations of \<open>request.hpp\<close> that only the wire format casts from numbers.\<close>

definition CapabilityScope_cast :: "nat \<Rightarrow> CapabilityScope option" where
  "CapabilityScope_cast v = Some (case map_of [(1, CapScope_kEveryNode), (2, CapScope_kEveryLink), (3, CapScope_kEveryPort),
     (4, CapScope_kSourceNode), (5, CapScope_kDestinationNode)] v of Some x \<Rightarrow> x | None \<Rightarrow> CapScope_other v)"

interpretation CapabilityScope_wire: wire_enum CapabilityScope_value CapabilityScope_cast kCapabilityScopeNames "\<lambda>x. case x of CapScope_other v \<Rightarrow> False | _ \<Rightarrow> True"
proof
  fix x :: CapabilityScope
  assume "(\<lambda>x. case x of CapScope_other v \<Rightarrow> False | _ \<Rightarrow> True) x"
  then show "CapabilityScope_cast (CapabilityScope_value x) = Some x" "CapabilityScope_value x \<in> snd ` set kCapabilityScopeNames"
    by (cases x; simp add: CapabilityScope_cast_def kCapabilityScopeNames_def)+
qed (simp_all add: CapabilityScope_cast_def kCapabilityScopeNames_def)

definition CapabilityComparator_cast :: "nat \<Rightarrow> CapabilityComparator option" where
  "CapabilityComparator_cast v = Some (case map_of [(1, Cmp_kAtLeast), (2, Cmp_kAtMost), (3, Cmp_kEqual)] v of Some x \<Rightarrow> x | None \<Rightarrow> Cmp_other v)"

interpretation CapabilityComparator_wire: wire_enum CapabilityComparator_value CapabilityComparator_cast kCapabilityComparatorNames "\<lambda>x. case x of Cmp_other v \<Rightarrow> False | _ \<Rightarrow> True"
proof
  fix x :: CapabilityComparator
  assume "(\<lambda>x. case x of Cmp_other v \<Rightarrow> False | _ \<Rightarrow> True) x"
  then show "CapabilityComparator_cast (CapabilityComparator_value x) = Some x" "CapabilityComparator_value x \<in> snd ` set kCapabilityComparatorNames"
    by (cases x; simp add: CapabilityComparator_cast_def kCapabilityComparatorNames_def)+
qed (simp_all add: CapabilityComparator_cast_def kCapabilityComparatorNames_def)

definition AuthorityValidationMode_cast :: "nat \<Rightarrow> AuthorityValidationMode option" where
  "AuthorityValidationMode_cast v = Some (case map_of [(1, AuthMode_kNone), (2, AuthMode_kBestEffort), (3, AuthMode_kRequired)] v of
     Some x \<Rightarrow> x | None \<Rightarrow> AuthMode_other v)"

interpretation AuthorityValidationMode_wire: wire_enum AuthorityValidationMode_value AuthorityValidationMode_cast kAuthorityValidationModeNames "\<lambda>x. case x of AuthMode_other v \<Rightarrow> False | _ \<Rightarrow> True"
proof
  fix x :: AuthorityValidationMode
  assume "(\<lambda>x. case x of AuthMode_other v \<Rightarrow> False | _ \<Rightarrow> True) x"
  then show "AuthorityValidationMode_cast (AuthorityValidationMode_value x) = Some x" "AuthorityValidationMode_value x \<in> snd ` set kAuthorityValidationModeNames"
    by (cases x; simp add: AuthorityValidationMode_cast_def kAuthorityValidationModeNames_def)+
qed (simp_all add: AuthorityValidationMode_cast_def kAuthorityValidationModeNames_def)

fun TransitKind_value :: "TransitKind \<Rightarrow> nat" where
  "TransitKind_value Transit_kExact = 1"
| "TransitKind_value Transit_kAnyOf = 2"

definition TransitKind_cast :: "nat \<Rightarrow> TransitKind option" where
  "TransitKind_cast v = map_of [(1, Transit_kExact), (2, Transit_kAnyOf)] v"

definition kTransitKindNames :: "EnumEntry list" where
  "kTransitKindNames = [(''EXACT'', 1), (''ANY_OF'', 2)]"

interpretation TransitKind_wire: wire_enum TransitKind_value TransitKind_cast kTransitKindNames "\<lambda>_. True"
proof
  fix x :: TransitKind
  assume "(\<lambda>_. True) x"
  then show "TransitKind_cast (TransitKind_value x) = Some x" "TransitKind_value x \<in> snd ` set kTransitKindNames"
    by (cases x; simp add: TransitKind_cast_def kTransitKindNames_def)+
qed (simp_all add: TransitKind_cast_def kTransitKindNames_def)

section \<open>Field decoders\<close>

type_synonym WireError = "WireStatus \<times> string"

abbreviation malformed :: "string \<Rightarrow> WireError" where
  "malformed detail \<equiv> (Wire_kMalformed, detail)"

definition DecodeEnumValue :: "EnumEntry list \<Rightarrow> (nat \<Rightarrow> 'c option) \<Rightarrow> string \<Rightarrow> (WireError, 'c) decoder" where
  "DecodeEnumValue table cast name = decode_enum (malformed (name @ '': missing value''))
     (\<lambda>raw. malformed (name @ '': unknown enumeration value '' @ StrongUInt_ToString raw)) table cast"

definition EncodeId :: "'tag FixedId \<Rightarrow> ByteWriter \<Rightarrow> ByteWriter" where
  "EncodeId x w = write_FixedBytes (id_bytes x) w"

definition DecodeId :: "nat \<Rightarrow> string \<Rightarrow> (WireError, 'tag FixedId) decoder" where
  "DecodeId n name = decode_id (malformed (name @ '': truncated identifier'')) (malformed (name @ '': nil identifier rejected'')) n"

definition DecodeStrong :: "string \<Rightarrow> (WireError, u64) decoder" where
  "DecodeStrong name = decode_strong (malformed (name @ '': missing value'')) (malformed (name @ '': value out of range''))"

definition EncodeStrong :: "u64 \<Rightarrow> ByteWriter \<Rightarrow> ByteWriter" where
  "EncodeStrong v w = write_U64 v w"

definition EncodeGenerations :: "SnapshotGenerations \<Rightarrow> ByteWriter \<Rightarrow> ByteWriter" where
  "EncodeGenerations g w = SnapshotGenerations_Encode g w"

definition DecodeGenerations :: "(WireError, SnapshotGenerations) decoder" where
  "DecodeGenerations = generations_decoder DecodeStrong"

definition EncodeEvidence :: "EvidenceVector \<Rightarrow> ByteWriter \<Rightarrow> ByteWriter" where
  "EncodeEvidence e w = EvidenceVector_Encode e w"

definition DecodeEvidence :: "(WireError, EvidenceVector) decoder" where
  "DecodeEvidence = evidence_decoder (DecodeId 16 ''snapshot identity'') DecodeGenerations
     (DecodeEnumValue kEvidenceSourceNames EvidenceSource_cast ''evidence source'') (DecodeStrong ''publish sequence'')"

definition DecodePath :: "ResourceLimits \<Rightarrow> (WireError, CandidatePath) decoder" where
  "DecodePath limits = path_decoder (malformed ''path encoding version mismatch'') (DecodeId 16 ''path source'')
     (DecodeId 16 ''path destination'') (DecodeEnumValue kPathLayerNames PathLayer_cast ''path layer'')
     (malformed ''path hop count exceeds the configured limit'') (lim_max_hops limits)
     (hop_decoder (DecodeId 16 ''hop link'') (DecodeId 16 ''hop source'') (DecodeId 16 ''hop destination'')
        (DecodeId 16 ''hop source port'') (DecodeId 16 ''hop destination port'')
        (DecodeEnumValue kPathLayerNames PathLayer_cast ''hop layer'')
        (DecodeEnumValue kRelationshipTypeNames RelationshipType_cast ''hop relationship'')
        (DecodeStrong ''hop structural generation'') (malformed ''hop static cost is missing''))
     (malformed ''decoded path is not well formed'') (malformed ''decoded path is not simple'')"

definition EncodePath :: "CandidatePath \<Rightarrow> ByteWriter \<Rightarrow> ByteWriter" where
  "EncodePath p w = CandidatePath_Encode p w"

definition EncodeCost :: "PathCost \<Rightarrow> ByteWriter \<Rightarrow> ByteWriter" where
  "EncodeCost c w = write_cost c w"

definition DecodeCost :: "(WireError, PathCost) decoder" where
  "DecodeCost = dbind (cost_fields (malformed ''path cost is truncated'')) (\<lambda>c.
     case TryFrom kMaxHopCount (cost_hops c) of
       None \<Rightarrow> dfail (malformed ''path cost hop count out of range'')
     | Some _ \<Rightarrow>
       (case CostAdd (cost_hops_cost c) (cost_static c) of
          None \<Rightarrow> dfail (malformed ''path cost components overflow'')
        | Some accumulated \<Rightarrow>
          (case CostAdd accumulated (cost_degraded c) of
             None \<Rightarrow> dfail (malformed ''path cost components overflow'')
           | Some accumulated \<Rightarrow>
             dguard (CostAdd accumulated (cost_locality c) = Some (cost_total c))
               (malformed ''path cost does not equal the sum of its documented components'')
             (dguard (\<not> (cost_degraded_hops c > cost_hops c \<or> cost_locality_breaches c > cost_hops c))
               (malformed ''path cost penalty counts exceed the hop count'') (dreturn c)))))"

section \<open>Frames\<close>

definition kWireMagicValue :: u32 where "kWireMagicValue = 0x4E4C5050"
definition kWireProtocolVersion :: u16 where "kWireProtocolVersion = 1"
definition kWireHeaderBytes :: nat where "kWireHeaderBytes = 76"
definition kWireIntegrityBytes :: nat where "kWireIntegrityBytes = 16"
definition kHeaderIntegrityOffset :: nat where "kHeaderIntegrityOffset = kWireHeaderBytes - kWireIntegrityBytes"
definition kWireFlagResponse :: u16 where "kWireFlagResponse = 1"
definition kWireFlagFenced :: u16 where "kWireFlagFenced = 2"
definition kWireKnownFlags :: u16 where "kWireKnownFlags = kWireFlagResponse OR kWireFlagFenced"

record WireFrame =
  frame_type :: WireMessage
  frame_flags :: u16
  frame_epoch :: u64
  frame_sequence :: u64
  frame_boot :: WorkerBootId
  frame_request :: PlanningRequestId
  frame_payload :: bytes

definition frame_header :: "WireFrame \<Rightarrow> ByteWriter \<Rightarrow> ByteWriter" where
  "frame_header f w =
     (let w = write_U32 kWireMagicValue w;
          w = write_U16 kWireProtocolVersion w;
          w = write_U16 (frame_flags f) w;
          w = write_U32 (of_nat (WireMessage_value (frame_type f))) w;
          w = write_U64 (frame_epoch f) w;
          w = write_U64 (frame_sequence f) w;
          w = write_FixedBytes (id_bytes (frame_boot f)) w;
          w = write_FixedBytes (id_bytes (frame_request f)) w;
          w = write_U32 (of_nat (length (frame_payload f))) w
      in write_U32 0 w)"

text \<open>The integrity value: the first bytes of the hash of the header fields and the payload.\<close>

definition frame_integrity :: "bytes \<Rightarrow> bytes \<Rightarrow> bytes" where
  "frame_integrity header payload =
     take kWireIntegrityBytes (Sha256_Finish (Sha256_Update payload (Sha256_Update header Sha256_new)))"

definition EncodeFrame :: "WireFrame \<Rightarrow> bytes" where
  "EncodeFrame f =
     (let header = bw_data (frame_header f (ByteWriter_new kWireHeaderBytes))
      in header @ frame_integrity header (frame_payload f) @ frame_payload f)"

text \<open>The header fields, with the tests between them: the frame without its payload and the declared payload size.\<close>

definition header_fields :: "nat \<Rightarrow> (WireError, WireFrame \<times> u32) decoder" where
  "header_fields frame_limit =
     dbind (dread (malformed ''frame magic mismatch'') read_U32) (\<lambda>magic.
     dguard (magic = kWireMagicValue) (malformed ''frame magic mismatch'') (
     dbind (dread (Wire_kVersionMismatch, ''unsupported wire protocol version'') read_U16) (\<lambda>protocol.
     dguard (protocol = kWireProtocolVersion) (Wire_kVersionMismatch, ''unsupported wire protocol version'') (
     dbind (dread (malformed ''unknown frame flag bits'') read_U16) (\<lambda>flags.
     dguard (flags AND NOT kWireKnownFlags = 0) (malformed ''unknown frame flag bits'') (
     dbind (decode_enum (Wire_kUnknownMessage, ''unknown message type'') (\<lambda>_. (Wire_kUnknownMessage, ''unknown message type''))
       kWireMessageNames WireMessage_cast) (\<lambda>type.
     dbind (dread (malformed ''frame epoch or sequence is truncated'') read_U64) (\<lambda>epoch.
     dbind (dread (malformed ''frame epoch or sequence is truncated'') read_U64) (\<lambda>sequence.
     dbind (decode_any_id (malformed ''frame worker boot identity is truncated'') 8) (\<lambda>boot.
     dbind (decode_any_id (malformed ''frame request identity is truncated'') 16) (\<lambda>request.
     dbind (dread (malformed ''frame length fields are truncated'') read_U32) (\<lambda>payload_bytes.
     dbind (dread (malformed ''frame length fields are truncated'') read_U32) (\<lambda>reserved.
     dguard (reserved = 0) (malformed ''reserved header field must be zero'') (
     dguard (\<not> unat payload_bytes > frame_limit) (Wire_kTooLarge, ''frame payload exceeds the configured ceiling'') (
       dreturn (\<lparr>frame_type = type, frame_flags = flags, frame_epoch = epoch, frame_sequence = sequence, frame_boot = boot,
         frame_request = request, frame_payload = []\<rparr>, payload_bytes))))))))))))))))"

definition DecodeFrame :: "bytes \<Rightarrow> nat \<Rightarrow> WireError + WireFrame" where
  "DecodeFrame bytes frame_limit =
     (if length bytes < kWireHeaderBytes then Inl (malformed ''frame shorter than the fixed header'')
      else case fst (header_fields frame_limit (ByteReader_new bytes)) of
        Inl e \<Rightarrow> Inl e
      | Inr (frame, payload_bytes) \<Rightarrow>
        let declared_size = kWireHeaderBytes + unat payload_bytes in
        if length bytes < declared_size then Inl (malformed ''frame is shorter than the declared payload size'')
        else if length bytes > declared_size then Inl (Wire_kTrailingBytes, ''frame carries trailing bytes'')
        else if take kWireIntegrityBytes (drop kHeaderIntegrityOffset bytes) \<noteq>
            frame_integrity (take kHeaderIntegrityOffset bytes) (take (unat payload_bytes) (drop kWireHeaderBytes bytes))
        then Inl (Wire_kIntegrityMismatch, ''frame integrity check failed'')
        else Inr (frame\<lparr>frame_payload := drop kWireHeaderBytes bytes\<rparr>))"

section \<open>Worker registration and snapshot payloads\<close>

record HelloPayload =
  hello_publisher :: PublisherId
  hello_boot :: WorkerBootId
  hello_epoch :: u64
  hello_snapshot :: SnapshotId
  hello_generations :: SnapshotGenerations
  hello_node_count :: u32
  hello_edge_count :: u32

definition EncodeHelloPayload :: "HelloPayload \<Rightarrow> ByteWriter \<Rightarrow> ByteWriter" where
  "EncodeHelloPayload p w =
     (let w = EncodeId (hello_publisher p) w;
          w = EncodeId (hello_boot p) w;
          w = EncodeStrong (hello_epoch p) w;
          w = EncodeId (hello_snapshot p) w;
          w = EncodeGenerations (hello_generations p) w;
          w = write_U32 (hello_node_count p) w
      in write_U32 (hello_edge_count p) w)"

definition hello_fields :: "(WireError, HelloPayload) decoder" where
  "hello_fields =
     dbind (DecodeId 8 ''publisher identity'') (\<lambda>publisher. dbind (DecodeId 8 ''worker boot identity'') (\<lambda>boot.
     dbind (DecodeStrong ''coordinator epoch'') (\<lambda>epoch. dbind (DecodeId 16 ''snapshot identity'') (\<lambda>snapshot.
     dbind DecodeGenerations (\<lambda>generations.
     dbind (dread (malformed ''hello payload is truncated'') read_U32) (\<lambda>nodes.
     dbind (dread (malformed ''hello payload is truncated'') read_U32) (\<lambda>edges.
       dreturn \<lparr>hello_publisher = publisher, hello_boot = boot, hello_epoch = epoch, hello_snapshot = snapshot,
         hello_generations = generations, hello_node_count = nodes, hello_edge_count = edges\<rparr>)))))))"

definition DecodeHelloPayload :: "bytes \<Rightarrow> WireError + HelloPayload" where
  "DecodeHelloPayload bytes = decode_message (Wire_kTrailingBytes, ''hello payload carries trailing bytes'') hello_fields bytes"

record SnapshotResponsePayload =
  snr_snapshot :: SnapshotId
  snr_generations :: SnapshotGenerations
  snr_node_count :: u32
  snr_edge_count :: u32

definition EncodeSnapshotResponsePayload :: "SnapshotResponsePayload \<Rightarrow> ByteWriter \<Rightarrow> ByteWriter" where
  "EncodeSnapshotResponsePayload p w =
     (let w = EncodeId (snr_snapshot p) w;
          w = EncodeGenerations (snr_generations p) w;
          w = write_U32 (snr_node_count p) w
      in write_U32 (snr_edge_count p) w)"

definition snapshot_fields :: "(WireError, SnapshotResponsePayload) decoder" where
  "snapshot_fields =
     dbind (DecodeId 16 ''snapshot identity'') (\<lambda>snapshot. dbind DecodeGenerations (\<lambda>generations.
     dbind (dread (malformed ''snapshot response is truncated'') read_U32) (\<lambda>nodes.
     dbind (dread (malformed ''snapshot response is truncated'') read_U32) (\<lambda>edges.
       dreturn \<lparr>snr_snapshot = snapshot, snr_generations = generations, snr_node_count = nodes, snr_edge_count = edges\<rparr>))))"

definition DecodeSnapshotResponsePayload :: "bytes \<Rightarrow> WireError + SnapshotResponsePayload" where
  "DecodeSnapshotResponsePayload bytes =
     decode_message (Wire_kTrailingBytes, ''snapshot response carries trailing bytes'') snapshot_fields bytes"

section \<open>Error, fence and currentness payloads\<close>

record PlanErrorPayload =
  perr_request :: PlanningRequestId
  perr_status :: WireStatus
  perr_plan_status :: PlanStatus
  perr_code :: DiagnosticCode
  perr_detail :: string

definition EncodePlanErrorPayload :: "PlanErrorPayload \<Rightarrow> ByteWriter \<Rightarrow> ByteWriter" where
  "EncodePlanErrorPayload p w =
     (let w = EncodeId (perr_request p) w;
          w = write_U32 (of_nat (WireStatus_value (perr_status p))) w;
          w = write_U32 (of_nat (PlanStatus_value (perr_plan_status p))) w;
          w = write_U32 (of_nat (DiagnosticCode_value (perr_code p))) w
      in write_Text (perr_detail p) w)"

definition plan_error_fields :: "(WireError, PlanErrorPayload) decoder" where
  "plan_error_fields =
     dbind (DecodeId 16 ''request identity'') (\<lambda>request.
     dbind (DecodeEnumValue kWireStatusNames WireStatus_cast ''wire status'') (\<lambda>status.
     dbind (DecodeEnumValue kPlanStatusNames PlanStatus_cast ''plan status'') (\<lambda>plan_status.
     dbind (DecodeEnumValue kDiagnosticCodeNames DiagnosticCode_cast ''diagnostic code'') (\<lambda>code.
     dbind (dread (malformed ''error detail is truncated'') read_Text) (\<lambda>detail.
       dreturn \<lparr>perr_request = request, perr_status = status, perr_plan_status = plan_status, perr_code = code, perr_detail = detail\<rparr>)))))"

definition DecodePlanErrorPayload :: "bytes \<Rightarrow> WireError + PlanErrorPayload" where
  "DecodePlanErrorPayload bytes = decode_message (Wire_kTrailingBytes, ''error payload carries trailing bytes'') plan_error_fields bytes"

record FenceNoticePayload =
  fence_boot :: WorkerBootId
  fence_status :: WireStatus
  fence_code :: DiagnosticCode
  fence_detail :: string

definition EncodeFenceNoticePayload :: "FenceNoticePayload \<Rightarrow> ByteWriter \<Rightarrow> ByteWriter" where
  "EncodeFenceNoticePayload p w =
     (let w = EncodeId (fence_boot p) w;
          w = write_U32 (of_nat (WireStatus_value (fence_status p))) w;
          w = write_U32 (of_nat (DiagnosticCode_value (fence_code p))) w
      in write_Text (fence_detail p) w)"

definition fence_fields :: "(WireError, FenceNoticePayload) decoder" where
  "fence_fields =
     dbind (DecodeId 8 ''worker boot identity'') (\<lambda>boot.
     dbind (DecodeEnumValue kWireStatusNames WireStatus_cast ''wire status'') (\<lambda>status.
     dbind (DecodeEnumValue kDiagnosticCodeNames DiagnosticCode_cast ''diagnostic code'') (\<lambda>code.
     dbind (dread (malformed ''fence detail is truncated'') read_Text) (\<lambda>detail.
       dreturn \<lparr>fence_boot = boot, fence_status = status, fence_code = code, fence_detail = detail\<rparr>))))"

definition DecodeFenceNoticePayload :: "bytes \<Rightarrow> WireError + FenceNoticePayload" where
  "DecodeFenceNoticePayload bytes = decode_message (Wire_kTrailingBytes, ''fence payload carries trailing bytes'') fence_fields bytes"

record CurrentnessQueryPayload =
  cq_plan :: PathPlanId
  cq_evidence :: EvidenceVector
  cq_request :: PlanningRequestId

definition EncodeCurrentnessQueryPayload :: "CurrentnessQueryPayload \<Rightarrow> ByteWriter \<Rightarrow> ByteWriter" where
  "EncodeCurrentnessQueryPayload p w =
     (let w = EncodeId (cq_plan p) w;
          w = EncodeId (cq_request p) w
      in EncodeEvidence (cq_evidence p) w)"

definition query_fields :: "(WireError, CurrentnessQueryPayload) decoder" where
  "query_fields =
     dbind (DecodeId 16 ''plan identity'') (\<lambda>plan. dbind (DecodeId 16 ''request identity'') (\<lambda>request. dbind DecodeEvidence (\<lambda>evidence.
       dreturn \<lparr>cq_plan = plan, cq_evidence = evidence, cq_request = request\<rparr>)))"

definition DecodeCurrentnessQueryPayload :: "bytes \<Rightarrow> WireError + CurrentnessQueryPayload" where
  "DecodeCurrentnessQueryPayload bytes =
     decode_message (Wire_kTrailingBytes, ''currentness query carries trailing bytes'') query_fields bytes"

record CurrentnessResultPayload =
  cr_plan :: PathPlanId
  cr_currentness :: Currentness
  cr_changes :: "ExplanationEntry list"

definition encode_explanation :: "ExplanationEntry \<Rightarrow> ByteWriter \<Rightarrow> ByteWriter" where
  "encode_explanation e w =
     (let w = write_U32 (of_nat (DiagnosticCode_value (expl_code e))) w in write_Text (expl_detail e) w)"

definition EncodeCurrentnessResultPayload :: "CurrentnessResultPayload \<Rightarrow> ByteWriter \<Rightarrow> ByteWriter" where
  "EncodeCurrentnessResultPayload p w =
     (let w = EncodeId (cr_plan p) w;
          w = write_U32 (of_nat (Currentness_value (cr_currentness p))) w;
          w = write_VarU64 (of_nat (length (cr_changes p))) w
      in fold encode_explanation (cr_changes p) w)"

definition explanation_fields :: "string \<Rightarrow> string \<Rightarrow> (WireError, ExplanationEntry) decoder" where
  "explanation_fields code_name text_missing =
     dbind (DecodeEnumValue kDiagnosticCodeNames DiagnosticCode_cast code_name) (\<lambda>code.
     dbind (dread (malformed text_missing) read_Text) (\<lambda>detail. dreturn \<lparr>expl_code = code, expl_detail = detail\<rparr>))"

definition currentness_fields :: "ResourceLimits \<Rightarrow> (WireError, CurrentnessResultPayload) decoder" where
  "currentness_fields limits =
     dbind (DecodeId 16 ''plan identity'') (\<lambda>plan.
     dbind (DecodeEnumValue kCurrentnessNames Currentness_cast ''currentness'') (\<lambda>currentness.
     dbind (decode_vector (malformed ''change count exceeds the configured limit'') (malformed ''change count exceeds the configured limit'')
       (max_explanation_entries limits) (explanation_fields ''change code'' ''change detail is truncated'')) (\<lambda>changes.
       dreturn \<lparr>cr_plan = plan, cr_currentness = currentness, cr_changes = changes\<rparr>)))"

definition DecodeCurrentnessResultPayload :: "bytes \<Rightarrow> ResourceLimits \<Rightarrow> WireError + CurrentnessResultPayload" where
  "DecodeCurrentnessResultPayload bytes limits =
     decode_message (Wire_kTrailingBytes, ''currentness result carries trailing bytes'') (currentness_fields limits) bytes"

section \<open>Request payload\<close>

definition encode_ids :: "'tag FixedId list \<Rightarrow> ByteWriter \<Rightarrow> ByteWriter" where
  "encode_ids ids w = fold EncodeId ids (write_VarU64 (of_nat (length ids)) w)"

definition encode_stage :: "TransitStage \<Rightarrow> ByteWriter \<Rightarrow> ByteWriter" where
  "encode_stage s w = encode_ids (stage_alternatives s) (write_U32 (of_nat (TransitKind_value (stage_kind s))) w)"

definition encode_requirement :: "CapabilityRequirement \<Rightarrow> ByteWriter \<Rightarrow> ByteWriter" where
  "encode_requirement r w =
     (let w = EncodeId (req_capability r) w;
          w = write_U32 (of_nat (CapabilityScope_value (req_scope r))) w;
          w = write_U32 (of_nat (CapabilityComparator_value (req_comparator r))) w
      in EncodeStrong (req_value r) w)"

definition encode_endpoint_ref :: "EndpointRef \<Rightarrow> ByteWriter \<Rightarrow> ByteWriter" where
  "encode_endpoint_ref e w =
     (let w = EncodeId (ref_id e) w;
          w = write_U32 (of_nat (EndpointClass_value (ref_class e))) w
      in EncodeStrong (ref_generation e) w)"

definition encode_optional_u32 :: "u32 option \<Rightarrow> ByteWriter \<Rightarrow> ByteWriter" where
  "encode_optional_u32 v w =
     (let w = write_Bool (v \<noteq> None) w in case v of None \<Rightarrow> w | Some x \<Rightarrow> write_U32 x w)"

definition encode_constraints :: "ConstraintSet \<Rightarrow> ByteWriter \<Rightarrow> ByteWriter" where
  "encode_constraints c w =
     (let w = EncodeId (cs_id c) w;
          w = EncodeStrong (cs_generation c) w;
          w = write_U32 (of_nat (PathLayer_value (cs_layer c))) w;
          w = encode_ids (forbidden_nodes c) w;
          w = encode_ids (forbidden_links c) w;
          w = encode_ids (forbidden_ports c) w;
          w = encode_ids (forbidden_failure_domains c) w;
          w = encode_ids (forbidden_failure_domain_classes c) w;
          w = write_VarU64 (of_nat (length (required_transit c))) w;
          w = fold encode_stage (required_transit c) w;
          w = write_VarU64 (of_nat (length (required_capabilities c))) w;
          w = fold encode_requirement (required_capabilities c) w;
          w = encode_optional_u32 (cs_max_hops c) w;
          w = encode_optional_u32 (map_option of_nat (cs_max_members c)) w
      in write_Bool (fail_closed_on_unknown_domains c) w)"

definition encode_policy :: "PlanningPolicy \<Rightarrow> ByteWriter \<Rightarrow> ByteWriter" where
  "encode_policy p w =
     (let w = EncodeStrong (pol_generation p) w;
          w = EncodeStrong (hop_cost (pol_cost_model p)) w;
          w = EncodeStrong (degraded_penalty (pol_cost_model p)) w;
          w = EncodeStrong (locality_penalty (pol_cost_model p)) w;
          w = write_Bool (allow_degraded_links p) w;
          w = write_Bool (allow_draining_ports p) w;
          w = write_Bool (allow_maintenance_ports p) w;
          w = write_Bool (require_operational_proof p) w;
          w = write_Bool (allow_zero_hop_self_path p) w;
          w = encode_ids (locality_scope p) w
      in write_U32 (of_nat (AuthorityValidationMode_value (authority_validation p))) w)"

definition encode_authority :: "CallerAuthority \<Rightarrow> ByteWriter \<Rightarrow> ByteWriter" where
  "encode_authority a w =
     (let w = write_U32 (auth_scope_mask a) w;
          w = EncodeId (auth_publisher a) w;
          w = EncodeId (auth_worker_boot a) w;
          w = EncodeStrong (auth_coordinator_epoch a) w;
          w = EncodeId (auth_attempt a) w;
          w = write_Bool (auth_epoch_bound a) w
      in write_Bool (auth_enforce_scope a) w)"

definition EncodePlanningRequestPayload :: "PlanningRequest \<Rightarrow> ByteWriter \<Rightarrow> ByteWriter" where
  "EncodePlanningRequestPayload q w =
     (let w = EncodeId (rq_id q) w;
          w = encode_endpoint_ref (rq_source q) w;
          w = encode_endpoint_ref (rq_destination q) w;
          w = encode_constraints (rq_constraints q) w;
          w = encode_policy (rq_policy q) w;
          w = write_U32 (of_nat (rq_max_candidates q)) w;
          w = write_U32 (of_nat (PlanningMode_value (rq_mode q))) w;
          w = encode_authority (rq_authority q) w;
          w = write_Bool (rq_expect_epoch q) w;
          w = EncodeStrong (rq_expected_epoch q) w;
          w = write_Bool (rq_expect_topology q) w;
          w = EncodeStrong (rq_expected_topology q) w;
          w = write_Bool (rq_expect_snapshot q) w
      in EncodeId (rq_expected_snapshot q) w)"

text \<open>A missing count leaves the detail text empty; the other problems of an identifier vector name it.\<close>

definition DecodeTypedIdVector :: "nat \<Rightarrow> nat \<Rightarrow> string \<Rightarrow> (WireError, 'tag FixedId list) decoder" where
  "DecodeTypedIdVector n limit name =
     decode_vector (malformed []) (malformed (name @ '': count exceeds the configured limit'')) limit (DecodeId n name)"

definition endpoint_fields :: "string \<Rightarrow> string \<Rightarrow> string \<Rightarrow> (WireError, EndpointRef) decoder" where
  "endpoint_fields id_name class_name generation_name =
     dbind (DecodeId 16 id_name) (\<lambda>i. dbind (DecodeEnumValue kEndpointClassNames EndpointClass_cast class_name) (\<lambda>c.
     dbind (DecodeStrong generation_name) (\<lambda>g. dreturn \<lparr>ref_id = i, ref_class = c, ref_generation = g\<rparr>)))"

definition stage_fields :: "ResourceLimits \<Rightarrow> (WireError, TransitStage) decoder" where
  "stage_fields limits =
     dbind (DecodeEnumValue kTransitKindNames TransitKind_cast ''transit kind'') (\<lambda>kind.
     dbind (DecodeTypedIdVector 16 (max_members_in_any_set limits) ''transit alternative'') (\<lambda>alternatives.
       dreturn \<lparr>stage_kind = kind, stage_alternatives = alternatives\<rparr>))"

definition requirement_fields :: "(WireError, CapabilityRequirement) decoder" where
  "requirement_fields =
     dbind (DecodeId 8 ''capability identity'') (\<lambda>capability.
     dbind (DecodeEnumValue kCapabilityScopeNames CapabilityScope_cast ''capability scope'') (\<lambda>scope.
     dbind (DecodeEnumValue kCapabilityComparatorNames CapabilityComparator_cast ''capability comparator'') (\<lambda>comparator.
     dbind (DecodeStrong ''capability value'') (\<lambda>value.
       dreturn \<lparr>req_capability = capability, req_scope = scope, req_comparator = comparator, req_value = value\<rparr>))))"

definition constraint_fields :: "ResourceLimits \<Rightarrow> (WireError, ConstraintSet) decoder" where
  "constraint_fields limits =
     dbind (DecodeId 16 ''constraint set identity'') (\<lambda>i. dbind (DecodeStrong ''constraint generation'') (\<lambda>generation.
     dbind (DecodeEnumValue kPathLayerNames PathLayer_cast ''planning layer'') (\<lambda>layer.
     dbind (DecodeTypedIdVector 16 (max_forbidden_ids limits) ''forbidden node'') (\<lambda>nodes.
     dbind (DecodeTypedIdVector 16 (max_forbidden_ids limits) ''forbidden link'') (\<lambda>links.
     dbind (DecodeTypedIdVector 16 (max_forbidden_ids limits) ''forbidden port'') (\<lambda>ports.
     dbind (DecodeTypedIdVector 8 (max_forbidden_ids limits) ''forbidden failure domain'') (\<lambda>domains.
     dbind (DecodeTypedIdVector 8 (max_forbidden_domain_classes limits) ''forbidden failure domain class'') (\<lambda>classes.
     dbind (decode_vector (malformed ''transit stage count exceeds the configured limit'')
       (malformed ''transit stage count exceeds the configured limit'') (max_required_ids limits) (stage_fields limits)) (\<lambda>stages.
     dbind (decode_vector (malformed ''capability requirement count exceeds the configured limit'')
       (malformed ''capability requirement count exceeds the configured limit'') (max_capability_requirements limits)
       requirement_fields) (\<lambda>requirements.
     dbind (decode_optional (malformed ''constraint max_hops flag is missing'')
       (decode_bounded kMaxHopCount (malformed ''max_hops is out of range'') (malformed ''max_hops is out of range''))) (\<lambda>hops.
     dbind (decode_optional (malformed ''constraint failure-domain limit flag is missing'')
       (decode_count (malformed ''failure-domain member limit is missing''))) (\<lambda>members.
     dbind (dread (malformed ''failure-domain fail-closed flag is missing'') read_Bool) (\<lambda>fail_closed.
       dreturn \<lparr>cs_id = i, cs_generation = generation, cs_layer = layer, forbidden_nodes = nodes, forbidden_links = links,
         forbidden_ports = ports, forbidden_failure_domains = domains, forbidden_failure_domain_classes = classes,
         required_transit = stages, required_capabilities = requirements, cs_max_hops = hops, cs_max_members = members,
         fail_closed_on_unknown_domains = fail_closed\<rparr>)))))))))))))"

definition policy_fields :: "ResourceLimits \<Rightarrow> (WireError, PlanningPolicy) decoder" where
  "policy_fields limits =
     dbind (DecodeStrong ''policy generation'') (\<lambda>generation. dbind (DecodeStrong ''hop cost'') (\<lambda>hop.
     dbind (DecodeStrong ''degraded penalty'') (\<lambda>degraded. dbind (DecodeStrong ''locality penalty'') (\<lambda>locality.
     dbind (dread (malformed ''policy flags are truncated'') read_Bool) (\<lambda>allow_degraded.
     dbind (dread (malformed ''policy flags are truncated'') read_Bool) (\<lambda>allow_draining.
     dbind (dread (malformed ''policy flags are truncated'') read_Bool) (\<lambda>allow_maintenance.
     dbind (dread (malformed ''policy flags are truncated'') read_Bool) (\<lambda>require_proof.
     dbind (dread (malformed ''policy flags are truncated'') read_Bool) (\<lambda>allow_zero_hop.
     dbind (DecodeTypedIdVector 16 (max_forbidden_ids limits) ''locality scope node'') (\<lambda>scope.
     dbind (DecodeEnumValue kAuthorityValidationModeNames AuthorityValidationMode_cast ''authority validation mode'') (\<lambda>mode.
       dreturn \<lparr>pol_generation = generation, pol_cost_model = \<lparr>hop_cost = hop, degraded_penalty = degraded, locality_penalty = locality\<rparr>,
         allow_degraded_links = allow_degraded, allow_draining_ports = allow_draining, allow_maintenance_ports = allow_maintenance,
         require_operational_proof = require_proof, allow_zero_hop_self_path = allow_zero_hop, locality_scope = scope,
         authority_validation = mode\<rparr>)))))))))))"

definition authority_fields :: "(WireError, CallerAuthority) decoder" where
  "authority_fields =
     dbind (dread (malformed ''authority scope mask is missing'') read_U32) (\<lambda>scope_mask.
     dbind (decode_any_id (malformed ''publisher identity is truncated'') 8) (\<lambda>publisher.
     dbind (decode_any_id (malformed ''worker boot identity is truncated'') 8) (\<lambda>worker_boot.
     dbind (DecodeStrong ''coordinator epoch'') (\<lambda>epoch.
     dbind (decode_any_id (malformed ''mutation attempt identity is truncated'') 8) (\<lambda>attempt.
     dbind (dread (malformed []) read_Bool) (\<lambda>epoch_bound. dbind (dread (malformed []) read_Bool) (\<lambda>enforce_scope.
       dreturn \<lparr>auth_scope_mask = scope_mask, auth_publisher = publisher, auth_worker_boot = worker_boot,
         auth_coordinator_epoch = epoch, auth_attempt = attempt, auth_epoch_bound = epoch_bound, auth_enforce_scope = enforce_scope\<rparr>)))))))"

definition request_fields :: "ResourceLimits \<Rightarrow> (WireError, PlanningRequest) decoder" where
  "request_fields limits =
     dbind (DecodeId 16 ''planning request identity'') (\<lambda>i.
     dbind (endpoint_fields ''source endpoint'' ''source class'' ''source generation'') (\<lambda>source.
     dbind (endpoint_fields ''destination endpoint'' ''destination class'' ''destination generation'') (\<lambda>destination.
     dbind (constraint_fields limits) (\<lambda>constraints. dbind (policy_fields limits) (\<lambda>policy.
     dbind (decode_count (malformed [])) (\<lambda>max_candidates.
     dbind (DecodeEnumValue kPlanningModeNames PlanningMode_cast ''planning mode'') (\<lambda>mode.
     dbind authority_fields (\<lambda>authority.
     dbind (dread (malformed []) read_Bool) (\<lambda>expect_epoch. dbind (DecodeStrong ''expected epoch'') (\<lambda>expected_epoch.
     dbind (dread (malformed []) read_Bool) (\<lambda>expect_topology. dbind (DecodeStrong ''expected topology generation'') (\<lambda>expected_topology.
     dbind (dread (malformed ''expected snapshot flag is missing'') read_Bool) (\<lambda>expect_snapshot.
     dbind (decode_any_id (malformed ''expected snapshot identity is truncated'') 16) (\<lambda>expected_snapshot.
     dguard (\<not> (expect_snapshot \<and> \<not> FixedId_IsValid expected_snapshot)) (malformed ''expected snapshot identity is nil'')
       (dreturn \<lparr>rq_id = i, rq_source = source, rq_destination = destination, rq_constraints = constraints, rq_policy = policy,
         rq_max_candidates = max_candidates, rq_mode = mode, rq_authority = authority, rq_expect_epoch = expect_epoch,
         rq_expected_epoch = expected_epoch, rq_expect_topology = expect_topology, rq_expected_topology = expected_topology,
         rq_expect_snapshot = expect_snapshot, rq_expected_snapshot = expected_snapshot\<rparr>)))))))))))))))"

definition DecodePlanningRequestPayload :: "bytes \<Rightarrow> ResourceLimits \<Rightarrow> WireError + PlanningRequest" where
  "DecodePlanningRequestPayload bytes limits =
     (case decode_message (Wire_kTrailingBytes, ''planning request payload carries trailing bytes'') (request_fields limits) bytes of
        Inl e \<Rightarrow> Inl e
      | Inr q \<Rightarrow> (case ValidateRequest q limits of
          Some (code, detail) \<Rightarrow> Inl (malformed (''planning request failed validation: '' @ detail))
        | None \<Rightarrow> Inr q))"

section \<open>Result payload\<close>

definition encode_result_candidate :: "Candidate \<Rightarrow> ByteWriter \<Rightarrow> ByteWriter" where
  "encode_result_candidate c w =
     (let w = EncodeId (cand_id c) w;
          w = EncodePath (cand_path c) w;
          w = EncodeCost (cand_cost c) w;
          w = write_U32 (cand_rank c) w;
          w = write_U32 (of_nat (Currentness_value (cand_currentness c))) w;
          w = write_U32 (of_nat (AuthorityValidation_value (cand_authority c))) w;
          w = write_VarU64 (of_nat (length (cand_notes c))) w
      in fold (\<lambda>note w. write_U32 (of_nat (DiagnosticCode_value note)) w) (cand_notes c) w)"

definition encode_rejection :: "RejectionExplanation \<Rightarrow> ByteWriter \<Rightarrow> ByteWriter" where
  "encode_rejection x w =
     (let w = write_U32 (of_nat (DiagnosticCode_value (rej_code x))) w;
          w = write_U32 (of_nat (SubjectKind_value (subj_kind (rej_subject x)))) w;
          w = write_FixedBytes (subj_bytes (rej_subject x)) w;
          w = write_U64 (rej_occurrences x) w
      in write_Text (rej_detail x) w)"

definition EncodePlanningResultPayload :: "PlanningResult \<Rightarrow> ByteWriter \<Rightarrow> ByteWriter" where
  "EncodePlanningResultPayload x w =
     (let w = write_U32 (of_nat (PlanStatus_value (res_status x))) w;
          w = write_Bool (res_primary_failure x \<noteq> None) w;
          w = (case res_primary_failure x of None \<Rightarrow> w | Some code \<Rightarrow> write_U32 (of_nat (DiagnosticCode_value code)) w);
          w = EncodeId (res_source_endpoint x) w;
          w = EncodeId (res_destination_endpoint x) w;
          w = EncodeId (res_source_node x) w;
          w = EncodeId (res_destination_node x) w;
          w = EncodeId (res_plan_id x) w;
          w = EncodeStrong (res_planning_generation x) w;
          w = write_FixedBytes (res_semantic_digest x) w;
          w = EncodeEvidence (res_evidence x) w;
          w = write_U32 (of_nat (res_requested_candidates x)) w;
          w = write_Bool (res_truncated x) w;
          w = write_Bool (res_diagnostic_mode x) w;
          w = write_VarU64 (of_nat (length (res_candidates x))) w;
          w = fold encode_result_candidate (res_candidates x) w;
          w = write_VarU64 (of_nat (length (res_explanations x))) w;
          w = fold encode_explanation (res_explanations x) w;
          w = write_VarU64 (of_nat (length (res_rejections x))) w
      in fold encode_rejection (res_rejections x) w)"

text \<open>A decoded candidate carries the evidence of the result and the default provenance.\<close>

definition candidate_fields :: "ResourceLimits \<Rightarrow> EvidenceVector \<Rightarrow> (WireError, Candidate) decoder" where
  "candidate_fields limits evidence =
     dbind (DecodeId 16 ''candidate identity'') (\<lambda>i. dbind (DecodePath limits) (\<lambda>path. dbind DecodeCost (\<lambda>cost.
     dbind (decode_bounded kMaxCandidateRank (malformed ''candidate rank is invalid'') (malformed ''candidate rank is invalid'')) (\<lambda>rank.
     dguard (rank \<noteq> 0) (malformed ''candidate rank is invalid'') (
     dbind (DecodeEnumValue kCurrentnessNames Currentness_cast ''candidate currentness'') (\<lambda>currentness.
     dbind (DecodeEnumValue kAuthorityValidationNames AuthorityValidation_cast ''candidate authority validation'') (\<lambda>authority.
     dbind (decode_vector (malformed ''candidate note count exceeds the configured limit'')
       (malformed ''candidate note count exceeds the configured limit'') (max_explanation_entries limits)
       (DecodeEnumValue kDiagnosticCodeNames DiagnosticCode_cast ''candidate note'')) (\<lambda>notes.
     dguard (i = CandidatePath_Id path) (malformed ''candidate identity does not match its canonical path encoding'')
       (dreturn (Candidate_new path cost\<lparr>cand_id := i, cand_rank := rank, cand_evidence := evidence, cand_authority := authority,
         cand_currentness := currentness, cand_notes := notes\<rparr>))))))))))"

definition rejection_fields :: "(WireError, RejectionExplanation) decoder" where
  "rejection_fields =
     dbind (DecodeEnumValue kDiagnosticCodeNames DiagnosticCode_cast ''rejection code'') (\<lambda>code.
     dbind (DecodeEnumValue kSubjectKindNames SubjectKind_cast ''rejection subject kind'') (\<lambda>kind.
     dbind (dread (malformed ''rejection subject is truncated'') (read_FixedBytes 16)) (\<lambda>bytes.
     dbind (dread (malformed ''rejection entry is truncated'') read_U64) (\<lambda>occurrences.
     dbind (dread (malformed ''rejection entry is truncated'') read_Text) (\<lambda>detail.
       dreturn \<lparr>rej_code = code, rej_subject = SubjectKey kind bytes, rej_detail = detail, rej_occurrences = occurrences\<rparr>)))))"

definition result_fields :: "ResourceLimits \<Rightarrow> (WireError, PlanningResult) decoder" where
  "result_fields limits =
     dbind (DecodeEnumValue kPlanStatusNames PlanStatus_cast ''plan status'') (\<lambda>status.
     dbind (decode_optional (malformed ''primary failure flag is missing'')
       (DecodeEnumValue kDiagnosticCodeNames DiagnosticCode_cast ''primary failure'')) (\<lambda>failure.
     dbind (DecodeId 16 ''source endpoint'') (\<lambda>source_endpoint. dbind (DecodeId 16 ''destination endpoint'') (\<lambda>destination_endpoint.
     dbind (DecodeId 16 ''source node'') (\<lambda>source_node. dbind (DecodeId 16 ''destination node'') (\<lambda>destination_node.
     dbind (DecodeId 16 ''plan identity'') (\<lambda>plan. dbind (DecodeStrong ''planning generation'') (\<lambda>generation.
     dbind (dread (malformed ''semantic digest is truncated'') (read_FixedBytes 32)) (\<lambda>digest.
     dbind DecodeEvidence (\<lambda>evidence.
     dbind (decode_count (malformed ''result flags are truncated'')) (\<lambda>requested.
     dbind (dread (malformed ''result flags are truncated'') read_Bool) (\<lambda>truncated.
     dbind (dread (malformed ''result flags are truncated'') read_Bool) (\<lambda>diagnostic_mode.
     dbind (decode_vector (malformed ''candidate count exceeds the configured limit'')
       (malformed ''candidate count exceeds the configured limit'') (max_candidates_per_request limits)
       (candidate_fields limits evidence)) (\<lambda>candidates.
     dbind (decode_vector (malformed ''explanation count exceeds the configured limit'')
       (malformed ''explanation count exceeds the configured limit'') (max_explanation_entries limits)
       (explanation_fields ''explanation code'' ''explanation text is truncated'')) (\<lambda>explanations.
     dbind (decode_vector (malformed ''rejection count exceeds the configured limit'')
       (malformed ''rejection count exceeds the configured limit'') (max_explanation_entries limits) rejection_fields) (\<lambda>rejections.
       dreturn \<lparr>res_status = status, res_primary_failure = failure, res_source_endpoint = source_endpoint,
         res_destination_endpoint = destination_endpoint, res_source_node = source_node, res_destination_node = destination_node,
         res_candidates = candidates, res_rejections = rejections, res_explanations = explanations, res_evidence = evidence,
         res_plan_id = plan, res_planning_generation = generation, res_semantic_digest = digest,
         res_requested_candidates = requested, res_truncated = truncated, res_diagnostic_mode = diagnostic_mode\<rparr>))))))))))))))))"

definition DecodePlanningResultPayload :: "bytes \<Rightarrow> ResourceLimits \<Rightarrow> WireError + PlanningResult" where
  "DecodePlanningResultPayload bytes limits =
     decode_message (Wire_kTrailingBytes, ''planning result payload carries trailing bytes'') (result_fields limits) bytes"

end
