(* ===== verification/ProtoCorrect.thy ===== *)
theory ProtoCorrect
  imports Proto
begin

text \<open>
  Every decoder of the wire protocol accepts exactly the encodings of the valid values: the encoder
  and the decoder of a payload are inverse to each other, and no value has two encodings.
\<close>

section \<open>Fields\<close>

lemma exact_DecodeId: "exact_decoder (id_present n) id_bytes (DecodeId n name)"
  unfolding DecodeId_def by (rule exact_id)

lemma exact_DecodeStrong: "exact_decoder (\<lambda>_. True) (le_bytes 8) (DecodeStrong name)"
  unfolding DecodeStrong_def by (rule exact_strong)

lemma exact_DecodeLayer:
  "exact_decoder layer_named (\<lambda>x. le_bytes 4 (of_nat (PathLayer_value x) :: u32)) (DecodeEnumValue kPathLayerNames PathLayer_cast name)"
  unfolding DecodeEnumValue_def by (rule exact_layer)

definition code_known :: "DiagnosticCode \<Rightarrow> bool" where
  "code_known c \<longleftrightarrow> DiagnosticCode_value c \<in> snd ` set kDiagnosticCodeNames"

lemma exact_DecodeCode:
  "exact_decoder code_known (\<lambda>x. le_bytes 4 (of_nat (DiagnosticCode_value x) :: u32))
     (DecodeEnumValue kDiagnosticCodeNames DiagnosticCode_cast name)"
  using DiagnosticCode_wire.exact_enum unfolding DecodeEnumValue_def code_known_def [abs_def] .

lemmas exact_enums =
  PlanStatus_wire.exact_enum Currentness_wire.exact_enum RelationshipType_wire.exact_enum EndpointClass_wire.exact_enum
  EvidenceSource_wire.exact_enum PlanningMode_wire.exact_enum AuthorityValidation_wire.exact_enum
  SubjectKind_wire.exact_enum WireStatus_wire.exact_enum CapabilityScope_wire.exact_enum CapabilityComparator_wire.exact_enum
  AuthorityValidationMode_wire.exact_enum TransitKind_wire.exact_enum

lemmas exact_DecodeEnums = exact_DecodeLayer exact_DecodeCode exact_enums [of "malformed (name @ '': missing value'')"
  "\<lambda>raw. malformed (name @ '': unknown enumeration value '' @ StrongUInt_ToString raw)" for name, folded DecodeEnumValue_def]

lemma exact_DecodeGenerations: "exact_decoder (\<lambda>_. True) enc_generations DecodeGenerations"
  unfolding DecodeGenerations_def by (rule exact_generations [OF exact_DecodeStrong])

lemma exact_DecodeEvidence: "exact_decoder wire_evidence enc_evidence DecodeEvidence"
  unfolding DecodeEvidence_def by (intro exact_evidence exact_DecodeId exact_DecodeGenerations exact_DecodeEnums exact_DecodeStrong)

lemma exact_DecodePath: "exact_decoder (wire_path (lim_max_hops limits)) enc_path (DecodePath limits)"
  unfolding DecodePath_def by (intro exact_path exact_hop exact_DecodeId exact_DecodeEnums exact_DecodeStrong)

lemma exact_DecodeCost: "exact_decoder wire_cost enc_cost DecodeCost"
proof -
  have eq: "DecodeCost = dbind (cost_fields (malformed ''path cost is truncated'')) (\<lambda>c. if wire_cost c then dreturn c else
     dfail (if \<not> cost_hops c \<le> kMaxHopCount then malformed ''path cost hop count out of range''
       else if CostAdd (cost_hops_cost c) (cost_static c) = None \<or> Option.bind (CostAdd (cost_hops_cost c) (cost_static c)) (\<lambda>a. CostAdd a (cost_degraded c)) = None
       then malformed ''path cost components overflow''
       else if cost_sum c \<noteq> Some (cost_total c) then malformed ''path cost does not equal the sum of its documented components''
       else malformed ''path cost penalty counts exceed the hop count''))"
    unfolding DecodeCost_def
    by (rule arg_cong [where f = "dbind _"], rule ext)
      (auto simp: wire_cost_def cost_sum_eq [symmetric] cost_sum_def TryFrom_def dguard_def not_less not_le split: option.splits)
  show ?thesis
  proof
    show "runs DecodeCost (enc_cost c) c" if "wire_cost c" for c
      unfolding eq using that by (intro exact_decoder.last_step [OF exact_cost_fields]) (simp_all add: runs_return)
  qed (auto simp: eq intro!: exact_decoder.only_step [OF exact_cost_fields] only_return only_fail)
qed

lemmas exact_fields = exact_DecodeId exact_DecodeStrong exact_DecodeEnums exact_DecodeGenerations exact_DecodeEvidence exact_DecodePath
  exact_DecodeCost exact_u32 exact_u64 exact_flag exact_text exact_any_id exact_count exact_bounded exact_fixed

lemmas field_steps = exact_fields [THEN exact_decoder.step]
lemmas field_last_steps = exact_fields [THEN exact_decoder.last_step]
lemmas field_only_steps = exact_fields [THEN exact_decoder.only_step]

section \<open>Small payloads\<close>

definition enc_hello :: "HelloPayload \<Rightarrow> bytes" where
  "enc_hello p = id_bytes (hello_publisher p) @ id_bytes (hello_boot p) @ le_bytes 8 (hello_epoch p) @ id_bytes (hello_snapshot p) @
     enc_generations (hello_generations p) @ le_bytes 4 (hello_node_count p) @ le_bytes 4 (hello_edge_count p)"

definition wire_hello :: "HelloPayload \<Rightarrow> bool" where
  "wire_hello p \<longleftrightarrow> id_present 8 (hello_publisher p) \<and> id_present 8 (hello_boot p) \<and> id_present 16 (hello_snapshot p)"

lemma exact_hello: "exact_decoder wire_hello enc_hello hello_fields"
proof
  show "runs hello_fields (enc_hello p) p" if "wire_hello p" for p
    using that unfolding hello_fields_def enc_hello_def wire_hello_def
    by (intro field_steps field_last_steps runs_return) simp_all
qed (auto simp: hello_fields_def enc_hello_def wire_hello_def intro!: field_only_steps only_return)

definition enc_snapshot_response :: "SnapshotResponsePayload \<Rightarrow> bytes" where
  "enc_snapshot_response p = id_bytes (snr_snapshot p) @ enc_generations (snr_generations p) @ le_bytes 4 (snr_node_count p) @
     le_bytes 4 (snr_edge_count p)"

lemma exact_snapshot_response: "exact_decoder (\<lambda>p. id_present 16 (snr_snapshot p)) enc_snapshot_response snapshot_fields"
proof
  show "runs snapshot_fields (enc_snapshot_response p) p" if "id_present 16 (snr_snapshot p)" for p
    using that unfolding snapshot_fields_def enc_snapshot_response_def
    by (intro field_steps field_last_steps runs_return) simp_all
qed (auto simp: snapshot_fields_def enc_snapshot_response_def intro!: field_only_steps only_return)

abbreviation enc_code :: "DiagnosticCode \<Rightarrow> bytes" where
  "enc_code c \<equiv> le_bytes 4 (of_nat (DiagnosticCode_value c) :: u32)"

definition enc_plan_error :: "PlanErrorPayload \<Rightarrow> bytes" where
  "enc_plan_error p = id_bytes (perr_request p) @ le_bytes 4 (of_nat (WireStatus_value (perr_status p)) :: u32) @
     le_bytes 4 (of_nat (PlanStatus_value (perr_plan_status p)) :: u32) @ enc_code (perr_code p) @ enc_Text (perr_detail p)"

definition wire_plan_error :: "PlanErrorPayload \<Rightarrow> bool" where
  "wire_plan_error p \<longleftrightarrow> id_present 16 (perr_request p) \<and> code_known (perr_code p) \<and> length (perr_detail p) < 2 ^ 64"

lemma exact_plan_error: "exact_decoder wire_plan_error enc_plan_error plan_error_fields"
proof
  show "runs plan_error_fields (enc_plan_error p) p" if "wire_plan_error p" for p
    using that unfolding plan_error_fields_def enc_plan_error_def wire_plan_error_def
    by (intro field_steps field_last_steps runs_return) simp_all
qed (auto simp: plan_error_fields_def enc_plan_error_def wire_plan_error_def intro!: field_only_steps only_return)

definition enc_fence :: "FenceNoticePayload \<Rightarrow> bytes" where
  "enc_fence p = id_bytes (fence_boot p) @ le_bytes 4 (of_nat (WireStatus_value (fence_status p)) :: u32) @
     enc_code (fence_code p) @ enc_Text (fence_detail p)"

definition wire_fence :: "FenceNoticePayload \<Rightarrow> bool" where
  "wire_fence p \<longleftrightarrow> id_present 8 (fence_boot p) \<and> code_known (fence_code p) \<and> length (fence_detail p) < 2 ^ 64"

lemma exact_fence: "exact_decoder wire_fence enc_fence fence_fields"
proof
  show "runs fence_fields (enc_fence p) p" if "wire_fence p" for p
    using that unfolding fence_fields_def enc_fence_def wire_fence_def
    by (intro field_steps field_last_steps runs_return) simp_all
qed (auto simp: fence_fields_def enc_fence_def wire_fence_def intro!: field_only_steps only_return)

definition enc_query :: "CurrentnessQueryPayload \<Rightarrow> bytes" where
  "enc_query p = id_bytes (cq_plan p) @ id_bytes (cq_request p) @ enc_evidence (cq_evidence p)"

definition wire_query :: "CurrentnessQueryPayload \<Rightarrow> bool" where
  "wire_query p \<longleftrightarrow> id_present 16 (cq_plan p) \<and> id_present 16 (cq_request p) \<and> wire_evidence (cq_evidence p)"

lemma exact_query: "exact_decoder wire_query enc_query query_fields"
proof
  show "runs query_fields (enc_query p) p" if "wire_query p" for p
    using that unfolding query_fields_def enc_query_def wire_query_def
    by (intro field_steps field_last_steps runs_return) simp_all
qed (auto simp: query_fields_def enc_query_def wire_query_def intro!: field_only_steps only_return)

definition enc_explanation :: "ExplanationEntry \<Rightarrow> bytes" where
  "enc_explanation e = enc_code (expl_code e) @ enc_Text (expl_detail e)"

definition wire_explanation :: "ExplanationEntry \<Rightarrow> bool" where
  "wire_explanation e \<longleftrightarrow> code_known (expl_code e) \<and> length (expl_detail e) < 2 ^ 64"

lemma exact_explanation: "exact_decoder wire_explanation enc_explanation (explanation_fields code_name missing)"
proof
  show "runs (explanation_fields code_name missing) (enc_explanation e) e" if "wire_explanation e" for e
    using that unfolding explanation_fields_def enc_explanation_def wire_explanation_def
    by (intro field_steps field_last_steps runs_return) simp_all
qed (auto simp: explanation_fields_def enc_explanation_def wire_explanation_def intro!: field_only_steps only_return)

definition enc_currentness :: "CurrentnessResultPayload \<Rightarrow> bytes" where
  "enc_currentness p = id_bytes (cr_plan p) @ le_bytes 4 (of_nat (Currentness_value (cr_currentness p)) :: u32) @
     enc_vector enc_explanation (cr_changes p)"

text \<open>A vector that fits its limit, with elements of the given kind.\<close>

abbreviation vector_of :: "nat \<Rightarrow> ('a \<Rightarrow> bool) \<Rightarrow> 'a list \<Rightarrow> bool" where
  "vector_of limit valid xs \<equiv> length xs \<le> limit \<and> length xs < 2 ^ 64 \<and> (\<forall>x \<in> set xs. valid x)"

definition wire_currentness :: "ResourceLimits \<Rightarrow> CurrentnessResultPayload \<Rightarrow> bool" where
  "wire_currentness limits p \<longleftrightarrow> id_present 16 (cr_plan p) \<and> vector_of (max_explanation_entries limits) wire_explanation (cr_changes p)"

lemma exact_currentness: "exact_decoder (wire_currentness limits) enc_currentness (currentness_fields limits)"
proof
  show "runs (currentness_fields limits) (enc_currentness p) p" if "wire_currentness limits p" for p
    using that unfolding currentness_fields_def enc_currentness_def wire_currentness_def
    by (intro field_steps exact_decoder.last_step [OF exact_vector [OF exact_explanation]] runs_return) simp_all
qed (auto simp: currentness_fields_def enc_currentness_def wire_currentness_def
    intro!: field_only_steps exact_decoder.only_step [OF exact_vector [OF exact_explanation]] only_return)

section \<open>Requests\<close>

lemma exact_ids: "exact_decoder (vector_of limit (id_present n)) (enc_vector id_bytes) (DecodeTypedIdVector n limit name)"
  unfolding DecodeTypedIdVector_def by (rule exact_vector [OF exact_DecodeId])

definition enc_endpoint :: "EndpointRef \<Rightarrow> bytes" where
  "enc_endpoint e = id_bytes (ref_id e) @ le_bytes 4 (of_nat (EndpointClass_value (ref_class e)) :: u32) @ le_bytes 8 (ref_generation e)"

lemma exact_endpoint: "exact_decoder (\<lambda>e. id_present 16 (ref_id e)) enc_endpoint (endpoint_fields a b c)"
proof
  show "runs (endpoint_fields a b c) (enc_endpoint e) e" if "id_present 16 (ref_id e)" for e
    using that unfolding endpoint_fields_def enc_endpoint_def by (intro field_steps field_last_steps runs_return) simp_all
qed (auto simp: endpoint_fields_def enc_endpoint_def intro!: field_only_steps only_return)

definition enc_stage :: "TransitStage \<Rightarrow> bytes" where
  "enc_stage s = le_bytes 4 (of_nat (TransitKind_value (stage_kind s)) :: u32) @ enc_vector id_bytes (stage_alternatives s)"

definition wire_stage :: "ResourceLimits \<Rightarrow> TransitStage \<Rightarrow> bool" where
  "wire_stage limits s \<longleftrightarrow> vector_of (max_members_in_any_set limits) (id_present 16) (stage_alternatives s)"

lemma exact_stage: "exact_decoder (wire_stage limits) enc_stage (stage_fields limits)"
proof
  show "runs (stage_fields limits) (enc_stage s) s" if "wire_stage limits s" for s
    using that unfolding stage_fields_def enc_stage_def wire_stage_def
    by (intro field_steps exact_decoder.last_step [OF exact_ids] runs_return) simp_all
qed (auto simp: stage_fields_def enc_stage_def wire_stage_def intro!: field_only_steps exact_decoder.only_step [OF exact_ids] only_return)

definition enc_requirement :: "CapabilityRequirement \<Rightarrow> bytes" where
  "enc_requirement r = id_bytes (req_capability r) @ le_bytes 4 (of_nat (CapabilityScope_value (req_scope r)) :: u32) @
     le_bytes 4 (of_nat (CapabilityComparator_value (req_comparator r)) :: u32) @ le_bytes 8 (req_value r)"

definition wire_requirement :: "CapabilityRequirement \<Rightarrow> bool" where
  "wire_requirement r \<longleftrightarrow> id_present 8 (req_capability r) \<and>
     (case req_scope r of CapScope_other v \<Rightarrow> False | _ \<Rightarrow> True) \<and> (case req_comparator r of Cmp_other v \<Rightarrow> False | _ \<Rightarrow> True)"

lemma exact_requirement: "exact_decoder wire_requirement enc_requirement requirement_fields"
proof
  show "runs requirement_fields (enc_requirement r) r" if "wire_requirement r" for r
    using that unfolding requirement_fields_def enc_requirement_def wire_requirement_def
    by (intro field_steps field_last_steps runs_return) simp_all
qed (auto simp: requirement_fields_def enc_requirement_def wire_requirement_def intro!: field_only_steps only_return)

definition enc_constraints :: "ConstraintSet \<Rightarrow> bytes" where
  "enc_constraints c = id_bytes (cs_id c) @ le_bytes 8 (cs_generation c) @ le_bytes 4 (of_nat (PathLayer_value (cs_layer c)) :: u32) @
     enc_vector id_bytes (forbidden_nodes c) @ enc_vector id_bytes (forbidden_links c) @ enc_vector id_bytes (forbidden_ports c) @
     enc_vector id_bytes (forbidden_failure_domains c) @ enc_vector id_bytes (forbidden_failure_domain_classes c) @
     enc_vector enc_stage (required_transit c) @ enc_vector enc_requirement (required_capabilities c) @
     enc_optional (le_bytes 4) (cs_max_hops c) @ enc_optional (\<lambda>n. le_bytes 4 (of_nat n :: u32)) (cs_max_members c) @
     enc_bool (fail_closed_on_unknown_domains c)"

definition wire_constraints :: "ResourceLimits \<Rightarrow> ConstraintSet \<Rightarrow> bool" where
  "wire_constraints limits c \<longleftrightarrow> id_present 16 (cs_id c) \<and> layer_named (cs_layer c) \<and>
     vector_of (max_forbidden_ids limits) (id_present 16) (forbidden_nodes c) \<and>
     vector_of (max_forbidden_ids limits) (id_present 16) (forbidden_links c) \<and>
     vector_of (max_forbidden_ids limits) (id_present 16) (forbidden_ports c) \<and>
     vector_of (max_forbidden_ids limits) (id_present 8) (forbidden_failure_domains c) \<and>
     vector_of (max_forbidden_domain_classes limits) (id_present 8) (forbidden_failure_domain_classes c) \<and>
     vector_of (max_required_ids limits) (wire_stage limits) (required_transit c) \<and>
     vector_of (max_capability_requirements limits) wire_requirement (required_capabilities c) \<and>
     pred_option (\<lambda>v. v \<le> kMaxHopCount) (cs_max_hops c) \<and> pred_option (\<lambda>n. n < 2 ^ 32) (cs_max_members c)"

lemmas exact_lists = exact_ids exact_vector [OF exact_stage] exact_vector [OF exact_requirement]
  exact_optional [OF exact_bounded] exact_optional [OF exact_count] exact_optional [OF exact_DecodeCode] exact_endpoint
lemmas list_steps = exact_lists [THEN exact_decoder.step]
lemmas list_only_steps = exact_lists [THEN exact_decoder.only_step]

lemma exact_constraints: "exact_decoder (wire_constraints limits) enc_constraints (constraint_fields limits)"
proof
  show "runs (constraint_fields limits) (enc_constraints c) c" if "wire_constraints limits c" for c
    using that unfolding constraint_fields_def enc_constraints_def wire_constraints_def
    by (intro field_steps list_steps field_last_steps runs_return) simp_all
qed (auto simp: constraint_fields_def enc_constraints_def wire_constraints_def intro!: field_only_steps list_only_steps only_return)

definition enc_policy :: "PlanningPolicy \<Rightarrow> bytes" where
  "enc_policy p = le_bytes 8 (pol_generation p) @ le_bytes 8 (hop_cost (pol_cost_model p)) @ le_bytes 8 (degraded_penalty (pol_cost_model p)) @
     le_bytes 8 (locality_penalty (pol_cost_model p)) @ enc_bool (allow_degraded_links p) @ enc_bool (allow_draining_ports p) @
     enc_bool (allow_maintenance_ports p) @ enc_bool (require_operational_proof p) @ enc_bool (allow_zero_hop_self_path p) @
     enc_vector id_bytes (locality_scope p) @ le_bytes 4 (of_nat (AuthorityValidationMode_value (authority_validation p)) :: u32)"

definition wire_policy :: "ResourceLimits \<Rightarrow> PlanningPolicy \<Rightarrow> bool" where
  "wire_policy limits p \<longleftrightarrow> vector_of (max_forbidden_ids limits) (id_present 16) (locality_scope p) \<and>
     (case authority_validation p of AuthMode_other v \<Rightarrow> False | _ \<Rightarrow> True)"

lemma exact_policy: "exact_decoder (wire_policy limits) enc_policy (policy_fields limits)"
proof
  show "runs (policy_fields limits) (enc_policy p) p" if "wire_policy limits p" for p
    using that unfolding policy_fields_def enc_policy_def wire_policy_def
    by (intro field_steps list_steps field_last_steps runs_return) simp_all
qed (auto simp: policy_fields_def enc_policy_def wire_policy_def intro!: field_only_steps list_only_steps only_return)

definition enc_authority :: "CallerAuthority \<Rightarrow> bytes" where
  "enc_authority a = le_bytes 4 (auth_scope_mask a) @ id_bytes (auth_publisher a) @ id_bytes (auth_worker_boot a) @
     le_bytes 8 (auth_coordinator_epoch a) @ id_bytes (auth_attempt a) @ enc_bool (auth_epoch_bound a) @ enc_bool (auth_enforce_scope a)"

definition wire_authority :: "CallerAuthority \<Rightarrow> bool" where
  "wire_authority a \<longleftrightarrow> id_ok 8 (auth_publisher a) \<and> id_ok 8 (auth_worker_boot a) \<and> id_ok 8 (auth_attempt a)"

lemma exact_authority: "exact_decoder wire_authority enc_authority authority_fields"
proof
  show "runs authority_fields (enc_authority a) a" if "wire_authority a" for a
    using that unfolding authority_fields_def enc_authority_def wire_authority_def
    by (intro field_steps field_last_steps runs_return) simp_all
qed (auto simp: authority_fields_def enc_authority_def wire_authority_def intro!: field_only_steps only_return)

definition enc_request :: "PlanningRequest \<Rightarrow> bytes" where
  "enc_request q = id_bytes (rq_id q) @ enc_endpoint (rq_source q) @ enc_endpoint (rq_destination q) @ enc_constraints (rq_constraints q) @
     enc_policy (rq_policy q) @ le_bytes 4 (of_nat (rq_max_candidates q) :: u32) @
     le_bytes 4 (of_nat (PlanningMode_value (rq_mode q)) :: u32) @ enc_authority (rq_authority q) @ enc_bool (rq_expect_epoch q) @
     le_bytes 8 (rq_expected_epoch q) @ enc_bool (rq_expect_topology q) @ le_bytes 8 (rq_expected_topology q) @
     enc_bool (rq_expect_snapshot q) @ id_bytes (rq_expected_snapshot q)"

definition wire_request :: "ResourceLimits \<Rightarrow> PlanningRequest \<Rightarrow> bool" where
  "wire_request limits q \<longleftrightarrow> id_present 16 (rq_id q) \<and> id_present 16 (ref_id (rq_source q)) \<and> id_present 16 (ref_id (rq_destination q)) \<and>
     wire_constraints limits (rq_constraints q) \<and> wire_policy limits (rq_policy q) \<and> rq_max_candidates q < 2 ^ 32 \<and>
     (case rq_mode q of Mode_other v \<Rightarrow> False | _ \<Rightarrow> True) \<and> wire_authority (rq_authority q) \<and> id_ok 16 (rq_expected_snapshot q) \<and>
     (rq_expect_snapshot q \<longrightarrow> FixedId_IsValid (rq_expected_snapshot q))"

lemmas group_steps = exact_decoder.step [OF exact_constraints] exact_decoder.step [OF exact_policy] exact_decoder.step [OF exact_authority]
lemmas group_only_steps = exact_decoder.only_step [OF exact_constraints] exact_decoder.only_step [OF exact_policy]
  exact_decoder.only_step [OF exact_authority]

lemma exact_request: "exact_decoder (wire_request limits) enc_request (request_fields limits)"
proof
  show "runs (request_fields limits) (enc_request q) q" if "wire_request limits q" for q
    using that unfolding request_fields_def enc_request_def wire_request_def
    by (intro field_steps list_steps group_steps field_last_steps runs_guard runs_return) simp_all
qed (auto simp: request_fields_def enc_request_def wire_request_def intro!: field_only_steps list_only_steps group_only_steps only_guard only_return)

section \<open>Results\<close>

definition enc_result_candidate :: "Candidate \<Rightarrow> bytes" where
  "enc_result_candidate c = id_bytes (cand_id c) @ enc_path (cand_path c) @ enc_cost (cand_cost c) @ le_bytes 4 (cand_rank c) @
     le_bytes 4 (of_nat (Currentness_value (cand_currentness c)) :: u32) @
     le_bytes 4 (of_nat (AuthorityValidation_value (cand_authority c)) :: u32) @
     enc_vector (\<lambda>note. enc_code note) (cand_notes c)"

text \<open>
  A candidate as the wire carries it: the evidence is that of the result, the provenance is lost, and the
  identity is that of the path.
\<close>

definition wire_candidate :: "ResourceLimits \<Rightarrow> EvidenceVector \<Rightarrow> Candidate \<Rightarrow> bool" where
  "wire_candidate limits evidence c \<longleftrightarrow> id_present 16 (cand_id c) \<and> wire_path (lim_max_hops limits) (cand_path c) \<and> wire_cost (cand_cost c) \<and>
     cand_rank c \<le> kMaxCandidateRank \<and> cand_rank c \<noteq> 0 \<and> vector_of (max_explanation_entries limits) code_known (cand_notes c) \<and>
     cand_id c = CandidatePath_Id (cand_path c) \<and> cand_evidence c = evidence \<and>
     cand_provenance c = cand_provenance (Candidate_new (cand_path c) (cand_cost c))"

lemmas exact_notes = exact_vector [OF exact_DecodeCode]

lemma exact_candidate: "exact_decoder (wire_candidate limits evidence) enc_result_candidate (candidate_fields limits evidence)"
proof
  show "runs (candidate_fields limits evidence) (enc_result_candidate c) c" if "wire_candidate limits evidence c" for c
    using that unfolding candidate_fields_def enc_result_candidate_def wire_candidate_def
    by (intro field_steps exact_decoder.last_step [OF exact_notes] runs_guard runs_return) (auto simp: Candidate_new_def)
qed (auto simp: candidate_fields_def enc_result_candidate_def wire_candidate_def Candidate_new_def
    intro!: field_only_steps exact_decoder.only_step [OF exact_notes] only_guard only_return)

definition enc_rejection :: "RejectionExplanation \<Rightarrow> bytes" where
  "enc_rejection x = enc_code (rej_code x) @ le_bytes 4 (of_nat (SubjectKind_value (subj_kind (rej_subject x))) :: u32) @
     subj_bytes (rej_subject x) @ le_bytes 8 (rej_occurrences x) @ enc_Text (rej_detail x)"

definition wire_rejection :: "RejectionExplanation \<Rightarrow> bool" where
  "wire_rejection x \<longleftrightarrow> code_known (rej_code x) \<and> length (subj_bytes (rej_subject x)) = 16 \<and> length (rej_detail x) < 2 ^ 64"

lemma exact_rejection: "exact_decoder wire_rejection enc_rejection rejection_fields"
proof
  show "runs rejection_fields (enc_rejection x) x" if "wire_rejection x" for x
    using that unfolding rejection_fields_def enc_rejection_def wire_rejection_def
    by (intro field_steps field_last_steps runs_return) simp_all
qed (auto simp: rejection_fields_def enc_rejection_def wire_rejection_def intro!: field_only_steps only_return)

definition enc_result :: "PlanningResult \<Rightarrow> bytes" where
  "enc_result x = le_bytes 4 (of_nat (PlanStatus_value (res_status x)) :: u32) @ enc_optional (\<lambda>c. enc_code c) (res_primary_failure x) @
     id_bytes (res_source_endpoint x) @ id_bytes (res_destination_endpoint x) @ id_bytes (res_source_node x) @
     id_bytes (res_destination_node x) @ id_bytes (res_plan_id x) @ le_bytes 8 (res_planning_generation x) @ res_semantic_digest x @
     enc_evidence (res_evidence x) @ le_bytes 4 (of_nat (res_requested_candidates x) :: u32) @ enc_bool (res_truncated x) @
     enc_bool (res_diagnostic_mode x) @ enc_vector enc_result_candidate (res_candidates x) @
     enc_vector enc_explanation (res_explanations x) @ enc_vector enc_rejection (res_rejections x)"

definition wire_result :: "ResourceLimits \<Rightarrow> PlanningResult \<Rightarrow> bool" where
  "wire_result limits x \<longleftrightarrow> pred_option code_known (res_primary_failure x) \<and> id_present 16 (res_source_endpoint x) \<and>
     id_present 16 (res_destination_endpoint x) \<and> id_present 16 (res_source_node x) \<and> id_present 16 (res_destination_node x) \<and>
     id_present 16 (res_plan_id x) \<and> length (res_semantic_digest x) = 32 \<and> wire_evidence (res_evidence x) \<and>
     res_requested_candidates x < 2 ^ 32 \<and>
     vector_of (max_candidates_per_request limits) (wire_candidate limits (res_evidence x)) (res_candidates x) \<and>
     vector_of (max_explanation_entries limits) wire_explanation (res_explanations x) \<and>
     vector_of (max_explanation_entries limits) wire_rejection (res_rejections x)"

lemmas exact_result_lists = exact_vector [OF exact_candidate] exact_vector [OF exact_explanation]
lemmas result_steps = exact_result_lists [THEN exact_decoder.step] exact_decoder.last_step [OF exact_vector [OF exact_rejection]]
lemmas result_only_steps = exact_result_lists [THEN exact_decoder.only_step] exact_decoder.only_step [OF exact_vector [OF exact_rejection]]

lemma exact_result: "exact_decoder (wire_result limits) enc_result (result_fields limits)"
proof
  show "runs (result_fields limits) (enc_result x) x" if "wire_result limits x" for x
    using that unfolding result_fields_def enc_result_def wire_result_def
    by (intro field_steps list_steps result_steps runs_return) simp_all
qed (auto simp: result_fields_def enc_result_def wire_result_def intro!: field_only_steps list_only_steps result_only_steps only_return)

section \<open>What the encoders write\<close>

lemma emits_then_more:
  "emits f bs \<Longrightarrow> emits (\<lambda>w. EncodeId x (f w)) (bs @ id_bytes x)"
  "emits f bs \<Longrightarrow> emits (\<lambda>w. EncodeStrong v (f w)) (bs @ le_bytes 8 v)"
  "emits f bs \<Longrightarrow> emits (\<lambda>w. EncodeGenerations g (f w)) (bs @ enc_generations g)"
  "emits f bs \<Longrightarrow> emits (\<lambda>w. EncodeEvidence e (f w)) (bs @ enc_evidence e)"
  "emits f bs \<Longrightarrow> emits (\<lambda>w. EncodePath p (f w)) (bs @ enc_path p)"
  "emits f bs \<Longrightarrow> emits (\<lambda>w. EncodeCost c (f w)) (bs @ enc_cost c)"
  "emits f bs \<Longrightarrow> emits (\<lambda>w. write_Bool b (f w)) (bs @ enc_bool b)"
  unfolding EncodeId_def EncodeStrong_def EncodeGenerations_def EncodeEvidence_def EncodePath_def EncodeCost_def enc_bool_def
  by (intro emits_then emits_then_generations emits_then_evidence emits_comp [OF _ emits_CandidatePath_Encode]
      emits_comp [OF _ emits_write_cost]; assumption)+

lemma emits_EncodeId: "emits (EncodeId x) (id_bytes x)"
  using emits_then_more(1) [OF emits_id] by simp

lemma emits_encode_ids: "emits (encode_ids ids) (enc_vector id_bytes ids)"
  using emits_vector [OF emits_EncodeId emits_id] by (simp add: encode_ids_def [abs_def])

lemma emits_encode_explanation: "emits (encode_explanation e) (enc_explanation e)"
  unfolding encode_explanation_def [abs_def] Let_def enc_explanation_def
  by (rule emits_eqI, (rule emits_then emits_id)+) simp

lemma emits_encode_stage: "emits (encode_stage x) (enc_stage x)"
  unfolding encode_stage_def [abs_def] enc_stage_def
  by (rule emits_eqI, rule emits_comp [OF _ emits_encode_ids], (rule emits_then emits_id)+) simp

lemma emits_encode_requirement: "emits (encode_requirement r) (enc_requirement r)"
  unfolding encode_requirement_def [abs_def] Let_def enc_requirement_def
  by (rule emits_eqI, (rule emits_then_more emits_then emits_id)+) simp

lemma emits_encode_endpoint_ref: "emits (encode_endpoint_ref e) (enc_endpoint e)"
  unfolding encode_endpoint_ref_def [abs_def] Let_def enc_endpoint_def
  by (rule emits_eqI, (rule emits_then_more emits_then emits_id)+) simp

lemma emits_optional:
  assumes "\<And>x. emits (put x) (enc x)"
  shows "emits (\<lambda>w. case v of None \<Rightarrow> write_Bool (v \<noteq> None) w | Some x \<Rightarrow> put x (write_Bool (v \<noteq> None) w)) (enc_optional enc v)"
  using emits_then_more(7) [OF emits_id, of "v \<noteq> None"] emits_comp [OF emits_then_more(7) [OF emits_id] assms]
  by (cases v) (auto simp: enc_optional_def)

lemma emits_encode_optional_u32: "emits (encode_optional_u32 v) (enc_optional (le_bytes 4) v)"
  unfolding encode_optional_u32_def [abs_def] Let_def by (rule emits_optional [OF emits_write_U32])

lemma enc_optional_map: "enc_optional enc (map_option f v) = enc_optional (\<lambda>x. enc (f x)) v"
  by (cases v) (simp_all add: enc_optional_def)

lemmas emits_then_lists = emits_comp [OF _ emits_encode_ids] emits_comp [OF _ emits_encode_endpoint_ref]
  emits_comp [OF _ emits_encode_optional_u32] emits_vector [OF emits_encode_stage] emits_vector [OF emits_encode_requirement]
  emits_vector [OF emits_encode_explanation]

lemma emits_encode_constraints: "emits (encode_constraints c) (enc_constraints c)"
  unfolding encode_constraints_def [abs_def] Let_def enc_constraints_def
  by (rule emits_eqI, (rule emits_then_lists emits_then_more emits_then emits_id)+) (simp add: enc_optional_map)

lemma emits_encode_policy: "emits (encode_policy p) (enc_policy p)"
  unfolding encode_policy_def [abs_def] Let_def enc_policy_def
  by (rule emits_eqI, (rule emits_then_lists emits_then_more emits_then emits_id)+) simp

lemma emits_encode_authority: "emits (encode_authority a) (enc_authority a)"
  unfolding encode_authority_def [abs_def] Let_def enc_authority_def
  by (rule emits_eqI, (rule emits_then_more emits_then emits_id)+) simp

lemmas emits_then_groups = emits_comp [OF _ emits_encode_constraints] emits_comp [OF _ emits_encode_policy] emits_comp [OF _ emits_encode_authority]

lemma emits_EncodePlanningRequestPayload: "emits (EncodePlanningRequestPayload q) (enc_request q)"
  unfolding EncodePlanningRequestPayload_def [abs_def] Let_def enc_request_def
  by (rule emits_eqI, (rule emits_then_groups emits_then_lists emits_then_more emits_then emits_id)+) simp

lemma emits_encode_result_candidate: "emits (encode_result_candidate c) (enc_result_candidate c)"
  unfolding encode_result_candidate_def [abs_def] Let_def enc_result_candidate_def
  by (rule emits_eqI, rule emits_vector [OF emits_write_U32], (rule emits_then_more emits_then emits_id)+) simp

lemma emits_encode_rejection: "emits (encode_rejection x) (enc_rejection x)"
  unfolding encode_rejection_def [abs_def] Let_def enc_rejection_def
  by (rule emits_eqI, (rule emits_then_more emits_then emits_id)+) simp

lemma emits_then_failure:
  assumes "emits f bs"
  shows "emits (\<lambda>w. case v of None \<Rightarrow> write_Bool (v \<noteq> None) (f w) | Some c \<Rightarrow> write_U32 (of_nat (DiagnosticCode_value c)) (write_Bool (v \<noteq> None) (f w)))
    (bs @ enc_optional (\<lambda>c. enc_code c) v)"
  by (rule emits_comp [OF assms emits_optional [OF emits_write_U32]])

lemma emits_EncodePlanningResultPayload: "emits (EncodePlanningResultPayload x) (enc_result x)"
  unfolding EncodePlanningResultPayload_def [abs_def] Let_def enc_result_def
  by (rule emits_eqI, (rule emits_vector [OF emits_encode_result_candidate] emits_vector [OF emits_encode_rejection] emits_then_lists
        emits_then_failure emits_then_more emits_then emits_id)+) simp

lemma emits_small_payloads:
  "emits (EncodeHelloPayload a) (enc_hello a)" "emits (EncodeSnapshotResponsePayload b) (enc_snapshot_response b)"
  "emits (EncodePlanErrorPayload c) (enc_plan_error c)" "emits (EncodeFenceNoticePayload d) (enc_fence d)"
  "emits (EncodeCurrentnessQueryPayload e) (enc_query e)" "emits (EncodeCurrentnessResultPayload f) (enc_currentness f)"
  unfolding EncodeHelloPayload_def [abs_def] enc_hello_def EncodeSnapshotResponsePayload_def [abs_def] enc_snapshot_response_def
    EncodePlanErrorPayload_def [abs_def] enc_plan_error_def EncodeFenceNoticePayload_def [abs_def] enc_fence_def
    EncodeCurrentnessQueryPayload_def [abs_def] enc_query_def EncodeCurrentnessResultPayload_def [abs_def] enc_currentness_def Let_def
  by (rule emits_eqI, (rule emits_then_lists emits_then_more emits_then emits_id)+, simp)+

section \<open>Frames\<close>

definition enc_header :: "WireFrame \<Rightarrow> u32 \<Rightarrow> bytes" where
  "enc_header f n = le_bytes 4 kWireMagicValue @ le_bytes 2 kWireProtocolVersion @ le_bytes 2 (frame_flags f) @
     le_bytes 4 (of_nat (WireMessage_value (frame_type f)) :: u32) @ le_bytes 8 (frame_epoch f) @ le_bytes 8 (frame_sequence f) @
     id_bytes (frame_boot f) @ id_bytes (frame_request f) @ le_bytes 4 n @ le_bytes 4 (0 :: u32)"

definition header_ok :: "WireFrame \<Rightarrow> bool" where
  "header_ok f \<longleftrightarrow> id_ok 8 (frame_boot f) \<and> id_ok 16 (frame_request f) \<and> frame_flags f AND NOT kWireKnownFlags = 0"

lemma exact_header:
  "exact_decoder (\<lambda>(f, n). header_ok f \<and> frame_payload f = [] \<and> unat n \<le> limit) (\<lambda>(f, n). enc_header f n) (header_fields limit)"
proof
  show "runs (header_fields limit) (case x of (f, n) \<Rightarrow> enc_header f n) x"
    if "case x of (f, n) \<Rightarrow> header_ok f \<and> frame_payload f = [] \<and> unat n \<le> limit" for x
    using that unfolding header_fields_def enc_header_def header_ok_def case_prod_beta
    by (intro field_steps exact_decoder.step [OF u16.exact_read] exact_decoder.step [OF WireMessage_wire.exact_enum] field_last_steps
        runs_guard runs_return) (simp_all add: prod_eq_iff)
qed (auto simp: header_fields_def enc_header_def header_ok_def
    intro!: field_only_steps exact_decoder.only_step [OF u16.exact_read] exact_decoder.only_step [OF WireMessage_wire.exact_enum] only_guard only_return)

lemma length_enc_header: "header_ok f \<Longrightarrow> length (enc_header f n) = kHeaderIntegrityOffset"
  by (simp add: enc_header_def header_ok_def id_ok_def kHeaderIntegrityOffset_def kWireHeaderBytes_def kWireIntegrityBytes_def)

lemma emits_frame_header: "emits (frame_header f) (enc_header f (of_nat (length (frame_payload f))))"
  unfolding frame_header_def [abs_def] Let_def enc_header_def
  by (rule emits_eqI, (rule emits_then emits_id)+) simp

lemma EncodeFrame_eq:
  assumes "header_ok f"
  shows "EncodeFrame f = (let header = enc_header f (of_nat (length (frame_payload f)))
    in header @ frame_integrity header (frame_payload f) @ frame_payload f)"
proof -
  have "bw_data (frame_header f (ByteWriter_new kWireHeaderBytes)) = enc_header f (of_nat (length (frame_payload f)))"
    by (rule emits_new(2) [OF emits_frame_header]) (simp add: length_enc_header [OF assms] kHeaderIntegrityOffset_def)
  then show ?thesis by (simp add: EncodeFrame_def)
qed

lemma length_frame_integrity [simp]: "length (frame_integrity a b) = kWireIntegrityBytes"
  by (simp add: frame_integrity_def Finish_two kWireIntegrityBytes_def)

lemma DecodeFrame_iff:
  "DecodeFrame bs limit = Inr f \<longleftrightarrow>
   header_ok f \<and> length (frame_payload f) \<le> limit \<and> length (frame_payload f) < 2 ^ 32 \<and> bs = EncodeFrame f"
proof
  assume d: "DecodeFrame bs limit = Inr f"
  then obtain g n where h: "fst (header_fields limit (ByteReader_new bs)) = Inr (g, n)"
    and len: "length bs = kWireHeaderBytes + unat n"
    and int: "take kWireIntegrityBytes (drop kHeaderIntegrityOffset bs) =
      frame_integrity (take kHeaderIntegrityOffset bs) (take (unat n) (drop kWireHeaderBytes bs))"
    and f: "f = g\<lparr>frame_payload := drop kWireHeaderBytes bs\<rparr>"
    by (auto simp: DecodeFrame_def Let_def split: if_splits sum.splits)
  obtain r where "header_fields limit (ByteReader_new bs) = (Inr (g, n), r)" using h by (metis prod.collapse)
  from exact_decoder.rejects [OF exact_header] ready_new this obtain cs rest
    where c: "bs = cs @ rest" "header_ok g" "unat n \<le> limit" "cs = enc_header g n" by (rule onlyE) auto
  have off: "length cs = kHeaderIntegrityOffset" using c(2,4) length_enc_header by simp
  have ok: "header_ok f" "enc_header f n = cs" using c(2,4) f by (simp_all add: header_ok_def enc_header_def)
  have pl: "frame_payload f = drop kWireHeaderBytes bs" "length (frame_payload f) = unat n" using f len by simp_all
  have "bs = take kHeaderIntegrityOffset bs @ take kWireIntegrityBytes (drop kHeaderIntegrityOffset bs) @ drop kWireHeaderBytes bs"
    by (simp add: kHeaderIntegrityOffset_def kWireHeaderBytes_def kWireIntegrityBytes_def flip: append_assoc take_add)
  moreover have "take kHeaderIntegrityOffset bs = cs" using c(1) off by simp
  moreover have "take (unat n) (drop kWireHeaderBytes bs) = drop kWireHeaderBytes bs" using len by simp
  ultimately have "bs = EncodeFrame f" using int ok(2) pl by (simp add: EncodeFrame_eq [OF ok(1)] Let_def)
  moreover have "unat n < 2 ^ 32" using unsigned_less [of n, where 'a = nat] by simp
  ultimately show "header_ok f \<and> length (frame_payload f) \<le> limit \<and> length (frame_payload f) < 2 ^ 32 \<and> bs = EncodeFrame f"
    using ok(1) c(3) pl(2) by simp
next
  assume f: "header_ok f \<and> length (frame_payload f) \<le> limit \<and> length (frame_payload f) < 2 ^ 32 \<and> bs = EncodeFrame f"
  define n where "n = (of_nat (length (frame_payload f)) :: u32)"
  define header where "header = enc_header f n"
  have n: "unat n = length (frame_payload f)" using f by (simp add: n_def unat_of_nat_less)
  have off: "length header = kHeaderIntegrityOffset" using f length_enc_header by (simp add: header_def)
  have bs: "bs = header @ frame_integrity header (frame_payload f) @ frame_payload f"
    using f by (simp add: EncodeFrame_eq header_def n_def Let_def)
  have total: "kHeaderIntegrityOffset + kWireIntegrityBytes = kWireHeaderBytes"
    by (simp add: kHeaderIntegrityOffset_def kWireHeaderBytes_def kWireIntegrityBytes_def)
  have "runs (header_fields limit) header (f\<lparr>frame_payload := []\<rparr>, n)"
    using exact_decoder.accepts [OF exact_header, of limit "(f\<lparr>frame_payload := []\<rparr>, n)"] f n
    by (simp add: header_def header_ok_def enc_header_def)
  then have "fst (header_fields limit (ByteReader_new bs)) = Inr (f\<lparr>frame_payload := []\<rparr>, n)"
    using runsD [of "header_fields limit" header _ "ByteReader_new bs" "frame_integrity header (frame_payload f) @ frame_payload f"]
    unfolding bs by simp
  moreover have "length bs = kWireHeaderBytes + unat n" using bs off n total by simp
  moreover have "take kHeaderIntegrityOffset bs = header" "drop kWireHeaderBytes bs = frame_payload f"
    "take kWireIntegrityBytes (drop kHeaderIntegrityOffset bs) = frame_integrity header (frame_payload f)"
    using bs off total by (simp_all add: total [symmetric])
  ultimately show "DecodeFrame bs limit = Inr f" using n by (simp add: DecodeFrame_def)
qed

text \<open>Every payload of the protocol fulfils the contract of an exact decoder.\<close>

interpretation hello_payload: exact_decoder wire_hello enc_hello hello_fields
  by (rule exact_hello)

interpretation snapshot_payload: exact_decoder "\<lambda>p. id_present 16 (snr_snapshot p)" enc_snapshot_response snapshot_fields
  by (rule exact_snapshot_response)

interpretation error_payload: exact_decoder wire_plan_error enc_plan_error plan_error_fields
  by (rule exact_plan_error)

interpretation fence_payload: exact_decoder wire_fence enc_fence fence_fields
  by (rule exact_fence)

interpretation query_payload: exact_decoder wire_query enc_query query_fields
  by (rule exact_query)

interpretation currentness_payload: exact_decoder "wire_currentness limits" enc_currentness "currentness_fields limits" for limits
  by (rule exact_currentness)

interpretation request_payload: exact_decoder "wire_request limits" enc_request "request_fields limits" for limits
  by (rule exact_request)

interpretation result_payload: exact_decoder "wire_result limits" enc_result "result_fields limits" for limits
  by (rule exact_result)

lemmas payload_messages = hello_payload.message snapshot_payload.message error_payload.message fence_payload.message
  query_payload.message currentness_payload.message

lemma DecodePlanningRequestPayload_iff:
  "DecodePlanningRequestPayload bs limits = Inr q \<longleftrightarrow> wire_request limits q \<and> ValidateRequest q limits = None \<and> bs = enc_request q"
  using request_payload.message [of "(Wire_kTrailingBytes, ''planning request payload carries trailing bytes'')" limits bs q]
  unfolding DecodePlanningRequestPayload_def
  by (cases "decode_message (Wire_kTrailingBytes, ''planning request payload carries trailing bytes'') (request_fields limits) bs")
    (auto split: option.splits)

lemma DecodePlanningResultPayload_iff:
  "DecodePlanningResultPayload bs limits = Inr r \<longleftrightarrow> wire_result limits r \<and> bs = enc_result r"
  unfolding DecodePlanningResultPayload_def by (rule result_payload.message)

section \<open>Properties\<close>

text \<open>
  C21. The frame decoder accepts exactly the frames the encoder produces: a byte sequence is decoded to a frame if and only if
  it is the encoding of that frame, the frame carries only known flags, and its payload fits the
  ceiling.  No frame has two encodings, and what is accepted always carries its integrity value.
\<close>

theorem DecodeFrame_exact:
  "DecodeFrame bs limit = Inr f \<longleftrightarrow>
   id_ok 8 (frame_boot f) \<and> id_ok 16 (frame_request f) \<and> frame_flags f AND NOT kWireKnownFlags = 0 \<and>
   length (frame_payload f) \<le> limit \<and> length (frame_payload f) < 2 ^ 32 \<and> bs = EncodeFrame f"
  unfolding DecodeFrame_iff header_ok_def by blast

text \<open>
  C22. Request payloads: the encoder writes one fixed byte sequence per request, and the decoder accepts
  a byte sequence exactly when it is that of a request whose fields fit the limits and which passes request
  validation; it then returns that request, complete in every field.
\<close>

theorem request_payload_exact:
  "emits (EncodePlanningRequestPayload q) (enc_request q) \<and>
   (DecodePlanningRequestPayload bs limits = Inr q \<longleftrightarrow>
      wire_request limits q \<and> ValidateRequest q limits = None \<and> bs = enc_request q)"
  using emits_EncodePlanningRequestPayload DecodePlanningRequestPayload_iff by blast

text \<open>
  C23. Result payloads: the decoder accepts a byte sequence exactly when it is the encoding of a result whose
  identifiers are all present, whose candidates are well-formed simple paths under their own
  identity with a cost that adds up and a rank, and whose lists fit the limits.
\<close>

theorem result_payload_exact:
  "emits (EncodePlanningResultPayload r) (enc_result r) \<and>
   (DecodePlanningResultPayload bs limits = Inr r \<longleftrightarrow> wire_result limits r \<and> bs = enc_result r)"
  using emits_EncodePlanningResultPayload DecodePlanningResultPayload_iff by blast

text \<open>
  The other payloads: hello, snapshot response, error, fence notice, currentness query and currentness
  result are each decoded exactly from what their encoder writes for a value with present identifiers and known
  codes.
\<close>

theorem small_payloads_exact:
  "emits (EncodeHelloPayload a) (enc_hello a) \<and> (DecodeHelloPayload bs = Inr a \<longleftrightarrow> wire_hello a \<and> bs = enc_hello a) \<and>
   emits (EncodeSnapshotResponsePayload b) (enc_snapshot_response b) \<and>
   (DecodeSnapshotResponsePayload bs = Inr b \<longleftrightarrow> id_present 16 (snr_snapshot b) \<and> bs = enc_snapshot_response b) \<and>
   emits (EncodePlanErrorPayload c) (enc_plan_error c) \<and> (DecodePlanErrorPayload bs = Inr c \<longleftrightarrow> wire_plan_error c \<and> bs = enc_plan_error c) \<and>
   emits (EncodeFenceNoticePayload d) (enc_fence d) \<and> (DecodeFenceNoticePayload bs = Inr d \<longleftrightarrow> wire_fence d \<and> bs = enc_fence d) \<and>
   emits (EncodeCurrentnessQueryPayload e) (enc_query e) \<and> (DecodeCurrentnessQueryPayload bs = Inr e \<longleftrightarrow> wire_query e \<and> bs = enc_query e) \<and>
   emits (EncodeCurrentnessResultPayload f) (enc_currentness f) \<and>
   (DecodeCurrentnessResultPayload bs limits = Inr f \<longleftrightarrow> wire_currentness limits f \<and> bs = enc_currentness f)"
  unfolding DecodeHelloPayload_def DecodeSnapshotResponsePayload_def DecodePlanErrorPayload_def DecodeFenceNoticePayload_def
    DecodeCurrentnessQueryPayload_def DecodeCurrentnessResultPayload_def
  by (intro conjI emits_small_payloads payload_messages)

end
