(* ===== verification/Store.thy ===== *)
theory Store
  imports Decoder
begin

text \<open>
  Persistence of retained plans (\<open>include/pathplanner/store.hpp\<close>, \<open>src/store.cpp\<close>): the stored record, its conversion from
  and to a plan, the checksummed image with its strict decoder, and the replacement of the store file.  The file
  system is a map from paths to contents; what the operating system answers to an open, a write and a
  rename are arguments.
\<close>

section \<open>Records\<close>

record StoredPlanRecord =
  stp_request :: PlanningRequestId
  stp_plan :: PathPlanId
  stp_generation :: u64
  stp_publish_sequence :: u64
  stp_status :: PlanStatus
  stp_evidence :: EvidenceVector
  stp_constraint_set :: ConstraintSetId
  stp_constraint_generation :: Generation
  stp_policy_generation :: Generation
  stp_source :: NodeId
  stp_destination :: NodeId
  stp_layer :: PathLayer
  stp_diagnostic_mode :: bool
  stp_candidates :: "CandidatePath list"
  stp_costs :: "PathCost list"
  stp_ranks :: "u32 list"
  stp_semantic_digest :: Sha256Digest

record StoreOptions =
  so_limits :: ResourceLimits
  so_publish_sequence :: u64

type_synonym StoreError = "DiagnosticCode \<times> string"

definition ToStoredRecord :: "PathPlan \<Rightarrow> StoredPlanRecord" where
  "ToStoredRecord p =
     \<lparr>stp_request = plan_request p, stp_plan = plan_id p, stp_generation = plan_generation p,
      stp_publish_sequence = plan_publish_sequence p, stp_status = plan_status p, stp_evidence = plan_evidence p,
      stp_constraint_set = plan_constraint_set p, stp_constraint_generation = plan_constraint_generation p,
      stp_policy_generation = plan_policy_generation p, stp_source = plan_source p, stp_destination = plan_destination p,
      stp_layer = plan_layer p, stp_diagnostic_mode = plan_diagnostic_mode p,
      stp_candidates = map cand_path (plan_candidates p), stp_costs = map cand_cost (plan_candidates p),
      stp_ranks = map cand_rank (plan_candidates p), stp_semantic_digest = plan_semantic_digest p\<rparr>"

text \<open>The rank of the candidate at an index: the recorded one, or the position when none is recorded.\<close>

definition rank_at :: "u32 list \<Rightarrow> nat \<Rightarrow> u32" where
  "rank_at ranks index = (if index < length ranks then ranks ! index else of_nat index + 1)"

definition FromStoredRecord :: "StoredPlanRecord \<Rightarrow> PathPlan" where
  "FromStoredRecord r =
     (let count = min (length (stp_candidates r)) (length (stp_costs r));
          candidates = map (\<lambda>index. (Candidate_new (stp_candidates r ! index) (stp_costs r ! index))
            \<lparr>cand_rank := rank_at (stp_ranks r) index, cand_evidence := stp_evidence r,
             cand_currentness := Cur_kRevalidationRequired, cand_authority := Auth_kNotRequested\<rparr>) [0..<count]
      in \<lparr>plan_id = stp_plan r, plan_request = stp_request r, plan_generation = stp_generation r,
          plan_publish_sequence = stp_publish_sequence r, plan_status = stp_status r, plan_source = stp_source r,
          plan_destination = stp_destination r, plan_layer = stp_layer r, plan_evidence = stp_evidence r,
          plan_policy_generation = stp_policy_generation r, plan_constraint_set = stp_constraint_set r,
          plan_constraint_generation = stp_constraint_generation r, plan_diagnostic_mode = stp_diagnostic_mode r,
          plan_currentness_proven = False, plan_candidates = candidates, plan_semantic_digest = stp_semantic_digest r\<rparr>)"

section \<open>Writing an image\<close>

definition kStoreMagic :: string where "kStoreMagic = ''PPLNPLAN''"
definition kStoreHeaderBytes :: nat where "kStoreHeaderBytes = 36"
definition kStoreDigestBytes :: nat where "kStoreDigestBytes = kSha256Bytes"
definition kPersistedFormatVersion :: u32 where "kPersistedFormatVersion = 1"

definition magic_bytes :: bytes where "magic_bytes = map of_char kStoreMagic"

definition WriteId :: "'tag FixedId \<Rightarrow> ByteWriter \<Rightarrow> ByteWriter" where
  "WriteId x w = write_FixedBytes (id_bytes x) w"

definition WriteGenerations :: "SnapshotGenerations \<Rightarrow> ByteWriter \<Rightarrow> ByteWriter" where
  "WriteGenerations g w = SnapshotGenerations_Encode g w"

definition WritePath :: "CandidatePath \<Rightarrow> ByteWriter \<Rightarrow> ByteWriter" where
  "WritePath p w = CandidatePath_Encode p w"

definition WriteCost :: "PathCost \<Rightarrow> ByteWriter \<Rightarrow> ByteWriter" where
  "WriteCost c w = write_cost c w"

definition write_stored_candidate :: "CandidatePath \<times> PathCost \<times> u32 \<Rightarrow> ByteWriter \<Rightarrow> ByteWriter" where
  "write_stored_candidate c w = (case c of (path, cost, rank) \<Rightarrow> write_U32 rank (WriteCost cost (WritePath path w)))"

text \<open>The candidates of a record with their costs and ranks; the caller has checked that there are as many costs as paths.\<close>

definition stored_candidates :: "StoredPlanRecord \<Rightarrow> (CandidatePath \<times> PathCost \<times> u32) list" where
  "stored_candidates r = map (\<lambda>index. (stp_candidates r ! index, stp_costs r ! index, rank_at (stp_ranks r) index)) [0..<length (stp_candidates r)]"

definition write_record :: "StoredPlanRecord \<Rightarrow> ByteWriter \<Rightarrow> ByteWriter" where
  "write_record r w =
     (let w = WriteId (stp_request r) w;
          w = WriteId (stp_plan r) w;
          w = write_U64 (stp_generation r) w;
          w = write_U64 (stp_publish_sequence r) w;
          w = write_U32 (of_nat (PlanStatus_value (stp_status r))) w;
          w = WriteId (stp_constraint_set r) w;
          w = write_U64 (stp_constraint_generation r) w;
          w = write_U64 (stp_policy_generation r) w;
          w = WriteId (stp_source r) w;
          w = WriteId (stp_destination r) w;
          w = write_U32 (of_nat (PathLayer_value (stp_layer r))) w;
          w = write_Bool (stp_diagnostic_mode r) w;
          w = WriteId (ev_snapshot (stp_evidence r)) w;
          w = WriteGenerations (ev_generations (stp_evidence r)) w;
          w = write_U32 (of_nat (EvidenceSource_value (ev_source (stp_evidence r)))) w;
          w = write_U64 (ev_publish_sequence (stp_evidence r)) w;
          w = write_FixedBytes (stp_semantic_digest r) w;
          w = write_VarU64 (of_nat (length (stp_candidates r))) w
      in fold write_stored_candidate (stored_candidates r) w)"

text \<open>The loop over the records: the tests of a record come before it is written.\<close>

fun write_records :: "ResourceLimits \<Rightarrow> StoredPlanRecord list \<Rightarrow> ByteWriter \<Rightarrow> StoreError + ByteWriter" where
  "write_records limits [] w = Inr w"
| "write_records limits (r # rs) w =
     (if \<not> FixedId_IsValid (stp_plan r) \<or> \<not> FixedId_IsValid (stp_request r)
      then Inl (DC_kMalformedIdentifier, ''record carries a nil identity'')
      else if length (stp_candidates r) \<noteq> length (stp_costs r)
      then Inl (DC_kPersistenceCorrupt, ''candidate and cost counts disagree'')
      else if length (stp_candidates r) > max_candidates_per_request limits
      then Inl (DC_kPersistenceLimitExceeded, ''candidate count exceeds the configured ceiling'')
      else write_records limits rs (write_record r w))"

definition store_header :: "nat \<Rightarrow> nat \<Rightarrow> ByteWriter \<Rightarrow> ByteWriter" where
  "store_header record_count payload_size w =
     (let w = write_FixedBytes magic_bytes w;
          w = write_U32 kPersistedFormatVersion w;
          w = write_U32 kPlanningRuleVersion w;
          w = write_U32 kPathEncodingVersion w;
          w = write_U64 (of_nat record_count) w
      in write_U64 (of_nat payload_size) w)"

text \<open>The payload ceiling is computed in 32 bits.\<close>

definition payload_ceiling :: "ResourceLimits \<Rightarrow> nat" where
  "payload_ceiling limits = unat ((of_nat (max_frame_bytes limits) :: u32) * 16)"

definition store_digest :: "bytes \<Rightarrow> bytes \<Rightarrow> Sha256Digest" where
  "store_digest header payload = Sha256_Finish (Sha256_Update payload (Sha256_Update header Sha256_new))"

definition EncodePlanStore :: "StoredPlanRecord list \<Rightarrow> StoreOptions \<Rightarrow> StoreError + bytes" where
  "EncodePlanStore records options =
     (case ValidateLimits (so_limits options) of
        Some e \<Rightarrow> Inl (e, ''resource limits are incoherent'')
      | None \<Rightarrow>
        if length records > max_persisted_plans (so_limits options)
        then Inl (DC_kPersistenceLimitExceeded, ''record count exceeds the configured ceiling'')
        else
          let w = ByteWriter_new (payload_ceiling (so_limits options));
              w = write_U64 (so_publish_sequence options) w;
              w = write_VarU64 (of_nat (length records)) w
          in case write_records (so_limits options) records w of
               Inl e \<Rightarrow> Inl e
             | Inr payload \<Rightarrow>
               if bw_overflowed payload then Inl (DC_kPersistenceLimitExceeded, ''store payload exceeded its ceiling'')
               else let header = store_header (length records) (length (bw_data payload)) (ByteWriter_new kStoreHeaderBytes)
                    in if bw_overflowed header then Inl (DC_kPersistenceCorrupt, ''store header encoding failed'')
                       else Inr (bw_data header @ store_digest (bw_data header) (bw_data payload) @ bw_data payload))"

section \<open>Reading an image\<close>

abbreviation corrupt :: "string \<Rightarrow> StoreError" where
  "corrupt detail \<equiv> (DC_kPersistenceCorrupt, detail)"

definition ReadId :: "nat \<Rightarrow> string \<Rightarrow> (StoreError, 'tag FixedId) decoder" where
  "ReadId n name = decode_id (corrupt (name @ '' is truncated'')) (corrupt (name @ '' is nil'')) n"

definition ReadStrong :: "string \<Rightarrow> (StoreError, u64) decoder" where
  "ReadStrong name = decode_strong (corrupt (name @ '' is truncated'')) (corrupt (name @ '' is out of range''))"

definition ReadEnumValue :: "EnumEntry list \<Rightarrow> (nat \<Rightarrow> 'c option) \<Rightarrow> string \<Rightarrow> (StoreError, 'c) decoder" where
  "ReadEnumValue table cast name = decode_enum (corrupt (name @ '' is truncated''))
     (\<lambda>raw. corrupt (name @ '' has an unknown enumeration value '' @ StrongUInt_ToString raw)) table cast"

definition ReadGenerations :: "(StoreError, SnapshotGenerations) decoder" where
  "ReadGenerations = generations_decoder ReadStrong"

definition ReadEvidence :: "(StoreError, EvidenceVector) decoder" where
  "ReadEvidence = evidence_decoder (ReadId 16 ''snapshot identity'') ReadGenerations
     (ReadEnumValue kEvidenceSourceNames EvidenceSource_cast ''evidence source'') (ReadStrong ''publish sequence'')"

definition ReadPath :: "ResourceLimits \<Rightarrow> (StoreError, CandidatePath) decoder" where
  "ReadPath limits = path_decoder (corrupt ''path encoding version is unsupported'') (ReadId 16 ''path source'')
     (ReadId 16 ''path destination'') (ReadEnumValue kPathLayerNames PathLayer_cast ''path layer'')
     (corrupt ''path hop count exceeds the configured limit'') (lim_max_hops limits)
     (hop_decoder (ReadId 16 ''hop link'') (ReadId 16 ''hop source node'') (ReadId 16 ''hop destination node'')
        (ReadId 16 ''hop source port'') (ReadId 16 ''hop destination port'')
        (ReadEnumValue kPathLayerNames PathLayer_cast ''hop layer'')
        (ReadEnumValue kRelationshipTypeNames RelationshipType_cast ''hop relationship'')
        (ReadStrong ''hop structural generation'') (corrupt ''hop static cost is truncated''))
     (corrupt ''decoded path is not well formed'') (corrupt ''decoded path is not simple'')"

definition ReadCost :: "(StoreError, PathCost) decoder" where
  "ReadCost = dbind (cost_fields (corrupt ''path cost is truncated'')) (\<lambda>c.
     case TryFrom kMaxHopCount (cost_hops c) of
       None \<Rightarrow> dfail (corrupt ''path cost hop count is out of range'')
     | Some _ \<Rightarrow>
       dguard (cost_sum c = Some (cost_total c)) (corrupt ''path cost does not equal the sum of its components'')
       (dguard (\<not> (cost_degraded_hops c > cost_hops c \<or> cost_locality_breaches c > cost_hops c))
         (corrupt ''path cost penalty counts exceed the hop count'') (dreturn c)))"

text \<open>One candidate, at its index and after the candidates already read.\<close>

definition read_candidate :: "ResourceLimits \<Rightarrow> EvidenceVector \<Rightarrow> nat \<Rightarrow> (CandidatePath \<times> PathCost \<times> u32) list \<Rightarrow>
    (StoreError, CandidatePath \<times> PathCost \<times> u32) decoder" where
  "read_candidate limits evidence index seen =
     dbind (ReadPath limits) (\<lambda>path. dbind ReadCost (\<lambda>cost.
     dbind (decode_bounded kMaxCandidateRank (corrupt ''candidate rank is not the expected sequence'')
       (corrupt ''candidate rank is not the expected sequence'')) (\<lambda>rank.
     dguard (unat rank = index + 1) (corrupt ''candidate rank is not the expected sequence'') (
     dguard (unat (cost_hops cost) = length (path_hops path))
       (DC_kPersistenceImpossibleValue, ''candidate cost hop count does not match the encoded path'') (
     dguard (\<not> list_ex (\<lambda>h. hop_structural_generation h > gen_topology (ev_generations evidence)) (path_hops path))
       (DC_kPersistenceImpossibleValue, ''candidate hop structural generation exceeds the stored topology generation'') (
     dguard (CandidatePath_Id path \<notin> set (map (\<lambda>(p, _, _). CandidatePath_Id p) seen))
       (DC_kPersistenceDuplicateCandidate, ''duplicate candidate identity in a record'')
       (dreturn (path, cost, rank))))))))"

fun non_decreasing :: "PathCost list \<Rightarrow> bool" where
  "non_decreasing (a # b # cs) = (\<not> cost_total b < cost_total a \<and> non_decreasing (b # cs))"
| "non_decreasing _ = True"

definition read_record :: "ResourceLimits \<Rightarrow> nat \<Rightarrow> StoredPlanRecord list \<Rightarrow> (StoreError, StoredPlanRecord) decoder" where
  "read_record limits index seen =
     dbind (ReadId 16 ''request identity'') (\<lambda>request. dbind (ReadId 16 ''plan identity'') (\<lambda>plan.
     dbind (ReadStrong ''planning generation'') (\<lambda>generation. dbind (ReadStrong ''publish sequence'') (\<lambda>sequence.
     dbind (ReadEnumValue kPlanStatusNames PlanStatus_cast ''plan status'') (\<lambda>status.
     dbind (ReadId 16 ''constraint set identity'') (\<lambda>constraint_set.
     dbind (ReadStrong ''constraint generation'') (\<lambda>constraint_generation.
     dbind (ReadStrong ''policy generation'') (\<lambda>policy_generation.
     dbind (ReadId 16 ''source node'') (\<lambda>source. dbind (ReadId 16 ''destination node'') (\<lambda>destination.
     dbind (ReadEnumValue kPathLayerNames PathLayer_cast ''plan layer'') (\<lambda>layer.
     dbind (dread (corrupt ''diagnostic-mode flag is truncated'') read_Bool) (\<lambda>diagnostic_mode.
     dbind ReadEvidence (\<lambda>evidence.
     dbind (dread (corrupt ''semantic digest is truncated'') (read_FixedBytes 32)) (\<lambda>digest.
     dbind (dread (DC_kPersistenceLimitExceeded, ''candidate count exceeds the configured ceiling'') read_VarU64) (\<lambda>count.
     dguard (\<not> unat count > max_candidates_per_request limits)
       (DC_kPersistenceLimitExceeded, ''candidate count exceeds the configured ceiling'') (
     dbind (dloop (read_candidate limits evidence) (unat count) []) (\<lambda>candidates.
       let record = \<lparr>stp_request = request, stp_plan = plan, stp_generation = generation, stp_publish_sequence = sequence,
             stp_status = status, stp_evidence = evidence, stp_constraint_set = constraint_set,
             stp_constraint_generation = constraint_generation, stp_policy_generation = policy_generation,
             stp_source = source, stp_destination = destination, stp_layer = layer, stp_diagnostic_mode = diagnostic_mode,
             stp_candidates = map fst candidates, stp_costs = map (fst \<circ> snd) candidates, stp_ranks = map (snd \<circ> snd) candidates,
             stp_semantic_digest = digest\<rparr>
       in dguard (non_decreasing (stp_costs record)) (corrupt ''candidate costs are not non-decreasing'') (
          dguard (plan \<notin> set (map stp_plan seen)) (DC_kPersistenceDuplicatePlan, ''duplicate plan identity in the store'') (
          dguard (ComputeSemanticDigest (FromStoredRecord record) = digest)
            (DC_kPersistenceDigestMismatch, ''record semantic digest does not match its content'')
            (dreturn record))))))))))))))))))))"

definition read_payload :: "ResourceLimits \<Rightarrow> u64 \<Rightarrow> (StoreError, StoredPlanRecord list) decoder" where
  "read_payload limits record_count =
     dbind (dread (corrupt ''store payload header disagrees with the store header'') read_U64) (\<lambda>publish_sequence.
     dbind (dread (corrupt ''store payload header disagrees with the store header'') read_VarU64) (\<lambda>stored_count.
     dguard (stored_count = record_count) (corrupt ''store payload header disagrees with the store header'')
       (dloop (read_record limits) (unat record_count) [])))"

definition read_header :: "ResourceLimits \<Rightarrow> (StoreError, u64 \<times> u64) decoder" where
  "read_header limits =
     dbind (dread (corrupt ''store magic is truncated'') (read_FixedBytes 8)) (\<lambda>magic.
     dguard (magic = magic_bytes) (corrupt ''store magic mismatch'') (
     dbind (dread (corrupt ''store header is truncated'') read_U32) (\<lambda>format_version.
     dbind (dread (corrupt ''store header is truncated'') read_U32) (\<lambda>rule_version.
     dbind (dread (corrupt ''store header is truncated'') read_U32) (\<lambda>encoding_version.
     dbind (dread (corrupt ''store header is truncated'') read_U64) (\<lambda>record_count.
     dbind (dread (corrupt ''store header is truncated'') read_U64) (\<lambda>payload_length.
     dguard (format_version = kPersistedFormatVersion)
       (DC_kPersistenceVersionUnsupported, ''unsupported persisted format version'') (
     dguard (rule_version = kPlanningRuleVersion \<and> encoding_version = kPathEncodingVersion)
       (DC_kPersistenceVersionUnsupported, ''stored planning-rule or path-encoding version is unsupported'') (
     dguard (\<not> unat record_count > max_persisted_plans limits)
       (DC_kPersistenceLimitExceeded, ''stored record count exceeds the configured ceiling'')
       (dreturn (record_count, payload_length)))))))))))"

text \<open>The expected size is computed in \<open>size_t\<close>, so it wraps at 64 bits.\<close>

definition DecodePlanStore :: "bytes \<Rightarrow> ResourceLimits \<Rightarrow> StoreError + StoredPlanRecord list" where
  "DecodePlanStore img limits =
     (if length img < kStoreHeaderBytes + kStoreDigestBytes then Inl (corrupt ''store image is shorter than its header'')
      else case fst (read_header limits (ByteReader_new (take kStoreHeaderBytes img))) of
        Inl e \<Rightarrow> Inl e
      | Inr (record_count, payload_length) \<Rightarrow>
        let expected_size = unat (of_nat (kStoreHeaderBytes + kStoreDigestBytes) + payload_length);
            payload = take (unat payload_length) (drop (kStoreHeaderBytes + kStoreDigestBytes) img)
        in if length img < expected_size then Inl (corrupt ''store image is truncated'')
           else if length img > expected_size then Inl (DC_kPersistenceTrailingBytes, ''store image carries trailing bytes'')
           else if take kStoreDigestBytes (drop kStoreHeaderBytes img) \<noteq> store_digest (take kStoreHeaderBytes img) payload
           then Inl (DC_kPersistenceDigestMismatch, ''store integrity digest mismatch'')
           else decode_message (DC_kPersistenceTrailingBytes, ''store payload carries trailing bytes'')
             (read_payload limits record_count) payload)"

section \<open>The store file\<close>

type_synonym files = "string \<rightharpoonup> bytes"

definition TempPathFor :: "string \<Rightarrow> string" where
  "TempPathFor path = path @ ''.tmp''"

text \<open>
  What the operating system answers: the temporary file cannot be opened; the write fails after a prefix of the
  bytes; or all bytes are written and the rename succeeds or not.
\<close>

datatype file_outcome = CannotOpen | WriteFails nat | Written bool

definition ReplaceFile :: "string \<Rightarrow> string \<Rightarrow> bool \<Rightarrow> files \<Rightarrow> (string + unit) \<times> files" where
  "ReplaceFile temporary destination renamed fs =
     (if \<not> renamed then (Inl ''atomic replacement failed'', fs)
      else (Inr (), (fs(temporary := None))(destination := fs temporary)))"

text \<open>Every state of the file system in the course of the call, and the result.\<close>

definition SavePlanStore :: "string \<Rightarrow> StoredPlanRecord list \<Rightarrow> StoreOptions \<Rightarrow> file_outcome \<Rightarrow> files \<Rightarrow>
    (StoreError + unit) \<times> files list" where
  "SavePlanStore path records options outcome fs =
     (if path = [] then (Inl (corrupt ''store path is empty''), [fs])
      else case EncodePlanStore records options of
        Inl e \<Rightarrow> (Inl e, [fs])
      | Inr img \<Rightarrow>
        let temporary = TempPathFor path;
            written = map (\<lambda>n. fs(temporary \<mapsto> take n img)) [0..<length img + 1]
        in case outcome of
             CannotOpen \<Rightarrow> (Inl (corrupt ''cannot open the temporary store file''), [fs])
           | WriteFails n \<Rightarrow> (Inl (corrupt ''cannot write the temporary store file''), fs # take (n + 1) written)
           | Written renamed \<Rightarrow>
               (case ReplaceFile temporary path renamed (fs(temporary \<mapsto> img)) of
                  (Inl detail, fs') \<Rightarrow> (Inl (corrupt detail), fs # written @ [fs'(temporary := None)])
                | (Inr _, fs') \<Rightarrow> (Inr (), fs # written @ [fs'])))"

text \<open>The reading loop, in blocks of at most 65536 bytes, with the ceiling computed in \<open>size_t\<close>.\<close>

definition load_ceiling :: "ResourceLimits \<Rightarrow> nat" where
  "load_ceiling limits = kStoreHeaderBytes + kStoreDigestBytes + max_frame_bytes limits * 16"

function load_blocks :: "nat \<Rightarrow> bytes \<Rightarrow> bytes \<Rightarrow> StoreError + bytes" where
  "load_blocks limit img rest =
     (if rest = [] then Inr img
      else let block = take 65536 rest in
        if length img + length block > limit
        then Inl (DC_kPersistenceLimitExceeded, ''store image exceeds the configured ceiling'')
        else load_blocks limit (img @ block) (drop 65536 rest))"
  by pat_completeness auto

termination load_blocks
  by (relation "measure (\<lambda>(limit, img, rest). length rest)") auto

definition LoadPlanStore :: "string \<Rightarrow> ResourceLimits \<Rightarrow> files \<Rightarrow> StoreError + StoredPlanRecord list" where
  "LoadPlanStore path limits fs =
     (if path = [] then Inl (corrupt ''store path is empty'')
      else case fs path of
        None \<Rightarrow> Inl (corrupt ''store file not found or not readable'')
      | Some contents \<Rightarrow>
        (case load_blocks (load_ceiling limits) [] contents of
           Inl e \<Rightarrow> Inl e
         | Inr img \<Rightarrow> DecodePlanStore img limits))"

end
