(* ===== verification/StoreCorrect.thy ===== *)
theory StoreCorrect
  imports Store
begin

text \<open>
  Correctness of the plan store: the decoder accepts exactly the images of valid record sets, what is
  written is read back, and the file is replaced atomically.
\<close>

section \<open>Fields\<close>

lemma exact_ReadId: "exact_decoder (id_present n) id_bytes (ReadId n name)"
  unfolding ReadId_def by (rule exact_id)

lemma exact_ReadStrong: "exact_decoder (\<lambda>_. True) (le_bytes 8) (ReadStrong name)"
  unfolding ReadStrong_def by (rule exact_strong)

lemma exact_ReadLayer:
  "exact_decoder layer_named (\<lambda>x. le_bytes 4 (of_nat (PathLayer_value x) :: u32)) (ReadEnumValue kPathLayerNames PathLayer_cast name)"
  unfolding ReadEnumValue_def by (rule exact_layer)

lemmas exact_ReadEnums = exact_ReadLayer
  PlanStatus_wire.exact_enum [of "corrupt (name @ '' is truncated'')"
    "\<lambda>raw. corrupt (name @ '' has an unknown enumeration value '' @ StrongUInt_ToString raw)" for name, folded ReadEnumValue_def]
  RelationshipType_wire.exact_enum [of "corrupt (name @ '' is truncated'')"
    "\<lambda>raw. corrupt (name @ '' has an unknown enumeration value '' @ StrongUInt_ToString raw)" for name, folded ReadEnumValue_def]
  EvidenceSource_wire.exact_enum [of "corrupt (name @ '' is truncated'')"
    "\<lambda>raw. corrupt (name @ '' has an unknown enumeration value '' @ StrongUInt_ToString raw)" for name, folded ReadEnumValue_def]

lemma exact_ReadGenerations: "exact_decoder (\<lambda>_. True) enc_generations ReadGenerations"
  unfolding ReadGenerations_def by (rule exact_generations [OF exact_ReadStrong])

lemma exact_ReadEvidence: "exact_decoder wire_evidence enc_evidence ReadEvidence"
  unfolding ReadEvidence_def by (intro exact_evidence exact_ReadId exact_ReadGenerations exact_ReadEnums exact_ReadStrong)

lemma exact_ReadPath: "exact_decoder (wire_path (lim_max_hops limits)) enc_path (ReadPath limits)"
  unfolding ReadPath_def by (intro exact_path exact_hop exact_ReadId exact_ReadEnums exact_ReadStrong)

lemma exact_ReadCost: "exact_decoder wire_cost enc_cost ReadCost"
proof
  show "runs ReadCost (enc_cost c) c" if "wire_cost c" for c
    using that unfolding ReadCost_def wire_cost_def
    by (intro exact_decoder.last_step [OF exact_cost_fields])
      (auto simp: TryFrom_def cost_sum_eq dguard_def runs_return not_less dest: leD)
qed (auto simp: ReadCost_def wire_cost_def TryFrom_def cost_sum_eq not_less intro!: exact_decoder.only_step [OF exact_cost_fields] only_guard only_return only_fail)

lemmas exact_store_fields = exact_ReadId exact_ReadStrong exact_ReadEnums exact_ReadEvidence exact_ReadPath exact_ReadCost
  exact_u32 exact_u64 exact_flag exact_var exact_fixed exact_bounded
lemmas store_steps = exact_store_fields [THEN exact_decoder.step]
lemmas store_last_steps = exact_store_fields [THEN exact_decoder.last_step]
lemmas store_only_steps = exact_store_fields [THEN exact_decoder.only_step]

section \<open>Where a decoder stops\<close>

definition stops :: "('e, 'a) decoder \<Rightarrow> bytes \<Rightarrow> 'e \<Rightarrow> bool" where
  "stops d bs e \<longleftrightarrow> (\<forall>r rest. ready r (bs @ rest) \<longrightarrow> (\<exists>r'. d r = (Inl e, r')))"

lemma stops_bind:
  assumes "runs d as x" "stops (f x) bs e"
  shows "stops (dbind d f) (as @ bs) e"
  unfolding stops_def
proof (intro allI impI)
  fix r rest assume r: "ready r ((as @ bs) @ rest)"
  then have d: "d r = (Inr x, advance (length as) r)" by (intro runsD [OF assms(1)]) simp
  have "ready (advance (length as) r) (bs @ rest)" using ready_advance [of r as "bs @ rest"] r by simp
  then obtain r' where "f x (advance (length as) r) = (Inl e, r')" using assms(2) unfolding stops_def by blast
  with d show "\<exists>r'. dbind d f r = (Inl e, r')" by (simp add: dbind_def)
qed

lemma stops_last: "runs d as x \<Longrightarrow> stops (f x) [] e \<Longrightarrow> stops (dbind d f) as e"
  using stops_bind [of d as x f "[]" e] by simp

lemma stops_first: "stops d bs e \<Longrightarrow> stops (dbind d f) bs e"
  unfolding stops_def dbind_def by fastforce

lemma stops_more: "stops d as e \<Longrightarrow> stops d (as @ bs) e"
  unfolding stops_def by (metis append_assoc)

lemma stops_guard: "ok \<Longrightarrow> stops d bs e \<Longrightarrow> stops (dguard ok detail d) bs e"
  by (simp add: dguard_def)

lemma stops_here: "\<not> ok \<Longrightarrow> e = detail \<Longrightarrow> stops (dguard ok detail d) bs e"
  by (simp add: dguard_def stops_def dfail_def)

lemmas store_stop_steps = exact_store_fields [THEN exact_decoder.accepts, THEN stops_bind]

lemma stops_loop:
  assumes "\<And>acc. exact_decoder (V acc) enc (item (length acc) acc)"
  shows "follows V acc xs \<Longrightarrow> stops (item (length (acc @ xs)) (acc @ xs)) (enc y) e \<Longrightarrow> length xs < n \<Longrightarrow>
    stops (dloop item n acc) (concat (map enc xs) @ enc y) e"
proof (induction xs arbitrary: acc n)
  case Nil
  then obtain m where "n = Suc m" by (cases n) auto
  then show ?case using Nil.prems(2) by (simp add: stops_first)
next
  case (Cons x xs)
  then obtain m where n: "n = Suc m" by (cases n) auto
  have "stops (dloop item m (acc @ [x])) (concat (map enc xs) @ enc y) e" using Cons.IH [of "acc @ [x]" m] Cons.prems n by simp
  moreover have "runs (item (length acc) acc) (enc x) x" using exact_decoder.accepts [OF assms, of acc x] Cons.prems(1) by simp
  ultimately have "stops (dbind (item (length acc) acc) (\<lambda>z. dloop item m (acc @ [z]))) (enc x @ concat (map enc xs) @ enc y) e"
    by (intro stops_bind)
  then show ?case by (simp add: n)
qed

lemma message_stops: "stops d bs e \<Longrightarrow> decode_message trailing d bs = Inl e"
  using ready_new [of bs] unfolding stops_def decode_message_def by (metis append_Nil2 case_prod_conv old.sum.simps(5))

section \<open>Records\<close>

definition enc_triple :: "CandidatePath \<times> PathCost \<times> u32 \<Rightarrow> bytes" where
  "enc_triple c = (case c of (path, cost, rank) \<Rightarrow> enc_path path @ enc_cost cost @ le_bytes 4 rank)"

text \<open>A candidate after those already read: a wire path, a cost that adds up and counts the hops of the path, the next
  rank, no hop newer than the stored topology, and an identity not seen before.\<close>

definition candidate_valid :: "ResourceLimits \<Rightarrow> EvidenceVector \<Rightarrow> (CandidatePath \<times> PathCost \<times> u32) list \<Rightarrow>
    CandidatePath \<times> PathCost \<times> u32 \<Rightarrow> bool" where
  "candidate_valid limits evidence seen c = (case c of (path, cost, rank) \<Rightarrow>
     wire_path (lim_max_hops limits) path \<and> wire_cost cost \<and> rank \<le> kMaxCandidateRank \<and> unat rank = length seen + 1 \<and>
     unat (cost_hops cost) = length (path_hops path) \<and>
     (\<forall>h \<in> set (path_hops path). hop_structural_generation h \<le> gen_topology (ev_generations evidence)) \<and>
     CandidatePath_Id path \<notin> set (map (\<lambda>(p, _, _). CandidatePath_Id p) seen))"

lemma exact_read_candidate:
  "exact_decoder (candidate_valid limits evidence seen) enc_triple (read_candidate limits evidence (length seen) seen)"
proof
  show "runs (read_candidate limits evidence (length seen) seen) (enc_triple c) c" if "candidate_valid limits evidence seen c" for c
    using that unfolding read_candidate_def enc_triple_def candidate_valid_def case_prod_beta
    by (intro store_steps store_last_steps runs_guard runs_return) (auto simp: list_ex_iff not_less)
qed (auto simp: read_candidate_def enc_triple_def candidate_valid_def list_ex_iff not_less intro!: store_only_steps only_guard only_return)

lemmas exact_read_candidates = exact_loop [of "candidate_valid limits evidence" enc_triple "read_candidate limits evidence"
  for limits evidence, OF exact_read_candidate]

definition triples :: "StoredPlanRecord \<Rightarrow> (CandidatePath \<times> PathCost \<times> u32) list" where
  "triples r = zip (stp_candidates r) (zip (stp_costs r) (stp_ranks r))"

definition enc_record :: "StoredPlanRecord \<Rightarrow> bytes" where
  "enc_record r = id_bytes (stp_request r) @ id_bytes (stp_plan r) @ le_bytes 8 (stp_generation r) @ le_bytes 8 (stp_publish_sequence r) @
     le_bytes 4 (of_nat (PlanStatus_value (stp_status r)) :: u32) @ id_bytes (stp_constraint_set r) @
     le_bytes 8 (stp_constraint_generation r) @ le_bytes 8 (stp_policy_generation r) @ id_bytes (stp_source r) @
     id_bytes (stp_destination r) @ le_bytes 4 (of_nat (PathLayer_value (stp_layer r)) :: u32) @ enc_bool (stp_diagnostic_mode r) @
     enc_evidence (stp_evidence r) @ stp_semantic_digest r @ enc_VarU64 (of_nat (length (stp_candidates r))) @
     concat (map enc_triple (triples r))"

definition record_valid :: "ResourceLimits \<Rightarrow> StoredPlanRecord list \<Rightarrow> StoredPlanRecord \<Rightarrow> bool" where
  "record_valid limits seen r \<longleftrightarrow> id_present 16 (stp_request r) \<and> id_present 16 (stp_plan r) \<and> id_present 16 (stp_constraint_set r) \<and>
     id_present 16 (stp_source r) \<and> id_present 16 (stp_destination r) \<and> layer_named (stp_layer r) \<and> wire_evidence (stp_evidence r) \<and>
     length (stp_semantic_digest r) = 32 \<and> length (stp_candidates r) \<le> max_candidates_per_request limits \<and>
     length (stp_candidates r) < 2 ^ 64 \<and> length (stp_costs r) = length (stp_candidates r) \<and> length (stp_ranks r) = length (stp_candidates r) \<and>
     follows (candidate_valid limits (stp_evidence r)) [] (triples r) \<and> non_decreasing (stp_costs r) \<and>
     stp_plan r \<notin> set (map stp_plan seen) \<and> ComputeSemanticDigest (FromStoredRecord r) = stp_semantic_digest r"

lemma map_zip3:
  assumes "length ys = length xs" "length zs = length xs"
  shows "map fst (zip xs (zip ys zs)) = xs" "map (fst \<circ> snd) (zip xs (zip ys zs)) = ys" "map (snd \<circ> snd) (zip xs (zip ys zs)) = zs"
  using assms by (simp_all add: map_fst_zip flip: map_map)

lemma zip3_map: "zip (map fst cs) (zip (map (fst \<circ> snd) cs) (map (snd \<circ> snd) cs)) = cs"
  by (induction cs) auto

lemma record_fields:
  "\<lparr>stp_request = stp_request r, stp_plan = stp_plan r, stp_generation = stp_generation r, stp_publish_sequence = stp_publish_sequence r,
     stp_status = stp_status r, stp_evidence = stp_evidence r, stp_constraint_set = stp_constraint_set r,
     stp_constraint_generation = stp_constraint_generation r, stp_policy_generation = stp_policy_generation r,
     stp_source = stp_source r, stp_destination = stp_destination r, stp_layer = stp_layer r,
     stp_diagnostic_mode = stp_diagnostic_mode r, stp_candidates = stp_candidates r, stp_costs = stp_costs r,
     stp_ranks = stp_ranks r, stp_semantic_digest = stp_semantic_digest r\<rparr> = r"
  by simp

lemma exact_read_record: "exact_decoder (record_valid limits seen) enc_record (read_record limits (length seen) seen)"
proof
  fix r assume r: "record_valid limits seen r"
  have n: "unat (of_nat (length (stp_candidates r)) :: u64) = length (stp_candidates r)"
    using r by (simp add: record_valid_def unat_of_nat_less)
  have t: "length (triples r) = length (stp_candidates r)" "map fst (triples r) = stp_candidates r" "map (fst \<circ> snd) (triples r) = stp_costs r"
    "map (snd \<circ> snd) (triples r) = stp_ranks r"
    using r by (auto simp: triples_def record_valid_def map_zip3)
  show "runs (read_record limits (length seen) seen) (enc_record r) r"
    using r unfolding read_record_def enc_record_def record_valid_def Let_def n
    by (intro store_steps runs_guard exact_decoder.last_step [OF exact_read_candidates] runs_return) (simp_all add: n t record_fields)
next
  have "unat n < 2 ^ 64" for n :: u64 using unsigned_less [of n, where 'a = nat] by simp
  then show "only (read_record limits (length seen) seen) (\<lambda>cs r. record_valid limits seen r \<and> cs = enc_record r)"
    unfolding read_record_def Let_def
    by (intro store_only_steps only_guard exact_decoder.only_step [OF exact_read_candidates] only_return)
      (auto simp: record_valid_def enc_record_def triples_def zip3_map)
qed

lemmas exact_read_records = exact_loop [of "record_valid limits" enc_record "read_record limits" for limits, OF exact_read_record]

text \<open>A record that is valid on its own but carries the identity of one before it stops the reader.\<close>

lemma record_valid_after:
  "record_valid limits seen r \<longleftrightarrow> record_valid limits [] r \<and> stp_plan r \<notin> stp_plan ` set seen"
  by (auto simp: record_valid_def)

lemma follows_records:
  "follows (record_valid limits) seen records \<longleftrightarrow> (\<forall>r \<in> set records. record_valid limits [] r) \<and>
     distinct (map stp_plan records) \<and> stp_plan ` set seen \<inter> stp_plan ` set records = {}"
proof (induction records arbitrary: seen)
  case (Cons r rs)
  then show ?case by (auto simp: record_valid_after [of limits seen])
qed simp

abbreviation duplicate_plan :: StoreError where
  "duplicate_plan \<equiv> (DC_kPersistenceDuplicatePlan, ''duplicate plan identity in the store'')"

lemma stops_duplicate:
  assumes "record_valid limits [] r" "stp_plan r \<in> stp_plan ` set seen"
  shows "stops (read_record limits (length seen) seen) (enc_record r) duplicate_plan"
proof -
  have n: "unat (of_nat (length (stp_candidates r)) :: u64) = length (stp_candidates r)"
    using assms(1) by (simp add: record_valid_def unat_of_nat_less)
  have t: "length (triples r) = length (stp_candidates r)" "map fst (triples r) = stp_candidates r" "map (fst \<circ> snd) (triples r) = stp_costs r"
    using assms(1) by (auto simp: triples_def record_valid_def map_zip3)
  show ?thesis
    using assms unfolding read_record_def enc_record_def record_valid_def Let_def n
    by (intro store_stop_steps stops_last [OF exact_decoder.accepts [OF exact_read_candidates]]
        stops_guard [where detail = "(DC_kPersistenceLimitExceeded, d)" for d] stops_guard [where detail = "corrupt d" for d]
        stops_here [where detail = duplicate_plan]) (auto simp: n t)
qed

section \<open>Images\<close>

definition enc_payload :: "u64 \<Rightarrow> StoredPlanRecord list \<Rightarrow> bytes" where
  "enc_payload sequence records = le_bytes 8 sequence @ enc_VarU64 (of_nat (length records)) @ concat (map enc_record records)"

definition enc_store_header :: "u64 \<Rightarrow> u64 \<Rightarrow> bytes" where
  "enc_store_header record_count payload_length = magic_bytes @ le_bytes 4 kPersistedFormatVersion @ le_bytes 4 kPlanningRuleVersion @
     le_bytes 4 kPathEncodingVersion @ le_bytes 8 record_count @ le_bytes 8 payload_length"

definition store_image :: "u64 \<Rightarrow> StoredPlanRecord list \<Rightarrow> bytes" where
  "store_image sequence records =
     (let payload = enc_payload sequence records; header = enc_store_header (of_nat (length records)) (of_nat (length payload))
      in header @ store_digest header payload @ payload)"

lemma only_read_payload:
  "only (read_payload limits n) (\<lambda>cs records. \<exists>sequence. length records = unat n \<and> follows (record_valid limits) [] records \<and>
     cs = enc_payload sequence records)"
  unfolding read_payload_def
  by (intro store_only_steps only_guard only_mono [OF exact_decoder.rejects [OF exact_read_records]]) (auto simp: enc_payload_def)

lemma runs_read_payload:
  assumes "length records = unat n" "follows (record_valid limits) [] records"
  shows "runs (read_payload limits n) (enc_payload sequence records) records"
proof -
  have "runs (dloop (read_record limits) (unat n) []) (concat (map enc_record records)) records"
    by (rule exact_decoder.accepts [OF exact_read_records]) (use assms in simp)
  moreover have "of_nat (length records) = n" using assms(1) by simp
  ultimately show ?thesis unfolding read_payload_def enc_payload_def by (intro store_steps runs_guard) auto
qed

lemma length_magic [simp]: "length magic_bytes = 8"
  by (simp add: magic_bytes_def kStoreMagic_def)

lemma length_enc_store_header [simp]: "length (enc_store_header a b) = kStoreHeaderBytes"
  by (simp add: enc_store_header_def kStoreHeaderBytes_def)

lemma exact_read_header:
  "exact_decoder (\<lambda>(a, b). unat a \<le> max_persisted_plans limits) (\<lambda>(a, b). enc_store_header a b) (read_header limits)"
proof
  show "runs (read_header limits) (case x of (a, b) \<Rightarrow> enc_store_header a b) x" if "case x of (a, b) \<Rightarrow> unat a \<le> max_persisted_plans limits" for x
    using that unfolding read_header_def enc_store_header_def case_prod_beta
    by (intro store_steps store_last_steps runs_guard runs_return) (simp_all add: prod_eq_iff)
qed (auto simp: read_header_def enc_store_header_def intro!: store_only_steps only_guard only_return)

lemma length_store_digest [simp]: "length (store_digest a b) = kStoreDigestBytes"
  by (simp add: store_digest_def Finish_two kStoreDigestBytes_def kSha256Bytes_def)


lemma message_only: "decode_message trailing d bs = Inr x \<Longrightarrow> only d R \<Longrightarrow> R bs x"
proof -
  assume "decode_message trailing d bs = Inr x" and o: "only d R"
  then obtain r where r: "d (ByteReader_new bs) = (Inr x, r)" "AtEnd r"
    by (auto simp: decode_message_def split: prod.splits sum.splits if_splits)
  from o ready_new r(1) obtain cs rest where "bs = cs @ rest" "R cs x" "ready r rest" by (rule onlyE)
  with r(2) show "R bs x" by (simp add: ready_AtEnd)
qed

lemma message_runs: "runs d bs x \<Longrightarrow> decode_message trailing d bs = Inr x"
  using runsD [of d bs x "ByteReader_new bs" "[]"]
  by (simp add: decode_message_def advance_def AtEnd_def ByteReader_new_def ready_new [unfolded ByteReader_new_def])

lemma expected_size_no_wrap:
  fixes b :: u64
  assumes "68 \<le> unat (68 + b)"
  shows "unat (68 + b) = 68 + unat b"
proof -
  have "unat b < 2 ^ 64" using unsigned_less [of b, where 'a = nat] by simp
  with assms show ?thesis by (auto simp: unat_word_ariths mod_if split: if_splits)
qed

lemma store_image_parts:
  assumes "img = header @ digest @ payload" "length header = kStoreHeaderBytes" "length digest = kStoreDigestBytes"
  shows "take kStoreHeaderBytes img = header" "take kStoreDigestBytes (drop kStoreHeaderBytes img) = digest"
    "drop (kStoreHeaderBytes + kStoreDigestBytes) img = payload" "length img = 68 + length payload"
  using assms by (simp_all add: kStoreHeaderBytes_def kStoreDigestBytes_def kSha256Bytes_def)

lemma length_payload: "length records \<le> length (enc_payload sequence records)"
proof -
  have "length records \<le> length (concat (map enc_record records))"
  proof (induction records)
    case (Cons r rs)
    have "0 < length (enc_record r)" by (simp add: enc_record_def)
    then have "1 \<le> length (enc_record r)" by linarith
    with Cons show ?case by simp
  qed simp
  then show ?thesis by (simp add: enc_payload_def)
qed

lemma decode_image:
  assumes img: "img = store_image sequence records" and "length img < 2 ^ 64" "length records \<le> max_persisted_plans limits"
  shows "DecodePlanStore img limits = decode_message (DC_kPersistenceTrailingBytes, ''store payload carries trailing bytes'')
    (read_payload limits (of_nat (length records))) (enc_payload sequence records)"
proof -
  let ?p = "enc_payload sequence records"
  let ?hd = "enc_store_header (of_nat (length records)) (of_nat (length ?p))"
  note parts = store_image_parts [OF img [unfolded store_image_def Let_def] length_enc_store_header length_store_digest]
  have small: "length records < 2 ^ 64" "length ?p < 2 ^ 64" using assms(2) parts(4) length_payload [of records sequence] by auto
  then have n: "unat (of_nat (length records) :: u64) = length records" "unat (of_nat (length ?p) :: u64) = length ?p"
    by (simp_all add: unat_of_nat_less)
  have "runs (read_header limits) ?hd (of_nat (length records), of_nat (length ?p))"
    using exact_decoder.accepts [OF exact_read_header [of limits], of "(of_nat (length records), of_nat (length ?p))"] n assms(3) by simp
  from runsD [OF this, of "ByteReader_new ?hd" "[]"]
  have h: "fst (read_header limits (ByteReader_new ?hd)) = Inr (of_nat (length records), of_nat (length ?p))"
    using ready_new [of ?hd] by simp
  have "unat (of_nat (68 + length ?p) :: u64) = 68 + length ?p" using assms(2) parts(4) by (simp add: unat_of_nat_less del: of_nat_add)
  then have size: "unat (of_nat (kStoreHeaderBytes + kStoreDigestBytes) + of_nat (length ?p) :: u64) = length img"
    unfolding parts(4) by (simp add: kStoreHeaderBytes_def kStoreDigestBytes_def kSha256Bytes_def)
  have long: "\<not> length img < kStoreHeaderBytes + kStoreDigestBytes"
    unfolding parts(4) by (simp add: kStoreHeaderBytes_def kStoreDigestBytes_def kSha256Bytes_def)
  show ?thesis
    unfolding DecodePlanStore_def by (simp add: parts(1-3) h size long n Let_def del: of_nat_add)
qed

lemma DecodePlanStore_iff:
  "DecodePlanStore img limits = Inr records \<longleftrightarrow>
   (\<exists>sequence. img = store_image sequence records) \<and> length img < 2 ^ 64 \<and> length records \<le> max_persisted_plans limits \<and>
   follows (record_valid limits) [] records"
proof
  let ?h = "kStoreHeaderBytes" and ?d = "kStoreDigestBytes"
  assume D: "DecodePlanStore img limits = Inr records"
  then obtain a b where h: "fst (read_header limits (ByteReader_new (take ?h img))) = Inr (a, b)"
    and long: "?h + ?d \<le> length img" and size: "length img = unat (of_nat (?h + ?d) + b)"
    and dig: "take ?d (drop ?h img) = store_digest (take ?h img) (take (unat b) (drop (?h + ?d) img))"
    and pay: "decode_message (DC_kPersistenceTrailingBytes, ''store payload carries trailing bytes'') (read_payload limits a)
      (take (unat b) (drop (?h + ?d) img)) = Inr records"
    by (auto simp: DecodePlanStore_def Let_def not_less split: if_splits sum.splits prod.splits)
  obtain r where "read_header limits (ByteReader_new (take ?h img)) = (Inr (a, b), r)" using h by (metis prod.collapse)
  from exact_decoder.rejects [OF exact_read_header] ready_new this obtain cs rest
    where c: "take ?h img = cs @ rest" "unat a \<le> max_persisted_plans limits" "cs = enc_store_header a b" by (rule onlyE) auto
  have hd: "take ?h img = enc_store_header a b"
    using c(1,3) long length_enc_store_header [of a b] by (metis append_eq_append_conv append_Nil2 length_take min.absorb2 add_leE)
  have 68: "?h + ?d = 68" by (simp add: kStoreHeaderBytes_def kStoreDigestBytes_def kSha256Bytes_def)
  have b: "length img = 68 + unat b" using long size expected_size_no_wrap [of b] unfolding 68 by simp
  then have pl: "take (unat b) (drop (?h + ?d) img) = drop (?h + ?d) img" unfolding 68 by simp
  from message_only [OF pay only_read_payload] obtain sequence
    where p: "drop (?h + ?d) img = enc_payload sequence records" "length records = unat a" "follows (record_valid limits) [] records"
    unfolding pl by blast
  have "b = of_nat (length (enc_payload sequence records))" using b unfolding p(1) [symmetric] 68 by simp
  moreover have "img = take ?h img @ take ?d (drop ?h img) @ drop (?h + ?d) img" by (metis append_take_drop_id drop_drop add.commute)
  ultimately have "img = store_image sequence records"
    using hd dig p(1,2) unfolding pl store_image_def Let_def by simp
  moreover have "length img < 2 ^ 64" unfolding size using unsigned_less [of "of_nat (?h + ?d) + b", where 'a = nat] by simp
  ultimately show "(\<exists>sequence. img = store_image sequence records) \<and> length img < 2 ^ 64 \<and> length records \<le> max_persisted_plans limits \<and>
     follows (record_valid limits) [] records"
    using p c(2) by auto
next
  assume R: "(\<exists>sequence. img = store_image sequence records) \<and> length img < 2 ^ 64 \<and> length records \<le> max_persisted_plans limits \<and>
     follows (record_valid limits) [] records"
  then obtain sequence where img: "img = store_image sequence records" by blast
  note decode_image [OF img]
  moreover have "unat (of_nat (length records) :: u64) = length records"
    using R length_payload [of records sequence] store_image_parts(4) [OF img [unfolded store_image_def Let_def] length_enc_store_header length_store_digest]
    by (simp add: unat_of_nat_less)
  ultimately show "DecodePlanStore img limits = Inr records"
    using R message_runs [OF runs_read_payload [of records "of_nat (length records)" limits sequence]] by simp
qed

text \<open>An image with the identity of a plan twice is not readable.\<close>

lemma decode_duplicate:
  assumes "img = store_image sequence records" "length img < 2 ^ 64" "length records \<le> max_persisted_plans limits"
    and "\<forall>r \<in> set records. record_valid limits [] r" "\<not> distinct (map stp_plan records)"
  shows "DecodePlanStore img limits = Inl duplicate_plan"
proof -
  obtain xs y zs where split: "map stp_plan records = xs @ y # zs" "distinct xs" "y \<in> set xs"
    using assms(5) by (auto simp: not_distinct_conv_prefix)
  then obtain as r bs where r: "records = as @ r # bs" "map stp_plan as = xs" "stp_plan r = y" by (auto simp: map_eq_append_conv map_eq_Cons_conv)
  have n: "unat (of_nat (length records) :: u64) = length records"
    using assms(1,2) length_payload [of records sequence] store_image_parts(4) [OF assms(1) [unfolded store_image_def Let_def] length_enc_store_header length_store_digest]
    by (simp add: unat_of_nat_less)
  have "follows (record_valid limits) [] as" using assms(4) split(2) r by (simp add: follows_records)
  moreover have "stops (read_record limits (length as) as) (enc_record r) duplicate_plan"
    using assms(4) r split(3) by (intro stops_duplicate) auto
  ultimately have "stops (dloop (read_record limits) (length records) []) (concat (map enc_record as) @ enc_record r) duplicate_plan"
    using r(1) by (intro stops_loop [where item = "read_record limits" and enc = enc_record and V = "record_valid limits"] exact_read_record) simp_all
  from stops_more [OF this, of "concat (map enc_record bs)"]
  have "stops (dloop (read_record limits) (length records) []) (concat (map enc_record records)) duplicate_plan" by (simp add: r(1))
  then have "stops (read_payload limits (of_nat (length records))) (enc_payload sequence records) duplicate_plan"
    unfolding read_payload_def enc_payload_def by (intro store_stop_steps stops_guard) (simp_all add: n)
  then show ?thesis unfolding decode_image [OF assms(1-3)] by (rule message_stops)
qed

section \<open>What is written\<close>

text \<open>What a record becomes when it is written and read: the state of the hops is not stored, and missing ranks are
  filled with the positions.\<close>

definition strip_hop :: "PathHop \<Rightarrow> PathHop" where
  "strip_hop h = h\<lparr>hop_link_state := Link_kUnknown, hop_degraded := False\<rparr>"

definition strip_path :: "CandidatePath \<Rightarrow> CandidatePath" where
  "strip_path p = p\<lparr>path_hops := map strip_hop (path_hops p)\<rparr>"

definition stored_form :: "StoredPlanRecord \<Rightarrow> StoredPlanRecord" where
  "stored_form r = r\<lparr>stp_candidates := map strip_path (stp_candidates r),
     stp_ranks := map (rank_at (stp_ranks r)) [0..<length (stp_candidates r)]\<rparr>"

lemma strip_path_fields [simp]:
  "path_source (strip_path p) = path_source p" "path_destination (strip_path p) = path_destination p"
  "path_layer (strip_path p) = path_layer p" "path_nodes (strip_path p) = path_nodes p" "length (path_hops (strip_path p)) = length (path_hops p)"
  by (simp_all add: strip_path_def)

lemma enc_hop_strip [simp]: "enc_hop (strip_hop h) = enc_hop h"
  by (simp add: strip_hop_def enc_hop_def)

lemma enc_path_strip [simp]: "enc_path (strip_path p) = enc_path p"
  by (simp add: enc_path_def strip_path_def comp_def)

definition record_encodable :: "ResourceLimits \<Rightarrow> StoredPlanRecord \<Rightarrow> bool" where
  "record_encodable limits r \<longleftrightarrow> FixedId_IsValid (stp_plan r) \<and> FixedId_IsValid (stp_request r) \<and>
     length (stp_candidates r) = length (stp_costs r) \<and> length (stp_candidates r) \<le> max_candidates_per_request limits"

lemma emits_stored_candidate: "emits (write_stored_candidate c) (enc_triple c)"
  unfolding write_stored_candidate_def [abs_def] enc_triple_def case_prod_beta WriteCost_def WritePath_def
  by (rule emits_eqI, (rule emits_then emits_comp [OF _ emits_write_cost] emits_CandidatePath_Encode)+) simp

lemma triples_stored_form:
  assumes "length (stp_candidates r) = length (stp_costs r)"
  shows "concat (map enc_triple (triples (stored_form r))) = concat (map enc_triple (stored_candidates r))"
proof -
  have "triples (stored_form r) = map (\<lambda>(p, c, k). (strip_path p, c, k)) (stored_candidates r)"
    using assms by (intro nth_equalityI) (simp_all add: triples_def stored_form_def stored_candidates_def)
  moreover have "enc_triple (case c of (p, x) \<Rightarrow> (strip_path p, x)) = enc_triple c" for c
    by (simp add: enc_triple_def case_prod_beta)
  ultimately show ?thesis by (simp add: comp_def)
qed

lemma emits_then_store:
  "emits f bs \<Longrightarrow> emits (\<lambda>w. WriteId x (f w)) (bs @ id_bytes x)"
  "emits f bs \<Longrightarrow> emits (\<lambda>w. WriteGenerations g (f w)) (bs @ enc_generations g)"
  unfolding WriteId_def WriteGenerations_def by (intro emits_then emits_then_generations; assumption)+

lemma emits_write_record:
  assumes "record_encodable limits r"
  shows "emits (write_record r) (enc_record (stored_form r))"
  unfolding write_record_def [abs_def] Let_def
  by (rule emits_eqI, (rule emits_then emits_then_store emits_id emits_then_fold emits_stored_candidate)+)
    (use assms triples_stored_form [of r] in \<open>simp add: enc_record_def record_encodable_def enc_evidence_def enc_bool_def stored_form_def\<close>)

lemma write_records_ok:
  "list_all (record_encodable limits) records \<Longrightarrow> write_records limits records w = Inr (fold write_record records w)"
  by (induction records arbitrary: w) (auto simp: record_encodable_def)

lemma write_records_Inr: "write_records limits records w = Inr w' \<Longrightarrow> list_all (record_encodable limits) records"
  by (induction records arbitrary: w) (auto simp: record_encodable_def split: if_splits)

lemma emits_payload:
  assumes "list_all (record_encodable limits) records"
  shows "emits (\<lambda>w. fold write_record records (write_VarU64 (of_nat (length records)) (write_U64 sequence w)))
    (enc_payload sequence (map stored_form records))"
  by (rule emits_eqI, (rule emits_then emits_id emits_then_fold emits_write_record [of limits])+)
    (use assms in \<open>auto simp: enc_payload_def comp_def list_all_iff\<close>)

lemma emits_store_header: "emits (store_header a b) (enc_store_header (of_nat a) (of_nat b))"
  unfolding store_header_def [abs_def] Let_def
  by (rule emits_eqI, (rule emits_then emits_id)+) (simp add: enc_store_header_def)

lemma EncodePlanStore_iff:
  "EncodePlanStore records options = Inr img \<longleftrightarrow>
     ValidateLimits (so_limits options) = None \<and> length records \<le> max_persisted_plans (so_limits options) \<and>
     list_all (record_encodable (so_limits options)) records \<and>
     length (enc_payload (so_publish_sequence options) (map stored_form records)) \<le> payload_ceiling (so_limits options) \<and>
     img = store_image (so_publish_sequence options) (map stored_form records)"
proof (cases "list_all (record_encodable (so_limits options)) records")
  case False
  then show ?thesis
    by (auto simp: EncodePlanStore_def Let_def dest: write_records_Inr split: option.splits if_splits sum.splits)
next
  case True
  note w = emits_new [OF emits_payload [OF True], of "so_publish_sequence options" "payload_ceiling (so_limits options)"]
  note h = emits_new [OF emits_store_header, of _ _ kStoreHeaderBytes]
  show ?thesis
    using w(2) h(2)
    by (subst EncodePlanStore_def, subst write_records_ok [OF True])
      (auto simp: True Let_def w(1) h(1) h(2) store_image_def split: option.splits)
qed

text \<open>The file is read as a whole when it is within the ceiling.\<close>

lemma load_blocks_eq:
  "load_blocks limit img rest = (if length img + length rest \<le> limit \<or> rest = [] then Inr (img @ rest)
     else Inl (DC_kPersistenceLimitExceeded, ''store image exceeds the configured ceiling''))"
proof (induction limit img rest rule: load_blocks.induct)
  case (1 limit img rest)
  have step: "load_blocks limit img rest = (if rest = [] then Inr img else if limit < length img + length (take 65536 rest)
     then Inl (DC_kPersistenceLimitExceeded, ''store image exceeds the configured ceiling'')
     else load_blocks limit (img @ take 65536 rest) (drop 65536 rest))"
    by (subst load_blocks.simps) (simp only: Let_def)
  consider "rest = []" | "rest \<noteq> []" "limit < length img + length (take 65536 rest)"
    | "rest \<noteq> []" "\<not> limit < length img + length (take 65536 rest)" by blast
  then show ?case
  proof cases
    case 3
    have "length (take 65536 rest) + length (drop 65536 rest) = length rest" by simp
    with 3 show ?thesis unfolding step using 1 [OF 3(1) refl 3(2)]
      by (auto simp: add.assoc min_def simp del: load_blocks.simps split: if_splits)
  qed (unfold step, simp_all)
qed

lemma length_store_image: "length (store_image sequence records) = 68 + length (enc_payload sequence records)"
  by (simp add: store_image_def Let_def kStoreHeaderBytes_def kStoreDigestBytes_def kSha256Bytes_def)

lemma LoadPlanStore_iff:
  "LoadPlanStore path limits fs = Inr records \<longleftrightarrow>
     path \<noteq> [] \<and> (\<exists>sequence. fs path = Some (store_image sequence records) \<and> length (store_image sequence records) \<le> load_ceiling limits \<and>
       length (store_image sequence records) < 2 ^ 64) \<and>
     length records \<le> max_persisted_plans limits \<and> follows (record_valid limits) [] records"
proof -
  have "store_image sequence records \<noteq> []" for sequence using length_store_image [of sequence records] by auto
  then show ?thesis
    by (auto simp: LoadPlanStore_def load_blocks_eq DecodePlanStore_iff simp del: load_blocks.simps split: option.splits sum.splits if_splits)
qed


section \<open>Recovery\<close>

text \<open>A plan as it is recovered: nothing in it is current and nothing is authorised, and the evidence, notes and provenance of a
  candidate are those of a fresh candidate of the plan.\<close>

definition recovered_candidate :: "PathPlan \<Rightarrow> Candidate \<Rightarrow> Candidate" where
  "recovered_candidate p c = (Candidate_new (cand_path c) (cand_cost c))
     \<lparr>cand_rank := cand_rank c, cand_evidence := plan_evidence p, cand_currentness := Cur_kRevalidationRequired,
      cand_authority := Auth_kNotRequested\<rparr>"

lemma FromStoredRecord_ToStoredRecord:
  "FromStoredRecord (ToStoredRecord p) = p\<lparr>plan_currentness_proven := False, plan_candidates := map (recovered_candidate p) (plan_candidates p)\<rparr>"
proof -
  have "plan_candidates (FromStoredRecord (ToStoredRecord p)) = map (recovered_candidate p) (plan_candidates p)"
    by (rule nth_equalityI) (simp_all add: FromStoredRecord_def ToStoredRecord_def Let_def recovered_candidate_def rank_at_def)
  then show ?thesis by (intro PathPlan.equality) (simp_all add: FromStoredRecord_def ToStoredRecord_def Let_def)
qed

lemma ComputeSemanticDigest_cong:
  assumes "plan_request p = plan_request q" "plan_source p = plan_source q" "plan_destination p = plan_destination q"
    "plan_layer p = plan_layer q" "plan_status p = plan_status q" "plan_diagnostic_mode p = plan_diagnostic_mode q"
    "plan_evidence p = plan_evidence q" "plan_policy_generation p = plan_policy_generation q"
    "plan_constraint_set p = plan_constraint_set q" "plan_constraint_generation p = plan_constraint_generation q"
    "map encode_candidate (plan_candidates p) = map encode_candidate (plan_candidates q)"
  shows "ComputeSemanticDigest p = ComputeSemanticDigest q"
proof -
  have "fold encode_candidate (plan_candidates p) w = fold encode_candidate (plan_candidates q) w" for w
    using arg_cong [OF assms(11), of "\<lambda>fs. fold (\<lambda>f. f) fs w"] by (simp add: fold_map comp_def)
  moreover have "length (plan_candidates p) = length (plan_candidates q)" using assms(11) by (metis length_map)
  ultimately show ?thesis using assms(1-10) by (simp add: ComputeSemanticDigest_def EncodeSemantic_def Let_def)
qed

lemma recovered_digest:
  assumes "\<forall>c \<in> set (plan_candidates p). cand_id c = CandidatePath_Id (cand_path c)"
  shows "ComputeSemanticDigest (FromStoredRecord (ToStoredRecord p)) = ComputeSemanticDigest p"
  unfolding FromStoredRecord_ToStoredRecord
  by (rule ComputeSemanticDigest_cong)
    (use assms in \<open>simp_all add: encode_candidate_def [abs_def] recovered_candidate_def Candidate_new_def\<close>)

section \<open>Replacement of the store file\<close>

lemma payload_ceiling_le: "payload_ceiling limits \<le> max_frame_bytes limits * 16" "payload_ceiling limits < 2 ^ 32"
proof -
  show "payload_ceiling limits < 2 ^ 32" unfolding payload_ceiling_def using unsigned_less [where 'a = nat and 'b = 32] by simp
  have "payload_ceiling limits = max_frame_bytes limits * 16 mod 2 ^ 32"
    unfolding payload_ceiling_def by (simp add: unat_word_ariths unat_of_nat mod_mult_left_eq)
  then show "payload_ceiling limits \<le> max_frame_bytes limits * 16" by simp
qed

lemma encoded_is_loaded:
  assumes "EncodePlanStore records options = Inr img" "follows (record_valid (so_limits options)) [] (map stored_form records)"
    "path \<noteq> []" "fs path = Some img"
  shows "LoadPlanStore path (so_limits options) fs = Inr (map stored_form records)"
proof -
  let ?n = "length (enc_payload (so_publish_sequence options) (map stored_form records))"
  have e: "length records \<le> max_persisted_plans (so_limits options)" "?n \<le> payload_ceiling (so_limits options)"
    "img = store_image (so_publish_sequence options) (map stored_form records)"
    using assms(1) by (simp_all add: EncodePlanStore_iff)
  have "68 + ?n \<le> load_ceiling (so_limits options)" "68 + ?n < 2 ^ 64"
    using e(2) payload_ceiling_le [of "so_limits options"]
    by (auto simp: load_ceiling_def kStoreHeaderBytes_def kStoreDigestBytes_def kSha256Bytes_def)
  then show ?thesis using assms e by (auto simp: LoadPlanStore_iff length_store_image)
qed

text \<open>
  What is read back of saved records: these, when each of them is valid on its own and no two carry the identity of one plan; the
  refusal of the duplicate when two do; and never these when one of them is not valid.
\<close>

definition reads_back :: "ResourceLimits \<Rightarrow> StoredPlanRecord list \<Rightarrow> StoreError + StoredPlanRecord list \<Rightarrow> bool" where
  "reads_back limits records loaded \<longleftrightarrow>
     (if list_all (record_valid limits []) records
      then loaded = (if distinct (map stp_plan records) then Inr records else Inl duplicate_plan)
      else loaded \<noteq> Inr records)"

lemma encoded_reads_back:
  assumes "EncodePlanStore records options = Inr img" "path \<noteq> []" "fs path = Some img"
  shows "reads_back (so_limits options) (map stored_form records) (LoadPlanStore path (so_limits options) fs)"
proof (cases "list_all (record_valid (so_limits options) []) (map stored_form records) \<and> \<not> distinct (map stp_plan (map stored_form records))")
  case True
  let ?n = "length (enc_payload (so_publish_sequence options) (map stored_form records))"
  have e: "length records \<le> max_persisted_plans (so_limits options)" "?n \<le> payload_ceiling (so_limits options)"
    "img = store_image (so_publish_sequence options) (map stored_form records)"
    using assms(1) by (simp_all add: EncodePlanStore_iff)
  have small: "length img \<le> load_ceiling (so_limits options)" "length img < 2 ^ 64"
    using e(2) payload_ceiling_le [of "so_limits options"] unfolding e(3) length_store_image
    by (auto simp: load_ceiling_def kStoreHeaderBytes_def kStoreDigestBytes_def kSha256Bytes_def)
  have "DecodePlanStore img (so_limits options) = Inl duplicate_plan"
    using decode_duplicate [OF e(3) small(2), of "so_limits options"] e(1) True by (auto simp: list_all_iff)
  then have "LoadPlanStore path (so_limits options) fs = Inl duplicate_plan"
    using assms(2,3) small(1) by (simp add: LoadPlanStore_def load_blocks_eq del: load_blocks.simps)
  then show ?thesis unfolding reads_back_def using True by simp
next
  case False
  show ?thesis
  proof (cases "follows (record_valid (so_limits options)) [] (map stored_form records)")
    case True
    from encoded_is_loaded [where fs = fs, OF assms(1) True assms(2,3)] True show ?thesis by (simp add: reads_back_def follows_records list_all_iff)
  next
    case invalid: False
    then have "LoadPlanStore path (so_limits options) fs \<noteq> Inr (map stored_form records)" by (simp add: LoadPlanStore_iff)
    then show ?thesis unfolding reads_back_def using False invalid unfolding follows_records list_all_iff by auto
  qed
qed

lemma temp_other: "TempPathFor path \<noteq> path"
  by (simp add: TempPathFor_def)

lemma SavePlanStore_states:
  assumes "SavePlanStore path records options outcome fs = (result, states)" "s \<in> set states"
  shows "s path = fs path \<or> (\<exists>img. EncodePlanStore records options = Inr img \<and> path \<noteq> [] \<and> s path = Some img)"
    and "f \<noteq> path \<Longrightarrow> f \<noteq> TempPathFor path \<Longrightarrow> s f = fs f"
  using assms temp_other [of path]
  by (auto simp: SavePlanStore_def ReplaceFile_def Let_def dest!: in_set_takeD split: if_splits sum.splits file_outcome.splits)

lemma SavePlanStore_failed:
  assumes "SavePlanStore path records options outcome fs = (Inl e, states)" "s \<in> set states"
  shows "s path = fs path"
  using assms temp_other [of path]
  by (auto simp: SavePlanStore_def ReplaceFile_def Let_def dest!: in_set_takeD split: if_splits sum.splits file_outcome.splits)

lemma SavePlanStore_result:
  assumes "SavePlanStore path records options outcome fs = (result, states)"
  shows "states \<noteq> []" "hd states = fs"
    "result = Inr () \<Longrightarrow> \<exists>img. EncodePlanStore records options = Inr img \<and> path \<noteq> [] \<and> last states path = Some img"
  using assms by (auto simp: SavePlanStore_def ReplaceFile_def Let_def split: if_splits sum.splits file_outcome.splits)

section \<open>Properties\<close>

text \<open>
  C19. The store decoder accepts exactly the images of valid record sets: an image decodes to a list of records just when it
  is the image of that list for some publish sequence (header, digest of header and payload, payload), has at most the
  configured number of records, and each record is valid after those before it: identities present, no identity
  twice, candidates ranked in order with costs that add up and do not decrease, and a semantic digest that the content reproduces.
  In particular a decoded image determines its records and no other byte string has them with that sequence.
\<close>

theorem DecodePlanStore_exact:
  "DecodePlanStore img limits = Inr records \<longleftrightarrow>
   (\<exists>sequence. img = store_image sequence records) \<and> length img < 2 ^ 64 \<and> length records \<le> max_persisted_plans limits \<and>
   follows (record_valid limits) [] records"
  by (rule DecodePlanStore_iff)


definition kept_path :: CandidatePath where
  "kept_path = \<lparr>path_source = FixedId (replicate 16 1), path_destination = FixedId (replicate 16 1), path_layer = Layer_kPhysical,
     path_nodes = [FixedId (replicate 16 1)], path_hops = []\<rparr>"

definition kept_cost :: PathCost where
  "kept_cost = \<lparr>cost_hops_cost = 0, cost_static = 0, cost_degraded = 0, cost_locality = 0, cost_total = 0, cost_hops = 0,
     cost_degraded_hops = 0, cost_locality_breaches = 0\<rparr>"

definition kept_content :: PathPlan where
  "kept_content = \<lparr>plan_id = FixedId (replicate 16 2), plan_request = FixedId (replicate 16 3), plan_generation = 1, plan_publish_sequence = 7,
     plan_status = Status_kPlanned, plan_source = FixedId (replicate 16 1), plan_destination = FixedId (replicate 16 1), plan_layer = Layer_kPhysical,
     plan_evidence = sample_evidence\<lparr>ev_snapshot := FixedId (replicate 16 4)\<rparr>, plan_policy_generation = 1,
     plan_constraint_set = FixedId (replicate 16 5),
     plan_constraint_generation = 1, plan_diagnostic_mode = False, plan_currentness_proven = True,
     plan_candidates = [(Candidate_new kept_path kept_cost)\<lparr>cand_rank := 1\<rparr>], plan_semantic_digest = replicate 32 0\<rparr>"

definition kept_plan :: PathPlan where
  "kept_plan = kept_content\<lparr>plan_semantic_digest := ComputeSemanticDigest kept_content\<rparr>"

definition kept_options :: StoreOptions where
  "kept_options = \<lparr>so_limits = ResourceLimits_default, so_publish_sequence = 7\<rparr>"

abbreviation kept :: StoredPlanRecord where "kept \<equiv> ToStoredRecord kept_plan"

lemma kept_ids: "\<forall>c \<in> set (plan_candidates kept_plan). cand_id c = CandidatePath_Id (cand_path c)"
  by (simp add: kept_plan_def kept_content_def Candidate_new_def)

lemma kept_digest: "ComputeSemanticDigest (FromStoredRecord kept) = plan_semantic_digest kept_plan"
  unfolding recovered_digest [OF kept_ids] by (simp add: kept_plan_def) (rule ComputeSemanticDigest_cong; simp)

lemma length_digest: "length (ComputeSemanticDigest p) = 32"
  by (simp add: ComputeSemanticDigest_def Let_def)

lemma kept_stored [simp]: "stored_form kept = kept"
  by (simp add: stored_form_def ToStoredRecord_def kept_plan_def kept_content_def rank_at_def Candidate_new_def strip_path_def kept_path_def)

lemma kept_path_ok: "IsWellFormed kept_path \<and> IsSimple kept_path" by code_simp

lemma kept_fields:
  "stp_request kept = FixedId (replicate 16 3)" "stp_plan kept = FixedId (replicate 16 2)" "stp_constraint_set kept = FixedId (replicate 16 5)"
  "stp_source kept = FixedId (replicate 16 1)" "stp_destination kept = FixedId (replicate 16 1)" "stp_layer kept = Layer_kPhysical"
  "ev_snapshot (stp_evidence kept) = FixedId (replicate 16 4)" "stp_candidates kept = [kept_path]" "stp_costs kept = [kept_cost]"
  "stp_ranks kept = [1]" "stp_semantic_digest kept = plan_semantic_digest kept_plan" "length (plan_semantic_digest kept_plan) = 32"
  using length_digest [of kept_content]
  by (simp_all add: ToStoredRecord_def kept_plan_def) (simp_all add: kept_content_def Candidate_new_def)

lemma kept_candidate: "candidate_valid ResourceLimits_default e [] (kept_path, kept_cost, 1)"
  using kept_path_ok
  by (simp add: candidate_valid_def wire_path_def wire_cost_def kMaxCandidateRank_def)
    (simp add: kept_path_def kept_cost_def id_ok_def FixedId_IsValid_def list_ex_iff layer_named_def ResourceLimits_default_def)

lemma kept_valid: "record_valid ResourceLimits_default [] kept"
  using kept_candidate kept_digest
  by (simp add: record_valid_def kept_fields triples_def)
    (simp add: wire_evidence_def kept_fields id_ok_def FixedId_IsValid_def list_ex_iff layer_named_def ResourceLimits_default_def)

lemma kept_encodes: "\<exists>img. EncodePlanStore [kept] kept_options = Inr img" "\<exists>img. EncodePlanStore [kept, kept] kept_options = Inr img"
proof -
  have "record_encodable ResourceLimits_default kept"
    by (simp add: record_encodable_def kept_fields FixedId_IsValid_def list_ex_iff ResourceLimits_default_def)
  moreover have "length (enc_payload 7 [kept]) \<le> 1000" "length (enc_payload 7 [kept, kept]) \<le> 2000"
    by (simp_all add: enc_payload_def enc_record_def enc_evidence_def enc_generations_def triples_def enc_triple_def kept_fields
        enc_path_def kept_path_def enc_cost_def enc_bool_def enc_VarU64.simps)
  ultimately show "\<exists>img. EncodePlanStore [kept] kept_options = Inr img" "\<exists>img. EncodePlanStore [kept, kept] kept_options = Inr img"
    by (simp_all add: EncodePlanStore_iff kept_options_def payload_ceiling_def) (simp_all add: ResourceLimits_default_def)
qed


text \<open>
  C25. What is recovered is never current: the plan restored from the record of a plan is that plan with the proof of
  currentness withdrawn and every candidate set to REVALIDATION_REQUIRED and no authority verdict; paths, costs, ranks and generations are
  kept, so its semantic digest is that of the plan.
\<close>

theorem FromStoredRecord_not_current:
  assumes "\<forall>c \<in> set (plan_candidates p). cand_id c = CandidatePath_Id (cand_path c)"
  shows "FromStoredRecord (ToStoredRecord p) =
      p\<lparr>plan_currentness_proven := False, plan_candidates := map (recovered_candidate p) (plan_candidates p)\<rparr> \<and>
    \<not> list_ex (\<lambda>c. cand_currentness c = Cur_kCurrent) (plan_candidates (FromStoredRecord r)) \<and>
    ComputeSemanticDigest (FromStoredRecord (ToStoredRecord p)) = ComputeSemanticDigest p"
  using FromStoredRecord_ToStoredRecord [of p] recovered_digest [OF assms]
  by (simp add: FromStoredRecord_def list_ex_iff Let_def)

theorem FromStoredRecord_not_current_witness:
  "cand_currentness (hd (plan_candidates kept_plan)) = Cur_kCurrent \<and>
   cand_currentness (hd (plan_candidates (FromStoredRecord kept))) = Cur_kRevalidationRequired \<and>
   ComputeSemanticDigest (FromStoredRecord kept) = ComputeSemanticDigest kept_plan"
proof -
  note * = FromStoredRecord_not_current [OF kept_ids]
  have "plan_candidates kept_plan \<noteq> []" "cand_currentness (hd (plan_candidates kept_plan)) = Cur_kCurrent"
    by (simp_all add: kept_plan_def kept_content_def Candidate_new_def)
  moreover have "plan_candidates (FromStoredRecord kept) = map (recovered_candidate kept_plan) (plan_candidates kept_plan)"
    using conjunct1 [OF *] by simp
  ultimately have "cand_currentness (hd (plan_candidates (FromStoredRecord kept))) = Cur_kRevalidationRequired"
    by (simp add: hd_map recovered_candidate_def)
  with \<open>cand_currentness _ = Cur_kCurrent\<close> conjunct2 [OF conjunct2 [OF *]] show ?thesis by (intro conjI)
qed

text \<open>
  C28. The payload ceiling of the store is computed in 32 bits: it is sixteen times the frame ceiling modulo 2 to the 32.  At
  the largest frame ceiling that the limits check accepts it is zero, and no set of records at all can be saved.
\<close>

theorem payload_ceiling_wraps:
  "payload_ceiling limits = max_frame_bytes limits * 16 mod 2 ^ 32 \<and>
   ValidateLimits (ResourceLimits_default\<lparr>max_frame_bytes := 268435456\<rparr>) = None \<and>
   EncodePlanStore records \<lparr>so_limits = limits\<lparr>max_frame_bytes := 268435456\<rparr>, so_publish_sequence = sequence\<rparr> \<noteq> Inr img"
proof -
  have "payload_ceiling l = max_frame_bytes l * 16 mod 2 ^ 32" for l
    unfolding payload_ceiling_def by (simp add: unat_word_ariths unat_of_nat mod_mult_left_eq)
  moreover have "0 < length (enc_payload a b)" for a b by (simp add: enc_payload_def)
  ultimately show ?thesis
    by (simp add: EncodePlanStore_iff) (simp add: ValidateLimits_def ResourceLimits_default_def kMaxCandidateRank_def kMaxHopCount_def)
qed

end
