(* ===== verification/Net.thy ===== *)
theory Net
  imports Planner
begin

text \<open>
  Sockets (\<open>src/net.hpp\<close>, \<open>src/net.cpp\<close>): host and endpoint texts, and the two loops that move exactly the requested bytes.  The
  operating system's \<open>recv\<close> and \<open>send\<close> are arguments: functions of the state of the socket and the size asked for.  The calls that only
  set options, open or close a socket are not modelled.
\<close>

section \<open>Endpoints\<close>

definition host_char :: "char \<Rightarrow> bool" where
  "host_char c = (let value = (of_char c :: nat) in
     \<not> (value \<le> 0x20 \<or> value = 0x7F) \<and>
     (of_char CHR ''a'' \<le> value \<and> value \<le> of_char CHR ''z'' \<or> of_char CHR ''A'' \<le> value \<and> value \<le> of_char CHR ''Z'' \<or>
      of_char CHR ''0'' \<le> value \<and> value \<le> of_char CHR ''9'' \<or> c = CHR ''.'' \<or> c = CHR ''-'' \<or> c = CHR '':'' \<or> c = CHR ''_''))"

definition ValidateHostString :: "string \<Rightarrow> bool" where
  "ValidateHostString host = (if host = [] \<or> length host > 253 then False else list_all host_char host)"

definition rfind :: "char \<Rightarrow> string \<Rightarrow> nat option" where
  "rfind c text = (if c \<in> set text then Some (length text - 1 - length (takeWhile (\<lambda>x. x \<noteq> c) (rev text))) else None)"

definition port_digit :: "char \<Rightarrow> u32 option \<Rightarrow> u32 option" where
  "port_digit c v =
     (case v of
        None \<Rightarrow> None
      | Some value \<Rightarrow>
          if (of_char c :: nat) < of_char CHR ''0'' \<or> (of_char c :: nat) > of_char CHR ''9'' then None
          else Some (value * 10 + of_nat (of_char c - of_char CHR ''0'')))"

definition ParseEndpoint :: "string \<Rightarrow> (string \<times> u16) option" where
  "ParseEndpoint endpoint =
     (case rfind CHR '':'' endpoint of
        None \<Rightarrow> None
      | Some separator \<Rightarrow>
          if separator = 0 \<or> separator + 1 \<ge> length endpoint then None
          else let host = take separator endpoint; port_text = drop (separator + 1) endpoint in
            if \<not> ValidateHostString host then None
            else if port_text = [] \<or> length port_text > 5 then None
            else case fold port_digit port_text (Some 0) of
              None \<Rightarrow> None
            | Some value \<Rightarrow> if value = 0 \<or> value > 65535 then None else Some (host, ucast value))"

definition FormatEndpoint :: "string \<Rightarrow> u16 \<Rightarrow> string" where
  "FormatEndpoint host port = host @ '':'' @ StrongUInt_ToString port"

section \<open>Moving bytes\<close>

text \<open>What \<open>recv\<close> answers: bytes (none when the peer has closed), the bound has elapsed, the connection was reset, or another
  error with its text.\<close>

datatype recv_answer = Got bytes | TimedOut | Reset | Failed string

datatype RecvOutcome = Recv_kPeerClosed | Recv_kBoundExceeded | Recv_kError

definition kChunk :: nat where "kChunk = 2 ^ 20"

function recv_loop :: "('s \<Rightarrow> nat \<Rightarrow> recv_answer \<times> 's) \<Rightarrow> nat \<Rightarrow> nat \<Rightarrow> bytes \<Rightarrow> 's \<Rightarrow> ((RecvOutcome \<times> string) + bytes) \<times> 's" where
  "recv_loop recv bound_ms wanted received s =
     (if \<not> length received < wanted then (Inr received, s)
      else let remaining = wanted - length received; chunk = (if remaining > kChunk then kChunk else remaining) in
        case recv s chunk of
          (TimedOut, s) \<Rightarrow> (Inl (Recv_kBoundExceeded, ''receive bound of '' @ StrongUInt_ToString (of_nat bound_ms :: u32) @
             '' ms elapsed with an incomplete message''), s)
        | (Reset, s) \<Rightarrow> (Inl (Recv_kPeerClosed, []), s)
        | (Failed text, s) \<Rightarrow> (Inl (Recv_kError, ''recv failed: '' @ text), s)
        | (Got bytes, s) \<Rightarrow>
            if bytes = [] then (Inl (Recv_kPeerClosed, []), s)
            else recv_loop recv bound_ms wanted (received @ take chunk bytes) s)"
  by pat_completeness auto

termination recv_loop
  by (relation "measure (\<lambda>(recv, bound_ms, wanted, received, s). wanted - length received)")
    (auto simp: kChunk_def min_def neq_Nil_conv split: if_splits)

declare recv_loop.simps [simp del]

definition RecvExact :: "('s \<Rightarrow> nat \<Rightarrow> recv_answer \<times> 's) \<Rightarrow> nat \<Rightarrow> nat \<Rightarrow> 's \<Rightarrow> ((RecvOutcome \<times> string) + bytes) \<times> 's" where
  "RecvExact recv bound_ms wanted s =
     (if bound_ms = 0 then (Inl (Recv_kError, ''receive bound must be positive''), s) else recv_loop recv bound_ms wanted [] s)"

text \<open>\<open>send\<close> takes a number of the bytes it is offered, or fails with a text.\<close>

function send_loop :: "('s \<Rightarrow> bytes \<Rightarrow> (string + nat) \<times> 's) \<Rightarrow> bytes \<Rightarrow> 's \<Rightarrow> (string + unit) \<times> 's" where
  "send_loop send data s =
     (if data = [] then (Inr (), s)
      else case send s (take kChunk data) of
        (Inl text, s) \<Rightarrow> (Inl (''send failed: '' @ text), s)
      | (Inr result, s) \<Rightarrow>
          if result = 0 then (Inl ''send made no progress'', s) else send_loop send (drop result data) s)"
  by pat_completeness auto

termination send_loop
  by (relation "measure (\<lambda>(send, data, s). length data)") auto

declare send_loop.simps [simp del]

definition SendAll :: "('s \<Rightarrow> bytes \<Rightarrow> (string + nat) \<times> 's) \<Rightarrow> bytes \<Rightarrow> 's \<Rightarrow> (string + unit) \<times> 's" where
  "SendAll send data s = send_loop send data s"


section \<open>Correctness\<close>

text \<open>
  A socket as a stream: \<open>pending\<close> is what the peer has sent and is not yet read.  \<open>recv\<close> hands out some of it, at most as much as it
  is asked for, as long as there is any, and nothing afterwards.
\<close>

locale byte_stream =
  fixes recv :: "'s \<Rightarrow> nat \<Rightarrow> recv_answer \<times> 's"
    and pending :: "'s \<Rightarrow> bytes"
  assumes delivers: "0 < n \<Longrightarrow> pending s \<noteq> [] \<Longrightarrow>
      \<exists>bs s'. recv s n = (Got bs, s') \<and> bs \<noteq> [] \<and> length bs \<le> n \<and> pending s = bs @ pending s'"
    and ended: "0 < n \<Longrightarrow> pending s = [] \<Longrightarrow> fst (recv s n) = Got bs \<Longrightarrow> bs = []"
begin

lemma recv_step:
  assumes "length received < wanted" "pending s \<noteq> []"
  obtains bs s' where "recv_loop recv bound_ms wanted received s = recv_loop recv bound_ms wanted (received @ bs) s'"
    "bs \<noteq> []" "length (received @ bs) \<le> wanted" "pending s = bs @ pending s'"
proof -
  let ?n = "wanted - length received" let ?chunk = "if ?n > kChunk then kChunk else ?n"
  have c: "0 < ?chunk" "?chunk \<le> ?n" using assms(1) by (auto simp: kChunk_def)
  obtain bs s' where r: "recv s ?chunk = (Got bs, s')" "bs \<noteq> []" "length bs \<le> ?chunk" "pending s = bs @ pending s'"
    using delivers [OF c(1) assms(2)] by blast
  have "recv_loop recv bound_ms wanted received s = recv_loop recv bound_ms wanted (received @ bs) s'"
    using assms(1) r by (subst recv_loop.simps) (simp add: Let_def)
  moreover have "length (received @ bs) \<le> wanted" using le_trans [OF r(3) c(2)] assms(1) by simp
  ultimately show thesis using that r(2,4) by blast
qed

lemma recv_loop_enough:
  assumes "length received \<le> wanted" "wanted - length received \<le> length (pending s)"
  shows "\<exists>s'. recv_loop recv bound_ms wanted received s = (Inr (received @ take (wanted - length received) (pending s)), s') \<and>
     pending s' = drop (wanted - length received) (pending s)"
  using assms
proof (induction "wanted - length received" arbitrary: received s rule: less_induct)
  case less
  show ?case
  proof (cases "length received < wanted")
    case False
    with less show ?thesis by (subst recv_loop.simps) simp
  next
    case True
    then have "pending s \<noteq> []" using less.prems by auto
    from recv_step [OF True this] obtain bs s' where
      r: "recv_loop recv bound_ms wanted received s = recv_loop recv bound_ms wanted (received @ bs) s'"
        "bs \<noteq> []" "length (received @ bs) \<le> wanted" "pending s = bs @ pending s'" by blast
    have m: "wanted - length (received @ bs) < wanted - length received" using r(2) True by (cases bs) auto
    have d: "wanted - length received = length bs + (wanted - length (received @ bs))" using r(3) by simp
    have "wanted - length (received @ bs) \<le> length (pending s')" using less.prems(2) unfolding r(4) d by simp
    from less.hyps [OF m r(3) this] show ?thesis unfolding r(1,4) d by simp
  qed
qed

lemma recv_loop_short:
  assumes "length received \<le> wanted" "length (pending s) < wanted - length received"
  shows "\<exists>e s'. recv_loop recv bound_ms wanted received s = (Inl e, s')"
  using assms
proof (induction "wanted - length received" arbitrary: received s rule: less_induct)
  case less
  then have True: "length received < wanted" by simp
  show ?case
  proof (cases "pending s = []")
    case empty: True
    let ?n = "wanted - length received" let ?chunk = "if ?n > kChunk then kChunk else ?n"
    have c: "0 < ?chunk" using True by (simp add: kChunk_def)
    obtain answer s' where "recv s ?chunk = (answer, s')" by fastforce
    with ended [OF c empty] True show ?thesis
      by (subst recv_loop.simps) (auto simp: Let_def split: recv_answer.split)
  next
    case False
    from recv_step [OF True this] obtain bs s' where
      r: "recv_loop recv bound_ms wanted received s = recv_loop recv bound_ms wanted (received @ bs) s'"
        "bs \<noteq> []" "length (received @ bs) \<le> wanted" "pending s = bs @ pending s'" by blast
    have m: "wanted - length (received @ bs) < wanted - length received" using r(2) True by (cases bs) auto
    have "length (pending s') < wanted - length (received @ bs)" using less.prems(2) unfolding r(4) by simp
    from less.hyps [OF m r(3) this] show ?thesis unfolding r(1) .
  qed
qed

lemma RecvExact_stream:
  assumes "bound_ms \<noteq> 0"
  shows "wanted \<le> length (pending s) \<Longrightarrow>
      \<exists>s'. RecvExact recv bound_ms wanted s = (Inr (take wanted (pending s)), s') \<and> pending s' = drop wanted (pending s)"
    and "length (pending s) < wanted \<Longrightarrow> \<exists>e s'. RecvExact recv bound_ms wanted s = (Inl e, s')"
  using recv_loop_enough [of "[]" wanted s bound_ms] recv_loop_short [of "[]" wanted s bound_ms] assms by (simp_all add: RecvExact_def)

end

text \<open>A stream that arrives in segments: a call gets bytes of one segment only.\<close>

definition segment_recv :: "bytes list \<Rightarrow> nat \<Rightarrow> recv_answer \<times> bytes list" where
  "segment_recv segments n =
     (case dropWhile (\<lambda>segment. segment = []) segments of
        [] \<Rightarrow> (Got [], [])
      | segment # rest \<Rightarrow> (Got (take n segment), drop n segment # rest))"

lemma concat_dropWhile: "concat (dropWhile (\<lambda>segment. segment = []) segments) = concat segments"
  by (induction segments) auto

interpretation segmented: byte_stream segment_recv concat
proof
  fix n :: nat and s :: "bytes list" and bs
  note c = concat_dropWhile [of s]
  show "\<exists>bs s'. segment_recv s n = (Got bs, s') \<and> bs \<noteq> [] \<and> length bs \<le> n \<and> concat s = bs @ concat s'" if "0 < n" "concat s \<noteq> []"
  proof (cases "dropWhile (\<lambda>segment. segment = []) s")
    case Nil
    with c that show ?thesis by simp
  next
    case (Cons segment rest)
    then have "segment \<noteq> []" by (metis (mono_tags, lifting) dropWhile_eq_Cons_conv)
    with Cons c that show ?thesis by (simp add: segment_recv_def flip: append_assoc)
  qed
  show "bs = []" if "0 < n" "concat s = []" "fst (segment_recv s n) = Got bs"
  proof (cases "dropWhile (\<lambda>segment. segment = []) s")
    case Nil
    with that(3) show ?thesis by (simp add: segment_recv_def)
  next
    case (Cons segment rest)
    with c that(2) have "segment = []" by (metis append_is_Nil_conv concat.simps(2))
    with Cons that(3) show ?thesis by (simp add: segment_recv_def)
  qed
qed

text \<open>The other direction: \<open>send\<close> takes the first of the bytes it is offered.\<close>

locale byte_sink =
  fixes send :: "'s \<Rightarrow> bytes \<Rightarrow> (string + nat) \<times> 's"
    and sent :: "'s \<Rightarrow> bytes"
  assumes takes: "send s bs = (Inr n, s') \<Longrightarrow> n \<le> length bs \<and> sent s' = sent s @ take n bs"
    and refuses: "send s bs = (Inl text, s') \<Longrightarrow> sent s' = sent s"
begin

lemma SendAll_sent:
  assumes "SendAll send data s = (r, s')"
  shows "\<exists>n \<le> length data. sent s' = sent s @ take n data \<and> (r = Inr () \<longleftrightarrow> n = length data)"
  using assms unfolding SendAll_def
proof (induction data arbitrary: s rule: measure_induct_rule [where f = length])
  case (less data)
  note loop = less.prems [unfolded send_loop.simps [of send data s]]
  show ?case
  proof (cases "data = []")
    case True
    with loop show ?thesis by simp
  next
    case nonempty: False
    obtain answer s1 where a: "send s (take kChunk data) = (answer, s1)" by fastforce
    show ?thesis
    proof (cases answer)
      case (Inl t)
      with a refuses [of s "take kChunk data" t s1] nonempty loop show ?thesis by (auto intro!: exI [of _ 0])
    next
      case (Inr n)
      from takes [OF a [unfolded Inr]] have n: "n \<le> length data" "sent s1 = sent s @ take n data" by (auto simp: min_def split: if_splits)
      show ?thesis
      proof (cases "n = 0")
        case True
        with a Inr n nonempty loop show ?thesis by (auto intro!: exI [of _ 0])
      next
        case False
        with a Inr nonempty loop have "send_loop send (drop n data) s1 = (r, s')" by simp
        moreover have "length (drop n data) < length data" using False nonempty by simp
        ultimately obtain m where "m \<le> length data - n" "sent s' = sent s1 @ take m (drop n data)" "r = Inr () \<longleftrightarrow> m = length data - n"
          using less.IH by fastforce
        with n show ?thesis by (intro exI [of _ "n + m"]) (auto simp: take_add)
      qed
    qed
  qed
qed

end

text \<open>A socket buffer that takes at most a given number of bytes per call.\<close>

definition buffer_send :: "nat \<Rightarrow> bytes \<Rightarrow> bytes \<Rightarrow> (string + nat) \<times> bytes" where
  "buffer_send window buffered bs = (Inr (min window (length bs)), buffered @ take window bs)"

interpretation buffered: byte_sink "buffer_send window" "\<lambda>buffered. buffered"
  by unfold_locales (auto simp: buffer_send_def min_def)

lemma buffer_send_all: "0 < window \<Longrightarrow> SendAll (buffer_send window) data buffered = (Inr (), buffered @ data)"
  unfolding SendAll_def
proof (induction data arbitrary: buffered rule: measure_induct_rule [where f = length])
  case (less data)
  show ?case
  proof (cases "data = []")
    case True
    then show ?thesis by (simp add: send_loop.simps)
  next
    case False
    let ?n = "min window (length (take kChunk data))"
    have n: "0 < ?n" using False less.prems by (simp add: kChunk_def)
    have t: "take window (take kChunk data) = take ?n data" by (simp add: min_def)
    from n False have "length (drop ?n data) < length data" by simp
    from less.IH [OF this less.prems, of "buffered @ take ?n data"]
    have "send_loop (buffer_send window) (drop ?n data) (buffered @ take ?n data) = (Inr (), buffered @ data)" by simp
    moreover have "buffer_send window buffered (take kChunk data) = (Inr ?n, buffered @ take ?n data)" by (simp only: buffer_send_def t)
    ultimately show ?thesis using n False by (subst send_loop.simps) (simp del: length_take)
  qed
qed

text \<open>The number of calls of \<open>recv\<close>.\<close>

definition counted :: "('s \<Rightarrow> nat \<Rightarrow> recv_answer \<times> 's) \<Rightarrow> 's \<times> nat \<Rightarrow> nat \<Rightarrow> recv_answer \<times> 's \<times> nat" where
  "counted recv s n = (case recv (fst s) n of (answer, s') \<Rightarrow> (answer, s', snd s + 1))"

lemma recv_loop_calls:
  "snd (snd (recv_loop (counted recv) bound_ms wanted received s)) \<le> snd s + (wanted - length received)"
proof (induction "wanted - length received" arbitrary: received s rule: less_induct)
  case less
  show ?case
  proof (cases "length received < wanted")
    case False
    then show ?thesis by (subst recv_loop.simps) simp
  next
    case True
    let ?n = "wanted - length received" let ?chunk = "if ?n > kChunk then kChunk else ?n"
    have c: "0 < ?chunk" using True by (auto simp: kChunk_def)
    obtain answer t where r: "recv (fst s) ?chunk = (answer, t)" by fastforce
    have loop: "snd (snd (recv_loop (counted recv) bound_ms wanted (received @ take ?chunk bs) (t, snd s + 1))) \<le> snd s + ?n"
      if "bs \<noteq> []" for bs
    proof -
      have d: "length (take ?chunk bs) > 0" using that c by simp
      then have m: "wanted - length (received @ take ?chunk bs) < ?n" using True unfolding length_append by linarith
      from less.hyps [OF m, of "(t, snd s + 1)"] m show ?thesis by simp
    qed
    show ?thesis using True r loop by (subst recv_loop.simps) (auto simp: counted_def Let_def split: recv_answer.split)
  qed
qed


section \<open>Endpoint texts\<close>

lemma rfind_append: "c \<notin> set port \<Longrightarrow> rfind c (host @ c # port) = Some (length host)"
proof -
  assume "c \<notin> set port"
  then have "takeWhile (\<lambda>x. x \<noteq> c) (rev port @ c # rev host) = rev port"
    by (subst takeWhile_append2) auto
  then show ?thesis by (simp add: rfind_def)
qed

lemma decimal_chars: "c \<in> set (decimal_digits n) \<Longrightarrow> \<exists>d. d < (10 :: nat) \<and> c = char_of (48 + d)"
proof (induction n rule: decimal_digits.induct)
  case (1 n)
  then show ?case by (subst (asm) (2) decimal_digits.simps) (auto split: if_splits intro: exI [of _ "n mod 10"])
qed

lemma port_digit_digit:
  assumes "d < 10"
  shows "port_digit (char_of (48 + d)) (Some v) = Some (v * 10 + of_nat d)"
proof -
  have "(of_char (char_of (48 + d) :: char) :: nat) = 48 + d" using assms by simp
  then show ?thesis using assms by (simp add: port_digit_def)
qed

lemma port_digits: "fold port_digit (rev (decimal_digits n)) (Some 0) = Some (of_nat n)"
proof (induction n rule: decimal_digits.induct)
  case (1 n)
  show ?case
  proof (cases "n > 0")
    case True
    have "(of_nat (n div 10) :: u32) * 10 + of_nat (n mod 10) = of_nat (n div 10 * 10 + n mod 10)" by (simp only: of_nat_add of_nat_mult of_nat_numeral)
    with 1 True show ?thesis by (subst decimal_digits.simps) (simp add: port_digit_digit)
  qed (simp add: decimal_digits.simps)
qed

lemma ParseEndpoint_Format:
  assumes "ValidateHostString host" "port \<noteq> 0"
  shows "ParseEndpoint (FormatEndpoint host port) = Some (host, port)"
proof -
  let ?t = "rev (decimal_digits (unat port))"
  have t: "StrongUInt_ToString port = ?t" using assms(2) by (simp add: StrongUInt_ToString_def)
  have "char_of (48 + d) \<noteq> CHR '':''" if "d < (10 :: nat)" for d
  proof
    assume "char_of (48 + d) = CHR '':''"
    then have "(of_char (char_of (48 + d) :: char) :: nat) = of_char CHR '':''" by simp
    then show False using that by simp
  qed
  then have colon: "CHR '':'' \<notin> set ?t" using decimal_chars by fastforce
  have u: "unat port < 10 ^ 5" "0 < unat port" using unsigned_less [of port, where 'a = nat] assms(2) by (auto simp: unat_gt_0)
  have len: "length ?t \<le> 5" "?t \<noteq> []"
    using length_decimal_digits [OF u(1)] u(2) by (simp_all add: decimal_digits.simps [of "unat port"])
  have host: "host \<noteq> []" using assms(1) by (auto simp: ValidateHostString_def)
  have v: "unat (of_nat (unat port) :: u32) = unat port"
    using unsigned_less [of port, where 'a = nat] by (intro unat_of_nat_less) simp
  have "(of_nat (unat port) :: u32) \<noteq> 0 \<and> \<not> (of_nat (unat port) :: u32) > 65535 \<and> ucast (of_nat (unat port) :: u32) = port"
  proof (intro conjI)
    show "(of_nat (unat port) :: u32) \<noteq> 0" using u(2) v by (metis less_irrefl unsigned_0)
    show "\<not> (of_nat (unat port) :: u32) > 65535"
      using unsigned_less [of port, where 'a = nat] unfolding word_less_nat_alt v by simp
    show "ucast (of_nat (unat port) :: u32) = port"
    proof (rule word_unat_eq_iff [THEN iffD2])
      show "unat (ucast (of_nat (unat port) :: u32) :: u16) = unat port"
        unfolding unsigned_ucast_eq unsigned_take_bit_eq v by (rule take_bit_nat_eq_self) (use unsigned_less [of port, where 'a = nat] in simp)
    qed
  qed
  then show ?thesis
    using assms(1) rfind_append [OF colon, of host] colon len host port_digits [of "unat port"]
    by (simp add: ParseEndpoint_def FormatEndpoint_def t Let_def)
qed

section \<open>Properties\<close>

lemma recv_loop_trickle:
  "length received \<le> wanted \<Longrightarrow> recv_loop (counted (\<lambda>s n. (Got [b], s))) bound_ms wanted received (s, k) =
     (Inr (received @ replicate (wanted - length received) b), s, k + (wanted - length received))"
proof (induction "wanted - length received" arbitrary: received k)
  case 0
  then show ?case by (subst recv_loop.simps) simp
next
  case (Suc n)
  then have lt: "length received < wanted" and n: "n = wanted - length (received @ [b])" by simp_all
  have c: "take kChunk [b] = [b]" by (simp add: kChunk_def)
  have w: "wanted - length received = Suc n" using Suc.hyps(2) by simp
  from Suc.hyps(1) [OF n, of "k + 1"] lt have "recv_loop (counted (\<lambda>s n. (Got [b], s))) bound_ms wanted (received @ [b]) (s, k + 1) =
     (Inr ((received @ [b]) @ replicate n b), s, k + 1 + n)" unfolding n by (simp only: length_append) simp
  then show ?case using lt c unfolding w by (subst recv_loop.simps) (simp add: counted_def Let_def)
qed

text \<open>
  C18. Receiving ends: whatever the operating system answers, \<open>RecvExact\<close> calls \<open>recv\<close> at most once per wanted byte.  That many calls are also
  needed: a peer that hands over one byte per call is read to the end with one call, hence one full receive bound, per byte.
\<close>

theorem RecvExact_calls:
  "snd (snd (RecvExact (counted recv) bound_ms wanted (s, k))) \<le> k + wanted \<and>
   RecvExact (counted (\<lambda>s n. (Got [b], s))) (Suc bound) wanted (s, k) = (Inr (replicate wanted b), s, k + wanted)"
  using recv_loop_calls [of recv bound_ms wanted "[]" "(s, k)"] recv_loop_trickle [of "[]" wanted b "Suc bound" s k]
  by (simp add: RecvExact_def)

end
