(* ===== verification/Dist.thy ===== *)
theory Dist
  imports Store Proto Runtime Net
begin

text \<open>
  The distributed runtime (\<open>include/pathplanner/dist.hpp\<close>, \<open>src/dist.cpp\<close>): the coordinator with its sessions, worker
  registry, fences and pending requests, the worker's answers, and the client's calls.

  A handler of the coordinator takes its mutex several times.  Each section between a lock and its release is a
  function of its own; a handler composes its sections, and its argument \<open>env\<close> says what the other threads do to the state
  before its \<open>k\<close>-th further section.  A socket is the index of its session.  Frames that a handler sends are part of its
  result, in order; whether a send succeeds, and what the file system answers, are arguments.
\<close>

section \<open>Frames on a socket\<close>

text \<open>\<open>ReadFrame\<close> and \<open>SendFrame\<close> over the operating system's \<open>recv\<close> and \<open>send\<close>.\<close>

definition payload_length_offset :: nat where
  "payload_length_offset = 4 + 2 + 2 + 4 + 8 + 8 + 8 + 16"

definition declared_payload :: "bytes \<Rightarrow> u32" where
  "declared_payload header =
     fold (\<lambda>index v. v OR push_bit (8 * index) (ucast (header ! (payload_length_offset + index)))) [0..<4] 0"

definition ReadFrame :: "('s \<Rightarrow> nat \<Rightarrow> recv_answer \<times> 's) \<Rightarrow> nat \<Rightarrow> nat \<Rightarrow> 's \<Rightarrow> ((RecvOutcome \<times> string) + WireFrame) \<times> 's" where
  "ReadFrame recv frame_limit bound_ms socket =
     (case RecvExact recv bound_ms kWireHeaderBytes socket of
        (Inl e, socket) \<Rightarrow> (Inl e, socket)
      | (Inr header, socket) \<Rightarrow>
        let payload_bytes = unat (declared_payload header) in
        if payload_bytes > frame_limit
        then (Inl (Recv_kError, ''declared payload length exceeds the configured frame ceiling''), socket)
        else case (if payload_bytes > 0 then RecvExact recv bound_ms payload_bytes socket else (Inr [], socket)) of
          (Inl e, socket) \<Rightarrow> (Inl e, socket)
        | (Inr payload, socket) \<Rightarrow>
          (case DecodeFrame (header @ payload) frame_limit of
             Inl (_, decode_detail) \<Rightarrow> (Inl (Recv_kError, ''frame rejected: '' @ decode_detail), socket)
           | Inr frame \<Rightarrow> (Inr frame, socket)))"

definition make_frame :: "WireMessage \<Rightarrow> u16 \<Rightarrow> u64 \<Rightarrow> u64 \<Rightarrow> WorkerBootId \<Rightarrow> PlanningRequestId \<Rightarrow> bytes \<Rightarrow> WireFrame" where
  "make_frame type flags epoch sequence boot request payload =
     \<lparr>frame_type = type, frame_flags = flags, frame_epoch = epoch, frame_sequence = sequence, frame_boot = boot,
      frame_request = request, frame_payload = payload\<rparr>"

definition SendFrame :: "('s \<Rightarrow> bytes \<Rightarrow> (string + nat) \<times> 's) \<Rightarrow> WireFrame \<Rightarrow> 's \<Rightarrow> (string + unit) \<times> 's" where
  "SendFrame send f socket = SendAll send (EncodeFrame f) socket"

definition BootKey :: "WorkerBootId \<Rightarrow> string" where "BootKey boot = FixedId_ToString boot"
definition RequestKey :: "PlanningRequestId \<Rightarrow> string" where "RequestKey request = FixedId_ToString request"

text \<open>An identity from the entropy source's bytes: never nil.\<close>

definition EntropyBytes :: "bytes \<Rightarrow> bytes" where
  "EntropyBytes device = (let bytes = take 8 device in if list_ex (\<lambda>b. b \<noteq> 0) bytes then bytes else bytes[0 := 1])"

definition MakeWorkerBootIdFromLabel :: "string \<Rightarrow> WorkerBootId" where
  "MakeWorkerBootIdFromLabel label = FixedId_FromDigest 8 (Sha256_Hash (map of_char label))"

definition MakePublisherIdFromLabel :: "string \<Rightarrow> PublisherId" where
  "MakePublisherIdFromLabel label = FixedId_FromDigest 8 (Sha256_Hash (map of_char label))"

definition GenerateWorkerBootId :: "bytes \<Rightarrow> WorkerBootId" where "GenerateWorkerBootId device = FixedId (EntropyBytes device)"
definition GeneratePublisherId :: "bytes \<Rightarrow> PublisherId" where "GeneratePublisherId device = FixedId (EntropyBytes device)"

section \<open>The coordinator's state\<close>

record WorkerRegistration =
  wr_boot :: WorkerBootId
  wr_publisher :: PublisherId
  wr_snapshot :: SnapshotId
  wr_generations :: SnapshotGenerations
  wr_registered_epoch :: u64
  wr_fenced :: bool
  wr_plans_completed :: u64
  wr_publications_rejected :: u64

record Pending =
  pend_ready :: bool
  pend_status :: WireStatus
  pend_payload :: bytes
  pend_request_payload :: bytes
  pend_detail :: string
  pend_worker_key :: string

definition Pending_new :: Pending where
  "Pending_new = \<lparr>pend_ready = False, pend_status = Wire_kInternal, pend_payload = [], pend_request_payload = [],
     pend_detail = [], pend_worker_key = []\<rparr>"

record Session =
  ses_finished :: bool
  ses_worker_role :: bool
  ses_boot_key :: string
  ses_outstanding :: string

definition Session_new :: Session where
  "Session_new = \<lparr>ses_finished = False, ses_worker_role = False, ses_boot_key = [], ses_outstanding = []\<rparr>"

record Coordinator =
  co_limits :: ResourceLimits
  co_store_path :: string
  co_files :: files
  co_runtime :: Runtime
  co_running :: bool
  co_stopping :: bool
  co_sessions :: "Session list"
  co_workers :: "(string \<times> WorkerRegistration) list"
  co_fenced :: "string set"
  co_pending :: "(string \<times> Pending) list"
  co_next_sequence :: u64
  co_epoch :: u64
  co_session_count :: nat
  co_accepted :: u64
  co_recovered :: nat
  co_retained_ids :: "PathPlanId list"

definition Coordinator_new :: "ResourceLimits \<Rightarrow> FabricSnapshot option \<Rightarrow> u64 \<Rightarrow> string \<Rightarrow> files \<Rightarrow> Coordinator" where
  "Coordinator_new limits snapshot initial_epoch store_path fs =
     \<lparr>co_limits = limits, co_store_path = store_path, co_files = fs, co_runtime = PlannerRuntime_new limits snapshot None,
      co_running = False, co_stopping = False, co_sessions = [], co_workers = [], co_fenced = {}, co_pending = [],
      co_next_sequence = 1, co_epoch = initial_epoch, co_session_count = 0, co_accepted = 0, co_recovered = 0,
      co_retained_ids = []\<rparr>"

type_synonym outputs = "(nat \<times> WireFrame) list"
type_synonym interference = "nat \<Rightarrow> Coordinator \<Rightarrow> Coordinator"

definition CurrentSnapshotId :: "Coordinator \<Rightarrow> SnapshotId" where
  "CurrentSnapshotId c = (case run_snapshot (co_runtime c) of None \<Rightarrow> nil_id 16 | Some s \<Rightarrow> Snapshot_Id s)"

definition CurrentGenerations :: "Coordinator \<Rightarrow> SnapshotGenerations" where
  "CurrentGenerations c = (case run_snapshot (co_runtime c) of None \<Rightarrow> SnapshotGenerations_zero | Some s \<Rightarrow> snap_generations s)"

definition update_session :: "nat \<Rightarrow> (Session \<Rightarrow> Session) \<Rightarrow> Coordinator \<Rightarrow> Coordinator" where
  "update_session i f c = c\<lparr>co_sessions := (co_sessions c)[i := f (co_sessions c ! i)]\<rparr>"

section \<open>Sending\<close>

definition SendFenceNotice :: "ResourceLimits \<Rightarrow> nat \<Rightarrow> WorkerBootId \<Rightarrow> u64 \<Rightarrow> WireStatus \<Rightarrow> DiagnosticCode \<Rightarrow> string \<Rightarrow> nat \<times> WireFrame" where
  "SendFenceNotice limits i boot send_epoch status code detail =
     (i, make_frame Msg_kFenceNotice kWireFlagFenced send_epoch 0 boot (nil_id 16)
       (bw_data (EncodeFenceNoticePayload \<lparr>fence_boot = boot, fence_status = status, fence_code = code, fence_detail = detail\<rparr>
          (ByteWriter_new (max_frame_bytes limits)))))"

definition SendError :: "ResourceLimits \<Rightarrow> nat \<Rightarrow> u64 \<Rightarrow> PlanningRequestId \<Rightarrow> WireStatus \<Rightarrow> PlanStatus \<Rightarrow> DiagnosticCode \<Rightarrow> string \<Rightarrow>
    nat \<times> WireFrame" where
  "SendError limits i send_epoch request status as_status code detail =
     (i, make_frame Msg_kPlanError kWireFlagResponse send_epoch 0 (nil_id 8) request
       (bw_data (EncodePlanErrorPayload \<lparr>perr_request = request, perr_status = status, perr_plan_status = as_status,
          perr_code = code, perr_detail = detail\<rparr> (ByteWriter_new (max_frame_bytes limits)))))"

definition snapshot_response :: "ResourceLimits \<Rightarrow> nat \<Rightarrow> u64 \<Rightarrow> WorkerBootId \<Rightarrow> PlanningRequestId \<Rightarrow> SnapshotId \<Rightarrow> SnapshotGenerations \<Rightarrow>
    nat \<times> WireFrame" where
  "snapshot_response limits i send_epoch boot request snapshot generations =
     (i, make_frame Msg_kSnapshotResponse kWireFlagResponse send_epoch 0 boot request
       (bw_data (EncodeSnapshotResponsePayload \<lparr>snr_snapshot = snapshot, snr_generations = generations, snr_node_count = 0, snr_edge_count = 0\<rparr>
          (ByteWriter_new (max_frame_bytes limits)))))"

section \<open>Acceptance of a publication\<close>

definition ValidatePublication :: "WorkerBootId \<Rightarrow> u64 \<Rightarrow> SnapshotId \<Rightarrow> Coordinator \<Rightarrow> WireStatus \<times> string" where
  "ValidatePublication boot epoch_value snapshot c =
     (let key = BootKey boot in
      if key \<in> co_fenced c then (Wire_kWorkerFenced, ''worker boot identity is fenced'')
      else if (case map_of (co_workers c) key of None \<Rightarrow> True | Some registration \<Rightarrow> wr_fenced registration)
      then (Wire_kUnknownWorker, ''worker boot identity is not registered'')
      else if epoch_value \<noteq> co_epoch c
      then (Wire_kEpochStale, ''worker coordinator epoch '' @ StrongUInt_ToString epoch_value @ '' is stale (current '' @
        StrongUInt_ToString (co_epoch c) @ '')'')
      else if \<not> FixedId_IsValid (CurrentSnapshotId c) \<or> snapshot \<noteq> CurrentSnapshotId c
      then (Wire_kSnapshotMismatch, ''worker evidence does not match the current coordinator snapshot'')
      else (Wire_kOk, []))"

section \<open>The end of a session\<close>

definition ReleaseSession :: "nat \<Rightarrow> Coordinator \<Rightarrow> Coordinator" where
  "ReleaseSession i c =
     (let s = co_sessions c ! i;
          c = (if ses_worker_role s \<and> ses_boot_key s \<noteq> []
               then c\<lparr>co_workers := AList.delete (ses_boot_key s) (co_workers c), co_fenced := insert (ses_boot_key s) (co_fenced c)\<rparr>
               else c)
      in if ses_outstanding s = [] then c
         else case map_of (co_pending c) (ses_outstanding s) of
           None \<Rightarrow> c
         | Some slot \<Rightarrow>
             if pend_ready slot then c
             else c\<lparr>co_pending := AList.update (ses_outstanding s) (slot\<lparr>pend_ready := True, pend_status := Wire_kUnknownWorker,
               pend_detail := ''worker session ended before it published a result''\<rparr>) (co_pending c)\<rparr>)"

section \<open>The handshake\<close>

record handshake_view =
  hv_snapshot :: SnapshotId
  hv_generations :: SnapshotGenerations
  hv_epoch :: u64

definition handshake_read :: "Coordinator \<Rightarrow> handshake_view" where
  "handshake_read c = \<lparr>hv_snapshot = CurrentSnapshotId c, hv_generations = CurrentGenerations c, hv_epoch = co_epoch c\<rparr>"

definition handshake_check :: "HelloPayload \<Rightarrow> handshake_view \<Rightarrow> Coordinator \<Rightarrow> WireStatus \<times> string" where
  "handshake_check hello v c =
     (if BootKey (hello_boot hello) \<in> co_fenced c
      then (Wire_kWorkerFenced, ''worker boot identity was fenced by session loss or an administrative fence'')
      else if hello_epoch hello \<noteq> hv_epoch v
      then (Wire_kEpochStale, ''worker coordinator epoch '' @ StrongUInt_ToString (hello_epoch hello) @
        '' does not match the current epoch '' @ StrongUInt_ToString (hv_epoch v))
      else if \<not> FixedId_IsValid (hv_snapshot v) \<or> hello_snapshot hello \<noteq> hv_snapshot v
      then (Wire_kSnapshotMismatch, ''worker evidence does not match the coordinator snapshot'')
      else (Wire_kOk, []))"

definition handshake_register :: "nat \<Rightarrow> HelloPayload \<Rightarrow> handshake_view \<Rightarrow> Coordinator \<Rightarrow> Coordinator" where
  "handshake_register i hello v c =
     (let key = BootKey (hello_boot hello);
          registration = \<lparr>wr_boot = hello_boot hello, wr_publisher = hello_publisher hello, wr_snapshot = hello_snapshot hello,
            wr_generations = hello_generations hello, wr_registered_epoch = hv_epoch v, wr_fenced = False, wr_plans_completed = 0,
            wr_publications_rejected = 0\<rparr>
      in update_session i (\<lambda>s. s\<lparr>ses_worker_role := True, ses_boot_key := key\<rparr>)
           (c\<lparr>co_workers := AList.update key registration (co_workers c)\<rparr>))"

definition HandleHandshake :: "interference \<Rightarrow> nat \<Rightarrow> WireFrame \<Rightarrow> Coordinator \<Rightarrow> Coordinator \<times> outputs" where
  "HandleHandshake env i frame c =
     (case DecodeHelloPayload (frame_payload frame) of
        Inl (decode, detail) \<Rightarrow>
          (c, [SendError (co_limits c) i (co_epoch c) (frame_request frame) decode Status_kMalformedRequest (DiagnosticForWireStatus decode) detail])
      | Inr hello \<Rightarrow>
        if hello_boot hello \<noteq> frame_boot frame
        then (c, [SendError (co_limits c) i (co_epoch c) (frame_request frame) Wire_kMalformed Status_kMalformedRequest DC_kWorkerBootFenced
          ''handshake boot identity does not match the frame worker identity''])
        else
          let v = handshake_read c; c = env 1 c; (acceptance, fence_detail) = handshake_check hello v c in
          if acceptance = Wire_kSnapshotMismatch
          then (c, [SendError (co_limits c) i (hv_epoch v) (frame_request frame) acceptance Status_kRevalidationRequired DC_kStaleEvidence fence_detail])
          else if acceptance \<noteq> Wire_kOk
          then (c, [SendFenceNotice (co_limits c) i (hello_boot hello) (hv_epoch v) acceptance (DiagnosticForWireStatus acceptance) fence_detail])
          else (handshake_register i hello v (env 2 c),
                [snapshot_response (co_limits c) i (hv_epoch v) (hello_boot hello) (frame_request frame) (hv_snapshot v) (hv_generations v)]))"

section \<open>Retention and the store\<close>

definition retained_snapshot :: "Coordinator \<Rightarrow> PathPlan list" where
  "retained_snapshot c = List.map_filter (\<lambda>x. FindPlan x (co_runtime c)) (co_retained_ids c)"

definition SaveStore :: "file_outcome \<Rightarrow> Coordinator \<Rightarrow> (string + unit) \<times> Coordinator" where
  "SaveStore outcome c =
     (if co_store_path c = [] then (Inl ''no store path is configured'', c)
      else let records = map ToStoredRecord (retained_snapshot c);
               options = \<lparr>so_limits = co_limits c, so_publish_sequence = run_sequence (co_runtime c)\<rparr>;
               (saved, states) = SavePlanStore (co_store_path c) records options outcome (co_files c);
               c = c\<lparr>co_files := last states\<rparr>
           in case saved of Inl (_, detail) \<Rightarrow> (Inl detail, c) | Inr _ \<Rightarrow> (Inr (), c))"

definition RetainAccepted :: "file_outcome \<Rightarrow> bytes \<Rightarrow> bytes \<Rightarrow> u64 \<Rightarrow> Coordinator \<Rightarrow> Coordinator" where
  "RetainAccepted outcome request_payload result_payload sequence c =
     (case DecodePlanningRequestPayload request_payload (co_limits c) of
        Inl _ \<Rightarrow> c
      | Inr request \<Rightarrow>
        (case DecodePlanningResultPayload result_payload (co_limits c) of
           Inl _ \<Rightarrow> c
         | Inr result \<Rightarrow>
             let plan = MakePathPlan request result sequence;
                 (ok, rt) = Retain plan (co_runtime c);
                 c = c\<lparr>co_runtime := rt\<rparr>;
                 c = (if ok then c\<lparr>co_retained_ids := co_retained_ids c @ [plan_id plan]\<rparr> else c)
             in if co_store_path c \<noteq> [] then snd (SaveStore outcome c) else c))"

fun recover_records :: "StoredPlanRecord list \<Rightarrow> Coordinator \<Rightarrow> Coordinator" where
  "recover_records [] c = c"
| "recover_records (record # records) c =
     (let plan = FromStoredRecord record;
          plan = plan\<lparr>plan_currentness_proven := False,
            plan_candidates := map (\<lambda>x. x\<lparr>cand_currentness := Cur_kRevalidationRequired\<rparr>) (plan_candidates plan)\<rparr>;
          (ok, rt) = Retain plan (co_runtime c);
          c = c\<lparr>co_runtime := rt\<rparr>
      in recover_records records
           (if ok then c\<lparr>co_retained_ids := co_retained_ids c @ [plan_id plan], co_recovered := co_recovered c + 1\<rparr> else c))"

definition RecoverStore :: "Coordinator \<Rightarrow> Coordinator" where
  "RecoverStore c =
     (if co_store_path c = [] then c
      else case LoadPlanStore (co_store_path c) (co_limits c) (co_files c) of
        Inl _ \<Rightarrow> c
      | Inr records \<Rightarrow> recover_records records c)"


section \<open>Worker publications\<close>

definition registered_snapshot :: "string \<Rightarrow> Coordinator \<Rightarrow> SnapshotId" where
  "registered_snapshot key c = (case map_of (co_workers c) key of None \<Rightarrow> nil_id 16 | Some registration \<Rightarrow> wr_snapshot registration)"

text \<open>The section that records the outcome: the new state, and the request payload when the publication is to be retained.\<close>

definition record_publication :: "WireFrame \<Rightarrow> WireStatus \<Rightarrow> string \<Rightarrow> Coordinator \<Rightarrow> Coordinator \<times> bytes option" where
  "record_publication frame acceptance detail c =
     (let key = BootKey (frame_boot frame); request_key = RequestKey (frame_request frame);
          c = (case map_of (co_workers c) key of
                 None \<Rightarrow> c
               | Some registration \<Rightarrow>
                   c\<lparr>co_workers := AList.update key
                       (if acceptance \<noteq> Wire_kOk then registration\<lparr>wr_publications_rejected := wr_publications_rejected registration + 1\<rparr>
                        else registration\<lparr>wr_plans_completed := wr_plans_completed registration + 1\<rparr>) (co_workers c)\<rparr>)
      in case map_of (co_pending c) request_key of
           None \<Rightarrow> (c, None)
         | Some slot \<Rightarrow>
             if pend_ready slot then (c, None)
             else if acceptance = Wire_kOk
             then (c\<lparr>co_pending := AList.update request_key (slot\<lparr>pend_status := Wire_kOk, pend_payload := frame_payload frame, pend_ready := True\<rparr>) (co_pending c),
                     co_accepted := co_accepted c + 1\<rparr>, Some (pend_request_payload slot))
             else (c\<lparr>co_pending := AList.update request_key (slot\<lparr>pend_status := acceptance, pend_detail := detail, pend_ready := True\<rparr>) (co_pending c)\<rparr>,
                   None))"

definition HandleWorkerPublication :: "interference \<Rightarrow> file_outcome \<Rightarrow> nat \<Rightarrow> WireFrame \<Rightarrow> Coordinator \<Rightarrow> Coordinator \<times> outputs" where
  "HandleWorkerPublication env outcome i frame c =
     (let worker_snapshot = registered_snapshot (BootKey (frame_boot frame)) c;
          c = env 1 c;
          (acceptance, detail) = ValidatePublication (frame_boot frame) (frame_epoch frame) worker_snapshot c;
          (c, retain) = record_publication frame acceptance detail (env 2 c);
          c = (case retain of
                 None \<Rightarrow> c
               | Some request_payload \<Rightarrow>
                   let c = env 3 c in RetainAccepted outcome request_payload (frame_payload frame) (run_sequence (co_runtime c)) c)
      in (c, if acceptance = Wire_kOk then []
             else [SendFenceNotice (co_limits c) i (frame_boot frame) (co_epoch c) acceptance (DiagnosticForWireStatus acceptance) detail]))"

section \<open>Client requests\<close>

definition HandleSnapshotRequest :: "nat \<Rightarrow> WireFrame \<Rightarrow> u64 \<Rightarrow> WorkerBootId \<Rightarrow> Coordinator \<Rightarrow> outputs" where
  "HandleSnapshotRequest i frame send_epoch boot c =
     [snapshot_response (co_limits c) i send_epoch boot (frame_request frame) (CurrentSnapshotId c) (CurrentGenerations c)]"

definition answer_currentness :: "CurrentnessQueryPayload \<Rightarrow> Coordinator \<Rightarrow> CurrentnessResultPayload" where
  "answer_currentness query c =
     (let currentness = (case run_snapshot (co_runtime c) of
            None \<Rightarrow> Cur_kRevalidationRequired
          | Some s \<Rightarrow> ClassifyEvidence (cq_evidence query) (Snapshot_Evidence s))
      in if currentness = Cur_kCurrent \<and> ev_publish_sequence (cq_evidence query) \<noteq> run_sequence (co_runtime c)
         then \<lparr>cr_plan = cq_plan query, cr_currentness = Cur_kRevalidationRequired,
               cr_changes = [\<lparr>expl_code = DC_kInvalidationWatermarkChanged, expl_detail = ''the coordinator publication watermark advanced''\<rparr>]\<rparr>
         else \<lparr>cr_plan = cq_plan query, cr_currentness = currentness, cr_changes = []\<rparr>)"

text \<open>The first idle worker session whose worker is registered and not fenced.\<close>

definition available :: "Coordinator \<Rightarrow> nat \<Rightarrow> bool" where
  "available c i =
     (let s = co_sessions c ! i in
      ses_worker_role s \<and> \<not> ses_finished s \<and> ses_outstanding s = [] \<and>
      (case map_of (co_workers c) (ses_boot_key s) of None \<Rightarrow> False | Some registration \<Rightarrow> \<not> wr_fenced registration))"

definition dispatch :: "WireFrame \<Rightarrow> PlanningRequest \<Rightarrow> Coordinator \<Rightarrow> Coordinator \<times> (nat \<times> WireFrame) option" where
  "dispatch frame request c =
     (let request_key = RequestKey (rq_id request) in
      case List.find (available c) [0..<length (co_sessions c)] of
        None \<Rightarrow>
          (c\<lparr>co_pending := AList.update request_key (Pending_new\<lparr>pend_ready := True, pend_status := Wire_kNoWorkerAvailable,
             pend_detail := ''no registered worker is available for this request''\<rparr>) (co_pending c)\<rparr>, None)
      | Some chosen \<Rightarrow>
          let slot = Pending_new\<lparr>pend_worker_key := ses_boot_key (co_sessions c ! chosen), pend_request_payload := frame_payload frame\<rparr>;
              relayed = make_frame Msg_kPlanRequest 0 (co_epoch c) (co_next_sequence c) (nil_id 8) (rq_id request) (frame_payload frame)
          in (update_session chosen (\<lambda>s. s\<lparr>ses_outstanding := request_key\<rparr>)
                (c\<lparr>co_pending := AList.update request_key slot (co_pending c), co_next_sequence := co_next_sequence c + 1\<rparr>),
              Some (chosen, relayed)))"

text \<open>The relay could not be sent: \<open>pending[request_key]\<close> creates a slot when there is none.\<close>

definition relay_failed :: "string \<Rightarrow> Coordinator \<Rightarrow> Coordinator" where
  "relay_failed request_key c =
     (let slot = (case map_of (co_pending c) request_key of None \<Rightarrow> Pending_new | Some slot \<Rightarrow> slot)
      in c\<lparr>co_pending := AList.update request_key (slot\<lparr>pend_ready := True, pend_status := Wire_kNoWorkerAvailable,
            pend_detail := ''worker session is not writable''\<rparr>) (co_pending c)\<rparr>)"

text \<open>When the wait ends: by the slot being ready or gone, or by the receive bound.\<close>

definition collect :: "string \<Rightarrow> Coordinator \<Rightarrow> Coordinator \<times> WireStatus \<times> bytes \<times> string" where
  "collect request_key c =
     (let (c, verdict) =
        (case map_of (co_pending c) request_key of
           None \<Rightarrow> (c, Wire_kInternal, [], ''internal dispatch state was lost'')
         | Some slot \<Rightarrow>
             (c\<lparr>co_pending := AList.delete request_key (co_pending c)\<rparr>,
              if \<not> pend_ready slot then (Wire_kReceiveBoundExceeded, [], ''worker did not publish a result within the receive bound'')
              else (pend_status slot, pend_payload slot, pend_detail slot)))
      in (c\<lparr>co_sessions := map (\<lambda>s. if ses_outstanding s = request_key then s\<lparr>ses_outstanding := []\<rparr> else s) (co_sessions c)\<rparr>, verdict))"

definition serve_request :: "interference \<Rightarrow> bool \<Rightarrow> nat \<Rightarrow> WireFrame \<Rightarrow> u64 \<Rightarrow> PlanningRequest \<Rightarrow> Coordinator \<Rightarrow> Coordinator \<times> outputs" where
  "serve_request env sent i frame send_epoch request c =
     (let request_key = RequestKey (rq_id request);
          (c, relayed) = dispatch frame request (env 1 c);
          c = (if relayed \<noteq> None \<and> \<not> sent then relay_failed request_key (env 2 c) else c);
          (c, status, payload, detail) = collect request_key (env 3 c)
      in (c, (case relayed of None \<Rightarrow> [] | Some relay \<Rightarrow> [relay]) @
             [if status = Wire_kOk
              then (i, make_frame Msg_kPlanResult kWireFlagResponse send_epoch 0 (nil_id 8) (frame_request frame) payload)
              else SendError (co_limits c) i send_epoch (frame_request frame) status Status_kRevalidationRequired (DiagnosticForWireStatus status) detail]))"

definition HandleClientFrame :: "interference \<Rightarrow> bool \<Rightarrow> nat \<Rightarrow> WireFrame \<Rightarrow> Coordinator \<Rightarrow> Coordinator \<times> outputs" where
  "HandleClientFrame env sent i frame c =
     (let send_epoch = co_epoch c; limits = co_limits c; request = frame_request frame in
      case frame_type frame of
        Msg_kSnapshotRequest \<Rightarrow> (let c = env 1 c in (c, HandleSnapshotRequest i frame send_epoch (nil_id 8) c))
      | Msg_kValidateCurrentness \<Rightarrow>
          (case DecodeCurrentnessQueryPayload (frame_payload frame) of
             Inl (decode, detail) \<Rightarrow>
               (c, [SendError limits i send_epoch request decode Status_kMalformedRequest (DiagnosticForWireStatus decode) detail])
           | Inr query \<Rightarrow>
               let c = env 1 c in
               (c, [(i, make_frame Msg_kCurrentnessResult kWireFlagResponse send_epoch 0 (nil_id 8) request
                  (bw_data (EncodeCurrentnessResultPayload (answer_currentness query c) (ByteWriter_new (max_frame_bytes limits)))))]))
      | Msg_kPlanRequest \<Rightarrow>
          (case DecodePlanningRequestPayload (frame_payload frame) limits of
             Inl (decode, detail) \<Rightarrow>
               (c, [SendError limits i send_epoch request decode Status_kMalformedRequest (DiagnosticForWireStatus decode) detail])
           | Inr decoded \<Rightarrow>
               if rq_id decoded \<noteq> request
               then (c, [SendError limits i send_epoch request Wire_kRequestMismatch Status_kMalformedRequest DC_kProtocolMalformedFrame
                 ''frame request identity does not match the decoded request''])
               else serve_request env sent i frame send_epoch decoded c)
      | _ \<Rightarrow> (c, [SendError limits i send_epoch request Wire_kUnsupported Status_kUnsupported DC_kUnsupportedRequest
               ''unsupported message for a client session'']))"

section \<open>Sessions\<close>

text \<open>One round of the session loop after a frame was read; the flag says whether the loop goes on.\<close>

definition session_frame :: "interference \<Rightarrow> bool \<Rightarrow> file_outcome \<Rightarrow> nat \<Rightarrow> WireFrame \<Rightarrow> Coordinator \<Rightarrow> (Coordinator \<times> outputs) \<times> bool" where
  "session_frame env sent outcome i frame c =
     (if frame_type frame = Msg_kHello \<or> frame_type frame = Msg_kRegisterWorker
      then let (c, out) = HandleHandshake env i frame c in ((c, out), ses_worker_role (co_sessions c ! i))
      else if ses_worker_role (co_sessions c ! i)
      then ((if frame_type frame = Msg_kPlanResult then HandleWorkerPublication env outcome i frame c
             else if frame_type frame = Msg_kSnapshotRequest
             then (let c' = env 1 c in (c', HandleSnapshotRequest i frame (co_epoch c) (nil_id 8) c'))
             else if frame_type frame = Msg_kValidateCurrentness then HandleClientFrame env sent i frame c
             else (c, [])), True)
      else (HandleClientFrame env sent i frame c, True))"

definition session_end :: "nat \<Rightarrow> Coordinator \<Rightarrow> Coordinator" where
  "session_end i c =
     (let c = ReleaseSession i (update_session i (\<lambda>s. s\<lparr>ses_finished := True\<rparr>) c) in c\<lparr>co_session_count := co_session_count c - 1\<rparr>)"

definition accept_session :: "Coordinator \<Rightarrow> Coordinator" where
  "accept_session c =
     (if co_session_count c \<ge> max_sessions (co_limits c) then c
      else c\<lparr>co_session_count := co_session_count c + 1, co_sessions := co_sessions c @ [Session_new]\<rparr>)"

section \<open>Administration\<close>

definition Coordinator_Start :: "(string + unit) \<Rightarrow> bool \<Rightarrow> (string + u16) \<Rightarrow> Coordinator \<Rightarrow> (string + u16) \<times> Coordinator" where
  "Coordinator_Start socket_runtime address_valid listener c =
     (if co_running c then (Inl ''coordinator is already running'', c)
      else case socket_runtime of
        Inl e \<Rightarrow> (Inl e, c)
      | Inr _ \<Rightarrow>
        (case ValidateLimits (co_limits c) of
           Some code \<Rightarrow> (Inl (''invalid resource limits: '' @ EnumName kDiagnosticCodeNames (DiagnosticCode_value code)), c)
         | None \<Rightarrow>
           if \<not> address_valid then (Inl ''invalid bind address'', c)
           else let c = c\<lparr>co_stopping := False\<rparr> in
             case listener of
               Inl e \<Rightarrow> (Inl e, c)
             | Inr port \<Rightarrow> (Inr port, (RecoverStore c)\<lparr>co_running := True\<rparr>)))"

text \<open>After the threads have ended.\<close>

definition Coordinator_Stop :: "Coordinator \<Rightarrow> Coordinator" where
  "Coordinator_Stop c =
     (if \<not> co_running c then c
      else c\<lparr>co_running := False, co_stopping := True, co_sessions := [], co_workers := [], co_pending := []\<rparr>)"

definition worker_sessions :: "Coordinator \<Rightarrow> nat list" where
  "worker_sessions c = filter (\<lambda>i. ses_worker_role (co_sessions c ! i)) [0..<length (co_sessions c)]"

definition Workers :: "Coordinator \<Rightarrow> WorkerRegistration list" where
  "Workers c = map (\<lambda>key. the (map_of (co_workers c) key)) (sort (map fst (co_workers c)))"

definition advance_section :: "u64 \<Rightarrow> Coordinator \<Rightarrow> Coordinator" where
  "advance_section new_epoch c =
     c\<lparr>co_epoch := new_epoch, co_workers := [],
       co_fenced := co_fenced c \<union> {k. k \<in> set (map (\<lambda>i. ses_boot_key (co_sessions c ! i)) (worker_sessions c)) \<and> k \<noteq> []}\<rparr>"

definition Coordinator_AdvanceEpoch :: "u64 \<Rightarrow> Coordinator \<Rightarrow> (string + unit) \<times> Coordinator \<times> outputs" where
  "Coordinator_AdvanceEpoch new_epoch c =
     (if new_epoch \<le> co_epoch c
      then (Inl (''epoch '' @ StrongUInt_ToString new_epoch @ '' is not greater than the current epoch '' @ StrongUInt_ToString (co_epoch c)), c, [])
      else let sockets = worker_sessions c; boots = map wr_boot (Workers c); c = advance_section new_epoch c
           in (Inr (), c\<lparr>co_runtime := snd (AdvanceEpoch new_epoch True (co_runtime c))\<rparr>,
               map (\<lambda>k. SendFenceNotice (co_limits c) (sockets ! k) (if k < length boots then boots ! k else nil_id 8) new_epoch Wire_kEpochStale
                 DC_kCoordinatorEpochStale ''the coordinator epoch advanced; this worker incarnation must restart'') [0..<length sockets]))"

definition Coordinator_PublishSnapshot :: "FabricSnapshot option \<Rightarrow> u64 \<Rightarrow> Coordinator \<Rightarrow> Coordinator" where
  "Coordinator_PublishSnapshot snapshot epoch c =
     (let c = (if epoch > co_epoch c then c\<lparr>co_epoch := epoch\<rparr> else c) in c\<lparr>co_runtime := PublishSnapshot snapshot (co_runtime c)\<rparr>)"

definition FenceWorker :: "WorkerBootId \<Rightarrow> Coordinator \<Rightarrow> (string + unit) \<times> Coordinator \<times> outputs" where
  "FenceWorker boot c =
     (let key = BootKey boot in
      case map_of (co_workers c) key of
        None \<Rightarrow> (Inl ''worker boot identity is not registered'', c, [])
      | Some registration \<Rightarrow>
          let c = c\<lparr>co_workers := AList.update key (registration\<lparr>wr_fenced := True\<rparr>) (co_workers c), co_fenced := insert key (co_fenced c)\<rparr>;
              sockets = filter (\<lambda>i. ses_boot_key (co_sessions c ! i) = key) [0..<length (co_sessions c)]
          in if sockets = [] then (Inl ''worker session is no longer present'', c, [])
             else (Inr (), c, [SendFenceNotice (co_limits c) (last sockets) boot (co_epoch c) Wire_kWorkerFenced DC_kWorkerBootFenced
               ''the coordinator fenced this worker boot identity'']))"


section \<open>The worker\<close>

record WorkerState =
  wk_limits :: ResourceLimits
  wk_boot :: WorkerBootId
  wk_publisher :: PublisherId
  wk_runtime :: Runtime
  wk_fenced_flag :: bool
  wk_registered_flag :: bool
  wk_plans_served :: u64
  wk_results_rejected :: u64
  wk_epoch :: u64

definition Worker_new :: "ResourceLimits \<Rightarrow> FabricSnapshot option \<Rightarrow> WorkerBootId \<Rightarrow> PublisherId \<Rightarrow> bytes \<Rightarrow> bytes \<Rightarrow> WorkerState" where
  "Worker_new limits snapshot boot publisher boot_device publisher_device =
     \<lparr>wk_limits = limits, wk_boot = (if FixedId_IsValid boot then boot else GenerateWorkerBootId boot_device),
      wk_publisher = (if FixedId_IsValid publisher then publisher else GeneratePublisherId publisher_device),
      wk_runtime = PlannerRuntime_new limits snapshot None, wk_fenced_flag = False, wk_registered_flag = False, wk_plans_served = 0,
      wk_results_rejected = 0, wk_epoch = 0\<rparr>"

definition worker_hello :: "WorkerState \<Rightarrow> HelloPayload" where
  "worker_hello w =
     (case run_snapshot (wk_runtime w) of
        None \<Rightarrow> \<lparr>hello_publisher = wk_publisher w, hello_boot = wk_boot w, hello_epoch = 0, hello_snapshot = nil_id 16,
                 hello_generations = SnapshotGenerations_zero, hello_node_count = 0, hello_edge_count = 0\<rparr>
      | Some s \<Rightarrow> \<lparr>hello_publisher = wk_publisher w, hello_boot = wk_boot w, hello_epoch = gen_epoch (snap_generations s),
                   hello_snapshot = Snapshot_Id s, hello_generations = snap_generations s,
                   hello_node_count = of_nat (length (snap_nodes s)), hello_edge_count = of_nat (length (snap_edges s))\<rparr>)"

definition worker_hello_frame :: "WorkerState \<Rightarrow> WireFrame" where
  "worker_hello_frame w =
     (let hello = worker_hello w in
      make_frame Msg_kHello 0 (hello_epoch hello) 0 (wk_boot w) (nil_id 16)
        (bw_data (EncodeHelloPayload hello (ByteWriter_new (max_frame_bytes (wk_limits w))))))"

text \<open>A notice or error that cannot be decoded leaves the default values.\<close>

definition fence_or_default :: "bytes \<Rightarrow> FenceNoticePayload" where
  "fence_or_default payload = (case DecodeFenceNoticePayload payload of
     Inr notice \<Rightarrow> notice
   | Inl _ \<Rightarrow> \<lparr>fence_boot = nil_id 8, fence_status = Wire_kWorkerFenced, fence_code = DC_kWorkerBootFenced, fence_detail = []\<rparr>)"

definition error_or_default :: "bytes \<Rightarrow> PlanErrorPayload" where
  "error_or_default payload = (case DecodePlanErrorPayload payload of
     Inr e \<Rightarrow> e
   | Inl _ \<Rightarrow> \<lparr>perr_request = nil_id 16, perr_status = Wire_kInternal, perr_plan_status = Status_kNoPath,
             perr_code = DC_kUnknownSourceEntity, perr_detail = []\<rparr>)"

definition wire_status_name :: "WireStatus \<Rightarrow> string" where
  "wire_status_name status = EnumName kWireStatusNames (WireStatus_value status)"

definition worker_handshake :: "(RecvOutcome \<times> string) + WireFrame \<Rightarrow> WorkerState \<Rightarrow> (string + unit) \<times> WorkerState" where
  "worker_handshake received w =
     (case received of
        Inl (_, detail) \<Rightarrow> (Inl (''registration handshake failed: '' @ detail), w)
      | Inr response \<Rightarrow>
        (case frame_type response of
           Msg_kFenceNotice \<Rightarrow>
             let notice = fence_or_default (frame_payload response) in
             (Inl (''worker registration was fenced: '' @ wire_status_name (fence_status notice) @ '' '' @ fence_detail notice),
              w\<lparr>wk_fenced_flag := True\<rparr>)
         | Msg_kPlanError \<Rightarrow>
             let e = error_or_default (frame_payload response) in
             (Inl (''worker registration was rejected: '' @ wire_status_name (perr_status e) @ '' '' @ perr_detail e), w)
         | Msg_kSnapshotResponse \<Rightarrow>
             (case DecodeSnapshotResponsePayload (frame_payload response) of
                Inl (_, detail) \<Rightarrow> (Inl (''malformed registration response: '' @ detail), w)
              | Inr _ \<Rightarrow> (Inr (), w\<lparr>wk_registered_flag := True, wk_epoch := frame_epoch response\<rparr>))
         | type \<Rightarrow> (Inl (''unexpected registration response: '' @ EnumName kWireMessageNames (WireMessage_value type)), w)))"

definition worker_error :: "WireFrame \<Rightarrow> WireStatus \<Rightarrow> PlanStatus \<Rightarrow> DiagnosticCode \<Rightarrow> string \<Rightarrow> WorkerState \<Rightarrow> WireFrame" where
  "worker_error frame status as_status code detail w =
     make_frame Msg_kPlanError kWireFlagResponse (wk_epoch w) 0 (wk_boot w) (frame_request frame)
       (bw_data (EncodePlanErrorPayload \<lparr>perr_request = frame_request frame, perr_status = status, perr_plan_status = as_status,
          perr_code = code, perr_detail = detail\<rparr> (ByteWriter_new (max_frame_bytes (wk_limits w)))))"

definition serve_plan :: "(string + unit) \<Rightarrow> WireFrame \<Rightarrow> WorkerState \<Rightarrow> WorkerState \<times> WireFrame list \<times> (string + unit) option" where
  "serve_plan sent frame w =
     (case DecodePlanningRequestPayload (frame_payload frame) (wk_limits w) of
        Inl (decode, detail) \<Rightarrow>
          (w, [worker_error frame decode Status_kMalformedRequest (DiagnosticForWireStatus decode) detail w], None)
      | Inr request \<Rightarrow>
        let (result, rt) = Plan request (wk_runtime w);
            w = w\<lparr>wk_runtime := rt\<rparr>;
            writer = EncodePlanningResultPayload result (ByteWriter_new (max_frame_bytes (wk_limits w)))
        in if bw_overflowed writer
           then (w, [worker_error frame Wire_kTooLarge Status_kResourceLimit DC_kProtocolMalformedFrame
                  ''planning result exceeds the configured frame ceiling'' w], None)
           else let reply = make_frame Msg_kPlanResult kWireFlagResponse (wk_epoch w) 0 (wk_boot w) (frame_request frame) (bw_data writer)
           in case sent of
                Inl e \<Rightarrow> (w, [reply], Some (Inl (''cannot publish a planning result: '' @ e)))
              | Inr _ \<Rightarrow> (w\<lparr>wk_plans_served := wk_plans_served w + 1\<rparr>, [reply], None))"

text \<open>One round of the worker's loop: the new state, the frames sent, and the return value when the loop ends.\<close>

definition worker_frame :: "(string + unit) \<Rightarrow> WireFrame \<Rightarrow> WorkerState \<Rightarrow> WorkerState \<times> WireFrame list \<times> (string + unit) option" where
  "worker_frame sent frame w =
     (let w = (if frame_epoch frame > wk_epoch w then w\<lparr>wk_epoch := frame_epoch frame\<rparr> else w) in
      case frame_type frame of
        Msg_kPlanRequest \<Rightarrow> serve_plan sent frame w
      | Msg_kSnapshotRequest \<Rightarrow>
          let hello = worker_hello w in
          (w, [make_frame Msg_kSnapshotResponse kWireFlagResponse (wk_epoch w) 0 (wk_boot w) (frame_request frame)
             (bw_data (EncodeSnapshotResponsePayload \<lparr>snr_snapshot = hello_snapshot hello, snr_generations = hello_generations hello,
                snr_node_count = hello_node_count hello, snr_edge_count = hello_edge_count hello\<rparr>
                (ByteWriter_new (max_frame_bytes (wk_limits w)))))], None)
      | Msg_kFenceNotice \<Rightarrow>
          let notice = fence_or_default (frame_payload frame) in
          (w\<lparr>wk_fenced_flag := True, wk_results_rejected := wk_results_rejected w + 1\<rparr>, [],
           Some (Inl (''worker fenced by the coordinator: '' @ wire_status_name (fence_status notice) @ '' '' @ fence_detail notice)))
      | Msg_kShutdownWorker \<Rightarrow> (w, [], Some (Inr ()))
      | _ \<Rightarrow> (w, [worker_error frame Wire_kUnsupported Status_kUnsupported DC_kUnsupportedRequest
               ''unsupported message for a worker session'' w], None))"

section \<open>The client\<close>

record Client =
  cl_limits :: ResourceLimits
  cl_connected :: bool
  cl_sequence :: u64
  cl_last_epoch :: u64

definition Client_new :: "ResourceLimits \<Rightarrow> Client" where
  "Client_new limits = \<lparr>cl_limits = limits, cl_connected = False, cl_sequence = 0, cl_last_epoch = 0\<rparr>"

definition Client_Close :: "Client \<Rightarrow> Client" where
  "Client_Close k = k\<lparr>cl_connected := False\<rparr>"

text \<open>\<open>dial\<close> is what parsing the endpoint and connecting give.\<close>

definition Client_Connect :: "(string + unit) \<Rightarrow> Client \<Rightarrow> (string + unit) \<times> Client" where
  "Client_Connect dial k =
     (if cl_connected k then (Inr (), k) else case dial of Inl e \<Rightarrow> (Inl e, k) | Inr _ \<Rightarrow> (Inr (), k\<lparr>cl_connected := True\<rparr>))"

definition session_ended :: "string \<Rightarrow> string" where
  "session_ended detail = (if detail = [] then ''coordinator session ended'' else detail)"

definition note_epoch :: "WireFrame \<Rightarrow> Client \<Rightarrow> Client" where
  "note_epoch response k = (if frame_epoch response > cl_last_epoch k then k\<lparr>cl_last_epoch := frame_epoch response\<rparr> else k)"

definition unexpected :: "WireFrame \<Rightarrow> string" where
  "unexpected response = ''unexpected response: '' @ EnumName kWireMessageNames (WireMessage_value (frame_type response))"

type_synonym exchange = "(string + unit) \<times> ((RecvOutcome \<times> string) + WireFrame)"

definition client_frame :: "WireMessage \<Rightarrow> PlanningRequestId \<Rightarrow> bytes \<Rightarrow> Client \<Rightarrow> Client \<times> WireFrame" where
  "client_frame type request payload k =
     (let k = k\<lparr>cl_sequence := cl_sequence k + 1\<rparr> in
      (k, make_frame type 0 (cl_last_epoch k) (cl_sequence k) (nil_id 8) request payload))"

definition SnapshotInfo :: "exchange \<Rightarrow> Client \<Rightarrow> (string + SnapshotId \<times> SnapshotGenerations) \<times> Client \<times> WireFrame option" where
  "SnapshotInfo io k =
     (if \<not> cl_connected k then (Inl ''client is not connected'', k, None)
      else let (k, out) = client_frame Msg_kSnapshotRequest (nil_id 16) [] k in
        case io of
          (Inl e, _) \<Rightarrow> (Inl e, k, Some out)
        | (Inr _, Inl (_, detail)) \<Rightarrow> (Inl (session_ended detail), k, Some out)
        | (Inr _, Inr response) \<Rightarrow>
            if frame_type response \<noteq> Msg_kSnapshotResponse then (Inl (unexpected response), k, Some out)
            else case DecodeSnapshotResponsePayload (frame_payload response) of
              Inl (_, detail) \<Rightarrow> (Inl (''malformed snapshot response: '' @ detail), k, Some out)
            | Inr payload \<Rightarrow> (Inr (snr_snapshot payload, snr_generations payload), note_epoch response k, Some out))"

text \<open>What \<open>Submit\<close> makes of the response: the result, or the status and the error text.\<close>

definition submit_response :: "ResourceLimits \<Rightarrow> WireFrame \<Rightarrow> PlanStatus \<times> string + PlanningResult" where
  "submit_response limits response =
     (case frame_type response of
        Msg_kPlanResult \<Rightarrow>
          (case DecodePlanningResultPayload (frame_payload response) limits of
             Inl (_, detail) \<Rightarrow> Inl (Status_kRevalidationRequired, ''malformed planning result: '' @ detail)
           | Inr result \<Rightarrow> Inr result)
      | Msg_kPlanError \<Rightarrow>
          (case DecodePlanErrorPayload (frame_payload response) of
             Inl (_, detail) \<Rightarrow> Inl (Status_kRevalidationRequired, ''malformed error response: '' @ detail)
           | Inr payload \<Rightarrow> Inl (perr_plan_status payload, wire_status_name (perr_status payload) @ '': '' @ perr_detail payload))
      | Msg_kFenceNotice \<Rightarrow>
          Inl (Status_kEpochStale, ''coordinator fenced this session: '' @ fence_detail (fence_or_default (frame_payload response)))
      | _ \<Rightarrow> Inl (Status_kRevalidationRequired, unexpected response))"

text \<open>The status is absent where the call leaves the caller's variable alone.\<close>

definition Submit :: "PlanningRequest \<Rightarrow> exchange \<Rightarrow> Client \<Rightarrow> (PlanStatus option \<times> string + PlanningResult) \<times> Client \<times> WireFrame option" where
  "Submit request io k =
     (if \<not> cl_connected k then (Inl (None, ''client is not connected''), k, None)
      else let writer = EncodePlanningRequestPayload request (ByteWriter_new (max_frame_bytes (cl_limits k))) in
        if bw_overflowed writer then (Inl (Some Status_kResourceLimit, ''planning request exceeds the configured frame ceiling''), k, None)
        else let (k, out) = client_frame Msg_kPlanRequest (rq_id request) (bw_data writer) k in
          case io of
            (Inl e, _) \<Rightarrow> (Inl (None, e), k, Some out)
          | (Inr _, Inl (_, detail)) \<Rightarrow> (Inl (Some Status_kRevalidationRequired, session_ended detail), k, Some out)
          | (Inr _, Inr response) \<Rightarrow>
              (case submit_response (cl_limits k) response of
                 Inl (status, error) \<Rightarrow> (Inl (Some status, error), note_epoch response k, Some out)
               | Inr result \<Rightarrow> (Inr result, note_epoch response k, Some out)))"

definition QueryCurrentness :: "PathPlan \<Rightarrow> exchange \<Rightarrow> Client \<Rightarrow> (string + Currentness) \<times> Client \<times> WireFrame option" where
  "QueryCurrentness plan io k =
     (if \<not> cl_connected k then (Inl ''client is not connected'', k, None)
      else let query = \<lparr>cq_plan = plan_id plan, cq_evidence = plan_evidence plan, cq_request = plan_request plan\<rparr>;
               (k, out) = client_frame Msg_kValidateCurrentness (plan_request plan)
                 (bw_data (EncodeCurrentnessQueryPayload query (ByteWriter_new (max_frame_bytes (cl_limits k))))) k
           in case io of
                (Inl e, _) \<Rightarrow> (Inl e, k, Some out)
              | (Inr _, Inl (_, detail)) \<Rightarrow> (Inl (session_ended detail), k, Some out)
              | (Inr _, Inr response) \<Rightarrow>
                  (case frame_type response of
                     Msg_kPlanError \<Rightarrow>
                       let e = error_or_default (frame_payload response) in
                       (Inl (wire_status_name (perr_status e) @ '': '' @ perr_detail e), k, Some out)
                   | Msg_kCurrentnessResult \<Rightarrow>
                       (case DecodeCurrentnessResultPayload (frame_payload response) (cl_limits k) of
                          Inl (_, detail) \<Rightarrow> (Inl (''malformed currentness result: '' @ detail), k, Some out)
                        | Inr payload \<Rightarrow> (Inr (cr_currentness payload), k, Some out))
                   | _ \<Rightarrow> (Inl (unexpected response), k, Some out)))"

end
