(* ===== verification/DistCorrect.thy ===== *)
theory DistCorrect
  imports Dist ProtoCorrect StoreCorrect
begin

text \<open>
  Correctness of the distributed runtime: framing on a stream, the steps of the coordinator as a transition relation with what
  every step keeps, and what fencing guarantees under any interleaving.
\<close>

section \<open>Framing\<close>

lemma declared_payload_eq:
  assumes "payload_length_offset \<le> length header"
  shows "declared_payload header = le_word 4 (drop payload_length_offset header)"
  using assms unfolding declared_payload_def le_word_def by (intro List.fold_cong) auto

lemma declared_payload_header:
  assumes "header_ok f"
  shows "declared_payload (enc_header f n @ integrity) = n"
proof -
  let ?pre = "le_bytes 4 kWireMagicValue @ le_bytes 2 kWireProtocolVersion @ le_bytes 2 (frame_flags f) @
     le_bytes 4 (of_nat (WireMessage_value (frame_type f)) :: u32) @ le_bytes 8 (frame_epoch f) @ le_bytes 8 (frame_sequence f) @
     id_bytes (frame_boot f) @ id_bytes (frame_request f)"
  have len: "length ?pre = payload_length_offset" using assms by (simp add: header_ok_def id_ok_def payload_length_offset_def)
  have e: "enc_header f n @ integrity = ?pre @ le_bytes 4 n @ le_bytes 4 (0 :: u32) @ integrity" by (simp add: enc_header_def)
  have "drop payload_length_offset (enc_header f n @ integrity) = le_bytes 4 n @ le_bytes 4 (0 :: u32) @ integrity"
    unfolding e using len by (metis append_eq_conv_conj)
  moreover have "payload_length_offset \<le> length (enc_header f n @ integrity)" unfolding e using len by simp
  ultimately show ?thesis using le_word_le_bytes [of 4 "le_bytes 4 n @ le_bytes 4 (0 :: u32) @ integrity" n] by (simp add: declared_payload_eq)
qed

lemma ReadFrame_sound:
  assumes "byte_stream recv pending" "bound_ms \<noteq> 0" "ReadFrame recv limit bound_ms s = (Inr f, s')"
  shows "header_ok f \<and> length (frame_payload f) \<le> limit \<and> length (frame_payload f) < 2 ^ 32 \<and> pending s = EncodeFrame f @ pending s'"
proof -
  note st = byte_stream.RecvExact_stream [OF assms(1,2)]
  have h: "kWireHeaderBytes \<le> length (pending s)"
    using st(2) [of s kWireHeaderBytes] assms(3) by (fastforce simp: ReadFrame_def not_le)
  obtain s1 where r1: "RecvExact recv bound_ms kWireHeaderBytes s = (Inr (take kWireHeaderBytes (pending s)), s1)"
    "pending s1 = drop kWireHeaderBytes (pending s)" using st(1) [OF h] by blast
  define n where "n = unat (declared_payload (take kWireHeaderBytes (pending s)))"
  obtain payload where r2: "(if n > 0 then RecvExact recv bound_ms n s1 else (Inr [], s1)) = (Inr payload, s')"
    and d: "DecodeFrame (take kWireHeaderBytes (pending s) @ payload) limit = Inr f"
    using assms(3) r1(1) unfolding ReadFrame_def Let_def n_def by (auto split: if_splits sum.splits prod.splits)
  have p: "pending s1 = payload @ pending s'"
  proof (cases "n > 0")
    case True
    then have "RecvExact recv bound_ms n s1 = (Inr payload, s')" using r2 by simp
    with st(1) [of n s1] st(2) [of s1 n] show ?thesis by (cases "n \<le> length (pending s1)") (force simp: not_le)+
  next
    case False
    with r2 show ?thesis by simp
  qed
  have "pending s = (take kWireHeaderBytes (pending s) @ payload) @ pending s'"
    using p unfolding r1(2) by (metis append_assoc append_take_drop_id)
  with d show ?thesis by (metis DecodeFrame_iff)
qed

lemma ReadFrame_complete:
  assumes "byte_stream recv pending" "bound_ms \<noteq> 0"
    and f: "header_ok f" "length (frame_payload f) \<le> limit" "length (frame_payload f) < 2 ^ 32" "pending s = EncodeFrame f @ rest"
  shows "\<exists>s'. ReadFrame recv limit bound_ms s = (Inr f, s') \<and> pending s' = rest"
proof -
  note st = byte_stream.RecvExact_stream(1) [OF assms(1,2)]
  define n where "n = (of_nat (length (frame_payload f)) :: u32)"
  define header where "header = enc_header f n @ frame_integrity (enc_header f n) (frame_payload f)"
  have n: "unat n = length (frame_payload f)" using f by (simp add: n_def unat_of_nat_less)
  have len: "length header = kWireHeaderBytes"
    using f length_enc_header [of f n] by (simp add: header_def kHeaderIntegrityOffset_def kWireHeaderBytes_def kWireIntegrityBytes_def)
  have enc: "EncodeFrame f = header @ frame_payload f" using f by (simp add: EncodeFrame_eq header_def n_def Let_def)
  have dec: "DecodeFrame (header @ frame_payload f) limit = Inr f" using f enc by (simp add: DecodeFrame_iff)
  have declared: "declared_payload header = n" using f by (simp add: header_def declared_payload_header)
  obtain s1 where r1: "RecvExact recv bound_ms kWireHeaderBytes s = (Inr header, s1)" "pending s1 = frame_payload f @ rest"
    using st [of kWireHeaderBytes s] f(4) len unfolding enc by auto
  show ?thesis
  proof (cases "frame_payload f = []")
    case True
    with r1 f(2) dec declared n show ?thesis by (simp add: ReadFrame_def Let_def)
  next
    case False
    obtain s2 where r2: "RecvExact recv bound_ms (unat n) s1 = (Inr (frame_payload f), s2)" "pending s2 = rest"
      using st [of "unat n" s1] r1(2) n by auto
    with r1 f(2) dec declared n False show ?thesis by (simp add: ReadFrame_def Let_def)
  qed
qed


section \<open>Steps of the coordinator\<close>

text \<open>
  The critical sections, each with whatever local values its thread holds.  A thread that is not in a section does
  not touch the state; so any interleaving of handlers is a path of this relation.
\<close>

inductive coord_step :: "Coordinator \<Rightarrow> Coordinator \<Rightarrow> bool" where
  accept: "coord_step c (accept_session c)"
| register: "coord_step c (handshake_register i hello v c)"
| recorded: "coord_step c (fst (record_publication f acceptance detail c))"
| retain: "coord_step c (RetainAccepted outcome request result sequence c)"
| dispatched: "coord_step c (fst (dispatch f request c))"
| unsent: "coord_step c (relay_failed key c)"
| collected: "coord_step c (fst (collect key c))"
| ended: "coord_step c (session_end i c)"
| advance: "co_epoch c < e \<Longrightarrow> coord_step c (advance_section e c)"
| publish: "coord_step c (Coordinator_PublishSnapshot snapshot e c)"
| runtime: "coord_step c (c\<lparr>co_runtime := rt\<rparr>)"
| fence: "coord_step c (fst (snd (FenceWorker boot c)))"
| save: "coord_step c (snd (SaveStore outcome c))"
| stop: "coord_step c (Coordinator_Stop c)"

text \<open>What a step never takes back.\<close>

definition keeps :: "Coordinator \<Rightarrow> Coordinator \<Rightarrow> bool" where
  "keeps c c' \<longleftrightarrow> co_fenced c \<subseteq> co_fenced c' \<and> co_epoch c \<le> co_epoch c' \<and> co_limits c' = co_limits c \<and> co_store_path c' = co_store_path c"

text \<open>The registry: one registration per key, under the key of its own boot identity, and marked only when its key is fenced.\<close>

definition registry_ok :: "Coordinator \<Rightarrow> bool" where
  "registry_ok c \<longleftrightarrow> distinct (map fst (co_workers c)) \<and> distinct (map fst (co_pending c)) \<and>
     (\<forall>k r. map_of (co_workers c) k = Some r \<longrightarrow> k = BootKey (wr_boot r) \<and> (wr_fenced r \<longrightarrow> k \<in> co_fenced c))"

lemma update_session_fields [simp]:
  "co_fenced (update_session i f c) = co_fenced c" "co_epoch (update_session i f c) = co_epoch c"
  "co_limits (update_session i f c) = co_limits c" "co_store_path (update_session i f c) = co_store_path c"
  "co_workers (update_session i f c) = co_workers c" "co_pending (update_session i f c) = co_pending c"
  "co_accepted (update_session i f c) = co_accepted c"
  by (simp_all add: update_session_def)

lemma SaveStore_fields [simp]:
  "co_fenced (snd (SaveStore outcome c)) = co_fenced c" "co_epoch (snd (SaveStore outcome c)) = co_epoch c"
  "co_limits (snd (SaveStore outcome c)) = co_limits c" "co_store_path (snd (SaveStore outcome c)) = co_store_path c"
  "co_workers (snd (SaveStore outcome c)) = co_workers c" "co_pending (snd (SaveStore outcome c)) = co_pending c"
  "co_accepted (snd (SaveStore outcome c)) = co_accepted c"
  by (simp_all add: SaveStore_def Let_def split: sum.split prod.split)

lemma RetainAccepted_fields [simp]:
  "co_fenced (RetainAccepted outcome a b n c) = co_fenced c" "co_epoch (RetainAccepted outcome a b n c) = co_epoch c"
  "co_limits (RetainAccepted outcome a b n c) = co_limits c" "co_store_path (RetainAccepted outcome a b n c) = co_store_path c"
  "co_workers (RetainAccepted outcome a b n c) = co_workers c" "co_pending (RetainAccepted outcome a b n c) = co_pending c"
  "co_accepted (RetainAccepted outcome a b n c) = co_accepted c"
  by (simp_all add: RetainAccepted_def Let_def split: sum.split prod.split)

lemma step_keeps: "coord_step c c' \<Longrightarrow> keeps c c'"
  by (induction rule: coord_step.induct)
    (auto simp: keeps_def accept_session_def handshake_register_def record_publication_def dispatch_def relay_failed_def collect_def session_end_def
      ReleaseSession_def advance_section_def Coordinator_PublishSnapshot_def FenceWorker_def Coordinator_Stop_def Let_def
      split: option.split prod.split)

lemma steps_keep: "coord_step\<^sup>*\<^sup>* c c' \<Longrightarrow> keeps c c'"
proof (induction rule: rtranclp_induct)
  case (step d e)
  from step(3) step_keeps [OF step(2)] show ?case by (auto simp: keeps_def)
qed (simp add: keeps_def)


lemmas alist_simps = update_conv' delete_conv' distinct_update distinct_delete

lemma registry_update:
  assumes "registry_ok c" "k = BootKey (wr_boot r)" "wr_fenced r \<Longrightarrow> k \<in> co_fenced c"
  shows "registry_ok (c\<lparr>co_workers := AList.update k r (co_workers c)\<rparr>)"
  using assms by (auto simp: registry_ok_def alist_simps simp del: update.simps map_of_eq_Some_iff Some_eq_map_of_iff)

lemma registry_cong:
  assumes "registry_ok c" "co_workers c' = co_workers c" "co_fenced c \<subseteq> co_fenced c'" "distinct (map fst (co_pending c'))"
  shows "registry_ok c'"
  using assms by (auto simp: registry_ok_def)

lemma registry_pending: "registry_ok c \<Longrightarrow> distinct (map fst (co_pending c))"
  by (simp add: registry_ok_def)

lemma record_registry:
  assumes "registry_ok c"
  shows "registry_ok (fst (record_publication f acceptance detail c))"
proof -
  define d where "d = (case map_of (co_workers c) (BootKey (frame_boot f)) of
                 None \<Rightarrow> c
               | Some registration \<Rightarrow>
                   c\<lparr>co_workers := AList.update (BootKey (frame_boot f))
                       (if acceptance \<noteq> Wire_kOk then registration\<lparr>wr_publications_rejected := wr_publications_rejected registration + 1\<rparr>
                        else registration\<lparr>wr_plans_completed := wr_plans_completed registration + 1\<rparr>) (co_workers c)\<rparr>)"
  have d: "registry_ok d"
    using assms unfolding d_def by (auto simp: registry_ok_def alist_simps simp del: update.simps map_of_eq_Some_iff Some_eq_map_of_iff split: option.split)
  have "co_workers (fst (record_publication f acceptance detail c)) = co_workers d \<and>
    co_fenced (fst (record_publication f acceptance detail c)) = co_fenced d \<and>
    distinct (map fst (co_pending (fst (record_publication f acceptance detail c))))"
    unfolding record_publication_def Let_def d_def [symmetric] using registry_pending [OF d]
    by (auto split: option.split simp: distinct_update simp del: update.simps map_of_eq_Some_iff Some_eq_map_of_iff)
  then show ?thesis by (intro registry_cong [OF d]) auto
qed

lemma release_registry:
  assumes "registry_ok c"
  shows "registry_ok (ReleaseSession i c)"
proof -
  define d where "d = (if ses_worker_role (co_sessions c ! i) \<and> ses_boot_key (co_sessions c ! i) \<noteq> []
    then c\<lparr>co_workers := AList.delete (ses_boot_key (co_sessions c ! i)) (co_workers c), co_fenced := insert (ses_boot_key (co_sessions c ! i)) (co_fenced c)\<rparr>
    else c)"
  have d: "registry_ok d" using assms by (auto simp: d_def registry_ok_def alist_simps simp del: map_of_eq_Some_iff Some_eq_map_of_iff split: if_splits)
  show ?thesis
    unfolding ReleaseSession_def Let_def d_def [symmetric]
    by (auto split: option.split intro!: registry_cong [OF d] simp: d registry_pending [OF d] distinct_update simp del: update.simps map_of_eq_Some_iff Some_eq_map_of_iff)
qed

lemma fence_registry:
  assumes "registry_ok c"
  shows "registry_ok (fst (snd (FenceWorker boot c)))"
  using assms unfolding FenceWorker_def Let_def
  by (auto simp: registry_ok_def alist_simps simp del: update.simps map_of_eq_Some_iff Some_eq_map_of_iff split: option.split if_splits)

lemma step_registry: "coord_step c c' \<Longrightarrow> registry_ok c \<Longrightarrow> registry_ok c'"
proof (induction rule: coord_step.induct)
  case (ended c i)
  have "registry_ok (update_session i (\<lambda>s. s\<lparr>ses_finished := True\<rparr>) c)" using ended by (simp add: registry_ok_def)
  from release_registry [OF this, of i] show ?case unfolding session_end_def Let_def registry_ok_def by simp
next
  case (recorded c f acceptance detail)
  then show ?case by (rule record_registry)
next
  case (fence c boot)
  then show ?case by (rule fence_registry)
qed (auto simp: handshake_register_def registry_ok_def accept_session_def dispatch_def relay_failed_def collect_def advance_section_def
   Coordinator_PublishSnapshot_def Coordinator_Stop_def Let_def alist_simps simp del: update.simps map_of_eq_Some_iff Some_eq_map_of_iff split: option.split prod.split)


section \<open>Publications of a fenced worker\<close>

lemma steps_registry: "coord_step\<^sup>*\<^sup>* c c' \<Longrightarrow> registry_ok c \<Longrightarrow> registry_ok c'"
  by (induction rule: rtranclp_induct) (auto intro: step_registry)

lemma fenced_validation:
  "BootKey boot \<in> co_fenced c \<Longrightarrow> ValidatePublication boot e s c = (Wire_kWorkerFenced, ''worker boot identity is fenced'')"
  by (simp add: ValidatePublication_def)

lemma rejected_publication:
  assumes "acceptance \<noteq> Wire_kOk" "record_publication f acceptance detail c = (c', retain)"
  shows "retain = None" "co_accepted c' = co_accepted c" "co_limits c' = co_limits c" "co_epoch c' = co_epoch c"
    "map_of (co_pending c') k = map_of (co_pending c) k \<or>
     (\<exists>slot. map_of (co_pending c) k = Some slot \<and> \<not> pend_ready slot \<and>
       map_of (co_pending c') k = Some (slot\<lparr>pend_status := acceptance, pend_detail := detail, pend_ready := True\<rparr>))"
  using assms unfolding record_publication_def Let_def
  by (auto simp: alist_simps simp del: update.simps map_of_eq_Some_iff Some_eq_map_of_iff split: option.splits if_splits)

text \<open>A handshake under a fenced boot identity.\<close>

lemma fenced_handshake:
  assumes "BootKey (frame_boot f) \<in> co_fenced c" "\<And>k d. coord_step\<^sup>*\<^sup>* d (env k d)"
    and "HandleHandshake env i f c = (c', out)"
  shows "(c' = c \<or> c' = env 1 c) \<and> (\<forall>reply \<in> set out. frame_type (snd reply) \<noteq> Msg_kSnapshotResponse) \<and>
   (\<forall>hello. DecodeHelloPayload (frame_payload f) = Inr hello \<and> hello_boot hello = frame_boot f \<longrightarrow>
     out = [SendFenceNotice (co_limits (env 1 c)) i (frame_boot f) (co_epoch c) Wire_kWorkerFenced DC_kWorkerBootFenced
       ''worker boot identity was fenced by session loss or an administrative fence''])"
proof (cases "\<exists>hello. DecodeHelloPayload (frame_payload f) = Inr hello \<and> hello_boot hello = frame_boot f")
  case True
  then obtain hello where hello: "DecodeHelloPayload (frame_payload f) = Inr hello" "hello_boot hello = frame_boot f" by blast
  have "BootKey (frame_boot f) \<in> co_fenced (env 1 c)" using steps_keep [OF assms(2)] assms(1) by (auto simp: keeps_def)
  then have "handshake_check hello (handshake_read c) (env 1 c) =
      (Wire_kWorkerFenced, ''worker boot identity was fenced by session loss or an administrative fence'')"
    using hello(2) by (simp add: handshake_check_def)
  then have "HandleHandshake env i f c = (env 1 c, [SendFenceNotice (co_limits (env 1 c)) i (frame_boot f) (co_epoch c) Wire_kWorkerFenced
      DC_kWorkerBootFenced ''worker boot identity was fenced by session loss or an administrative fence''])"
    by (simp add: HandleHandshake_def hello Let_def handshake_read_def DiagnosticForWireStatus_def)
  then have eq: "c' = env 1 c" "out = [SendFenceNotice (co_limits (env 1 c)) i (frame_boot f) (co_epoch c) Wire_kWorkerFenced
      DC_kWorkerBootFenced ''worker boot identity was fenced by session loss or an administrative fence'']" using assms(3) by simp_all
  have "frame_type (snd (SendFenceNotice l i b e st code detail)) \<noteq> Msg_kSnapshotResponse" for l b e st code detail
    by (simp add: SendFenceNotice_def make_frame_def)
  then show ?thesis unfolding eq by simp
next
  case False
  then have "c' = c" "\<forall>reply \<in> set out. frame_type (snd reply) \<noteq> Msg_kSnapshotResponse"
    using assms(3) by (auto simp: HandleHandshake_def SendError_def make_frame_def split: sum.splits if_splits)
  with False show ?thesis by blast
qed

text \<open>A publication of a fenced boot identity, whatever the other threads do meanwhile.\<close>

lemma fenced_publication:
  assumes "BootKey (frame_boot f) \<in> co_fenced c" "\<And>k d. coord_step\<^sup>*\<^sup>* d (env k d)"
    and "HandleWorkerPublication env outcome i f c = (c', out)"
  obtains c2 where "coord_step\<^sup>*\<^sup>* c c2" "c' = fst (record_publication f Wire_kWorkerFenced ''worker boot identity is fenced'' c2)"
    "co_accepted c' = co_accepted c2"
    "out = [SendFenceNotice (co_limits c) i (frame_boot f) (co_epoch c2) Wire_kWorkerFenced DC_kWorkerBootFenced ''worker boot identity is fenced'']"
proof -
  define c2 where "c2 = env 2 (env 1 c)"
  have s: "coord_step\<^sup>*\<^sup>* c (env 1 c)" "coord_step\<^sup>*\<^sup>* c c2" unfolding c2_def by (auto intro: assms(2) rtranclp_trans)
  have f: "BootKey (frame_boot f) \<in> co_fenced (env 1 c)" using steps_keep [OF s(1)] assms(1) by (auto simp: keeps_def)
  obtain c3 retain where r: "record_publication f Wire_kWorkerFenced ''worker boot identity is fenced'' c2 = (c3, retain)" by fastforce
  note rej = rejected_publication [OF _ r, simplified]
  have "c' = c3" "out = [SendFenceNotice (co_limits c3) i (frame_boot f) (co_epoch c3) Wire_kWorkerFenced DC_kWorkerBootFenced ''worker boot identity is fenced'']"
    using assms(3) unfolding HandleWorkerPublication_def Let_def fenced_validation [OF f] c2_def [symmetric] by (auto simp: r rej(1) DiagnosticForWireStatus_def)
  moreover have "co_limits c2 = co_limits c" using steps_keep [OF s(2)] by (simp add: keeps_def)
  ultimately show thesis using that [OF s(2)] r rej(2-4) by simp
qed


section \<open>Handlers are paths of the relation\<close>

lemma steps_then: "coord_step\<^sup>*\<^sup>* c d \<Longrightarrow> coord_step d e \<Longrightarrow> coord_step\<^sup>*\<^sup>* c e"
  by (rule rtranclp.rtrancl_into_rtrancl)

lemma handshake_steps:
  assumes "\<And>k d. coord_step\<^sup>*\<^sup>* d (env k d)"
  shows "coord_step\<^sup>*\<^sup>* c (fst (HandleHandshake env i f c))"
proof -
  have "coord_step\<^sup>*\<^sup>* c (env 1 c)" "coord_step\<^sup>*\<^sup>* c (env 2 (env 1 c))" using assms by (auto intro: rtranclp_trans)
  then show ?thesis
    unfolding HandleHandshake_def Let_def by (auto split: sum.split prod.split intro: steps_then [OF _ coord_step.register])
qed

lemma publication_steps:
  assumes "\<And>k d. coord_step\<^sup>*\<^sup>* d (env k d)"
  shows "coord_step\<^sup>*\<^sup>* c (fst (HandleWorkerPublication env outcome i f c))"
proof -
  have two: "coord_step\<^sup>*\<^sup>* c (env 2 (env 1 c))" using assms by (blast intro: rtranclp_trans)
  have "coord_step\<^sup>*\<^sup>* c d" "coord_step\<^sup>*\<^sup>* c (RetainAccepted outcome a b n (env 3 d))"
    if "record_publication f acceptance detail (env 2 (env 1 c)) = (d, retain)" for acceptance detail d retain a b n
  proof -
    show d: "coord_step\<^sup>*\<^sup>* c d" using steps_then [OF two coord_step.recorded, of f acceptance detail] that by simp
    show "coord_step\<^sup>*\<^sup>* c (RetainAccepted outcome a b n (env 3 d))"
      by (rule steps_then [OF rtranclp_trans [OF d assms] coord_step.retain])
  qed
  then show ?thesis unfolding HandleWorkerPublication_def Let_def by (auto split: prod.split option.split)
qed

lemma request_steps:
  assumes "\<And>k d. coord_step\<^sup>*\<^sup>* d (env k d)"
  shows "coord_step\<^sup>*\<^sup>* c (fst (serve_request env sent i f e q c))"
proof -
  obtain d relayed where d: "dispatch f q (env 1 c) = (d, relayed)" by fastforce
  then have "coord_step\<^sup>*\<^sup>* c d" using steps_then [OF assms [of c 1] coord_step.dispatched, of f q] by simp
  moreover have "coord_step\<^sup>*\<^sup>* d (relay_failed (RequestKey (rq_id q)) (env 2 d))" by (rule steps_then [OF assms coord_step.unsent])
  ultimately have x: "coord_step\<^sup>*\<^sup>* c (if relayed \<noteq> None \<and> \<not> sent then relay_failed (RequestKey (rq_id q)) (env 2 d) else d)" (is "coord_step\<^sup>*\<^sup>* c ?x")
    by (auto intro: rtranclp_trans)
  from steps_then [OF rtranclp_trans [OF x assms [of ?x 3]] coord_step.collected, of "RequestKey (rq_id q)"]
  show ?thesis unfolding serve_request_def Let_def d by (auto split: prod.split)
qed

lemma client_steps:
  assumes "\<And>k d. coord_step\<^sup>*\<^sup>* d (env k d)"
  shows "coord_step\<^sup>*\<^sup>* c (fst (HandleClientFrame env sent i f c))"
  unfolding HandleClientFrame_def Let_def
  by (auto split: WireMessage.split sum.split prod.split intro: assms request_steps)

lemma session_frame_steps:
  assumes "\<And>k d. coord_step\<^sup>*\<^sup>* d (env k d)"
  shows "coord_step\<^sup>*\<^sup>* c (fst (fst (session_frame env sent outcome i f c)))"
proof -
  have "coord_step\<^sup>*\<^sup>* c d" if "HandleHandshake env i f c = (d, out)" for d out using handshake_steps [of env, OF assms] that by (metis fst_conv)
  then show ?thesis
    unfolding session_frame_def Let_def
    by (auto split: prod.split intro: assms publication_steps client_steps)
qed

section \<open>Errors about a nil request\<close>

lemma nil_request_unreadable:
  assumes "perr_request p = nil_id 16"
  shows "DecodePlanErrorPayload (enc_plan_error p) \<noteq> Inr x"
proof
  assume "DecodePlanErrorPayload (enc_plan_error p) = Inr x"
  then have x: "wire_plan_error x" "enc_plan_error p = enc_plan_error x"
    unfolding DecodePlanErrorPayload_def by (simp_all add: error_payload.message)
  then have "id_bytes (perr_request x) = replicate 16 0"
    using assms unfolding enc_plan_error_def wire_plan_error_def id_ok_def by (simp add: nil_id_def append_eq_append_conv)
  moreover have "FixedId_IsValid (perr_request x)" using x(1) by (simp add: wire_plan_error_def)
  ultimately show False by (simp add: FixedId_IsValid_def list_ex_iff)
qed

section \<open>A coordinator with one worker\<close>

definition demo_boot :: "u8 \<Rightarrow> WorkerBootId" where "demo_boot k = FixedId (replicate 8 k)"

definition demo_hello :: HelloPayload where
  "demo_hello = \<lparr>hello_publisher = FixedId (replicate 8 9), hello_boot = demo_boot 1, hello_epoch = 1, hello_snapshot = FixedId (replicate 16 4),
     hello_generations = SnapshotGenerations_zero, hello_node_count = 0, hello_edge_count = 0\<rparr>"

definition demo_new :: Coordinator where
  "demo_new = Coordinator_new ResourceLimits_default None 1 [] (\<lambda>_. None)"

definition demo_registered :: Coordinator where
  "demo_registered = handshake_register 0 demo_hello \<lparr>hv_snapshot = FixedId (replicate 16 4), hv_generations = SnapshotGenerations_zero, hv_epoch = 1\<rparr>
     (accept_session demo_new)"

definition demo_frame :: WireFrame where
  "demo_frame = make_frame Msg_kFenceNotice 0 1 5 (demo_boot 1) (FixedId (replicate 16 2)) [10, 20, 30]"

definition demo_fenced :: Coordinator where
  "demo_fenced = fst (snd (FenceWorker (demo_boot 1) demo_registered))"

lemma demo_steps: "coord_step\<^sup>*\<^sup>* demo_new demo_registered" "coord_step\<^sup>*\<^sup>* demo_registered demo_fenced"
  unfolding demo_registered_def demo_fenced_def
  by (auto intro: coord_step.intros rtranclp.rtrancl_into_rtrancl [OF rtranclp.rtrancl_into_rtrancl [OF rtranclp.rtrancl_refl]])

lemma demo_fenced_boot: "BootKey (demo_boot 1) \<in> co_fenced demo_fenced"
  by (simp add: demo_fenced_def FenceWorker_def demo_registered_def handshake_register_def demo_hello_def Let_def alist_simps)

section \<open>Properties\<close>

text \<open>
  C17. Frames are delimited exactly on a socket, however the operating system cuts the stream into pieces: reading succeeds with
  a frame and leaves the rest if and only if the bytes the peer has sent begin with the encoding of that frame,
  the frame is well formed and its payload is within the ceiling.
\<close>

theorem ReadFrame_exact:
  assumes "byte_stream recv pending" "bound_ms \<noteq> 0"
  shows "(\<exists>s'. ReadFrame recv limit bound_ms s = (Inr f, s') \<and> pending s' = rest) \<longleftrightarrow>
     header_ok f \<and> length (frame_payload f) \<le> limit \<and> length (frame_payload f) < 2 ^ 32 \<and> pending s = EncodeFrame f @ rest"
  using ReadFrame_sound [OF assms] ReadFrame_complete [OF assms] by metis

theorem ReadFrame_exact_witness:
  "\<exists>s'. ReadFrame segment_recv 4096 1000 (map (\<lambda>b. [b]) (EncodeFrame demo_frame) @ [[1, 2], [3]]) = (Inr demo_frame, s') \<and>
     concat s' = [1, 2, 3]"
  by (rule iffD2 [OF ReadFrame_exact [OF segmented.byte_stream_axioms]])
    (simp_all add: demo_frame_def header_ok_def make_frame_def id_ok_def demo_boot_def)

text \<open>
  What one side sends, the other reads: when \<open>SendFrame\<close> reports success, for whatever share of the bytes the operating system took per
  call, a reader that is given the bytes sent, in whatever pieces, reads that frame and nothing else is left.
\<close>

theorem SendFrame_ReadFrame:
  assumes "byte_sink send sent" "byte_stream recv pending" "bound_ms \<noteq> 0"
    and "header_ok f" "length (frame_payload f) \<le> limit" "length (frame_payload f) < 2 ^ 32"
    and "sent s = []" "SendFrame send f s = (Inr (), s')" "pending r = sent s'"
  shows "\<exists>r'. ReadFrame recv limit bound_ms r = (Inr f, r') \<and> pending r' = []"
proof -
  from byte_sink.SendAll_sent [OF assms(1) assms(8) [unfolded SendFrame_def]] assms(7,9)
  have "pending r = EncodeFrame f @ []" by auto
  then show ?thesis using assms by (intro ReadFrame_complete)
qed

theorem SendFrame_ReadFrame_witness:
  "\<exists>r'. ReadFrame segment_recv 4096 1000 [EncodeFrame demo_frame] = (Inr demo_frame, r') \<and> concat r' = []"
proof -
  obtain r s' where s: "SendFrame (buffer_send 7) demo_frame [] = (r, s')" by fastforce
  have "r = Inr () \<and> s' = EncodeFrame demo_frame"
    using s buffer_send_all [of 7 "EncodeFrame demo_frame" "[]"] by (simp add: SendFrame_def)
  with s show ?thesis
    by (intro SendFrame_ReadFrame [OF buffered.byte_sink_axioms [of 7] segmented.byte_stream_axioms, where s = "[]" and s' = s'])
      (simp_all add: demo_frame_def header_ok_def make_frame_def id_ok_def demo_boot_def)
qed

text \<open>
  C16. Whatever sections the threads of the coordinator run, in any order and with any local values: a fenced boot identity stays
  fenced, the epoch never decreases, and the registry stays sound (one registration per boot identity, under its own
  key, marked as fenced only when the identity is fenced; one pending slot per request).
\<close>

theorem coordinator_invariant:
  assumes "coord_step\<^sup>*\<^sup>* (Coordinator_new limits snapshot initial_epoch path fs) c" "coord_step\<^sup>*\<^sup>* c c'"
  shows "registry_ok c' \<and> co_fenced c \<subseteq> co_fenced c' \<and> co_epoch c \<le> co_epoch c' \<and> initial_epoch \<le> co_epoch c"
proof -
  have "registry_ok (Coordinator_new limits snapshot initial_epoch path fs)" by (simp add: registry_ok_def Coordinator_new_def)
  from steps_registry [OF assms(1) this] have "registry_ok c" .
  from steps_registry [OF assms(2) this] show ?thesis
    using steps_keep [OF assms(2)] steps_keep [OF assms(1)] by (auto simp: keeps_def Coordinator_new_def)
qed

theorem coordinator_invariant_witness:
  "registry_ok demo_fenced \<and> co_fenced demo_registered \<subseteq> co_fenced demo_fenced \<and> 1 \<le> co_epoch demo_registered \<and>
   co_workers demo_registered \<noteq> []"
proof -
  have "co_workers demo_registered \<noteq> []" by (simp add: demo_registered_def handshake_register_def Let_def demo_new_def Coordinator_new_def accept_session_def)
  with coordinator_invariant [OF demo_steps(1) [unfolded demo_new_def] demo_steps(2)] show ?thesis by blast
qed

text \<open>
  C15. A fenced worker is never believed: take any state in which its boot identity is fenced, any further steps of the
  coordinator, and any interference of other threads during the handling.  A publication of that boot identity is not
  counted as accepted, its payload reaches no pending request, and the answer is a fence notice.  A handshake
  under that boot identity registers nothing (the coordinator is left as it was, or as the other threads left it), is never
  answered with the snapshot, and when its payload is readable and names the same identity the answer is a fence notice.
\<close>

theorem fenced_never_accepted:
  assumes "BootKey (frame_boot f) \<in> co_fenced c0" "coord_step\<^sup>*\<^sup>* c0 c" "\<And>k d. coord_step\<^sup>*\<^sup>* d (env k d)"
    and "HandleWorkerPublication env outcome i f c = (c', out)"
    and "HandleHandshake env i f c = (ch, outh)"
  shows "(\<exists>c2. coord_step\<^sup>*\<^sup>* c c2 \<and> co_accepted c' = co_accepted c2 \<and>
     (\<forall>k. map_of (co_pending c') k = map_of (co_pending c2) k \<or>
        map_option pend_payload (map_of (co_pending c') k) = map_option pend_payload (map_of (co_pending c2) k) \<and>
        map_option pend_status (map_of (co_pending c') k) = Some Wire_kWorkerFenced) \<and>
     out = [SendFenceNotice (co_limits c) i (frame_boot f) (co_epoch c2) Wire_kWorkerFenced DC_kWorkerBootFenced ''worker boot identity is fenced'']) \<and>
   (ch = c \<or> ch = env 1 c) \<and> (\<forall>reply \<in> set outh. frame_type (snd reply) \<noteq> Msg_kSnapshotResponse) \<and>
   (\<forall>hello. DecodeHelloPayload (frame_payload f) = Inr hello \<and> hello_boot hello = frame_boot f \<longrightarrow>
     outh = [SendFenceNotice (co_limits (env 1 c)) i (frame_boot f) (co_epoch c) Wire_kWorkerFenced DC_kWorkerBootFenced
       ''worker boot identity was fenced by session loss or an administrative fence''])"
proof -
  have fenced: "BootKey (frame_boot f) \<in> co_fenced c" using steps_keep [OF assms(2)] assms(1) by (auto simp: keeps_def)
  from fenced_publication [OF this assms(3,4)] obtain c2 where c2: "coord_step\<^sup>*\<^sup>* c c2"
    "c' = fst (record_publication f Wire_kWorkerFenced ''worker boot identity is fenced'' c2)" "co_accepted c' = co_accepted c2"
    "out = [SendFenceNotice (co_limits c) i (frame_boot f) (co_epoch c2) Wire_kWorkerFenced DC_kWorkerBootFenced ''worker boot identity is fenced'']" .
  obtain retain where "record_publication f Wire_kWorkerFenced ''worker boot identity is fenced'' c2 = (c', retain)" using c2(2) by (metis prod.collapse)
  from rejected_publication(5) [OF _ this] c2(1,3,4) have "\<exists>c2. coord_step\<^sup>*\<^sup>* c c2 \<and> co_accepted c' = co_accepted c2 \<and>
     (\<forall>k. map_of (co_pending c') k = map_of (co_pending c2) k \<or>
        map_option pend_payload (map_of (co_pending c') k) = map_option pend_payload (map_of (co_pending c2) k) \<and>
        map_option pend_status (map_of (co_pending c') k) = Some Wire_kWorkerFenced) \<and>
     out = [SendFenceNotice (co_limits c) i (frame_boot f) (co_epoch c2) Wire_kWorkerFenced DC_kWorkerBootFenced ''worker boot identity is fenced'']"
    by (intro exI [of _ c2]) fastforce
  with fenced_handshake [OF fenced assms(3,5)] show ?thesis by simp
qed

definition demo_comeback :: WireFrame where
  "demo_comeback = make_frame Msg_kHello 0 1 0 (demo_boot 1) (nil_id 16) (enc_hello demo_hello)"

lemma demo_comeback_hello: "DecodeHelloPayload (frame_payload demo_comeback) = Inr demo_hello" "frame_boot demo_comeback = demo_boot 1"
  unfolding DecodeHelloPayload_def hello_payload.message
  by (simp_all add: demo_comeback_def make_frame_def wire_hello_def demo_hello_def demo_boot_def id_ok_def FixedId_IsValid_def list_ex_iff)

theorem fenced_never_accepted_witness:
  "\<exists>c' e. HandleWorkerPublication (\<lambda>_ d. d) CannotOpen 0 demo_comeback demo_fenced =
     (c', [SendFenceNotice (co_limits demo_fenced) 0 (demo_boot 1) e Wire_kWorkerFenced DC_kWorkerBootFenced ''worker boot identity is fenced'']) \<and>
   HandleHandshake (\<lambda>_ d. d) 0 demo_comeback demo_fenced =
     (demo_fenced, [SendFenceNotice (co_limits demo_fenced) 0 (demo_boot 1) (co_epoch demo_fenced) Wire_kWorkerFenced DC_kWorkerBootFenced
        ''worker boot identity was fenced by session loss or an administrative fence''])"
proof -
  obtain c' out where h: "HandleWorkerPublication (\<lambda>_ d. d) CannotOpen 0 demo_comeback demo_fenced = (c', out)" by fastforce
  obtain ch outh where r: "HandleHandshake (\<lambda>_ d. d) 0 demo_comeback demo_fenced = (ch, outh)" by fastforce
  have "hello_boot demo_hello = demo_boot 1" by (simp add: demo_hello_def)
  with fenced_never_accepted [OF _ rtranclp.rtrancl_refl rtranclp.rtrancl_refl h r] demo_fenced_boot h r demo_comeback_hello show ?thesis by auto
qed

text \<open>
  C26. The slot of a request does not protect the worker it was given to: a publication that is not accepted, here of a
  fenced boot identity, for a request that waits for another worker ends that request with the publication's failure.
\<close>

theorem foreign_publication_fails_request:
  assumes "BootKey (frame_boot f) \<in> co_fenced c" "map_of (co_pending c) (RequestKey (frame_request f)) = Some slot"
    "\<not> pend_ready slot" "pend_worker_key slot \<noteq> BootKey (frame_boot f)"
  shows "\<exists>c' out. HandleWorkerPublication (\<lambda>_ d. d) outcome i f c = (c', out) \<and>
    map_of (co_pending c') (RequestKey (frame_request f)) =
      Some (slot\<lparr>pend_ready := True, pend_status := Wire_kWorkerFenced, pend_detail := ''worker boot identity is fenced''\<rparr>) \<and>
    fst (snd (collect (RequestKey (frame_request f)) c')) = Wire_kWorkerFenced"
proof -
  obtain c' retain where r: "record_publication f Wire_kWorkerFenced ''worker boot identity is fenced'' c = (c', retain)" by fastforce
  have p: "map_of (co_pending c') (RequestKey (frame_request f)) =
      Some (slot\<lparr>pend_status := Wire_kWorkerFenced, pend_detail := ''worker boot identity is fenced'', pend_ready := True\<rparr>)"
    using r assms(2,3) unfolding record_publication_def Let_def
    by (auto simp: alist_simps simp del: update.simps map_of_eq_Some_iff Some_eq_map_of_iff split: option.splits if_splits)
  moreover have "fst (HandleWorkerPublication (\<lambda>_ d. d) outcome i f c) = c'"
    unfolding HandleWorkerPublication_def Let_def fenced_validation [OF assms(1)] using r rejected_publication(1) [OF _ r] by simp
  ultimately show ?thesis by (intro exI [of _ c'] exI [of _ "snd (HandleWorkerPublication (\<lambda>_ d. d) outcome i f c)"]) (auto simp: collect_def Let_def)
qed

definition demo_waiting :: Coordinator where
  "demo_waiting = demo_fenced\<lparr>co_pending := [(RequestKey (FixedId (replicate 16 3)), Pending_new\<lparr>pend_worker_key := BootKey (demo_boot 2)\<rparr>)]\<rparr>"

theorem foreign_publication_fails_request_witness:
  "\<exists>c' out. HandleWorkerPublication (\<lambda>_ d. d) CannotOpen 0 (make_frame Msg_kPlanResult 0 1 0 (demo_boot 1) (FixedId (replicate 16 3)) []) demo_waiting = (c', out) \<and>
     fst (snd (collect (RequestKey (FixedId (replicate 16 3))) c')) = Wire_kWorkerFenced"
proof -
  let ?f = "make_frame Msg_kPlanResult 0 1 0 (demo_boot 1) (FixedId (replicate 16 3)) []"
  let ?slot = "Pending_new\<lparr>pend_worker_key := BootKey (demo_boot 2)\<rparr>"
  have h: "BootKey (frame_boot ?f) \<in> co_fenced demo_waiting" "map_of (co_pending demo_waiting) (RequestKey (frame_request ?f)) = Some ?slot"
    "\<not> pend_ready ?slot" "pend_worker_key ?slot \<noteq> BootKey (frame_boot ?f)"
    using demo_fenced_boot by (simp_all add: demo_waiting_def make_frame_def Pending_new_def BootKey_def FixedId_ToString_inj demo_boot_def)
  have "frame_request ?f = FixedId (replicate 16 3)" by (simp add: make_frame_def)
  with foreign_publication_fails_request [OF h, of CannotOpen 0] show ?thesis by auto
qed



end
