(* ===== verification/Explain.thy ===== *)
theory Explain
  imports Planner
begin

text \<open>
  Deterministic rendering (\<open>include/pathplanner/explain.hpp\<close>, \<open>src/explain.cpp\<close>): the text of evidence, candidates,
  rejections, results, plans, reports, statistics and snapshots.
\<close>

definition newline :: string where "newline = [CHR 0x0A]"

definition flag_text :: "bool \<Rightarrow> string" where
  "flag_text b = (if b then ''true'' else ''false'')"

definition size_text :: "nat \<Rightarrow> string" where
  "size_text n = StrongUInt_ToString (of_nat n :: u64)"

definition Quote :: "string \<Rightarrow> string" where
  "Quote value = [CHR 0x22] @ value @ [CHR 0x22]"

definition AppendCost :: "string \<Rightarrow> PathCost \<Rightarrow> string \<Rightarrow> string" where
  "AppendCost prefix cost out = out @ prefix @
     '' total='' @ StrongUInt_ToString (cost_total cost) @
     '' hops='' @ StrongUInt_ToString (cost_hops cost) @
     '' hops_cost='' @ StrongUInt_ToString (cost_hops_cost cost) @
     '' static_cost='' @ StrongUInt_ToString (cost_static cost) @
     '' degraded_penalty='' @ StrongUInt_ToString (cost_degraded cost) @
     '' locality_penalty='' @ StrongUInt_ToString (cost_locality cost) @
     '' degraded_hops='' @ StrongUInt_ToString (cost_degraded_hops cost) @
     '' locality_breaches='' @ StrongUInt_ToString (cost_locality_breaches cost) @ newline"

definition RenderEvidence :: "EvidenceVector \<Rightarrow> string" where
  "RenderEvidence e = (let g = ev_generations e in
     ''evidence snapshot='' @ FixedId_ToString (ev_snapshot e) @ newline @
     ''evidence source='' @ EnumName kEvidenceSourceNames (EvidenceSource_value (ev_source e)) @ newline @
     ''evidence publish_sequence='' @ StrongUInt_ToString (ev_publish_sequence e) @ newline @
     ''evidence topology_generation='' @ StrongUInt_ToString (gen_topology g) @ newline @
     ''evidence link_state_generation='' @ StrongUInt_ToString (gen_link_state g) @ newline @
     ''evidence port_generation='' @ StrongUInt_ToString (gen_ports g) @ newline @
     ''evidence capability_generation='' @ StrongUInt_ToString (gen_capabilities g) @ newline @
     ''evidence failure_domain_generation='' @ StrongUInt_ToString (gen_failure_domains g) @ newline @
     ''evidence fabric_epoch='' @ StrongUInt_ToString (gen_epoch g) @ newline @
     ''evidence policy_generation='' @ StrongUInt_ToString (gen_policy g) @ newline @
     ''evidence constraint_generation='' @ StrongUInt_ToString (gen_constraints g) @ newline)"

definition render_hop :: "nat \<Rightarrow> PathHop \<Rightarrow> string" where
  "render_hop index h =
     ''candidate hop '' @ size_text index @ '' link='' @ FixedId_ToString (hop_link h) @
     '' from='' @ FixedId_ToString (hop_from h) @ '' to='' @ FixedId_ToString (hop_to h) @
     '' from_port='' @ FixedId_ToString (hop_from_port h) @ '' to_port='' @ FixedId_ToString (hop_to_port h) @
     '' layer='' @ EnumName kPathLayerNames (PathLayer_value (hop_layer h)) @
     '' relationship='' @ EnumName kRelationshipTypeNames (RelationshipType_value (hop_relationship h)) @
     '' structural_generation='' @ StrongUInt_ToString (hop_structural_generation h) @
     '' static_cost='' @ StrongUInt_ToString (hop_static_cost h) @
     '' link_state='' @ EnumName kLinkStateNames (LinkState_value (hop_link_state h)) @
     '' degraded='' @ flag_text (hop_degraded h) @ newline"

definition RenderCandidate :: "Candidate \<Rightarrow> bool \<Rightarrow> string" where
  "RenderCandidate c verbose =
     (let out = ''candidate rank='' @ StrongUInt_ToString (cand_rank c) @ '' id='' @ FixedId_ToString (cand_id c) @
            '' status='' @ (if CarriesCandidates Status_kPlanned then ''CANDIDATE'' else ''CANDIDATE'') @
            '' currentness='' @ EnumName kCurrentnessNames (Currentness_value (cand_currentness c)) @
            '' authority='' @ EnumName kAuthorityValidationNames (AuthorityValidation_value (cand_authority c)) @ newline;
          out = AppendCost ''candidate cost'' (cand_cost c) out @
            ''candidate path '' @ CandidatePath_Render (cand_path c) @ newline @
            ''candidate planning_generation='' @ StrongUInt_ToString (prov_planning_generation (cand_provenance c)) @
            '' constraint_set='' @ FixedId_ToString (prov_constraint_set (cand_provenance c)) @
            '' constraint_generation='' @ StrongUInt_ToString (prov_constraint_generation (cand_provenance c)) @
            '' policy_generation='' @ StrongUInt_ToString (prov_policy_generation (cand_provenance c)) @ newline @
            concat (map (\<lambda>code. ''candidate note '' @ EnumName kDiagnosticCodeNames (DiagnosticCode_value code) @ newline) (cand_notes c))
      in if verbose then out @ concat (map (\<lambda>(i, h). render_hop i h) (enumerate 0 (path_hops (cand_path c)))) else out)"

definition render_rejection :: "RejectionExplanation \<Rightarrow> string" where
  "render_rejection x =
     ''rejection code='' @ EnumName kDiagnosticCodeNames (DiagnosticCode_value (rej_code x)) @
     '' occurrences='' @ StrongUInt_ToString (rej_occurrences x) @
     (if SubjectKey_ToString (rej_subject x) \<noteq> [] then '' subject='' @ SubjectKey_ToString (rej_subject x) else []) @
     '' detail='' @ Quote (rej_detail x) @ newline"

definition RenderRejections :: "RejectionExplanation list \<Rightarrow> string" where
  "RenderRejections rejections = concat (map render_rejection rejections)"

definition render_entry :: "string \<Rightarrow> ExplanationEntry \<Rightarrow> string" where
  "render_entry keyword x =
     keyword @ '' code='' @ EnumName kDiagnosticCodeNames (DiagnosticCode_value (expl_code x)) @ '' detail='' @ Quote (expl_detail x) @ newline"

definition RenderResult :: "PlanningResult \<Rightarrow> bool \<Rightarrow> string" where
  "RenderResult r verbose =
     ''status '' @ EnumName kPlanStatusNames (PlanStatus_value (res_status r)) @ newline @
     ''plan_id '' @ FixedId_ToString (res_plan_id r) @ newline @
     ''semantic_digest '' @ Sha256Digest_ToHex (res_semantic_digest r) @ newline @
     ''planning_generation '' @ StrongUInt_ToString (res_planning_generation r) @ newline @
     ''requested_candidates '' @ size_text (res_requested_candidates r) @ newline @
     ''returned_candidates '' @ size_text (length (res_candidates r)) @ newline @
     ''truncated '' @ flag_text (res_truncated r) @ newline @
     ''diagnostic_mode '' @ flag_text (res_diagnostic_mode r) @ newline @
     (case res_primary_failure r of None \<Rightarrow> []
      | Some code \<Rightarrow> ''primary_failure '' @ EnumName kDiagnosticCodeNames (DiagnosticCode_value code) @ newline) @
     RenderEvidence (res_evidence r) @
     concat (map (\<lambda>c. RenderCandidate c verbose) (res_candidates r)) @
     RenderRejections (res_rejections r) @
     concat (map (render_entry ''explanation'') (res_explanations r))"

definition RenderPlan :: "PathPlan \<Rightarrow> bool \<Rightarrow> string" where
  "RenderPlan p verbose =
     ''plan_id '' @ FixedId_ToString (plan_id p) @ newline @
     ''request '' @ FixedId_ToString (plan_request p) @ newline @
     ''status '' @ EnumName kPlanStatusNames (PlanStatus_value (plan_status p)) @ newline @
     ''planning_generation '' @ StrongUInt_ToString (plan_generation p) @ newline @
     ''publish_sequence '' @ StrongUInt_ToString (plan_publish_sequence p) @ newline @
     ''semantic_digest '' @ Sha256Digest_ToHex (plan_semantic_digest p) @ newline @
     ''source_node '' @ FixedId_ToString (plan_source p) @ newline @
     ''destination_node '' @ FixedId_ToString (plan_destination p) @ newline @
     ''layer '' @ EnumName kPathLayerNames (PathLayer_value (plan_layer p)) @ newline @
     ''diagnostic_mode '' @ flag_text (plan_diagnostic_mode p) @ newline @
     ''currentness_proven '' @ flag_text (plan_currentness_proven p) @ newline @
     ''candidates '' @ size_text (length (plan_candidates p)) @ newline @
     RenderEvidence (plan_evidence p) @
     concat (map (\<lambda>c. RenderCandidate c verbose) (plan_candidates p))"

definition RenderCurrentness :: "PlanCurrentnessReport \<Rightarrow> string" where
  "RenderCurrentness report =
     ''currentness '' @ EnumName kCurrentnessNames (Currentness_value (rep_currentness report)) @ newline @
     concat (map (render_entry ''change'') (rep_changes report))"

definition RenderReplanReport :: "ReplanReport \<Rightarrow> string" where
  "RenderReplanReport report =
     ''replan_outcome '' @ EnumName kReplanOutcomeNames (ReplanOutcome_value (replan_outcome report)) @ newline @
     ''replan_same_semantic_plan '' @ flag_text (replan_same_semantic_plan report) @ newline @
     ''replan_prior_digest '' @ Sha256Digest_ToHex (replan_prior_digest report) @ newline @
     ''replan_current_digest '' @ Sha256Digest_ToHex (replan_current_digest report) @ newline @
     concat (map (render_entry ''replan_change'') (replan_changes report))"

definition RenderStatistics :: "PlannerStatistics \<Rightarrow> string" where
  "RenderStatistics stats =
     ''stat plans_computed='' @ StrongUInt_ToString (plans_computed stats) @ newline @
     ''stat plans_published='' @ StrongUInt_ToString (plans_published stats) @ newline @
     ''stat plans_publish_rejected_stale='' @ StrongUInt_ToString (plans_publish_rejected_stale stats) @ newline @
     ''stat candidates_returned='' @ StrongUInt_ToString (candidates_returned stats) @ newline @
     ''stat states_expanded='' @ StrongUInt_ToString (states_expanded stats) @ newline @
     ''stat queue_pushes='' @ StrongUInt_ToString (queue_pushes stats) @ newline @
     ''stat spur_searches='' @ StrongUInt_ToString (spur_searches stats) @ newline @
     ''stat snapshots_published='' @ StrongUInt_ToString (snapshots_published stats) @ newline @
     ''stat epochs_advanced='' @ StrongUInt_ToString (epochs_advanced stats) @ newline @
     ''stat invalidations_applied='' @ StrongUInt_ToString (invalidations_applied stats) @ newline @
     ''stat plans_retired='' @ StrongUInt_ToString (plans_retired stats) @ newline"

definition RenderSnapshotSummary :: "FabricSnapshot \<Rightarrow> string" where
  "RenderSnapshotSummary s =
     ''snapshot id='' @ FixedId_ToString (Snapshot_Id s) @ newline @
     ''snapshot digest='' @ Sha256Digest_ToHex (snap_digest s) @ newline @
     ''snapshot source='' @ EnumName kEvidenceSourceNames (EvidenceSource_value (snap_source s)) @ newline @
     ''snapshot nodes='' @ size_text (length (snap_nodes s)) @ newline @
     ''snapshot edges='' @ size_text (length (snap_edges s)) @ newline @
     ''snapshot endpoints='' @ size_text (length (snap_endpoints s)) @ newline @
     ''snapshot link_states='' @ size_text (length (LinkStateView_Records (snap_link_states s))) @ newline @
     ''snapshot port_states='' @ size_text (length (PortStateView_Records (snap_port_states s))) @ newline @
     ''snapshot capabilities='' @ size_text (length (CapabilityView_Bindings (snap_capabilities s))) @ newline @
     ''snapshot failure_domains='' @ size_text (length (fdv_domains (snap_failure_domains s))) @ newline @
     ''snapshot membership_complete='' @ flag_text (fdv_membership_complete (snap_failure_domains s)) @ newline @
     RenderEvidence (Snapshot_Evidence s)"

definition RenderRankExplanation :: "Candidate \<Rightarrow> Candidate \<Rightarrow> string" where
  "RenderRankExplanation l r =
     (let out = ''compare lhs='' @ FixedId_ToString (cand_id l) @ '' rhs='' @ FixedId_ToString (cand_id r) @ newline;
          out = AppendCost ''compare lhs_cost'' (cand_cost l) out;
          out = AppendCost ''compare rhs_cost'' (cand_cost r) out
      in out @ ''compare ranks_before='' @ (if RanksBefore l r then ''lhs'' else ''rhs'') @ newline)"

section \<open>Lines\<close>

text \<open>A text without a line break, and a text of complete lines.\<close>

definition one_line :: "string \<Rightarrow> bool" where
  "one_line t \<longleftrightarrow> CHR 0x0A \<notin> set t"

lemma line_prefix: "one_line a \<Longrightarrow> one_line b \<Longrightarrow> a @ newline @ xs = b @ newline @ ys \<longleftrightarrow> a = b \<and> xs = ys"
proof (induction a arbitrary: b)
  case Nil
  then show ?case by (cases b) (auto simp: one_line_def newline_def)
next
  case (Cons c a)
  then show ?case by (cases b) (auto simp: one_line_def newline_def)
qed

lemma one_line_append [simp]: "one_line (a @ b) \<longleftrightarrow> one_line a \<and> one_line b"
  by (auto simp: one_line_def)


lemma one_line_literals [simp]: "one_line []" "one_line (c # t) \<longleftrightarrow> c \<noteq> CHR 0x0A \<and> one_line t"
  by (auto simp: one_line_def)

lemma one_line_decimal: "one_line (decimal_digits n)"
proof (induction n rule: decimal_digits.induct)
  case (1 n)
  have "char_of (48 + n mod 10) \<noteq> CHR 0x0A"
  proof
    assume "char_of (48 + n mod 10) = CHR 0x0A"
    then have "of_char (char_of (48 + n mod 10) :: char) = (10 :: nat)" by simp
    moreover have "(48 + n mod 10) mod 256 = 48 + n mod 10" using mod_less_divisor [of 10 n] by simp
    ultimately show False by simp
  qed
  with 1 show ?case by (subst decimal_digits.simps) simp
qed

lemma one_line_number [simp]: "one_line (StrongUInt_ToString v)"
  using one_line_decimal [of "unat v"] by (simp add: StrongUInt_ToString_def) (simp add: one_line_def)

lemma one_line_hex: "one_line (HexEncode bs)"
proof -
  have "kDigits ! k \<noteq> CHR 0x0A" if "k < 16" for k
    using that by (auto simp: kDigits_def less_Suc_eq numeral_eq_Suc)
  then show ?thesis by (induction bs) (simp_all add: HexEncode_def nibbles)
qed

lemma one_line_id [simp]: "one_line (FixedId_ToString x)"
  by (simp add: FixedId_ToString_def one_line_hex)

lemma digit_char_inj: "char_of (48 + m mod 10) = (char_of (48 + n mod 10) :: char) \<longleftrightarrow> m mod 10 = (n :: nat) mod 10"
proof
  assume "char_of (48 + m mod 10) = (char_of (48 + n mod 10) :: char)"
  then have "of_char (char_of (48 + m mod 10) :: char) = (of_char (char_of (48 + n mod 10) :: char) :: nat)" by (rule arg_cong)
  moreover have "(48 + k mod 10) mod 256 = 48 + k mod (10 :: nat)" for k using mod_less_divisor [of 10 k] by simp
  ultimately show "m mod 10 = n mod 10" by simp
qed simp

lemma decimal_digits_inj: "decimal_digits m = decimal_digits n \<Longrightarrow> m = n"
proof (induction m arbitrary: n rule: decimal_digits.induct)
  case (1 m)
  show ?case
  proof (cases "m = 0 \<or> n = 0")
    case True
    with "1.prems" show ?thesis by (simp add: decimal_digits.simps [of m] decimal_digits.simps [of n] split: if_splits)
  next
    case False
    then have "m mod 10 = n mod 10" "decimal_digits (m div 10) = decimal_digits (n div 10)"
      using "1.prems" by (simp_all add: decimal_digits.simps [of m] decimal_digits.simps [of n] digit_char_inj)
    with "1.IH" False show ?thesis by (metis div_mult_mod_eq gr0I)
  qed
qed

lemma StrongUInt_ToString_inj: "StrongUInt_ToString v = StrongUInt_ToString w \<longleftrightarrow> v = w"
proof -
  have z: "rev (decimal_digits n) \<noteq> ''0''" if "0 < n" for n
  proof
    assume "rev (decimal_digits n) = ''0''"
    moreover have "CHR ''0'' = (char_of (48 + 0 mod 10 :: nat) :: char)" by code_simp
    ultimately have d: "char_of (48 + n mod 10) = (char_of (48 + 0 mod 10 :: nat) :: char)" "decimal_digits (n div 10) = decimal_digits 0"
      using that by (simp_all add: decimal_digits.simps [of n] decimal_digits.simps [of 0] rev_swap)
    then have "n mod 10 = 0" "n div 10 = 0" using digit_char_inj [of n 0] decimal_digits_inj [OF d(2)] by simp_all
    with that show False by presburger
  qed
  have p: "0 < unat x" if "x \<noteq> 0" for x :: "'a word" using that by (simp add: unat_gt_0)
  show ?thesis
    using z [OF p [of v]] z [OF p [of w]] decimal_digits_inj [of "unat v" "unat w"]
    by (cases "v = 0"; cases "w = 0") (auto simp: StrongUInt_ToString_def dest: sym intro: unsigned_word_eqI)
qed

lemma one_line_source [simp]: "one_line (EnumName kEvidenceSourceNames (EvidenceSource_value x))"
  by (cases x) (simp_all add: kEvidenceSourceNames_def EnumName_def)

lemma source_inj: "EnumName kEvidenceSourceNames (EvidenceSource_value x) = EnumName kEvidenceSourceNames (EvidenceSource_value y) \<longleftrightarrow> x = y"
  by (cases x; cases y; simp add: kEvidenceSourceNames_def EnumName_def)

section \<open>Properties\<close>

text \<open>
  The rendered text loses nothing: two evidence vectors, or two sets of statistics, render to the same lines exactly when they
  are equal.
\<close>

theorem Render_injective:
  "(RenderEvidence a = RenderEvidence b \<longleftrightarrow> a = b) \<and> (RenderStatistics s = RenderStatistics t \<longleftrightarrow> s = t)"
proof
  show "RenderEvidence a = RenderEvidence b \<longleftrightarrow> a = b"
    by (cases a; cases b) (auto simp: RenderEvidence_def Let_def line_prefix StrongUInt_ToString_inj source_inj FixedId_ToString_inj
        intro!: SnapshotGenerations.equality)
  show "RenderStatistics s = RenderStatistics t \<longleftrightarrow> s = t"
    by (cases s; cases t) (simp add: RenderStatistics_def line_prefix StrongUInt_ToString_inj)
qed

end
