(* ===== verification/Sources.thy ===== *)
theory Sources
  imports Graph
begin

unbundle bit_operations_syntax

text \<open>
  Evidence sources (\<open>include/pathplanner/sources.hpp\<close>, \<open>src/sources.cpp\<close>): the seeded generator, the topology families, the synthetic fabric built
  from them, and the view of the host's own adapters.  Counts and node indices of 32 bits are natural numbers obtained from words;
  where a sum of them can leave its type the reduction is written out.  The adapters the platform reports are an argument.
\<close>

section \<open>Families and options\<close>

datatype SyntheticFamily =
    Fam_kChain
  | Fam_kRing
  | Fam_kDiamond
  | Fam_kLeafSpine
  | Fam_kFatTree
  | Fam_kMesh
  | Fam_kDisconnected
  | Fam_kOneWay
  | Fam_kParallelEqualCost
  | Fam_kTieStorm
  | Fam_kHighDegreeHub
  | Fam_kDeepChain
  | Fam_kSparseLarge
  | Fam_kDenseBounded
  | Fam_other nat

fun SyntheticFamily_value :: "SyntheticFamily \<Rightarrow> nat" where
  "SyntheticFamily_value Fam_kChain = 1"
| "SyntheticFamily_value Fam_kRing = 2"
| "SyntheticFamily_value Fam_kDiamond = 3"
| "SyntheticFamily_value Fam_kLeafSpine = 4"
| "SyntheticFamily_value Fam_kFatTree = 5"
| "SyntheticFamily_value Fam_kMesh = 6"
| "SyntheticFamily_value Fam_kDisconnected = 7"
| "SyntheticFamily_value Fam_kOneWay = 8"
| "SyntheticFamily_value Fam_kParallelEqualCost = 9"
| "SyntheticFamily_value Fam_kTieStorm = 10"
| "SyntheticFamily_value Fam_kHighDegreeHub = 11"
| "SyntheticFamily_value Fam_kDeepChain = 12"
| "SyntheticFamily_value Fam_kSparseLarge = 13"
| "SyntheticFamily_value Fam_kDenseBounded = 14"
| "SyntheticFamily_value (Fam_other v) = v"

definition SyntheticFamily_cast :: "nat \<Rightarrow> SyntheticFamily option" where
  "SyntheticFamily_cast v =
     (case map_of [(1, Fam_kChain), (2, Fam_kRing), (3, Fam_kDiamond), (4, Fam_kLeafSpine), (5, Fam_kFatTree), (6, Fam_kMesh),
        (7, Fam_kDisconnected), (8, Fam_kOneWay), (9, Fam_kParallelEqualCost), (10, Fam_kTieStorm), (11, Fam_kHighDegreeHub),
        (12, Fam_kDeepChain), (13, Fam_kSparseLarge), (14, Fam_kDenseBounded)] v of
        None \<Rightarrow> Some (Fam_other v) | Some f \<Rightarrow> Some f)"

definition kSyntheticFamilyNames :: "EnumEntry list" where
  "kSyntheticFamilyNames =
     [(''CHAIN'', 1),
      (''RING'', 2),
      (''DIAMOND'', 3),
      (''LEAF_SPINE'', 4),
      (''FAT_TREE'', 5),
      (''MESH'', 6),
      (''DISCONNECTED'', 7),
      (''ONE_WAY'', 8),
      (''PARALLEL_EQUAL_COST'', 9),
      (''TIE_STORM'', 10),
      (''HIGH_DEGREE_HUB'', 11),
      (''DEEP_CHAIN'', 12),
      (''SPARSE_LARGE'', 13),
      (''DENSE_BOUNDED'', 14)]"

abbreviation named_family :: "SyntheticFamily \<Rightarrow> bool" where
  "named_family f \<equiv> (case f of Fam_other v \<Rightarrow> False | _ \<Rightarrow> True)"

interpretation SyntheticFamily_enum: enum_table SyntheticFamily_value SyntheticFamily_cast kSyntheticFamilyNames "\<lambda>f. named_family f"
proof
  fix x :: SyntheticFamily
  assume x: "named_family x"
  show "SyntheticFamily_cast (SyntheticFamily_value x) = Some x" using x by (cases x) (simp_all add: SyntheticFamily_cast_def)
  show "SyntheticFamily_value x \<in> snd ` set kSyntheticFamilyNames" using x by (cases x) (simp_all add: kSyntheticFamilyNames_def)
next
  show "list_all (\<lambda>(n, v). n \<noteq> '''' \<and> (case SyntheticFamily_cast v of None \<Rightarrow> False | Some x \<Rightarrow> named_family x \<and> SyntheticFamily_value x = v))
     kSyntheticFamilyNames" by (simp add: kSyntheticFamilyNames_def SyntheticFamily_cast_def)
qed (simp_all add: kSyntheticFamilyNames_def)

record SyntheticOptions =
  so_family :: SyntheticFamily
  so_seed :: u64
  so_nodes :: u32
  so_extra_edges :: u32
  so_layers :: u32
  so_layer :: PathLayer
  so_static_cost_base :: u32
  so_static_cost_spread :: u32
  so_percent_down :: u32
  so_percent_degraded :: u32
  so_percent_unknown :: u32
  so_percent_port_disabled :: u32
  so_percent_without_link_state_record :: u32
  so_capability_bindings :: u32
  so_failure_domains :: u32
  so_membership_complete :: bool
  so_limits :: ResourceLimits

definition SyntheticOptions_default :: SyntheticOptions where
  "SyntheticOptions_default = \<lparr>so_family = Fam_kLeafSpine, so_seed = 1, so_nodes = 16, so_extra_edges = 0, so_layers = 4,
     so_layer = Layer_kPhysical, so_static_cost_base = 1, so_static_cost_spread = 1, so_percent_down = 0, so_percent_degraded = 0,
     so_percent_unknown = 0, so_percent_port_disabled = 0, so_percent_without_link_state_record = 0, so_capability_bindings = 1,
     so_failure_domains = 2, so_membership_complete = True, so_limits = ResourceLimits_default\<rparr>"

section \<open>The seeded generator\<close>

text \<open>\<open>SeededRandom\<close> is its 64-bit state.  A draw is a value with the state after it.\<close>

definition kGamma :: u64 where "kGamma = 0x9E3779B97F4A7C15"

definition mix64 :: "u64 \<Rightarrow> u64" where
  "mix64 value =
     (let value = (value XOR drop_bit 30 value) * 0xBF58476D1CE4E5B9;
          value = (value XOR drop_bit 27 value) * 0x94D049BB133111EB
      in value XOR drop_bit 31 value)"

definition Next :: "u64 \<Rightarrow> u64 \<times> u64" where
  "Next state = (let state = state + kGamma in (mix64 state, state))"

definition accept_below :: "u32 \<Rightarrow> u64" where
  "accept_below bound = (let range_size = ucast bound; highest = 0xFFFFFFFFFFFFFFFF in highest - highest mod range_size)"

text \<open>The inverse of \<open>kGamma\<close>: how far a state is from 0, which \<open>mix64\<close> maps to 0, a value that is always accepted.\<close>

definition gamma_inverse :: u64 where "gamma_inverse = 0xF1DE83E19937733D"

definition draws_left :: "u64 \<Rightarrow> nat" where
  "draws_left state = unat (- (state + kGamma) * gamma_inverse)"

lemma gamma_unit: "gamma_inverse * kGamma = 1"
  by (simp add: gamma_inverse_def kGamma_def)

lemma mix64_zero: "mix64 0 = 0"
  by (simp add: mix64_def)

lemma accept_below_pos:
  assumes "\<not> bound \<le> 1"
  shows "0 < accept_below bound"
proof -
  have "unat bound < 2 ^ 64" using unsigned_less [of bound, where 'a = nat] by simp
  then have b: "unat (ucast bound :: u64) = unat bound" by (simp add: unsigned_ucast_eq take_bit_nat_eq_self)
  have "unat (ucast bound :: u64) < 2 ^ 32" unfolding b using unsigned_less [of bound, where 'a = nat] by simp
  moreover have "0 < unat (ucast bound :: u64)" unfolding b using assms by (auto simp: unat_gt_0)
  ultimately have "unat ((0xFFFFFFFFFFFFFFFF :: u64) mod ucast bound) < 2 ^ 32"
    unfolding unat_mod by (meson less_trans mod_less_divisor)
  then have "(0xFFFFFFFFFFFFFFFF :: u64) mod ucast bound \<noteq> 0xFFFFFFFFFFFFFFFF" by auto
  then show ?thesis by (simp add: accept_below_def Let_def word_gt_0)
qed

lemma draws_left_step:
  assumes "state + kGamma \<noteq> 0"
  shows "draws_left (state + kGamma) < draws_left state"
proof -
  let ?x = "- (state + kGamma) * gamma_inverse"
  have "?x * kGamma = - (state + kGamma)" using gamma_unit by (simp add: mult.assoc)
  then have x: "?x \<noteq> 0" using assms by (metis mult_zero_left neg_equal_0_iff_equal)
  have "- (state + kGamma + kGamma) * gamma_inverse = ?x - kGamma * gamma_inverse" by (simp add: algebra_simps)
  then have "- (state + kGamma + kGamma) * gamma_inverse = ?x - 1" using gamma_unit by (simp add: mult.commute)
  moreover have "unat (?x - 1) < unat ?x" using x by (metis measure_unat)
  ultimately show ?thesis unfolding draws_left_def by simp
qed

function Below :: "u32 \<Rightarrow> u64 \<Rightarrow> u32 \<times> u64" where
  "Below bound state =
     (if bound \<le> 1 then (0, state)
      else case Next state of (value, state) \<Rightarrow>
        if value < accept_below bound then (ucast (value mod ucast bound), state) else Below bound state)"
  by pat_completeness auto

termination Below
proof (relation "measure (\<lambda>(bound, state). draws_left state)")
  fix bound :: u32 and state v s
  assume b: "\<not> bound \<le> 1" and n: "(v, s) = Next state" and rejected: "\<not> v < accept_below bound"
  from n have s: "s = state + kGamma" "v = mix64 s" by (simp_all add: Next_def Let_def)
  have "s \<noteq> 0" using rejected accept_below_pos [OF b] mix64_zero s(2) by auto
  then show "((bound, s), bound, state) \<in> measure (\<lambda>(bound, state). draws_left state)" using draws_left_step s(1) by simp
qed simp

declare Below.simps [simp del]

definition Percent :: "u32 \<Rightarrow> u64 \<Rightarrow> bool \<times> u64" where
  "Percent percent state = (case Below 100 state of (v, state) \<Rightarrow> (v < percent, state))"

section \<open>Labels\<close>

definition to_string :: "nat \<Rightarrow> string" where
  "to_string n = StrongUInt_ToString (of_nat n :: u64)"

definition FabricLabel :: "string \<Rightarrow> nat \<Rightarrow> u64 \<Rightarrow> nat \<Rightarrow> nat \<Rightarrow> string" where
  "FabricLabel kind family seed first second =
     kind @ '':'' @ to_string family @ '':'' @ StrongUInt_ToString seed @ '':'' @ to_string first @ '':'' @ to_string second"

definition IdFromLabel :: "nat \<Rightarrow> string \<Rightarrow> 'tag FixedId" where
  "IdFromLabel width label = FixedId_FromDigest width (Sha256_Hash (map of_char label))"

definition BuilderFailure :: "FabricSnapshotBuilder \<Rightarrow> build_error" where
  "BuilderFailure b = (if b_diagnostics b = [] then DC_kGraphTooLarge else last (b_diagnostics b),
     ''synthetic fabric record was rejected by the snapshot builder'')"

definition NormalizeNodeCount :: "nat \<Rightarrow> nat" where
  "NormalizeNodeCount requested = (if requested < 2 then 2 else requested)"

fun RelationshipForLayer :: "PathLayer \<Rightarrow> RelationshipType option" where
  "RelationshipForLayer Layer_kPhysical = Some Rel_kDirectLink"
| "RelationshipForLayer Layer_kLogical = Some Rel_kLogicalAdjacency"
| "RelationshipForLayer Layer_kTunnel = Some Rel_kTunnelEncapsulation"
| "RelationshipForLayer Layer_kOverlay = Some Rel_kTunnelEncapsulation"
| "RelationshipForLayer (Layer_other v) = None"

section \<open>Topologies\<close>

type_synonym EdgeDraft = "nat \<times> nat"

record Topology =
  top_node_count :: nat
  top_source :: nat
  top_destination :: nat
  top_uniform_cost :: bool
  top_edges :: "EdgeDraft list"
  top_degree :: "nat list"

definition PushEdge :: "ResourceLimits \<Rightarrow> EdgeDraft \<Rightarrow> Topology \<Rightarrow> build_error + Topology" where
  "PushEdge limits draft t =
     (case draft of (from_node, to_node) \<Rightarrow>
        if length (top_edges t) \<ge> max_edges limits then Inl (DC_kTooManyEdges, ''synthetic fabric exceeds max_edges'')
        else if top_degree t ! from_node + 1 > max_ports_per_node limits \<or> top_degree t ! to_node + 1 > max_ports_per_node limits
        then Inl (DC_kGraphTooLarge, ''synthetic fabric exceeds max_ports_per_node'')
        else let degree = (top_degree t)[from_node := top_degree t ! from_node + 1]
          in Inr (t\<lparr>top_edges := top_edges t @ [draft], top_degree := degree[to_node := degree ! to_node + 1]\<rparr>))"

text \<open>A loop whose body pushes edges is the list of the edges it pushes; the first failure ends it.\<close>

fun push_edges :: "ResourceLimits \<Rightarrow> EdgeDraft list \<Rightarrow> Topology \<Rightarrow> build_error + Topology" where
  "push_edges limits [] t = Inr t"
| "push_edges limits (draft # drafts) t =
     (case PushEdge limits draft t of Inl failure \<Rightarrow> Inl failure | Inr t \<Rightarrow> push_edges limits drafts t)"

definition BuildChainEdges :: "nat \<Rightarrow> EdgeDraft list" where
  "BuildChainEdges n = map (\<lambda>i. (i, i + 1)) [0..<n - 1]"

definition ring_edges :: "nat \<Rightarrow> EdgeDraft list" where
  "ring_edges n = map (\<lambda>i. (i, if i + 1 = n then 0 else i + 1)) [0..<n]"

text \<open>One route of a diamond: from node 0 over the nodes from \<open>first\<close> up to \<open>bound\<close> to the last node.\<close>

fun route_edges :: "nat \<Rightarrow> nat list \<Rightarrow> nat \<Rightarrow> EdgeDraft list" where
  "route_edges previous [] final = [(previous, final)]"
| "route_edges previous (node # nodes) final = (previous, node) # route_edges node nodes final"

definition diamond_edges :: "nat \<Rightarrow> EdgeDraft list" where
  "diamond_edges n =
     (let middle = n - 2; split = 1 + (middle + 1) div 2
      in route_edges 0 [1..<split] (n - 1) @ route_edges 0 [split..<n - 1] (n - 1))"

text \<open>Every node of one tier with every node of the next.\<close>

definition bipartite :: "nat \<Rightarrow> nat \<Rightarrow> nat \<Rightarrow> nat \<Rightarrow> EdgeDraft list" where
  "bipartite base_a a base_b b = concat (map (\<lambda>i. map (\<lambda>j. (base_a + i, base_b + j)) [0..<b]) [0..<a])"

definition spine_count :: "nat \<Rightarrow> nat \<Rightarrow> nat" where
  "spine_count layers n = (let tiers = min (max layers 2) 8 in max 1 (n div tiers))"

definition fat_tree_edges :: "nat \<Rightarrow> nat \<Rightarrow> EdgeDraft list" where
  "fat_tree_edges layers n =
     (let core_tier = layers \<ge> 4;
          leaves = max 1 (n div 4);
          aggregates = max 1 (n div 4);
          spines = (if core_tier then max 1 (n div 4) else n - leaves - aggregates);
          cores = (if core_tier then n - leaves - aggregates - spines else 0);
          aggregate_base = leaves;
          spine_base = leaves + aggregates;
          core_base = spine_base + spines
      in bipartite 0 leaves aggregate_base aggregates @ bipartite aggregate_base aggregates spine_base spines @
         bipartite spine_base spines core_base cores)"

text \<open>The chords of a circulant; the sum of two 32-bit indices is reduced before the modulus is taken.\<close>

definition circulant_edges :: "nat \<Rightarrow> nat \<Rightarrow> EdgeDraft list" where
  "circulant_edges requested n =
     (let max_distance = (n - 1) div 2; distance = min requested max_distance
      in concat (map (\<lambda>i. map (\<lambda>step. (i, (i + step) mod 2 ^ 32 mod n)) [1..<distance + 1]) [0..<n]))"

text \<open>Contiguous chains; the second value is where the second one starts.\<close>

fun component_edges :: "nat list \<Rightarrow> nat \<Rightarrow> EdgeDraft list" where
  "component_edges [] start = []"
| "component_edges (s # ss) start = map (\<lambda>i. (start + i, start + i + 1)) [0..<s - 1] @ component_edges ss (start + s)"

definition component_sizes :: "nat \<Rightarrow> nat list" where
  "component_sizes n =
     (let components = min n (max 2 (n div 4)); base = n div components; remainder = n mod components
      in map (\<lambda>c. base + (if c < remainder then 1 else 0)) [0..<components])"

definition parallel_edges :: "nat \<Rightarrow> EdgeDraft list" where
  "parallel_edges n =
     (let parallel = (if n = 2 then 2 else min 8 (max 2 (n div 4)))
      in replicate parallel (0, 1) @ map (\<lambda>i. (i, i + 1)) [1..<n - 1])"

definition tie_storm_edges :: "nat \<Rightarrow> EdgeDraft list" where
  "tie_storm_edges n = (if n = 2 then [(0, 1)] else concat (map (\<lambda>middle. [(0, middle), (middle, n - 1)]) [1..<n - 1]))"

definition hub_edges :: "nat \<Rightarrow> EdgeDraft list" where
  "hub_edges n = map (\<lambda>spoke. (0, spoke)) [1..<n]"

definition tree_edges :: "nat \<Rightarrow> EdgeDraft list" where
  "tree_edges n = map (\<lambda>i. ((i - 1) div 2, i)) [1..<n]"

text \<open>The seeded shuffle: from the last index down to 1.\<close>

fun shuffle :: "nat \<Rightarrow> nat list \<Rightarrow> u64 \<Rightarrow> nat list" where
  "shuffle 0 order state = order"
| "shuffle (Suc i) order state =
     (case Below (of_nat (Suc i + 1)) state of (j, state) \<Rightarrow>
        shuffle i (order[Suc i := order ! unat j, unat j := order ! Suc i]) state)"

definition chain_order :: "u64 \<Rightarrow> nat \<Rightarrow> nat list" where
  "chain_order seed n = shuffle (n - 1) [0..<n] (seed XOR 0x5DEECE66D)"

definition order_edges :: "nat list \<Rightarrow> EdgeDraft list" where
  "order_edges order = zip order (tl order)"

text \<open>The endpoints, whether costs are uniform, and the edges of each family on \<open>n\<close> nodes.\<close>

definition family_plan :: "SyntheticOptions \<Rightarrow> nat \<Rightarrow> (nat \<times> nat \<times> bool \<times> EdgeDraft list) option" where
  "family_plan opts n =
     (case so_family opts of
        Fam_kChain \<Rightarrow> Some (0, n - 1, False, BuildChainEdges n)
      | Fam_kRing \<Rightarrow> Some (0, n div 2, False, ring_edges n)
      | Fam_kDiamond \<Rightarrow> Some (0, n - 1, False, if n < 4 then BuildChainEdges n else diamond_edges n)
      | Fam_kLeafSpine \<Rightarrow>
          (let spines = spine_count (unat (so_layers opts)) n; leaves = n - spines in Some (0, leaves, False, bipartite 0 leaves leaves spines))
      | Fam_kFatTree \<Rightarrow> Some (0, n - 1, False, if n < 4 then BuildChainEdges n else fat_tree_edges (unat (so_layers opts)) n)
      | Fam_kMesh \<Rightarrow> Some (0, n div 2, False, if n < 4 then BuildChainEdges n else circulant_edges (2 + unat (so_extra_edges opts)) n)
      | Fam_kDisconnected \<Rightarrow> Some (0, hd (component_sizes n), False, component_edges (component_sizes n) 0)
      | Fam_kOneWay \<Rightarrow> Some (0, n - 1, False, BuildChainEdges n)
      | Fam_kParallelEqualCost \<Rightarrow> Some (0, n - 1, True, parallel_edges n)
      | Fam_kTieStorm \<Rightarrow> Some (0, n - 1, True, tie_storm_edges n)
      | Fam_kHighDegreeHub \<Rightarrow> Some (0, n - 1, False, hub_edges n)
      | Fam_kDeepChain \<Rightarrow>
          (let order = chain_order (so_seed opts) n in Some (hd order, last order, False, order_edges order))
      | Fam_kSparseLarge \<Rightarrow> Some (0, n - 1, False, tree_edges n)
      | Fam_kDenseBounded \<Rightarrow> Some (0, n div 2, False, if n < 4 then BuildChainEdges n else circulant_edges (8 + unat (so_extra_edges opts)) n)
      | Fam_other v \<Rightarrow> None)"

definition BuildTopology :: "SyntheticOptions \<Rightarrow> build_error + Topology" where
  "BuildTopology opts =
     (let limits = so_limits opts; n = NormalizeNodeCount (unat (so_nodes opts)) in
      if n > max_nodes limits
      then Inl (DC_kGraphTooLarge, ''synthetic fabric requires '' @ to_string n @ '' nodes but max_nodes is '' @ to_string (max_nodes limits))
      else case family_plan opts n of
        None \<Rightarrow> Inl (DC_kUnsupportedRequest, ''unsupported synthetic family '' @ to_string (SyntheticFamily_value (so_family opts)))
      | Some (source, destination, uniform_cost, edges) \<Rightarrow>
          push_edges limits edges \<lparr>top_node_count = n, top_source = source, top_destination = destination, top_uniform_cost = uniform_cost,
            top_edges = [], top_degree = replicate n 0\<rparr>)"

section \<open>Synthetic fabrics\<close>

definition NextStaticCost :: "SyntheticOptions \<Rightarrow> bool \<Rightarrow> u64 \<Rightarrow> u32 \<times> u64" where
  "NextStaticCost opts uniform state =
     (if so_static_cost_spread opts = 0 \<or> uniform then (so_static_cost_base opts, state)
      else case Below (so_static_cost_spread opts) state of (delta, state) \<Rightarrow>
        let base = so_static_cost_base opts; room = 0xFFFFFFFF - base
        in (if delta > room then 0xFFFFFFFF else base + delta, state))"

definition PickLinkState :: "bool \<Rightarrow> bool \<Rightarrow> bool \<Rightarrow> LinkState" where
  "PickLinkState down degraded unknown =
     (if down then Link_kDown else if degraded then Link_kDegraded else if unknown then Link_kUnknown else Link_kUp)"

definition all_generations_one :: SnapshotGenerations where
  "all_generations_one = \<lparr>gen_topology = 1, gen_link_state = 1, gen_ports = 1, gen_capabilities = 1, gen_failure_domains = 1,
     gen_epoch = 1, gen_policy = 1, gen_constraints = 1\<rparr>"

text \<open>The identifiers of a fabric, from its family and seed.\<close>

record fabric_names =
  fn_family :: nat
  fn_seed :: u64

definition label_id :: "nat \<Rightarrow> string \<Rightarrow> fabric_names \<Rightarrow> nat \<Rightarrow> nat \<Rightarrow> 'tag FixedId" where
  "label_id width kind names first second = IdFromLabel width (FabricLabel kind (fn_family names) (fn_seed names) first second)"

definition node_label :: "fabric_names \<Rightarrow> nat \<Rightarrow> NodeId" where "node_label names i = label_id 16 ''n'' names i 0"
definition port_label :: "fabric_names \<Rightarrow> nat \<Rightarrow> nat \<Rightarrow> PortId" where "port_label names i p = label_id 16 ''p'' names i p"
definition switch_label :: "fabric_names \<Rightarrow> nat \<Rightarrow> SwitchId" where "switch_label names i = label_id 16 ''s'' names i 0"
definition link_label :: "fabric_names \<Rightarrow> nat \<Rightarrow> LinkId" where "link_label names k = label_id 16 ''l'' names k 0"
definition capability_label :: "fabric_names \<Rightarrow> nat \<Rightarrow> CapabilityId" where "capability_label names k = label_id 8 ''c'' names k 0"
definition domain_label :: "fabric_names \<Rightarrow> nat \<Rightarrow> FailureDomainId" where "domain_label names k = label_id 8 ''f'' names k 0"
definition class_label :: "fabric_names \<Rightarrow> nat \<Rightarrow> FailureDomainClass" where "class_label names k = label_id 8 ''fc'' names k 0"
definition endpoint_label :: "fabric_names \<Rightarrow> nat \<Rightarrow> EndpointId" where "endpoint_label names i = label_id 16 ''e'' names i 0"

definition node_port_ids :: "fabric_names \<Rightarrow> Topology \<Rightarrow> PortId list list" where
  "node_port_ids names t = map (\<lambda>i. map (port_label names i) [0..<top_degree t ! i + 1]) [0..<top_node_count t]"

definition synthetic_node :: "fabric_names \<Rightarrow> PortId list list \<Rightarrow> nat \<Rightarrow> NodeRecord" where
  "synthetic_node names port_table i = \<lparr>node_id = node_label names i, node_attachment = switch_label names i, node_entity_generation = 1,
     node_structural_generation = 1, node_ports = port_table ! i\<rparr>"

definition synthetic_endpoint :: "fabric_names \<Rightarrow> PortId list list \<Rightarrow> nat \<Rightarrow> EndpointRecord" where
  "synthetic_endpoint names port_table i = \<lparr>ep_id = endpoint_label names i, ep_class = Class_kEndpoint, ep_node = node_label names i,
     ep_port = last (port_table ! i), ep_entity_generation = 1\<rparr>"

text \<open>A loop of builder calls: the first that is refused ends it.\<close>

fun add_all :: "('r \<Rightarrow> FabricSnapshotBuilder \<Rightarrow> bool \<times> FabricSnapshotBuilder) \<Rightarrow> 'r list \<Rightarrow> FabricSnapshotBuilder \<Rightarrow>
    FabricSnapshotBuilder + FabricSnapshotBuilder" where
  "add_all add [] b = Inr b"
| "add_all add (r # rs) b = (case add r b of (ok, b) \<Rightarrow> if ok then add_all add rs b else Inl b)"

text \<open>The rolls for one link: its cost, then whether its record is absent, and its state.\<close>

definition link_rolls :: "SyntheticOptions \<Rightarrow> bool \<Rightarrow> u64 \<Rightarrow> (u32 \<times> bool \<times> LinkState) \<times> u64" where
  "link_rolls opts uniform state =
     (let (static_cost, state) = NextStaticCost opts uniform state;
          (absent, state) = Percent (so_percent_without_link_state_record opts) state;
          (down, state) = Percent (so_percent_down opts) state;
          (degraded, state) = Percent (so_percent_degraded opts) state;
          (unknown, state) = Percent (so_percent_unknown opts) state
      in ((static_cost, absent, PickLinkState down degraded unknown), state))"

record link_loop =
  ll_random :: u64
  ll_used_ports :: "nat list"
  ll_link_ids :: "LinkId list"
  ll_link_states :: "LinkStateRecord list"
  ll_builder :: FabricSnapshotBuilder

definition synthetic_edge :: "SyntheticOptions \<Rightarrow> fabric_names \<Rightarrow> RelationshipType \<Rightarrow> PortId list list \<Rightarrow> nat list \<Rightarrow> nat \<Rightarrow> EdgeDraft \<Rightarrow> u32 \<Rightarrow> EdgeRecord" where
  "synthetic_edge opts names relationship port_table used_ports index draft static_cost =
     (case draft of (from_node, to_node) \<Rightarrow>
        let used = used_ports[from_node := used_ports ! from_node + 1] in
        \<lparr>edge_id = link_label names index, edge_from = node_label names from_node, edge_to = node_label names to_node,
         edge_from_port = port_table ! from_node ! (used_ports ! from_node), edge_to_port = port_table ! to_node ! (used ! to_node),
         edge_layer = so_layer opts, edge_relationship = relationship, edge_static_cost = static_cost, edge_entity_generation = 1,
         edge_structural_generation = 1\<rparr>)"

definition add_link :: "SyntheticOptions \<Rightarrow> fabric_names \<Rightarrow> RelationshipType \<Rightarrow> bool \<Rightarrow> PortId list list \<Rightarrow> EdgeDraft \<Rightarrow> link_loop \<Rightarrow> build_error + link_loop" where
  "add_link opts names relationship uniform port_table draft l =
     (case link_rolls opts uniform (ll_random l) of ((static_cost, absent, link_state), state) \<Rightarrow>
      let (from_node, to_node) = draft;
          edge = synthetic_edge opts names relationship port_table (ll_used_ports l) (length (ll_link_ids l)) draft static_cost;
          used = (ll_used_ports l)[from_node := ll_used_ports l ! from_node + 1];
          used = used[to_node := used ! to_node + 1];
          link_states = (if absent then ll_link_states l else ll_link_states l @ [\<lparr>ls_link = edge_id edge, ls_state = link_state\<rparr>])
      in case AddEdge edge (ll_builder l) of (ok, b) \<Rightarrow>
        if \<not> ok then Inl (BuilderFailure b)
        else Inr \<lparr>ll_random = state, ll_used_ports = used, ll_link_ids = ll_link_ids l @ [edge_id edge], ll_link_states = link_states,
          ll_builder = b\<rparr>)"

fun add_links :: "SyntheticOptions \<Rightarrow> fabric_names \<Rightarrow> RelationshipType \<Rightarrow> bool \<Rightarrow> PortId list list \<Rightarrow> EdgeDraft list \<Rightarrow> link_loop \<Rightarrow> build_error + link_loop" where
  "add_links opts names relationship uniform port_table [] l = Inr l"
| "add_links opts names relationship uniform port_table (draft # drafts) l =
     (case add_link opts names relationship uniform port_table draft l of
        Inl e \<Rightarrow> Inl e
      | Inr l \<Rightarrow> add_links opts names relationship uniform port_table drafts l)"

fun port_state_rolls :: "SyntheticOptions \<Rightarrow> PortId list \<Rightarrow> u64 \<Rightarrow> PortStateRecord list" where
  "port_state_rolls opts [] state = []"
| "port_state_rolls opts (port # ports) state =
     (let (disabled, state) = Percent (so_percent_port_disabled opts) state;
          (unknown, state) = Percent (so_percent_unknown opts) state
      in \<lparr>ps_port = port, ps_state = (if disabled then Port_kAdminDisabled else if unknown then Port_kUnknown else Port_kUp)\<rparr> #
         port_state_rolls opts ports state)"

definition synthetic_bindings :: "fabric_names \<Rightarrow> nat \<Rightarrow> nat \<Rightarrow> LinkId list \<Rightarrow> CapabilityBinding list" where
  "synthetic_bindings names capability_count n link_ids =
     concat (map (\<lambda>subject. map (\<lambda>capability. \<lparr>cap_subject = subject, cap_capability = capability_label names capability,
         cap_value = of_nat (1 + capability)\<rparr>) [0..<capability_count])
       (map (\<lambda>i. ForNode (node_label names i)) [0..<n] @ map ForLink link_ids))"

definition domain_members :: "nat \<Rightarrow> nat \<Rightarrow> EdgeDraft list \<Rightarrow> nat \<Rightarrow> nat" where
  "domain_members domain_count n edges d =
     length (filter (\<lambda>i. i mod domain_count = d) [0..<n]) + length (filter (\<lambda>draft. fst draft mod domain_count = d) edges)"

definition synthetic_domain :: "fabric_names \<Rightarrow> nat \<Rightarrow> nat \<Rightarrow> EdgeDraft list \<Rightarrow> LinkId list \<Rightarrow> nat \<Rightarrow> FailureDomainRecord" where
  "synthetic_domain names domain_count n edges link_ids d = \<lparr>fd_domain = domain_label names d, fd_risk_class = class_label names (d mod 2),
     fd_members = map (\<lambda>i. ForNode (node_label names i)) (filter (\<lambda>i. i mod domain_count = d) [0..<n]) @
       map (\<lambda>index. ForLink (link_ids ! index)) (filter (\<lambda>index. fst (edges ! index) mod domain_count = d) [0..<length edges])\<rparr>"

record SyntheticFabric =
  sf_snapshot :: FabricSnapshot
  sf_source :: EndpointId
  sf_destination :: EndpointId
  sf_source_node :: NodeId
  sf_destination_node :: NodeId
  sf_source_generation :: Generation
  sf_destination_generation :: Generation
  sf_endpoint_class :: EndpointClass

text \<open>The ceilings derived from the counts, in the order they are tested; the product is one of 64 bits.\<close>

definition view_ceilings :: "ResourceLimits \<Rightarrow> nat \<Rightarrow> nat \<Rightarrow> nat \<Rightarrow> nat \<Rightarrow> build_error option" where
  "view_ceilings limits n edge_count capability_count domain_count =
     (if n > max_endpoints limits then Some (DC_kGraphTooLarge, ''synthetic fabric exceeds max_endpoints'')
      else if 2 * edge_count + n > max_port_state_records limits then Some (DC_kGraphTooLarge, ''synthetic fabric exceeds max_port_state_records'')
      else if (n + edge_count) * capability_count mod 2 ^ 64 > max_capability_bindings limits
      then Some (DC_kGraphTooLarge, ''synthetic fabric exceeds max_capability_bindings'')
      else if domain_count > max_failure_domains limits then Some (DC_kGraphTooLarge, ''synthetic fabric exceeds max_failure_domains'')
      else None)"

text \<open>The builder after all records, in the order the records are made.\<close>

definition materialise :: "SyntheticOptions \<Rightarrow> RelationshipType \<Rightarrow> Topology \<Rightarrow> build_error + FabricSnapshotBuilder" where
  "materialise opts relationship t =
     (let limits = so_limits opts; n = top_node_count t; edges = top_edges t;
          capability_count = max 1 (unat (so_capability_bindings opts)); domain_count = max 1 (unat (so_failure_domains opts));
          names = \<lparr>fn_family = SyntheticFamily_value (so_family opts), fn_seed = so_seed opts\<rparr>;
          port_table = node_port_ids names t;
          b = (FabricSnapshotBuilder_new limits)\<lparr>b_generations := all_generations_one, b_source := Src_kSynthetic\<rparr>
      in case add_all AddNode (map (synthetic_node names port_table) [0..<n]) b of
        Inl b \<Rightarrow> Inl (BuilderFailure b)
      | Inr b \<Rightarrow>
        (case add_links opts names relationship (top_uniform_cost t) port_table edges
            \<lparr>ll_random = so_seed opts, ll_used_ports = replicate n 0, ll_link_ids = [], ll_link_states = [], ll_builder = b\<rparr> of
           Inl e \<Rightarrow> Inl e
         | Inr l \<Rightarrow>
           if length (ll_link_states l) > max_link_state_records limits
           then Inl (DC_kGraphTooLarge, ''synthetic fabric exceeds max_link_state_records'')
           else let b = (ll_builder l)\<lparr>b_link_states := ll_link_states l,
                  b_port_states := port_state_rolls opts (concat port_table) (ll_random l),
                  b_capabilities := synthetic_bindings names capability_count n (ll_link_ids l)\<rparr>
             in if list_ex (\<lambda>d. domain_members domain_count n edges d > max_members_per_failure_domain limits) [0..<domain_count]
                then Inl (DC_kGraphTooLarge, ''synthetic fabric exceeds max_members_per_failure_domain'')
                else let b = b\<lparr>b_failure_domains := map (synthetic_domain names domain_count n edges (ll_link_ids l)) [0..<domain_count],
                       b_membership_complete := so_membership_complete opts\<rparr>
                  in case add_all AddEndpoint (map (synthetic_endpoint names port_table) [0..<n]) b of
                    Inl b \<Rightarrow> Inl (BuilderFailure b)
                  | Inr b \<Rightarrow> Inr b))"

definition report_fabric :: "SyntheticOptions \<Rightarrow> Topology \<Rightarrow> FabricSnapshot \<Rightarrow> build_error + SyntheticFabric" where
  "report_fabric opts t snapshot =
     (let names = \<lparr>fn_family = SyntheticFamily_value (so_family opts), fn_seed = so_seed opts\<rparr> in
      case (FindEndpoint snapshot (endpoint_label names (top_source t)), FindEndpoint snapshot (endpoint_label names (top_destination t))) of
        (Some source, Some destination) \<Rightarrow>
          Inr \<lparr>sf_snapshot = snapshot, sf_source = ep_id source, sf_destination = ep_id destination, sf_source_node = ep_node source,
            sf_destination_node = ep_node destination, sf_source_generation = ep_entity_generation source,
            sf_destination_generation = ep_entity_generation destination, sf_endpoint_class = ep_class source\<rparr>
      | _ \<Rightarrow> Inl (DC_kUnknownEndpoint, ''generated snapshot is missing its reported endpoints''))"

text \<open>\<open>report\<close> says whether the caller passed a fabric to fill in.\<close>

definition BuildSyntheticFabric :: "SyntheticOptions \<Rightarrow> bool \<Rightarrow> build_error + FabricSnapshot \<times> SyntheticFabric option" where
  "BuildSyntheticFabric opts report =
     (case ValidateLimits (so_limits opts) of
        Some limit_error \<Rightarrow> Inl (limit_error, ''resource limits are incoherent'')
      | None \<Rightarrow>
        case RelationshipForLayer (so_layer opts) of
          None \<Rightarrow> Inl (DC_kUnsupportedLayer, ''unsupported path layer '' @ to_string (PathLayer_value (so_layer opts)))
        | Some relationship \<Rightarrow>
          (case BuildTopology opts of
             Inl failure \<Rightarrow> Inl failure
           | Inr t \<Rightarrow>
             (case view_ceilings (so_limits opts) (top_node_count t) (length (top_edges t)) (max 1 (unat (so_capability_bindings opts)))
                  (max 1 (unat (so_failure_domains opts))) of
                Some e \<Rightarrow> Inl e
              | None \<Rightarrow>
                (case materialise opts relationship t of
                   Inl e \<Rightarrow> Inl e
                 | Inr b \<Rightarrow>
                   (case Build b of
                      Inl e \<Rightarrow> Inl e
                    | Inr snapshot \<Rightarrow>
                      if \<not> report then Inr (snapshot, None)
                      else case report_fabric opts t snapshot of
                        Inl e \<Rightarrow> Inl e
                      | Inr fabric \<Rightarrow> Inr (snapshot, Some fabric))))))"

definition GenerateSyntheticFabric :: "SyntheticOptions \<Rightarrow> build_error + FabricSnapshot" where
  "GenerateSyntheticFabric opts = map_sum id fst (BuildSyntheticFabric opts False)"

definition MakeSyntheticFabric :: "SyntheticOptions \<Rightarrow> string + SyntheticFabric" where
  "MakeSyntheticFabric opts =
     (case BuildSyntheticFabric opts True of
        Inl (code, detail) \<Rightarrow> Inl (if detail = [] then EnumName kDiagnosticCodeNames (DiagnosticCode_value code) else detail)
      | Inr (snapshot, fabric) \<Rightarrow> Inr (the fabric))"

section \<open>The local host\<close>

record LocalAdapter =
  la_name :: string
  la_description :: string
  la_mac :: string
  la_if_index :: u64
  la_up :: bool
  la_loopback :: bool
  la_layer :: PathLayer

definition PhysicalAddressHex :: "bytes \<Rightarrow> string" where
  "PhysicalAddressHex address = (if address = [] \<or> length address > 8 then [] else HexEncode address)"

text \<open>What the platform reports of an adapter: the names are in UTF-8 already.\<close>

record adapter_report =
  ar_name :: string
  ar_description :: string
  ar_address :: bytes
  ar_if_index :: u32
  ar_ipv6_if_index :: u32
  ar_up :: bool
  ar_software_loopback :: bool

definition adapter_of :: "adapter_report \<Rightarrow> LocalAdapter" where
  "adapter_of r = \<lparr>la_name = ar_name r, la_description = ar_description r, la_mac = PhysicalAddressHex (ar_address r),
     la_if_index = ucast (if ar_if_index r \<noteq> 0 then ar_if_index r else ar_ipv6_if_index r), la_up = ar_up r,
     la_loopback = ar_software_loopback r, la_layer = Layer_kPhysical\<rparr>"

text \<open>Strings are compared byte by byte, as identifiers are.\<close>

definition adapter_key :: "LocalAdapter \<Rightarrow> u64 \<times> unit FixedId \<times> unit FixedId" where
  "adapter_key a = (la_if_index a, FixedId (map of_char (la_name a)), FixedId (map of_char (la_mac a)))"

text \<open>The platform's answer is \<open>None\<close> where there is no adapter query, and \<open>Some None\<close> when it fails.\<close>

definition EnumerateLocalAdapters :: "adapter_report list option option \<Rightarrow> LocalAdapter list" where
  "EnumerateLocalAdapters platform =
     (case platform of Some (Some reports) \<Rightarrow> sort_key adapter_key (map adapter_of reports) | _ \<Rightarrow> [])"

definition LocalDiscoverySupported :: "adapter_report list option option \<Rightarrow> bool" where
  "LocalDiscoverySupported platform = (platform \<noteq> None)"

definition adapter_usable :: "nat \<Rightarrow> LocalAdapter \<Rightarrow> bool" where
  "adapter_usable tier a = (if tier = 0 then \<not> la_loopback a \<and> la_up a else if tier = 1 then \<not> la_loopback a else True)"

definition select_step :: "LocalAdapter list \<Rightarrow> nat \<Rightarrow> nat \<Rightarrow> nat list \<Rightarrow> nat list" where
  "select_step adapters tier index selected =
     (if length selected < 2 \<and> index \<notin> set selected \<and> adapter_usable tier (adapters ! index) then selected @ [index] else selected)"

definition SelectEndpointAdapters :: "LocalAdapter list \<Rightarrow> nat list" where
  "SelectEndpointAdapters adapters = fold (\<lambda>tier. fold (select_step adapters tier) [0..<length adapters]) [0..<3] []"

definition HostKey :: "LocalAdapter list \<Rightarrow> string" where
  "HostKey adapters = concat (map (\<lambda>a. la_name a @ ''|'' @ la_mac a @ ''|'' @ StrongUInt_ToString (la_if_index a) @ '';'') adapters)"

definition local_endpoint :: "string \<Rightarrow> NodeId \<Rightarrow> PortId list \<Rightarrow> nat \<Rightarrow> EndpointRecord" where
  "local_endpoint host_key node ports index = \<lparr>ep_id = IdFromLabel 16 (''localhost:endpoint:'' @ to_string index @ '':'' @ host_key),
     ep_class = Class_kNic, ep_node = node, ep_port = ports ! index, ep_entity_generation = 1\<rparr>"

definition MakeLocalHostFabric :: "adapter_report list option option \<Rightarrow> ResourceLimits \<Rightarrow> string + SyntheticFabric" where
  "MakeLocalHostFabric platform limits =
     (if \<not> LocalDiscoverySupported platform then Inl ''local host discovery is unsupported on this platform''
      else let adapters = EnumerateLocalAdapters platform in
      if adapters = [] then Inl ''no local host adapter was discovered''
      else case ValidateLimits limits of
        Some limit_error \<Rightarrow> Inl (''resource limits are incoherent: '' @ EnumName kDiagnosticCodeNames (DiagnosticCode_value limit_error))
      | None \<Rightarrow>
        if length adapters > max_ports_per_node limits
        then Inl ''the local host publishes more adapters than max_ports_per_node allows''
        else if length adapters > max_port_state_records limits
        then Inl ''the local host publishes more adapters than max_port_state_records allows''
        else let selected = SelectEndpointAdapters adapters in
        if selected = [] then Inl ''no local host adapter is usable as an endpoint''
        else let endpoint_count = min 2 (length selected) in
        if endpoint_count > max_endpoints limits then Inl ''the local host view needs more endpoints than max_endpoints allows''
        else let host_key = HostKey adapters;
            node = IdFromLabel 16 (''localhost:node:'' @ host_key);
            ports = map (\<lambda>index. IdFromLabel 16 (''localhost:port:'' @ to_string index @ '':'' @ host_key)) [0..<length adapters];
            b = (FabricSnapshotBuilder_new limits)\<lparr>b_generations := all_generations_one, b_source := Src_kReal\<rparr>
          in case AddNode \<lparr>node_id = node, node_attachment = FixedId (replicate 16 0), node_entity_generation = 1,
                 node_structural_generation = 1, node_ports = ports\<rparr> b of (ok, b) \<Rightarrow>
            if \<not> ok then Inl ''the local host node was rejected by the snapshot builder''
            else let b = b\<lparr>b_port_states := map (\<lambda>index. \<lparr>ps_port = ports ! index,
                     ps_state = (if la_up (adapters ! index) then Port_kUp else Port_kUnknown)\<rparr>) [0..<length adapters],
                   b_link_states := [], b_capabilities := [], b_failure_domains := [], b_membership_complete := False\<rparr>;
                   endpoints = map (local_endpoint host_key node ports) (take endpoint_count selected)
              in case add_all AddEndpoint endpoints b of
                Inl b \<Rightarrow> Inl ''a local host endpoint was rejected by the snapshot builder''
              | Inr b \<Rightarrow>
                (case Build b of
                   Inl (code, detail) \<Rightarrow> Inl (if detail = [] then ''the local host snapshot could not be built'' else detail)
                 | Inr snapshot \<Rightarrow>
                   Inr \<lparr>sf_snapshot = snapshot, sf_source = ep_id (hd endpoints), sf_destination = ep_id (last endpoints),
                     sf_source_node = node, sf_destination_node = node, sf_source_generation = 1, sf_destination_generation = 1,
                     sf_endpoint_class = Class_kNic\<rparr>))"

end
