(* ===== verification/SourcesCorrect.thy ===== *)
theory SourcesCorrect
  imports Sources
begin

unbundle bit_operations_syntax

text \<open>
  Correctness of the evidence sources: the generator's draws end and are in range, the topologies stay within their limits and connect their
  endpoints, the decisions of the percentages do not shift the random stream, and what the built fabrics contain.
\<close>

section \<open>The seeded generator\<close>

definition draw :: "u64 \<Rightarrow> nat \<Rightarrow> u64" where
  "draw state k = mix64 (state + of_nat (k + 1) * kGamma)"

lemma draw_Suc: "draw (state + kGamma) k = draw state (Suc k)"
  by (simp add: draw_def algebra_simps)

lemma Below_first:
  assumes "\<not> bound \<le> 1"
  shows "\<exists>k. (\<forall>j < k. accept_below bound \<le> draw state j) \<and> draw state k < accept_below bound \<and>
     Below bound state = (ucast (draw state k mod ucast bound), state + of_nat (k + 1) * kGamma)"
  using assms
proof (induction bound state rule: Below.induct)
  case (1 bound state)
  have n: "Next state = (draw state 0, state + kGamma)" by (simp add: Next_def draw_def Let_def)
  show ?case
  proof (cases "draw state 0 < accept_below bound")
    case True
    with 1 n show ?thesis by (intro exI [of _ 0]) (subst Below.simps, simp)
  next
    case False
    with 1 n obtain k where k: "\<forall>j < k. accept_below bound \<le> draw (state + kGamma) j" "draw (state + kGamma) k < accept_below bound"
      "Below bound (state + kGamma) = (ucast (draw (state + kGamma) k mod ucast bound), state + kGamma + of_nat (k + 1) * kGamma)" by auto
    have "accept_below bound \<le> draw state j" if "j < Suc k" for j
      using that k(1) False by (cases j) (auto simp: draw_Suc)
    moreover have "Below bound state = Below bound (state + kGamma)" using 1(2) False n by (subst Below.simps) simp
    moreover have "state + kGamma + of_nat (k + 1) * kGamma = state + of_nat (Suc k + 1) * kGamma" by (simp add: algebra_simps)
    ultimately show ?thesis using k(2,3) unfolding draw_Suc by (intro exI [of _ "Suc k"]) simp
  qed
qed

lemma unat_ucast_u32 [simp]: "unat (ucast (b :: u32) :: u64) = unat b"
proof -
  have "unat b < 2 ^ 64" using unsigned_less [of b, where 'a = nat] by simp
  then show ?thesis by (simp add: unsigned_ucast_eq take_bit_nat_eq_self)
qed

lemma Below_range:
  assumes "0 < bound"
  shows "fst (Below bound state) < bound"
proof (cases "bound \<le> 1")
  case True
  with assms show ?thesis by (subst Below.simps) simp
next
  case False
  from Below_first [OF this, of state] obtain k where "fst (Below bound state) = ucast (draw state k mod ucast bound)" by auto
  moreover have r: "unat (draw state k mod ucast bound) < unat bound" using False by (cases "bound = 0") (simp_all add: unat_mod unat_gt_0)
  moreover have "unat bound < 2 ^ 32" using unsigned_less [of bound, where 'a = nat] by simp
  ultimately show ?thesis by (simp add: word_less_nat_alt unsigned_ucast_eq take_bit_nat_eq_self)
qed

text \<open>The accepted draws are as many for every result.\<close>

lemma accept_below_multiple:
  assumes "0 < bound"
  shows "unat (accept_below bound) = (2 ^ 64 - 1) div unat bound * unat bound"
proof -
  let ?h = "0xFFFFFFFFFFFFFFFF :: u64"
  have h: "unat ?h = 2 ^ 64 - 1" by simp
  have "?h mod ucast bound \<le> ?h" by (simp add: word_le_nat_alt unat_mod)
  then have "unat (?h - ?h mod ucast bound) = unat ?h - unat ?h mod unat bound" by (simp add: unat_sub unat_mod)
  also have "\<dots> = unat ?h div unat bound * unat bound" by (simp only: minus_mod_eq_div_mult)
  finally show ?thesis unfolding h accept_below_def Let_def .
qed

lemma residue_card:
  assumes "(v :: nat) < m"
  shows "card {x. x < q * m \<and> x mod m = v} = q"
proof -
  have "bij_betw (\<lambda>k. k * m + v) {..<q} {x. x < q * m \<and> x mod m = v}"
  proof (rule bij_betw_byWitness [where f' = "\<lambda>x. x div m"])
    show "(\<lambda>k. k * m + v) ` {..<q} \<subseteq> {x. x < q * m \<and> x mod m = v}"
    proof (rule image_subsetI)
      fix k assume "k \<in> {..<q}"
      then have "Suc k * m \<le> q * m" by (intro mult_right_mono) auto
      with assms show "k * m + v \<in> {x. x < q * m \<and> x mod m = v}" by simp
    qed
    show "(\<lambda>x. x div m) ` {x. x < q * m \<and> x mod m = v} \<subseteq> {..<q}" by (auto simp: less_mult_imp_div_less)
    show "\<forall>k \<in> {..<q}. (k * m + v) div m = k" using assms by simp
    show "\<forall>x \<in> {x. x < q * m \<and> x mod m = v}. x div m * m + v = x" by auto
  qed
  then show ?thesis by (metis bij_betw_same_card card_lessThan)
qed

lemma accepted_card:
  assumes "v < bound"
  shows "card {x :: u64. x < accept_below bound \<and> x mod ucast bound = ucast v} = (2 ^ 64 - 1) div unat bound"
proof -
  let ?A = "{x :: u64. x < accept_below bound \<and> x mod ucast bound = ucast v}"
  have b: "0 < bound" using assms by (metis word_gt_0 word_not_simps(1))
  let ?m = "(2 ^ 64 - 1) div unat bound * unat bound"
  have "?m \<le> 2 ^ 64 - 1" by (metis div_mult2_eq div_times_less_eq_dividend)
  then have m: "?m < 2 ^ 64" by (rule le_less_trans) simp
  have "unat ` ?A = {x. x < ?m \<and> x mod unat bound = unat v}"
  proof
    show "unat ` ?A \<subseteq> {x. x < ?m \<and> x mod unat bound = unat v}"
      using accept_below_multiple [OF b] by (auto simp: word_less_nat_alt word_unat_eq_iff unat_mod)
    show "{x. x < ?m \<and> x mod unat bound = unat v} \<subseteq> unat ` ?A"
    proof
      fix x assume x: "x \<in> {x. x < ?m \<and> x mod unat bound = unat v}"
      then have u: "unat (of_nat x :: u64) = x" using m by (intro unat_of_nat_less) simp
      then have "of_nat x \<in> ?A" using x accept_below_multiple [OF b] by (simp add: word_less_nat_alt word_unat_eq_iff unat_mod)
      then show "x \<in> unat ` ?A" by (rule image_eqI [where x = "of_nat x", rotated]) (simp only: u)
    qed
  qed
  moreover have "card (unat ` ?A) = card ?A" by (rule card_image) (auto simp: inj_on_def word_unat_eq_iff)
  ultimately have "card ?A = card {x. x < ?m \<and> x mod unat bound = unat v}" by simp
  also have "\<dots> = (2 ^ 64 - 1) div unat bound" by (rule residue_card) (use assms in \<open>simp add: word_less_nat_alt\<close>)
  finally show ?thesis .
qed

section \<open>Topologies\<close>

definition incident :: "EdgeDraft list \<Rightarrow> nat \<Rightarrow> nat" where
  "incident es i = length (filter (\<lambda>d. fst d = i) es) + length (filter (\<lambda>d. snd d = i) es)"

definition drafts_ok :: "nat \<Rightarrow> EdgeDraft list \<Rightarrow> bool" where
  "drafts_ok n es \<longleftrightarrow> (\<forall>(a, b) \<in> set es. a < n \<and> b < n \<and> a \<noteq> b)"

definition same_shape :: "Topology \<Rightarrow> Topology \<Rightarrow> bool" where
  "same_shape t t' \<longleftrightarrow> top_node_count t' = top_node_count t \<and> top_source t' = top_source t \<and> top_destination t' = top_destination t \<and>
     top_uniform_cost t' = top_uniform_cost t \<and> length (top_degree t') = length (top_degree t)"

definition pushed :: "EdgeDraft \<Rightarrow> Topology \<Rightarrow> Topology" where
  "pushed d t = t\<lparr>top_edges := top_edges t @ [d],
     top_degree := (top_degree t)[fst d := top_degree t ! fst d + 1, snd d := top_degree t ! snd d + 1]\<rparr>"

lemma incident_Cons: "incident (d # es) i = incident [d] i + incident es i"
  by (simp add: incident_def)

lemma pushed_fields:
  "top_edges (pushed d t) = top_edges t @ [d]" "length (top_degree (pushed d t)) = length (top_degree t)" "same_shape t (pushed d t)"
  by (simp_all add: pushed_def same_shape_def)

lemma pushed_degree:
  assumes "drafts_ok (length (top_degree t)) (d # es)" "i < length (top_degree t)"
  shows "top_degree (pushed d t) ! i = top_degree t ! i + incident [d] i"
  using assms by (auto simp: pushed_def incident_def drafts_ok_def nth_list_update)

lemma PushEdge_Inr:
  assumes "drafts_ok (length (top_degree t)) (d # es)"
  shows "PushEdge limits d t = Inr t' \<longleftrightarrow> t' = pushed d t \<and> length (top_edges t) < max_edges limits \<and>
     (\<forall>i < length (top_degree t). 0 < incident [d] i \<longrightarrow> top_degree t ! i < max_ports_per_node limits)"
proof -
  obtain a b where d: "d = (a, b)" by fastforce
  have ab: "a < length (top_degree t)" "b < length (top_degree t)" "a \<noteq> b" using assms by (auto simp: d drafts_ok_def)
  have "(\<forall>i < length (top_degree t). 0 < incident [d] i \<longrightarrow> P i) \<longleftrightarrow> P a \<and> P b" for P
    using ab by (auto simp: d incident_def)
  then show ?thesis using ab by (auto simp: d PushEdge_def Let_def pushed_def)
qed

lemma incident_single: "drafts_ok n (d # es) \<Longrightarrow> incident [d] i \<le> 1"
  by (auto simp: incident_def drafts_ok_def)

lemma push_edges_Inr:
  assumes "drafts_ok (length (top_degree t)) es" "push_edges limits es t = Inr t'"
    and "length (top_edges t) \<le> max_edges limits" "\<forall>i < length (top_degree t). top_degree t ! i \<le> max_ports_per_node limits"
  shows "same_shape t t' \<and> top_edges t' = top_edges t @ es \<and> length (top_edges t') \<le> max_edges limits \<and>
     (\<forall>i < length (top_degree t). top_degree t' ! i = top_degree t ! i + incident es i \<and> top_degree t' ! i \<le> max_ports_per_node limits)"
  using assms
proof (induction es arbitrary: t)
  case Nil
  then show ?case by (simp add: same_shape_def incident_def)
next
  case (Cons d es)
  note ok = Cons.prems(1)
  let ?t1 = "pushed d t"
  have push: "push_edges limits es ?t1 = Inr t'" "length (top_edges t) < max_edges limits"
    "\<forall>i < length (top_degree t). 0 < incident [d] i \<longrightarrow> top_degree t ! i < max_ports_per_node limits"
    using Cons.prems(2) PushEdge_Inr [OF ok] by (auto split: sum.splits)
  have le: "\<forall>i < length (top_degree ?t1). top_degree ?t1 ! i \<le> max_ports_per_node limits"
  proof (intro allI impI)
    fix i assume "i < length (top_degree ?t1)"
    then have i: "i < length (top_degree t)" by (simp add: pushed_fields)
    with push(3) Cons.prems(4) incident_single [OF ok, of i] show "top_degree ?t1 ! i \<le> max_ports_per_node limits"
      by (cases "incident [d] i = 0") (auto simp: pushed_degree [OF ok i])
  qed
  have ih: "same_shape ?t1 t' \<and> top_edges t' = top_edges ?t1 @ es \<and> length (top_edges t') \<le> max_edges limits \<and>
     (\<forall>i < length (top_degree ?t1). top_degree t' ! i = top_degree ?t1 ! i + incident es i \<and> top_degree t' ! i \<le> max_ports_per_node limits)"
    by (rule Cons.IH) (use ok push le in \<open>auto simp: pushed_fields drafts_ok_def\<close>)
  have "same_shape t t'" using ih pushed_fields(3) [of t d] by (simp add: same_shape_def)
  moreover have "top_edges t' = top_edges t @ d # es" "length (top_edges t') \<le> max_edges limits" using ih by (auto simp: pushed_fields)
  moreover have "\<forall>i < length (top_degree t). top_degree t' ! i = top_degree t ! i + incident (d # es) i \<and> top_degree t' ! i \<le> max_ports_per_node limits"
    using ih pushed_degree [OF ok] unfolding pushed_fields incident_Cons [of d es] by auto
  ultimately show ?case by blast
qed

text \<open>A list of drafts is refused only when it breaches a ceiling.\<close>

lemma push_edges_complete:
  assumes "drafts_ok (length (top_degree t)) es" "length (top_edges t) + length es \<le> max_edges limits"
    and "\<forall>i < length (top_degree t). top_degree t ! i + incident es i \<le> max_ports_per_node limits"
  shows "\<exists>t'. push_edges limits es t = Inr t'"
  using assms
proof (induction es arbitrary: t)
  case (Cons d es)
  note ok = Cons.prems(1)
  have "top_degree t ! i < max_ports_per_node limits" if "i < length (top_degree t)" "0 < incident [d] i" for i
    using Cons.prems(3) that by (fastforce simp: incident_Cons [of d es])
  then have push: "PushEdge limits d t = Inr (pushed d t)" using PushEdge_Inr [OF ok] Cons.prems(2) by simp
  have "\<exists>t'. push_edges limits es (pushed d t) = Inr t'"
  proof (rule Cons.IH)
    show "\<forall>i < length (top_degree (pushed d t)). top_degree (pushed d t) ! i + incident es i \<le> max_ports_per_node limits"
      using Cons.prems(3) pushed_degree [OF ok] by (simp add: pushed_fields incident_Cons [of d es] add.assoc)
  qed (use ok Cons.prems(2) in \<open>auto simp: pushed_fields drafts_ok_def\<close>)
  with push show ?case by simp
qed simp

subsection \<open>Reachability\<close>

abbreviation reaches :: "EdgeDraft list \<Rightarrow> nat \<Rightarrow> nat \<Rightarrow> bool" where
  "reaches es a b \<equiv> (a, b) \<in> (set es)\<^sup>*"

lemma steps_reach:
  fixes a b :: nat
  assumes "\<And>i. a \<le> i \<Longrightarrow> i < b \<Longrightarrow> (i, i + 1) \<in> E" "a \<le> b"
  shows "(a, b) \<in> E\<^sup>*"
  using assms(2,1)
proof (induction b rule: dec_induct)
  case (step b)
  then have "(a, b) \<in> E\<^sup>*" "(b, b + 1) \<in> E" by simp_all
  then show ?case by (simp add: rtrancl.rtrancl_into_rtrancl)
qed simp

lemma chain_reach: "k < n \<Longrightarrow> reaches (BuildChainEdges n) 0 k"
  by (rule steps_reach) (auto simp: BuildChainEdges_def)

lemma ring_reach: "k < n \<Longrightarrow> reaches (ring_edges n) 0 k"
  by (rule steps_reach) (force simp: ring_edges_def)+

lemma route_reach: "reaches (route_edges p ns f) p f"
proof (induction ns arbitrary: p)
  case (Cons x ns)
  have "(x, f) \<in> (set (route_edges p (x # ns) f))\<^sup>*"
    using Cons rtrancl_mono [of "set (route_edges x ns f)" "set (route_edges p (x # ns) f)"] by auto
  then show ?case by (rule converse_rtrancl_into_rtrancl [rotated]) simp
qed auto

lemma diamond_reach: "reaches (diamond_edges n) 0 (n - 1)"
proof -
  have "set (route_edges 0 [1..<1 + (n - 2 + 1) div 2] (n - 1)) \<subseteq> set (diamond_edges n)" by (simp add: diamond_edges_def Let_def)
  from rtrancl_mono [OF this] route_reach show ?thesis by (rule subsetD)
qed

lemma set_bipartite: "set (bipartite x a y b) = {(x + i, y + j) | i j. i < a \<and> j < b}"
  by (auto simp: bipartite_def)

lemma in_bipartite: "0 < a \<Longrightarrow> j < b \<Longrightarrow> (x, y + j) \<in> set (bipartite x a y b)"
  by (force simp: set_bipartite)

lemma circulant_reach:
  assumes "0 < requested" "4 \<le> n" "n < 2 ^ 32" "k < n"
  shows "reaches (circulant_edges requested n) 0 k"
proof (rule steps_reach)
  fix i assume i: "i < k"
  have "1 \<le> min requested ((n - 1) div 2)" using assms(1,2) by simp
  moreover have "(i + 1) mod 2 ^ 32 mod n = i + 1" using i assms by simp
  ultimately show "(i, i + 1) \<in> set (circulant_edges requested n)"
    using i assms(4) unfolding circulant_edges_def Let_def
    by (auto intro!: bexI [of _ i] image_eqI [of _ _ 1])
qed simp

lemma parallel_reach:
  assumes "2 \<le> n"
  shows "reaches (parallel_edges n) 0 (n - 1)"
proof (rule steps_reach)
  fix i assume "i < n - 1"
  then show "(i, i + 1) \<in> set (parallel_edges n)"
    by (cases "i = 0") (auto simp: parallel_edges_def Let_def)
qed simp

lemma tie_reach: "2 \<le> n \<Longrightarrow> reaches (tie_storm_edges n) 0 (n - 1)"
proof (cases "n = 2")
  case True
  then show ?thesis by (auto simp: tie_storm_edges_def)
next
  case False
  assume "2 \<le> n"
  with False have "(0, 1) \<in> set (tie_storm_edges n)" "(1, n - 1) \<in> set (tie_storm_edges n)"
    by (auto simp: tie_storm_edges_def intro!: bexI [of _ 1])
  then show ?thesis by (meson r_into_rtrancl rtrancl_trans)
qed

lemma tree_reach: "k < n \<Longrightarrow> reaches (tree_edges n) 0 k"
proof (induction k rule: less_induct)
  case (less k)
  show ?case
  proof (cases "k = 0")
    case False
    then have p: "(k - 1) div 2 < k" by simp
    then have "reaches (tree_edges n) 0 ((k - 1) div 2)" using less by simp
    moreover have "((k - 1) div 2, k) \<in> set (tree_edges n)" using False less.prems by (auto simp: tree_edges_def)
    ultimately show ?thesis by (rule rtrancl.rtrancl_into_rtrancl)
  qed simp
qed

lemma order_reach: "order \<noteq> [] \<Longrightarrow> reaches (order_edges order) (hd order) (last order)"
proof (induction order)
  case (Cons x xs)
  show ?case
  proof (cases xs)
    case (Cons y ys)
    have "(set (order_edges xs))\<^sup>* \<subseteq> (set (order_edges (x # xs)))\<^sup>*" unfolding Cons by (intro rtrancl_mono) (auto simp: order_edges_def)
    with Cons.IH Cons have "(y, last xs) \<in> (set (order_edges (x # xs)))\<^sup>*" by auto
    moreover have "(x, y) \<in> set (order_edges (x # xs))" unfolding Cons by (simp add: order_edges_def)
    ultimately show ?thesis using Cons by (simp add: converse_rtrancl_into_rtrancl)
  qed (simp add: order_edges_def)
qed simp

lemma fat_tree_shape:
  assumes "4 \<le> n"
  obtains q spines cores where "fat_tree_edges layers n = bipartite 0 q q q @ bipartite q q (q + q) spines @ bipartite (q + q) spines (q + q + spines) cores"
    "0 < q" "0 < spines" "q + q + spines + cores = n"
proof -
  define q where "q = max 1 (n div 4)"
  have "n div 4 * 4 \<le> n" "1 \<le> n div 4" using assms by simp_all
  then have q: "0 < q" "q + q + q < n" by (auto simp: q_def)
  define spines cores where "spines = (if layers \<ge> 4 then q else n - q - q)" and "cores = (if layers \<ge> 4 then n - q - q - q else 0)"
  have "fat_tree_edges layers n = bipartite 0 q q q @ bipartite q q (q + q) spines @ bipartite (q + q) spines (q + q + spines) cores"
    unfolding fat_tree_edges_def Let_def q_def [symmetric] spines_def cores_def by simp
  moreover have "0 < spines" "q + q + spines + cores = n" using q by (simp_all add: spines_def cores_def)
  ultimately show thesis using that q(1) by blast
qed

lemma fat_tree_reach:
  assumes "4 \<le> n"
  shows "reaches (fat_tree_edges layers n) 0 (n - 1)"
proof -
  obtain q spines cores where e: "fat_tree_edges layers n = bipartite 0 q q q @ bipartite q q (q + q) spines @ bipartite (q + q) spines (q + q + spines) cores"
    and q: "0 < q" "0 < spines" "q + q + spines + cores = n" by (rule fat_tree_shape [OF assms])
  let ?E = "set (fat_tree_edges layers n)"
  have first: "(0, q + 0) \<in> ?E" unfolding e using in_bipartite [of q 0 q 0 q] q(1) by simp
  have second: "(q, q + q + j) \<in> ?E" if "j < spines" for j unfolding e using in_bipartite [of q j spines q "q + q"] q(1) that by simp
  show ?thesis
  proof (cases "cores = 0")
    case True
    then have "q + q + (spines - 1) = n - 1" using q by simp
    with second [of "spines - 1"] q(2) have "(q, n - 1) \<in> ?E" by simp
    with first show ?thesis by (metis add_0_right r_into_rtrancl rtrancl_trans)
  next
    case False
    then have n: "q + q + spines + (cores - 1) = n - 1" using q by simp
    have "(q + q, q + q + spines + (cores - 1)) \<in> ?E"
      unfolding e using in_bipartite [of spines "cores - 1" cores "q + q" "q + q + spines"] q(2) False by simp
    then have "(q + q + 0, n - 1) \<in> ?E" by (simp only: n add_0_right)
    with first second [OF q(2)] show ?thesis by (metis add_0_right r_into_rtrancl rtrancl_trans)
  qed
qed

subsection \<open>Edges connect distinct nodes\<close>

lemma drafts_ok_append [simp]: "drafts_ok n (xs @ ys) \<longleftrightarrow> drafts_ok n xs \<and> drafts_ok n ys"
  by (auto simp: drafts_ok_def)

lemma chain_ok: "drafts_ok n (BuildChainEdges n)"
  by (auto simp: drafts_ok_def BuildChainEdges_def)

lemma ring_ok: "2 \<le> n \<Longrightarrow> drafts_ok n (ring_edges n)"
  by (auto simp: drafts_ok_def ring_edges_def)

lemma route_ok:
  assumes "p < n" "f < n" "list_all (\<lambda>x. x < n) ns" "distinct (p # ns @ [f])"
  shows "drafts_ok n (route_edges p ns f)"
  using assms by (induction ns arbitrary: p) (auto simp: drafts_ok_def)

lemma diamond_ok: "4 \<le> n \<Longrightarrow> drafts_ok n (diamond_edges n)"
proof -
  assume n: "4 \<le> n"
  define split where "split = 1 + (n - 2 + 1) div 2"
  have sp: "1 \<le> split" "split < n" using n unfolding split_def by (simp, linarith)
  have e: "diamond_edges n = route_edges 0 [1..<split] (n - 1) @ route_edges 0 [split..<n - 1] (n - 1)"
    by (simp add: diamond_edges_def Let_def split_def)
  have "split \<le> n - 1" using sp by simp
  then show ?thesis unfolding e drafts_ok_append using n sp by (intro conjI route_ok) (auto simp: list_all_iff)
qed

lemma bipartite_ok: "x + a \<le> y \<Longrightarrow> y + b \<le> n \<Longrightarrow> drafts_ok n (bipartite x a y b)"
  by (auto simp: drafts_ok_def set_bipartite)

lemma fat_tree_ok:
  assumes "4 \<le> n"
  shows "drafts_ok n (fat_tree_edges layers n)"
proof -
  obtain q spines cores where e: "fat_tree_edges layers n = bipartite 0 q q q @ bipartite q q (q + q) spines @ bipartite (q + q) spines (q + q + spines) cores"
    and q: "0 < q" "0 < spines" "q + q + spines + cores = n" by (rule fat_tree_shape [OF assms])
  show ?thesis unfolding e drafts_ok_append using q by (intro conjI bipartite_ok) simp_all
qed

lemma circulant_ok:
  assumes "4 \<le> n" "n \<le> 2 ^ 31"
  shows "drafts_ok n (circulant_edges requested n)"
proof -
  have "(i + step) mod 2 ^ 32 mod n < n \<and> i \<noteq> (i + step) mod 2 ^ 32 mod n" if "i < n" "1 \<le> step" "step \<le> (n - 1) div 2" for i step
  proof -
    have s: "step < n" using that assms(1) by linarith
    then have "i + step < 2 ^ 32" using that(1) assms(2) by simp
    then have m: "(i + step) mod 2 ^ 32 mod n = (i + step) mod n" by simp
    show ?thesis
    proof (cases "i + step < n")
      case True
      then show ?thesis using that(2) unfolding m by simp
    next
      case False
      then have "(i + step) mod n = i + step - n" using that(1) s by (simp add: le_mod_geq)
      then show ?thesis using False that(1) s unfolding m by auto
    qed
  qed
  then show ?thesis by (auto simp: drafts_ok_def circulant_edges_def Let_def)
qed

lemma parallel_ok: "2 \<le> n \<Longrightarrow> drafts_ok n (parallel_edges n)"
  by (auto simp: drafts_ok_def parallel_edges_def Let_def)

lemma tie_ok: "2 \<le> n \<Longrightarrow> drafts_ok n (tie_storm_edges n)"
  by (auto simp: drafts_ok_def tie_storm_edges_def)

lemma hub_ok: "drafts_ok n (hub_edges n)"
  by (auto simp: drafts_ok_def hub_edges_def)

lemma tree_ok: "drafts_ok n (tree_edges n)"
  by (auto simp: drafts_ok_def tree_edges_def)

lemma order_ok: "distinct order \<Longrightarrow> set order \<subseteq> {..<n} \<Longrightarrow> drafts_ok n (order_edges order)"
proof (induction order)
  case (Cons x xs)
  then show ?case by (cases xs) (auto simp: order_edges_def drafts_ok_def)
qed (simp add: order_edges_def drafts_ok_def)

text \<open>The shuffle permutes.\<close>

lemma shuffle_mset: "i < length order \<Longrightarrow> length order < 2 ^ 32 \<Longrightarrow> mset (shuffle i order state) = mset order"
proof (induction i order state rule: shuffle.induct)
  case (2 i order state)
  obtain j state' where b: "Below (of_nat (Suc i + 1)) state = (j, state')" by fastforce
  have u: "unat (of_nat (Suc i + 1) :: u32) = Suc i + 1" using 2(2,3) by (intro unat_of_nat_less) simp
  then have "(0 :: u32) < of_nat (Suc i + 1)" by (simp add: word_less_nat_alt del: of_nat_add of_nat_Suc)
  from Below_range [OF this, of state] b u have j: "unat j < Suc i + 1" by (simp add: word_less_nat_alt del: of_nat_add of_nat_Suc)
  have "mset (order[Suc i := order ! unat j, unat j := order ! Suc i]) = mset order"
    using 2(2) j by (intro mset_swap) simp_all
  moreover have "mset (shuffle i (order[Suc i := order ! unat j, unat j := order ! Suc i]) state') =
      mset (order[Suc i := order ! unat j, unat j := order ! Suc i])"
    by (rule 2(1) [OF b [symmetric]]) (use 2(2,3) in simp_all)
  ultimately show ?case using b by (simp del: of_nat_Suc)
qed simp

lemma chain_order_perm:
  assumes "0 < n" "n < 2 ^ 32"
  shows "mset (chain_order seed n) = mset [0..<n]"
  unfolding chain_order_def by (rule shuffle_mset) (use assms in simp_all)

lemma chain_order_facts:
  assumes "0 < n" "n < 2 ^ 32"
  shows "distinct (chain_order seed n)" "set (chain_order seed n) = {..<n}" "length (chain_order seed n) = n"
proof -
  note m = chain_order_perm [OF assms, of seed]
  show "distinct (chain_order seed n)" using mset_eq_imp_distinct_iff [OF m] by simp
  show "set (chain_order seed n) = {..<n}" using mset_eq_setD [OF m] by (auto simp: lessThan_atLeast0)
  show "length (chain_order seed n) = n" using mset_eq_length [OF m] by simp
qed

text \<open>Separate components.\<close>

lemma component_edges_bounds: "(a, b) \<in> set (component_edges ss start) \<Longrightarrow> start \<le> a \<and> a < b \<and> b < start + sum_list ss"
  by (induction ss arbitrary: start) (fastforce+)

lemma component_closed: "(a, b) \<in> set (component_edges (s # ss) 0) \<Longrightarrow> a < s \<Longrightarrow> b < s"
  using component_edges_bounds [of a b ss s] by auto

lemma sum_components: "sum_list (map (\<lambda>c. base + (if c < r then 1 else 0)) [0..<k]) = k * base + min r k"
  by (induction k) auto

lemma component_sizes_facts:
  assumes "2 \<le> n"
  shows "\<exists>s ss. component_sizes n = s # ss \<and> 0 < s \<and> s < n \<and> sum_list (s # ss) = n"
proof -
  define k where "k = min n (max 2 (n div 4))"
  have k: "2 \<le> k" "k \<le> n" using assms by (auto simp: k_def)
  define base r where "base = n div k" and "r = n mod k"
  have n: "n = k * base + r" "r < k" using k by (simp_all add: base_def r_def)
  have base: "1 \<le> base" using k by (simp add: base_def Suc_le_eq div_greater_zero_iff)
  have c: "component_sizes n = map (\<lambda>c. base + (if c < r then 1 else 0)) [0..<k]"
    by (simp add: component_sizes_def Let_def k_def base_def r_def)
  have split: "[0..<k] = 0 # [1..<k]" using k by (simp add: upt_rec)
  have tot: "sum_list (component_sizes n) = n" unfolding c sum_components using n by simp
  have "2 * base \<le> k * base" using k by simp
  then have "2 * base + r \<le> n" using n(1) by simp
  then have "base + (if 0 < r then 1 else 0) < n" using base by (cases "0 < r") auto
  then show ?thesis using tot base unfolding c split by auto
qed

lemma components_apart:
  assumes "2 \<le> n"
  shows "\<not> reaches (component_edges (component_sizes n) 0) 0 (hd (component_sizes n))"
proof
  obtain s ss where c: "component_sizes n = s # ss" "0 < s" using component_sizes_facts [OF assms] by blast
  assume "reaches (component_edges (component_sizes n) 0) 0 (hd (component_sizes n))"
  then have "hd (component_sizes n) < s"
    by (induction rule: rtrancl_induct) (use c component_closed [of _ _ s ss] in auto)
  with c show False by simp
qed

subsection \<open>The families\<close>

lemma family_plan_facts:
  assumes "family_plan opts n = Some (src, dst, uniform, es)" "2 \<le> n" "n \<le> 2 ^ 31"
  shows "src < n \<and> dst < n \<and> src \<noteq> dst \<and> drafts_ok n es \<and> (reaches es src dst \<longleftrightarrow> so_family opts \<noteq> Fam_kDisconnected)"
proof -
  have n32: "n < 2 ^ 32" using assms(3) by simp
  note facts = assms(2,3) n32
  have mid: "n - 1 < n" "n div 2 < n" "0 < n div 2" "0 < n - 1" using assms(2) by auto
  note plan = assms(1) [unfolded family_plan_def]
  show ?thesis
  proof (cases "so_family opts")
    case Fam_kDiamond
    with plan mid diamond_reach [of n] chain_reach [OF mid(1)] chain_ok [of n] diamond_ok [of n] show ?thesis by (cases "n < 4") auto
  next
    case Fam_kLeafSpine
    define spines where "spines = spine_count (unat (so_layers opts)) n"
    have "2 \<le> min (max (unat (so_layers opts)) 2) 8" by simp
    then have "n div min (max (unat (so_layers opts)) 2) 8 \<le> n div 2" by (simp add: div_le_mono2)
    then have s: "0 < spines" "spines < n" using facts(1) by (auto simp: spines_def spine_count_def Let_def)
    have "(0, n - spines + 0) \<in> set (bipartite 0 (n - spines) (n - spines) spines)" using s by (intro in_bipartite) simp_all
    moreover have "drafts_ok n (bipartite 0 (n - spines) (n - spines) spines)" using s by (intro bipartite_ok) simp_all
    ultimately show ?thesis using Fam_kLeafSpine plan s by (auto simp: spines_def [symmetric] Let_def)
  next
    case Fam_kDisconnected
    obtain s ss where c: "component_sizes n = s # ss" "0 < s" "s < n" "sum_list (s # ss) = n"
      using component_sizes_facts [OF facts(1)] by blast
    have "drafts_ok n (component_edges (component_sizes n) 0)"
      using component_edges_bounds [of _ _ "component_sizes n" 0] c by (fastforce simp: drafts_ok_def)
    with Fam_kDisconnected plan c components_apart [OF facts(1)] show ?thesis by auto
  next
    case Fam_kDeepChain
    define order where "order = chain_order (so_seed opts) n"
    have o: "distinct order" "set order = {..<n}" "length order = n" using chain_order_facts [of n] facts by (simp_all add: order_def)
    then obtain x y ys where xy: "order = x # y # ys" using facts(1) by (cases order; cases "tl order") auto
    have "reaches (order_edges order) (hd order) (last order)" using xy by (intro order_reach) simp
    moreover have "hd order \<noteq> last order" using xy o(1) last_in_set [of "y # ys"] by (metis distinct.simps(2) last.simps list.distinct(1) list.sel(1))
    moreover have "hd order < n" "last order < n" using xy o(2) last_in_set [of order] hd_in_set [of order] by auto
    moreover have "drafts_ok n (order_edges order)" using o by (intro order_ok) simp_all
    ultimately show ?thesis using Fam_kDeepChain plan by (auto simp: order_def [symmetric] Let_def)
  next
    case Fam_kHighDegreeHub
    have "(0, n - 1) \<in> set (hub_edges n)" using facts(1) by (auto simp: hub_edges_def)
    with Fam_kHighDegreeHub plan mid hub_ok [of n] show ?thesis by auto
  next
    case Fam_kMesh
    with plan mid chain_reach [OF mid(2)] chain_ok [of n] circulant_reach [of "2 + unat (so_extra_edges opts)" n "n div 2"]
      circulant_ok [of n "2 + unat (so_extra_edges opts)"] facts show ?thesis by (cases "n < 4") auto
  next
    case Fam_kDenseBounded
    with plan mid chain_reach [OF mid(2)] chain_ok [of n] circulant_reach [of "8 + unat (so_extra_edges opts)" n "n div 2"]
      circulant_ok [of n "8 + unat (so_extra_edges opts)"] facts show ?thesis by (cases "n < 4") auto
  next
    case Fam_kFatTree
    with plan mid chain_reach [OF mid(1)] chain_ok [of n] fat_tree_reach [of n] fat_tree_ok [of n] show ?thesis by (cases "n < 4") auto
  qed (use plan mid chain_reach [OF mid(1)] chain_ok [of n] ring_reach [OF mid(2)] ring_ok [OF assms(2)] parallel_reach [OF assms(2)]
      parallel_ok [OF assms(2)] tie_reach [OF assms(2)] tie_ok [OF assms(2)] tree_reach [OF mid(1)] tree_ok [of n] in auto)
qed

lemma node_count_facts: "2 \<le> NormalizeNodeCount k"
  by (simp add: NormalizeNodeCount_def)

definition topology_ok :: "SyntheticOptions \<Rightarrow> Topology \<Rightarrow> bool" where
  "topology_ok opts t \<longleftrightarrow>
     top_node_count t = NormalizeNodeCount (unat (so_nodes opts)) \<and> length (top_degree t) = top_node_count t \<and>
     top_node_count t \<le> max_nodes (so_limits opts) \<and> length (top_edges t) \<le> max_edges (so_limits opts) \<and>
     drafts_ok (top_node_count t) (top_edges t) \<and>
     (\<forall>i < top_node_count t. top_degree t ! i = incident (top_edges t) i \<and> top_degree t ! i \<le> max_ports_per_node (so_limits opts)) \<and>
     top_source t < top_node_count t \<and> top_destination t < top_node_count t \<and> top_source t \<noteq> top_destination t \<and>
     (reaches (top_edges t) (top_source t) (top_destination t) \<longleftrightarrow> so_family opts \<noteq> Fam_kDisconnected)"

lemma BuildTopology_ok:
  assumes "max_nodes (so_limits opts) \<le> 2 ^ 31" "BuildTopology opts = Inr t"
  shows "topology_ok opts t"
proof -
  define n where "n = NormalizeNodeCount (unat (so_nodes opts))"
  have n: "2 \<le> n" "n \<le> max_nodes (so_limits opts)"
    using assms(2) node_count_facts by (auto simp: n_def BuildTopology_def Let_def split: if_splits)
  obtain src dst u es where p: "family_plan opts n = Some (src, dst, u, es)"
    using assms(2) n by (auto simp: n_def [symmetric] BuildTopology_def Let_def split: option.splits)
  let ?t0 = "\<lparr>top_node_count = n, top_source = src, top_destination = dst, top_uniform_cost = u, top_edges = [], top_degree = replicate n 0\<rparr>"
  have push: "push_edges (so_limits opts) es ?t0 = Inr t" using assms(2) n(2) p by (simp add: n_def [symmetric] BuildTopology_def)
  have f: "src < n \<and> dst < n \<and> src \<noteq> dst \<and> drafts_ok n es \<and> (reaches es src dst \<longleftrightarrow> so_family opts \<noteq> Fam_kDisconnected)"
    by (rule family_plan_facts [OF p n(1)]) (use n(2) assms(1) in simp)
  have "same_shape ?t0 t \<and> top_edges t = top_edges ?t0 @ es \<and> length (top_edges t) \<le> max_edges (so_limits opts) \<and>
     (\<forall>i < length (top_degree ?t0). top_degree t ! i = top_degree ?t0 ! i + incident es i \<and> top_degree t ! i \<le> max_ports_per_node (so_limits opts))"
    by (rule push_edges_Inr [OF _ push]) (use f in simp_all)
  with f n(2) show ?thesis by (auto simp: topology_ok_def same_shape_def n_def [symmetric])
qed

lemma BuildTopology_refused:
  assumes "max_nodes (so_limits opts) \<le> 2 ^ 31" "BuildTopology opts = Inl e"
  shows "NormalizeNodeCount (unat (so_nodes opts)) > max_nodes (so_limits opts) \<or>
    (case family_plan opts (NormalizeNodeCount (unat (so_nodes opts))) of
       None \<Rightarrow> \<not> named_family (so_family opts)
     | Some (_, _, _, es) \<Rightarrow> max_edges (so_limits opts) < length es \<or> (\<exists>i. max_ports_per_node (so_limits opts) < incident es i))"
proof -
  define n where "n = NormalizeNodeCount (unat (so_nodes opts))"
  show ?thesis
  proof (cases "n \<le> max_nodes (so_limits opts)")
    case n: True
    have fam: "family_plan opts n = None \<Longrightarrow> \<not> named_family (so_family opts)"
      by (cases "so_family opts") (simp_all add: family_plan_def Let_def)
    show ?thesis
    proof (cases "family_plan opts n")
      case None
      with fam show ?thesis by (simp add: n_def)
    next
      case (Some p)
      obtain src dst u es where p: "p = (src, dst, u, es)" by (metis prod_cases4)
      let ?t0 = "\<lparr>top_node_count = n, top_source = src, top_destination = dst, top_uniform_cost = u, top_edges = [], top_degree = replicate n 0\<rparr>"
      have push: "push_edges (so_limits opts) es ?t0 = Inl e" using assms(2) n Some p by (simp add: n_def [symmetric] BuildTopology_def)
      have "drafts_ok n es" using family_plan_facts [OF Some [unfolded p]] n assms(1) node_count_facts by (simp add: n_def)
      then have "\<exists>t'. push_edges (so_limits opts) es ?t0 = Inr t'"
        if "length es \<le> max_edges (so_limits opts)" "\<forall>i. incident es i \<le> max_ports_per_node (so_limits opts)"
        using that by (intro push_edges_complete) simp_all
      with push have "max_edges (so_limits opts) < length es \<or> (\<exists>i. max_ports_per_node (so_limits opts) < incident es i)"
        by (metis Inl_Inr_False linorder_not_le)
      with Some p show ?thesis by (simp add: n_def)
    qed
  qed (simp add: n_def)
qed

subsection \<open>The links of each family\<close>

text \<open>
  What each family promises, without its loops: how many links lead from node \<open>i\<close> to node \<open>j\<close> of \<open>n\<close> nodes.  A chain leads
  from every node to the next; a ring back from the last to the first as well; a diamond has two routes, over the nodes below \<open>split\<close> and over
  those from \<open>split\<close>; tiers are joined completely to the next tier; a mesh joins every node with the nodes up to a distance ahead around the circle; the
  disconnected family is a chain cut where a component starts; and so on.
\<close>

definition chain_link :: "nat \<Rightarrow> nat \<Rightarrow> nat \<Rightarrow> bool" where
  "chain_link n i j \<longleftrightarrow> j = i + 1 \<and> j < n"

definition diamond_link :: "nat \<Rightarrow> nat \<Rightarrow> nat \<Rightarrow> bool" where
  "diamond_link n i j \<longleftrightarrow> (let split = 1 + (n - 1) div 2 in
     chain_link n i j \<and> j \<noteq> split \<or> i = 0 \<and> j = split \<or> i = split - 1 \<and> j = n - 1)"

definition fat_tier :: "nat \<Rightarrow> nat \<Rightarrow> nat \<Rightarrow> nat" where
  "fat_tier layers n i = (let q = n div 4 in if i < q then 0 else if i < 2 * q then 1 else if layers < 4 \<or> i < 3 * q then 2 else 3)"

definition ahead :: "nat \<Rightarrow> nat \<Rightarrow> nat \<Rightarrow> nat" where
  "ahead n i j = (j + n - i) mod n"

definition circulant_link :: "nat \<Rightarrow> nat \<Rightarrow> nat \<Rightarrow> nat \<Rightarrow> bool" where
  "circulant_link distance n i j \<longleftrightarrow> i < n \<and> j < n \<and> 1 \<le> ahead n i j \<and> ahead n i j \<le> min distance ((n - 1) div 2)"

definition component_start :: "nat \<Rightarrow> nat \<Rightarrow> bool" where
  "component_start n j \<longleftrightarrow> (let k = min n (max 2 (n div 4)) in \<exists>c < k. j = c * (n div k) + min c (n mod k))"

definition family_links :: "SyntheticOptions \<Rightarrow> nat \<Rightarrow> nat \<Rightarrow> nat \<Rightarrow> nat" where
  "family_links opts n i j =
     (case so_family opts of
        Fam_kChain \<Rightarrow> of_bool (chain_link n i j)
      | Fam_kOneWay \<Rightarrow> of_bool (chain_link n i j)
      | Fam_kRing \<Rightarrow> of_bool (i < n \<and> j = (i + 1) mod n)
      | Fam_kDiamond \<Rightarrow> of_bool (if n < 4 then chain_link n i j else diamond_link n i j)
      | Fam_kLeafSpine \<Rightarrow>
          (let spines = max 1 (n div min (max (unat (so_layers opts)) 2) 8) in of_bool (i < n - spines \<and> n - spines \<le> j \<and> j < n))
      | Fam_kFatTree \<Rightarrow> of_bool (if n < 4 then chain_link n i j
          else i < n \<and> j < n \<and> fat_tier (unat (so_layers opts)) n j = fat_tier (unat (so_layers opts)) n i + 1)
      | Fam_kMesh \<Rightarrow> of_bool (if n < 4 then chain_link n i j else circulant_link (2 + unat (so_extra_edges opts)) n i j)
      | Fam_kDenseBounded \<Rightarrow> of_bool (if n < 4 then chain_link n i j else circulant_link (8 + unat (so_extra_edges opts)) n i j)
      | Fam_kDisconnected \<Rightarrow> of_bool (chain_link n i j \<and> \<not> component_start n j)
      | Fam_kParallelEqualCost \<Rightarrow>
          (if i = 0 \<and> j = 1 then if n = 2 then 2 else min 8 (max 2 (n div 4)) else of_bool (chain_link n i j))
      | Fam_kTieStorm \<Rightarrow>
          of_bool (if n = 2 then i = 0 \<and> j = 1 else i = 0 \<and> 0 < j \<and> j < n - 1 \<or> 0 < i \<and> i < n - 1 \<and> j = n - 1)
      | Fam_kHighDegreeHub \<Rightarrow> of_bool (i = 0 \<and> 0 < j \<and> j < n)
      | Fam_kDeepChain \<Rightarrow>
          of_bool (\<exists>k. k + 1 < n \<and> chain_order (so_seed opts) n ! k = i \<and> chain_order (so_seed opts) n ! (k + 1) = j)
      | Fam_kSparseLarge \<Rightarrow> of_bool (0 < j \<and> j < n \<and> i = (j - 1) div 2)
      | Fam_other v \<Rightarrow> 0)"

text \<open>The reported source and destination, and whether all costs are equal.\<close>

definition family_ends :: "SyntheticOptions \<Rightarrow> nat \<Rightarrow> nat \<times> nat \<times> bool" where
  "family_ends opts n =
     (case so_family opts of
        Fam_kRing \<Rightarrow> (0, n div 2, False)
      | Fam_kMesh \<Rightarrow> (0, n div 2, False)
      | Fam_kDenseBounded \<Rightarrow> (0, n div 2, False)
      | Fam_kLeafSpine \<Rightarrow> (0, n - max 1 (n div min (max (unat (so_layers opts)) 2) 8), False)
      | Fam_kDisconnected \<Rightarrow> (0, (let k = min n (max 2 (n div 4)) in n div k + of_bool (0 < n mod k)), False)
      | Fam_kParallelEqualCost \<Rightarrow> (0, n - 1, True)
      | Fam_kTieStorm \<Rightarrow> (0, n - 1, True)
      | Fam_kDeepChain \<Rightarrow> (chain_order (so_seed opts) n ! 0, chain_order (so_seed opts) n ! (n - 1), False)
      | _ \<Rightarrow> (0, n - 1, False))"

lemma count_list_distinct: "distinct xs \<Longrightarrow> count_list xs x = of_bool (x \<in> set xs)"
  by (induction xs) auto

lemma distinct_rows:
  assumes "distinct is" "\<And>i. i \<in> set is \<Longrightarrow> distinct (js i) \<and> inj_on (g i) (set (js i))" "inj_on f (set is)"
  shows "distinct (concat (map (\<lambda>i. map (\<lambda>j. (f i, g i j)) (js i)) is))"
  using assms
proof (induction "is")
  case (Cons i "is")
  have "distinct (map (\<lambda>j. (f i, g i j)) (js i))" using Cons.prems(2) [of i] by (auto simp: distinct_map inj_on_def)
  moreover have "f i' \<noteq> f i" if "i' \<in> set is" for i' using Cons.prems(1,3) that by (auto simp: inj_on_def)
  ultimately show ?case using Cons by (auto simp: inj_on_def)
qed simp

lemma chain_count: "count_list (BuildChainEdges n) (i, j) = of_bool (chain_link n i j)"
proof -
  have "distinct (BuildChainEdges n)" by (simp add: BuildChainEdges_def distinct_map inj_on_def)
  moreover have "(i, j) \<in> set (BuildChainEdges n) \<longleftrightarrow> chain_link n i j" by (auto simp: BuildChainEdges_def chain_link_def)
  ultimately show ?thesis by (simp add: count_list_distinct)
qed

lemma ring_count: "count_list (ring_edges n) (i, j) = of_bool (i < n \<and> j = (i + 1) mod n)"
proof -
  have "distinct (ring_edges n)" by (simp add: ring_edges_def distinct_map inj_on_def)
  moreover have "(i, j) \<in> set (ring_edges n) \<longleftrightarrow> i < n \<and> j = (i + 1) mod n"
    by (cases "i + 1 = n") (auto simp: ring_edges_def image_iff)
  ultimately show ?thesis by (simp add: count_list_distinct)
qed

lemma route_upt: "a < b \<Longrightarrow> route_edges p [a..<b] f = (p, a) # map (\<lambda>i. (i, i + 1)) [a..<b - 1] @ [(b - 1, f)]"
proof (induction "b - a" arbitrary: a p)
  case (Suc k)
  have up: "[a..<b] = a # [Suc a..<b]" using Suc.prems by (simp add: upt_rec)
  show ?case
  proof (cases "Suc a < b")
    case True
    have "k = b - Suc a" using Suc.hyps(2) by simp
    note IH = Suc.hyps(1) [OF this True, of a]
    have "[a..<b - 1] = a # [Suc a..<b - 1]" using True by (simp add: upt_rec)
    then show ?thesis unfolding up route_edges.simps IH by simp
  next
    case False
    then have "b = Suc a" using Suc.prems by simp
    then show ?thesis by simp
  qed
qed simp

lemma diamond_count:
  assumes "4 \<le> n"
  shows "count_list (diamond_edges n) (i, j) = of_bool (diamond_link n i j)"
proof -
  define split where "split = 1 + (n - 1) div 2"
  have sp: "2 \<le> split" "split < n - 1" using assms by (auto simp: split_def)
  have "n - 2 + 1 = n - 1" using assms by simp
  then have e: "diamond_edges n = ((0, 1) # map (\<lambda>i. (i, i + 1)) [1..<split - 1] @ [(split - 1, n - 1)]) @
      ((0, split) # map (\<lambda>i. (i, i + 1)) [split..<n - 2] @ [(n - 2, n - 1)])"
    using sp by (simp only: diamond_edges_def Let_def split_def [symmetric] route_upt) (simp add: route_upt numeral_2_eq_2)
  have "distinct (diamond_edges n)" unfolding e using sp by (auto simp: distinct_map inj_on_def)
  moreover have "(i, j) \<in> set (diamond_edges n) \<longleftrightarrow> diamond_link n i j"
    unfolding e diamond_link_def split_def [symmetric] Let_def chain_link_def using sp by (auto simp: image_iff)
  ultimately show ?thesis by (simp add: count_list_distinct)
qed

lemma bipartite_count:
  "count_list (bipartite x a y b) (i, j) = of_bool (x \<le> i \<and> i < x + a \<and> y \<le> j \<and> j < y + b)"
proof -
  have "distinct (bipartite x a y b)" unfolding bipartite_def by (rule distinct_rows) (auto simp: inj_on_def)
  moreover have "(i, j) \<in> set (bipartite x a y b) \<longleftrightarrow> x \<le> i \<and> i < x + a \<and> y \<le> j \<and> j < y + b"
    by (auto simp: set_bipartite le_iff_add)
  ultimately show ?thesis by (simp add: count_list_distinct)
qed

lemma fat_tree_count:
  assumes "4 \<le> n"
  shows "count_list (fat_tree_edges layers n) (i, j) = of_bool (i < n \<and> j < n \<and> fat_tier layers n j = fat_tier layers n i + 1)"
proof -
  define q where "q = n div 4"
  have q: "1 \<le> q" "4 * q \<le> n" using assms by (auto simp: q_def)
  define spines cores where "spines = (if layers \<ge> 4 then q else n - 2 * q)" and "cores = n - 2 * q - spines"
  have "max 1 q = q" "n - q - q = n - 2 * q" using q by simp_all
  then have e: "fat_tree_edges layers n = bipartite 0 q q q @ bipartite q q (2 * q) spines @ bipartite (2 * q) spines (2 * q + spines) cores"
    unfolding fat_tree_edges_def Let_def q_def [symmetric] spines_def cores_def by (simp add: mult_2)
  show ?thesis
  proof (cases "layers \<ge> 4")
    case True
    then have c: "spines = q" "cores = n - 3 * q" using q by (simp_all add: spines_def cores_def)
    show ?thesis unfolding e c using True q
      by (auto simp: bipartite_count fat_tier_def Let_def q_def [symmetric])
  next
    case False
    then have c: "spines = n - 2 * q" "cores = 0" using q by (simp_all add: spines_def cores_def)
    show ?thesis unfolding e c using False q
      by (auto simp: bipartite_count fat_tier_def Let_def q_def [symmetric])
  qed
qed

lemma ahead_step:
  assumes "i < n" "s < n"
  shows "ahead n i ((i + s) mod n) = s"
proof (cases "i + s < n")
  case True
  then show ?thesis using assms by (simp add: ahead_def)
next
  case False
  then have "(i + s) mod n = i + s - n" using assms by (simp add: le_mod_geq)
  then show ?thesis using False assms by (simp add: ahead_def)
qed

lemma step_ahead:
  assumes "i < n" "j < n"
  shows "(i + ahead n i j) mod n = j"
proof (cases "i \<le> j")
  case True
  then have "ahead n i j = j - i" using assms by (simp add: ahead_def le_mod_geq)
  then show ?thesis using True assms by simp
next
  case False
  then have "ahead n i j = j + n - i" using assms by (simp add: ahead_def)
  then have "i + ahead n i j = j + n" using False assms by simp
  then show ?thesis using assms by simp
qed

lemma circulant_count:
  assumes "4 \<le> n" "n \<le> 2 ^ 31"
  shows "count_list (circulant_edges requested n) (i, j) = of_bool (circulant_link requested n i j)"
proof -
  define d where "d = min requested ((n - 1) div 2)"
  have "d \<le> (n - 1) div 2" by (simp add: d_def)
  then have d: "d < n" using assms(1) by linarith
  have m: "(i + s) mod 2 ^ 32 mod n = (i + s) mod n" if "i < n" "s < n" for i s :: nat using that assms(2) by simp
  have e: "circulant_edges requested n = concat (map (\<lambda>i. map (\<lambda>s. (i, (i + s) mod 2 ^ 32 mod n)) [1..<d + 1]) [0..<n])"
    by (simp add: circulant_edges_def Let_def d_def)
  have inj: "inj_on (\<lambda>s. (i + s) mod 2 ^ 32 mod n) (set [1..<d + 1])" if "i < n" for i
    by (rule inj_on_inverseI [where g = "ahead n i"]) (use that d m ahead_step in auto)
  have "distinct (circulant_edges requested n)" unfolding e by (rule distinct_rows [where f = "\<lambda>i. i"]) (use inj in simp_all)
  moreover have "(i, j) \<in> set (circulant_edges requested n) \<longleftrightarrow> circulant_link requested n i j"
  proof
    assume "(i, j) \<in> set (circulant_edges requested n)"
    then obtain s where s: "i < n" "1 \<le> s" "s \<le> d" "j = (i + s) mod 2 ^ 32 mod n" by (auto simp: e)
    then have "j = (i + s) mod n" "s < n" using m d by auto
    then show "circulant_link requested n i j" using s ahead_step [of i n s] unfolding circulant_link_def d_def [symmetric] by simp
  next
    assume c: "circulant_link requested n i j"
    then have "j = (i + ahead n i j) mod 2 ^ 32 mod n" "ahead n i j \<in> set [1..<d + 1]" "i < n"
      using step_ahead [of i n j] m [of i "ahead n i j"] d unfolding circulant_link_def d_def [symmetric] by auto
    then show "(i, j) \<in> set (circulant_edges requested n)" unfolding e by auto
  qed
  ultimately show ?thesis by (simp add: count_list_distinct)
qed

lemma component_edges_set:
  "(i, j) \<in> set (component_edges ss start) \<longleftrightarrow>
     j = i + 1 \<and> start \<le> i \<and> j < start + sum_list ss \<and> (\<forall>c < length ss. j \<noteq> start + sum_list (take c ss))"
proof (induction ss arbitrary: start)
  case (Cons s ss)
  define later where "later = sum_list ss"
  define free where "free \<longleftrightarrow> (\<forall>c < length ss. j \<noteq> start + s + sum_list (take c ss))"
  have all: "(\<forall>c < length (s # ss). j \<noteq> start + sum_list (take c (s # ss))) \<longleftrightarrow> j \<noteq> start \<and> free"
    by (auto simp: less_Suc_eq_0_disj add.assoc free_def)
  have own: "(i, j) \<in> (\<lambda>i. (start + i, start + i + 1)) ` {0..<s - 1} \<longleftrightarrow> j = i + 1 \<and> start \<le> i \<and> i + 1 < start + s"
    by (auto simp: image_iff intro: bexI [of _ "i - start"])
  have low: "j < start + s \<Longrightarrow> free" by (auto simp: free_def)
  have edge: "free \<Longrightarrow> j = start + s \<Longrightarrow> later = 0" by (cases ss) (auto simp: free_def later_def)
  have rest: "(i, j) \<in> set (component_edges ss (start + s)) \<longleftrightarrow> j = i + 1 \<and> start + s \<le> i \<and> j < start + s + later \<and> free"
    using Cons.IH [of "start + s"] by (simp add: free_def later_def)
  have "(i, j) \<in> set (component_edges (s # ss) start) \<longleftrightarrow>
      (i, j) \<in> (\<lambda>i. (start + i, start + i + 1)) ` {0..<s - 1} \<or> (i, j) \<in> set (component_edges ss (start + s))" by simp
  also have "\<dots> \<longleftrightarrow> j = i + 1 \<and> start \<le> i \<and> j < start + (s + later) \<and> j \<noteq> start \<and> free"
  proof (cases "j < start + s")
    case True
    then show ?thesis unfolding own rest using low by auto
  next
    case False
    then show ?thesis unfolding own rest using edge by (cases "j = start + s") auto
  qed
  finally show ?case unfolding all by (simp add: later_def)
qed simp

lemma component_edges_distinct: "distinct (component_edges ss start)"
proof (induction ss arbitrary: start)
  case (Cons s ss)
  then show ?case using component_edges_bounds [of _ _ ss "start + s"]
    by (fastforce simp: distinct_map inj_on_def)
qed simp

lemma components_count: "count_list (component_edges (component_sizes n) 0) (i, j) = of_bool (chain_link n i j \<and> \<not> component_start n j)"
proof -
  define k where "k = min n (max 2 (n div 4))"
  define base r where "base = n div k" and "r = n mod k"
  have c: "component_sizes n = map (\<lambda>c. base + (if c < r then 1 else 0)) [0..<k]"
    by (simp add: component_sizes_def Let_def k_def base_def r_def)
  have "k = 0 \<Longrightarrow> n = 0" by (simp add: k_def min_def split: if_splits)
  then have "r \<le> k" by (cases "k = 0") (auto simp: r_def less_imp_le)
  moreover have "k * base + r = n" by (simp add: base_def r_def)
  ultimately have tot: "sum_list (component_sizes n) = n" unfolding c sum_components by (simp add: min_def)
  have start: "sum_list (take x (component_sizes n)) = x * base + min x r" if "x < k" for x
    using that sum_components [of base r x] by (simp add: c take_map take_upt)
  have "(i, j) \<in> set (component_edges (component_sizes n) 0) \<longleftrightarrow> chain_link n i j \<and> \<not> component_start n j"
    unfolding component_edges_set component_start_def Let_def k_def [symmetric] base_def [symmetric] r_def [symmetric] chain_link_def
    using start tot by (auto simp: c)
  then show ?thesis by (simp add: count_list_distinct component_edges_distinct)
qed

lemma parallel_count:
  assumes "2 \<le> n"
  shows "count_list (parallel_edges n) (i, j) =
    (if i = 0 \<and> j = 1 then if n = 2 then 2 else min 8 (max 2 (n div 4)) else of_bool (chain_link n i j))"
proof -
  define parallel where "parallel = (if n = 2 then 2 else min 8 (max 2 (n div 4)))"
  have "count_list (replicate m x) y = (if x = y then m else 0)" for m and x y :: EdgeDraft by (induction m) auto
  moreover have "count_list (map (\<lambda>i. (i, i + 1)) [1..<n - 1]) (i, j) = of_bool (0 < i \<and> chain_link n i j)"
    by (subst count_list_distinct) (auto simp: distinct_map inj_on_def chain_link_def)
  ultimately have "count_list (parallel_edges n) (i, j) = (if (0, 1) = (i, j) then parallel else 0) + of_bool (0 < i \<and> chain_link n i j)"
    by (simp only: parallel_edges_def Let_def parallel_def count_list_append)
  then show ?thesis unfolding parallel_def [symmetric] by (auto simp: chain_link_def)
qed

lemma tie_count:
  assumes "2 \<le> n"
  shows "count_list (tie_storm_edges n) (i, j) =
    of_bool (if n = 2 then i = 0 \<and> j = 1 else i = 0 \<and> 0 < j \<and> j < n - 1 \<or> 0 < i \<and> i < n - 1 \<and> j = n - 1)"
proof (cases "n = 2")
  case False
  have T: "distinct (concat (map (\<lambda>m. [(0, m), (m, n - 1)]) ms)) \<and>
      ((i, j) \<in> set (concat (map (\<lambda>m. [(0, m), (m, n - 1)]) ms)) \<longleftrightarrow> i = 0 \<and> j \<in> set ms \<or> i \<in> set ms \<and> j = n - 1)"
    if "distinct ms" "set ms \<subseteq> {0<..<n - 1}" for ms
    using that by (induction ms) auto
  have "set [1..<n - 1] \<subseteq> {0<..<n - 1}" by auto
  from T [OF distinct_upt this] False
  have "distinct (tie_storm_edges n)" "(i, j) \<in> set (tie_storm_edges n) \<longleftrightarrow> i = 0 \<and> j \<in> set [1..<n - 1] \<or> i \<in> set [1..<n - 1] \<and> j = n - 1"
    unfolding tie_storm_edges_def by (simp_all only: if_False)
  then show ?thesis using False by (auto simp: count_list_distinct)
qed (auto simp: tie_storm_edges_def)

lemma hub_count: "count_list (hub_edges n) (i, j) = of_bool (i = 0 \<and> 0 < j \<and> j < n)"
  unfolding hub_edges_def by (subst count_list_distinct) (auto simp: distinct_map inj_on_def)

lemma tree_count: "count_list (tree_edges n) (i, j) = of_bool (0 < j \<and> j < n \<and> i = (j - 1) div 2)"
  unfolding tree_edges_def by (subst count_list_distinct) (auto simp: distinct_map inj_on_def)

lemma order_count:
  assumes "distinct order" "length order = n"
  shows "count_list (order_edges order) (i, j) = of_bool (\<exists>k. k + 1 < n \<and> order ! k = i \<and> order ! (k + 1) = j)"
proof -
  have "distinct (order_edges order)" using assms(1) by (simp add: order_edges_def distinct_zipI1)
  moreover have "(i, j) \<in> set (order_edges order) \<longleftrightarrow> (\<exists>k. k + 1 < n \<and> order ! k = i \<and> order ! (k + 1) = j)"
    using assms(2) by (auto simp: order_edges_def in_set_zip nth_tl less_diff_conv)
  ultimately show ?thesis by (simp add: count_list_distinct)
qed

lemma family_plan_spec:
  assumes "family_plan opts n = Some (src, dst, uniform, es)" "2 \<le> n" "n \<le> 2 ^ 31"
  shows "count_list es (i, j) = family_links opts n i j" "(src, dst, uniform) = family_ends opts n"
proof -
  note plan = assms(1) [unfolded family_plan_def]
  have n32: "0 < n" "n < 2 ^ 32" using assms(2,3) by simp_all
  note order = chain_order_facts [OF n32, of "so_seed opts"]
  show "count_list es (i, j) = family_links opts n i j"
  proof (cases "so_family opts")
    case Fam_kLeafSpine
    define spines where "spines = max 1 (n div min (max (unat (so_layers opts)) 2) 8)"
    have "spine_count (unat (so_layers opts)) n = spines" by (simp add: spine_count_def Let_def spines_def)
    with plan Fam_kLeafSpine have es: "es = bipartite 0 (n - spines) (n - spines) spines" by (auto simp: Let_def)
    have "spines \<le> n" unfolding spines_def using assms(2) by (intro max.boundedI div_le_dividend) simp
    then have "n - spines + spines = n" by simp
    then show ?thesis
      unfolding es bipartite_count family_links_def Fam_kLeafSpine SyntheticFamily.case Let_def spines_def [symmetric] by simp
  next
    case Fam_kDeepChain
    with plan have "es = order_edges (chain_order (so_seed opts) n)" by (simp add: Let_def)
    then show ?thesis using order_count [OF order(1,3)] by (simp add: family_links_def Fam_kDeepChain)
  next
    case Fam_kChain
    with plan have "es = BuildChainEdges n" by simp
    then show ?thesis by (simp only: family_links_def Fam_kChain SyntheticFamily.case) (simp add: chain_count)
  next
    case Fam_kOneWay
    with plan have "es = BuildChainEdges n" by simp
    then show ?thesis by (simp only: family_links_def Fam_kOneWay SyntheticFamily.case) (simp add: chain_count)
  next
    case Fam_kRing
    with plan have "es = ring_edges n" by simp
    then show ?thesis by (simp only: family_links_def Fam_kRing SyntheticFamily.case) (simp add: ring_count)
  next
    case Fam_kDiamond
    with plan have "es = (if n < 4 then BuildChainEdges n else diamond_edges n)" by simp
    then show ?thesis by (simp only: family_links_def Fam_kDiamond SyntheticFamily.case) (simp add: chain_count diamond_count)
  next
    case Fam_kFatTree
    with plan have "es = (if n < 4 then BuildChainEdges n else fat_tree_edges (unat (so_layers opts)) n)" by simp
    then show ?thesis by (simp only: family_links_def Fam_kFatTree SyntheticFamily.case) (simp add: chain_count fat_tree_count)
  next
    case Fam_kMesh
    with plan have "es = (if n < 4 then BuildChainEdges n else circulant_edges (2 + unat (so_extra_edges opts)) n)" by simp
    then show ?thesis by (simp only: family_links_def Fam_kMesh SyntheticFamily.case) (simp add: chain_count circulant_count [OF _ assms(3)])
  next
    case Fam_kDenseBounded
    with plan have "es = (if n < 4 then BuildChainEdges n else circulant_edges (8 + unat (so_extra_edges opts)) n)" by simp
    then show ?thesis by (simp only: family_links_def Fam_kDenseBounded SyntheticFamily.case) (simp add: chain_count circulant_count [OF _ assms(3)])
  next
    case Fam_kDisconnected
    with plan have "es = component_edges (component_sizes n) 0" by simp
    then show ?thesis by (simp only: family_links_def Fam_kDisconnected SyntheticFamily.case) (simp add: components_count)
  next
    case Fam_kParallelEqualCost
    with plan have "es = parallel_edges n" by simp
    then show ?thesis by (simp only: family_links_def Fam_kParallelEqualCost SyntheticFamily.case) (simp add: parallel_count [OF assms(2)])
  next
    case Fam_kTieStorm
    with plan have "es = tie_storm_edges n" by simp
    then show ?thesis by (simp only: family_links_def Fam_kTieStorm SyntheticFamily.case) (simp add: tie_count [OF assms(2)])
  next
    case Fam_kHighDegreeHub
    with plan have "es = hub_edges n" by simp
    then show ?thesis by (simp only: family_links_def Fam_kHighDegreeHub SyntheticFamily.case) (simp add: hub_count)
  next
    case Fam_kSparseLarge
    with plan have "es = tree_edges n" by simp
    then show ?thesis by (simp only: family_links_def Fam_kSparseLarge SyntheticFamily.case) (simp add: tree_count)
  qed (use plan in simp)
  show "(src, dst, uniform) = family_ends opts n"
  proof (cases "so_family opts")
    case Fam_kDeepChain
    have "chain_order (so_seed opts) n \<noteq> []" using order(3) n32(1) by auto
    with plan Fam_kDeepChain order(3) show ?thesis by (auto simp: family_ends_def Let_def hd_conv_nth last_conv_nth)
  next
    case Fam_kDisconnected
    have "[0..<min n (max 2 (n div 4))] = 0 # [1..<min n (max 2 (n div 4))]" using assms(2) by (simp add: upt_rec)
    with plan Fam_kDisconnected show ?thesis by (auto simp: family_ends_def Let_def component_sizes_def)
  qed (use plan in \<open>auto simp: family_ends_def Let_def spine_count_def\<close>)
qed

text \<open>Links and incidences, counted over the pairs of nodes.\<close>

lemma count_list_length:
  assumes "drafts_ok n es"
  shows "length es = (\<Sum>i < n. \<Sum>j < n. count_list es (i, j))"
proof -
  have "set es \<subseteq> {..<n} \<times> {..<n}" using assms by (auto simp: drafts_ok_def)
  from sum_count_set [OF this] have "length es = sum (count_list es) ({..<n} \<times> {..<n})" by simp
  also have "\<dots> = (\<Sum>i < n. \<Sum>j < n. count_list es (i, j))" by (simp add: sum.cartesian_product)
  finally show ?thesis .
qed

lemma incident_count:
  assumes "drafts_ok n es" "i < n"
  shows "incident es i = (\<Sum>j < n. count_list es (i, j) + count_list es (j, i))"
  using assms(1)
proof (induction es)
  case (Cons d es)
  obtain a b where d: "d = (a, b)" by fastforce
  have ab: "a < n" "b < n" "a \<noteq> b" and ok: "drafts_ok n es" using Cons.prems by (auto simp: d drafts_ok_def)
  have one: "(\<Sum>j < n. of_bool (j = x \<and> P) :: nat) = of_bool P" if "x < n" for x P using that by (cases P) auto
  have both: "count_list (d # es) (i, j) + count_list (d # es) (j, i) =
      (count_list es (i, j) + count_list es (j, i)) + of_bool (j = b \<and> a = i) + of_bool (j = a \<and> b = i)" for j
    by (cases "a = i"; cases "b = i"; cases "j = a"; cases "j = b") (simp_all add: d)
  have "(\<Sum>j < n. count_list (d # es) (i, j) + count_list (d # es) (j, i)) =
      (\<Sum>j < n. count_list es (i, j) + count_list es (j, i)) + (\<Sum>j < n. of_bool (j = b \<and> a = i)) + (\<Sum>j < n. of_bool (j = a \<and> b = i))"
    unfolding both sum.distrib by simp
  then show ?case using Cons.IH [OF ok] one [OF ab(1)] one [OF ab(2)] unfolding incident_Cons [of d es] by (simp add: incident_def d)
qed (simp add: incident_def)

lemma BuildTopology_plan:
  assumes "max_nodes (so_limits opts) \<le> 2 ^ 31" "BuildTopology opts = Inr t"
  defines "n \<equiv> NormalizeNodeCount (unat (so_nodes opts))"
  shows "family_plan opts n = Some (top_source t, top_destination t, top_uniform_cost t, top_edges t) \<and> n \<le> 2 ^ 31"
proof -
  have n: "2 \<le> n" "n \<le> max_nodes (so_limits opts)"
    using assms(2) node_count_facts by (auto simp: n_def BuildTopology_def Let_def split: if_splits)
  obtain src dst u es where p: "family_plan opts n = Some (src, dst, u, es)"
    using assms(2) n by (auto simp: n_def [symmetric] BuildTopology_def Let_def split: option.splits)
  let ?t0 = "\<lparr>top_node_count = n, top_source = src, top_destination = dst, top_uniform_cost = u, top_edges = [], top_degree = replicate n 0\<rparr>"
  have push: "push_edges (so_limits opts) es ?t0 = Inr t" using assms(2) n(2) p by (simp add: n_def [symmetric] BuildTopology_def)
  have "drafts_ok n es" using family_plan_facts [OF p n(1)] n(2) assms(1) by simp
  then have "same_shape ?t0 t \<and> top_edges t = top_edges ?t0 @ es"
    using push_edges_Inr [of ?t0 es "so_limits opts" t] push by simp
  then show ?thesis using p n(2) assms(1) by (simp add: same_shape_def)
qed

section \<open>Properties\<close>

text \<open>
  C31. Drawing ends and is fair: for every bound above 1 and every state of the generator the rejection loop stops, at the first draw below
  the acceptance limit; the result is below the bound, and every possible result has exactly the same number of accepted draws.
\<close>

theorem Below_terminates_fair:
  assumes "1 < bound"
  shows "(\<exists>k. (\<forall>j < k. accept_below bound \<le> draw state j) \<and> draw state k < accept_below bound \<and>
       Below bound state = (ucast (draw state k mod ucast bound), state + of_nat (k + 1) * kGamma)) \<and>
     fst (Below bound state) < bound \<and>
     (\<forall>v < bound. card {x :: u64. x < accept_below bound \<and> x mod ucast bound = ucast v} = (2 ^ 64 - 1) div unat bound)"
proof (intro conjI allI impI)
  have b: "\<not> bound \<le> 1" "0 < bound" using assms by (auto simp: word_gt_0)
  show "\<exists>k. (\<forall>j < k. accept_below bound \<le> draw state j) \<and> draw state k < accept_below bound \<and>
       Below bound state = (ucast (draw state k mod ucast bound), state + of_nat (k + 1) * kGamma)" using b(1) by (rule Below_first)
  show "fst (Below bound state) < bound" using b(2) by (rule Below_range)
qed (rule accepted_card)

theorem Below_terminates_fair_witness:
  "fst (Below 100 7) < 100 \<and> card {x :: u64. x < accept_below 100 \<and> x mod ucast (100 :: u32) = ucast (42 :: u32)} = 184467440737095516"
proof -
  note T = Below_terminates_fair [of 100 7, THEN conjunct2]
  show ?thesis using T [THEN conjunct1] T [THEN conjunct2, rule_format, of 42] by simp
qed

text \<open>
  C30. The topologies.  A request is refused only when its node count exceeds the ceiling, it names no family, or the links the family
  promises exceed in number the ceiling on links or, at some node, the ceiling on ports.  Otherwise it is realised completely: the source, the destination
  and the uniform-cost flag are those of the family, and there are exactly as many links from each node to each other as
  the family promises (\<open>family_links\<close> and \<open>family_ends\<close>, which do not mention the generator's loops; the order of the deep chain is the seeded shuffle of the
  nodes).  Every link joins two different nodes of the fabric, the recorded degrees are exactly the numbers of incident
  links and within their ceiling, and the reported endpoints are different nodes that are connected in the direction of the links,
  except for the disconnected family, where they are not.
\<close>

theorem BuildTopology_exact:
  assumes "max_nodes (so_limits opts) \<le> 2 ^ 31"
  defines "n \<equiv> NormalizeNodeCount (unat (so_nodes opts))"
  shows "case BuildTopology opts of
     Inr t \<Rightarrow> topology_ok opts t \<and> (top_source t, top_destination t, top_uniform_cost t) = family_ends opts n \<and>
       (\<forall>i j. count_list (top_edges t) (i, j) = family_links opts n i j)
   | Inl _ \<Rightarrow> max_nodes (so_limits opts) < n \<or> \<not> named_family (so_family opts) \<or>
       max_edges (so_limits opts) < (\<Sum>i < n. \<Sum>j < n. family_links opts n i j) \<or>
       (\<exists>i < n. max_ports_per_node (so_limits opts) < (\<Sum>j < n. family_links opts n i j + family_links opts n j i))"
proof (cases "BuildTopology opts")
  case (Inl e)
  have n2: "2 \<le> n" unfolding n_def by (rule node_count_facts)
  show ?thesis
  proof (cases "max_nodes (so_limits opts) < n \<or> family_plan opts n = None")
    case True
    with BuildTopology_refused [OF assms(1) Inl] Inl show ?thesis by (auto simp: n_def split: option.splits)
  next
    case False
    then obtain src dst u es where p: "family_plan opts n = Some (src, dst, u, es)" by (metis not_None_eq prod_cases4)
    have n: "n \<le> 2 ^ 31" using False assms(1) by simp
    note count = family_plan_spec(1) [OF p n2 n] and ok = family_plan_facts [OF p n2 n]
    have "max_edges (so_limits opts) < length es \<or> (\<exists>i. max_ports_per_node (so_limits opts) < incident es i)"
      using BuildTopology_refused [OF assms(1) Inl] False p by (auto simp: n_def)
    moreover have "incident es i = 0" if "\<not> i < n" for i using ok that by (auto simp: incident_def drafts_ok_def filter_empty_conv)
    ultimately have "max_edges (so_limits opts) < length es \<or> (\<exists>i < n. max_ports_per_node (so_limits opts) < incident es i)" by (metis not_less_zero)
    then show ?thesis using Inl count_list_length [of n es] incident_count [of n es] ok by (auto simp: count)
  qed
next
  case (Inr t)
  note plan = BuildTopology_plan [OF assms(1) Inr, folded n_def]
  have "2 \<le> n" unfolding n_def by (rule node_count_facts)
  from family_plan_spec [OF plan [THEN conjunct1] this plan [THEN conjunct2]] BuildTopology_ok [OF assms(1) Inr] Inr show ?thesis by simp
qed

definition demo_options :: SyntheticOptions where
  "demo_options = SyntheticOptions_default\<lparr>so_family := Fam_kDisconnected, so_nodes := 4\<rparr>"

theorem BuildTopology_exact_witness:
  "\<exists>t. BuildTopology demo_options = Inr t \<and> top_edges t = [(0, 1), (2, 3)] \<and> \<not> reaches (top_edges t) (top_source t) (top_destination t)"
proof -
  have "component_sizes 4 = [2, 2]" by (simp add: component_sizes_def Let_def upt_rec flip: numeral_2_eq_2)
  then have "family_plan demo_options 4 = Some (0, 2, False, [(0, 1), (2, 3)])"
    by (simp add: family_plan_def demo_options_def upt_rec)
  then have "map_sum id top_edges (BuildTopology demo_options) = Inr [(0, 1), (2, 3)]"
    by (simp add: BuildTopology_def demo_options_def SyntheticOptions_default_def ResourceLimits_default_def NormalizeNodeCount_def
        PushEdge_def Let_def)
  then obtain t where t: "BuildTopology demo_options = Inr t" "top_edges t = [(0, 1), (2, 3)]"
    by (cases "BuildTopology demo_options") auto
  have "max_nodes (so_limits demo_options) \<le> 2 ^ 31" by (simp add: demo_options_def SyntheticOptions_default_def ResourceLimits_default_def)
  from BuildTopology_exact [OF this] t have "topology_ok demo_options t" by simp
  with t show ?thesis by (simp add: topology_ok_def demo_options_def)
qed

end
