(* ===== verification/FabricCorrect.thy ===== *)
theory FabricCorrect
  imports SourcesCorrect
begin

text \<open>
  Correctness of the materialised fabrics: what the percentages decide does not shift the random stream, every link and endpoint has a port of
  its own, the reported endpoints are connected exactly in the families that promise it, and the local host is one node without links.
\<close>

section \<open>Builder runs\<close>

lemma AddNode_True:
  "AddNode n b = (True, b') \<Longrightarrow> b' = b\<lparr>b_nodes := b_nodes b @ [n\<lparr>node_ports := sort (node_ports n)\<rparr>]\<rparr> \<and> distinct (node_ports n)"
  by (auto simp: AddNode_def Reject_def Let_def split: if_splits)

lemma AddEdge_True: "AddEdge e b = (True, b') \<Longrightarrow> b' = b\<lparr>b_edges := b_edges b @ [e]\<rparr>"
  by (auto simp: AddEdge_def Reject_def split: if_splits)

lemma AddEndpoint_True: "AddEndpoint e b = (True, b') \<Longrightarrow> b' = b\<lparr>b_endpoints := b_endpoints b @ [e]\<rparr>"
  by (auto simp: AddEndpoint_def Reject_def split: if_splits)

lemma add_all_nodes:
  "add_all AddNode ns b = Inr b' \<Longrightarrow>
     b' = b\<lparr>b_nodes := b_nodes b @ map (\<lambda>n. n\<lparr>node_ports := sort (node_ports n)\<rparr>) ns\<rparr> \<and> list_all (\<lambda>n. distinct (node_ports n)) ns"
proof (induction ns arbitrary: b)
  case (Cons n ns)
  then obtain b1 where "AddNode n b = (True, b1)" "add_all AddNode ns b1 = Inr b'" by (auto split: prod.splits if_splits)
  with Cons.IH [of b1] AddNode_True [of n b b1] show ?case by simp
qed simp

lemma add_all_endpoints: "add_all AddEndpoint es b = Inr b' \<Longrightarrow> b' = b\<lparr>b_endpoints := b_endpoints b @ es\<rparr>"
proof (induction es arbitrary: b)
  case (Cons e es)
  then obtain b1 where "AddEndpoint e b = (True, b1)" "add_all AddEndpoint es b1 = Inr b'" by (auto split: prod.splits if_splits)
  with Cons.IH [of b1] AddEndpoint_True [of e b b1] show ?case by simp
qed simp

lemma add_all_ok:
  assumes "\<And>r b. builder_ok b \<Longrightarrow> builder_ok (snd (add r b))" "builder_ok b" "add_all add rs b = Inr b'"
  shows "builder_ok b'"
  using assms(2,3)
proof (induction rs arbitrary: b)
  case (Cons r rs)
  then obtain b1 where "add r b = (True, b1)" "add_all add rs b1 = Inr b'" by (auto split: prod.splits if_splits)
  with Cons assms(1) [of b r] show ?case by simp
qed simp

lemma Build_Inr:
  assumes "builder_ok b" "Build b = Inr s"
  shows "\<exists>d. s = prepared b\<lparr>snap_digest := d\<rparr> \<and> coherent_input b \<and> snapshot_wf s"
proof -
  have c: "coherent_input b" by (rule Build_coherent [OF assms])
  with Build_seal [OF assms(1) c] assms(2) seal_InrD obtain d where "s = prepared b\<lparr>snap_digest := d\<rparr>" by metis
  with c prepared_wf [OF assms(1) c] show ?thesis by auto
qed

section \<open>Rolls\<close>

definition with_percentages :: "u32 \<Rightarrow> u32 \<Rightarrow> u32 \<Rightarrow> u32 \<Rightarrow> u32 \<Rightarrow> SyntheticOptions \<Rightarrow> SyntheticOptions" where
  "with_percentages down degraded unknown port_disabled absent opts =
     opts\<lparr>so_percent_down := down, so_percent_degraded := degraded, so_percent_unknown := unknown, so_percent_port_disabled := port_disabled,
       so_percent_without_link_state_record := absent\<rparr>"

fun same_stream :: "build_error + link_loop \<Rightarrow> build_error + link_loop \<Rightarrow> bool" where
  "same_stream (Inl e) (Inl e') = (e = e')"
| "same_stream (Inr l) (Inr l') = (l'\<lparr>ll_link_states := ll_link_states l\<rparr> = l)"
| "same_stream _ _ = False"

lemma Percent_state: "snd (Percent p state) = snd (Below 100 state)"
  by (simp add: Percent_def split: prod.split)

lemma NextStaticCost_percentages: "NextStaticCost (with_percentages d g u p a opts) uniform state = NextStaticCost opts uniform state"
  by (simp add: NextStaticCost_def with_percentages_def)

lemma link_rolls_eq:
  "link_rolls opts uniform state =
     (let (c, s0) = NextStaticCost opts uniform state; s1 = snd (Below 100 s0); s2 = snd (Below 100 s1); s3 = snd (Below 100 s2)
      in ((c, fst (Percent (so_percent_without_link_state_record opts) s0),
           PickLinkState (fst (Percent (so_percent_down opts) s1)) (fst (Percent (so_percent_degraded opts) s2)) (fst (Percent (so_percent_unknown opts) s3))),
          snd (Below 100 s3)))"
  by (simp add: link_rolls_def Let_def Percent_state case_prod_unfold)

lemma link_rolls_percentages:
  "fst (fst (link_rolls (with_percentages d g u p a opts) uniform state)) = fst (fst (link_rolls opts uniform state))"
  "snd (link_rolls (with_percentages d g u p a opts) uniform state) = snd (link_rolls opts uniform state)"
  by (simp_all add: link_rolls_eq NextStaticCost_percentages Let_def split: prod.split)

lemma add_link_stream:
  assumes "l'\<lparr>ll_link_states := ll_link_states l\<rparr> = l"
  shows "same_stream (add_link opts names rel uniform tbl draft l) (add_link (with_percentages d g u p a opts) names rel uniform tbl draft l')"
proof -
  have f: "ll_random l' = ll_random l" "ll_used_ports l' = ll_used_ports l" "ll_link_ids l' = ll_link_ids l" "ll_builder l' = ll_builder l"
    using arg_cong [OF assms, of ll_random] arg_cong [OF assms, of ll_used_ports] arg_cong [OF assms, of ll_link_ids]
      arg_cong [OF assms, of ll_builder] by simp_all
  obtain c ab st s where r: "link_rolls opts uniform (ll_random l) = ((c, ab, st), s)" by (metis prod_cases3 surj_pair)
  obtain c' ab' st' s' where r': "link_rolls (with_percentages d g u p a opts) uniform (ll_random l) = ((c', ab', st'), s')"
    by (metis prod_cases3 surj_pair)
  have c: "c' = c" "s' = s" using link_rolls_percentages [of d g u p a opts uniform "ll_random l"] r r' by simp_all
  have e: "synthetic_edge (with_percentages d g u p a opts) names rel tbl up k e c = synthetic_edge opts names rel tbl up k e c" for up k e
    by (simp add: synthetic_edge_def with_percentages_def split: prod.split)
  show ?thesis using r r' unfolding c add_link_def f by (auto simp: e Let_def split: prod.splits)
qed

lemma add_links_stream:
  "l'\<lparr>ll_link_states := ll_link_states l\<rparr> = l \<Longrightarrow>
   same_stream (add_links opts names rel uniform tbl drafts l) (add_links (with_percentages d g u p a opts) names rel uniform tbl drafts l')"
proof (induction drafts arbitrary: l l')
  case (Cons draft drafts)
  note s = add_link_stream [OF Cons.prems, of opts names rel uniform tbl draft d g u p a]
  show ?case
    using s Cons.IH
    by (cases "add_link opts names rel uniform tbl draft l"; cases "add_link (with_percentages d g u p a opts) names rel uniform tbl draft l'") auto
qed simp

section \<open>Links and their ports\<close>

text \<open>The ports of each link, as a node and the index of the port there.\<close>

fun link_ports :: "nat list \<Rightarrow> EdgeDraft list \<Rightarrow> ((nat \<times> nat) \<times> nat \<times> nat) list" where
  "link_ports used [] = []"
| "link_ports used ((a, b) # es) =
     ((a, used ! a), (b, used ! b)) # link_ports (used[a := used ! a + 1, b := used ! b + 1]) es"

definition slots :: "('a \<times> 'a) list \<Rightarrow> 'a list" where
  "slots ps = concat (map (\<lambda>(x, y). [x, y]) ps)"

lemma slots_simps [simp]: "slots [] = []" "slots (p # ps) = fst p # snd p # slots ps" "slots (map (map_prod f f) ps) = map f (slots ps)"
  by (simp_all add: slots_def split: prod.split) (induction ps, auto)

lemma link_ports_bounds:
  assumes "drafts_ok (length used) es" "(i, k) \<in> set (slots (link_ports used es))"
  shows "i < length used \<and> used ! i \<le> k \<and> k < used ! i + incident es i"
  using assms
proof (induction used es rule: link_ports.induct)
  case (2 used a b es)
  have ab: "a < length used" "b < length used" "a \<noteq> b" "drafts_ok (length used) es" using 2(2) by (auto simp: drafts_ok_def)
  have c: "incident ((a, b) # es) i = (if a = i then 1 else 0) + (if b = i then 1 else 0) + incident es i" by (simp add: incident_def)
  show ?case
  proof (cases "(i, k) \<in> set (slots (link_ports (used[a := used ! a + 1, b := used ! b + 1]) es))")
    case True
    with 2(1) ab have "i < length used \<and> used[a := used ! a + 1, b := used ! b + 1] ! i \<le> k \<and> k < used[a := used ! a + 1, b := used ! b + 1] ! i + incident es i"
      by simp
    with ab show ?thesis unfolding c by (auto simp: nth_list_update split: if_splits)
  next
    case False
    with 2(3) ab show ?thesis unfolding c by auto
  qed
qed simp

lemma link_ports_distinct: "drafts_ok (length used) es \<Longrightarrow> distinct (slots (link_ports used es))"
proof (induction used es rule: link_ports.induct)
  case (2 used a b es)
  have ab: "a < length used" "b < length used" "a \<noteq> b" "drafts_ok (length used) es" using 2(2) by (auto simp: drafts_ok_def)
  let ?u = "used[a := used ! a + 1, b := used ! b + 1]"
  have "(i, used ! i) \<notin> set (slots (link_ports ?u es))" if "i = a \<or> i = b" for i
    using link_ports_bounds [of ?u es i "used ! i"] ab that by (auto simp: nth_list_update)
  with 2 ab show ?case by simp
qed simp

definition ends :: "EdgeRecord \<Rightarrow> (NodeId \<times> PortId) \<times> NodeId \<times> PortId" where
  "ends e = ((edge_from e, edge_from_port e), (edge_to e, edge_to_port e))"

definition attachment :: "fabric_names \<Rightarrow> PortId list list \<Rightarrow> nat \<times> nat \<Rightarrow> NodeId \<times> PortId" where
  "attachment names tbl s = (node_label names (fst s), tbl ! fst s ! snd s)"

lemma add_links_edges:
  assumes "add_links opts names rel uniform tbl drafts l = Inr l'" "drafts_ok (length (ll_used_ports l)) drafts"
  shows "\<exists>E. ll_builder l' = (ll_builder l)\<lparr>b_edges := b_edges (ll_builder l) @ E\<rparr> \<and>
     map ends E = map (map_prod (attachment names tbl) (attachment names tbl)) (link_ports (ll_used_ports l) drafts) \<and>
     map (\<lambda>e. (edge_from e, edge_to e)) E = map (map_prod (node_label names) (node_label names)) drafts \<and>
     (builder_ok (ll_builder l) \<longrightarrow> builder_ok (ll_builder l'))"
  using assms
proof (induction drafts arbitrary: l)
  case Nil
  then show ?case by (intro exI [of _ "[]"]) simp
next
  case (Cons d drafts)
  obtain a b where d: "d = (a, b)" by fastforce
  have ab: "a < length (ll_used_ports l)" "b < length (ll_used_ports l)" "a \<noteq> b" "drafts_ok (length (ll_used_ports l)) drafts"
    using Cons.prems(2) by (auto simp: d drafts_ok_def)
  obtain l1 where l1: "add_link opts names rel uniform tbl d l = Inr l1" "add_links opts names rel uniform tbl drafts l1 = Inr l'"
    using Cons.prems(1) by (auto split: sum.splits)
  obtain c ab' st s where r: "link_rolls opts uniform (ll_random l) = ((c, ab', st), s)" by (metis prod_cases3 surj_pair)
  define e where "e = synthetic_edge opts names rel tbl (ll_used_ports l) (length (ll_link_ids l)) d c"
  obtain b1 where b1: "AddEdge e (ll_builder l) = (True, b1)" "ll_builder l1 = b1"
    "ll_used_ports l1 = (ll_used_ports l)[a := ll_used_ports l ! a + 1, b := ll_used_ports l ! b + 1]"
    using l1(1) r ab by (auto simp: add_link_def d e_def Let_def split: prod.splits if_splits)
  have b1': "b1 = (ll_builder l)\<lparr>b_edges := b_edges (ll_builder l) @ [e]\<rparr>" using AddEdge_True [OF b1(1)] .
  have "drafts_ok (length (ll_used_ports l1)) drafts" using ab(4) b1(3) by simp
  from Cons.IH [OF l1(2) this] obtain E where E: "ll_builder l' = b1\<lparr>b_edges := b_edges b1 @ E\<rparr>"
    "map ends E = map (map_prod (attachment names tbl) (attachment names tbl)) (link_ports (ll_used_ports l1) drafts)"
    "map (\<lambda>e. (edge_from e, edge_to e)) E = map (map_prod (node_label names) (node_label names)) drafts"
    "builder_ok b1 \<longrightarrow> builder_ok (ll_builder l')" unfolding b1(2) by blast
  have e: "ends e = map_prod (attachment names tbl) (attachment names tbl) ((a, ll_used_ports l ! a), (b, ll_used_ports l ! b))"
    "(edge_from e, edge_to e) = (node_label names a, node_label names b)"
    using ab by (simp_all add: e_def synthetic_edge_def d ends_def attachment_def Let_def)
  have "builder_ok (ll_builder l) \<longrightarrow> builder_ok b1" using builder_ok_AddEdge [of "ll_builder l" e] b1(1) by simp
  with E e b1' show ?case by (intro exI [of _ "e # E"]) (simp add: d b1(3))
qed

section \<open>The built fabric\<close>

lemma rtrancl_image_inj:
  assumes "inj_on f A" "E \<subseteq> A \<times> A" "a \<in> A" "b \<in> A"
  shows "(f a, f b) \<in> (map_prod f f ` E)\<^sup>* \<longleftrightarrow> (a, b) \<in> E\<^sup>*"
proof
  have "\<exists>y \<in> A. y' = f y \<and> (a, y) \<in> E\<^sup>*" if "(f a, y') \<in> (map_prod f f ` E)\<^sup>*" for y'
    using that
  proof (induction rule: rtrancl_induct)
    case (step y' z')
    then obtain y where y: "y \<in> A" "y' = f y" "(a, y) \<in> E\<^sup>*" by blast
    obtain u v where uv: "(u, v) \<in> E" "y' = f u" "z' = f v" using step by auto
    with assms(1,2) y have "u = y" by (metis inj_onD mem_Sigma_iff subsetD)
    with uv y assms(2) show ?case by (metis mem_Sigma_iff rtrancl.rtrancl_into_rtrancl subsetD)
  qed (use assms in blast)
  moreover assume "(f a, f b) \<in> (map_prod f f ` E)\<^sup>*"
  ultimately obtain y where "y \<in> A" "f b = f y" "(a, y) \<in> E\<^sup>*" by blast
  with assms(1,4) show "(a, b) \<in> E\<^sup>*" by (metis inj_onD)
next
  assume "(a, b) \<in> E\<^sup>*"
  then show "(f a, f b) \<in> (map_prod f f ` E)\<^sup>*"
  proof (induction rule: rtrancl_induct)
    case (step y z)
    then have "(f y, f z) \<in> map_prod f f ` E" by force
    with step.IH show ?case by (rule rtrancl.rtrancl_into_rtrancl)
  qed simp
qed

abbreviation fabric_of :: "SyntheticOptions \<Rightarrow> fabric_names" where
  "fabric_of opts \<equiv> \<lparr>fn_family = SyntheticFamily_value (so_family opts), fn_seed = so_seed opts\<rparr>"

lemma port_table_nth: "i < top_node_count t \<Longrightarrow> node_port_ids names t ! i = map (port_label names i) [0..<top_degree t ! i + 1]"
  by (simp add: node_port_ids_def del: upt_Suc)

lemma materialise_facts:
  assumes "materialise opts rel t = Inr b" "topology_ok opts t"
  defines "names \<equiv> fabric_of opts"
  defines "tbl \<equiv> node_port_ids names t"
  shows "\<exists>E. builder_ok b \<and> b_source b = Src_kSynthetic \<and>
     b_nodes b = map (\<lambda>i. (synthetic_node names tbl i)\<lparr>node_ports := sort (tbl ! i)\<rparr>) [0..<top_node_count t] \<and>
     b_edges b = E \<and> b_endpoints b = map (synthetic_endpoint names tbl) [0..<top_node_count t] \<and>
     map ends E = map (map_prod (attachment names tbl) (attachment names tbl)) (link_ports (replicate (top_node_count t) 0) (top_edges t)) \<and>
     map (\<lambda>e. (edge_from e, edge_to e)) E = map (map_prod (node_label names) (node_label names)) (top_edges t) \<and>
     (\<forall>i < top_node_count t. distinct (tbl ! i))"
proof -
  let ?n = "top_node_count t"
  let ?b0 = "(FabricSnapshotBuilder_new (so_limits opts))\<lparr>b_generations := all_generations_one, b_source := Src_kSynthetic\<rparr>"
  obtain b1 l ls ps cs ds m where r: "add_all AddNode (map (synthetic_node names tbl) [0..<?n]) ?b0 = Inr b1"
    "add_links opts names rel (top_uniform_cost t) tbl (top_edges t)
       \<lparr>ll_random = so_seed opts, ll_used_ports = replicate ?n 0, ll_link_ids = [], ll_link_states = [], ll_builder = b1\<rparr> = Inr l"
    "add_all AddEndpoint (map (synthetic_endpoint names tbl) [0..<?n]) ((ll_builder l)\<lparr>b_link_states := ls, b_port_states := ps,
       b_capabilities := cs, b_failure_domains := ds, b_membership_complete := m\<rparr>) = Inr b"
    using assms(1) unfolding materialise_def Let_def names_def [symmetric] tbl_def [symmetric]
    by (auto split: sum.splits if_splits)
  define b2 where "b2 = (ll_builder l)\<lparr>b_link_states := ls, b_port_states := ps, b_capabilities := cs, b_failure_domains := ds, b_membership_complete := m\<rparr>"
  note r3 = r(3) [folded b2_def]
  have ok0: "builder_ok ?b0" using builder_ok_new [of "so_limits opts"] by (simp add: builder_ok_def)
  have ok1: "builder_ok b1" by (rule add_all_ok [OF builder_ok_AddNode ok0 r(1)])
  note n1 = add_all_nodes [OF r(1)]
  have "drafts_ok (length (replicate ?n (0 :: nat))) (top_edges t)" using assms(2) unfolding topology_ok_def length_replicate by blast
  with add_links_edges [OF r(2)] ok1 obtain E where E: "ll_builder l = b1\<lparr>b_edges := b_edges b1 @ E\<rparr>"
    "map ends E = map (map_prod (attachment names tbl) (attachment names tbl)) (link_ports (replicate ?n 0) (top_edges t))"
    "map (\<lambda>e. (edge_from e, edge_to e)) E = map (map_prod (node_label names) (node_label names)) (top_edges t)"
    "builder_ok (ll_builder l)" by auto
  have ok2: "builder_ok b2" using E(4) by (simp add: builder_ok_def b2_def)
  have "builder_ok b" by (rule add_all_ok [OF builder_ok_AddEndpoint ok2 r3])
  moreover have "b = b2\<lparr>b_endpoints := b_endpoints b2 @ map (synthetic_endpoint names tbl) [0..<?n]\<rparr>" by (rule add_all_endpoints [OF r3])
  moreover have "\<forall>i < ?n. distinct (tbl ! i)" using n1 by (auto simp: list_all_iff synthetic_node_def)
  ultimately show ?thesis using E n1
    by (intro exI [of _ E]) (simp add: FabricSnapshotBuilder_new_def synthetic_node_def b2_def)
qed

text \<open>The links of a snapshot as a relation on its nodes, and everything that occupies a port.\<close>

definition link_relation :: "FabricSnapshot \<Rightarrow> (NodeId \<times> NodeId) set" where
  "link_relation s = (\<lambda>e. (edge_from e, edge_to e)) ` set (snap_edges s)"

definition occupied_ports :: "FabricSnapshot \<Rightarrow> (NodeId \<times> PortId) list" where
  "occupied_ports s = slots (map ends (snap_edges s)) @ map (\<lambda>e. (ep_node e, ep_port e)) (snap_endpoints s)"

lemma mset_slots: "mset (slots ps) = sum_mset (image_mset (\<lambda>p. {#fst p, snd p#}) (mset ps))"
  by (induction ps) auto

lemma distinct_occupied:
  assumes "snap_edges s = sort_key edge_id E" "snap_endpoints s = sort_key ep_id P"
  shows "distinct (occupied_ports s) \<longleftrightarrow> distinct (slots (map ends E) @ map (\<lambda>e. (ep_node e, ep_port e)) P)"
proof (rule mset_eq_imp_distinct_iff)
  show "mset (occupied_ports s) = mset (slots (map ends E) @ map (\<lambda>e. (ep_node e, ep_port e)) P)"
    unfolding occupied_ports_def assms mset_append mset_slots mset_map by (simp only: mset_sort)
qed

lemma attachment_inj:
  assumes "inj_on (node_label names) {..<n}" "\<forall>i < n. distinct (tbl ! i)"
  shows "inj_on (attachment names tbl) {(i, k). i < n \<and> k < length (tbl ! i)}"
proof (rule inj_onI, clarify)
  fix i k j m assume *: "i < n" "k < length (tbl ! i)" "j < n" "m < length (tbl ! j)" "attachment names tbl (i, k) = attachment names tbl (j, m)"
  then have "node_label names i = node_label names j" "tbl ! i ! k = tbl ! j ! m" by (simp_all add: attachment_def)
  with * assms show "i = j \<and> k = m" by (metis inj_onD lessThan_iff nth_eq_iff_index_eq)
qed

lemma ports_exclusive:
  assumes t: "topology_ok opts t" and inj: "inj_on (node_label names) {..<top_node_count t}"
    and tbl: "tbl = node_port_ids names t" "\<forall>i < top_node_count t. distinct (tbl ! i)"
  shows "distinct (slots (map (map_prod (attachment names tbl) (attachment names tbl)) (link_ports (replicate (top_node_count t) 0) (top_edges t))) @
     map (\<lambda>i. attachment names tbl (i, top_degree t ! i)) [0..<top_node_count t])"
proof -
  let ?n = "top_node_count t"
  let ?S = "slots (link_ports (replicate ?n 0) (top_edges t))" and ?P = "map (\<lambda>i. (i, top_degree t ! i)) [0..<?n]"
  have d: "drafts_ok (length (replicate ?n (0 :: nat))) (top_edges t)" "\<forall>i < ?n. top_degree t ! i = incident (top_edges t) i"
    using t unfolding topology_ok_def length_replicate by blast+
  have bound: "i < ?n \<and> k < top_degree t ! i" if "(i, k) \<in> set ?S" for i k
    using link_ports_bounds [OF d(1) that] d(2) by auto
  have len: "length (tbl ! i) = top_degree t ! i + 1" if "i < ?n" for i using that tbl(1) by (simp add: port_table_nth)
  have "distinct (?S @ ?P)"
    using link_ports_distinct [OF d(1)] bound by (force simp: distinct_map inj_on_def)
  moreover have "inj_on (attachment names tbl) (set (?S @ ?P))"
  proof (rule inj_on_subset [OF attachment_inj [OF inj tbl(2)]])
    show "set (?S @ ?P) \<subseteq> {(i, k). i < ?n \<and> k < length (tbl ! i)}" using bound len by (fastforce simp: less_Suc_eq)
  qed
  ultimately have "distinct (map (attachment names tbl) (?S @ ?P))" by (simp only: distinct_map)
  then show ?thesis by (simp add: comp_def)
qed

lemma BuildSyntheticFabric_facts:
  assumes "max_nodes (so_limits opts) \<le> 2 ^ 31" "BuildSyntheticFabric opts True = Inr (s, r)"
  shows "\<exists>f. r = Some f \<and> sf_snapshot f = s \<and> snapshot_wf s \<and> snap_source s = Src_kSynthetic \<and>
     length (snap_nodes s) = NormalizeNodeCount (unat (so_nodes opts)) \<and> distinct (occupied_ports s) \<and>
     sf_source_node f \<noteq> sf_destination_node f \<and>
     ((sf_source_node f, sf_destination_node f) \<in> (link_relation s)\<^sup>* \<longleftrightarrow> so_family opts \<noteq> Fam_kDisconnected)"
proof -
  obtain rel t b f where r: "BuildTopology opts = Inr t" "materialise opts rel t = Inr b" "Build b = Inr s" "report_fabric opts t s = Inr f" "r = Some f"
    using assms(2) by (auto simp: BuildSyntheticFabric_def split: option.splits sum.splits)
  have t: "topology_ok opts t" by (rule BuildTopology_ok [OF assms(1) r(1)])
  let ?n = "top_node_count t" let ?names = "fabric_of opts"
  define tbl where "tbl = node_port_ids ?names t"
  obtain E where m: "builder_ok b" "b_source b = Src_kSynthetic"
    "b_nodes b = map (\<lambda>i. (synthetic_node ?names tbl i)\<lparr>node_ports := sort (tbl ! i)\<rparr>) [0..<?n]"
    "b_edges b = E" "b_endpoints b = map (synthetic_endpoint ?names tbl) [0..<?n]"
    "map ends E = map (map_prod (attachment ?names tbl) (attachment ?names tbl)) (link_ports (replicate ?n 0) (top_edges t))"
    "map (\<lambda>e. (edge_from e, edge_to e)) E = map (map_prod (node_label ?names) (node_label ?names)) (top_edges t)"
    "\<forall>i < ?n. distinct (tbl ! i)"
    using materialise_facts [OF r(2) t] unfolding tbl_def by blast
  obtain d where s: "s = prepared b\<lparr>snap_digest := d\<rparr>" "coherent_input b" "snapshot_wf s" using Build_Inr [OF m(1) r(3)] by blast
  have snap: "snap_nodes s = sort_key node_id (b_nodes b)" "snap_edges s = sort_key edge_id E" "snap_endpoints s = sort_key ep_id (b_endpoints b)"
    "snap_source s = Src_kSynthetic" using s(1) m(2,4) by (simp_all add: prepared_def assemble_def)
  have "distinct (map (node_label ?names) [0..<?n])"
    using s(2) m(3) by (simp add: coherent_input_def synthetic_node_def comp_def)
  then have inj: "inj_on (node_label ?names) {..<?n}" by (simp add: distinct_map lessThan_atLeast0)
  have ends: "top_source t < ?n" "top_destination t < ?n" "top_source t \<noteq> top_destination t" "drafts_ok ?n (top_edges t)"
    "reaches (top_edges t) (top_source t) (top_destination t) \<longleftrightarrow> so_family opts \<noteq> Fam_kDisconnected"
    "?n = NormalizeNodeCount (unat (so_nodes opts))"
    using t unfolding topology_ok_def by blast+
  have dis: "distinct (map ep_id (b_endpoints b))" using s(2) by (simp add: coherent_input_def)
  have find: "FindEndpoint s (endpoint_label ?names i) = Some (synthetic_endpoint ?names tbl i)" if "i < ?n" for i
  proof -
    have "sorted_wrt (<) (map ep_id (snap_endpoints s))" using s(3) by (simp add: snapshot_wf_def)
    then show ?thesis unfolding FindEndpoint_def
      by (simp only: endpoint_lookup_iff) (use that m(5) snap(3) in \<open>auto simp: synthetic_endpoint_def\<close>)
  qed
  have f: "sf_snapshot f = s" "sf_source_node f = node_label ?names (top_source t)" "sf_destination_node f = node_label ?names (top_destination t)"
    using r(4) find [OF ends(1)] find [OF ends(2)] by (auto simp: report_fabric_def synthetic_endpoint_def Let_def)
  have rel: "link_relation s = map_prod (node_label ?names) (node_label ?names) ` set (top_edges t)"
    using arg_cong [OF m(7), of set] by (simp add: link_relation_def snap(2))
  have "set (top_edges t) \<subseteq> {..<?n} \<times> {..<?n}" using ends(4) by (auto simp: drafts_ok_def)
  from rtrancl_image_inj [OF inj this, of "top_source t" "top_destination t"] ends
  have reach: "(sf_source_node f, sf_destination_node f) \<in> (link_relation s)\<^sup>* \<longleftrightarrow> so_family opts \<noteq> Fam_kDisconnected"
    by (simp add: f rel)
  have "sf_source_node f \<noteq> sf_destination_node f" unfolding f using inj ends by (meson inj_onD lessThan_iff)
  moreover have "map (\<lambda>e. (ep_node e, ep_port e)) (b_endpoints b) = map (\<lambda>i. attachment ?names tbl (i, top_degree t ! i)) [0..<?n]"
    unfolding m(5) by (auto simp: synthetic_endpoint_def attachment_def tbl_def port_table_nth nth_append)
  then have "distinct (occupied_ports s)"
    using ports_exclusive [OF t inj tbl_def m(8)] by (simp only: distinct_occupied [OF snap(2,3)] m(6))
  ultimately show ?thesis using r(5) f(1) s(3) snap ends(6) m(3) reach by simp
qed

section \<open>The local host\<close>

text \<open>The order of preference, without the loops.\<close>

definition preferred_adapters :: "LocalAdapter list \<Rightarrow> nat list" where
  "preferred_adapters as =
     filter (\<lambda>i. \<not> la_loopback (as ! i) \<and> la_up (as ! i)) [0..<length as] @
     filter (\<lambda>i. \<not> la_loopback (as ! i) \<and> \<not> la_up (as ! i)) [0..<length as] @
     filter (\<lambda>i. la_loopback (as ! i)) [0..<length as]"

lemma select_loop:
  "length sel \<le> 2 \<Longrightarrow> distinct is \<Longrightarrow> fold (select_step as tier) is sel = take 2 (sel @ filter (\<lambda>i. i \<notin> set sel \<and> adapter_usable tier (as ! i)) is)"
proof (induction "is" arbitrary: sel)
  case (Cons i js)
  show ?case
  proof (cases "length sel < 2 \<and> i \<notin> set sel \<and> adapter_usable tier (as ! i)")
    case True
    then have "fold (select_step as tier) (i # js) sel = fold (select_step as tier) js (sel @ [i])" by (simp add: select_step_def)
    also have "\<dots> = take 2 ((sel @ [i]) @ filter (\<lambda>k. k \<notin> set (sel @ [i]) \<and> adapter_usable tier (as ! k)) js)"
      by (rule Cons.IH) (use True Cons.prems in auto)
    also have "filter (\<lambda>k. k \<notin> set (sel @ [i]) \<and> adapter_usable tier (as ! k)) js = filter (\<lambda>k. k \<notin> set sel \<and> adapter_usable tier (as ! k)) js"
      using Cons.prems(2) by (intro filter_cong) auto
    finally show ?thesis using True by simp
  next
    case False
    then have "fold (select_step as tier) (i # js) sel = fold (select_step as tier) js sel" by (auto simp: select_step_def)
    also have "\<dots> = take 2 (sel @ filter (\<lambda>k. k \<notin> set sel \<and> adapter_usable tier (as ! k)) js)" using Cons by simp
    finally show ?thesis using False Cons.prems(1) by (cases "length sel < 2") auto
  qed
qed simp

lemma select_tier:
  assumes "distinct is" "filter (\<lambda>i. i \<notin> set xs \<and> adapter_usable tier (as ! i)) is = ys"
  shows "fold (select_step as tier) is (take 2 xs) = take 2 (xs @ ys)"
proof -
  have f: "fold (select_step as tier) is (take 2 xs) = take 2 (take 2 xs @ filter (\<lambda>i. i \<notin> set (take 2 xs) \<and> adapter_usable tier (as ! i)) is)"
    by (rule select_loop) (simp_all add: assms)
  show ?thesis
  proof (cases "2 \<le> length xs")
    case False
    then have "take 2 xs = xs" by simp
    then show ?thesis unfolding f by (simp only: assms(2))
  qed (simp add: f)
qed

lemma select_spec: "SelectEndpointAdapters as = take 2 (preferred_adapters as)"
proof -
  let ?is = "[0..<length as]"
  let ?A = "filter (\<lambda>i. \<not> la_loopback (as ! i) \<and> la_up (as ! i)) ?is"
    and ?B = "filter (\<lambda>i. \<not> la_loopback (as ! i) \<and> \<not> la_up (as ! i)) ?is" and ?C = "filter (\<lambda>i. la_loopback (as ! i)) ?is"
  have "fold (select_step as 0) ?is (take 2 []) = take 2 ([] @ ?A)"
    by (rule select_tier) (auto simp: adapter_usable_def)
  moreover have "fold (select_step as 1) ?is (take 2 ?A) = take 2 (?A @ ?B)"
    by (rule select_tier) (auto simp: adapter_usable_def intro!: filter_cong)
  moreover have "fold (select_step as 2) ?is (take 2 (?A @ ?B)) = take 2 ((?A @ ?B) @ ?C)"
    by (rule select_tier) (auto simp: adapter_usable_def intro!: filter_cong)
  moreover have "[0..<3] = [0, 1, 2 :: nat]" by (simp add: upt_rec)
  ultimately show ?thesis by (simp add: SelectEndpointAdapters_def preferred_adapters_def)
qed

lemma local_facts:
  assumes "MakeLocalHostFabric platform limits = Inr f"
  shows "snapshot_wf (sf_snapshot f) \<and> snap_source (sf_snapshot f) = Src_kReal \<and> length (snap_nodes (sf_snapshot f)) = 1 \<and>
     snap_edges (sf_snapshot f) = [] \<and> CapabilityView_Bindings (snap_capabilities (sf_snapshot f)) = [] \<and>
     \<not> fdv_membership_complete (snap_failure_domains (sf_snapshot f)) \<and>
     sf_source_node f = sf_destination_node f"
proof -
  obtain n b1 ps es b where r: "AddNode n ((FabricSnapshotBuilder_new limits)\<lparr>b_generations := all_generations_one, b_source := Src_kReal\<rparr>) = (True, b1)"
    "add_all AddEndpoint es (b1\<lparr>b_port_states := ps, b_link_states := [], b_capabilities := [], b_failure_domains := [], b_membership_complete := False\<rparr>) = Inr b"
    "Build b = Inr (sf_snapshot f)" "sf_source_node f = sf_destination_node f"
    using assms by (auto simp: MakeLocalHostFabric_def Let_def split: if_splits option.splits prod.splits sum.splits)
  let ?b2 = "b1\<lparr>b_port_states := ps, b_link_states := [], b_capabilities := [], b_failure_domains := [], b_membership_complete := False\<rparr>"
  have "builder_ok b1" using r(1) builder_ok_AddNode [of "(FabricSnapshotBuilder_new limits)\<lparr>b_generations := all_generations_one, b_source := Src_kReal\<rparr>" n]
      builder_ok_new [of limits] by (simp add: builder_ok_def)
  then have "builder_ok ?b2" by (simp add: builder_ok_def)
  from add_all_ok [OF builder_ok_AddEndpoint this r(2)] have ok: "builder_ok b" .
  note b1 = AddNode_True [OF r(1)] and b = add_all_endpoints [OF r(2)]
  obtain d where s: "sf_snapshot f = prepared b\<lparr>snap_digest := d\<rparr>" "snapshot_wf (sf_snapshot f)" using Build_Inr [OF ok r(3)] by blast
  show ?thesis
    using s r(4) b b1
    by (simp add: prepared_def assemble_def FabricSnapshotBuilder_new_def CapabilityView_new_def FailureDomainView_new_def Let_def)
qed

section \<open>Properties\<close>



text \<open>
  The percentages do not shift the random stream: whatever fractions of links and ports are to be down, degraded, unknown, disabled or without
  a record, the links of a fabric, their costs, their ports and the state of the generator after them are the same; only the
  link-state records differ.
\<close>

theorem percentages_keep_stream:
  "same_stream (add_links opts names rel uniform tbl drafts l)
     (add_links (with_percentages down degraded unknown port_disabled absent opts) names rel uniform tbl drafts l)"
  by (rule add_links_stream) simp

text \<open>
  The endpoints of the local host: the two adapters chosen are the first two in the order of preference, adapters that are up and no loopback
  first, then other adapters that are no loopback, then loopbacks, each group in the order of enumeration.
\<close>

theorem SelectEndpointAdapters_preference: "SelectEndpointAdapters as = take 2 (preferred_adapters as)"
  by (rule select_spec)

text \<open>
  The local host invents nothing: its view has one node and no link, publishes no capability, and does not claim to know
  the failure domains, so that absence stays unknown.
\<close>

theorem MakeLocalHostFabric_single_node:
  "case MakeLocalHostFabric platform limits of
     Inl e \<Rightarrow> True
   | Inr f \<Rightarrow> snapshot_wf (sf_snapshot f) \<and> snap_source (sf_snapshot f) = Src_kReal \<and> length (snap_nodes (sf_snapshot f)) = 1 \<and>
       snap_edges (sf_snapshot f) = [] \<and> CapabilityView_Bindings (snap_capabilities (sf_snapshot f)) = [] \<and>
       \<not> fdv_membership_complete (snap_failure_domains (sf_snapshot f)) \<and> sf_source_node f = sf_destination_node f"
  using local_facts [of platform limits] by (auto split: sum.split)

end
