(* ===== verification/Cli.thy ===== *)
theory Cli
  imports Explain Sources Dist
begin

text \<open>
  The command line (\<open>src/apps/pp_cli.cpp\<close>): option parsing, the demonstration fabric, the request built from options, and the commands
  as functions to the exit code and the text written to the standard output.  The client that \<open>plan --endpoint\<close> connects through, the platform's
  adapters, the files, the listener, the other threads of a coordinator and the session of a worker are arguments.
\<close>

section \<open>Options\<close>

type_synonym Args = "(string \<times> string) list"

definition Has :: "Args \<Rightarrow> string \<Rightarrow> bool" where
  "Has args name = list_ex (\<lambda>entry. fst entry = name) args"

definition Get :: "Args \<Rightarrow> string \<Rightarrow> string option" where
  "Get args name = map_of args name"

definition All :: "Args \<Rightarrow> string \<Rightarrow> string list" where
  "All args name = map snd (filter (\<lambda>entry. fst entry = name) args)"

definition GetOr :: "Args \<Rightarrow> string \<Rightarrow> string \<Rightarrow> string" where
  "GetOr args name fallback = (case Get args name of None \<Rightarrow> fallback | Some value \<Rightarrow> value)"

definition is_digit :: "char \<Rightarrow> bool" where
  "is_digit c \<longleftrightarrow> of_char CHR ''0'' \<le> (of_char c :: nat) \<and> (of_char c :: nat) \<le> of_char CHR ''9''"

definition add_digit :: "char \<Rightarrow> u64 \<Rightarrow> u64" where
  "add_digit c parsed = parsed * 10 + of_nat (of_char c - of_char CHR ''0'')"

definition GetU64 :: "Args \<Rightarrow> string \<Rightarrow> u64 \<Rightarrow> u64" where
  "GetU64 args name fallback =
     (case Get args name of
        None \<Rightarrow> fallback
      | Some value \<Rightarrow>
          if value = [] then fallback
          else if list_all is_digit value then fold add_digit value 0 else fallback)"

definition GetU32 :: "Args \<Rightarrow> string \<Rightarrow> u32 \<Rightarrow> u32" where
  "GetU32 args name fallback =
     (let value = GetU64 args name (ucast fallback) in if value > 0xFFFFFFFF then fallback else ucast value)"

definition option_like :: "string \<Rightarrow> bool" where
  "option_like token \<longleftrightarrow> length token > 2 \<and> take 2 token = ''--''"

fun ParseArgs :: "string list \<Rightarrow> Args" where
  "ParseArgs [] = []"
| "ParseArgs [token] = (if option_like token then [(drop 2 token, [])] else [])"
| "ParseArgs (token # following # rest) =
     (if option_like token
      then if \<not> option_like following then (drop 2 token, following) # ParseArgs rest
        else (drop 2 token, []) # ParseArgs (following # rest)
      else ParseArgs (following # rest))"

text \<open>The C library's \<open>strtoul\<close> and \<open>strtoull\<close> in base 10, on 64 bits, with the result for text without a number and out of range.\<close>

definition is_space :: "char \<Rightarrow> bool" where
  "is_space c \<longleftrightarrow> (let v = (of_char c :: nat) in v = 32 \<or> 9 \<le> v \<and> v \<le> 13)"

definition digits_value :: "string \<Rightarrow> nat" where
  "digits_value ds = fold (\<lambda>c v. v * 10 + (of_char c - of_char CHR ''0'')) ds 0"

definition strtoul :: "string \<Rightarrow> u64" where
  "strtoul value =
     (let t = dropWhile is_space (takeWhile (\<lambda>c. c \<noteq> CHR 0x00) value);
          negative = (t \<noteq> [] \<and> hd t = CHR ''-'');
          t = (if t \<noteq> [] \<and> (hd t = CHR ''-'' \<or> hd t = CHR ''+'') then tl t else t);
          v = digits_value (takeWhile is_digit t)
      in if v > 2 ^ 64 - 1 then 0xFFFFFFFFFFFFFFFF else if negative then - of_nat v else of_nat v)"

section \<open>The demonstration fabric\<close>

definition RequestFromLabel :: "string \<Rightarrow> PlanningRequestId" where "RequestFromLabel label = IdFromLabel 16 label"
definition NodeFromLabel :: "string \<Rightarrow> NodeId" where "NodeFromLabel label = IdFromLabel 16 label"
definition LinkFromLabel :: "string \<Rightarrow> LinkId" where "LinkFromLabel label = IdFromLabel 16 label"
definition PortFromLabel :: "string \<Rightarrow> PortId" where "PortFromLabel label = IdFromLabel 16 label"
definition EndpointFromLabel :: "string \<Rightarrow> EndpointId" where "EndpointFromLabel label = IdFromLabel 16 label"
definition CapabilityFromLabel :: "string \<Rightarrow> CapabilityId" where "CapabilityFromLabel label = IdFromLabel 8 label"
definition DomainFromLabel :: "string \<Rightarrow> FailureDomainId" where "DomainFromLabel label = IdFromLabel 8 label"

record DemoFabric =
  df_snapshot :: FabricSnapshot
  df_links :: "LinkId list"
  df_source :: EndpointId
  df_destination :: EndpointId
  df_source_node :: NodeId
  df_destination_node :: NodeId
  df_source_generation :: Generation
  df_destination_generation :: Generation
  df_speed_capability :: CapabilityId
  df_primary_domain :: FailureDomainId
  df_secondary_domain :: FailureDomainId
  df_nodes :: "NodeId list"

record DemoOptions =
  do_nodes :: u32
  do_epoch :: Generation
  do_topology :: Generation
  do_link_state :: Generation
  do_ports :: Generation
  do_capabilities :: Generation
  do_failure_domains :: Generation
  do_policy :: Generation
  do_constraints :: Generation
  do_down_links :: "u32 list"
  do_degraded_links :: "u32 list"
  do_limits :: ResourceLimits

definition DemoOptions_default :: DemoOptions where
  "DemoOptions_default = \<lparr>do_nodes = 6, do_epoch = 1, do_topology = 1, do_link_state = 1, do_ports = 1, do_capabilities = 1,
     do_failure_domains = 1, do_policy = 1, do_constraints = 1, do_down_links = [], do_degraded_links = [], do_limits = ResourceLimits_default\<rparr>"

definition demo_node_id :: "nat \<Rightarrow> NodeId" where "demo_node_id i = NodeFromLabel (''demo-node:'' @ to_string i)"

definition demo_port :: "nat \<Rightarrow> nat \<Rightarrow> PortId" where
  "demo_port i p = PortFromLabel (''demo-port:'' @ to_string i @ '':'' @ to_string p)"

definition demo_node :: "DemoOptions \<Rightarrow> nat \<Rightarrow> NodeRecord" where
  "demo_node opts i = \<lparr>node_id = demo_node_id i, node_attachment = IdFromLabel 16 (''demo-switch:'' @ to_string (i div 2)),
     node_entity_generation = 1, node_structural_generation = do_topology opts, node_ports = [demo_port i 0, demo_port i 1]\<rparr>"

text \<open>A pending link: its identity and the indices of its nodes.\<close>

type_synonym PendingLink = "LinkId \<times> nat \<times> nat"

definition pending_links :: "nat \<Rightarrow> PendingLink list" where
  "pending_links n = sort_key fst
     (map (\<lambda>i. (LinkFromLabel (''demo-link:'' @ to_string i @ ''-'' @ to_string (i + 1)), i, i + 1)) [0..<n - 1] @
      map (\<lambda>i. (LinkFromLabel (''demo-chord:'' @ to_string i @ ''-'' @ to_string (i + 2)), i, i + 2)) [0..<n - 2])"

definition demo_edge :: "DemoOptions \<Rightarrow> nat \<times> PendingLink \<Rightarrow> EdgeRecord" where
  "demo_edge opts = (\<lambda>(index, link, from_node, to_node).
     \<lparr>edge_id = link, edge_from = demo_node_id from_node, edge_to = demo_node_id to_node, edge_from_port = demo_port from_node 1,
      edge_to_port = demo_port to_node 0, edge_layer = Layer_kPhysical, edge_relationship = Rel_kDirectLink,
      edge_static_cost = of_nat (1 + index mod 3), edge_entity_generation = 1, edge_structural_generation = do_topology opts\<rparr>)"

definition demo_link_state :: "DemoOptions \<Rightarrow> nat \<times> EdgeRecord \<Rightarrow> LinkStateRecord" where
  "demo_link_state opts = (\<lambda>(index, edge).
     \<lparr>ls_link = edge_id edge,
      ls_state = (if of_nat index \<in> set (do_down_links opts) then Link_kDown
        else if of_nat index \<in> set (do_degraded_links opts) then Link_kDegraded else Link_kUp)\<rparr>)"

definition demo_port_states :: "EdgeRecord list \<Rightarrow> PortStateRecord list" where
  "demo_port_states edges = concat (map (\<lambda>e. map (\<lambda>p. \<lparr>ps_port = p, ps_state = Port_kUp\<rparr>) [edge_from_port e, edge_to_port e]) edges)"

definition demo_bindings :: "CapabilityId \<Rightarrow> nat \<Rightarrow> EdgeRecord list \<Rightarrow> PortStateRecord list \<Rightarrow> CapabilityBinding list" where
  "demo_bindings speed n edges port_states =
     map (\<lambda>(index, e). \<lparr>cap_subject = ForLink (edge_id e), cap_capability = speed, cap_value = (if index mod 2 = 0 then 100 else 10)\<rparr>) (enumerate 0 edges) @
     concat (map (\<lambda>i. \<lparr>cap_subject = ForNode (demo_node_id i), cap_capability = speed, cap_value = 100\<rparr> #
       map (\<lambda>p. \<lparr>cap_subject = ForPort (demo_port i p), cap_capability = speed, cap_value = 100\<rparr>) [0..<2]) [0..<n]) @
     map (\<lambda>r. \<lparr>cap_subject = ForPort (ps_port r), cap_capability = speed, cap_value = 100\<rparr>) port_states"

definition alternate_members :: "SubjectKey list \<Rightarrow> SubjectKey list \<times> SubjectKey list \<Rightarrow> SubjectKey list \<times> SubjectKey list" where
  "alternate_members subjects = fold (\<lambda>(index, s) (primary, secondary).
     if index mod 2 = 0 then (primary @ [s], secondary) else (primary, secondary @ [s])) (enumerate 0 subjects)"

definition port_member :: "PortStateRecord \<Rightarrow> SubjectKey list \<times> SubjectKey list \<Rightarrow> SubjectKey list \<times> SubjectKey list" where
  "port_member r = (\<lambda>(primary, secondary).
     if ps_port r < PortFromLabel ''demo-port:0:0'' \<or> length primary \<le> length secondary
     then (primary @ [ForPort (ps_port r)], secondary) else (primary, secondary @ [ForPort (ps_port r)]))"

definition demo_members :: "NodeId list \<Rightarrow> LinkId list \<Rightarrow> PortStateRecord list \<Rightarrow> SubjectKey list \<times> SubjectKey list" where
  "demo_members nodes links port_states =
     fold port_member port_states (alternate_members (map ForLink links) (alternate_members (map ForNode nodes) ([], [])))"

definition kMaxDemoDomainMembers :: nat where "kMaxDemoDomainMembers = 60000"

definition demo_domains :: "SubjectKey list \<times> SubjectKey list \<Rightarrow> FailureDomainRecord list \<times> bool" where
  "demo_domains = (\<lambda>(primary, secondary).
     if length primary + length secondary \<le> kMaxDemoDomainMembers
     then ([\<lparr>fd_domain = DomainFromLabel ''demo.domain.primary'', fd_risk_class = IdFromLabel 8 ''demo.risk.rack'', fd_members = primary\<rparr>,
            \<lparr>fd_domain = DomainFromLabel ''demo.domain.secondary'', fd_risk_class = IdFromLabel 8 ''demo.risk.site'', fd_members = secondary\<rparr>], True)
     else ([], False))"

definition demo_generations :: "DemoOptions \<Rightarrow> SnapshotGenerations" where
  "demo_generations opts = \<lparr>gen_topology = do_topology opts, gen_link_state = do_link_state opts, gen_ports = do_ports opts,
     gen_capabilities = do_capabilities opts, gen_failure_domains = do_failure_domains opts, gen_epoch = do_epoch opts,
     gen_policy = do_policy opts, gen_constraints = do_constraints opts\<rparr>"

definition demo_endpoint :: "string \<Rightarrow> NodeId \<Rightarrow> PortId \<Rightarrow> EndpointRecord" where
  "demo_endpoint label node port = \<lparr>ep_id = EndpointFromLabel label, ep_class = Class_kEndpoint, ep_node = node, ep_port = port, ep_entity_generation = 1\<rparr>"

definition BuildDemoFabric :: "DemoOptions \<Rightarrow> string + DemoFabric" where
  "BuildDemoFabric opts =
     (let n = unat (do_nodes opts) in
      if n < 2 then Inl ''a demonstration fabric needs at least two nodes''
      else let speed = CapabilityFromLabel ''demo.capability.speed'';
          nodes = map demo_node_id [0..<n];
          b = (FabricSnapshotBuilder_new (do_limits opts))\<lparr>b_generations := demo_generations opts, b_source := Src_kSynthetic\<rparr>
        in case add_all AddNode (map (demo_node opts) [0..<n]) b of
          Inl _ \<Rightarrow> Inl ''node rejected by the snapshot builder''
        | Inr b \<Rightarrow>
          let edges = map (demo_edge opts) (enumerate 0 (pending_links n)) in
          (case add_all AddEdge edges b of
             Inl _ \<Rightarrow> Inl ''edge rejected by the snapshot builder''
           | Inr b \<Rightarrow>
             let links = map edge_id edges; port_states = demo_port_states edges;
                 (domains, complete) = demo_domains (demo_members nodes links port_states);
                 source = demo_endpoint ''demo-endpoint:source'' (hd nodes) (PortFromLabel ''demo-port:0:0'');
                 destination = demo_endpoint ''demo-endpoint:destination'' (last nodes) (demo_port (n - 1) 1);
                 b = b\<lparr>b_link_states := map (demo_link_state opts) (enumerate 0 edges), b_port_states := port_states,
                   b_capabilities := demo_bindings speed n edges port_states, b_failure_domains := domains, b_membership_complete := complete\<rparr>;
                 b = snd (AddEndpoint source b); b = snd (AddEndpoint destination b)
             in case Build b of
               Inl (code, detail) \<Rightarrow> Inl (''snapshot build failed: '' @ EnumName kDiagnosticCodeNames (DiagnosticCode_value code) @ '' '' @ detail)
             | Inr snapshot \<Rightarrow>
                 Inr \<lparr>df_snapshot = snapshot, df_links = links, df_source = ep_id source, df_destination = ep_id destination,
                   df_source_node = hd nodes, df_destination_node = last nodes, df_source_generation = 1, df_destination_generation = 1,
                   df_speed_capability = speed, df_primary_domain = DomainFromLabel ''demo.domain.primary'',
                   df_secondary_domain = DomainFromLabel ''demo.domain.secondary'', df_nodes = nodes\<rparr>))"

definition DemoOptionsFromArgs :: "Args \<Rightarrow> DemoOptions" where
  "DemoOptionsFromArgs args = DemoOptions_default\<lparr>do_nodes := GetU32 args ''nodes'' 6, do_epoch := GetU64 args ''epoch'' 1,
     do_topology := GetU64 args ''topology'' 1, do_link_state := GetU64 args ''link-state'' 1,
     do_down_links := map (\<lambda>v. ucast (strtoul v)) (All args ''down-link''),
     do_degraded_links := map (\<lambda>v. ucast (strtoul v)) (All args ''degraded-link'')\<rparr>"

section \<open>The request\<close>

text \<open>A text split at the first occurrence of a character, if it occurs.\<close>

definition split_first :: "char \<Rightarrow> string \<Rightarrow> (string \<times> string) option" where
  "split_first c value = (if c \<in> set value then Some (takeWhile (\<lambda>d. d \<noteq> c) value, tl (dropWhile (\<lambda>d. d \<noteq> c) value)) else None)"

definition ParseRequirement :: "string \<Rightarrow> CapabilityRequirement option" where
  "ParseRequirement value =
     (case split_first CHR ''='' value of
        None \<Rightarrow> None
      | Some (label, remainder) \<Rightarrow>
          let (number, scope_text, comparator_text) =
            (case split_first CHR '':'' remainder of
               None \<Rightarrow> (remainder, [], [])
             | Some (number, tail_text) \<Rightarrow>
                 (case split_first CHR '':'' tail_text of
                    None \<Rightarrow> (number, tail_text, [])
                  | Some (scope_text, comparator_text) \<Rightarrow> (number, scope_text, comparator_text)))
          in Some \<lparr>req_capability = CapabilityFromLabel label,
            req_scope = (if scope_text = [] then CapScope_kEveryLink
              else case ParseEnum kCapabilityScopeNames CapabilityScope_cast scope_text of None \<Rightarrow> CapScope_kEveryLink | Some scope \<Rightarrow> scope),
            req_comparator = (if comparator_text = [] then Cmp_kAtLeast
              else case ParseEnum kCapabilityComparatorNames CapabilityComparator_cast comparator_text of None \<Rightarrow> Cmp_kAtLeast | Some x \<Rightarrow> x),
            req_value = strtoul number\<rparr>)"

definition exact_stage :: "NodeId \<Rightarrow> TransitStage" where
  "exact_stage node = \<lparr>stage_kind = Transit_kExact, stage_alternatives = [node]\<rparr>"

definition indexed_stages :: "NodeId list \<Rightarrow> string list \<Rightarrow> TransitStage list" where
  "indexed_stages nodes values =
     concat (map (\<lambda>value. let index = unat (ucast (strtoul value) :: u32) in if index < length nodes then [exact_stage (nodes ! index)] else []) values)"

definition cli_constraints :: "Args \<Rightarrow> DemoFabric \<Rightarrow> ConstraintSet" where
  "cli_constraints args fabric =
     \<lparr>cs_id = IdFromLabel 16 (''demo-constraints:'' @ GetOr args ''request'' ''default''),
      cs_generation = GetU64 args ''constraint-generation'' 1, cs_layer = Layer_kPhysical,
      forbidden_nodes = map (IdFromLabel 16) (All args ''forbid-node''),
      forbidden_links = map (IdFromLabel 16) (All args ''forbid-link''),
      forbidden_ports = map (IdFromLabel 16) (All args ''forbid-port''),
      forbidden_failure_domains = map (IdFromLabel 8) (All args ''avoid-domain''),
      forbidden_failure_domain_classes = map (IdFromLabel 8) (All args ''avoid-domain-class''),
      required_transit = map (\<lambda>value. exact_stage (NodeFromLabel value)) (All args ''transit'') @
        indexed_stages (df_nodes fabric) (All args ''transit-index''),
      required_capabilities = List.map_filter ParseRequirement (All args ''require-capability''),
      cs_max_hops = (if Has args ''max-hops'' then Some (GetU32 args ''max-hops'' 1) else None),
      cs_max_members = None, fail_closed_on_unknown_domains = True\<rparr>"

definition cli_policy :: "Args \<Rightarrow> PlanningPolicy" where
  "cli_policy args =
     \<lparr>pol_generation = GetU64 args ''policy-generation'' 1,
      pol_cost_model = \<lparr>hop_cost = GetU64 args ''hop-cost'' 1, degraded_penalty = GetU64 args ''degraded-penalty'' 0, locality_penalty = 0\<rparr>,
      allow_degraded_links = Has args ''allow-degraded'', allow_draining_ports = Has args ''allow-draining'',
      allow_maintenance_ports = Has args ''allow-maintenance'', require_operational_proof = (\<not> Has args ''waive-operational-proof''),
      allow_zero_hop_self_path = (\<not> Has args ''deny-zero-hop''), locality_scope = [], authority_validation = AuthMode_kNone\<rparr>"

definition cli_authority :: "Args \<Rightarrow> CallerAuthority" where
  "cli_authority args =
     \<lparr>auth_scope_mask = (if Has args ''enforce-scope'' \<and> \<not> Has args ''grant-scope'' then 0 else Scope_kSubmitPlanRequest),
      auth_publisher = IdFromLabel 8 ''pathplanner-cli-publisher'', auth_worker_boot = IdFromLabel 8 ''pathplanner-cli-client'',
      auth_coordinator_epoch = GetU64 args ''epoch'' 1,
      auth_attempt = IdFromLabel 8 (''pathplanner-cli-attempt:'' @ GetOr args ''request'' ''default''),
      auth_epoch_bound = False, auth_enforce_scope = Has args ''enforce-scope''\<rparr>"

definition BuildRequest :: "Args \<Rightarrow> DemoFabric \<Rightarrow> PlanningRequest" where
  "BuildRequest args fabric =
     (let index = GetU32 args ''index-source'' 0;
          source = (if Has args ''index-source'' \<and> unat index < length (df_nodes fabric)
            then \<lparr>ref_id = EndpointFromLabel (''demo-index-endpoint:'' @ to_string (unat index)), ref_class = Class_kEndpoint, ref_generation = 1\<rparr>
            else \<lparr>ref_id = df_source fabric, ref_class = Class_kEndpoint, ref_generation = df_source_generation fabric\<rparr>)
      in \<lparr>rq_id = RequestFromLabel (''demo-request:'' @ GetOr args ''request'' ''default''), rq_source = source,
          rq_destination = \<lparr>ref_id = df_destination fabric, ref_class = Class_kEndpoint, ref_generation = df_destination_generation fabric\<rparr>,
          rq_constraints = cli_constraints args fabric, rq_policy = cli_policy args,
          rq_max_candidates = unat (GetU32 args ''max-candidates'' 1),
          rq_mode = (if Has args ''diagnostic'' then Mode_kDiagnosticNonCurrent else Mode_kStandard), rq_authority = cli_authority args,
          rq_expect_epoch = False, rq_expected_epoch = 0, rq_expect_topology = False, rq_expected_topology = 0,
          rq_expect_snapshot = False, rq_expected_snapshot = nil_id 16\<rparr>)"

definition MakePlannerRuntime :: "DemoFabric \<Rightarrow> Runtime" where
  "MakePlannerRuntime fabric = PlannerRuntime_new ResourceLimits_default (Some (df_snapshot fabric)) None"

section \<open>The commands\<close>

text \<open>The exit code of a command and what it writes to the standard output.\<close>

type_synonym command_outcome = "nat \<times> string"

definition kProductVersion :: string where "kProductVersion = ''1.0.0''"

definition VersionBanner :: string where
  "VersionBanner = ''Path Planner '' @ kProductVersion @ '' (planning-rules '' @ to_string (unat kPlanningRuleVersion) @
     '', path-encoding '' @ to_string (unat kPathEncodingVersion) @ '', wire '' @ to_string (unat kWireProtocolVersion) @
     '', persisted '' @ to_string (unat kPersistedFormatVersion) @ '')''"

definition Usage :: string where
  "Usage = VersionBanner @ newline @
     ''usage: pathplanner <command> [--option value]...'' @ newline @
     ''commands:'' @ newline @
     ''  version                 print versions (product, rules, encodings, wire, store)'' @ newline @
     ''  snapshot                build and describe a snapshot (--source synthetic|local)'' @ newline @
     ''  plan                    compute and render a plan (--max-candidates --max-hops ...)'' @ newline @
     ''  replan                  plan, change state, replan and render the outcome'' @ newline @
     ''  explain                 plan and render rejections and explanations only'' @ newline @
     ''  compare                 plan with two candidates and render the rank explanation'' @ newline @
     ''  currentness             plan, invalidate and render the currentness report'' @ newline @
     ''  inspect-store           validate and describe a persisted planning store'' @ newline @
     ''  coordinator             run a distributed coordinator (--port --epoch --store)'' @ newline @
     ''  worker                  run a distributed worker (--coordinator host:port)'' @ newline"

definition CommandVersion :: command_outcome where
  "CommandVersion = (0, VersionBanner @ newline @ ''product_version '' @ kProductVersion @ newline @
     ''planning_rule_version '' @ to_string (unat kPlanningRuleVersion) @ newline @
     ''path_encoding_version '' @ to_string (unat kPathEncodingVersion) @ newline @
     ''plan_digest_scheme_version '' @ to_string (unat kPlanDigestSchemeVersion) @ newline @
     ''wire_protocol_version '' @ to_string (unat kWireProtocolVersion) @ newline @
     ''persisted_format_version '' @ to_string (unat kPersistedFormatVersion) @ newline)"

definition detail_line :: "string \<Rightarrow> string" where
  "detail_line detail = ''detail '' @ Quote detail @ newline"

definition status_line :: "PlanStatus \<Rightarrow> string" where
  "status_line status = ''status '' @ EnumName kPlanStatusNames (PlanStatus_value status) @ newline"

definition malformed_line :: string where "malformed_line = ''status MALFORMED_REQUEST'' @ newline"

definition CommandSnapshot :: "adapter_report list option option \<Rightarrow> Args \<Rightarrow> command_outcome" where
  "CommandSnapshot platform args =
     (if GetOr args ''source'' ''synthetic'' = ''local''
      then case MakeLocalHostFabric platform ResourceLimits_default of
        Inl error \<Rightarrow> (1, ''status UNSUPPORTED'' @ newline @ detail_line error)
      | Inr fabric \<Rightarrow> (0, RenderSnapshotSummary (sf_snapshot fabric))
      else case BuildDemoFabric (DemoOptionsFromArgs args) of
        Inl error \<Rightarrow> (1, malformed_line @ detail_line error)
      | Inr fabric \<Rightarrow> (0, RenderSnapshotSummary (df_snapshot fabric) @ ''snapshot links='' @ size_text (length (df_links fabric)) @ newline))"

text \<open>What the distributed client answers when a request is submitted to an endpoint.\<close>

datatype submission = Unconnected string | NotSubmitted PlanStatus string | Submitted PlanningResult

definition exit_code :: "PlanningResult \<Rightarrow> nat" where
  "exit_code r = (if CarriesCandidates (res_status r) then 0 else 1)"

definition CommandPlan :: "(string \<Rightarrow> PlanningRequest \<Rightarrow> submission) \<Rightarrow> Args \<Rightarrow> command_outcome" where
  "CommandPlan client args =
     (case BuildDemoFabric (DemoOptionsFromArgs args) of
        Inl error \<Rightarrow> (1, malformed_line @ detail_line error)
      | Inr fabric \<Rightarrow>
          let request = BuildRequest args fabric in
          if Has args ''endpoint''
          then case client (GetOr args ''endpoint'' []) request of
            Unconnected error \<Rightarrow> (1, ''status UNAVAILABLE'' @ newline @ detail_line error)
          | NotSubmitted status error \<Rightarrow> (1, status_line status @ (if error = [] then [] else detail_line error))
          | Submitted remote \<Rightarrow> (exit_code remote, RenderResult remote (Has args ''verbose''))
          else let (result, rt) = Plan request (MakePlannerRuntime fabric) in
            (exit_code result, RenderResult result (Has args ''verbose'') @ (if Has args ''stats'' then RenderStatistics (run_stats rt) else [])))"

text \<open>The first link a result's first candidate traverses.\<close>

definition first_traversed :: "PlanningResult \<Rightarrow> LinkId option" where
  "first_traversed r =
     (case res_candidates r of [] \<Rightarrow> None
      | c # _ \<Rightarrow> (case path_hops (cand_path c) of [] \<Rightarrow> None | hop # _ \<Rightarrow> Some (hop_link hop)))"

fun position :: "'a \<Rightarrow> 'a list \<Rightarrow> nat" where
  "position x [] = 0"
| "position x (y # ys) = (if y = x then 0 else position x ys + 1)"

definition replan_down_index :: "Args \<Rightarrow> DemoFabric \<Rightarrow> PlanningResult \<Rightarrow> u32" where
  "replan_down_index args fabric initial =
     (let index = GetU32 args ''down-link'' 0 in
      if Has args ''down-link'' then index
      else case first_traversed initial of
        None \<Rightarrow> index
      | Some traversed \<Rightarrow> let i = position traversed (df_links fabric) in if i < length (df_links fabric) then of_nat i else index)"

definition CommandReplan :: "Args \<Rightarrow> command_outcome" where
  "CommandReplan args =
     (let opts = (DemoOptionsFromArgs args)\<lparr>do_down_links := []\<rparr> in
      case BuildDemoFabric opts of
        Inl error \<Rightarrow> (1, malformed_line)
      | Inr fabric \<Rightarrow>
          let request = BuildRequest args fabric;
              (initial, rt) = Plan request (MakePlannerRuntime fabric);
              prior = MakePathPlan request initial (run_sequence rt);
              rt = snd (Retain prior rt);
              out = RenderResult initial False @ ''retained_plans '' @ size_text (RetainedPlanCount rt) @ newline;
              changed = opts\<lparr>do_down_links := do_down_links opts @ [replan_down_index args fabric initial], do_link_state := do_link_state opts + 1\<rparr>
          in case BuildDemoFabric changed of
            Inl error \<Rightarrow> (1, out @ malformed_line)
          | Inr changed_fabric \<Rightarrow>
              let out = out @ RenderCurrentness (CheckCurrentness prior rt);
                  rt = PublishSnapshot (Some (df_snapshot changed_fabric)) rt;
                  (((ok, report), replanned), rt) = Replan prior request rt
              in (0, out @ RenderReplanReport report @ RenderResult replanned False))"

definition CommandExplain :: "Args \<Rightarrow> command_outcome" where
  "CommandExplain args =
     (case BuildDemoFabric (DemoOptionsFromArgs args) of
        Inl error \<Rightarrow> (1, malformed_line)
      | Inr fabric \<Rightarrow>
          let result = fst (Plan (BuildRequest args fabric) (MakePlannerRuntime fabric)) in
          (0, status_line (res_status result) @
             (case res_primary_failure result of None \<Rightarrow> []
              | Some code \<Rightarrow> ''primary_failure '' @ EnumName kDiagnosticCodeNames (DiagnosticCode_value code) @ newline) @
             RenderRejections (res_rejections result) @ concat (map (render_entry ''explanation'') (res_explanations result))))"

definition CommandCompare :: "Args \<Rightarrow> command_outcome" where
  "CommandCompare args =
     (case BuildDemoFabric (DemoOptionsFromArgs args) of
        Inl error \<Rightarrow> (1, malformed_line)
      | Inr fabric \<Rightarrow>
          let request = BuildRequest args fabric;
              request = (if rq_max_candidates request < 2 then request\<lparr>rq_max_candidates := 2\<rparr> else request);
              result = fst (Plan request (MakePlannerRuntime fabric))
          in (0, RenderResult result False @
             (if length (res_candidates result) \<ge> 2
              then RenderRankExplanation (res_candidates result ! 0) (res_candidates result ! 1)
              else ''compare unavailable: fewer than two candidates'' @ newline)))"

definition CommandCurrentness :: "Args \<Rightarrow> command_outcome" where
  "CommandCurrentness args =
     (let opts = DemoOptionsFromArgs args in
      case BuildDemoFabric opts of
        Inl error \<Rightarrow> (1, malformed_line)
      | Inr fabric \<Rightarrow>
          let request = BuildRequest args fabric;
              (result, rt) = Plan request (MakePlannerRuntime fabric);
              plan = MakePathPlan request result (run_sequence rt);
              rt = snd (Retain plan rt);
              out = RenderCurrentness (CheckCurrentness plan rt);
              (out, rt) = (case BuildDemoFabric (opts\<lparr>do_link_state := do_link_state opts + 1\<rparr>) of
                  Inl error \<Rightarrow> (out, rt)
                | Inr advanced \<Rightarrow> let rt = PublishSnapshot (Some (df_snapshot advanced)) rt in (out @ RenderCurrentness (CheckCurrentness plan rt), rt));
              notice = \<lparr>inv_nodes = [], inv_links = (case first_traversed result of None \<Rightarrow> [] | Some link \<Rightarrow> [link]), inv_ports = [],
                inv_capabilities = [], inv_failure_domains = [], inv_conservative_all = (first_traversed result = None)\<rparr>;
              (invalidation, rt) = ApplyInvalidation notice rt
          in (0, out @ ''invalidation affected='' @ size_text (length (irep_affected invalidation)) @
             '' revalidation_required='' @ size_text (length (irep_marked invalidation)) @
             '' retired='' @ size_text (length (irep_retired invalidation)) @ '' conservative='' @ flag_text (irep_conservative invalidation) @ newline @
             RenderCurrentness (CheckCurrentness plan rt)))"

definition render_stored :: "StoredPlanRecord \<Rightarrow> string" where
  "render_stored r = ''record plan='' @ FixedId_ToString (stp_plan r) @ '' request='' @ FixedId_ToString (stp_request r) @
     '' generation='' @ StrongUInt_ToString (stp_generation r) @ '' status='' @ EnumName kPlanStatusNames (PlanStatus_value (stp_status r)) @
     '' candidates='' @ size_text (length (stp_candidates r)) @ newline"

definition CommandInspectStore :: "files \<Rightarrow> Args \<Rightarrow> command_outcome" where
  "CommandInspectStore fs args =
     (let path = GetOr args ''path'' [] in
      if path = [] then (1, malformed_line @ detail_line ''--path is required'')
      else case LoadPlanStore path ResourceLimits_default fs of
        Inl (code, detail) \<Rightarrow> (1, ''store_ok false'' @ newline @ ''store_code '' @ EnumName kDiagnosticCodeNames (DiagnosticCode_value code) @ newline @
          (if detail = [] then [] else ''store_detail '' @ Quote detail @ newline) @ ''store_records 0'' @ newline)
      | Inr records \<Rightarrow> (0, ''store_ok true'' @ newline @ ''store_code OK'' @ newline @
          ''store_records '' @ size_text (length records) @ newline @ concat (map render_stored records)))"

section \<open>Coordinator and worker\<close>

text \<open>
  The loop of \<open>coordinator\<close> that waits until the coordinator has stopped or enough publications were accepted.  The other threads act between
  its reads: \<open>env\<close> is applied before each of them, five times a round.  The loop has no bound of its own; \<open>None\<close> means that it goes on for ever.
\<close>

definition save_failed :: "string + unit \<Rightarrow> string" where
  "save_failed saved = (case saved of Inl e \<Rightarrow> ''store_save_failed '' @ Quote e @ newline | Inr _ \<Rightarrow> [])"

definition advance_and_save :: "interference \<Rightarrow> file_outcome \<Rightarrow> nat \<Rightarrow> Coordinator \<Rightarrow> Coordinator \<times> string" where
  "advance_and_save env outcome step c =
     (let new_epoch = co_epoch c + 1;
          (advanced, c, notices) = Coordinator_AdvanceEpoch new_epoch (env step c);
          c = env (step + 1) c;
          line = (case advanced of Inl _ \<Rightarrow> [] | Inr _ \<Rightarrow> ''epoch_advanced '' @ StrongUInt_ToString (co_epoch c) @ newline);
          (saved, c) = SaveStore outcome c
      in (c, line @ save_failed saved))"

partial_function (option) watch :: "interference \<Rightarrow> file_outcome \<Rightarrow> u64 \<Rightarrow> u64 \<Rightarrow> nat \<Rightarrow> Coordinator \<Rightarrow> (Coordinator \<times> string) option" where
  "watch env outcome exit_after advance_after round c =
     (if \<not> co_running (env (5 * round) c) then Some (env (5 * round) c, [])
      else if exit_after \<noteq> 0 \<and> co_accepted (env (5 * round + 1) (env (5 * round) c)) \<ge> exit_after
      then Some (let c = env (5 * round + 2) (env (5 * round + 1) (env (5 * round) c))
        in (c, ''accepted_publications '' @ StrongUInt_ToString (co_accepted c) @ newline))
      else if advance_after \<noteq> 0 \<and> co_accepted (env (5 * round + 2) (env (5 * round + 1) (env (5 * round) c))) \<ge> advance_after
      then Some (advance_and_save env outcome (5 * round + 3) (env (5 * round + 2) (env (5 * round + 1) (env (5 * round) c))))
      else watch env outcome exit_after advance_after (round + 1) (env (5 * round + 2) (env (5 * round + 1) (env (5 * round) c))))"

definition write_endpoint_file :: "bool \<Rightarrow> string \<Rightarrow> string \<Rightarrow> Coordinator \<Rightarrow> Coordinator" where
  "write_endpoint_file can_open path endpoint c =
     (if path \<noteq> [] \<and> can_open then c\<lparr>co_files := (co_files c)(path \<mapsto> map of_char (endpoint @ newline))\<rparr> else c)"

text \<open>
  \<open>coordinator\<close>: the socket runtime, the listener that a bind address and a port give, whether the endpoint file can be opened, what
  becomes of the two saves, and the other threads are arguments.  The result is \<open>None\<close> when the command never returns; messages for the standard error are dropped.
\<close>

record coordinator_world =
  cdw_socket_runtime :: "string + unit"
  cdw_listener :: "string \<Rightarrow> u16 \<Rightarrow> string + u16"
  cdw_endpoint_file :: bool
  cdw_save :: file_outcome
  cdw_final_save :: file_outcome
  cdw_threads :: interference

definition CommandCoordinator :: "coordinator_world \<Rightarrow> files \<Rightarrow> Args \<Rightarrow> ((nat \<times> string) \<times> files) option" where
  "CommandCoordinator w fs args =
     (let opts = DemoOptionsFromArgs args in
      case BuildDemoFabric opts of
        Inl error \<Rightarrow> Some ((1, []), fs)
      | Inr fabric \<Rightarrow>
          let bind = GetOr args ''bind'' ''127.0.0.1''; port = ucast (GetU32 args ''port'' 0); store = GetOr args ''store'' [];
              c = Coordinator_new ResourceLimits_default (Some (df_snapshot fabric)) (do_epoch opts) store fs
          in case Coordinator_Start (cdw_socket_runtime w) (ValidateHostString bind) (cdw_listener w bind port) c of
            (Inl error, c) \<Rightarrow> Some ((1, []), co_files c)
          | (Inr bound, c) \<Rightarrow>
              let env = cdw_threads w; endpoint = FormatEndpoint bind bound; c = env 0 c;
                  out = ''endpoint '' @ endpoint @ newline @ ''epoch '' @ StrongUInt_ToString (co_epoch c) @ newline;
                  c = env 1 c;
                  out = out @ ''recovered_plans '' @ size_text (co_recovered c) @ newline;
                  c = write_endpoint_file (cdw_endpoint_file w) (GetOr args ''endpoint-file'' []) endpoint c
              in (case watch env (cdw_save w) (GetU64 args ''exit-after-plans'' 0) (GetU64 args ''advance-epoch-after-plans'' 0) 1 c of
                    None \<Rightarrow> None
                  | Some (c, watched) \<Rightarrow>
                      let (saved, c) = (if store = [] then (Inr (), c) else SaveStore (cdw_final_save w) (env 2 c));
                          last_line = (if store = [] then [] else case saved of Inl _ \<Rightarrow> save_failed saved | Inr _ \<Rightarrow> ''store_saved '' @ store @ newline)
                      in Some ((0, out @ watched @ last_line), co_files (Coordinator_Stop c))))"

text \<open>
  The thread that \<open>worker\<close> starts to stop itself after a number of plans.  \<open>observed\<close> is what its reads see of the worker, two reads a
  round; the result says whether it called \<open>Stop\<close>, and is \<open>None\<close> when the thread never ends.
\<close>

partial_function (option) monitor :: "(nat \<Rightarrow> WorkerState) \<Rightarrow> u64 \<Rightarrow> nat \<Rightarrow> bool option" where
  "monitor observed exit_after round =
     (if wk_fenced_flag (observed (2 * round)) then Some False
      else if wk_plans_served (observed (2 * round + 1)) \<ge> exit_after then Some True
      else monitor observed exit_after (round + 1))"

text \<open>
  \<open>worker\<close>: the bytes of the entropy device for a generated identity, and what becomes of the session that \<open>Worker::Run\<close> holds with the
  coordinator at an endpoint (its result, the states another thread observes, the final state), are arguments.  The command waits for the monitor thread.
\<close>

record worker_world =
  ww_boot_device :: bytes
  ww_publisher_device :: bytes
  ww_run :: "string \<Rightarrow> WorkerState \<Rightarrow> (string + unit) \<times> (nat \<Rightarrow> WorkerState) \<times> WorkerState"

definition CommandWorker :: "worker_world \<Rightarrow> Args \<Rightarrow> command_outcome option" where
  "CommandWorker w args =
     (case BuildDemoFabric (DemoOptionsFromArgs args) of
        Inl error \<Rightarrow> Some (1, [])
      | Inr fabric \<Rightarrow>
          let boot = GetOr args ''boot-id'' []; publisher = GetOr args ''publisher'' [];
              boot_id = (if boot = [] then GenerateWorkerBootId (ww_boot_device w) else MakeWorkerBootIdFromLabel boot);
              publisher_id = (if publisher = [] then GeneratePublisherId (ww_publisher_device w) else MakePublisherIdFromLabel publisher);
              worker = Worker_new ResourceLimits_default (Some (df_snapshot fabric)) boot_id publisher_id (ww_boot_device w) (ww_publisher_device w);
              exit_after = GetU64 args ''exit-after-plans'' 0;
              (ok, observed, after) = ww_run w (GetOr args ''coordinator'' ''127.0.0.1:1'') worker;
              joined = (if exit_after \<noteq> 0 then monitor observed exit_after 0 else Some False)
          in if joined = None then None
             else Some ((case ok of Inl _ \<Rightarrow> 1 | Inr _ \<Rightarrow> 0),
              ''worker_boot '' @ FixedId_ToString (wk_boot worker) @ newline @
              ''worker_registered '' @ flag_text (wk_registered_flag after) @ newline @
              ''worker_plans_served '' @ StrongUInt_ToString (wk_plans_served after) @ newline @
              ''worker_fenced '' @ flag_text (wk_fenced_flag after) @ newline @
              (case ok of Inl error \<Rightarrow> if \<not> wk_fenced_flag after \<and> error \<noteq> [] then ''worker_error '' @ Quote error @ newline else []
               | Inr _ \<Rightarrow> [])))"

section \<open>The program\<close>

text \<open>The arguments after the program's name, and what the environment provides; \<open>None\<close> when the program does not end.\<close>

record cli_world =
  cw_platform :: "adapter_report list option option"
  cw_client :: "string \<Rightarrow> PlanningRequest \<Rightarrow> submission"
  cw_files :: files
  cw_coordinator :: coordinator_world
  cw_worker :: worker_world

definition pp_main :: "cli_world \<Rightarrow> string list \<Rightarrow> command_outcome option" where
  "pp_main w argv =
     (case argv of [] \<Rightarrow> Some (2, Usage)
      | command # rest \<Rightarrow>
          let args = ParseArgs rest in
          if command = ''version'' \<or> command = ''--version'' then Some CommandVersion
          else if command = ''snapshot'' then Some (CommandSnapshot (cw_platform w) args)
          else if command = ''plan'' then Some (CommandPlan (cw_client w) args)
          else if command = ''replan'' then Some (CommandReplan args)
          else if command = ''explain'' then Some (CommandExplain args)
          else if command = ''compare'' then Some (CommandCompare args)
          else if command = ''currentness'' then Some (CommandCurrentness args)
          else if command = ''inspect-store'' then Some (CommandInspectStore (cw_files w) args)
          else if command = ''coordinator'' then map_option fst (CommandCoordinator (cw_coordinator w) (cw_files w) args)
          else if command = ''worker'' then CommandWorker (cw_worker w) args
          else Some (2, Usage))"

end
