(* ===== verification/CliCorrect.thy ===== *)
theory CliCorrect
  imports Cli FabricCorrect
begin

text \<open>
  Correctness of the command line: options are read back as they were written, numbers are read modulo \<open>2\<^sup>6\<^sup>4\<close>, the demonstration fabric
  is a connected ladder, and the replanning demonstration takes down a link of the plan it demonstrates with.
\<close>

section \<open>The demonstration fabric\<close>

lemma AddEndpoint_fields [simp]:
  "b_nodes (snd (AddEndpoint e b)) = b_nodes b" "b_edges (snd (AddEndpoint e b)) = b_edges b"
  "b_link_states (snd (AddEndpoint e b)) = b_link_states b" "b_port_states (snd (AddEndpoint e b)) = b_port_states b"
  "b_limits (snd (AddEndpoint e b)) = b_limits b"
  by (simp_all add: AddEndpoint_def Reject_def)

lemma add_all_edges: "add_all AddEdge es b = Inr b' \<Longrightarrow> b' = b\<lparr>b_edges := b_edges b @ es\<rparr>"
proof (induction es arbitrary: b)
  case (Cons e es)
  then obtain b1 where "AddEdge e b = (True, b1)" "add_all AddEdge es b1 = Inr b'" by (auto split: prod.splits if_splits)
  with Cons.IH [of b1] AddEdge_True [of e b b1] show ?case by simp
qed simp

lemma pending_ids [simp]: "map edge_id (map (demo_edge opts) (enumerate 0 ps)) = map fst ps"
  by (rule nth_equalityI) (simp_all add: nth_enumerate_eq demo_edge_def split: prod.split)

lemma demo_run:
  assumes "BuildDemoFabric opts = Inr f"
  obtains b d n E where "n = unat (do_nodes opts)" "E = map (demo_edge opts) (enumerate 0 (pending_links n))" "2 \<le> n"
    "map node_id (b_nodes b) = map demo_node_id [0..<n]" "b_edges b = E"
    "b_link_states b = map (demo_link_state opts) (enumerate 0 E)" "b_port_states b = demo_port_states E"
    "df_snapshot f = prepared b\<lparr>snap_digest := d\<rparr>" "coherent_input b" "snapshot_wf (df_snapshot f)"
    "df_links f = map edge_id E" "df_nodes f = map demo_node_id [0..<n]" "df_source_node f = demo_node_id 0"
    "df_destination_node f = demo_node_id (n - 1)" "b_limits b = do_limits opts"
proof -
  let ?n = "unat (do_nodes opts)" and ?b0 = "(FabricSnapshotBuilder_new (do_limits opts))\<lparr>b_generations := demo_generations opts, b_source := Src_kSynthetic\<rparr>"
  let ?E = "map (demo_edge opts) (enumerate 0 (pending_links ?n))"
  let ?D = "demo_domains (demo_members (map demo_node_id [0..<?n]) (map edge_id ?E) (demo_port_states ?E))"
  have n: "2 \<le> ?n" using assms by (rule contrapos_pp) (simp add: BuildDemoFabric_def Let_def)
  obtain b1 where b1: "add_all AddNode (map (demo_node opts) [0..<?n]) ?b0 = Inr b1"
    using assms n by (auto simp: BuildDemoFabric_def Let_def split: sum.splits)
  obtain b2 where b2: "add_all AddEdge ?E b1 = Inr b2"
    using assms n b1 by (auto simp: BuildDemoFabric_def Let_def simp del: pending_ids split: sum.splits)
  obtain P Q where D: "?D = (P, Q)" by fastforce
  define b3 where "b3 = b2\<lparr>b_link_states := map (demo_link_state opts) (enumerate 0 ?E), b_port_states := demo_port_states ?E,
      b_capabilities := demo_bindings (CapabilityFromLabel ''demo.capability.speed'') ?n ?E (demo_port_states ?E),
      b_failure_domains := fst ?D, b_membership_complete := snd ?D\<rparr>"
  define b where "b = snd (AddEndpoint (demo_endpoint ''demo-endpoint:destination'' (last (map demo_node_id [0..<?n])) (demo_port (?n - 1) 1))
      (snd (AddEndpoint (demo_endpoint ''demo-endpoint:source'' (hd (map demo_node_id [0..<?n])) (PortFromLabel ''demo-port:0:0'')) b3)))"
  have r: "Build b = Inr (df_snapshot f) \<and> df_links f = map edge_id ?E \<and> df_nodes f = map demo_node_id [0..<?n] \<and>
      df_source_node f = hd (map demo_node_id [0..<?n]) \<and> df_destination_node f = last (map demo_node_id [0..<?n])"
    using assms n by (auto simp: BuildDemoFabric_def Let_def b1 b2 b_def b3_def D simp del: pending_ids map_map split: sum.splits)
  have "builder_ok ?b0" using builder_ok_new [of "do_limits opts"] by (simp add: builder_ok_def)
  from add_all_ok [OF builder_ok_AddNode this b1] have "builder_ok b1" .
  from add_all_ok [OF builder_ok_AddEdge this b2] have "builder_ok b2" .
  then have "builder_ok b3" by (simp add: b3_def builder_ok_def)
  then have ok: "builder_ok b" unfolding b_def by (intro builder_ok_AddEndpoint)
  obtain d where d: "df_snapshot f = prepared b\<lparr>snap_digest := d\<rparr>" "coherent_input b" "snapshot_wf (df_snapshot f)"
    using Build_Inr [OF ok] r by blast
  have nodes: "map node_id (b_nodes b) = map demo_node_id [0..<?n]"
    using add_all_nodes [OF b1] add_all_edges [OF b2] by (simp add: b_def b3_def FabricSnapshotBuilder_new_def demo_node_def comp_def)
  have edges: "b_edges b = ?E"
    using add_all_nodes [OF b1] add_all_edges [OF b2] by (simp add: b_def b3_def FabricSnapshotBuilder_new_def)
  have limits: "b_limits b = do_limits opts"
    using add_all_nodes [OF b1] add_all_edges [OF b2] by (simp add: b_def b3_def FabricSnapshotBuilder_new_def)
  show thesis
    by (rule that [OF refl refl n nodes edges _ _ d _ _ _ _ limits])
      (use r n in \<open>simp_all add: b_def b3_def hd_map last_map del: pending_ids\<close>)
qed

lemma length_pending [simp]: "2 \<le> n \<Longrightarrow> length (pending_links n) = 2 * n - 3"
  by (simp add: pending_links_def)

lemma sorted_pending: "sorted (map fst (pending_links n))"
  by (simp add: pending_links_def)

lemma pending_step:
  assumes "i + 1 < n"
  shows "(LinkFromLabel (''demo-link:'' @ to_string i @ ''-'' @ to_string (i + 1)), i, i + 1) \<in> set (pending_links n)"
  using assms by (auto simp: pending_links_def)

lemma pending_range:
  assumes "(l, a, c) \<in> set (pending_links n)"
  shows "a < n - 1 \<and> 1 \<le> c \<and> c < n"
  using assms by (auto simp: pending_links_def)

lemma in_demo_edges:
  "e \<in> set (map (demo_edge opts) (enumerate 0 ps)) \<longleftrightarrow> (\<exists>i < length ps. e = demo_edge opts (i, ps ! i))"
  unfolding in_set_conv_nth by (auto simp: nth_enumerate_eq)

lemma demo_reachable:
  assumes "2 \<le> n" "E = map (demo_edge opts) (enumerate 0 (pending_links n))" "j < n"
  shows "(demo_node_id 0, demo_node_id j) \<in> ((\<lambda>e. (edge_from e, edge_to e)) ` set E)\<^sup>*"
  using assms(3)
proof (induction j)
  case (Suc j)
  obtain i where i: "i < length (pending_links n)" "fst (snd (pending_links n ! i)) = j" "snd (snd (pending_links n ! i)) = Suc j"
    using pending_step [of j n] Suc.prems by (auto simp: in_set_conv_nth)
  let ?e = "demo_edge opts (i, pending_links n ! i)"
  have e: "?e \<in> set E" "(edge_from ?e, edge_to ?e) = (demo_node_id j, demo_node_id (Suc j))"
    using i unfolding assms(2) in_demo_edges by (auto simp: demo_edge_def split: prod.split)
  have "(demo_node_id j, demo_node_id (Suc j)) \<in> (\<lambda>e. (edge_from e, edge_to e)) ` set E" by (rule image_eqI [where x = ?e]) (use e in simp_all)
  with Suc show ?case by (meson Suc_lessD rtrancl.rtrancl_into_rtrancl)
qed simp

lemma length_port_states [simp]: "length (demo_port_states E) = 2 * length E"
  by (induction E) (simp_all add: demo_port_states_def)

lemma demo_ports:
  assumes "E = map (demo_edge opts) (enumerate 0 (pending_links n))"
  shows "ps_port ` set (demo_port_states E) \<subseteq> (\<lambda>i. demo_port i 1) ` {..<n - 1} \<union> (\<lambda>i. demo_port i 0) ` {1..<n}"
proof
  fix p assume "p \<in> ps_port ` set (demo_port_states E)"
  then obtain e where e: "e \<in> set E" "p = edge_from_port e \<or> p = edge_to_port e" by (auto simp: demo_port_states_def)
  then obtain i where i: "i < length (pending_links n)" "e = demo_edge opts (i, pending_links n ! i)" unfolding assms in_demo_edges by blast
  obtain l a c where q: "pending_links n ! i = (l, a, c)" by (cases "pending_links n ! i")
  have "a < n - 1 \<and> 1 \<le> c \<and> c < n" using pending_range [of l a c n] i(1) q by (metis nth_mem)
  then show "p \<in> (\<lambda>i. demo_port i 1) ` {..<n - 1} \<union> (\<lambda>i. demo_port i 0) ` {1..<n}"
    using e(2) i(2) q by (auto simp: demo_edge_def)
qed

lemma demo_port_count:
  assumes "E = map (demo_edge opts) (enumerate 0 (pending_links n))"
  shows "card (ps_port ` set (demo_port_states E)) \<le> 2 * (n - 1)"
proof -
  have "card (ps_port ` set (demo_port_states E)) \<le> card ((\<lambda>i. demo_port i 1) ` {..<n - 1} \<union> (\<lambda>i. demo_port i 0) ` {1..<n})"
    by (rule card_mono [OF _ demo_ports [OF assms]]) simp
  also have "\<dots> \<le> card ((\<lambda>i. demo_port i 1) ` {..<n - 1}) + card ((\<lambda>i. demo_port i 0) ` {1..<n})" by (rule card_Un_le)
  also have "\<dots> \<le> card {..<n - 1} + card {1..<n}" by (intro add_mono card_image_le) simp_all
  finally show ?thesis by simp
qed

definition demo_state :: "DemoOptions \<Rightarrow> nat \<Rightarrow> LinkState" where
  "demo_state opts i = (if of_nat i \<in> set (do_down_links opts) then Link_kDown
     else if of_nat i \<in> set (do_degraded_links opts) then Link_kDegraded else Link_kUp)"

lemma demo_link_states:
  assumes "distinct (map edge_id E)" "i < length E"
  shows "LinkStateView_StateOf (LinkStateView_new (map (demo_link_state opts) (enumerate 0 E))) (edge_id (E ! i)) = demo_state opts i"
proof -
  let ?rs = "map (demo_link_state opts) (enumerate 0 E)"
  have ids: "map ls_link ?rs = map edge_id E"
    by (rule nth_equalityI) (simp_all add: nth_enumerate_eq demo_link_state_def)
  have r: "?rs ! i \<in> set ?rs" by (rule nth_mem) (use assms(2) in simp)
  moreover have "ls_link (?rs ! i) = edge_id (E ! i)" "ls_state (?rs ! i) = demo_state opts i"
    using assms(2) by (simp_all add: nth_enumerate_eq demo_link_state_def demo_state_def)
  ultimately show ?thesis
    using link_states.find_complete [OF assms(1) [folded ids] r] by (simp add: LinkStateView_StateOf_def)
qed

lemma map_demo_link_states:
  assumes "distinct (map edge_id E)"
  shows "map (LinkStateView_StateOf (LinkStateView_new (map (demo_link_state opts) (enumerate 0 E)))) (map edge_id E) =
     map (demo_state opts) [0..<length E]"
  by (rule nth_equalityI) (simp_all add: demo_link_states [OF assms])

lemma map_sort_key: "map f (sort_key f xs) = sort (map f xs)"
  by (rule properties_for_sort [symmetric]) simp_all

lemma demo_fabric_shape:
  assumes "BuildDemoFabric opts = Inr f" and n: "n = unat (do_nodes opts)"
  shows "2 \<le> n" "snapshot_wf (df_snapshot f)" "map node_id (snap_nodes (df_snapshot f)) = sort (map demo_node_id [0..<n])"
    "df_links f = map edge_id (snap_edges (df_snapshot f))" "df_links f = map fst (pending_links n)"
    "df_source_node f \<noteq> df_destination_node f" "(df_source_node f, df_destination_node f) \<in> (link_relation (df_snapshot f))\<^sup>*"
    "map (LinkStateView_StateOf (snap_link_states (df_snapshot f))) (df_links f) = map (demo_state opts) [0..<2 * n - 3]"
    "length (PortStateView_Records (snap_port_states (df_snapshot f))) = 4 * n - 6"
    "card (ps_port ` set (PortStateView_Records (snap_port_states (df_snapshot f)))) \<le> 2 * n - 2"
    "df_nodes f = map demo_node_id [0..<n]" "distinct (df_links f)" "length (snap_nodes (df_snapshot f)) \<le> max_nodes (do_limits opts)"
proof -
  obtain b d E where R: "E = map (demo_edge opts) (enumerate 0 (pending_links n))" "2 \<le> n"
    "map node_id (b_nodes b) = map demo_node_id [0..<n]" "b_edges b = E"
    "b_link_states b = map (demo_link_state opts) (enumerate 0 E)" "b_port_states b = demo_port_states E"
    "df_snapshot f = prepared b\<lparr>snap_digest := d\<rparr>" "coherent_input b" "snapshot_wf (df_snapshot f)"
    "df_links f = map edge_id E" "df_nodes f = map demo_node_id [0..<n]" "df_source_node f = demo_node_id 0"
    "df_destination_node f = demo_node_id (n - 1)" "b_limits b = do_limits opts"
    using demo_run [OF assms(1)] n by metis
  have ids: "map edge_id E = map fst (pending_links n)" unfolding R(1) by (rule pending_ids)
  have edges: "snap_edges (df_snapshot f) = E"
    using R(4,7) sort_key_id_if_sorted [of edge_id E] sorted_pending [of n] ids by (simp add: prepared_def assemble_def)
  have len: "length E = 2 * n - 3" using R(1,2) by simp
  have dist: "distinct (map node_id (b_nodes b))" "distinct (map edge_id E)" using R(4,8) by (simp_all add: coherent_input_def)
  show "2 \<le> n" "snapshot_wf (df_snapshot f)" by fact+
  show "map node_id (snap_nodes (df_snapshot f)) = sort (map demo_node_id [0..<n])"
    using R(3,7) map_sort_key [of node_id "b_nodes b"] by (simp add: prepared_def assemble_def)
  show "df_links f = map edge_id (snap_edges (df_snapshot f))" "df_links f = map fst (pending_links n)" "distinct (df_links f)"
    using R(10) edges ids dist by simp_all
  show "df_nodes f = map demo_node_id [0..<n]" by fact
  show "length (snap_nodes (df_snapshot f)) \<le> max_nodes (do_limits opts)"
    using R(9,14) unfolding snapshot_wf_def by (simp add: R(7) prepared_def assemble_def)
  show "df_source_node f \<noteq> df_destination_node f"
    using dist(1) R(2) inj_onD [of demo_node_id "{0..<n}" 0 "n - 1"] unfolding R(3,12,13) by (auto simp: distinct_map)
  show "(df_source_node f, df_destination_node f) \<in> (link_relation (df_snapshot f))\<^sup>*"
    using demo_reachable [OF R(2,1), of "n - 1"] R(2) by (simp add: link_relation_def edges R(12,13))
  show "map (LinkStateView_StateOf (snap_link_states (df_snapshot f))) (df_links f) = map (demo_state opts) [0..<2 * n - 3]"
    using map_demo_link_states [OF dist(2)] len R(5,7,10) by (simp add: prepared_def assemble_def)
  show "length (PortStateView_Records (snap_port_states (df_snapshot f))) = 4 * n - 6"
    using R(6,7) len by (simp add: prepared_def assemble_def PortStateView_new_def)
  show "card (ps_port ` set (PortStateView_Records (snap_port_states (df_snapshot f)))) \<le> 2 * n - 2"
    using demo_port_count [OF R(1)] R(6,7) by (simp add: prepared_def assemble_def PortStateView_new_def)
qed

section \<open>Options\<close>

text \<open>An option as a user writes it: a value follows its name, an option without a value stands alone.\<close>

definition arg_tokens :: "string \<times> string \<Rightarrow> string list" where
  "arg_tokens = (\<lambda>(name, value). if value = [] then [''--'' @ name] else [''--'' @ name, value])"

definition writable_option :: "string \<times> string \<Rightarrow> bool" where
  "writable_option = (\<lambda>(name, value). name \<noteq> [] \<and> \<not> option_like value)"

lemma option_like_name [simp]: "option_like (CHR ''-'' # CHR ''-'' # name) \<longleftrightarrow> name \<noteq> []"
  by (simp add: option_like_def)

lemma ParseArgs_flag:
  assumes "name \<noteq> []" "rest = [] \<or> option_like (hd rest)"
  shows "ParseArgs ((''--'' @ name) # rest) = (name, []) # ParseArgs rest"
  using assms by (cases rest) simp_all

lemma ParseArgs_tokens:
  assumes "list_all writable_option entries"
  shows "ParseArgs (concat (map arg_tokens entries)) = entries"
  using assms
proof (induction entries)
  case (Cons entry entries)
  obtain name v where e: "entry = (name, v)" by fastforce
  let ?rest = "concat (map arg_tokens entries)"
  have "?rest = [] \<or> option_like (hd ?rest)"
    using Cons.prems by (cases entries) (auto simp: arg_tokens_def writable_option_def split: prod.splits)
  with Cons show ?case using ParseArgs_flag [of name ?rest] by (simp add: e arg_tokens_def writable_option_def)
qed simp

text \<open>The decimal text of a number.\<close>

fun decimal :: "nat \<Rightarrow> string" where
  "decimal n = (if n < 10 then [char_of (48 + n)] else decimal (n div 10) @ [char_of (48 + n mod 10)])"

declare decimal.simps [simp del]

lemma digit_facts:
  assumes "d < 10"
  shows "is_digit (char_of (48 + d))" "add_digit (char_of (48 + d)) v = v * 10 + of_nat d"
  using assms by (simp_all add: is_digit_def add_digit_def)

lemma decimal_nonempty [simp]: "decimal n \<noteq> []"
  by (subst decimal.simps) simp

lemma decimal_digits: "list_all is_digit (decimal n) \<and> fold add_digit (decimal n) 0 = of_nat n"
proof (induction n rule: decimal.induct)
  case (1 n)
  have s: "(of_nat (n div 10) :: u64) * 10 + of_nat (n mod 10) = of_nat n"
    by (metis div_mult_mod_eq of_nat_add of_nat_mult of_nat_numeral)
  show ?case
  proof (cases "n < 10")
    case True
    then show ?thesis using digit_facts [of n] by (subst (1 2) decimal.simps) simp
  next
    case False
    with 1 digit_facts [of "n mod 10"] s show ?thesis by (subst (1 2) decimal.simps) simp
  qed
qed

section \<open>The replanning demonstration\<close>

lemma position_nth: "x \<in> set xs \<Longrightarrow> position x xs < length xs \<and> xs ! position x xs = x"
  by (induction xs) auto

lemma demo_links_fixed:
  assumes "BuildDemoFabric opts = Inr f" "BuildDemoFabric (opts\<lparr>do_down_links := down, do_link_state := g\<rparr>) = Inr f'"
  shows "df_links f' = df_links f"
  using demo_fabric_shape(5) [OF assms(1) refl] demo_fabric_shape(5) [OF assms(2) refl] by simp

lemma demo_state_at:
  assumes "BuildDemoFabric opts = Inr f" "i < length (df_links f)"
  shows "LinkStateView_StateOf (snap_link_states (df_snapshot f)) (df_links f ! i) = demo_state opts i"
proof -
  note F = demo_fabric_shape [OF assms(1) refl]
  have n: "length (df_links f) = 2 * unat (do_nodes opts) - 3" using F(1,5) by simp
  have "map (LinkStateView_StateOf (snap_link_states (df_snapshot f))) (df_links f) ! i = map (demo_state opts) [0..<2 * unat (do_nodes opts) - 3] ! i"
    by (simp only: F(8))
  with assms(2) n show ?thesis by simp
qed

lemma traversed_link_down:
  assumes "BuildDemoFabric opts = Inr f" "do_down_links opts = []" "\<not> Has args ''down-link''"
    and "first_traversed initial = Some link" "link \<in> set (df_links f)"
    and "BuildDemoFabric (opts\<lparr>do_down_links := [replan_down_index args f initial], do_link_state := g\<rparr>) = Inr f'"
  shows "LinkStateView_StateOf (snap_link_states (df_snapshot f)) link \<noteq> Link_kDown"
    "LinkStateView_StateOf (snap_link_states (df_snapshot f')) link = Link_kDown"
proof -
  let ?i = "position link (df_links f)"
  have i: "?i < length (df_links f)" "df_links f ! ?i = link" using position_nth [OF assms(5)] by simp_all
  have l: "df_links f' = df_links f" by (rule demo_links_fixed [OF assms(1,6)])
  have d: "replan_down_index args f initial = of_nat ?i" using assms(3,4) i(1) by (simp add: replan_down_index_def Let_def)
  show "LinkStateView_StateOf (snap_link_states (df_snapshot f)) link \<noteq> Link_kDown"
    using demo_state_at [OF assms(1) i(1)] assms(2) i(2) by (simp add: demo_state_def)
  show "LinkStateView_StateOf (snap_link_states (df_snapshot f')) link = Link_kDown"
    using demo_state_at [OF assms(6), of ?i] i l d by (simp add: demo_state_def)
qed

section \<open>Waiting for the coordinator\<close>

text \<open>The coordinator at the end of one round of the waiting loop, and at the start of the \<open>n\<close>-th, as the other threads leave it.\<close>

definition round_end :: "interference \<Rightarrow> nat \<Rightarrow> Coordinator \<Rightarrow> Coordinator" where
  "round_end env round c = env (5 * round + 2) (env (5 * round + 1) (env (5 * round) c))"

fun rounds :: "interference \<Rightarrow> nat \<Rightarrow> nat \<Rightarrow> Coordinator \<Rightarrow> Coordinator" where
  "rounds env round 0 c = c"
| "rounds env round (Suc n) c = rounds env (Suc round) n (round_end env round c)"

definition watch_stops :: "interference \<Rightarrow> u64 \<Rightarrow> u64 \<Rightarrow> nat \<Rightarrow> Coordinator \<Rightarrow> bool" where
  "watch_stops env exit_after advance_after round c \<longleftrightarrow> \<not> co_running (env (5 * round) c) \<or>
     (exit_after \<noteq> 0 \<and> co_accepted (env (5 * round + 1) (env (5 * round) c)) \<ge> exit_after) \<or>
     (advance_after \<noteq> 0 \<and> co_accepted (round_end env round c) \<ge> advance_after)"

lemma watch_step:
  "watch_stops env ea aa round c \<Longrightarrow> watch env outcome ea aa round c \<noteq> None"
  "\<not> watch_stops env ea aa round c \<Longrightarrow> watch env outcome ea aa round c = watch env outcome ea aa (Suc round) (round_end env round c)"
  by (subst watch.simps, auto simp: watch_stops_def round_end_def)+

lemma watch_stopped:
  "watch_stops env ea aa (round + n) (rounds env round n c) \<Longrightarrow> watch env outcome ea aa round c \<noteq> None"
proof (induction n arbitrary: round c)
  case (Suc n)
  then show ?case using watch_step [of env ea aa round c outcome] by (cases "watch_stops env ea aa round c") auto
qed (simp add: watch_step)

lemma watch_SomeD:
  assumes "watch env outcome ea aa round c = Some y"
  shows "\<exists>n. watch_stops env ea aa (round + n) (rounds env round n c)"
proof (rule watch.raw_induct [where P = "\<lambda>env outcome ea aa round c y. \<exists>n. watch_stops env ea aa (round + n) (rounds env round n c)", OF _ assms])
  fix W :: "interference \<Rightarrow> file_outcome \<Rightarrow> u64 \<Rightarrow> u64 \<Rightarrow> nat \<Rightarrow> Coordinator \<Rightarrow> (Coordinator \<times> string) option"
    and env outcome ea aa round c y
  assume IH: "\<And>env outcome ea aa round c y. W env outcome ea aa round c = Some y \<Longrightarrow> \<exists>n. watch_stops env ea aa (round + n) (rounds env round n c)"
    and W: "(if \<not> co_running (env (5 * round) c) then Some (env (5 * round) c, [])
      else if ea \<noteq> 0 \<and> ea \<le> co_accepted (env (5 * round + 1) (env (5 * round) c))
      then Some (let c = env (5 * round + 2) (env (5 * round + 1) (env (5 * round) c))
        in (c, ''accepted_publications '' @ StrongUInt_ToString (co_accepted c) @ newline))
      else if aa \<noteq> 0 \<and> aa \<le> co_accepted (env (5 * round + 2) (env (5 * round + 1) (env (5 * round) c)))
      then Some (advance_and_save env outcome (5 * round + 3) (env (5 * round + 2) (env (5 * round + 1) (env (5 * round) c))))
      else W env outcome ea aa (round + 1) (env (5 * round + 2) (env (5 * round + 1) (env (5 * round) c)))) = Some y"
  show "\<exists>n. watch_stops env ea aa (round + n) (rounds env round n c)"
  proof (cases "watch_stops env ea aa round c")
    case True
    then show ?thesis by (intro exI [of _ 0]) simp
  next
    case False
    then have "W env outcome ea aa (round + 1) (round_end env round c) = Some y"
      using W unfolding watch_stops_def round_end_def by (simp split: if_splits)
    from IH [OF this] obtain n where "watch_stops env ea aa (round + 1 + n) (rounds env (round + 1) n (round_end env round c))" by blast
    then show ?thesis by (intro exI [of _ "Suc n"]) simp
  qed
qed

section \<open>Waiting for the worker\<close>

lemma monitor_Some:
  assumes "monitor observed exit_after round = Some b"
  shows "\<exists>n. wk_fenced_flag (observed n) \<or> wk_plans_served (observed n) \<ge> exit_after"
proof (rule monitor.raw_induct [where P = "\<lambda>observed exit_after round b. \<exists>n. wk_fenced_flag (observed n) \<or> wk_plans_served (observed n) \<ge> exit_after", OF _ assms])
  fix M :: "(nat \<Rightarrow> WorkerState) \<Rightarrow> u64 \<Rightarrow> nat \<Rightarrow> bool option" and observed exit_after round b
  assume IH: "\<And>observed exit_after round b. M observed exit_after round = Some b \<Longrightarrow> \<exists>n. wk_fenced_flag (observed n) \<or> wk_plans_served (observed n) \<ge> exit_after"
    and M: "(if wk_fenced_flag (observed (2 * round)) then Some False
      else if wk_plans_served (observed (2 * round + 1)) \<ge> exit_after then Some True
      else M observed exit_after (round + 1)) = Some b"
  then show "\<exists>n. wk_fenced_flag (observed n) \<or> wk_plans_served (observed n) \<ge> exit_after"
    by (cases "wk_fenced_flag (observed (2 * round)) \<or> wk_plans_served (observed (2 * round + 1)) \<ge> exit_after") auto
qed

text \<open>A session that ends with an error before anything of the worker has changed, as when no coordinator listens.\<close>

definition refused_session :: "string \<Rightarrow> string \<Rightarrow> WorkerState \<Rightarrow> (string + unit) \<times> (nat \<Rightarrow> WorkerState) \<times> WorkerState" where
  "refused_session error endpoint w = (Inl error, \<lambda>_. w, w)"

lemma monitor_idle:
  assumes "\<not> wk_fenced_flag w" "wk_plans_served w = 0" "exit_after \<noteq> 0"
  shows "monitor (\<lambda>_. w) exit_after round = None"
proof (cases "monitor (\<lambda>_. w) exit_after round")
  case (Some b)
  from monitor_Some [OF this] assms show ?thesis by (simp add: word_le_0_iff)
qed

section \<open>Properties\<close>

text \<open>
  Options are read back as they are written: for any list of options with nonempty names and values that do not look like an option,
  the arguments written for them parse to exactly that list, in order and with every repetition.
\<close>

theorem ParseArgs_exact:
  assumes "list_all writable_option entries"
  shows "ParseArgs (concat (map arg_tokens entries)) = entries"
  by (rule ParseArgs_tokens [OF assms])

theorem ParseArgs_exact_witness:
  "ParseArgs [''--verbose'', ''--nodes'', ''6'', ''--nodes'', ''7''] = [(''verbose'', []), (''nodes'', ''6''), (''nodes'', ''7'')]"
  using ParseArgs_exact [of "[(''verbose'', []), (''nodes'', ''6''), (''nodes'', ''7'')]"]
  by (simp add: arg_tokens_def writable_option_def option_like_def)

text \<open>
  A numeric option is read modulo \<open>2\<^sup>6\<^sup>4\<close> without a word: the decimal text of any number, however large, is accepted and stands for
  its remainder, where a text that is no number would select the fallback.
\<close>

theorem GetU64_wraps: "GetU64 ((name, decimal n) # args) name fallback = of_nat n"
  using decimal_digits [of n] by (simp add: GetU64_def Get_def)

text \<open>
  The demonstration fabric is the ladder it is meant to be: whenever it is built, the snapshot is well formed with the requested number of
  nodes, the links are listed in the order of the snapshot, the destination is another node that the source reaches over the
  links, and the state of each link is what the options say of its index.  It publishes two port-state records for every link
  although there are fewer ports, so from three nodes on some port has several records.
\<close>

theorem BuildDemoFabric_ladder:
  "case BuildDemoFabric opts of
     Inl e \<Rightarrow> True
   | Inr f \<Rightarrow>
       let s = df_snapshot f; n = unat (do_nodes opts) in
       snapshot_wf s \<and> length (snap_nodes s) = n \<and> length (df_links f) = 2 * n - 3 \<and> df_links f = map edge_id (snap_edges s) \<and>
       df_source_node f \<noteq> df_destination_node f \<and> (df_source_node f, df_destination_node f) \<in> (link_relation s)\<^sup>* \<and>
       map (LinkStateView_StateOf (snap_link_states s)) (df_links f) = map (demo_state opts) [0..<2 * n - 3] \<and>
       length (PortStateView_Records (snap_port_states s)) = 4 * n - 6 \<and>
       card (ps_port ` set (PortStateView_Records (snap_port_states s))) \<le> 2 * n - 2"
proof (cases "BuildDemoFabric opts")
  case (Inr f)
  note F = demo_fabric_shape [OF Inr refl]
  have "length (snap_nodes (df_snapshot f)) = unat (do_nodes opts)" using arg_cong [OF F(3), of length] by simp
  moreover have "length (df_links f) = 2 * unat (do_nodes opts) - 3" using arg_cong [OF F(5), of length] F(1) by simp
  ultimately show ?thesis using F by (simp add: Inr Let_def)
qed simp

text \<open>
  The command \<open>coordinator\<close> stops waiting exactly when it should: whatever the other threads do, the loop ends if and only if in some round the
  coordinator is no longer running or has accepted as many publications as one of the two options asks for; without these options it waits
  until the coordinator stops.
\<close>

theorem watch_ends_iff:
  "watch env outcome exit_after advance_after round c \<noteq> None \<longleftrightarrow>
     (\<exists>n. watch_stops env exit_after advance_after (round + n) (rounds env round n c))"
  using watch_stopped watch_SomeD by (metis option.exhaust)

text \<open>
  C34. A worker told to exit after a number of plans does not exit when it cannot serve them: if its session ends with an error before anything
  changed, as when no coordinator listens, the command returns with that error only without the option; with it, the command waits for ever
  for a monitor thread that ends only on a fence or on the number of plans.
\<close>

theorem refused_worker_hangs:
  "case BuildDemoFabric (DemoOptionsFromArgs args) of
     Inl e \<Rightarrow> CommandWorker w args = Some (1, [])
   | Inr fabric \<Rightarrow>
       (case CommandWorker (w\<lparr>ww_run := refused_session error\<rparr>) args of
          None \<Rightarrow> GetU64 args ''exit-after-plans'' 0 \<noteq> 0
        | Some (code, out) \<Rightarrow> GetU64 args ''exit-after-plans'' 0 = 0 \<and> code = 1)"
proof (cases "BuildDemoFabric (DemoOptionsFromArgs args)")
  case (Inr fabric)
  then show ?thesis
    by (simp add: CommandWorker_def Let_def refused_session_def monitor_idle Worker_new_def split: option.split)
qed (simp add: CommandWorker_def)

end
