(* ===== verification/Spec2Isabelle.thy ===== *)
theory Spec2Isabelle
  imports PlanCorrect RuntimeCorrect ProtoCorrect StoreCorrect DistCorrect Explain FabricCorrect CliCorrect
begin

text \<open>
  The Path Planner library (\<open>src/\<close>, C++) computes candidate paths through a switching fabric from a snapshot of
  evidence, ranks them canonically, retains the plans, invalidates them when the evidence moves, persists them, and serves them from a
  coordinator to workers and clients.  This is its verification development: every definition is a translation of the code named
  here, and the theorems are about those definitions.

  \<^bold>\<open>Parts of the program and the theories that model them\<close>, each theory importing those it calls:

  \<^item> \<open>PP_Prelude\<close>: machine types, the standard library's sorting and searching, the locale \<open>sorted_view\<close> (what a lookup table promises).
  \<^item> \<open>Status\<close> (\<open>status.hpp\<close>, \<open>status.cpp\<close>): enumerations, stable values, names; locale \<open>enum_table\<close>.
  \<^item> \<open>Canonical\<close> (\<open>canonical.hpp/.cpp\<close>): bounded byte writer, strict reader, LEB128, text, hexadecimal; locales \<open>codec\<close>, \<open>strict_codec\<close>.
  \<^item> \<open>Sha256\<close> (\<open>sha256.hpp/.cpp\<close>), \<open>Ids\<close> (\<open>ids.hpp\<close>), \<open>Limits\<close> (\<open>limits.hpp\<close>).
  \<^item> \<open>Graph\<close> (\<open>graph.hpp/.cpp\<close>): records, lookup views, evidence, the snapshot builder and its checks.
  \<^item> \<open>Path\<close>, \<open>Request\<close>, \<open>Result\<close> (the files of the same names): paths and costs, request validation, results and digests.
  \<^item> \<open>PlanningView\<close>, \<open>ViewCorrect\<close> (\<open>planning_view.hpp/.cpp\<close>): eligibility of nodes and links, costs, compressed adjacency.
  \<^item> \<open>Search\<close>, \<open>SearchCorrect\<close>, \<open>Enumerate\<close>, \<open>EnumerateCorrect\<close> (\<open>search.hpp/.cpp\<close>): both searches, transit stages, enumeration by deviations.
  \<^item> \<open>Planner\<close>, \<open>PlanCorrect\<close> (the planning half of \<open>planner.cpp\<close>): admission, candidates, ranking, authority, conclusion.
  \<^item> \<open>Runtime\<close>, \<open>RuntimeCorrect\<close> (the stateful half of \<open>planner.cpp\<close>): snapshots, watermark, retention, reverse index, invalidation, epochs,
    currentness, replanning.
  \<^item> \<open>Explain\<close> (\<open>explain.hpp/.cpp\<close>): the text renderings.
  \<^item> \<open>Decoder\<close>, \<open>Proto\<close>, \<open>ProtoCorrect\<close> (\<open>proto.hpp/.cpp\<close>): the wire protocol; locales \<open>exact_decoder\<close> and \<open>wire_enum\<close>.
  \<^item> \<open>Store\<close>, \<open>StoreCorrect\<close> (\<open>store.hpp/.cpp\<close>): persisted plans and the atomic replacement of their file.
  \<^item> \<open>Net\<close> (\<open>net.hpp/.cpp\<close>): endpoint texts and the loops that move bytes; locales \<open>byte_stream\<close> and \<open>byte_sink\<close>.
  \<^item> \<open>Dist\<close>, \<open>DistCorrect\<close> (\<open>dist.hpp/.cpp\<close>): frames on sockets, the coordinator, workers and clients.
  \<^item> \<open>Sources\<close>, \<open>SourcesCorrect\<close>, \<open>FabricCorrect\<close> (\<open>sources.hpp/.cpp\<close>): the synthetic fabrics, the seeded generator, the host's own adapters.
  \<^item> \<open>Cli\<close>, \<open>CliCorrect\<close> (\<open>apps/pp_cli.cpp\<close>): options, the demonstration fabric, requests from options, the commands.
  \<^item> this theory: the properties that span components.

  \<^bold>\<open>How state and operations correspond.\<close>  A C++ struct is a record with prefixed field names, an enumeration a datatype whose
  constructors carry the enumerator's name (\<open>Status_\<close>, \<open>Cur_\<close>, \<open>DC_\<close> and others); an enumeration a peer can fill with any value has an extra
  constructor for the unknown ones.  Operations keep the source's names.  Identifiers are byte strings with their lexicographic order,
  64-bit costs, epochs, sequences and generations are words, and their overflow checks are those of the code; counts and indices
  that the code only compares are natural numbers.  A failing operation returns a sum, an optional or the record the code fills.
  \<open>Plan\<close> takes the runtime's mutex three times; \<open>Plan_interleaved\<close> composes the three sections with arbitrary changes by other threads in
  between.  The coordinator is treated the same way: each section between a lock and its release is a function, a handler composes
  them around the interference \<open>env\<close>, and \<open>coord_step\<close> is the relation of all sections, so that any schedule is a path of it.  A call
  of the runtime that the coordinator makes while it holds its own mutex is part of that section.  The Path Authority, the
  file system's answers, the operating system's \<open>recv\<close> and \<open>send\<close>, entropy and the host's adapters are arguments.

  \<^bold>\<open>Loops.\<close>  Loops are structural recursion or functions with a termination proof.  The command line's two waiting loops
  may go on for ever and are partial functions whose value is then \<open>None\<close> (\<open>watch_ends_iff\<close>, \<open>refused_worker_hangs\<close>).  Three loops have fuel: the reconstruction of a
  path takes \<open>NodeCount\<close> steps in the plain search and \<open>best_hops\<close> in the hop-bounded one, since each step lengthens a path without
  repetition, and the breadth-first distance of the planner enqueues each node once, so the number of nodes is enough.  The
  search loops end because every push spends budget or improves a label; \<open>ShortestPath_enough_budget\<close> says which budget is enough for a result.

  \<^bold>\<open>What the lemmas show.\<close>
  \<^item> Planning: the view contains exactly what the request allows (\<open>BuildPlanningView_exact\<close>), the search returns the canonical minimum
    (\<open>ShortestPath_canonical\<close>), every candidate of a plan is an allowed, exactly costed, canonically ranked path (\<open>Plan_candidates_sound\<close>), and the
    status agrees with it (\<open>Plan_status_honest\<close>).
  \<^item> Lifecycle: an invariant over all reachable runtime states, what a notice invalidates, that a moved watermark is noticed, that a
    stale plan is never reported current again.
  \<^item> Encodings: each encoder and its decoder are inverse, no value has two encodings, hashing by pieces is hashing of the whole.
  \<^item> Persistence: saving refines an atomic replacement.
  \<^item> Distribution: frames survive any fragmentation, fences and epochs only grow, a fenced worker is never accepted.
  \<^item> Synthetic fabrics: the generator's rejection sampling ends, a topology is within its limits and connects its endpoints, and what the
    percentages decide does not shift the random stream.
  \<^item> Command line: what \<open>plan\<close> prints and returns, what \<open>replan\<close> takes down, the shape of the demonstration fabric, when the waiting loops end.
  \<^item> Where the code falls short of its documentation, a theorem states what it does instead (\<open>refused_result_unreadable\<close>, \<open>payload_ceiling_wraps\<close>,
    \<open>transit_ignores_member_limit\<close>, \<open>check_views_misses_duplicates\<close>, \<open>draining_ports_not_provisional\<close>, \<open>foreign_publication_fails_request\<close>,
    \<open>refused_registration_unexplained\<close>, \<open>RecvExact_calls\<close>, \<open>GetU64_wraps\<close>, \<open>refused_worker_hangs\<close>).

  \<^bold>\<open>Not modelled.\<close>  Opening, closing, resolving and configuring sockets, thread creation and joining, and the Windows adapter query are calls of
  the operating system without logic of their own; so are the standard streams.  Of the command line the texts written to the standard
  error are dropped, \<open>strtoul\<close> is that of a 64-bit \<open>unsigned long\<close>, and no theorem says that a demonstration fabric of a given
  size is accepted, since that would evaluate SHA-256 in the kernel: the theorems say what holds of one that is.  The examples, the
  benchmark, the consumer and the tests only drive the public interface.  Stage notifications of the planner observe and do not act.
\<close>


lemma map_core_runtime:
  "map core (res_candidates (fst (plan_publish cap q (r, stats) rt))) = map core (res_candidates r)"
  "map cand_rank (res_candidates (fst (plan_publish cap q (r, stats) rt))) = map cand_rank (res_candidates r)"
  "res_source_node (fst (plan_publish cap q (r, stats) rt)) = res_source_node r"
  "res_destination_node (fst (plan_publish cap q (r, stats) rt)) = res_destination_node r"
  "res_primary_failure (fst (plan_publish cap q (r, stats) rt)) = res_primary_failure r"
  by (simp_all add: plan_publish_def Let_def comp_def split: prod.split)

lemma Plan_check_fields:
  assumes "plan_check cap rt (r, stats) = (r', stats')"
  shows "map core (res_candidates r') = map core (res_candidates r)" "map cand_rank (res_candidates r') = map cand_rank (res_candidates r)"
    "res_source_node r' = res_source_node r" "res_destination_node r' = res_destination_node r"
    "res_primary_failure r' = res_primary_failure r"
    "res_status r' = res_status r \<and> map cand_currentness (res_candidates r') = map cand_currentness (res_candidates r) \<or>
     res_status r' = Status_kRevalidationRequired \<and> map cand_currentness (res_candidates r') = map (\<lambda>_. Cur_kRevalidationRequired) (res_candidates r)"
  using assms by (auto simp: plan_check_def explain_def comp_def split: if_splits)

lemma Plan_stages:
  obtains (refused) r where "compute_plan (capture rt) q = Inl r" "fst (Plan_interleaved f g q rt) = r"
  | (published) r stats r' where "compute_plan (capture rt) q = Inr (r, stats)"
      "map core (res_candidates r') = map core (res_candidates r)" "map cand_rank (res_candidates r') = map cand_rank (res_candidates r)"
      "res_source_node r' = res_source_node r" "res_destination_node r' = res_destination_node r"
      "res_primary_failure r' = res_primary_failure r"
      "res_status r' = res_status r \<and> map cand_currentness (res_candidates r') = map cand_currentness (res_candidates r) \<or>
       res_status r' = Status_kRevalidationRequired \<and> map cand_currentness (res_candidates r') = map (\<lambda>_. Cur_kRevalidationRequired) (res_candidates r)"
      "fst (Plan_interleaved f g q rt) = r'"
proof (cases "compute_plan (capture rt) q")
  case (Inl r)
  obtain b where "plan_begin rt = (capture rt, b)" by (simp add: plan_begin_def)
  then show thesis using refused [OF Inl] Inl by (simp add: Plan_interleaved_def)
next
  case (Inr computed)
  obtain r stats where c: "computed = (r, stats)" by fastforce
  obtain r1 stats1 where ck: "plan_check (capture rt) (f (snd (plan_begin rt))) (r, stats) = (r1, stats1)" by fastforce
  note P = Plan_interleaved_Inr [OF Inr, of f g, unfolded c ck]
  show thesis
    by (rule published [OF Inr [unfolded c] _ _ _ _ _ _ refl])
      (unfold P map_core_runtime plan_publish_result, insert Plan_check_fields [OF ck], simp_all)
qed

lemma compute_plan_refused_id:
  assumes "compute_plan cap q = Inl r"
  shows "res_plan_id r = nil_id 16"
proof -
  have adm: "admit cap q = Inl r' \<Longrightarrow> res_plan_id r' = nil_id 16" for r'
    by (auto simp: admit_def refuse_def explain_def PlanningResult_new_def Let_def split: option.splits if_splits prod.splits)
  have auth: "authority_stage a m v t r0 cs = Inl r' \<Longrightarrow> res_plan_id r' = res_plan_id r0" for a m v t r0 cs r'
    by (auto simp: authority_stage_def refuse_def explain_def Let_def split: option.splits if_splits prod.splits)
  show ?thesis
    using assms adm auth unfolding compute_plan_def Let_def
    by (auto simp: refuse_def explain_def PlanningResult_new_def split: sum.splits prod.splits option.splits)
qed

lemma enc_optional_prefix:
  assumes "enc_optional (\<lambda>c. le_bytes 4 (f c :: u32)) a @ xs = enc_optional (\<lambda>c. le_bytes 4 (f c)) b @ ys"
  shows "xs = ys"
  using assms by (cases a; cases b) (auto simp: enc_optional_def enc_bool_def append_eq_append_conv)

lemma result_nil_id_unreadable:
  assumes "res_plan_id r = nil_id 16" "id_ok 16 (res_source_endpoint r)" "id_ok 16 (res_destination_endpoint r)"
    "id_ok 16 (res_source_node r)" "id_ok 16 (res_destination_node r)"
  shows "DecodePlanningResultPayload (enc_result r) limits \<noteq> Inr x"
proof
  assume "DecodePlanningResultPayload (enc_result r) limits = Inr x"
  then have w: "wire_result limits x" and e: "enc_result r = enc_result x" by (simp_all add: DecodePlanningResultPayload_iff)
  have "id_bytes (res_plan_id r) = id_bytes (res_plan_id x)"
    using e assms w unfolding enc_result_def wire_result_def id_ok_def
    by (auto simp: append_eq_append_conv enc_prefix_simps nil_id_def dest!: enc_optional_prefix)
  then have "id_bytes (res_plan_id x) = replicate 16 0" using assms(1) by (simp add: nil_id_def)
  moreover have "FixedId_IsValid (res_plan_id x)" using w by (simp add: wire_result_def)
  ultimately show False by (simp add: FixedId_IsValid_def list_ex_iff)
qed

section \<open>Properties\<close>

lemma Plan_candidates_spec:
  assumes "run_snapshot rt = Some s" "snapshot_wf s" "length (snap_nodes s) < kInvalidIndex"
    and "fst (Plan_interleaved before_check before_publish q rt) = r"
  shows "length (res_candidates r) \<le> rq_max_candidates q \<and> sorted (map rank_key (res_candidates r)) \<and> ranked (res_candidates r) \<and>
    (\<forall>c \<in> set (res_candidates r). candidate_ok s q (res_source_node r) (res_destination_node r) c)"
proof (cases rule: Plan_stages [where rt = rt and q = q and f = before_check and g = before_publish])
  case (refused r1)
  then have "res_candidates r = []" using compute_plan_refused(1) assms(4) by simp
  then show ?thesis by (simp add: ranked_def)
next
  case (published r0 stats r')
  have cap: "cap_snapshot (capture rt) = Some s" using assms(1) by (simp add: capture_def)
  note C = compute_plan_candidates [OF published(1) cap assms(2,3)]
  have r: "r' = r" using published(8) assms(4) by simp
  have len: "length (res_candidates r) = length (res_candidates r0)" using published(2) r by (metis length_map)
  have "map rank_key (res_candidates r) = map rank_key (res_candidates r0)"
    using published(2) r rank_key_core by (metis (no_types, lifting) length_map nth_equalityI nth_map)
  moreover have "candidate_ok s q (res_source_node r) (res_destination_node r) c" if "c \<in> set (res_candidates r)" for c
  proof -
    have "core c \<in> core ` set (res_candidates r0)" using that published(2) r by (metis image_eqI image_set)
    then show ?thesis using C(4) candidate_ok_core published(4,5) r by (metis imageE)
  qed
  ultimately show ?thesis using C(1-3) len published(3) r by (simp add: ranked_def)
qed


text \<open>A request whose two ends are one endpoint, on the small fabric: the plan is the path of no hops.\<close>

definition self_snapshot :: FabricSnapshot where
  "self_snapshot = small_snapshot\<lparr>snap_endpoints := [\<lparr>ep_id = small_id 5, ep_class = Class_kEndpoint, ep_node = small_id 1,
     ep_port = small_id 1, ep_entity_generation = 1\<rparr>]\<rparr>"

definition self_request :: PlanningRequest where
  "self_request = small_request\<lparr>rq_source := \<lparr>ref_id = small_id 5, ref_class = Class_kEndpoint, ref_generation = 1\<rparr>,
     rq_destination := \<lparr>ref_id = small_id 5, ref_class = Class_kEndpoint, ref_generation = 1\<rparr>,
     rq_policy := (rq_policy small_request)\<lparr>pol_cost_model := \<lparr>hop_cost = 1, degraded_penalty = 10, locality_penalty = 0\<rparr>, allow_zero_hop_self_path := True\<rparr>\<rparr>"

definition self_runtime :: Runtime where
  "self_runtime = PlannerRuntime_new ResourceLimits_default (Some self_snapshot) None"

lemma self_wf: "snapshot_wf self_snapshot" by code_simp

lemma self_valid: "ValidateRequest self_request ResourceLimits_default = None" by code_simp

lemma self_resolved:
  "ResolveEndpoint self_snapshot (rq_source self_request) b = Inr (hd (snap_endpoints self_snapshot), hd (snap_nodes self_snapshot))"
  "rq_destination self_request = rq_source self_request"
  subgoal by (cases b; code_simp)
  subgoal by code_simp
  done

definition view_ends :: "PlanningViewBuild \<Rightarrow> DiagnosticCode option \<times> nat \<times> nat" where
  "view_ends b = (pvb_fatal b, pvb_source_view b, pvb_destination_view b)"

lemma self_view_ends:
  "view_ends (BuildPlanningView self_snapshot self_request ResourceLimits_default (small_id 1) (small_id 1)) = (None, 0, 0)"
  by code_simp

lemmas self_view = self_view_ends [unfolded view_ends_def prod.inject]

lemma self_fields:
  "node_id (hd (snap_nodes self_snapshot)) = small_id 1" "required_transit (rq_constraints self_request) = []"
  "allow_zero_hop_self_path (rq_policy self_request)" "authority_validation (rq_policy self_request) = AuthMode_kNone"
  "rq_max_candidates self_request = 2" "cap_limits (capture self_runtime) = ResourceLimits_default"
  "cap_snapshot (capture self_runtime) = Some self_snapshot" "\<not> auth_enforce_scope (rq_authority self_request)"
  "\<not> auth_epoch_bound (rq_authority self_request)" "\<not> rq_expect_epoch self_request" "\<not> rq_expect_topology self_request"
  "\<not> rq_expect_snapshot self_request"
  by (simp_all add: self_snapshot_def self_request_def self_runtime_def small_snapshot_def small_request_def capture_def PlannerRuntime_new_def)

lemma self_planned: "\<exists>r stats. compute_plan (capture self_runtime) self_request = Inr (r, stats) \<and> length (res_candidates r) = 1"
  by (simp add: compute_plan_def admit_def self_valid self_fields self_resolved Let_def self_view compute_candidates_def
      authority_stage_def conclude_def rank_candidates_def set_ranks_def)


lemma Plan_status_spec: "status_honest (fst (Plan_interleaved before_check before_publish q rt))"
proof (cases rule: Plan_stages [where rt = rt and q = q and f = before_check and g = before_publish])
  case (refused r)
  then show ?thesis using compute_plan_refused [OF refused(1)] by (simp add: status_honest_def)
next
  case (published r stats r')
  have h: "status_honest r" by (rule compute_plan_honest [OF published(1)])
  have cur: "\<And>k. (\<forall>c \<in> set cs. cand_currentness c = k) \<longleftrightarrow> map cand_currentness cs = map (\<lambda>_. k) cs" for cs by auto
  have len: "length (res_candidates r') = length (res_candidates r)" using published(2) by (metis length_map)
  have "map (\<lambda>_. k) (res_candidates r') = map (\<lambda>_. k) (res_candidates r)" for k :: Currentness
    using len by (simp add: map_replicate_const)
  with h len published(6-8) show ?thesis unfolding status_honest_def cur by (auto simp: CarriesCandidates_def)
qed

text \<open>
  C4. The status of a result agrees with what it carries, whatever other threads do: PLANNED comes with
  candidates that are all CURRENT, TRUNCATED_BY_LIMIT with candidates, REVALIDATION_REQUIRED with no
  CURRENT candidate; a result with candidates has one of these statuses, and a result without any names
  its primary failure.
\<close>

theorem Plan_status_honest: "status_honest (fst (Plan_interleaved before_check before_publish q rt))"
  by (rule Plan_status_spec)

text \<open>
  C24. A refusal does not survive the wire.  A request that the planner refuses, for whatever reason, yields a
  result whose plan identity is nil; the result decoder demands a plan identity, so no receiver can read the encoding of such a
  result, and the structured status and diagnostics are lost.
\<close>

theorem refused_result_unreadable:
  assumes "compute_plan cap q = Inl r" "id_ok 16 (res_source_endpoint r)" "id_ok 16 (res_destination_endpoint r)"
    "id_ok 16 (res_source_node r)" "id_ok 16 (res_destination_node r)"
  shows "DecodePlanningResultPayload (enc_result r) limits \<noteq> Inr x"
  by (rule result_nil_id_unreadable [OF compute_plan_refused_id [OF assms(1)] assms(2-5)])

theorem refused_result_unreadable_witness:
  "\<exists>r. compute_plan (capture (PlannerRuntime_new ResourceLimits_default None None)) self_request = Inl r \<and>
     res_primary_failure r = Some DC_kSnapshotNotAvailable \<and>
     (\<forall>limits x. DecodePlanningResultPayload (enc_result r) limits \<noteq> Inr x)"
proof -
  have "\<exists>r. compute_plan (capture (PlannerRuntime_new ResourceLimits_default None None)) self_request = Inl r \<and>
      res_primary_failure r = Some DC_kSnapshotNotAvailable \<and> res_source_endpoint r = nil_id 16 \<and> res_destination_endpoint r = nil_id 16 \<and>
      res_source_node r = nil_id 16 \<and> res_destination_node r = nil_id 16"
    by (simp add: compute_plan_def admit_def capture_def PlannerRuntime_new_def self_valid self_fields Let_def refuse_def explain_def PlanningResult_new_def)
  then obtain r where r: "compute_plan (capture (PlannerRuntime_new ResourceLimits_default None None)) self_request = Inl r"
      "res_primary_failure r = Some DC_kSnapshotNotAvailable" "res_source_endpoint r = nil_id 16" "res_destination_endpoint r = nil_id 16"
      "res_source_node r = nil_id 16" "res_destination_node r = nil_id 16" by blast
  have n: "id_ok 16 (nil_id 16)" by (simp add: id_ok_def nil_id_def)
  show ?thesis using refused_result_unreadable [OF r(1)] r n by metis
qed

section \<open>The command line\<close>

lemma demo_plan:
  assumes "BuildDemoFabric opts = Inr f" "do_limits opts = ResourceLimits_default" "fst (Plan q (MakePlannerRuntime f)) = r"
  shows "length (res_candidates r) \<le> rq_max_candidates q"
    "\<forall>c \<in> set (res_candidates r). candidate_ok (df_snapshot f) q (res_source_node r) (res_destination_node r) c" "status_honest r"
proof -
  note F = demo_fabric_shape [OF assms(1) refl]
  have len: "length (snap_nodes (df_snapshot f)) < kInvalidIndex"
    using F(13) assms(2) by (simp add: ResourceLimits_default_def kInvalidIndex_def)
  have run: "run_snapshot (MakePlannerRuntime f) = Some (df_snapshot f)" by (simp add: MakePlannerRuntime_def PlannerRuntime_new_def)
  note P = Plan_candidates_spec [OF run F(2) len, of "\<lambda>rt. rt" "\<lambda>rt. rt" q, folded Plan_eq_interleaved, OF assms(3)]
  show "length (res_candidates r) \<le> rq_max_candidates q"
    "\<forall>c \<in> set (res_candidates r). candidate_ok (df_snapshot f) q (res_source_node r) (res_destination_node r) c"
    using P by simp_all
  show "status_honest r" unfolding assms(3) [symmetric] Plan_eq_interleaved by (rule Plan_status_spec)
qed

lemma demo_options_limits [simp]: "do_limits (DemoOptionsFromArgs args) = ResourceLimits_default"
  by (simp add: DemoOptionsFromArgs_def DemoOptions_default_def)

lemma honest_exit:
  "status_honest r \<Longrightarrow> exit_code r = (if res_candidates r = [] then if res_status r = Status_kRevalidationRequired then 0 else 1 else 0)"
  unfolding status_honest_def exit_code_def CarriesCandidates_def by (cases "res_candidates r = []"; cases "res_status r") simp_all

lemma first_traversed_link:
  assumes "first_traversed r = Some link" "\<forall>c \<in> set (res_candidates r). candidate_ok s q x y c"
  shows "link \<in> edge_id ` set (snap_edges s)"
proof -
  obtain c cs hop hops where c: "res_candidates r = c # cs" "path_hops (cand_path c) = hop # hops" "link = hop_link hop"
    using assms(1) by (auto simp: first_traversed_def split: list.splits)
  then have "fabric_path s q x y (cand_path c)" using assms(2) by (simp add: candidate_ok_def)
  with c show ?thesis by (auto simp: fabric_path_def hop_matches_def)
qed



end
